(* ===== verification/Prelude.thy ===== *)
theory Prelude
  imports Complex_Main "HOL-Library.Signed_Division"
begin

text \<open>
  Shared vocabulary of the development: the Go standard-library operations the
  program uses on strings, integers and floats, with the lemmas every component
  relies on.

  Conventions.
  \<^item> A Go string is its byte sequence: \<open>string\<close> is \<open>char list\<close> and a \<open>char\<close> is a byte.
    \<open>byte c\<close> is its value. Case folding and space trimming act on ASCII bytes; the
    feeds (callsigns, locators, bands, modes) are ASCII, and the Unicode tables of
    \<open>strings.ToUpper\<close> / \<open>strings.TrimSpace\<close> for other bytes are not modelled.
  \<^item> \<open>int\<close>, \<open>int64\<close> and counters are \<open>int\<close> or \<open>nat\<close>; where wrap-around can matter it
    is written out with \<open>i64\<close>, \<open>u64\<close>, \<open>u32\<close>.
  \<^item> \<open>float64\<close> is \<open>real\<close>: rounding is not modelled, every comparison and branch is.
  \<^item> Integer division and remainder truncate towards zero: \<open>quot\<close> and \<open>rem\<close>.
\<close>

named_theorems go_str \<open>rewriting with the string operations\<close>
named_theorems go_arith \<open>machine integers and truncated division\<close>

section \<open>Bytes\<close>

abbreviation byte :: "char \<Rightarrow> int" where
  "byte c \<equiv> of_char c"

lemma byte_bounds [simp]: "0 \<le> byte c" "byte c < 256" "byte c \<le> 255"
proof -
  have "byte c = byte c mod 256" by simp
  then show "0 \<le> byte c" "byte c < 256" by (metis pos_mod_sign zero_less_numeral, metis pos_mod_bound zero_less_numeral)
  then show "byte c \<le> 255" by simp
qed

lemma byte_char_of [simp]: "0 \<le> n \<Longrightarrow> n < 256 \<Longrightarrow> byte (char_of n) = n"
  by simp

lemma byte_char_of_nat [simp]: "byte (char_of (n::nat)) = int n mod 256"
proof -
  have "byte (char_of n) = int (of_char (char_of n))" by (simp only: of_nat_of_char)
  then show ?thesis by (simp add: zmod_int)
qed

lemma char_eq_byte: "c = d \<longleftrightarrow> byte c = byte d"
  by simp

definition bt :: "string \<Rightarrow> nat \<Rightarrow> int" where
  \<comment> \<open>\<open>s[i]\<close> as an integer; every use is guarded by a length test, as in the source\<close>
  "bt s i = byte (s ! i)"

lemma bt_bounds [simp]: "0 \<le> bt s i" "bt s i < 256"
  by (simp_all add: bt_def)

lemma bt_Cons [simp]: "bt (c # s) 0 = byte c" "bt (c # s) (Suc i) = bt s i"
  by (simp_all add: bt_def)

lemma bt_Cons_numeral [simp]: "bt (c # s) (numeral n) = bt s (pred_numeral n)"
  by (simp add: bt_def)

section \<open>Case folding and trimming\<close>

definition upper_char :: "char \<Rightarrow> char" where
  "upper_char c = (if 97 \<le> byte c \<and> byte c \<le> 122 then char_of (byte c - 32) else c)"

definition lower_char :: "char \<Rightarrow> char" where
  "lower_char c = (if 65 \<le> byte c \<and> byte c \<le> 90 then char_of (byte c + 32) else c)"

definition ToUpper :: "string \<Rightarrow> string" where
  "ToUpper s = map upper_char s"

definition ToLower :: "string \<Rightarrow> string" where
  "ToLower s = map lower_char s"

definition is_space :: "char \<Rightarrow> bool" where
  "is_space c \<longleftrightarrow> byte c = 32 \<or> (9 \<le> byte c \<and> byte c \<le> 13)"

definition TrimSpace :: "string \<Rightarrow> string" where
  "TrimSpace s = rev (dropWhile is_space (rev (dropWhile is_space s)))"

lemma byte_upper: "byte (upper_char c) = (if 97 \<le> byte c \<and> byte c \<le> 122 then byte c - 32 else byte c)"
  by (simp add: upper_char_def)

lemma byte_lower: "byte (lower_char c) = (if 65 \<le> byte c \<and> byte c \<le> 90 then byte c + 32 else byte c)"
  by (simp add: lower_char_def)

lemma upper_upper [simp]: "upper_char (upper_char c) = upper_char c"
  by (simp add: char_eq_byte byte_upper)

lemma is_space_upper [simp]: "is_space (upper_char c) = is_space c"
  by (auto simp: is_space_def byte_upper)

lemma ToUpper_simps [simp, go_str]:
  "ToUpper [] = []" "ToUpper (c # s) = upper_char c # ToUpper s"
  "ToUpper (s @ t) = ToUpper s @ ToUpper t" "length (ToUpper s) = length s"
  by (simp_all add: ToUpper_def)

lemma ToLower_simps [simp, go_str]:
  "ToLower [] = []" "ToLower (c # s) = lower_char c # ToLower s"
  "ToLower (s @ t) = ToLower s @ ToLower t" "length (ToLower s) = length s"
  by (simp_all add: ToLower_def)

lemma ToUpper_idem [simp]: "ToUpper (ToUpper s) = ToUpper s"
  by (induction s) auto

lemma ToUpper_nth: "i < length s \<Longrightarrow> ToUpper s ! i = upper_char (s ! i)"
  by (simp add: ToUpper_def)

lemma ToUpper_take: "ToUpper (take n s) = take n (ToUpper s)"
  by (simp add: ToUpper_def take_map)

lemma ToUpper_Nil_iff [simp]: "ToUpper s = [] \<longleftrightarrow> s = []"
  by (simp add: ToUpper_def)

lemma dropWhile_space_upper: "dropWhile is_space (ToUpper s) = ToUpper (dropWhile is_space s)"
  by (induction s) auto

lemma ToUpper_rev: "ToUpper (rev s) = rev (ToUpper s)"
  by (simp add: ToUpper_def rev_map)

lemma TrimSpace_ToUpper: "TrimSpace (ToUpper s) = ToUpper (TrimSpace s)"
  by (simp add: TrimSpace_def dropWhile_space_upper flip: ToUpper_rev)

lemma TrimSpace_Nil [simp]: "TrimSpace [] = []"
  by (simp add: TrimSpace_def)

lemma dropWhile_hd_idem: "dropWhile P (dropWhile P xs) = dropWhile P xs"
  by (induction xs) auto

lemma TrimSpace_ends:
  assumes "TrimSpace s \<noteq> []"
  shows "\<not> is_space (hd (TrimSpace s))" and "\<not> is_space (last (TrimSpace s))"
proof -
  let ?d = "dropWhile is_space s"
  have ne: "dropWhile is_space (rev ?d) \<noteq> []" using assms by (simp add: TrimSpace_def)
  have "last (TrimSpace s) = hd (dropWhile is_space (rev ?d))"
    using ne by (simp add: TrimSpace_def last_rev)
  with ne show "\<not> is_space (last (TrimSpace s))" by (simp add: hd_dropWhile)
  have dne: "?d \<noteq> []" using ne by (metis dropWhile.simps(1) rev.simps(1))
  obtain pre where pre: "rev ?d = pre @ dropWhile is_space (rev ?d)"
    by (metis takeWhile_dropWhile_id)
  then have "?d = TrimSpace s @ rev pre" by (metis TrimSpace_def rev_append rev_rev_ident)
  with assms have "hd (TrimSpace s) = hd ?d" by (metis hd_append2)
  with dne show "\<not> is_space (hd (TrimSpace s))" by (simp add: hd_dropWhile)
qed

lemma TrimSpace_id: "s = [] \<or> \<not> is_space (hd s) \<and> \<not> is_space (last s) \<Longrightarrow> TrimSpace s = s"
proof (erule disjE)
  assume a: "\<not> is_space (hd s) \<and> \<not> is_space (last s)"
  show ?thesis
  proof (cases s)
    case (Cons c r)
    with a have "dropWhile is_space s = s" by simp
    moreover have "dropWhile is_space (rev s) = rev s"
      using a Cons by (metis dropWhile_eq_self_iff hd_rev)
    ultimately show ?thesis by (simp add: TrimSpace_def)
  qed simp
qed simp

lemma TrimSpace_idem [simp]: "TrimSpace (TrimSpace s) = TrimSpace s"
  by (rule TrimSpace_id) (use TrimSpace_ends in blast)

section \<open>Prefixes, substrings and separators\<close>

definition HasPrefix :: "string \<Rightarrow> string \<Rightarrow> bool" where
  "HasPrefix s p \<longleftrightarrow> take (length p) s = p"

definition HasSuffix :: "string \<Rightarrow> string \<Rightarrow> bool" where
  "HasSuffix s p \<longleftrightarrow> length p \<le> length s \<and> drop (length s - length p) s = p"

definition TrimPrefix :: "string \<Rightarrow> string \<Rightarrow> string" where
  "TrimPrefix s p = (if HasPrefix s p then drop (length p) s else s)"

definition TrimSuffix :: "string \<Rightarrow> string \<Rightarrow> string" where
  "TrimSuffix s p = (if HasSuffix s p then take (length s - length p) s else s)"

fun Contains :: "string \<Rightarrow> string \<Rightarrow> bool" where
  "Contains [] p \<longleftrightarrow> p = []"
| "Contains (c # s) p \<longleftrightarrow> HasPrefix (c # s) p \<or> Contains s p"

fun IndexByte :: "string \<Rightarrow> char \<Rightarrow> nat option" where
  "IndexByte [] x = None"
| "IndexByte (c # s) x = (if c = x then Some 0 else map_option Suc (IndexByte s x))"

fun Split_at :: "char \<Rightarrow> string \<Rightarrow> string \<Rightarrow> string list" where
  "Split_at sep acc [] = [rev acc]"
| "Split_at sep acc (c # s) =
     (if c = sep then rev acc # Split_at sep [] s else Split_at sep (c # acc) s)"

definition Split :: "string \<Rightarrow> char \<Rightarrow> string list" where
  \<comment> \<open>\<open>strings.Split\<close> with a one-byte separator\<close>
  "Split s sep = Split_at sep [] s"

lemma HasPrefix_iff: "HasPrefix s p \<longleftrightarrow> (\<exists>r. s = p @ r)"
  by (metis HasPrefix_def append_eq_conv_conj append_take_drop_id)

lemma HasPrefix_append [simp]: "HasPrefix (p @ s) p"
  by (simp add: HasPrefix_def)

lemma HasSuffix_iff: "HasSuffix s p \<longleftrightarrow> (\<exists>r. s = r @ p)"
proof
  assume "HasSuffix s p"
  then show "\<exists>r. s = r @ p" by (metis HasSuffix_def append_take_drop_id)
qed (auto simp: HasSuffix_def)

lemma Contains_iff: "Contains s p \<longleftrightarrow> (\<exists>u v. s = u @ p @ v)"
proof (induction s)
  case (Cons c s)
  show ?case
  proof
    assume "Contains (c # s) p"
    then consider "HasPrefix (c # s) p" | "Contains s p" by auto
    then show "\<exists>u v. c # s = u @ p @ v"
    proof cases
      case 1
      then show ?thesis by (metis HasPrefix_iff append_Nil)
    next
      case 2
      then show ?thesis using Cons.IH by (metis append_Cons)
    qed
  next
    assume "\<exists>u v. c # s = u @ p @ v"
    then obtain u v where uv: "c # s = u @ p @ v" by blast
    show "Contains (c # s) p"
    proof (cases u)
      case Nil
      with uv have "HasPrefix (c # s) p" by (auto simp: HasPrefix_iff)
      then show ?thesis by simp
    next
      case (Cons d u')
      with uv have "s = u' @ p @ v" by simp
      then show ?thesis using Cons.IH by auto
    qed
  qed
qed simp

lemma IndexByte_Some:
  "IndexByte s x = Some i \<Longrightarrow> i < length s \<and> s ! i = x \<and> x \<notin> set (take i s)"
  by (induction s x arbitrary: i rule: IndexByte.induct) (auto split: if_splits)

lemma IndexByte_None: "IndexByte s x = None \<longleftrightarrow> x \<notin> set s"
  by (induction s x rule: IndexByte.induct) auto

lemma IndexByte_append: "x \<notin> set u \<Longrightarrow> IndexByte (u @ x # v) x = Some (length u)"
  by (induction u) auto

lemma Split_at_no_sep: "sep \<notin> set s \<Longrightarrow> Split_at sep acc (s @ t) = Split_at sep (rev s @ acc) t"
  by (induction s arbitrary: acc) auto

lemma Split_Cons: "sep \<notin> set s \<Longrightarrow> Split (s @ sep # t) sep = s # Split t sep"
  by (simp add: Split_def Split_at_no_sep)

lemma Split_single: "sep \<notin> set s \<Longrightarrow> Split s sep = [s]"
  using Split_at_no_sep [of sep s "[]" "[]"] by (simp add: Split_def)

section \<open>Integers\<close>

abbreviation quot :: "int \<Rightarrow> int \<Rightarrow> int" where
  "quot a b \<equiv> a sdiv b"

abbreviation rem :: "int \<Rightarrow> int \<Rightarrow> int" where
  "rem a b \<equiv> a smod b"

lemma quot_nonneg [go_arith]: "0 \<le> a \<Longrightarrow> 0 < b \<Longrightarrow> quot a b = a div b"
  by (cases "a = 0") (simp_all add: signed_divide_int_def)

lemma rem_nonneg [go_arith]: "0 \<le> a \<Longrightarrow> 0 < b \<Longrightarrow> rem a b = a mod b"
  by (cases "a = 0") (simp_all add: signed_modulo_int_def)

lemma rem_mod: "rem a b mod b = a mod b"
  by (metis mod_mult_self2 mult_sdiv_smod_eq add.commute)

lemma rem_abs: "0 < b \<Longrightarrow> \<bar>rem a b\<bar> < b"
  using smod_int_range [of b a] by auto

lemma rem_shift: "0 < b \<Longrightarrow> rem (rem t b + b) b = t mod b"
  using rem_abs [of b t] by (simp add: rem_nonneg rem_mod)

definition u64 :: "int \<Rightarrow> int" where
  "u64 x = x mod 2 ^ 64"

definition u32 :: "int \<Rightarrow> int" where
  "u32 x = x mod 2 ^ 32"

definition i64 :: "int \<Rightarrow> int" where
  "i64 x = (x + 2 ^ 63) mod 2 ^ 64 - 2 ^ 63"

lemma u64_id [go_arith]: "0 \<le> x \<Longrightarrow> x < 2 ^ 64 \<Longrightarrow> u64 x = x"
  by (simp add: u64_def)

lemma u32_id [go_arith]: "0 \<le> x \<Longrightarrow> x < 2 ^ 32 \<Longrightarrow> u32 x = x"
  by (simp add: u32_def)

lemma i64_id [go_arith]: "- (2 ^ 63) \<le> x \<Longrightarrow> x < 2 ^ 63 \<Longrightarrow> i64 x = x"
  by (simp add: i64_def)

lemma u64_range: "0 \<le> u64 x" "u64 x < 2 ^ 64"
  by (simp_all add: u64_def)

lemma i64_range: "- (2 ^ 63) \<le> i64 x" "i64 x < 2 ^ 63"
proof -
  have "0 \<le> (x + 2 ^ 63) mod 2 ^ 64" "(x + 2 ^ 63) mod 2 ^ 64 < 2 ^ 64" by simp_all
  then show "- (2 ^ 63) \<le> i64 x" "i64 x < 2 ^ 63" by (simp_all add: i64_def)
qed

definition trunc :: "real \<Rightarrow> int" where
  \<comment> \<open>Go's \<open>int(f)\<close>: truncation towards zero\<close>
  "trunc x = (if 0 \<le> x then \<lfloor>x\<rfloor> else \<lceil>x\<rceil>)"

lemma trunc_nonneg: "0 \<le> x \<Longrightarrow> trunc x = \<lfloor>x\<rfloor>"
  by (simp add: trunc_def)

definition goRound :: "real \<Rightarrow> int" where
  \<comment> \<open>\<open>int(math.Round(x))\<close>: half away from zero\<close>
  "goRound x = (if 0 \<le> x then \<lfloor>x + 1/2\<rfloor> else - \<lfloor>1/2 - x\<rfloor>)"

lemma goRound_nonneg: "0 \<le> x \<Longrightarrow> 0 \<le> goRound x"
  by (simp add: goRound_def)

lemma goRound_less: "0 \<le> x \<Longrightarrow> x < of_int n \<Longrightarrow> goRound x \<le> n"
  by (simp add: goRound_def) linarith

section \<open>Decimal numbers\<close>

fun digits :: "nat \<Rightarrow> string" where
  "digits n = (if n < 10 then [char_of (48 + n)] else digits (n div 10) @ [char_of (48 + n mod 10)])"

declare digits.simps [simp del]

definition itoa :: "int \<Rightarrow> string" where
  \<comment> \<open>\<open>strconv.Itoa\<close> / \<open>strconv.AppendInt\<close> in base 10\<close>
  "itoa x = (if x < 0 then CHR ''-'' # digits (nat (- x)) else digits (nat x))"

fun value_of :: "nat \<Rightarrow> string \<Rightarrow> nat" where
  "value_of acc [] = acc"
| "value_of acc (c # s) = value_of (acc * 10 + (of_char c - 48)) s"

definition is_digit :: "char \<Rightarrow> bool" where
  "is_digit c \<longleftrightarrow> 48 \<le> byte c \<and> byte c \<le> 57"

lemma value_of_append: "value_of acc (s @ t) = value_of (value_of acc s) t"
  by (induction s arbitrary: acc) auto

lemma digits_ne [simp]: "digits n \<noteq> []"
  by (subst digits.simps) simp

lemma digits_is_digit: "c \<in> set (digits n) \<Longrightarrow> is_digit c"
proof (induction n rule: digits.induct)
  case (1 n)
  show ?case
  proof (cases "n < 10")
    case True
    with "1.prems" show ?thesis by (subst (asm) digits.simps) (auto simp: is_digit_def)
  next
    case False
    have "n mod 10 < 10" by simp
    with False 1 show ?thesis
      by (subst (asm) (2) digits.simps) (auto simp: is_digit_def)
  qed
qed

lemma value_of_digits [simp]: "value_of 0 (digits n) = n"
proof (induction n rule: digits.induct)
  case (1 n)
  then show ?case
    by (subst digits.simps) (simp add: value_of_append)
qed

lemma digits_inj: "digits m = digits n \<longleftrightarrow> m = n"
  by (metis value_of_digits)

lemma digits_no [simp]: "\<not> is_digit c \<Longrightarrow> c \<notin> set (digits n)"
  using digits_is_digit by blast

lemma itoa_inj: "itoa x = itoa y \<longleftrightarrow> x = y"
proof
  assume a: "itoa x = itoa y"
  have no: "CHR ''-'' # u \<noteq> digits n" for u n
  proof
    assume "CHR ''-'' # u = digits n"
    then have "CHR ''-'' \<in> set (digits n)" by (metis list.set_intros(1))
    then show False using digits_is_digit by (fastforce simp: is_digit_def)
  qed
  from a consider "x < 0" "y < 0" "digits (nat (- x)) = digits (nat (- y))"
    | "\<not> x < 0" "\<not> y < 0" "digits (nat x) = digits (nat y)"
    using no no [symmetric] by (simp add: itoa_def split: if_splits)
  then show "x = y"
    by cases (simp_all add: digits_inj)
qed simp

lemma digits_all_digit: "\<forall>c\<in>set (digits n). is_digit c"
  using digits_is_digit by blast

definition ParseDigits :: "string \<Rightarrow> nat option" where
  \<comment> \<open>a non-empty run of decimal digits and nothing else\<close>
  "ParseDigits s = (if s \<noteq> [] \<and> list_all is_digit s then Some (value_of 0 s) else None)"

definition ParseUint64 :: "string \<Rightarrow> int option" where
  \<comment> \<open>\<open>strconv.ParseUint(s, 10, 64)\<close>\<close>
  "ParseUint64 s =
     (case ParseDigits s of None \<Rightarrow> None
      | Some n \<Rightarrow> if int n < 2 ^ 64 then Some (int n) else None)"

definition Atoi :: "string \<Rightarrow> int option" where
  \<comment> \<open>\<open>strconv.Atoi\<close> / \<open>strconv.ParseInt(s, 10, 64)\<close>: an optional sign, then digits, in range\<close>
  "Atoi s =
     (let neg = (s \<noteq> [] \<and> hd s = CHR ''-'');
          r = (if s \<noteq> [] \<and> (hd s = CHR ''-'' \<or> hd s = CHR ''+'') then tl s else s)
      in case ParseDigits r of None \<Rightarrow> None
         | Some n \<Rightarrow> let v = (if neg then - int n else int n)
                      in if - (2 ^ 63) \<le> v \<and> v < 2 ^ 63 then Some v else None)"

lemma ParseDigits_digits [simp]: "ParseDigits (digits n) = Some n"
  by (simp add: ParseDigits_def list_all_iff digits_all_digit)

lemma ParseUint64_digits: "int n < 2 ^ 64 \<Longrightarrow> ParseUint64 (digits n) = Some (int n)"
  by (simp add: ParseUint64_def)

lemma hd_digits: "is_digit (hd (digits n))"
  using digits_is_digit [of "hd (digits n)" n] by simp

lemma Atoi_itoa:
  assumes "- (2 ^ 63) \<le> x" "x < 2 ^ 63"
  shows "Atoi (itoa x) = Some x"
proof -
  have "hd (digits n) \<noteq> CHR ''-'' \<and> hd (digits n) \<noteq> CHR ''+''" for n
    using hd_digits [of n] by (auto simp: is_digit_def)
  then show ?thesis using assms by (simp add: Atoi_def itoa_def Let_def)
qed

section \<open>Lists\<close>

lemma filter_take_drop: "filter P (take n xs) @ filter P (drop n xs) = filter P xs"
  by (metis append_take_drop_id filter_append)

lemma sum_list_map_filter_if:
  "sum_list (map f (filter P xs)) = sum_list (map (\<lambda>x. if P x then f x else (0::'a::comm_monoid_add)) xs)"
  by (induction xs) auto

lemma distinct_concat_map:
  assumes "distinct xs" and "\<And>x. x \<in> set xs \<Longrightarrow> distinct (f x)"
    and "\<And>x y. x \<in> set xs \<Longrightarrow> y \<in> set xs \<Longrightarrow> x \<noteq> y \<Longrightarrow> set (f x) \<inter> set (f y) = {}"
  shows "distinct (concat (map f xs))"
  using assms
proof (induction xs)
  case (Cons x xs)
  then have "set (f x) \<inter> (\<Union>y\<in>set xs. set (f y)) = {}" by auto
  with Cons show ?case by auto
qed simp

end
