(* ===== verification/Maidenhead.thy ===== *)
theory Maidenhead
  imports Prelude
begin

text \<open>
  \<^verbatim>\<open>internal/maidenhead/maidenhead.go\<close>: Maidenhead locators. A square is a pair of
  coordinates on the 180 x 180 grid (x: 2 degrees of longitude, y: 1 degree of
  latitude); its name has two letters A-R and two digits. The second half has the
  6 x 6 clusters the scoring baseline is keyed on and the conversions to and from
  latitude and longitude (\<open>float64\<close> as \<open>real\<close>).
\<close>

section \<open>Validation and square coordinates\<close>

definition IsLocator :: "string \<Rightarrow> bool" where
  "IsLocator s =
     (if length s < 4 then False
      else if bt s 0 < 65 \<or> bt s 0 > 82 \<or> bt s 1 < 65 \<or> bt s 1 > 82 then False
      else if bt s 2 < 48 \<or> bt s 2 > 57 \<or> bt s 3 < 48 \<or> bt s 3 > 57 then False
      else True)"

definition SquareXY :: "string \<Rightarrow> (int \<times> int) option" where
  "SquareXY locator =
     (if \<not> IsLocator locator then None
      else Some ((bt locator 0 - 65) * 10 + (bt locator 2 - 48),
                 (bt locator 1 - 65) * 10 + (bt locator 3 - 48)))"

definition SquareXYFold :: "string \<Rightarrow> (int \<times> int) option" where
  "SquareXYFold locator =
     (if length locator < 4 then None
      else let c0 = bt locator 0; c1 = bt locator 1;
               c0 = (if c0 \<ge> 97 \<and> c0 \<le> 122 then c0 - 32 else c0);
               c1 = (if c1 \<ge> 97 \<and> c1 \<le> 122 then c1 - 32 else c1);
               d0 = bt locator 2; d1 = bt locator 3
           in if c0 < 65 \<or> c0 > 82 \<or> c1 < 65 \<or> c1 > 82 \<or> d0 < 48 \<or> d0 > 57 \<or> d1 < 48 \<or> d1 > 57
              then None
              else Some ((c0 - 65) * 10 + (d0 - 48), (c1 - 65) * 10 + (d1 - 48)))"

definition SquareXYToLocator :: "int \<Rightarrow> int \<Rightarrow> string" where
  "SquareXYToLocator x y =
     [char_of (65 + quot x 10), char_of (65 + quot y 10),
      char_of (48 + rem x 10), char_of (48 + rem y 10)]"

definition on_grid :: "int \<Rightarrow> int \<Rightarrow> bool" where
  "on_grid x y \<longleftrightarrow> 0 \<le> x \<and> x < 180 \<and> 0 \<le> y \<and> y < 180"

lemma length4_Cons: "4 \<le> length s \<Longrightarrow> \<exists>a b c d r. s = a # b # c # d # r"
  by (auto simp: numeral_eq_Suc Suc_le_length_iff)

lemma IsLocator_Cons [simp]:
  "IsLocator (a # b # c # d # r) \<longleftrightarrow>
     65 \<le> byte a \<and> byte a \<le> 82 \<and> 65 \<le> byte b \<and> byte b \<le> 82 \<and>
     48 \<le> byte c \<and> byte c \<le> 57 \<and> 48 \<le> byte d \<and> byte d \<le> 57"
  by (auto simp: IsLocator_def bt_def)

lemma IsLocator_length: "IsLocator s \<Longrightarrow> 4 \<le> length s"
  by (simp add: IsLocator_def split: if_splits)

lemma IsLocator_cases:
  assumes "IsLocator s"
  obtains a b c d r where "s = a # b # c # d # r"
    "65 \<le> byte a" "byte a \<le> 82" "65 \<le> byte b" "byte b \<le> 82"
    "48 \<le> byte c" "byte c \<le> 57" "48 \<le> byte d" "byte d \<le> 57"
  using length4_Cons [OF IsLocator_length [OF assms]] assms by auto

lemma SquareXY_Cons:
  "IsLocator (a # b # c # d # r) \<Longrightarrow>
     SquareXY (a # b # c # d # r) = Some ((byte a - 65) * 10 + (byte c - 48), (byte b - 65) * 10 + (byte d - 48))"
  by (simp add: SquareXY_def bt_def)

lemma SquareXY_None_iff: "SquareXY s = None \<longleftrightarrow> \<not> IsLocator s"
  by (simp add: SquareXY_def)

lemma SquareXY_IsLocator: "SquareXY s = Some p \<Longrightarrow> IsLocator s"
  by (simp add: SquareXY_def split: if_splits)

lemma SquareXY_on_grid: "SquareXY s = Some (x, y) \<Longrightarrow> on_grid x y"
  by (auto simp: SquareXY_def on_grid_def IsLocator_def split: if_splits)

lemma IsLocator_take4: "IsLocator s \<Longrightarrow> IsLocator (take 4 s)"
  by (erule IsLocator_cases) (simp add: numeral_eq_Suc)

lemma SquareXY_take4: "IsLocator s \<Longrightarrow> SquareXY (take 4 s) = SquareXY s"
  by (erule IsLocator_cases) (simp add: numeral_eq_Suc SquareXY_Cons)

lemma grid_digits:
  assumes "0 \<le> x" "x < (180::int)"
  shows "quot x 10 = x div 10" "rem x 10 = x mod 10"
    "0 \<le> x div 10" "x div 10 < 18" "0 \<le> x mod 10" "x mod 10 < 10" "x div 10 * 10 + x mod 10 = x"
  using assms by (auto simp: go_arith)

lemma SquareXY_SquareXYToLocator:
  assumes "on_grid x y"
  shows "SquareXY (SquareXYToLocator x y) = Some (x, y)"
proof -
  have x: "0 \<le> x" "x < 180" and y: "0 \<le> y" "y < 180" using assms by (auto simp: on_grid_def)
  note dx = grid_digits [OF x] and dy = grid_digits [OF y]
  have mx: "(65 + x div 10) mod 256 = 65 + x div 10" "(48 + x mod 10) mod 256 = 48 + x mod 10"
    and my: "(65 + y div 10) mod 256 = 65 + y div 10" "(48 + y mod 10) mod 256 = 48 + y mod 10"
    using dx(3-6) dy(3-6) by (auto intro!: mod_pos_pos_trivial)
  have loc: "IsLocator (SquareXYToLocator x y)"
    using dx(3-6) dy(3-6)
    by (simp add: SquareXYToLocator_def dx(1,2) dy(1,2) mx my zless_imp_add1_zle [of _ 10, simplified])
  then show ?thesis
    unfolding SquareXYToLocator_def
    by (subst SquareXY_Cons) (use dx(7) dy(7) in \<open>simp_all add: dx(1,2) dy(1,2) mx my\<close>)
qed

lemma IsLocator_SquareXYToLocator: "on_grid x y \<Longrightarrow> IsLocator (SquareXYToLocator x y)"
  using SquareXY_SquareXYToLocator SquareXY_IsLocator by blast

lemma SquareXYToLocator_inj:
  "on_grid x y \<Longrightarrow> on_grid x' y' \<Longrightarrow> SquareXYToLocator x y = SquareXYToLocator x' y' \<longleftrightarrow> x = x' \<and> y = y'"
  by (metis SquareXY_SquareXYToLocator option.inject prod.inject)

lemma digit_split: "0 \<le> d \<Longrightarrow> d < (10::int) \<Longrightarrow> (q * 10 + d) div 10 = q \<and> (q * 10 + d) mod 10 = d"
  by auto

lemma SquareXYToLocator_SquareXY:
  assumes "SquareXY s = Some (x, y)"
  shows "SquareXYToLocator x y = take 4 s"
proof -
  from assms have "IsLocator s" by (rule SquareXY_IsLocator)
  then obtain a b c d r where s: "s = a # b # c # d # r"
    "65 \<le> byte a" "byte a \<le> 82" "65 \<le> byte b" "byte b \<le> 82"
    "48 \<le> byte c" "byte c \<le> 57" "48 \<le> byte d" "byte d \<le> 57"
    by (rule IsLocator_cases)
  have xy: "x = (byte a - 65) * 10 + (byte c - 48)" "y = (byte b - 65) * 10 + (byte d - 48)"
    using assms s by (auto simp: SquareXY_Cons)
  have "0 \<le> x" "x < 180" "0 \<le> y" "y < 180" using s xy by auto
  moreover have "x div 10 = byte a - 65 \<and> x mod 10 = byte c - 48"
    "y div 10 = byte b - 65 \<and> y mod 10 = byte d - 48"
    unfolding xy by (rule digit_split; use s in linarith)+
  ultimately have "SquareXYToLocator x y = [a, b, c, d]"
    by (simp add: SquareXYToLocator_def go_arith)
  then show ?thesis using s by (simp add: numeral_eq_Suc)
qed

section \<open>Case folding in place\<close>

lemma IsLocator_ToUpper_id4: "IsLocator s \<Longrightarrow> take 4 (ToUpper s) = take 4 s"
  by (erule IsLocator_cases) (auto simp: numeral_eq_Suc upper_char_def)

lemma SquareXYFold_eq: "SquareXYFold s = SquareXY (ToUpper s)"
proof (cases "length s < 4")
  case True
  then show ?thesis by (simp add: SquareXYFold_def SquareXY_def IsLocator_def)
next
  case False
  then obtain a b c d r where "s = a # b # c # d # r" using length4_Cons [of s] by auto
  then show ?thesis
    by (auto simp: SquareXYFold_def SquareXY_def Let_def byte_upper bt_def)
qed

section \<open>Blocks of squares\<close>

definition SquaresWithinRings :: "string \<Rightarrow> int \<Rightarrow> string list" where
  "SquaresWithinRings locator rings =
     (case SquareXY locator of
        None \<Rightarrow> [locator]
      | Some (cx, cy) \<Rightarrow>
          (let rings = (if rings < 0 then 0 else rings)
           in concat (map (\<lambda>dx. concat (map (\<lambda>dy.
                let nx = cx + dx; ny = cy + dy
                in if nx \<ge> 0 \<and> nx < 180 \<and> ny \<ge> 0 \<and> ny < 180 then [SquareXYToLocator nx ny] else [])
                [- rings .. rings])) [- rings .. rings])))"

definition SurroundingSquares :: "string \<Rightarrow> string list" where
  "SurroundingSquares locator = SquaresWithinRings locator 1"

definition QTHSquares :: "string \<Rightarrow> bool \<Rightarrow> string list" where
  "QTHSquares qth surroundings =
     (if \<not> IsLocator qth then [qth]
      else SquaresWithinRings (take 4 qth) (if surroundings then 1 else 0))"

definition chebyshev_le :: "int \<Rightarrow> int \<Rightarrow> int \<Rightarrow> int \<Rightarrow> int \<Rightarrow> bool" where
  \<comment> \<open>the block test: both coordinates differ by at most \<open>r\<close>\<close>
  "chebyshev_le r cx cy x y \<longleftrightarrow> \<bar>x - cx\<bar> \<le> r \<and> \<bar>y - cy\<bar> \<le> r"

text \<open>
  The contract the area filters rely on: a decoder from strings to grid coordinates and
  a naming function that agree. The block of names around a square is then exactly the
  set of names whose square is near it.
\<close>

locale square_codec =
  fixes decode :: "string \<Rightarrow> (int \<times> int) option"
    and name :: "int \<Rightarrow> int \<Rightarrow> string"
  assumes decode_on_grid: "decode s = Some (x, y) \<Longrightarrow> on_grid x y"
    and decode_name: "on_grid x y \<Longrightarrow> decode (name x y) = Some (x, y)"
begin

lemma name_inj: "on_grid x y \<Longrightarrow> on_grid x' y' \<Longrightarrow> name x y = name x' y' \<Longrightarrow> x = x' \<and> y = y'"
  by (metis decode_name option.inject prod.inject)

definition row :: "int \<Rightarrow> int \<Rightarrow> int \<Rightarrow> string list" where
  "row r cy nx = concat (map (\<lambda>dy. if on_grid nx (cy + dy) then [name nx (cy + dy)] else []) [- r .. r])"

definition block :: "int \<Rightarrow> int \<Rightarrow> int \<Rightarrow> string list" where
  "block r cx cy = concat (map (\<lambda>dx. row r cy (cx + dx)) [- r .. r])"

lemma set_row: "set (row r cy nx) = {name nx y | y. on_grid nx y \<and> \<bar>y - cy\<bar> \<le> r}"
proof -
  have "name nx y \<in> set (row r cy nx)" if "on_grid nx y" "\<bar>y - cy\<bar> \<le> r" for y
    using that by (auto simp: row_def intro!: bexI [of _ "y - cy"])
  moreover have "\<exists>y. s = name nx y \<and> on_grid nx y \<and> \<bar>y - cy\<bar> \<le> r" if s: "s \<in> set (row r cy nx)" for s
  proof -
    from s obtain d where "s = name nx (cy + d)" "on_grid nx (cy + d)" "\<bar>d\<bar> \<le> r"
      by (auto simp: row_def)
    then show ?thesis by (intro exI [of _ "cy + d"]) simp
  qed
  ultimately show ?thesis by blast
qed

lemma set_block: "set (block r cx cy) = {name x y | x y. on_grid x y \<and> chebyshev_le r cx cy x y}"
proof -
  have "name x y \<in> set (block r cx cy)" if "on_grid x y" "chebyshev_le r cx cy x y" for x y
    using that by (auto simp: block_def set_row chebyshev_le_def intro!: bexI [of _ "x - cx"])
  then show ?thesis
    by (fastforce simp: block_def set_row chebyshev_le_def)
qed

lemma distinct_row: "distinct (row r cy nx)"
  unfolding row_def
  by (rule distinct_concat_map) (auto dest: name_inj)

lemma distinct_block: "distinct (block r cx cy)"
  unfolding block_def
  by (rule distinct_concat_map) (auto simp: distinct_row set_row dest: name_inj)

lemma length_row: "length (row r cy nx) \<le> nat (2 * r + 1)"
proof -
  have "length (concat (map (\<lambda>d. if P d then [f d] else []) ds)) \<le> length ds" for P f ds
    by (induction ds) auto
  from this [of "\<lambda>dy. on_grid nx (cy + dy)" "\<lambda>dy. name nx (cy + dy)" "[- r .. r]"]
  show ?thesis by (simp add: row_def length_upto)
qed

lemma length_block: "length (block r cx cy) \<le> nat (2 * r + 1) * nat (2 * r + 1)"
proof -
  have "length (concat (map f ds)) \<le> length ds * b" if "\<And>d. length (f d) \<le> b" for f ds b
    using that by (induction ds) (auto intro: add_mono)
  from this [of "\<lambda>dx. row r cy (cx + dx)" "nat (2 * r + 1)" "[- r .. r]", OF length_row]
  show ?thesis by (simp add: block_def length_upto)
qed

lemma decode_block:
  "s \<in> set (block r cx cy) \<Longrightarrow> \<exists>x y. decode s = Some (x, y) \<and> chebyshev_le r cx cy x y"
  by (auto simp: set_block decode_name)

end

interpretation exact: square_codec SquareXY SquareXYToLocator
  by unfold_locales (auto simp: SquareXY_on_grid SquareXY_SquareXYToLocator)

lemma SquareXYFold_on_grid: "SquareXYFold s = Some (x, y) \<Longrightarrow> on_grid x y"
  by (simp add: SquareXYFold_eq SquareXY_on_grid)

lemma ToUpper_SquareXYToLocator:
  assumes "on_grid x y"
  shows "ToUpper (SquareXYToLocator x y) = SquareXYToLocator x y"
proof -
  have "length (SquareXYToLocator x y) = 4" by (simp add: SquareXYToLocator_def)
  then show ?thesis
    using IsLocator_ToUpper_id4 [OF IsLocator_SquareXYToLocator [OF assms]] by simp
qed

interpretation folded: square_codec SquareXYFold SquareXYToLocator
  by unfold_locales
    (auto simp: SquareXYFold_on_grid SquareXYFold_eq ToUpper_SquareXYToLocator SquareXY_SquareXYToLocator)

lemma SquaresWithinRings_block:
  "SquareXY loc = Some (cx, cy) \<Longrightarrow> SquaresWithinRings loc rings = exact.block (max 0 rings) cx cy"
  by (simp add: SquaresWithinRings_def exact.block_def exact.row_def on_grid_def Let_def max_def conj_assoc)

lemma SquaresWithinRings_0: "IsLocator loc \<Longrightarrow> SquaresWithinRings loc 0 = [take 4 loc]"
  using SquareXYToLocator_SquareXY [of loc] SquareXY_on_grid [of loc]
  by (auto simp: SquaresWithinRings_def SquareXY_def on_grid_def Let_def)

section \<open>Clusters\<close>

definition ClusterSide :: int where
  "ClusterSide = 6"

definition ClusterAnchorXY :: "int \<Rightarrow> int \<Rightarrow> int \<times> int" where
  "ClusterAnchorXY x y =
     (let ax = quot x ClusterSide * ClusterSide;
          ay = quot y ClusterSide * ClusterSide;
          ax = (if ax > 180 - ClusterSide then 180 - ClusterSide else ax);
          ay = (if ay > 180 - ClusterSide then 180 - ClusterSide else ay)
      in (ax, ay))"

definition ClusterAnchor :: "string \<Rightarrow> string option" where
  "ClusterAnchor locator =
     (case SquareXY locator of
        None \<Rightarrow> None
      | Some (x, y) \<Rightarrow> (let (ax, ay) = ClusterAnchorXY x y in Some (SquareXYToLocator ax ay)))"

definition InCluster :: "string \<Rightarrow> int \<Rightarrow> int \<Rightarrow> bool" where
  "InCluster locator ax ay =
     (case SquareXYFold locator of
        None \<Rightarrow> False
      | Some (x, y) \<Rightarrow> (let (cx, cy) = ClusterAnchorXY x y in cx = ax \<and> cy = ay))"

text \<open>The grid side is a multiple of the cluster side, so the clamp never fires.\<close>

lemma cluster_floor:
  assumes "0 \<le> x" "x < (180::int)"
  shows "x div 6 * 6 \<le> x" "x < x div 6 * 6 + 6" "0 \<le> x div 6 * 6" "x div 6 * 6 \<le> 174"
  using assms by auto

lemma ClusterAnchorXY_on_grid:
  "on_grid x y \<Longrightarrow> ClusterAnchorXY x y = (x div 6 * 6, y div 6 * 6)"
  using cluster_floor [of x] cluster_floor [of y]
  by (auto simp: ClusterAnchorXY_def ClusterSide_def on_grid_def Let_def quot_nonneg)

lemma ClusterAnchorXY_idem:
  "on_grid x y \<Longrightarrow> ClusterAnchorXY x y = (ax, ay) \<Longrightarrow> on_grid ax ay \<and> ClusterAnchorXY ax ay = (ax, ay)"
  using cluster_floor [of x] cluster_floor [of y]
  by (auto simp: ClusterAnchorXY_on_grid on_grid_def)

lemma InCluster_ClusterAnchor:
  assumes "ClusterAnchor anchor = Some a" and "SquareXY a = Some (ax, ay)"
  shows "InCluster s ax ay \<longleftrightarrow> ClusterAnchor (ToUpper s) = Some a"
proof -
  from assms(1) obtain x0 y0 where 0: "SquareXY anchor = Some (x0, y0)"
    and a: "a = SquareXYToLocator (fst (ClusterAnchorXY x0 y0)) (snd (ClusterAnchorXY x0 y0))"
    by (auto simp: ClusterAnchor_def split: option.splits prod.splits)
  have g0: "on_grid (fst (ClusterAnchorXY x0 y0)) (snd (ClusterAnchorXY x0 y0))"
    using ClusterAnchorXY_idem [OF SquareXY_on_grid [OF 0]] by (metis prod.collapse)
  have anchor: "a = SquareXYToLocator ax ay" "on_grid ax ay"
    using a assms(2) SquareXY_SquareXYToLocator [OF g0] g0 by auto
  show ?thesis
  proof (cases "SquareXY (ToUpper s)")
    case None
    then show ?thesis by (simp add: InCluster_def ClusterAnchor_def SquareXYFold_eq)
  next
    case (Some p)
    obtain x y where p: "p = (x, y)" by fastforce
    obtain cx cy where c: "ClusterAnchorXY x y = (cx, cy)" by fastforce
    have "on_grid cx cy"
      using ClusterAnchorXY_idem [OF SquareXY_on_grid c] Some p by blast
    then show ?thesis
      using Some p c anchor
      by (simp add: InCluster_def ClusterAnchor_def SquareXYFold_eq SquareXYToLocator_inj)
  qed
qed

section \<open>Latitude and longitude\<close>

definition ub :: "int \<Rightarrow> real" where
  \<comment> \<open>\<open>float64(b)\<close> of a difference of bytes, which wraps at 256\<close>
  "ub d = of_int (d mod 256)"

definition ToLatLng :: "string \<Rightarrow> real \<times> real" where
  "ToLatLng loc =
     (let locator = ToUpper loc in
      if length locator < 2 then (0, 0)
      else let lng = ub (bt locator 0 - 65) * 20 - 180;
               lat = ub (bt locator 1 - 65) * 10 - 90
           in if length locator \<ge> 4
              then let lng = lng + ub (bt locator 2 - 48) * 2;
                       lat = lat + ub (bt locator 3 - 48) * 1
                   in if length locator \<ge> 6
                      then (lat + (ub (bt locator 5 - 65) * (5/2 / 60) + 5/2 / 120),
                            lng + (ub (bt locator 4 - 65) * (5 / 60) + 5 / 120))
                      else (lat + 1/2, lng + 1)
              else (lat + 5, lng + 10))"

definition FromLatLng :: "real \<Rightarrow> real \<Rightarrow> int \<Rightarrow> string" where
  "FromLatLng lat lng precision =
     (let precision = (if precision \<le> 0 then 4 else precision);
          lat = (if lat < -90 then -90 else lat);
          lat = (if lat > 90 then 90 else lat);
          lng = (if lng < -180 then -180 else lng);
          lng = (if lng > 180 then 180 else lng);
          fieldLng = trunc ((lng + 180) / 20);
          fieldLat = trunc ((lat + 90) / 10);
          fieldLng = (if fieldLng \<ge> 18 then 17 else fieldLng);
          fieldLat = (if fieldLat \<ge> 18 then 17 else fieldLat)
      in if precision = 2 then [char_of (65 + fieldLng), char_of (65 + fieldLat)]
         else let col = trunc ((lng + 180 - of_int fieldLng * 20) / 2);
                  row = trunc (lat + 90 - of_int fieldLat * 10);
                  col = (if col \<ge> 10 then 9 else col);
                  row = (if row \<ge> 10 then 9 else row)
              in SquareXYToLocator (fieldLng * 10 + col) (fieldLat * 10 + row))"

lemma ToLatLng_square:
  assumes "SquareXY s = Some (x, y)" and "length s < 6"
  shows "ToLatLng s = (of_int y - 90 + 1/2, 2 * of_int x - 180 + 1)"
proof -
  from assms(1) have "IsLocator s" by (rule SquareXY_IsLocator)
  then obtain a b c d r where s: "s = a # b # c # d # r"
    "65 \<le> byte a" "byte a \<le> 82" "65 \<le> byte b" "byte b \<le> 82"
    "48 \<le> byte c" "byte c \<le> 57" "48 \<le> byte d" "byte d \<le> 57"
    by (rule IsLocator_cases)
  have up: "upper_char a = a" "upper_char b = b" "upper_char c = c" "upper_char d = d"
    using s by (auto simp: upper_char_def)
  have m: "(byte a - 65) mod 256 = byte a - 65" "(byte b - 65) mod 256 = byte b - 65"
    "(byte c - 48) mod 256 = byte c - 48" "(byte d - 48) mod 256 = byte d - 48"
    using s by (auto intro!: mod_pos_pos_trivial)
  have xy: "x = (byte a - 65) * 10 + (byte c - 48)" "y = (byte b - 65) * 10 + (byte d - 48)"
    using assms s by (auto simp: SquareXY_Cons)
  show ?thesis
    using assms(2) unfolding s(1)
    by (simp add: ToLatLng_def Let_def up ub_def m xy)
qed

text \<open>
  The field and square digits that the code computes one after the other are the digits
  of one floor: \<open>k\<close> is the width of a field in squares of width \<open>w\<close>, ten to a field.
\<close>

lemma field_digits:
  fixes u w :: real
  assumes w: "0 < w" and u: "0 \<le> u" "u < 180 * w"
  defines "f \<equiv> \<lfloor>u / (10 * w)\<rfloor>"
  shows "0 \<le> f" "f < 18" "\<lfloor>(u - of_int f * (10 * w)) / w\<rfloor> = \<lfloor>u / w\<rfloor> - 10 * f"
    "0 \<le> \<lfloor>u / w\<rfloor> - 10 * f" "\<lfloor>u / w\<rfloor> - 10 * f < 10" "0 \<le> u - of_int f * (10 * w)"
proof -
  show f0: "0 \<le> f" using w u by (simp add: f_def)
  show "f < 18" using w u by (simp add: f_def floor_less_iff field_simps)
  have eq: "(u - of_int f * (10 * w)) / w = u / w - of_int (10 * f)"
    using w by (simp add: field_simps)
  show "\<lfloor>(u - of_int f * (10 * w)) / w\<rfloor> = \<lfloor>u / w\<rfloor> - 10 * f"
    unfolding eq by (simp only: floor_diff_of_int)
  have lo: "of_int f \<le> u / (10 * w)" and hi: "u / (10 * w) < of_int f + 1"
    by (simp_all add: f_def)
  show "0 \<le> u - of_int f * (10 * w)" using lo w by (simp add: field_simps)
  have "of_int (10 * f) \<le> u / w" using lo w by (simp add: field_simps)
  then show "0 \<le> \<lfloor>u / w\<rfloor> - 10 * f" by (simp add: le_floor_iff)
  have "u / w < of_int (10 * f + 10)" using hi w by (simp add: field_simps)
  then show "\<lfloor>u / w\<rfloor> - 10 * f < 10" by (simp only: floor_less_iff diff_less_eq add.commute)
qed

definition clamp_to :: "real \<Rightarrow> real \<Rightarrow> real \<Rightarrow> real" where
  "clamp_to lo hi v = max lo (min hi v)"

lemma FromLatLng_spec:
  assumes "precision \<noteq> 2"
  shows "FromLatLng lat lng precision =
     SquareXYToLocator (min 179 \<lfloor>(clamp_to (-180) 180 lng + 180) / 2\<rfloor>)
                       (min 179 \<lfloor>clamp_to (-90) 90 lat + 90\<rfloor>)"
proof -
  let ?u = "clamp_to (-180) 180 lng + 180" and ?v = "clamp_to (-90) 90 lat + 90"
  have u: "0 \<le> ?u" "?u \<le> 360" and v: "0 \<le> ?v" "?v \<le> 180" by (auto simp: clamp_to_def)
  let ?x = "let f = (if trunc (?u / 20) \<ge> 18 then 17 else trunc (?u / 20));
                c = trunc ((?u - of_int f * 20) / 2) in f * 10 + (if c \<ge> 10 then 9 else c)"
  let ?y = "let f = (if trunc (?v / 10) \<ge> 18 then 17 else trunc (?v / 10));
                c = trunc (?v - of_int f * 10) in f * 10 + (if c \<ge> 10 then 9 else c)"
  have x: "?x = min 179 \<lfloor>?u / 2\<rfloor>"
  proof (cases "?u = 360")
    case False
    then have "?u < 180 * 2" using u by simp
    note d = field_digits [OF _ u(1) this, simplified]
    have "0 \<le> (?u - of_int \<lfloor>?u / 20\<rfloor> * 20) / 2" using d(6) by simp
    with d u show ?thesis by (simp add: trunc_nonneg Let_def)
  qed (simp add: trunc_nonneg Let_def)
  have y: "?y = min 179 \<lfloor>?v\<rfloor>"
  proof (cases "?v = 180")
    case False
    then have "?v < 180 * 1" using v by simp
    note d = field_digits [OF _ v(1) this, simplified]
    with v show ?thesis by (simp add: trunc_nonneg Let_def)
  qed (simp add: trunc_nonneg Let_def)
  have lng: "(let l = (if lng < -180 then -180 else lng) in if l > 180 then 180 else l) + 180 = ?u"
    by (auto simp: clamp_to_def Let_def)
  have lat: "(let l = (if lat < -90 then -90 else lat) in if l > 90 then 90 else l) + 90 = ?v"
    by (auto simp: clamp_to_def Let_def)
  have "FromLatLng lat lng precision = SquareXYToLocator ?x ?y"
    using assms unfolding lng [symmetric] lat [symmetric] by (simp add: FromLatLng_def Let_def)
  then show ?thesis by (simp only: x y)
qed

lemma FromLatLng_ToLatLng:
  assumes "SquareXY s = Some (x, y)" and "length s < 6" and "precision \<noteq> 2"
  shows "(let (lat, lng) = ToLatLng s in FromLatLng lat lng precision) = take 4 s"
proof -
  have g: "0 \<le> x" "x < 180" "0 \<le> y" "y < 180"
    using SquareXY_on_grid [OF assms(1)] by (auto simp: on_grid_def)
  then have xr: "0 \<le> real_of_int x" "real_of_int x \<le> 179" and yr: "0 \<le> real_of_int y" "real_of_int y \<le> 179"
    by auto
  have fl: "\<lfloor>of_int z + 1/2 :: real\<rfloor> = z" for z :: int by linarith
  have "(clamp_to (-180) 180 (2 * of_int x - 180 + 1) + 180) / 2 = of_int x + 1/2"
    using xr by (simp add: clamp_to_def max_def min_def)
  then have cx: "\<lfloor>(clamp_to (-180) 180 (2 * of_int x - 180 + 1) + 180) / 2\<rfloor> = x"
    by (simp only: fl)
  have "clamp_to (-90) 90 (of_int y - 90 + 1/2) + 90 = of_int y + 1/2"
    using yr by (simp add: clamp_to_def max_def min_def)
  then have cy: "\<lfloor>clamp_to (-90) 90 (of_int y - 90 + 1/2) + 90\<rfloor> = y"
    by (simp only: fl)
  have "min 179 x = x" "min 179 y = y" using g by auto
  then show ?thesis
    by (simp only: ToLatLng_square [OF assms(1,2)] Let_def prod.case FromLatLng_spec [OF assms(3)] cx cy
        SquareXYToLocator_SquareXY [OF assms(1)])
qed

end
