(* ===== verification/Baseline.thy ===== *)
theory Baseline
  imports Prelude
begin

text \<open>
  The vocabulary of the conditions engine, from \<^verbatim>\<open>cmd/horstreporter/dx_conditions.go\<close>:
  band names and their indexes, the tiers and the 48 half-hour slots of a UTC day, the
  string keys of the baseline buckets, the live-history gap, the expected count of a
  window and the classifications shown for a band. \<^verbatim>\<open>internal/proplab\<close> repeats the band
  tables; its copies are shown to agree.
\<close>

section \<open>Bands\<close>

definition normalizeBand :: "string \<Rightarrow> string" where
  "normalizeBand raw =
     (let b = ToLower (TrimSpace raw)
      in if b = [] then [] else if HasSuffix b ''m'' then b else b @ ''m'')"

definition inScopeBandNames :: "string list" where
  "inScopeBandNames = [''160m'', ''80m'', ''60m'', ''40m'', ''30m'', ''20m'', ''17m'', ''15m'',
     ''12m'', ''10m'', ''6m'', ''4m'', ''2m'']"

definition inScopeBandIndex :: "string \<Rightarrow> int" where
  "inScopeBandIndex band =
     (if band = ''160m'' then 0 else if band = ''80m'' then 1 else if band = ''60m'' then 2
      else if band = ''40m'' then 3 else if band = ''30m'' then 4 else if band = ''20m'' then 5
      else if band = ''17m'' then 6 else if band = ''15m'' then 7 else if band = ''12m'' then 8
      else if band = ''10m'' then 9 else if band = ''6m'' then 10 else if band = ''4m'' then 11
      else if band = ''2m'' then 12 else -1)"

definition bandInScope :: "string \<Rightarrow> bool" where
  "bandInScope band \<longleftrightarrow> inScopeBandIndex band \<ge> 0"

definition feedBandIndex :: "string \<Rightarrow> int" where
  "feedBandIndex raw =
     (let i = inScopeBandIndex raw in if i \<ge> 0 then i else inScopeBandIndex (normalizeBand raw))"

definition BandsInScope :: "string set" where
  \<comment> \<open>the set of \<^verbatim>\<open>internal/proplab/band.go\<close>\<close>
  "BandsInScope = {''160m'', ''80m'', ''60m'', ''40m'', ''30m'', ''20m'', ''17m'', ''15m'', ''12m'',
     ''10m'', ''6m'', ''4m'', ''2m''}"

definition BandInScope :: "string \<Rightarrow> bool" where
  "BandInScope band \<longleftrightarrow> band \<in> BandsInScope"

lemma inScopeBandIndex_range: "-1 \<le> inScopeBandIndex b" "inScopeBandIndex b \<le> 12"
  by (simp_all add: inScopeBandIndex_def)

lemma inScopeBandIndex_names:
  "0 \<le> inScopeBandIndex b \<Longrightarrow> inScopeBandNames ! nat (inScopeBandIndex b) = b"
  by (auto simp: inScopeBandIndex_def inScopeBandNames_def split: if_splits)

lemma bandInScope_iff: "bandInScope b \<longleftrightarrow> b \<in> set inScopeBandNames"
  by (auto simp: bandInScope_def inScopeBandIndex_def inScopeBandNames_def split: if_splits)

lemma BandInScope_eq: "BandInScope b = bandInScope b"
  by (auto simp: BandInScope_def BandsInScope_def bandInScope_iff inScopeBandNames_def)

lemma normalizeBand_id: "bandInScope b \<Longrightarrow> normalizeBand b = b"
  unfolding bandInScope_iff inScopeBandNames_def list.set
  by (elim insertE) (simp_all add: normalizeBand_def TrimSpace_def is_space_def HasSuffix_def lower_char_def)

lemma feedBandIndex_eq: "feedBandIndex raw = inScopeBandIndex (normalizeBand raw)"
proof (cases "0 \<le> inScopeBandIndex raw")
  case True
  then have "normalizeBand raw = raw" by (simp add: normalizeBand_id bandInScope_def)
  with True show ?thesis by (simp add: feedBandIndex_def)
qed (simp add: feedBandIndex_def)

section \<open>Tiers and slots\<close>

definition snrTierFromDb :: "int \<Rightarrow> int" where
  "snrTierFromDb db = (if db \<le> -16 then 0 else if db \<le> -9 then 1 else if db \<le> -2 then 2 else 3)"

definition snrTierMaxDb :: "int \<Rightarrow> int" where
  "snrTierMaxDb tier = (if tier = 0 then -16 else if tier = 1 then -9 else if tier = 2 then -2 else 2147483647)"

definition distanceTierFromKm :: "real \<Rightarrow> int" where
  "distanceTierFromKm km =
     (if km < 500 then 0 else if km < 1500 then 1 else if km < 3000 then 2 else if km < 7000 then 3 else 4)"

definition distanceTierBounds :: "int \<Rightarrow> real \<times> real" where
  "distanceTierBounds tier =
     (if tier = 0 then (0, 500) else if tier = 1 then (500, 1500) else if tier = 2 then (1500, 3000)
      else if tier = 3 then (3000, 7000) else (7000, 12000))"

definition SlotsOfDay :: int where
  "SlotsOfDay = 48"

definition utcSlotOfDay :: "int \<Rightarrow> int" where
  \<comment> \<open>hour and minute of the UTC clock\<close>
  "utcSlotOfDay ts = (ts mod 86400 div 3600) * 2 + quot (ts mod 3600 div 60) 30"

definition utcDayIndex :: "int \<Rightarrow> int" where
  "utcDayIndex ts = (if ts \<ge> 0 then quot ts 86400 else quot (ts - (86400 - 1)) 86400)"

lemma snrTierFromDb_max: "db \<le> 2147483647 \<Longrightarrow> db \<le> snrTierMaxDb (snrTierFromDb db)"
  by (simp add: snrTierFromDb_def snrTierMaxDb_def)

lemma snrTierMaxDb_tight: "snrTierFromDb db < t \<Longrightarrow> t \<le> 3 \<Longrightarrow> db \<le> snrTierMaxDb (t - 1)"
  by (auto simp: snrTierFromDb_def snrTierMaxDb_def split: if_splits)

lemma distanceTier_bounds:
  "0 \<le> km \<Longrightarrow> km < 12000 \<Longrightarrow>
     fst (distanceTierBounds (distanceTierFromKm km)) \<le> km \<and> km < snd (distanceTierBounds (distanceTierFromKm km))"
  by (auto simp: distanceTierFromKm_def distanceTierBounds_def)

lemma utcSlotOfDay_eq: "utcSlotOfDay ts = ts mod 86400 div 1800"
proof -
  define h m where "h = ts mod 86400 div 3600" and "m = ts mod 86400 mod 3600"
  have t: "ts mod 86400 = 3600 * h + m" by (simp add: h_def m_def)
  have m: "ts mod 3600 = m" by (simp add: m_def mod_mod_cancel)
  have mr: "0 \<le> m" "m < 3600" by (simp_all add: m_def)
  have "(3600 * h + m) div 1800 = 2 * h + m div 1800"
    using div_mult_self3 [of 1800 m "2 * h"] by (simp add: add.commute mult.assoc)
  moreover have "m div 60 div 30 = m div 1800" using mr by (simp flip: zdiv_zmult2_eq)
  ultimately show ?thesis
    using mr by (simp add: utcSlotOfDay_def t m go_arith flip: h_def)
qed

lemma utcSlotOfDay_range: "0 \<le> utcSlotOfDay ts" "utcSlotOfDay ts < SlotsOfDay"
proof -
  have "0 \<le> ts mod 86400" "ts mod 86400 < 86400" by simp_all
  then show "0 \<le> utcSlotOfDay ts" "utcSlotOfDay ts < SlotsOfDay"
    by (auto simp: utcSlotOfDay_eq SlotsOfDay_def)
qed

lemma utcDayIndex_floor: "utcDayIndex ts = ts div 86400"
proof (cases "0 \<le> ts")
  case False
  then have "quot (ts - 86399) 86400 = - ((86399 - ts) div 86400)"
    by (simp add: signed_divide_int_def)
  also have "(86399 - ts) div 86400 = - (ts div 86400)"
    by (rule int_div_pos_eq [where r = "86399 - ts mod 86400"]) (simp_all add: minus_mod_eq_mult_div [symmetric])
  finally show ?thesis using False by (simp add: utcDayIndex_def)
qed (simp add: utcDayIndex_def go_arith)

section \<open>Bucket keys\<close>

function strconvItoa_loop :: "int \<Rightarrow> string \<Rightarrow> string" where
  "strconvItoa_loop v buf =
     (if v > 0 then strconvItoa_loop (quot v 10) (char_of (48 + rem v 10) # buf) else buf)"
  by pat_completeness auto
termination
  by (relation "measure (\<lambda>(v, buf). nat v)") (auto simp: go_arith)

declare strconvItoa_loop.simps [simp del]

definition strconvItoa :: "int \<Rightarrow> string" where
  "strconvItoa v =
     (if v = 0 then ''0''
      else if v < 0 then CHR ''-'' # strconvItoa_loop (i64 (- v)) []
      else strconvItoa_loop v [])"

definition baselineKey :: "string \<Rightarrow> int \<Rightarrow> int \<Rightarrow> int \<Rightarrow> string" where
  "baselineKey band slotOfDay distanceTier snrTier =
     band @ ''|'' @ strconvItoa slotOfDay @ ''|'' @ strconvItoa distanceTier @ ''|'' @ strconvItoa snrTier"

definition baselineClusterKey :: "string \<Rightarrow> string \<Rightarrow> int \<Rightarrow> int \<Rightarrow> int \<Rightarrow> string" where
  "baselineClusterKey anchor band slotOfDay distanceTier snrTier =
     anchor @ ''|'' @ baselineKey band slotOfDay distanceTier snrTier"

definition appendBaselineKey :: "string \<Rightarrow> string \<Rightarrow> int \<Rightarrow> int \<Rightarrow> int \<Rightarrow> string" where
  "appendBaselineKey buf band slotOfDay distanceTier snrTier =
     (let buf = buf @ band; buf = buf @ ''|''; buf = buf @ itoa slotOfDay; buf = buf @ ''|'';
          buf = buf @ itoa distanceTier; buf = buf @ ''|''
      in buf @ itoa snrTier)"

lemma strconvItoa_loop_digits: "0 < n \<Longrightarrow> strconvItoa_loop (int n) buf = digits n @ buf"
proof (induction n arbitrary: buf rule: digits.induct)
  case (1 n)
  have c: "char_of (48 + rem (int n) 10) = (char_of (48 + n mod 10) :: char)"
    by (rule of_char_eqI [where 'a = int]) (simp add: go_arith zmod_int)
  have q: "quot (int n) 10 = int (n div 10)" by (simp add: go_arith zdiv_int)
  show ?case
  proof (cases "n < 10")
    case True
    with "1.prems" show ?thesis
      by (subst strconvItoa_loop.simps, subst digits.simps)
        (simp add: c q, simp add: strconvItoa_loop.simps)
  next
    case False
    then have "strconvItoa_loop (int (n div 10)) (char_of (48 + n mod 10) # buf) =
      digits (n div 10) @ char_of (48 + n mod 10) # buf"
      using 1 by simp
    with False "1.prems" show ?thesis
      by (subst strconvItoa_loop.simps, subst digits.simps) (simp add: c q)
  qed
qed

lemma digits_0 [simp]: "digits 0 = ''0''"
proof -
  have "char_of (48::nat) = CHR ''0''" by (rule of_char_eqI [where 'a = int]) simp
  then show ?thesis by (subst digits.simps) simp
qed

lemma strconvItoa_itoa: "- (2 ^ 63) < v \<Longrightarrow> v < 2 ^ 63 \<Longrightarrow> strconvItoa v = itoa v"
  using strconvItoa_loop_digits [of "nat v" "[]"] strconvItoa_loop_digits [of "nat (- v)" "[]"]
  by (auto simp: strconvItoa_def itoa_def i64_id)

lemma strconvItoa_min: "strconvItoa (- (2 ^ 63)) = ''-''"
  by (simp add: strconvItoa_def i64_def strconvItoa_loop.simps)

definition no_bar :: "string \<Rightarrow> bool" where
  "no_bar s \<longleftrightarrow> CHR ''|'' \<notin> set s"

lemma no_bar_itoa: "no_bar (itoa v)"
proof -
  have "CHR ''|'' \<notin> set (digits n)" for n by (rule digits_no) (simp add: is_digit_def)
  then show ?thesis by (simp add: no_bar_def itoa_def)
qed

lemma bar_split:
  assumes "no_bar u" "no_bar u'" "u @ ''|'' @ v = u' @ ''|'' @ v'"
  shows "u = u' \<and> v = v'"
proof -
  have "takeWhile (\<lambda>c. c \<noteq> CHR ''|'') (w @ ''|'' @ x) = w" if "no_bar w" for w x
    using that by (subst takeWhile_append2) (auto simp: no_bar_def)
  then have "u = u'" using assms by metis
  with assms(3) show ?thesis by simp
qed

definition tier_range :: "int \<Rightarrow> bool" where
  "tier_range v \<longleftrightarrow> - (2 ^ 63) < v \<and> v < 2 ^ 63"

lemma baselineKey_itoa:
  "tier_range a \<Longrightarrow> tier_range b \<Longrightarrow> tier_range c \<Longrightarrow>
     baselineKey band a b c = band @ ''|'' @ itoa a @ ''|'' @ itoa b @ ''|'' @ itoa c"
  by (simp add: baselineKey_def strconvItoa_itoa tier_range_def)

lemma baselineKey_inj:
  assumes "no_bar band" "no_bar band'" "tier_range a" "tier_range b" "tier_range c"
    "tier_range a'" "tier_range b'" "tier_range c'"
    and eq: "baselineKey band a b c = baselineKey band' a' b' c'"
  shows "band = band' \<and> a = a' \<and> b = b' \<and> c = c'"
proof -
  from eq assms have "band @ ''|'' @ itoa a @ ''|'' @ itoa b @ ''|'' @ itoa c =
      band' @ ''|'' @ itoa a' @ ''|'' @ itoa b' @ ''|'' @ itoa c'"
    by (simp add: baselineKey_itoa)
  then have 1: "band = band'" "itoa a @ ''|'' @ itoa b @ ''|'' @ itoa c = itoa a' @ ''|'' @ itoa b' @ ''|'' @ itoa c'"
    using bar_split assms(1,2) by blast+
  then have 2: "itoa a = itoa a'" "itoa b @ ''|'' @ itoa c = itoa b' @ ''|'' @ itoa c'"
    using bar_split [OF no_bar_itoa no_bar_itoa] by blast+
  then have 3: "itoa b = itoa b'" "itoa c = itoa c'"
    using bar_split [OF no_bar_itoa no_bar_itoa] by blast+
  with 1 2 show ?thesis by (simp add: itoa_inj)
qed

lemma appendBaselineKey_eq:
  "tier_range a \<Longrightarrow> tier_range b \<Longrightarrow> tier_range c \<Longrightarrow> appendBaselineKey buf band a b c = buf @ baselineKey band a b c"
  by (simp add: appendBaselineKey_def baselineKey_itoa)

end
