(* ===== verification/Conditions.thy ===== *)
theory Conditions
  imports Baseline "HOL-Library.Multiset"
begin

text \<open>
  The arithmetic of the band conditions (\<^verbatim>\<open>dx_conditions.go\<close>, \<^verbatim>\<open>dx_postgres.go\<close>): the live
  window minus the restart gap, the expected count of a window integrated over the
  half-hour slots, the weighted score quantiles of a baseline slot, the tiered 90th
  percentile of the path length, and the verdicts derived from them.
\<close>

section \<open>Live window and restart gap\<close>

definition liveSegments :: "int \<Rightarrow> int \<Rightarrow> int \<Rightarrow> int \<Rightarrow> (int \<times> int) list" where
  \<comment> \<open>\<open>gs\<close>, \<open>ge\<close>: \<open>liveHistoryGapStart\<close>, \<open>liveHistoryGapEnd\<close>\<close>
  "liveSegments gs ge start finish =
     (if ge \<le> gs \<or> ge \<le> start \<or> gs \<ge> finish then [(start, finish)]
      else (if gs > start then [(start, gs)] else []) @ (if ge < finish then [(ge, finish)] else []))"

definition seg_set :: "(int \<times> int) list \<Rightarrow> int set" where
  "seg_set segs = (\<Union>(a, b) \<in> set segs. {a..<b})"

lemma liveSegments_set: "seg_set (liveSegments gs ge start finish) = {start..<finish} - {gs..<ge}"
  by (auto simp: seg_set_def liveSegments_def)

lemma liveSegments_disjoint: "sum_list (map (\<lambda>(a, b). b - a) (liveSegments gs ge s e)) =
    int (card ({s..<e} - {gs..<ge}))" if "s \<le> e"
proof -
  have split: "{s..<e} - {gs..<ge} = {s..<min e gs} \<union> {max s ge..<e}" if "gs < ge"
    using that by auto
  show ?thesis
  proof (cases "ge \<le> gs \<or> ge \<le> s \<or> gs \<ge> e")
    case True
    then have "{s..<e} - {gs..<ge} = {s..<e}" by auto
    with True \<open>s \<le> e\<close> show ?thesis by (auto simp: liveSegments_def)
  next
    case False
    then have "card ({s..<e} - {gs..<ge}) = card {s..<min e gs} + card {max s ge..<e}"
      by (subst split) (simp, rule card_Un_disjoint, auto)
    with False \<open>s \<le> e\<close> show ?thesis by (auto simp: liveSegments_def max_def min_def)
  qed
qed

section \<open>Expected count of a window\<close>

definition slotSegmentEnd :: "int \<Rightarrow> int \<Rightarrow> int" where
  "slotSegmentEnd t finish =
     (let segEnd = t - rem (rem t 1800 + 1800) 1800 + 1800
      in if segEnd > finish then finish else segEnd)"

lemma slotSegmentEnd_eq: "slotSegmentEnd t finish = min finish (t - t mod 1800 + 1800)"
  by (simp add: slotSegmentEnd_def rem_shift Let_def min_def)

lemma slotSegmentEnd_gt: "t < finish \<Longrightarrow> t < slotSegmentEnd t finish"
proof -
  have "t mod 1800 < 1800" by simp
  then show "t < finish \<Longrightarrow> ?thesis" by (simp add: slotSegmentEnd_eq)
qed

function expectedClusterCount_loop ::
  "real list \<Rightarrow> bool list \<Rightarrow> int \<Rightarrow> int \<Rightarrow> real \<Rightarrow> real option" where
  "expectedClusterCount_loop ratesBySlot usedCluster finish t acc =
     (if t < finish then
        let segEnd = slotSegmentEnd t finish; slot = nat (utcSlotOfDay t)
        in if \<not> usedCluster ! slot then None
           else expectedClusterCount_loop ratesBySlot usedCluster finish segEnd
                  (acc + ratesBySlot ! slot * of_int (segEnd - t) / 60)
      else Some acc)"
  by pat_completeness auto
termination
  by (relation "measure (\<lambda>(r, u, f, t, acc). nat (f - t))")
    (auto dest: slotSegmentEnd_gt)

declare expectedClusterCount_loop.simps [simp del]

definition expectedClusterCount :: "real list \<Rightarrow> bool list \<Rightarrow> int \<Rightarrow> int \<Rightarrow> real option" where
  "expectedClusterCount ratesBySlot usedCluster start finish =
     (if int (length ratesBySlot) \<noteq> SlotsOfDay \<or> int (length usedCluster) \<noteq> SlotsOfDay \<or> finish \<le> start
      then None
      else expectedClusterCount_loop ratesBySlot usedCluster finish start 0)"

text \<open>Within one segment the slot does not change.\<close>

lemma slot_const:
  assumes "t \<le> s" "s < slotSegmentEnd t finish"
  shows "utcSlotOfDay s = utcSlotOfDay t"
proof -
  have s: "t - t mod 1800 \<le> s" "s < t - t mod 1800 + 1800"
    using assms by (auto simp: slotSegmentEnd_eq intro: order_trans [OF _ assms(1)])
  have "s div 1800 = t div 1800"
    using s by (intro int_div_pos_eq [where r = "s - (t - t mod 1800)"]) (auto simp: minus_mod_eq_mult_div)
  moreover have "x mod 86400 div 1800 = x div 1800 mod 48" for x :: int
  proof -
    have "x mod (1800 * 48) = 1800 * (x div 1800 mod 48) + x mod 1800"
      by (rule zmod_zmult2_eq) simp
    then show ?thesis by simp
  qed
  ultimately show ?thesis by (simp add: utcSlotOfDay_eq)
qed

definition per_second :: "real list \<Rightarrow> int \<Rightarrow> real" where
  "per_second ratesBySlot t = ratesBySlot ! nat (utcSlotOfDay t) / 60"

lemma expectedClusterCount_loop_spec:
  "t \<le> finish \<Longrightarrow> expectedClusterCount_loop rs us finish t acc =
     (if \<forall>s\<in>{t..<finish}. us ! nat (utcSlotOfDay s)
      then Some (acc + (\<Sum>s\<in>{t..<finish}. per_second rs s)) else None)"
proof (induction rs us finish t acc rule: expectedClusterCount_loop.induct)
  case (1 rs us finish t acc)
  show ?case
  proof (cases "t < finish")
    case False
    then show ?thesis by (subst expectedClusterCount_loop.simps) simp
  next
    case True
    define e where "e = slotSegmentEnd t finish"
    have e: "t < e" "e \<le> finish"
      using slotSegmentEnd_gt [OF True] by (auto simp: e_def slotSegmentEnd_eq)
    have split: "{t..<finish} = {t..<e} \<union> {e..<finish}" "{t..<e} \<inter> {e..<finish} = {}"
      using e by auto
    have const: "utcSlotOfDay s = utcSlotOfDay t" if "s \<in> {t..<e}" for s
      using that slot_const [of t s finish] by (auto simp: e_def)
    have sum: "(\<Sum>s\<in>{t..<e}. per_second rs s) = rs ! nat (utcSlotOfDay t) * of_int (e - t) / 60"
    proof -
      have "(\<Sum>s\<in>{t..<e}. per_second rs s) = (\<Sum>s\<in>{t..<e}. per_second rs t)"
        using const by (intro sum.cong refl) (metis per_second_def)
      then show ?thesis using e by (simp add: per_second_def)
    qed
    show ?thesis
    proof (cases "us ! nat (utcSlotOfDay t)")
      case False
      with True show ?thesis
        by (auto simp: expectedClusterCount_loop.simps [of rs us finish t] Let_def intro!: bexI [of _ t])
    next
      case used: True
      have first: "\<forall>s\<in>{t..<e}. us ! nat (utcSlotOfDay s)"
        using used by (metis const)
      have "expectedClusterCount_loop rs us finish t acc =
          expectedClusterCount_loop rs us finish e (acc + (\<Sum>s\<in>{t..<e}. per_second rs s))"
        using True used by (simp add: expectedClusterCount_loop.simps [of rs us finish t] Let_def sum flip: e_def)
      also have "\<dots> = (if \<forall>s\<in>{e..<finish}. us ! nat (utcSlotOfDay s)
          then Some (acc + (\<Sum>s\<in>{t..<e}. per_second rs s) + (\<Sum>s\<in>{e..<finish}. per_second rs s)) else None)"
        using "1.IH" True used e by (simp add: sum flip: e_def)
      also have "(\<forall>s\<in>{e..<finish}. us ! nat (utcSlotOfDay s)) \<longleftrightarrow> (\<forall>s\<in>{t..<finish}. us ! nat (utcSlotOfDay s))"
        unfolding split(1) ball_Un using first by blast
      also have "acc + (\<Sum>s\<in>{t..<e}. per_second rs s) + (\<Sum>s\<in>{e..<finish}. per_second rs s) =
          acc + (\<Sum>s\<in>{t..<finish}. per_second rs s)"
        unfolding split(1) using split(2) by (subst sum.union_disjoint) auto
      finally show ?thesis .
    qed
  qed
qed

definition normalizeBaselineToSpotsPerMinute :: "real \<Rightarrow> int \<Rightarrow> real" where
  "normalizeBaselineToSpotsPerMinute totalCount historyMinutes =
     (if historyMinutes \<le> 0 then 0
      else let historyDays = of_int historyMinutes / of_int (24 * 60);
               historyDays = (if historyDays < 1 then 1 else historyDays)
           in totalCount / (historyDays * 30))"

definition baselineCountForRate :: "real \<Rightarrow> int \<Rightarrow> real" where
  "baselineCountForRate rate historyMinutes =
     (let historyDays = of_int historyMinutes / of_int (24 * 60);
          historyDays = (if historyDays < 1 then 1 else historyDays)
      in rate * historyDays * 30)"

lemma baselineCountForRate_inverse:
  "0 < m \<Longrightarrow> baselineCountForRate (normalizeBaselineToSpotsPerMinute c m) m = c"
  by (simp add: baselineCountForRate_def normalizeBaselineToSpotsPerMinute_def Let_def)

section \<open>Weighted quantiles of a baseline slot\<close>

record baselinePair =
  DistanceTier :: int
  SnrTier :: int
  Count :: int

definition maxPlausibleBaselineCount :: int where
  "maxPlausibleBaselineCount = 2 ^ 30"

definition dxMinBaselineQuantileSupport :: int where
  "dxMinBaselineQuantileSupport = 200"

definition plausibleBaselinePair :: "baselinePair \<Rightarrow> bool" where
  "plausibleBaselinePair p \<longleftrightarrow> Count p > 0 \<and> Count p \<le> maxPlausibleBaselineCount"

fun sumPairs :: "baselinePair list \<Rightarrow> int" where
  "sumPairs [] = 0"
| "sumPairs (p # ps) = (if \<not> plausibleBaselinePair p then sumPairs ps else Count p + sumPairs ps)"

definition pairsForBandSlot ::
  "(string \<times> int \<rightharpoonup> baselinePair list) option \<Rightarrow> (string \<times> int \<rightharpoonup> baselinePair list) \<Rightarrow> string \<Rightarrow> int
     \<Rightarrow> baselinePair list \<times> bool" where
  \<comment> \<open>\<open>None\<close> is the nil cluster index; a missing key reads as the nil slice\<close>
  "pairsForBandSlot clusterIdx globalIdx band slot =
     (let fallback = ((case globalIdx (band, slot) of None \<Rightarrow> [] | Some ps \<Rightarrow> ps), False)
      in case clusterIdx of
           None \<Rightarrow> fallback
         | Some idx \<Rightarrow> (case idx (band, slot) of
               None \<Rightarrow> fallback
             | Some pairs \<Rightarrow> if sumPairs pairs > 0 then (pairs, True) else fallback))"

definition clamp01 :: "real \<Rightarrow> real" where
  "clamp01 v = (if v < 0 then 0 else if v > 1 then 1 else v)"

fun maxCountOf :: "int \<Rightarrow> baselinePair list \<Rightarrow> int" where
  "maxCountOf m [] = m"
| "maxCountOf m (p # ps) = maxCountOf (if plausibleBaselinePair p \<and> Count p > m then Count p else m) ps"

definition pairScore :: "int \<Rightarrow> baselinePair \<Rightarrow> real" where
  "pairScore maxCount p =
     (let distanceNorm = clamp01 (of_int (DistanceTier p) / 4);
          snrNorm = clamp01 (of_int (SnrTier p) / 3);
          activityNorm = (if maxCount > 0 then clamp01 (of_int (Count p) / of_int maxCount) else 1/2)
      in (45/100 * distanceNorm + 35/100 * activityNorm + 20/100 * snrNorm) * 100)"

fun insertBack :: "(real \<times> int) list \<Rightarrow> real \<times> int \<Rightarrow> (real \<times> int) list" where
  \<comment> \<open>the inner loop of the insertion sort, on the reversed sorted prefix\<close>
  "insertBack [] x = [x]"
| "insertBack (y # ys) x = (if fst y > fst x then y # insertBack ys x else x # y # ys)"

definition sortItems :: "(real \<times> int) list \<Rightarrow> (real \<times> int) list" where
  "sortItems items = rev (foldl insertBack [] items)"

fun pickQuantile :: "real \<Rightarrow> int \<Rightarrow> (real \<times> int) list \<Rightarrow> real \<Rightarrow> real" where
  "pickQuantile target cum [] d = d"
| "pickQuantile target cum (it # its) d =
     (if of_int (cum + snd it) \<ge> target then fst it else pickQuantile target (cum + snd it) its d)"

definition quantilesFromPairs :: "baselinePair list \<Rightarrow> (real \<times> real) option" where
  "quantilesFromPairs pairs =
     (if pairs = [] then None
      else let maxCount = maxCountOf 0 pairs;
               items = map (\<lambda>p. (pairScore maxCount p, Count p)) (filter plausibleBaselinePair pairs);
               totalWeight = sum_list (map snd items)
           in if items = [] \<or> totalWeight < dxMinBaselineQuantileSupport then None
              else let items = sortItems items;
                       q25 = pickQuantile (of_int totalWeight * (1/4)) 0 items (fst (hd items));
                       q75 = pickQuantile (of_int totalWeight * (3/4)) 0 items (fst (last items))
                   in Some (q25, q75))"

lemma sumPairs_eq: "sumPairs ps = sum_list (map Count (filter plausibleBaselinePair ps))"
  by (induction ps) auto

lemma mset_insertBack [simp]: "mset (insertBack ys x) = add_mset x (mset ys)"
  by (induction ys x rule: insertBack.induct) auto

lemma set_insertBack [simp]: "set (insertBack ys x) = insert x (set ys)"
  using mset_insertBack by (metis set_mset_add_mset_insert set_mset_mset)

lemma sorted_insertBack:
  "sorted_wrt (\<lambda>a b. fst a \<ge> fst b) ys \<Longrightarrow> sorted_wrt (\<lambda>a b. fst a \<ge> fst b) (insertBack ys x)"
  by (induction ys x rule: insertBack.induct) auto

lemma foldl_insertBack:
  "mset (foldl insertBack ys xs) = mset ys + mset xs \<and>
   (sorted_wrt (\<lambda>a b. fst a \<ge> fst b) ys \<longrightarrow> sorted_wrt (\<lambda>a b. fst a \<ge> fst b) (foldl insertBack ys xs))"
  by (induction xs arbitrary: ys) (auto simp: sorted_insertBack)

lemma mset_sortItems [simp]: "mset (sortItems xs) = mset xs"
  by (simp add: sortItems_def foldl_insertBack)

lemma set_sortItems [simp]: "set (sortItems xs) = set xs"
  by (metis mset_sortItems set_mset_mset)

lemma sorted_sortItems: "sorted (map fst (sortItems xs))"
proof -
  have "sorted_wrt (\<lambda>a b. fst a \<ge> fst b) (foldl insertBack [] xs)"
    using foldl_insertBack [of "[]" xs] by simp
  then show ?thesis by (simp add: sortItems_def sorted_wrt_map sorted_wrt_rev)
qed

definition weight_le :: "real \<Rightarrow> (real \<times> int) list \<Rightarrow> int" where
  "weight_le q its = sum_list (map snd (filter (\<lambda>it. fst it \<le> q) its))"

definition weight_lt :: "real \<Rightarrow> (real \<times> int) list \<Rightarrow> int" where
  "weight_lt q its = sum_list (map snd (filter (\<lambda>it. fst it < q) its))"

lemma weight_mset_cong:
  assumes "mset xs = mset ys"
  shows "weight_le q xs = weight_le q ys" "weight_lt q xs = weight_lt q ys"
proof -
  have "mset (map snd (filter P xs)) = mset (map snd (filter P ys))" for P
    using assms by simp
  then show "weight_le q xs = weight_le q ys" "weight_lt q xs = weight_lt q ys"
    unfolding weight_le_def weight_lt_def by (metis sum_mset_sum_list)+
qed

lemma weight_nonneg: "\<forall>it\<in>set its. 0 < snd it \<Longrightarrow> 0 \<le> weight_le q its \<and> 0 \<le> weight_lt q its"
  unfolding weight_le_def weight_lt_def by (intro conjI sum_list_nonneg) force+

lemma pickQuantile_spec:
  assumes "sorted (map fst its)" "\<forall>it\<in>set its. 0 < snd it"
    "of_int cum < target" "target \<le> of_int (cum + sum_list (map snd its))"
  shows "pickQuantile target cum its d \<in> fst ` set its \<and>
     target \<le> of_int (cum + weight_le (pickQuantile target cum its d) its) \<and>
     of_int (cum + weight_lt (pickQuantile target cum its d) its) < target"
  using assms
proof (induction its arbitrary: cum)
  case (Cons it its)
  show ?case
  proof (cases "of_int (cum + snd it) \<ge> target")
    case True
    have "weight_lt (fst it) (it # its) = 0"
      using Cons.prems(1) by (auto simp: weight_lt_def filter_empty_conv not_less)
    moreover have "snd it \<le> weight_le (fst it) (it # its)"
      using weight_nonneg [of its "fst it"] Cons.prems(2) by (simp add: weight_le_def)
    ultimately show ?thesis using True Cons.prems(3) by auto
  next
    case False
    let ?q = "pickQuantile target (cum + snd it) its d"
    have IH: "?q \<in> fst ` set its \<and> target \<le> of_int (cum + snd it + weight_le ?q its) \<and>
        of_int (cum + snd it + weight_lt ?q its) < target"
      using False Cons.prems by (intro Cons.IH) (auto simp: add.assoc)
    then have "fst it \<le> ?q" using Cons.prems(1) by auto
    then have le: "weight_le ?q (it # its) = snd it + weight_le ?q its" by (simp add: weight_le_def)
    have "0 < snd it" using Cons.prems(2) by simp
    then have "weight_lt ?q (it # its) \<le> snd it + weight_lt ?q its" by (simp add: weight_lt_def)
    then have lt: "of_int (cum + weight_lt ?q (it # its)) < target"
      using IH by (smt (verit) of_int_le_iff)
    show ?thesis using False IH le lt by (simp add: add.assoc)
  qed
qed simp

lemma pickQuantile_mono:
  assumes "sorted (map fst its)" "t1 \<le> t2" "t2 \<le> of_int (cum + sum_list (map snd its))" "its \<noteq> []"
  shows "pickQuantile t1 cum its d1 \<le> pickQuantile t2 cum its d2"
  using assms
proof (induction its arbitrary: cum)
  case (Cons it its)
  show ?case
  proof (cases "its = []")
    case False
    have ge: "fst it \<le> pickQuantile t2 c its d2" if "t2 \<le> of_int (c + sum_list (map snd its))" for c
    proof -
      have "pickQuantile t2 c its d2 \<in> fst ` set its" if "t2 \<le> of_int (c + sum_list (map snd its))" "its \<noteq> []" for c its
        using that by (induction its arbitrary: c) (auto simp: add.assoc split: if_splits, force)
      with that False Cons.prems(1) show ?thesis by fastforce
    qed
    show ?thesis using Cons.prems Cons.IH [of "cum + snd it"] ge [of "cum + snd it"] False
      by (auto simp: add.assoc)
  qed (use Cons.prems in auto)
qed simp

lemma quantilesFromPairs_spec:
  assumes "quantilesFromPairs pairs = Some (q25, q75)"
  defines "m \<equiv> maxCountOf 0 pairs"
  defines "items \<equiv> map (\<lambda>p. (pairScore m p, Count p)) (filter plausibleBaselinePair pairs)"
  defines "w \<equiv> sumPairs pairs"
  shows "q25 \<le> q75" and "q25 \<in> fst ` set items" and "q75 \<in> fst ` set items"
    and "of_int w * (1/4 :: real) \<le> of_int (weight_le q25 items)" and "of_int (weight_lt q25 items) < of_int w * (1/4 :: real)"
    and "of_int w * (3/4 :: real) \<le> of_int (weight_le q75 items)" and "of_int (weight_lt q75 items) < of_int w * (3/4 :: real)"
proof -
  have w: "w = sum_list (map snd items)"
    by (simp add: w_def items_def sumPairs_eq comp_def)
  let ?s = "sortItems items"
  have ne: "items \<noteq> []" and big: "200 \<le> w"
    and q: "q25 = pickQuantile (of_int w * (1/4)) 0 ?s (fst (hd ?s))"
      "q75 = pickQuantile (of_int w * (3/4)) 0 ?s (fst (last ?s))"
    using assms(1)
    by (auto simp: quantilesFromPairs_def Let_def w items_def m_def dxMinBaselineQuantileSupport_def
        split: if_splits)
  have pos: "\<forall>it\<in>set ?s. 0 < snd it"
    by (auto simp: items_def plausibleBaselinePair_def)
  have ws: "sum_list (map snd ?s) = w"
    by (metis mset_map mset_sortItems sum_mset_sum_list w)
  have sne: "?s \<noteq> []" using ne by (metis mset_sortItems mset_zero_iff)
  note cong = weight_mset_cong [OF mset_sortItems [of items]]
  show "q25 \<le> q75"
    unfolding q using big ws sne by (intro pickQuantile_mono sorted_sortItems) auto
  have 1: "q25 \<in> fst ` set ?s \<and> of_int w * (1/4 :: real) \<le> of_int (0 + weight_le q25 ?s) \<and>
      of_int (0 + weight_lt q25 ?s) < of_int w * (1/4 :: real)"
    unfolding q by (rule pickQuantile_spec [OF sorted_sortItems pos]) (use big ws in auto)
  have 3: "q75 \<in> fst ` set ?s \<and> of_int w * (3/4 :: real) \<le> of_int (0 + weight_le q75 ?s) \<and>
      of_int (0 + weight_lt q75 ?s) < of_int w * (3/4 :: real)"
    unfolding q by (rule pickQuantile_spec [OF sorted_sortItems pos]) (use big ws in auto)
  show "q25 \<in> fst ` set items" "of_int w * (1/4 :: real) \<le> of_int (weight_le q25 items)"
    "of_int (weight_lt q25 items) < of_int w * (1/4 :: real)"
    using 1 cong by auto
  show "q75 \<in> fst ` set items" "of_int w * (3/4 :: real) \<le> of_int (weight_le q75 items)"
    "of_int (weight_lt q75 items) < of_int w * (3/4 :: real)"
    using 3 cong by auto
qed

section \<open>Path length percentile over distance tiers\<close>

fun p90_loop :: "real \<Rightarrow> real \<Rightarrow> (int \<times> real) list \<Rightarrow> real option" where
  "p90_loop q90 cum [] = None"
| "p90_loop q90 cum ((d, c) # r) =
     (if c \<le> 0 then p90_loop q90 cum r
      else if cum + c \<ge> q90 then
        let (lo, hi) = distanceTierBounds d;
            frac = (q90 - cum) / c;
            frac = (if frac < 0 then 0 else frac);
            frac = (if frac > 1 then 1 else frac)
        in Some (lo + frac * (hi - lo))
      else p90_loop q90 (cum + c) r)"

fun last_tier_hi :: "(int \<times> real) list \<Rightarrow> real" where
  \<comment> \<open>the trailing loop, over the tiers from 4 down to 0\<close>
  "last_tier_hi [] = 0"
| "last_tier_hi ((d, c) # r) = (if c > 0 then snd (distanceTierBounds d) else last_tier_hi r)"

definition p90FromTierWeights :: "real list \<Rightarrow> real" where
  "p90FromTierWeights tierWeights =
     (let tot = sum_list (map (\<lambda>w. if w > 0 then w else 0) tierWeights)
      in if tot \<le> 0 then 0
         else let tiers = zip [0, 1, 2, 3, 4] tierWeights
              in case p90_loop (9/10 * tot) 0 tiers of
                   Some v \<Rightarrow> v
                 | None \<Rightarrow> last_tier_hi (rev tiers))"

definition p90FromTierCounts :: "int list \<Rightarrow> real" where
  "p90FromTierCounts tierCounts = p90FromTierWeights (map of_int tierCounts)"

definition tieredP90 :: "real list \<Rightarrow> real" where
  "tieredP90 distancesKm =
     (let tiers = foldl (\<lambda>t d. let i = nat (distanceTierFromKm d) in t[i := t ! i + 1]) [0, 0, 0, 0, 0] distancesKm
      in p90FromTierCounts tiers)"

definition pos_sum :: "(int \<times> real) list \<Rightarrow> real" where
  "pos_sum tiers = sum_list (map (\<lambda>(d, c). if c > 0 then c else 0) tiers)"

lemma frac_clamp:
  "0 \<le> (a::real) \<Longrightarrow> a \<le> 1 \<Longrightarrow> (if a < 0 then 0 else a) = a"
  "0 \<le> (a::real) \<Longrightarrow> a \<le> 1 \<Longrightarrow> (if a > 1 then 1 else a) = a"
  by auto

lemma p90_loop_spec:
  "cum < q \<Longrightarrow> q \<le> cum + pos_sum tiers \<Longrightarrow>
     \<exists>pre d c post v. tiers = pre @ (d, c) # post \<and> 0 < c \<and> p90_loop q cum tiers = Some v \<and>
       cum + pos_sum pre < q \<and> q \<le> cum + pos_sum pre + c \<and>
       v = fst (distanceTierBounds d) + (q - (cum + pos_sum pre)) / c *
             (snd (distanceTierBounds d) - fst (distanceTierBounds d))"
proof (induction q cum tiers rule: p90_loop.induct)
  case (2 q cum d c r)
  consider "c \<le> 0" | "0 < c" "cum + c < q" | "0 < c" "q \<le> cum + c" by linarith
  then show ?case
  proof cases
    case 1
    with 2 obtain pre d' c' post v where
      h: "r = pre @ (d', c') # post" "0 < c'" "p90_loop q cum r = Some v"
        "cum + pos_sum pre < q" "q \<le> cum + pos_sum pre + c'"
        "v = fst (distanceTierBounds d') + (q - (cum + pos_sum pre)) / c' *
             (snd (distanceTierBounds d') - fst (distanceTierBounds d'))"
      by (auto simp: pos_sum_def)
    show ?thesis
      by (rule exI [of _ "(d, c) # pre"], rule exI [of _ d'], rule exI [of _ c'], rule exI [of _ post],
          rule exI [of _ v]) (use 1 h in \<open>simp add: pos_sum_def\<close>)
  next
    case B: 2
    with 2 obtain pre d' c' post v where
      h: "r = pre @ (d', c') # post" "0 < c'" "p90_loop q (cum + c) r = Some v"
        "cum + c + pos_sum pre < q" "q \<le> cum + c + pos_sum pre + c'"
        "v = fst (distanceTierBounds d') + (q - (cum + c + pos_sum pre)) / c' *
             (snd (distanceTierBounds d') - fst (distanceTierBounds d'))"
      by (auto simp: pos_sum_def add.assoc)
    show ?thesis
      by (rule exI [of _ "(d, c) # pre"], rule exI [of _ d'], rule exI [of _ c'], rule exI [of _ post],
          rule exI [of _ v]) (use B h in \<open>simp add: pos_sum_def add.assoc\<close>)
  next
    case 3
    then have "0 \<le> (q - cum) / c" "(q - cum) / c \<le> 1" using "2.prems" by (auto simp: field_simps)
    note fr = frac_clamp [OF this]
    show ?thesis
      by (rule exI [of _ "[]"], rule exI [of _ d], rule exI [of _ c], rule exI [of _ r])
        (use 3 "2.prems" in \<open>simp add: pos_sum_def Let_def fr split_beta\<close>)
  qed
qed (simp add: pos_sum_def)

lemma distanceTierBounds_order: "0 \<le> fst (distanceTierBounds d)" "fst (distanceTierBounds d) \<le> snd (distanceTierBounds d)"
  "snd (distanceTierBounds d) \<le> 12000"
  by (simp_all add: distanceTierBounds_def)

lemma pos_sum_zip: "length ds = length ws \<Longrightarrow> pos_sum (zip ds ws) = sum_list (map (\<lambda>w. if w > 0 then w else 0) ws)"
  by (induction ds ws rule: list_induct2) (auto simp: pos_sum_def)

lemma p90FromTierWeights_bounds:
  assumes "length ws = 5"
  shows "0 \<le> p90FromTierWeights ws \<and> p90FromTierWeights ws \<le> 12000"
proof -
  let ?t = "zip [0, 1, 2, 3, 4] ws :: (int \<times> real) list"
  have p: "pos_sum ?t = sum_list (map (\<lambda>w. if w > 0 then w else 0) ws)"
    using assms by (intro pos_sum_zip) simp
  show ?thesis
  proof (cases "pos_sum ?t \<le> 0")
    case False
    then have "0 < 9/10 * pos_sum ?t" "9/10 * pos_sum ?t \<le> 0 + pos_sum ?t" by auto
    from p90_loop_spec [OF this] obtain pre d c post v where
      h: "0 < c" "p90_loop (9/10 * pos_sum ?t) 0 ?t = Some v"
        "pos_sum pre < 9/10 * pos_sum ?t" "9/10 * pos_sum ?t \<le> pos_sum pre + c"
        "v = fst (distanceTierBounds d) + (9/10 * pos_sum ?t - pos_sum pre) / c *
             (snd (distanceTierBounds d) - fst (distanceTierBounds d))"
      by auto
    let ?f = "(9/10 * pos_sum ?t - pos_sum pre) / c"
    have f: "0 \<le> ?f" "?f \<le> 1" using h by (auto simp: field_simps)
    let ?D = "snd (distanceTierBounds d) - fst (distanceTierBounds d)"
    have D: "0 \<le> ?D" using distanceTierBounds_order [of d] by simp
    have "0 \<le> ?f * ?D" "?f * ?D \<le> ?D"
      using mult_nonneg_nonneg [OF f(1) D] mult_left_le_one_le [OF D f] by (simp_all only:)
    then have "0 \<le> v" "v \<le> 12000" using h(5) distanceTierBounds_order [of d] by auto
    with False h(2) show ?thesis by (simp add: p90FromTierWeights_def Let_def p)
  qed (simp add: p90FromTierWeights_def Let_def p)
qed

end
