(* ===== verification/Percentile.thy ===== *)
theory Percentile
  imports Prelude "HOL-Library.Multiset"
begin

text \<open>
  Percentiles. \<^verbatim>\<open>percentileFloat\<close> and \<^verbatim>\<open>percentileInt\<close> (\<^verbatim>\<open>dx_conditions.go\<close>) sort a copy;
  \<^verbatim>\<open>percentile_select.go\<close> replaces two sorts by two in-place selections, or by a counting
  pass. The slice is a list, an assignment a list update; an index out of range is the
  panic \<open>None\<close>. Values are a linear order: a \<open>float64\<close> that is not NaN (the source sorts
  when a NaN is present; a \<open>real\<close> never is).
\<close>

section \<open>Nearest-rank percentiles over a sorted slice\<close>

definition percentileSorted :: "'a::zero list \<Rightarrow> real \<Rightarrow> 'a" where
  \<comment> \<open>\<^verbatim>\<open>percentileSortedFloat\<close>, \<^verbatim>\<open>percentileSortedInt\<close>\<close>
  "percentileSorted cp p =
     (if cp = [] then 0
      else if p \<le> 0 then cp ! 0
      else if p \<ge> 1 then cp ! (length cp - 1)
      else let idx = \<lceil>of_nat (length cp) * p\<rceil> - 1;
               idx = (if idx < 0 then 0 else idx);
               idx = (if idx \<ge> int (length cp) then int (length cp) - 1 else idx)
           in cp ! nat idx)"

definition percentileFloat :: "real list \<Rightarrow> real \<Rightarrow> real" where
  "percentileFloat xs p = percentileSorted (sort xs) p"

definition percentileInt :: "int list \<Rightarrow> real \<Rightarrow> real" where
  "percentileInt xs p = of_int (percentileSorted (sort xs) p)"

definition rankIndex :: "nat \<Rightarrow> real \<Rightarrow> nat" where
  "rankIndex n p =
     (let idx = \<lceil>of_nat n * p\<rceil> - 1;
          idx = (if idx < 0 then 0 else idx);
          idx = (if idx \<ge> int n then int n - 1 else idx)
      in nat idx)"

lemma percentileSorted_rank:
  "cp \<noteq> [] \<Longrightarrow> 0 < p \<Longrightarrow> p < 1 \<Longrightarrow> percentileSorted cp p = cp ! rankIndex (length cp) p"
  by (simp add: percentileSorted_def rankIndex_def Let_def)

lemma rankIndex_less: "0 < n \<Longrightarrow> rankIndex n p < n"
  by (auto simp: rankIndex_def Let_def)

lemma rankIndex_mono: "p \<le> q \<Longrightarrow> rankIndex n p \<le> rankIndex n q"
proof -
  assume "p \<le> q"
  then have "\<lceil>of_nat n * p\<rceil> \<le> \<lceil>of_nat n * q\<rceil>" by (intro ceiling_mono mult_left_mono) auto
  then obtain x y where "x = \<lceil>of_nat n * p\<rceil>" "y = \<lceil>of_nat n * q\<rceil>" "x \<le> y" by blast
  then show ?thesis unfolding rankIndex_def Let_def by (auto simp del: ceiling_le_iff simp flip: \<open>x = _\<close> \<open>y = _\<close>)
qed

section \<open>In-place selection\<close>

definition rd :: "'a list \<Rightarrow> int \<Rightarrow> 'a option" where
  "rd a i = (if 0 \<le> i \<and> i < int (length a) then Some (a ! nat i) else None)"

definition swap :: "'a list \<Rightarrow> int \<Rightarrow> int \<Rightarrow> 'a list" where
  "swap a i j = a[nat i := a ! nat j, nat j := a ! nat i]"

function scanUp :: "'a::linorder list \<Rightarrow> 'a \<Rightarrow> int \<Rightarrow> int option" where
  "scanUp a pivot i =
     (case rd a i of None \<Rightarrow> None
      | Some v \<Rightarrow> if v < pivot then scanUp a pivot (i + 1) else Some i)"
  by pat_completeness auto
termination
  by (relation "measure (\<lambda>(a, p, i). nat (int (length a) - i))") (auto simp: rd_def split: if_splits)

function scanDown :: "'a::linorder list \<Rightarrow> 'a \<Rightarrow> int \<Rightarrow> int option" where
  "scanDown a pivot j =
     (case rd a j of None \<Rightarrow> None
      | Some v \<Rightarrow> if v > pivot then scanDown a pivot (j - 1) else Some j)"
  by pat_completeness auto
termination
  by (relation "measure (\<lambda>(a, p, j). nat (j + 1))") (auto simp: rd_def split: if_splits)

declare scanUp.simps [simp del] scanDown.simps [simp del]

lemma scanUp_ge: "scanUp a v i = Some i' \<Longrightarrow> i \<le> i'"
proof (induction a v i rule: scanUp.induct)
  case (1 a v i)
  then show ?case
    by (subst (asm) (2) scanUp.simps) (fastforce split: option.splits if_splits)
qed

lemma scanDown_le: "scanDown a v j = Some j' \<Longrightarrow> j' \<le> j"
proof (induction a v j rule: scanDown.induct)
  case (1 a v j)
  then show ?case
    by (subst (asm) (2) scanDown.simps) (fastforce split: option.splits if_splits)
qed

function partitionLoop :: "'a::linorder list \<Rightarrow> 'a \<Rightarrow> int \<Rightarrow> int \<Rightarrow> ('a list \<times> int \<times> int) option" where
  "partitionLoop a pivot i j =
     (if i \<le> j then
        (case scanUp a pivot i of None \<Rightarrow> None
         | Some i' \<Rightarrow>
           (case scanDown a pivot j of None \<Rightarrow> None
            | Some j' \<Rightarrow>
              if i' \<le> j' then partitionLoop (swap a i' j') pivot (i' + 1) (j' - 1)
              else partitionLoop a pivot i' j'))
      else Some (a, i, j))"
  by pat_completeness auto
termination
  by (relation "measure (\<lambda>(a, p, i, j). nat (j - i + 1))") (auto dest!: scanUp_ge scanDown_le)

declare partitionLoop.simps [simp del]

definition medianOfThree :: "'a::linorder list \<Rightarrow> int \<Rightarrow> int \<Rightarrow> int \<Rightarrow> 'a list" where
  "medianOfThree a lo mid hi =
     (let a = (if a ! nat mid < a ! nat lo then swap a mid lo else a);
          a = (if a ! nat hi < a ! nat lo then swap a hi lo else a);
          a = (if a ! nat hi < a ! nat mid then swap a hi mid else a)
      in a)"

partial_function (option) selectLoop :: "'a::linorder list \<Rightarrow> int \<Rightarrow> int \<Rightarrow> int \<Rightarrow> ('a \<times> 'a list) option" where
  "selectLoop a k lo hi =
     (if lo < hi then
        if 0 \<le> lo \<and> hi < int (length a) then
          (let mid = lo + (hi - lo) div 2; a1 = medianOfThree a lo mid hi; pivot = a1 ! nat mid
           in Option.bind (partitionLoop a1 pivot lo hi) (\<lambda>(a2, i, j).
                if k \<le> j then selectLoop a2 k lo j
                else if k \<ge> i then selectLoop a2 k i hi
                else map_option (\<lambda>v. (v, a2)) (rd a2 k)))
        else None
      else map_option (\<lambda>v. (v, a)) (rd a k))"

definition selectFloat :: "'a::linorder list \<Rightarrow> int \<Rightarrow> ('a \<times> 'a list) option" where
  "selectFloat a k = selectLoop a k 0 (int (length a) - 1)"

definition medianAndP90Float :: "real list \<Rightarrow> (real \<times> real) option" where
  "medianAndP90Float xs =
     (let n = length xs
      in if n = 0 then Some (0, 0)
         else let k90 = rankIndex n (9/10); k50 = rankIndex n (1/2)
              in Option.bind (selectFloat xs (int k90)) (\<lambda>(p90, cp).
                   map_option (\<lambda>(median, _). (median, p90)) (selectFloat (take (k90 + 1) cp) (int k50))))"

section \<open>Correctness of the selection\<close>

definition seg :: "'a list \<Rightarrow> int \<Rightarrow> int \<Rightarrow> 'a set" where
  "seg a lo hi = {a ! nat p | p. lo \<le> p \<and> p \<le> hi}"

definition cell :: "'a list \<Rightarrow> int \<Rightarrow> 'a" where
  "cell a p = a ! nat p"

definition in_place :: "int \<Rightarrow> int \<Rightarrow> 'a list \<Rightarrow> 'a list \<Rightarrow> bool" where
  \<comment> \<open>\<open>b\<close> is \<open>a\<close> with the cells of \<open>[lo, hi]\<close> permuted\<close>
  "in_place lo hi a b \<longleftrightarrow> mset b = mset a \<and> length b = length a \<and>
     (\<forall>p. 0 \<le> p \<and> (p < lo \<or> hi < p) \<longrightarrow> cell b p = cell a p) \<and>
     (\<forall>p. lo \<le> p \<and> p \<le> hi \<longrightarrow> (\<exists>q. lo \<le> q \<and> q \<le> hi \<and> cell b p = cell a q))"

lemma in_place_refl [simp]: "in_place lo hi a a"
  by (auto simp: in_place_def)

lemma in_place_trans: "in_place lo hi a b \<Longrightarrow> in_place lo hi b c \<Longrightarrow> in_place lo hi a c"
  unfolding in_place_def by metis

lemma cell_swap:
  assumes "0 \<le> i" "i < int (length a)" "0 \<le> j" "j < int (length a)" "0 \<le> p"
  shows "cell (swap a i j) p = (if p = i then cell a j else if p = j then cell a i else cell a p)"
  using assms by (auto simp: cell_def swap_def nth_list_update nat_eq_iff)

lemma in_place_swap:
  assumes "0 \<le> lo" "hi < int (length a)" "lo \<le> i" "i \<le> hi" "lo \<le> j" "j \<le> hi"
  shows "in_place lo hi a (swap a i j)"
proof -
  have r: "0 \<le> i" "i < int (length a)" "0 \<le> j" "j < int (length a)" using assms by auto
  have "mset (swap a i j) = mset a"
    using r by (simp add: swap_def mset_swap)
  moreover have "\<exists>q. lo \<le> q \<and> q \<le> hi \<and> cell (swap a i j) p = cell a q" if "lo \<le> p" "p \<le> hi" for p
    using that assms r by (subst cell_swap) auto
  moreover have "cell (swap a i j) p = cell a p" if "0 \<le> p" "p < lo \<or> hi < p" for p
    using that assms r by (subst cell_swap) auto
  ultimately show ?thesis by (auto simp: in_place_def swap_def)
qed

lemma in_place_range: "in_place lo hi a b \<Longrightarrow> lo \<le> p \<Longrightarrow> p \<le> hi \<Longrightarrow> \<exists>q. lo \<le> q \<and> q \<le> hi \<and> cell b p = cell a q"
  by (auto simp: in_place_def)

lemma in_place_medianOfThree:
  assumes "0 \<le> lo" "hi < int (length a)" "lo \<le> mid" "mid \<le> hi"
  shows "in_place lo hi a (medianOfThree a lo mid hi)"
proof -
  have step: "in_place lo hi a (if c then swap b i j else b)"
    if "in_place lo hi a b" "lo \<le> i" "i \<le> hi" "lo \<le> j" "j \<le> hi" for b c i j
    using that assms in_place_swap [of lo hi b i j] by (auto simp: in_place_def intro: in_place_trans)
  show ?thesis
    unfolding medianOfThree_def Let_def using assms by (intro step in_place_refl) auto
qed

lemma scanUp_Some:
  assumes "i \<le> s" "0 \<le> i" "s < int (length a)" "\<not> cell a s < v"
  shows "\<exists>i'. scanUp a v i = Some i' \<and> i \<le> i' \<and> i' \<le> s \<and> v \<le> cell a i' \<and> (\<forall>p. i \<le> p \<and> p < i' \<longrightarrow> cell a p < v)"
  using assms
proof (induction a v i rule: scanUp.induct)
  case (1 a v i)
  have r: "rd a i = Some (cell a i)" using "1.prems" by (simp add: rd_def cell_def)
  show ?case
  proof (cases "cell a i < v")
    case True
    then have "i \<noteq> s" using "1.prems" by auto
    then obtain i' where "scanUp a v (i + 1) = Some i'" "i + 1 \<le> i'" "i' \<le> s" "v \<le> cell a i'"
      "\<forall>p. i + 1 \<le> p \<and> p < i' \<longrightarrow> cell a p < v"
      using "1.IH" [OF r True] "1.prems" by auto
    moreover have "p = i \<or> i + 1 \<le> p" if "i \<le> p" for p using that by auto
    ultimately show ?thesis using r True by (subst scanUp.simps) auto
  next
    case False
    with r "1.prems" show ?thesis by (subst scanUp.simps) auto
  qed
qed

lemma scanDown_Some:
  assumes "s \<le> j" "0 \<le> s" "j < int (length a)" "\<not> v < cell a s"
  shows "\<exists>j'. scanDown a v j = Some j' \<and> s \<le> j' \<and> j' \<le> j \<and> cell a j' \<le> v \<and> (\<forall>p. j' < p \<and> p \<le> j \<longrightarrow> v < cell a p)"
  using assms
proof (induction a v j rule: scanDown.induct)
  case (1 a v j)
  have r: "rd a j = Some (cell a j)" using "1.prems" by (simp add: rd_def cell_def)
  show ?case
  proof (cases "v < cell a j")
    case True
    then have "j \<noteq> s" using "1.prems" by auto
    then obtain j' where "scanDown a v (j - 1) = Some j'" "s \<le> j'" "j' \<le> j - 1" "cell a j' \<le> v"
      "\<forall>p. j' < p \<and> p \<le> j - 1 \<longrightarrow> v < cell a p"
      using "1.IH" [OF r True] "1.prems" by auto
    moreover have "p = j \<or> p \<le> j - 1" if "p \<le> j" for p using that by auto
    ultimately show ?thesis using r True by (subst scanDown.simps) auto
  next
    case False
    with r "1.prems" show ?thesis by (subst scanDown.simps) auto
  qed
qed

text \<open>
  The partition: cells left of \<open>i\<close> are at most the pivot, cells right of \<open>j\<close> at least.
  After the first exchange these cells themselves stop the scans, so no read leaves
  \<open>[lo, hi]\<close>; before it the pivot's own cell does.
\<close>

definition part_pre :: "'a::linorder list \<Rightarrow> 'a \<Rightarrow> int \<Rightarrow> int \<Rightarrow> int \<Rightarrow> int \<Rightarrow> bool" where
  "part_pre a v lo hi i j \<longleftrightarrow>
     (\<forall>p. lo \<le> p \<and> p < i \<longrightarrow> cell a p \<le> v) \<and> (\<forall>p. j < p \<and> p \<le> hi \<longrightarrow> v \<le> cell a p) \<and>
     (i = lo \<and> j = hi \<and> (\<exists>m. lo \<le> m \<and> m \<le> hi \<and> cell a m = v) \<or> lo < i \<and> j < hi)"

lemma part_pre_swap:
  assumes pre: "part_pre a v lo hi i j" and r: "0 \<le> lo" "hi < int (length a)" "lo \<le> i" "j \<le> hi"
    and i': "i \<le> i'" "v \<le> cell a i'" "\<forall>p. i \<le> p \<and> p < i' \<longrightarrow> cell a p < v"
    and j': "j' \<le> j" "cell a j' \<le> v" "\<forall>p. j' < p \<and> p \<le> j \<longrightarrow> v < cell a p" and le: "i' \<le> j'"
  shows "part_pre (swap a i' j') v lo hi (i' + 1) (j' - 1)"
proof -
  have sw: "cell (swap a i' j') p = (if p = i' then cell a j' else if p = j' then cell a i' else cell a p)"
    if "0 \<le> p" for p
    using that r i'(1) j'(1) le by (intro cell_swap) auto
  have "cell (swap a i' j') p \<le> v" if h: "lo \<le> p" "p < i' + 1" for p
  proof -
    consider "p < i" | "i \<le> p" "p < i'" | "p = i'" using h by fastforce
    then show ?thesis
      using h r i' j' le pre by cases (auto simp: sw part_pre_def order.strict_implies_order)
  qed
  moreover have "v \<le> cell (swap a i' j') p" if h: "j' - 1 < p" "p \<le> hi" for p
  proof -
    consider "j < p" | "j' < p" "p \<le> j" | "p = j'" using h by fastforce
    then show ?thesis
      using h r i' j' le pre by cases (auto simp: sw part_pre_def order.strict_implies_order)
  qed
  ultimately show ?thesis using r i'(1) j'(1) by (auto simp: part_pre_def)
qed

lemma partitionLoop_ok:
  assumes "part_pre a v lo hi i j" "0 \<le> lo" "hi < int (length a)" "lo \<le> i" "j \<le> hi" "lo < hi"
  shows "\<exists>a' i' j'. partitionLoop a v i j = Some (a', i', j') \<and> in_place lo hi a a' \<and> j' < i' \<and>
     lo < i' \<and> j' < hi \<and> part_pre a' v lo hi i' j'"
  using assms
proof (induction a v i j rule: partitionLoop.induct)
  case (1 a v i j)
  note pre = "1.prems"(1) and r = "1.prems"(2-6)
  show ?case
  proof (cases "i \<le> j")
    case False
    with pre r show ?thesis by (subst partitionLoop.simps) (auto simp: part_pre_def)
  next
    case True
    define up where "up = (if lo < i \<and> j < hi then j + 1 else (SOME m. lo \<le> m \<and> m \<le> hi \<and> cell a m = v))"
    define dn where "dn = (if lo < i \<and> j < hi then i - 1 else up)"
    have s: "i \<le> up \<and> up \<le> hi \<and> v \<le> cell a up \<and> lo \<le> dn \<and> dn \<le> j \<and> cell a dn \<le> v"
    proof (cases "lo < i \<and> j < hi")
      case True
      with pre r \<open>i \<le> j\<close> show ?thesis by (auto simp: up_def dn_def part_pre_def)
    next
      case False
      with pre have "i = lo" "j = hi" and ex: "\<exists>m. lo \<le> m \<and> m \<le> hi \<and> cell a m = v"
        by (auto simp: part_pre_def)
      with False someI_ex [OF ex] show ?thesis by (auto simp: up_def dn_def)
    qed
    obtain i' where i': "scanUp a v i = Some i'" "i \<le> i'" "i' \<le> up" "v \<le> cell a i'"
      "\<forall>p. i \<le> p \<and> p < i' \<longrightarrow> cell a p < v"
      using scanUp_Some [of i up a v] s r by (auto simp: not_less)
    obtain j' where j': "scanDown a v j = Some j'" "dn \<le> j'" "j' \<le> j" "cell a j' \<le> v"
      "\<forall>p. j' < p \<and> p \<le> j \<longrightarrow> v < cell a p"
      using scanDown_Some [of dn j a v] s r by (auto simp: not_less)
    show ?thesis
    proof (cases "i' \<le> j'")
      case le: True
      let ?b = "swap a i' j'"
      have ip: "in_place lo hi a ?b" using r i'(2) j'(3) le by (intro in_place_swap) auto
      then have "hi < int (length ?b)" using r by (simp add: in_place_def)
      then obtain a' x y where "partitionLoop ?b v (i' + 1) (j' - 1) = Some (a', x, y)" "in_place lo hi ?b a'"
        "y < x" "lo < x" "y < hi" "part_pre a' v lo hi x y"
        using "1.IH"(1) [OF True i'(1) j'(1) le part_pre_swap [OF pre r(1-4) i'(2,4,5) j'(3,4,5) le]]
          r i'(2) j'(3) by auto
      with True i'(1) j'(1) le ip show ?thesis
        by (subst partitionLoop.simps) (auto intro: in_place_trans)
    next
      case gt: False
      have moved: "lo < i" "j < hi"
        using pre gt i'(3) j'(2) s by (auto simp: part_pre_def dn_def up_def split: if_splits)
      have "part_pre a v lo hi i' j'"
        using pre moved i' j' unfolding part_pre_def by (smt (verit) order.strict_implies_order)
      with gt True i'(1,2) j'(1,3) moved show ?thesis
        by (subst partitionLoop.simps) (auto simp: partitionLoop.simps [of a v i' j'])
    qed
  qed
qed

definition split_at :: "'a::linorder list \<Rightarrow> int \<Rightarrow> bool" where
  \<comment> \<open>every cell before position \<open>c\<close> is at most every cell from \<open>c\<close> on\<close>
  "split_at a c \<longleftrightarrow> (\<forall>p q. 0 \<le> p \<and> p < c \<and> c \<le> q \<and> q < int (length a) \<longrightarrow> cell a p \<le> cell a q)"

lemma split_at_in_place:
  assumes sp: "split_at a c" and ip: "in_place lo hi a b" and "0 \<le> lo" "hi < int (length a)"
    "c \<le> lo \<or> hi < c"
  shows "split_at b c"
  unfolding split_at_def
proof (intro allI impI)
  fix p q assume pq: "0 \<le> p \<and> p < c \<and> c \<le> q \<and> q < int (length b)"
  have move: "\<exists>p'. 0 \<le> p' \<and> (p' < c \<longleftrightarrow> p < c) \<and> p' < int (length a) \<and> cell b p = cell a p'"
    if "0 \<le> p" "p < int (length a)" for p
  proof (cases "lo \<le> p \<and> p \<le> hi")
    case True
    then obtain p' where "lo \<le> p'" "p' \<le> hi" "cell b p = cell a p'" using ip by (auto simp: in_place_def)
    with True assms(3-5) show ?thesis by (intro exI [of _ p']) auto
  next
    case False
    with that ip have "cell b p = cell a p" by (auto simp: in_place_def)
    with that show ?thesis by blast
  qed
  have len: "length b = length a" using ip by (simp add: in_place_def)
  obtain p' where "0 \<le> p'" "p' < c" "cell b p = cell a p'" using move [of p] pq len by auto
  moreover obtain q' where "c \<le> q'" "q' < int (length a)" "cell b q = cell a q'" using move [of q] pq len by (auto simp: not_less)
  ultimately show "cell b p \<le> cell b q" using sp by (auto simp: split_at_def)
qed

lemma selectLoop_ok:
  assumes "0 \<le> lo" "lo \<le> k" "k \<le> hi" "hi < int (length a)" "split_at a lo" "split_at a (hi + 1)"
  shows "\<exists>a'. selectLoop a k lo hi = Some (cell a' k, a') \<and> mset a' = mset a \<and> split_at a' k \<and> split_at a' (k + 1)"
  using assms
proof (induction "nat (hi - lo)" arbitrary: a lo hi rule: less_induct)
  case less
  note r = less.prems(1-4) and sp = less.prems(5,6)
  show ?case
  proof (cases "lo < hi")
    case False
    then have "lo = k" "hi = k" using r by auto
    with r sp show ?thesis
      by (subst selectLoop.simps) (auto simp: rd_def cell_def)
  next
    case True
    define mid where "mid = lo + (hi - lo) div 2"
    define a1 where "a1 = medianOfThree a lo mid hi"
    define v where "v = a1 ! nat mid"
    have mid: "lo \<le> mid" "mid \<le> hi" using True by (auto simp: mid_def)
    have ip1: "in_place lo hi a a1"
      unfolding a1_def using r mid by (intro in_place_medianOfThree) auto
    have len1: "length a1 = length a" using ip1 by (simp add: in_place_def)
    have "part_pre a1 v lo hi lo hi"
      using mid by (auto simp: part_pre_def v_def cell_def)
    then obtain a2 i j where p: "partitionLoop a1 v lo hi = Some (a2, i, j)" "in_place lo hi a1 a2"
      "j < i" "lo < i" "j < hi" "part_pre a2 v lo hi i j"
      using partitionLoop_ok [of a1 v lo hi lo hi] r len1 True by auto
    have ip2: "in_place lo hi a a2" using ip1 p(2) by (rule in_place_trans)
    have len2: "length a2 = length a" and ms: "mset a2 = mset a" using ip2 by (auto simp: in_place_def)
    have sp2: "split_at a2 lo" "split_at a2 (hi + 1)"
      using split_at_in_place [OF sp(1) ip2] split_at_in_place [OF sp(2) ip2] r by auto
    have cut: "split_at a2 c" if "j < c" "c \<le> i" "lo \<le> c" "c \<le> hi + 1" for c
      unfolding split_at_def
    proof (intro allI impI)
      fix x y assume xy: "0 \<le> x \<and> x < c \<and> c \<le> y \<and> y < int (length a2)"
      consider "x < lo" | "hi < y" | "lo \<le> x" "y \<le> hi" by linarith
      then show "cell a2 x \<le> cell a2 y"
      proof cases
        case 1
        with sp2(1) xy that show ?thesis by (auto simp: split_at_def)
      next
        case 2
        with sp2(2) xy that show ?thesis by (auto simp: split_at_def)
      next
        case 3
        then have "cell a2 x \<le> v" "v \<le> cell a2 y" using p(6) xy that by (auto simp: part_pre_def)
        then show ?thesis by (rule order_trans)
      qed
    qed
    have unfold: "selectLoop a k lo hi =
        (if k \<le> j then selectLoop a2 k lo j else if k \<ge> i then selectLoop a2 k i hi
         else map_option (\<lambda>v. (v, a2)) (rd a2 k))"
      using True r p(1) by (subst selectLoop.simps) (simp add: Let_def flip: mid_def a1_def v_def)
    consider "k \<le> j" | "j < k" "i \<le> k" | "j < k" "k < i" by linarith
    then show ?thesis
    proof cases
      case 1
      then have "split_at a2 (j + 1)" using p(3,5) r by (intro cut) auto
      then obtain a' where "selectLoop a2 k lo j = Some (cell a' k, a')" "mset a' = mset a2"
        "split_at a' k" "split_at a' (k + 1)"
        using less.hyps [of j lo a2] 1 r p(5) len2 sp2(1) True by fastforce
      with 1 unfold ms show ?thesis by auto
    next
      case 2
      then have "split_at a2 i" using p(3) r p(4) by (intro cut) auto
      then obtain a' where "selectLoop a2 k i hi = Some (cell a' k, a')" "mset a' = mset a2"
        "split_at a' k" "split_at a' (k + 1)"
        using less.hyps [of hi i a2] 2 r p(4) len2 sp2(2) True by auto
      with 2 unfold ms show ?thesis by auto
    next
      case 3
      then have "split_at a2 k" "split_at a2 (k + 1)" using r by (auto intro!: cut)
      moreover have "rd a2 k = Some (cell a2 k)" using r len2 by (simp add: rd_def cell_def)
      ultimately show ?thesis using 3 unfold ms by auto
    qed
  qed
qed

lemma split_at_sort:
  assumes "split_at a (int c)" "c \<le> length a"
  shows "sort (take c a) = take c (sort a)"
proof -
  have "x \<le> y" if x: "x \<in> set (take c a)" and y: "y \<in> set (drop c a)" for x y
  proof -
    obtain p where "p < c" "x = a ! p" using x assms(2) by (auto simp: in_set_conv_nth)
    moreover obtain q where "c \<le> q" "q < length a" "y = a ! q"
      using y assms(2) by (auto simp: in_set_conv_nth) (metis add.commute le_add1 less_diff_conv)
    ultimately show ?thesis
      using assms(1) by (auto simp: split_at_def cell_def dest: spec [of _ "int p"] spec [of _ "int q"])
        (metis cell_def nat_int of_nat_0_le_iff of_nat_less_iff of_nat_le_iff assms(1) split_at_def)
  qed
  then have "sorted (sort (take c a) @ sort (drop c a))" by (auto simp: sorted_append)
  moreover have "mset (sort (take c a) @ sort (drop c a)) = mset a"
    by (metis append_take_drop_id mset_append mset_sort)
  ultimately have "sort a = sort (take c a) @ sort (drop c a)"
    by (metis properties_for_sort)
  then show ?thesis using assms(2) by simp
qed

lemma split_at_rank:
  assumes "split_at a (int k)" "split_at a (int k + 1)" "k < length a"
  shows "a ! k = sort a ! k"
proof -
  have "take (Suc k) (sort a) = sort (take (Suc k) a)"
    using assms split_at_sort [of a "Suc k"] by (simp add: add.commute)
  also have "take (Suc k) a = take k a @ [a ! k]" using assms(3) by (simp add: take_Suc_conv_app_nth)
  also have "sort (take k a @ [a ! k]) = sort (take k a) @ [a ! k]"
  proof (rule properties_for_sort)
    have "x \<le> a ! k" if x: "x \<in> set (take k a)" for x
    proof -
      obtain p where "p < k" "x = a ! p" using x assms(3) by (auto simp: in_set_conv_nth)
      then show ?thesis using assms(1,3) unfolding split_at_def cell_def
        by (metis nat_int of_nat_0_le_iff of_nat_less_iff order_refl)
    qed
    then show "sorted (sort (take k a) @ [a ! k])" by (auto simp: sorted_append)
  qed simp
  finally have "take (Suc k) (sort a) ! k = (sort (take k a) @ [a ! k]) ! k" by simp
  then show ?thesis using assms(3) by (simp add: nth_append)
qed

lemma selectFloat_ok:
  assumes "k < length a"
  shows "\<exists>a'. selectFloat a (int k) = Some (sort a ! k, a') \<and> mset a' = mset a \<and>
     take (k + 1) (sort a) = sort (take (k + 1) a')"
proof -
  have "split_at a 0" "split_at a (int (length a) - 1 + 1)" by (auto simp: split_at_def)
  then obtain a' where a': "selectFloat a (int k) = Some (cell a' (int k), a')" "mset a' = mset a"
    "split_at a' (int k)" "split_at a' (int k + 1)"
    using selectLoop_ok [of 0 "int k" "int (length a) - 1" a] assms by (auto simp: selectFloat_def)
  have len: "length a' = length a" using a'(2) by (rule mset_eq_length)
  have srt: "sort a' = sort a" using a'(2) by (metis properties_for_sort sorted_sort mset_sort)
  have "cell a' (int k) = sort a ! k"
    using split_at_rank [OF a'(3,4)] assms len srt by (simp add: cell_def)
  moreover have "take (k + 1) (sort a) = sort (take (k + 1) a')"
    using split_at_sort [of a' "k + 1"] a'(4) assms len srt by (simp add: add.commute)
  ultimately show ?thesis using a' by auto
qed

lemma medianAndP90Float_ok:
  "medianAndP90Float xs = Some (percentileFloat xs (1/2), percentileFloat xs (9/10))"
proof (cases "xs = []")
  case False
  let ?k90 = "rankIndex (length xs) (9/10)" and ?k50 = "rankIndex (length xs) (1/2)"
  have k: "?k90 < length xs" "?k50 < ?k90 + 1"
    using False rankIndex_less [of "length xs"] rankIndex_mono [of "1/2" "9/10" "length xs"] by auto
  obtain cp where cp: "selectFloat xs (int ?k90) = Some (sort xs ! ?k90, cp)" "mset cp = mset xs"
    "take (?k90 + 1) (sort xs) = sort (take (?k90 + 1) cp)"
    using selectFloat_ok [OF k(1)] by blast
  have len: "length cp = length xs" using cp(2) by (rule mset_eq_length)
  have "?k50 < length (take (?k90 + 1) cp)" using k len by simp
  from selectFloat_ok [OF this] obtain c2 where
    "selectFloat (take (?k90 + 1) cp) (int ?k50) = Some (sort (take (?k90 + 1) cp) ! ?k50, c2)" by blast
  moreover have "sort (take (?k90 + 1) cp) ! ?k50 = sort xs ! ?k50"
    unfolding cp(3) [symmetric] using k(2) by simp
  moreover have "sort xs \<noteq> []" using False by (metis mset_sort mset_zero_iff)
  ultimately show ?thesis
    using False cp(1) percentileSorted_rank [of "sort xs"]
    by (simp add: medianAndP90Float_def Let_def percentileFloat_def)
qed (simp add: medianAndP90Float_def percentileFloat_def percentileSorted_def)

section \<open>The counting pass\<close>

definition loHi :: "int list \<Rightarrow> int \<times> int" where
  "loHi xs = foldl (\<lambda>(lo, hi) v. (if v < lo then v else lo, if v > hi then v else hi)) (xs ! 0, xs ! 0) xs"

fun countLoop :: "int list \<Rightarrow> int \<Rightarrow> int list \<Rightarrow> int list" where
  "countLoop counts lo [] = counts"
| "countLoop counts lo (v # vs) = countLoop (counts[nat (v - lo) := counts ! nat (v - lo) + 1]) lo vs"

fun atRank :: "int list \<Rightarrow> int \<Rightarrow> int \<Rightarrow> int \<Rightarrow> int \<Rightarrow> int \<Rightarrow> int" where
  "atRank [] i seen rank lo hi = hi"
| "atRank (c # cs) i seen rank lo hi =
     (let seen = seen + c in if seen > rank then lo + i else atRank cs (i + 1) seen rank lo hi)"

definition medianAndP90Int :: "int list \<Rightarrow> (real \<times> real) option" where
  "medianAndP90Int xs =
     (let n = length xs
      in if n = 0 then Some (0, 0)
         else let (lo, hi) = loHi xs
              in if i64 (hi - lo) \<ge> 4096
                 then let cp = sort xs in Some (of_int (cp ! rankIndex n (1/2)), of_int (cp ! rankIndex n (9/10)))
                 else if i64 (i64 (hi - lo) + 1) < 0 then None \<comment> \<open>\<open>make\<close> panics\<close>
                 else let counts = countLoop (replicate (nat (i64 (i64 (hi - lo) + 1))) 0) lo xs
                      in Some (of_int (atRank counts 0 0 (int (rankIndex n (1/2))) lo hi),
                               of_int (atRank counts 0 0 (int (rankIndex n (9/10))) lo hi)))"

lemma loHi_bounds:
  assumes "xs \<noteq> []" "loHi xs = (lo, hi)"
  shows "lo \<in> set xs" "hi \<in> set xs" "\<forall>x\<in>set xs. lo \<le> x \<and> x \<le> hi"
proof -
  have gen: "foldl (\<lambda>(lo, hi) v. (if v < lo then v else lo, if v > hi then v else hi)) (l, h) ys = (lo, hi) \<Longrightarrow>
      lo \<in> insert l (set ys) \<and> hi \<in> insert h (set ys) \<and> lo \<le> l \<and> h \<le> hi \<and> (\<forall>x\<in>set ys. lo \<le> x \<and> x \<le> hi)"
    for l h :: int and ys
    by (induction ys arbitrary: l h) (fastforce split: if_splits)+
  from assms gen [of "xs ! 0" "xs ! 0" xs] nth_mem [of 0 xs]
  show "lo \<in> set xs" "hi \<in> set xs" "\<forall>x\<in>set xs. lo \<le> x \<and> x \<le> hi"
    by (auto simp: loHi_def insert_absorb)
qed

lemma countLoop_nth:
  "\<forall>v\<in>set vs. 0 \<le> v - lo \<and> v - lo < int (length counts) \<Longrightarrow> i < length counts \<Longrightarrow>
     length (countLoop counts lo vs) = length counts \<and>
     countLoop counts lo vs ! i = counts ! i + int (length (filter (\<lambda>v. v = lo + int i) vs))"
proof (induction vs arbitrary: counts)
  case (Cons v vs)
  have "nat (v - lo) = i \<longleftrightarrow> v = lo + int i" using Cons.prems by auto
  then show ?case using Cons.IH [of "counts[nat (v - lo) := counts ! nat (v - lo) + 1]"] Cons.prems
    by (auto simp: nth_list_update)
qed simp

lemma rank_char:
  fixes xs :: "int list"
  assumes "length (filter (\<lambda>x. x < v) xs) \<le> r" "r < length (filter (\<lambda>x. x \<le> v) xs)"
  shows "sort xs ! r = v"
proof -
  define ys where "ys = sort xs"
  have cnt: "length (filter P xs) = card {i. i < length ys \<and> P (ys ! i)}" for P
  proof -
    have "length (filter P xs) = size (filter_mset P (mset ys))"
      by (simp add: ys_def flip: mset_filter)
    then show ?thesis by (simp add: length_filter_conv_card flip: mset_filter)
  qed
  have srt: "sorted ys" by (simp add: ys_def)
  have "length (filter (\<lambda>x. x \<le> v) xs) \<le> length ys" by (simp add: ys_def)
  then have r: "r < length ys" using assms(2) by simp
  have "\<not> ys ! r < v"
  proof
    assume "ys ! r < v"
    then have "{..r} \<subseteq> {i. i < length ys \<and> ys ! i < v}"
      using srt r by (auto intro: le_less_trans sorted_nth_mono)
    then have "card {..r} \<le> length (filter (\<lambda>x. x < v) xs)"
      unfolding cnt by (intro card_mono) auto
    then show False using assms(1) by simp
  qed
  moreover have "\<not> v < ys ! r"
  proof
    assume gt: "v < ys ! r"
    have "i < r" if "i < length ys" "ys ! i \<le> v" for i
    proof (rule ccontr)
      assume "\<not> i < r"
      then have "ys ! r \<le> ys ! i" using that srt by (auto intro: sorted_nth_mono)
      with gt that show False by simp
    qed
    then have "{i. i < length ys \<and> ys ! i \<le> v} \<subseteq> {..<r}" by auto
    then have "length (filter (\<lambda>x. x \<le> v) xs) \<le> card {..<r}"
      unfolding cnt by (intro card_mono) auto
    then show False using assms(2) by simp
  qed
  ultimately show ?thesis by (simp add: ys_def)
qed

lemma filter_le_split:
  "length (filter (\<lambda>x. x \<le> v) xs) = length (filter (\<lambda>x. x < v) xs) + length (filter (\<lambda>x. x = (v::int)) xs)"
  by (induction xs) auto

lemma filter_less_Suc: "length (filter (\<lambda>x. x < v + 1) xs) = length (filter (\<lambda>x. x \<le> (v::int)) xs)"
  by (induction xs) auto

lemma atRank_ok:
  assumes "\<forall>j < length cs. cs ! j = int (length (filter (\<lambda>x. x = lo + i + int j) xs))"
    "seen = int (length (filter (\<lambda>x. x < lo + i) xs))" "seen \<le> int r"
    "int r < int (length (filter (\<lambda>x. x < lo + i + int (length cs)) xs))"
  shows "atRank cs i seen (int r) lo hi = sort xs ! r"
  using assms
proof (induction cs arbitrary: i seen)
  case (Cons c cs)
  have c: "c = int (length (filter (\<lambda>x. x = lo + i) xs))" using Cons.prems(1) by force
  have nxt: "seen + c = int (length (filter (\<lambda>x. x \<le> lo + i) xs))"
    using filter_le_split [of "lo + i" xs] Cons.prems(2) c by simp
  show ?case
  proof (cases "seen + c > int r")
    case True
    then have "sort xs ! r = lo + i"
      using Cons.prems(2,3) nxt by (intro rank_char) auto
    with True show ?thesis by simp
  next
    case False
    have "\<forall>j < length cs. cs ! j = int (length (filter (\<lambda>x. x = lo + (i + 1) + int j) xs))"
    proof (intro allI impI)
      fix j assume "j < length cs"
      then have "(c # cs) ! Suc j = int (length (filter (\<lambda>x. x = lo + i + int (Suc j)) xs))"
        using Cons.prems(1) by (metis Suc_less_eq length_Cons)
      then show "cs ! j = int (length (filter (\<lambda>x. x = lo + (i + 1) + int j) xs))"
        by (simp add: add.assoc)
    qed
    moreover have "seen + c = int (length (filter (\<lambda>x. x < lo + (i + 1)) xs))"
      using nxt filter_less_Suc [of "lo + i" xs] by (simp add: add.assoc)
    moreover have "int r < int (length (filter (\<lambda>x. x < lo + (i + 1) + int (length cs)) xs))"
      using Cons.prems(4) by (simp add: add.assoc)
    ultimately show ?thesis using False Cons.IH [of "i + 1" "seen + c"] by simp
  qed
qed simp

lemma medianAndP90Int_ok:
  assumes small: "\<forall>x\<in>set xs. - (2 ^ 61) \<le> x \<and> x \<le> 2 ^ 61"
  shows "medianAndP90Int xs = Some (percentileInt xs (1/2), percentileInt xs (9/10))"
proof (cases "xs = []")
  case False
  obtain lo hi where lh: "loHi xs = (lo, hi)" by fastforce
  note b = loHi_bounds [OF False lh]
  have le: "lo \<le> hi" using b(1,3) by simp
  have "- (2 ^ 61) \<le> lo" "hi \<le> 2 ^ 61" using b(1,2) small by blast+
  then have "- (2 ^ 63) \<le> hi - lo" "hi - lo + 1 < 2 ^ 63" using le by simp_all
  then have spread: "i64 (hi - lo) = hi - lo" and spread1: "i64 (hi - lo + 1) = hi - lo + 1"
    using le by (simp_all add: i64_id)
  have "sort xs \<noteq> []" using False by (metis mset_sort mset_zero_iff)
  then have pct: "percentileInt xs p = of_int (sort xs ! rankIndex (length xs) p)" if "0 < p" "p < 1" for p
    using that percentileSorted_rank [of "sort xs" p] by (simp add: percentileInt_def)
  show ?thesis
  proof (cases "hi - lo \<ge> 4096")
    case True
    with False show ?thesis by (simp add: medianAndP90Int_def lh Let_def spread pct)
  next
    case small_spread: False
    let ?c = "countLoop (replicate (nat (hi - lo + 1)) 0) lo xs"
    have rng: "\<forall>v\<in>set xs. 0 \<le> v - lo \<and> v - lo < int (length (replicate (nat (hi - lo + 1)) (0::int)))"
      using b(3) le by auto
    have len: "length ?c = nat (hi - lo + 1)"
      using countLoop_nth [OF rng, of 0] le by simp
    have "atRank ?c 0 0 (int r) lo hi = sort xs ! r" if "r < length xs" for r
    proof (rule atRank_ok)
      show "\<forall>j<length ?c. ?c ! j = int (length (filter (\<lambda>x. x = lo + 0 + int j) xs))"
        using countLoop_nth [OF rng] len by simp
      have "filter (\<lambda>x. x < lo) xs = []" using b(3) by (auto simp: filter_empty_conv)
      then show "0 = int (length (filter (\<lambda>x. x < lo + 0) xs))" by simp
      have "filter (\<lambda>x. x < lo + int (length ?c)) xs = xs"
        using b(3) len le by (intro filter_True) auto
      then show "int r < int (length (filter (\<lambda>x. x < lo + 0 + int (length ?c)) xs))"
        using that by simp
    qed simp
    then show ?thesis
      using False small_spread le rankIndex_less [of "length xs"]
      by (simp add: medianAndP90Int_def lh Let_def spread spread1 pct)
  qed
qed (simp add: medianAndP90Int_def percentileInt_def percentileSorted_def)

end
