(* ===== verification/SquareSet.thy ===== *)
theory SquareSet
  imports Maidenhead "HOL-Library.Word"
begin

text \<open>
  The sets of the window scan (\<^verbatim>\<open>match_band_event.go\<close>): \<^verbatim>\<open>squareSet\<close>, a bitmap over the
  180 x 180 grid with a counter, and \<^verbatim>\<open>keySet\<close>, a set of byte strings kept as a pair of
  64-bit hashes. The hash functions are parameters; that a pair of hashes tells two keys
  apart is the probabilistic assumption of the source, and a hypothesis here.
\<close>

unbundle bit_operations_syntax

section \<open>The contract of a counting set\<close>

text \<open>
  What the accumulator asks of either set: after any insertions the counter is the number
  of distinct elements, under the abstraction the provider names.
\<close>

locale counting_set =
  fixes empty :: 's and add :: "'s \<Rightarrow> 'a \<Rightarrow> 's" and count :: "'s \<Rightarrow> nat"
    and ok :: "'s \<Rightarrow> bool" and legal :: "'a \<Rightarrow> bool" and key :: "'a \<Rightarrow> 'k" and members :: "'s \<Rightarrow> 'k set"
  assumes ok_empty: "ok empty" and members_empty: "members empty = {}"
    and ok_add: "ok s \<Longrightarrow> legal x \<Longrightarrow> ok (add s x)"
    and members_add: "ok s \<Longrightarrow> legal x \<Longrightarrow> members (add s x) = insert (key x) (members s)"
    and count_card: "ok s \<Longrightarrow> count s = card (members s)"
begin

lemma add_all:
  "ok s \<Longrightarrow> \<forall>x\<in>set xs. legal x \<Longrightarrow>
     ok (foldl add s xs) \<and> members (foldl add s xs) = members s \<union> key ` set xs"
  by (induction xs arbitrary: s) (auto simp: ok_add members_add)

lemma count_all:
  assumes "\<forall>x\<in>set xs. legal x"
  shows "count (foldl add empty xs) = card (key ` set xs)"
  using add_all [OF ok_empty assms] by (simp add: count_card members_empty)

lemma add_member:
  "ok s \<Longrightarrow> legal x \<Longrightarrow> key x \<in> members s \<Longrightarrow> count (add s x) = count s"
  by (simp add: count_card ok_add members_add insert_absorb)

end

section \<open>The square bitmap\<close>

record squareSet =
  bits :: "64 word list"
  sq_n :: nat

definition squareSet_empty :: squareSet where
  "squareSet_empty = \<lparr>bits = replicate ((180 * 180 + 63) div 64) 0, sq_n = 0\<rparr>"

definition squareIndex :: "string \<Rightarrow> int" where
  "squareIndex loc = ((bt loc 0 - 65) * 10 + (bt loc 2 - 48)) * 180 + (bt loc 1 - 65) * 10 + (bt loc 3 - 48)"

definition squareSet_add :: "squareSet \<Rightarrow> string \<Rightarrow> squareSet" where
  "squareSet_add s loc =
     (let i = squareIndex loc; w = nat (drop_bit 6 i); b = push_bit (nat (i AND 63)) (1 :: 64 word)
      in if bits s ! w AND b = 0
         then \<lparr>bits = (bits s)[w := bits s ! w OR b], sq_n = sq_n s + 1\<rparr>
         else s)"

definition squareSet_count :: "squareSet option \<Rightarrow> nat" where
  "squareSet_count s = (case s of None \<Rightarrow> 0 | Some s \<Rightarrow> sq_n s)"

definition square_bits :: "squareSet \<Rightarrow> nat set" where
  "square_bits s = {i. i < 64 * length (bits s) \<and> bit (bits s ! (i div 64)) (i mod 64)}"

definition squareSet_ok :: "squareSet \<Rightarrow> bool" where
  "squareSet_ok s \<longleftrightarrow> length (bits s) = 507 \<and> sq_n s = card (square_bits s)"

lemma squareIndex_range: "IsLocator loc \<Longrightarrow> 0 \<le> squareIndex loc \<and> squareIndex loc < 32400"
proof (erule IsLocator_cases)
  fix a b c d r
  assume "loc = a # b # c # d # r" and r: "65 \<le> byte a" "byte a \<le> 82" "65 \<le> byte b" "byte b \<le> 82"
    "48 \<le> byte c" "byte c \<le> 57" "48 \<le> byte d" "byte d \<le> 57"
  then have "squareIndex loc = ((byte a - 65) * 10 + (byte c - 48)) * 180 + (byte b - 65) * 10 + (byte d - 48)"
    by (simp add: squareIndex_def)
  then have "squareIndex loc = 1800 * byte a + 180 * byte c + 10 * byte b + byte d - 126338"
    by (simp add: algebra_simps)
  then show ?thesis using r by (intro conjI; linarith)
qed

lemma squareIndex_xy: "SquareXY loc = Some (x, y) \<Longrightarrow> squareIndex loc = x * 180 + y"
  by (auto simp: SquareXY_def squareIndex_def split: if_splits)

lemma squareIndex_inj:
  assumes "IsLocator a" "IsLocator b"
  shows "squareIndex a = squareIndex b \<longleftrightarrow> SquareXY a = SquareXY b"
proof -
  obtain x y x' y' where xy: "SquareXY a = Some (x, y)" "SquareXY b = Some (x', y')"
    using assms by (metis SquareXY_None_iff not_None_eq surj_pair)
  have "on_grid x y" "on_grid x' y'" using xy SquareXY_on_grid by blast+
  then have dm: "(x * 180 + y) div 180 = x" "(x' * 180 + y') div 180 = x'"
    by (simp_all add: on_grid_def)
  then have "x * 180 + y = x' * 180 + y' \<longleftrightarrow> x = x' \<and> y = y'" by (metis add_left_cancel)
  then show ?thesis using xy by (simp add: squareIndex_xy)
qed

lemma bit_single: "bit (push_bit k (1 :: 64 word)) n \<longleftrightarrow> n = k \<and> n < 64"
  by (auto simp: bit_push_bit_iff bit_1_iff simp del: push_bit_of_1)

lemma and_single_bit:
  assumes "k < 64"
  shows "(w AND push_bit k (1 :: 64 word) = 0) \<longleftrightarrow> \<not> bit w k"
proof
  assume "w AND push_bit k 1 = 0"
  then have "\<not> bit (w AND push_bit k 1) k" by simp
  then show "\<not> bit w k" using assms by (simp add: bit_and_iff bit_single del: push_bit_of_1)
next
  assume "\<not> bit w k"
  then show "w AND push_bit k 1 = 0"
    by (intro bit_word_eqI) (auto simp: bit_and_iff bit_single simp del: push_bit_of_1)
qed

lemma square_index_split:
  assumes "0 \<le> i" "i < 32400"
  shows "nat (drop_bit 6 i) = nat i div 64" "nat (i AND 63) = nat i mod 64" "nat i div 64 < 507"
proof -
  have "i AND 63 = i mod 64"
    using take_bit_eq_mask [of 6 i] by (simp add: take_bit_eq_mod mask_eq_exp_minus_1)
  then show "nat (i AND 63) = nat i mod 64" using assms by (simp add: nat_mod_distrib)
  show "nat (drop_bit 6 i) = nat i div 64" using assms by (simp add: drop_bit_eq_div nat_div_distrib)
  show "nat i div 64 < 507" using assms by (simp add: div_less_iff_less_mult)
qed

lemma squareSet_add_bits:
  assumes len: "length (bits s) = 507" and loc: "IsLocator loc"
  defines "i \<equiv> nat (squareIndex loc)"
  shows "squareSet_add s loc = (if i \<in> square_bits s then s
      else \<lparr>bits = (bits s)[i div 64 := bits s ! (i div 64) OR push_bit (i mod 64) 1], sq_n = sq_n s + 1\<rparr>)"
proof -
  note r = squareIndex_range [OF loc] 
  note sp = square_index_split [OF conjunct1 [OF r] conjunct2 [OF r], folded i_def]
  have "i \<in> square_bits s \<longleftrightarrow> bit (bits s ! (i div 64)) (i mod 64)"
    using len r by (auto simp: square_bits_def i_def)
  then show ?thesis by (simp add: squareSet_add_def Let_def sp(1,2) and_single_bit del: push_bit_of_1)
qed

lemma square_bits_add:
  assumes len: "length (bits s) = 507" and loc: "IsLocator loc"
  shows "square_bits (squareSet_add s loc) = insert (nat (squareIndex loc)) (square_bits s)"
proof (cases "nat (squareIndex loc) \<in> square_bits s")
  case True
  then show ?thesis using squareSet_add_bits [OF len loc] by auto
next
  case False
  define i where "i = nat (squareIndex loc)"
  have i: "i < 32400" "i div 64 < 507" using squareIndex_range [OF loc] by (auto simp: i_def)
  have "bit ((bits s)[i div 64 := bits s ! (i div 64) OR push_bit (i mod 64) 1] ! (j div 64)) (j mod 64)
      \<longleftrightarrow> j = i \<or> bit (bits s ! (j div 64)) (j mod 64)" if "j < 64 * 507" for j
  proof (cases "j div 64 = i div 64")
    case True
    moreover have "j mod 64 = i mod 64 \<longleftrightarrow> j = i"
      using True by (metis div_mult_mod_eq)
    ultimately show ?thesis using i len by (auto simp: bit_or_iff bit_single simp del: push_bit_of_1)
  qed (use i len in auto)
  then show ?thesis
    using False i len by (auto simp: squareSet_add_bits [OF len loc] square_bits_def bit_or_iff bit_single simp flip: i_def simp del: push_bit_of_1)
qed

lemma finite_square_bits [simp]: "finite (square_bits s)"
  by (simp add: square_bits_def)

interpretation squares: counting_set squareSet_empty squareSet_add "\<lambda>s. squareSet_count (Some s)"
    squareSet_ok IsLocator "\<lambda>loc. nat (squareIndex loc)" square_bits
proof
  show mt: "square_bits squareSet_empty = {}"
    by (auto simp: square_bits_def squareSet_empty_def)
  show "squareSet_ok squareSet_empty"
    using mt by (simp add: squareSet_ok_def squareSet_empty_def)
next
  fix s x assume a: "squareSet_ok s" "IsLocator x"
  then have len: "length (bits s) = 507" by (simp add: squareSet_ok_def)
  show "square_bits (squareSet_add s x) = insert (nat (squareIndex x)) (square_bits s)"
    using len a(2) by (rule square_bits_add)
  then show "squareSet_ok (squareSet_add s x)"
    using a len squareSet_add_bits [OF len a(2)]
    by (auto simp: squareSet_ok_def card_insert_if)
qed (simp add: squareSet_ok_def squareSet_count_def)

lemma squares_card:
  assumes "\<forall>x\<in>set xs. IsLocator x"
  shows "squareSet_count (Some (foldl squareSet_add squareSet_empty xs)) = card (SquareXY ` set xs)"
proof -
  have inj: "nat (squareIndex a) = nat (squareIndex b) \<longleftrightarrow> SquareXY a = SquareXY b"
    if "a \<in> set xs" "b \<in> set xs" for a b
    using that assms squareIndex_range [of a] squareIndex_range [of b] squareIndex_inj [of a b]
    by (auto simp: nat_eq_iff)
  have "bij_betw (\<lambda>k. SquareXY (SOME x. x \<in> set xs \<and> nat (squareIndex x) = k))
      ((\<lambda>l. nat (squareIndex l)) ` set xs) (SquareXY ` set xs)"
  proof -
    have pick: "SquareXY (SOME x. x \<in> set xs \<and> nat (squareIndex x) = nat (squareIndex l)) = SquareXY l"
      if "l \<in> set xs" for l
      using someI [of "\<lambda>x. x \<in> set xs \<and> nat (squareIndex x) = nat (squareIndex l)" l] that inj by blast
    show ?thesis
      unfolding bij_betw_def inj_on_def image_image by (auto simp: pick inj cong: image_cong)
  qed
  then show ?thesis
    using squares.count_all [OF assms] by (simp add: bij_betw_same_card)
qed

section \<open>The hashed key set\<close>

definition hashKey :: "(string \<Rightarrow> 64 word) \<Rightarrow> (string \<Rightarrow> 64 word) \<Rightarrow> string \<Rightarrow> 64 word \<times> 64 word" where
  "hashKey h0 h1 b = (h0 b, h1 b)"

definition keySet_add ::
    "(string \<Rightarrow> 64 word) \<Rightarrow> (string \<Rightarrow> 64 word) \<Rightarrow> (64 word \<times> 64 word) set \<Rightarrow> string \<Rightarrow> (64 word \<times> 64 word) set \<times> bool" where
  \<comment> \<open>the set after the insertion, and whether the key was new\<close>
  "keySet_add h0 h1 s b =
     (let k = hashKey h0 h1 b; n = card s; s = insert k s in (s, card s \<noteq> n))"

definition keySet_note ::
    "(string \<Rightarrow> 64 word) \<Rightarrow> (string \<Rightarrow> 64 word) \<Rightarrow> (64 word \<times> 64 word) set \<Rightarrow> string \<Rightarrow> (64 word \<times> 64 word) set" where
  "keySet_note h0 h1 s b =
     (let k = hashKey h0 h1 b in if k \<in> s then s else insert k s)"

interpretation keys: counting_set "{}" "keySet_note h0 h1" card finite "\<lambda>_. True" "hashKey h0 h1" "\<lambda>s. s"
  by unfold_locales (auto simp: keySet_note_def Let_def)

lemma keySet_add_new: "finite s \<Longrightarrow> snd (keySet_add h0 h1 s b) \<longleftrightarrow> hashKey h0 h1 b \<notin> s"
  by (simp add: keySet_add_def Let_def card_insert_if)

lemma keySet_add_note: "fst (keySet_add h0 h1 s b) = keySet_note h0 h1 s b"
  by (auto simp: keySet_add_def keySet_note_def Let_def)

lemma keys_card:
  assumes "inj_on (hashKey h0 h1) (set xs)"
  shows "card (foldl (keySet_note h0 h1) {} xs) = card (set xs)"
  using keys.count_all [of xs h0 h1] assms by (simp add: card_image)

end
