(* ===== verification/Messages.thy ===== *)
theory Messages
  imports Maidenhead Baseline
begin

text \<open>
  The spot message and its matching: \<^verbatim>\<open>MQTTMessage\<close> (mqtt.go), spot.go,
  match_band_event.go, the live area's membership test (live_area.go) and the distance
  and direction of dx_conditions.go. Debug logging is left out. A Go map read with a
  default is a total function; a pointer that may be nil is an \<open>option\<close>.
\<close>

section \<open>Messages\<close>

record MQTTMessage =
  RP :: int
  T :: int
  SC :: string
  SL :: string
  RC :: string
  RL :: string
  B :: string
  MD :: string
  F :: real
  Source :: string
  TXPower :: int

definition sourceTypeForMessage :: "MQTTMessage \<Rightarrow> string" where
  "sourceTypeForMessage m =
     (let src = ToLower (TrimSpace (Source m))
      in if src \<noteq> [] then src
         else if ToUpper (TrimSpace (MD m)) = ''DXCLUSTER'' then ''dxcluster''
         else ''mqtt'')"

definition reporterLocatorForMessage :: "MQTTMessage \<Rightarrow> string" where
  "reporterLocatorForMessage m =
     (if sourceTypeForMessage m \<in> {''dxcluster'', ''rbn'', ''wspr''}
      then ToUpper (TrimSpace (SL m)) else ToUpper (TrimSpace (RL m)))"

lemma sourceTypeForMessage_ne: "sourceTypeForMessage m \<noteq> []"
  by (simp add: sourceTypeForMessage_def Let_def)

section \<open>Which messages the conditions count\<close>

definition isNonConditionsMode :: "string \<Rightarrow> bool" where
  "isNonConditionsMode md =
     (if md \<in> {[], ''FT8'', ''FT4'', ''DXCLUSTER''} then False
      else if ToUpper (TrimSpace md) \<in> {[], ''FT8'', ''FT4'', ''DXCLUSTER''} then False
      else True)"

definition sourceFeedsClusterBaseline :: "string \<Rightarrow> bool" where
  "sourceFeedsClusterBaseline src \<longleftrightarrow> src \<noteq> ''rbn'' \<and> src \<noteq> ''wspr''"

definition feedsClusterBaseline :: "MQTTMessage \<Rightarrow> bool" where
  "feedsClusterBaseline m = sourceFeedsClusterBaseline (Source m)"

lemma isNonConditionsMode_eq:
  "isNonConditionsMode md \<longleftrightarrow> ToUpper (TrimSpace md) \<notin> {[], ''FT8'', ''FT4'', ''DXCLUSTER''}"
proof -
  have "ToUpper (TrimSpace md) = md" if "md \<in> {[], ''FT8'', ''FT4'', ''DXCLUSTER''}"
    using that by (auto simp: TrimSpace_def is_space_def upper_char_def)
  then show ?thesis by (auto simp: isNonConditionsMode_def)
qed

section \<open>Callsign and locator tests\<close>

definition substr :: "string \<Rightarrow> nat \<Rightarrow> nat \<Rightarrow> string" where
  \<comment> \<open>\<open>s[i:j]\<close>\<close>
  "substr s i j = take (j - i) (drop i s)"

definition matchCall :: "string \<Rightarrow> string \<Rightarrow> bool" where
  "matchCall spotCall qth =
     (let n = length qth in
      if spotCall = qth then True
      else if length spotCall > n \<and> substr spotCall 0 n = qth \<and> spotCall ! n = CHR ''/'' then True
      else if length spotCall > n \<and> substr spotCall (length spotCall - n) (length spotCall) = qth \<and>
              spotCall ! (length spotCall - n - 1) = CHR ''/'' then True
      else let needleLen = n + 2
           in length spotCall \<ge> needleLen \<and>
              list_ex (\<lambda>i. spotCall ! i = CHR ''/'' \<and> substr spotCall (i + 1) (i + 1 + n) = qth \<and>
                           spotCall ! (i + 1 + n) = CHR ''/'')
                [0..<length spotCall - needleLen + 1])"

lemma substr_prefix: "length s > n \<Longrightarrow>
    substr s 0 n = q \<and> s ! n = c \<longleftrightarrow> length q = n \<and> HasPrefix s (q @ [c])"
  by (auto simp: substr_def HasPrefix_def take_Suc_conv_app_nth)

lemma substr_suffix:
  assumes "length s > length q"
  shows "substr s (length s - length q) (length s) = q \<and> s ! (length s - length q - 1) = c
    \<longleftrightarrow> HasSuffix s (c # q)"
proof -
  define k where "k = length s - Suc (length q)"
  have k: "k < length s" "length s - length q = Suc k" "length s - length q - 1 = k"
    using assms by (simp_all add: k_def)
  have "drop k s = s ! k # drop (Suc k) s" using k(1) by (simp add: Cons_nth_drop_Suc)
  moreover have "HasSuffix s (c # q) \<longleftrightarrow> drop k s = c # q"
    using assms by (simp add: HasSuffix_def k_def)
  moreover have "substr s (Suc k) (length s) = drop (Suc k) s" by (simp add: substr_def)
  ultimately show ?thesis unfolding k(2,3) by auto
qed

lemma substr_inner:
  assumes "i + length q + 2 \<le> length s"
  shows "s ! i = c \<and> substr s (i + 1) (i + 1 + length q) = q \<and> s ! (i + 1 + length q) = d
    \<longleftrightarrow> take (length q + 2) (drop i s) = c # q @ [d]"
proof -
  have "drop i s = s ! i # drop (Suc i) s" using assms by (simp add: Cons_nth_drop_Suc)
  moreover have "take (length q + 1) (drop (Suc i) s) = take (length q) (drop (Suc i) s) @ [s ! (i + 1 + length q)]"
    using assms by (simp add: take_Suc_conv_app_nth)
  ultimately show ?thesis by (auto simp: substr_def)
qed

lemma Contains_nth: "Contains s p \<longleftrightarrow> (\<exists>i. i + length p \<le> length s \<and> take (length p) (drop i s) = p)"
proof
  assume "Contains s p"
  then obtain u v where "s = u @ p @ v" by (auto simp: Contains_iff)
  then show "\<exists>i. i + length p \<le> length s \<and> take (length p) (drop i s) = p"
    by (intro exI [of _ "length u"]) simp
next
  assume "\<exists>i. i + length p \<le> length s \<and> take (length p) (drop i s) = p"
  then show "Contains s p" by (metis Contains_iff append_take_drop_id)
qed

lemma matchCall_eq:
  "matchCall s q \<longleftrightarrow> s = q \<or> HasPrefix s (q @ ''/'') \<or> HasSuffix s (CHR ''/'' # q)
     \<or> Contains s (CHR ''/'' # q @ ''/'')"
proof -
  have pre: "(length s > length q \<and> substr s 0 (length q) = q \<and> s ! length q = CHR ''/'') = HasPrefix s (q @ ''/'')"
    using substr_prefix [of "length q" s q "CHR ''/''"] by (auto simp: HasPrefix_iff)
  have suf: "(length s > length q \<and> substr s (length s - length q) (length s) = q \<and>
      s ! (length s - length q - 1) = CHR ''/'') = HasSuffix s (CHR ''/'' # q)"
    using substr_suffix [of q s "CHR ''/''"] by (auto simp: HasSuffix_iff)
  have inn: "(length s \<ge> length q + 2 \<and> list_ex (\<lambda>i. s ! i = CHR ''/'' \<and> substr s (i + 1) (i + 1 + length q) = q \<and>
      s ! (i + 1 + length q) = CHR ''/'') [0..<length s - (length q + 2) + 1]) = Contains s (CHR ''/'' # q @ ''/'')"
  proof (cases "length s \<ge> length q + 2")
    case True
    let ?P = "\<lambda>i. s ! i = CHR ''/'' \<and> substr s (i + 1) (i + 1 + length q) = q \<and> s ! (i + 1 + length q) = CHR ''/''"
    have rng: "i < length s - (length q + 2) + 1 \<longleftrightarrow> i + length q + 2 \<le> length s" for i
      using True by arith
    have "list_ex ?P [0..<length s - (length q + 2) + 1] \<longleftrightarrow> (\<exists>i. i + length q + 2 \<le> length s \<and> ?P i)"
      unfolding list_ex_iff set_upt atLeastLessThan_iff Bex_def rng by simp
    also have "\<dots> \<longleftrightarrow> (\<exists>i. i + length q + 2 \<le> length s \<and> take (length q + 2) (drop i s) = CHR ''/'' # q @ ''/'')"
      by (intro ex_cong1 conj_cong refl substr_inner)
    also have "\<dots> \<longleftrightarrow> Contains s (CHR ''/'' # q @ ''/'')" by (simp add: Contains_nth)
    finally show ?thesis using True by simp
  qed (auto simp: Contains_nth)
  show ?thesis unfolding matchCall_def Let_def pre inn
    using suf by (simp only: if_bool_eq_disj) argo
qed

definition hasPrefixFold :: "string \<Rightarrow> string \<Rightarrow> bool" where
  "hasPrefixFold s prefix =
     (if length s < length prefix then False
      else list_all (\<lambda>i. upper_char (s ! i) = prefix ! i) [0..<length prefix])"

lemma hasPrefixFold_eq: "hasPrefixFold s p = HasPrefix (ToUpper s) p"
proof (cases "length s < length p")
  case True
  then show ?thesis by (auto simp: hasPrefixFold_def HasPrefix_def dest: arg_cong [of _ _ length])
next
  case False
  have "HasPrefix (ToUpper s) p \<longleftrightarrow> (\<forall>i<length p. take (length p) (ToUpper s) ! i = p ! i)"
    using False by (subst HasPrefix_def, subst list_eq_iff_nth_eq) simp
  also have "\<dots> \<longleftrightarrow> (\<forall>i<length p. upper_char (s ! i) = p ! i)"
    using False by (intro all_cong) (simp add: ToUpper_nth)
  finally show ?thesis using False by (simp add: hasPrefixFold_def list_all_iff Ball_def)
qed

section \<open>Live areas\<close>

record liveArea =
  Centre :: string
  BaseRadius :: int
  Radius :: int
  Widened :: bool
  area_x :: int
  area_y :: int
  baseLinks :: "string \<Rightarrow> int"

definition area_contains :: "liveArea \<Rightarrow> string \<Rightarrow> bool" where
  "area_contains a locator =
     (case SquareXYFold locator of None \<Rightarrow> False
      | Some (x, y) \<Rightarrow> \<bar>x - area_x a\<bar> \<le> Radius a \<and> \<bar>y - area_y a\<bar> \<le> Radius a)"

definition ownSquareArea :: "string \<Rightarrow> bool \<Rightarrow> liveArea option" where
  "ownSquareArea qth surroundings =
     (let radius = (if surroundings then 1 else 0)
      in case SquareXY (take 4 qth) of None \<Rightarrow> None
         | Some (x, y) \<Rightarrow> Some \<lparr>Centre = take 4 qth, BaseRadius = radius, Radius = radius, Widened = False,
             area_x = x, area_y = y, baseLinks = (\<lambda>_. 0)\<rparr>)"

lemma area_contains_upper [simp]: "area_contains a (ToUpper s) = area_contains a s"
  by (simp add: area_contains_def SquareXYFold_eq)

lemma area_contains_block:
  "area_contains a s \<longleftrightarrow> (\<exists>x y. SquareXYFold s = Some (x, y) \<and> chebyshev_le (Radius a) (area_x a) (area_y a) x y)"
  by (auto simp: area_contains_def chebyshev_le_def split: option.splits)

section \<open>Distance and direction\<close>

definition atan2 :: "real \<Rightarrow> real \<Rightarrow> real" where
  "atan2 y x =
     (if x > 0 then arctan (y / x)
      else if x < 0 then (if y \<ge> 0 then arctan (y / x) + pi else arctan (y / x) - pi)
      else if y > 0 then pi / 2 else if y < 0 then - (pi / 2) else 0)"

definition haversineKm :: "real \<Rightarrow> real \<Rightarrow> real \<Rightarrow> real \<Rightarrow> real" where
  "haversineKm lat1 lon1 lat2 lon2 =
     (let r = 6371; toRad = pi / 180;
          dLat = (lat2 - lat1) * toRad; dLon = (lon2 - lon1) * toRad;
          a = sin (dLat/2) * sin (dLat/2) + cos (lat1*toRad) * cos (lat2*toRad) * sin (dLon/2) * sin (dLon/2);
          c = 2 * atan2 (sqrt a) (sqrt (1 - a))
      in r * c)"

function wrapUp :: "real \<Rightarrow> real" where
  "wrapUp b = (if b < 0 then wrapUp (b + 360) else b)"
  by pat_completeness auto
termination by (relation "measure (\<lambda>b. nat \<lceil>- b\<rceil>)") auto

function wrapDown :: "real \<Rightarrow> real" where
  "wrapDown b = (if b \<ge> 360 then wrapDown (b - 360) else b)"
  by pat_completeness auto
termination by (relation "measure (\<lambda>b. nat \<lceil>b\<rceil>)") auto

declare wrapUp.simps [simp del] wrapDown.simps [simp del]

definition bearingDegrees :: "real \<Rightarrow> real \<Rightarrow> real \<Rightarrow> real \<Rightarrow> real" where
  "bearingDegrees lat1 lon1 lat2 lon2 =
     (let toRad = pi / 180; phi1 = lat1 * toRad; phi2 = lat2 * toRad;
          lambda1 = lon1 * toRad; lambda2 = lon2 * toRad;
          y = sin (lambda2 - lambda1) * cos phi2;
          x = cos phi1 * sin phi2 - sin phi1 * cos phi2 * cos (lambda2 - lambda1);
          brng = atan2 y x * (180 / pi)
      in wrapDown (wrapUp brng))"

definition sectors :: "string list" where
  "sectors = [''N'', ''NE'', ''E'', ''SE'', ''S'', ''SW'', ''W'', ''NW'']"

definition bearingDirection :: "real \<Rightarrow> real \<Rightarrow> real \<Rightarrow> real \<Rightarrow> string" where
  "bearingDirection lat1 lon1 lat2 lon2 =
     (let deg = bearingDegrees lat1 lon1 lat2 lon2;
          deg = (if deg < 0 then deg + 360 else deg);
          idx = rem (goRound (deg / 45)) 8
      in sectors ! nat idx)"

lemma wrapUp_nonneg: "0 \<le> wrapUp b"
proof (induction b rule: wrapUp.induct)
  case (1 b)
  then show ?case by (cases "b < 0") (simp_all add: wrapUp.simps [of b])
qed

lemma wrapDown_range: "0 \<le> b \<Longrightarrow> 0 \<le> wrapDown b \<and> wrapDown b < 360"
proof (induction b rule: wrapDown.induct)
  case (1 b)
  then show ?case by (cases "b \<ge> 360") (simp_all add: wrapDown.simps [of b])
qed

lemma bearingDegrees_range: "0 \<le> bearingDegrees a b c d" "bearingDegrees a b c d < 360"
  using wrapDown_range [OF wrapUp_nonneg] by (simp_all add: bearingDegrees_def Let_def)

lemma bearing_index:
  "0 \<le> rem (goRound (bearingDegrees a b c d / 45)) 8" "rem (goRound (bearingDegrees a b c d / 45)) 8 < 8"
proof -
  have "0 \<le> goRound (bearingDegrees a b c d / 45)"
    by (rule goRound_nonneg) (simp add: bearingDegrees_range)
  then show "0 \<le> rem (goRound (bearingDegrees a b c d / 45)) 8" "rem (goRound (bearingDegrees a b c d / 45)) 8 < 8"
    by (simp_all add: rem_nonneg)
qed

lemma bearingDirection_in: "bearingDirection a b c d \<in> set sectors"
proof -
  have "nat (rem (goRound (bearingDegrees a b c d / 45)) 8) < length sectors"
    using bearing_index [of a b c d] by (simp add: sectors_def)
  then show ?thesis
    using bearingDegrees_range(1) [of a b c d] by (simp add: bearingDirection_def Let_def)
qed

end
