(* ===== verification/Ingest.thy ===== *)
theory Ingest
  imports Messages
begin

text \<open>
  The PSKReporter ingest (\<^verbatim>\<open>mqtt.go\<close>): the strict parser of the minimal payload, the
  topic back-fill, the normalisation and the mode gate. \<^verbatim>\<open>encoding/json\<close> and the clock
  are parameters (\<open>unmarshal\<close>, \<open>now\<close>). The Go closures move an index \<open>i\<close> over the
  payload; here the unread suffix is passed on, so \<open>i\<close> is the payload's length less the
  suffix's.
\<close>

unbundle bit_operations_syntax

section \<open>The fast parser\<close>

definition is_ws :: "char \<Rightarrow> bool" where
  "is_ws c \<longleftrightarrow> c = CHR '' '' \<or> byte c = 9 \<or> byte c = 10 \<or> byte c = 13"

definition ws :: "string \<Rightarrow> string" where
  "ws s = dropWhile is_ws s"

fun scanDigits :: "int \<Rightarrow> string \<Rightarrow> (int \<times> string) option" where
  \<comment> \<open>the accumulation loop; the sum wraps like the code's \<open>int64\<close>\<close>
  "scanDigits v [] = Some (v, [])"
| "scanDigits v (c # s) =
     (if is_digit c
      then let v = i64 (v * 10 + (byte c - 48))
           in if v < 0 then None else scanDigits v s
      else Some (v, c # s))"

definition scanInt :: "string \<Rightarrow> (int \<times> string) option" where
  "scanInt s =
     (let neg = (s \<noteq> [] \<and> hd s = CHR ''-'');
          s = (if neg then tl s else s)
      in if s = [] \<or> \<not> is_digit (hd s) then None
         else if hd s = CHR ''0'' \<and> tl s \<noteq> [] \<and> is_digit (hd (tl s)) then None
         else case scanDigits 0 s of
                None \<Rightarrow> None
              | Some (v, r) \<Rightarrow>
                  if r \<noteq> [] \<and> hd r \<in> {CHR ''.'', CHR ''e'', CHR ''E''} then None
                  else Some (if neg then - v else v, r))"

definition memberKey :: "string \<Rightarrow> (int \<times> string) option" where
  \<comment> \<open>the switch on the key: its bit in \<open>seen\<close> and the suffix after it\<close>
  "memberKey s =
     (if 2 < length s \<and> s ! 1 = CHR ''t'' \<and> s ! 2 = CHR 0x22 then Some (1, drop 3 s)
      else if 3 < length s \<and> s ! 1 = CHR ''r'' \<and> s ! 2 = CHR ''p'' \<and> s ! 3 = CHR 0x22
      then Some (2, drop 4 s) else None)"

definition scanMember :: "string \<Rightarrow> (int \<times> int \<times> string) option" where
  \<comment> \<open>one turn of the key loop: the bit of the key, its value, the suffix after trailing blanks\<close>
  "scanMember s =
     (let s = ws s
      in if s = [] \<or> hd s \<noteq> CHR 0x22 then None
         else case memberKey s of None \<Rightarrow> None
              | Some (b, s) \<Rightarrow>
                  let s = ws s
                  in if s = [] \<or> hd s \<noteq> CHR '':'' then None
                     else case scanInt (ws (tl s)) of None \<Rightarrow> None
                          | Some (v, s) \<Rightarrow> Some (b, v, ws s))"

lemma ws_length: "length (ws s) \<le> length s"
  by (simp add: ws_def length_dropWhile_le)

lemma scanDigits_length: "scanDigits v s = Some (w, r) \<Longrightarrow> length r \<le> length s"
  by (induction v s rule: scanDigits.induct) (auto simp: Let_def split: if_splits)

lemma scanInt_length: "scanInt s = Some (w, r) \<Longrightarrow> length r \<le> length s"
  using scanDigits_length [of 0 s] scanDigits_length [of 0 "tl s"]
  by (fastforce simp: scanInt_def Let_def split: if_splits option.splits prod.splits)

lemma scanMember_length:
  assumes "scanMember s = Some (b, v, r)"
  shows "length r < length s"
proof -
  from assms obtain u w where k: "memberKey (ws s) = Some (b, u)"
    and w: "scanInt (ws (tl (ws u))) = Some (v, w)" "r = ws w"
    by (auto simp: scanMember_def Let_def split: if_splits option.splits)
  have u: "length u < length (ws s)" using k by (auto simp: memberKey_def split: if_splits)
  have "length r \<le> length w" using w ws_length by simp
  also have "\<dots> \<le> length (ws (tl (ws u)))" using scanInt_length [OF w(1)] .
  also have "\<dots> \<le> length (tl (ws u))" by (rule ws_length)
  also have "\<dots> \<le> length u" using ws_length [of u] by simp
  also have "\<dots> < length (ws s)" by (rule u)
  also have "\<dots> \<le> length s" by (rule ws_length)
  finally show ?thesis .
qed

function scanMembers :: "string \<Rightarrow> int \<Rightarrow> int \<Rightarrow> int \<Rightarrow> (int \<times> int \<times> int \<times> string) option" where
  "scanMembers s t rp seen =
     (case scanMember s of
        None \<Rightarrow> None
      | Some (b, v, r) \<Rightarrow>
          let t = (if b = 1 then v else t); rp = (if b = 1 then rp else v); seen = (seen OR b)
          in if r \<noteq> [] \<and> hd r = CHR '','' then scanMembers (tl r) t rp seen
             else Some (t, rp, seen, r))"
  by pat_completeness auto
termination
  by (relation "measure (\<lambda>(s, _). length s)") (auto dest: scanMember_length)

declare scanMembers.simps [simp del]

definition fastParseMinimalPSKR :: "string \<Rightarrow> (int \<times> int) option" where
  "fastParseMinimalPSKR payload =
     (let s = ws payload
      in if s = [] \<or> hd s \<noteq> CHR ''{'' then None
         else case scanMembers (ws (tl s)) 0 0 0 of
                None \<Rightarrow> None
              | Some (t, rp, seen, s) \<Rightarrow>
                  let s = ws s
                  in if s = [] \<or> hd s \<noteq> CHR ''}'' \<or> seen \<noteq> 3 then None
                     else if ws (tl s) \<noteq> [] then None
                     else Some (t, rp))"

section \<open>Every minimal payload is read back\<close>

definition blank :: "string \<Rightarrow> bool" where
  "blank w \<longleftrightarrow> list_all is_ws w"

definition in_range :: "int \<Rightarrow> bool" where
  "in_range x \<longleftrightarrow> - (2 ^ 63) < x \<and> x < 2 ^ 63"

lemma ws_blank [simp]: "blank w \<Longrightarrow> ws (w @ s) = ws s"
  by (induction w) (auto simp: blank_def ws_def)

lemma ws_all [simp]: "blank w \<Longrightarrow> ws w = []"
  by (simp add: blank_def ws_def list_all_iff)

lemma ws_Cons [simp]: "\<not> is_ws c \<Longrightarrow> ws (c # s) = c # s"
  by (simp add: ws_def)

lemma ws_idem [simp]: "ws (ws s) = ws s"
  by (simp add: ws_def dropWhile_hd_idem)

lemma value_of_ge: "acc \<le> value_of acc s"
proof (induction s arbitrary: acc)
  case (Cons c s)
  have "acc \<le> acc * 10 + (of_char c - 48)" by simp
  also have "\<dots> \<le> value_of acc (c # s)" using Cons by simp
  finally show ?case .
qed simp

lemma scanDigits_run:
  assumes "list_all is_digit ds" "value_of v ds < 2 ^ 63" "r = [] \<or> \<not> is_digit (hd r)"
  shows "scanDigits (int v) (ds @ r) = Some (int (value_of v ds), r)"
  using assms
proof (induction ds arbitrary: v)
  case Nil
  then show ?case by (cases r) auto
next
  case (Cons c ds)
  let ?v = "v * 10 + (of_char c - 48)"
  have bc: "byte c = int (of_char c)" by (simp only: of_nat_of_char)
  have "48 \<le> int (of_char c)" using Cons.prems(1) unfolding bc [symmetric] by (simp only: is_digit_def list.pred_inject)
  then have c: "48 \<le> (of_char c :: nat)" by linarith
  have v: "?v < 2 ^ 63" using value_of_ge [of ?v ds] Cons.prems(2) by simp
  have step: "int v * 10 + (byte c - 48) = int ?v"
    unfolding bc using c by (simp only: of_nat_diff of_nat_add of_nat_mult of_nat_numeral)
  have "i64 (int ?v) = int ?v" using v by (intro i64_id) auto
  then have "scanDigits (int v) ((c # ds) @ r) = scanDigits (int ?v) (ds @ r)"
    using Cons.prems(1) by (simp only: append_Cons scanDigits.simps step Let_def list.pred_inject) simp
  also have "\<dots> = Some (int (value_of ?v ds), r)" using Cons.prems by (intro Cons.IH) simp_all
  finally show ?case by simp
qed

lemma digits_lead: "0 < n \<Longrightarrow> hd (digits n) \<noteq> CHR ''0''"
proof (induction n rule: digits.induct)
  case (1 n)
  show ?case
  proof (cases "n < 10")
    case True
    have "char_of (48 + n) \<noteq> CHR ''0''"
    proof
      assume "char_of (48 + n) = CHR ''0''"
      then have "(of_char (char_of (48 + n)) :: nat) = 48" by simp
      then show False using True "1.prems" by simp
    qed
    with True show ?thesis by (subst digits.simps) simp
  next
    case False
    then show ?thesis using 1 by (subst digits.simps) (simp add: hd_append)
  qed
qed

definition ends_number :: "string \<Rightarrow> bool" where
  "ends_number r \<longleftrightarrow> r = [] \<or> \<not> is_digit (hd r) \<and> hd r \<notin> {CHR ''.'', CHR ''e'', CHR ''E''}"

lemma scanInt_itoa:
  assumes "in_range x" "ends_number r"
  shows "scanInt (itoa x @ r) = Some (x, r)"
proof -
  have run: "scanDigits 0 (digits n @ r) = Some (int n, r)" if "n < 2 ^ 63" for n
    using scanDigits_run [of "digits n" 0 r] that assms(2) digits_all_digit [of n]
    by (auto simp: ends_number_def list_all_iff)
  have hd: "is_digit (hd (digits n @ r))" "hd (digits n @ r) \<noteq> CHR ''-''" for n
    using hd_digits [of n] by (auto simp: is_digit_def)
  have lead: "\<not> (hd (digits n @ r) = CHR ''0'' \<and> tl (digits n @ r) \<noteq> [] \<and> is_digit (hd (tl (digits n @ r))))" for n
  proof (cases "n = 0")
    case True
    then have "digits n = ''0''" using digits_0 by blast
    then show ?thesis using assms(2) by (auto simp: ends_number_def)
  qed (use digits_lead [of n] in simp)
  have e: "\<not> (r \<noteq> [] \<and> hd r \<in> {CHR ''.'', CHR ''e'', CHR ''E''})" using assms(2) by (auto simp: ends_number_def)
  show ?thesis
  proof (cases "x < 0")
    case True
    then have n: "nat (- x) < 2 ^ 63" using assms(1) by (simp add: in_range_def nat_less_iff)
    show ?thesis
      using True run [OF n] hd [of "nat (- x)"] lead [of "nat (- x)"] e
      unfolding scanInt_def Let_def itoa_def by auto
  next
    case False
    then have n: "nat x < 2 ^ 63" using assms(1) by (simp add: in_range_def nat_less_iff)
    show ?thesis
      using False run [OF n] hd [of "nat x"] lead [of "nat x"] e
      unfolding scanInt_def Let_def itoa_def by auto
  qed
qed

text \<open>
  Beyond the range: the sum wraps, and the test for a negative value sees every prefix of the
  digits modulo 2^64.
\<close>

definition wraps_unseen :: "nat \<Rightarrow> bool" where
  \<comment> \<open>no prefix of the decimal digits of \<open>n\<close> wraps to a negative value\<close>
  "wraps_unseen n \<longleftrightarrow> (\<forall>k. n div 10 ^ k mod 2 ^ 64 < 2 ^ 63)"

lemma wraps_unseen_step: "wraps_unseen n \<longleftrightarrow> n mod 2 ^ 64 < 2 ^ 63 \<and> wraps_unseen (n div 10)"
proof
  assume a: "wraps_unseen n"
  have "n div 10 div 10 ^ k mod 2 ^ 64 < 2 ^ 63" for k
    using a [unfolded wraps_unseen_def, rule_format, of "Suc k"] by (simp add: div_mult2_eq)
  then show "n mod 2 ^ 64 < 2 ^ 63 \<and> wraps_unseen (n div 10)"
    using a [unfolded wraps_unseen_def, rule_format, of 0] unfolding wraps_unseen_def by simp
next
  assume a: "n mod 2 ^ 64 < 2 ^ 63 \<and> wraps_unseen (n div 10)"
  show "wraps_unseen n"
    unfolding wraps_unseen_def
  proof
    fix k
    show "n div 10 ^ k mod 2 ^ 64 < 2 ^ 63"
    proof (cases k)
      case (Suc j)
      have "n div 10 div 10 ^ j mod 2 ^ 64 < 2 ^ 63" using a unfolding wraps_unseen_def by blast
      then show ?thesis by (simp add: Suc div_mult2_eq)
    qed (use a in simp)
  qed
qed

lemma wraps_unseen_small: "n < 2 ^ 63 \<Longrightarrow> wraps_unseen n"
  unfolding wraps_unseen_def by (metis div_le_dividend le_less_trans mod_less_eq_dividend)

lemma i64_nat: "i64 (int n) = (if n mod 2 ^ 64 < 2 ^ 63 then int (n mod 2 ^ 64) else int (n mod 2 ^ 64) - 2 ^ 64)"
proof -
  have "int (n mod 2 ^ 64) = int n mod 2 ^ 64" by (simp add: zmod_int)
  moreover have "(int n + 2 ^ 63) mod 2 ^ 64 = (int n mod 2 ^ 64 + 2 ^ 63) mod 2 ^ 64" by (simp add: mod_add_left_eq)
  moreover have "(m + 2 ^ 63) mod 2 ^ 64 = (if m < 2 ^ 63 then m + 2 ^ 63 else m - 2 ^ 63)" if "0 \<le> m" "m < 2 ^ 64" for m :: int
  proof (cases "m < 2 ^ 63")
    case False
    then have "(m + 2 ^ 63) mod 2 ^ 64 = (m - 2 ^ 63 + 2 ^ 64) mod 2 ^ 64" by (simp add: add.commute)
    also have "\<dots> = m - 2 ^ 63" using False that by (simp only: mod_add_self2) simp
    finally show ?thesis using False by simp
  qed (use that in simp)
  moreover have "0 \<le> int n mod 2 ^ 64" "int n mod 2 ^ 64 < 2 ^ 64" by simp_all
  moreover have "n mod 2 ^ 64 < 2 ^ 63 \<longleftrightarrow> int n mod 2 ^ 64 < 2 ^ 63"
    by (metis of_nat_less_iff of_nat_numeral of_nat_power zmod_int)
  ultimately show ?thesis unfolding i64_def by simp
qed

lemma scanDigits_wraps:
  "scanDigits 0 (digits n @ s) = (if wraps_unseen n then scanDigits (int (n mod 2 ^ 64)) s else None)"
proof (induction n arbitrary: s rule: digits.induct)
  case (1 n)
  have digit: "is_digit (char_of (48 + d)) \<and> byte (char_of (48 + d)) - 48 = int d" if "d < 10" for d :: nat
    using that by (simp add: is_digit_def)
  show ?case
  proof (cases "n < 10")
    case True
    then have "i64 (int n) = int n" "wraps_unseen n" "n mod 2 ^ 64 = n"
      by (simp_all add: i64_id wraps_unseen_small)
    then show ?thesis using digit [OF True] True by (subst digits.simps) (simp add: Let_def)
  next
    case False
    define m where "m = n div 10"
    have d: "n mod 10 < 10" by simp
    have "(m mod 2 ^ 64 * 10 + n mod 10) mod 2 ^ 64 = (m * 10 + n mod 10) mod 2 ^ 64" by (metis mod_add_left_eq mod_mult_left_eq)
    also have "m * 10 + n mod 10 = n" by (simp add: m_def)
    finally have "i64 (int (m mod 2 ^ 64 * 10 + n mod 10)) = i64 (int n)" unfolding i64_nat by simp
    then have step: "i64 (int (m mod 2 ^ 64) * 10 + int (n mod 10)) = i64 (int n)" by (simp only: of_nat_add of_nat_mult of_nat_numeral)
    have "scanDigits 0 (digits n @ s) = scanDigits 0 (digits m @ (char_of (48 + n mod 10) # s))"
      using False by (subst digits.simps) (simp add: m_def)
    also have "\<dots> = (if wraps_unseen m then scanDigits (int (m mod 2 ^ 64)) (char_of (48 + n mod 10) # s) else None)"
      unfolding m_def by (rule 1 [OF False])
    also have "scanDigits (int (m mod 2 ^ 64)) (char_of (48 + n mod 10) # s)
        = (if n mod 2 ^ 64 < 2 ^ 63 then scanDigits (int (n mod 2 ^ 64)) s else None)"
    proof -
      have neg: "int (n mod 2 ^ 64) - 2 ^ 64 < 0" by (simp add: zmod_int)
      have "scanDigits (int (m mod 2 ^ 64)) (char_of (48 + n mod 10) # s)
          = (if i64 (int n) < 0 then None else scanDigits (i64 (int n)) s)"
        using digit [OF d] by (simp only: scanDigits.simps Let_def step if_True)
      then show ?thesis using neg unfolding i64_nat by simp
    qed
    finally show ?thesis using wraps_unseen_step [of n] by (simp add: m_def)
  qed
qed

lemma scanInt_wraps:
  assumes "ends_number r"
  shows "scanInt ((if neg then ''-'' else []) @ digits n @ r) =
    (if wraps_unseen n then Some (if neg then - int (n mod 2 ^ 64) else int (n mod 2 ^ 64), r) else None)"
proof -
  have stop: "scanDigits v r = Some (v, r)" for v using assms by (cases r) (auto simp: ends_number_def)
  have run: "scanDigits 0 (digits n @ r) = (if wraps_unseen n then Some (int (n mod 2 ^ 64), r) else None)"
    by (simp only: scanDigits_wraps stop)
  have hd: "is_digit (hd (digits n @ r))" "hd (digits n @ r) \<noteq> CHR ''-''"
    using hd_digits [of n] by (auto simp: is_digit_def)
  have lead: "\<not> (hd (digits n @ r) = CHR ''0'' \<and> tl (digits n @ r) \<noteq> [] \<and> is_digit (hd (tl (digits n @ r))))"
  proof (cases "n = 0")
    case True
    then have "digits n = ''0''" using digits_0 by blast
    then show ?thesis using assms by (auto simp: ends_number_def)
  qed (use digits_lead [of n] in simp)
  have e: "\<not> (r \<noteq> [] \<and> hd r \<in> {CHR ''.'', CHR ''e'', CHR ''E''})" using assms by (auto simp: ends_number_def)
  have ne: "digits n @ r \<noteq> []" by simp
  show ?thesis
    unfolding scanInt_def Let_def using run hd lead e ne
    by (cases neg) auto
qed
lemma not_ws [simp]: "\<not> is_ws (CHR ''{'')" "\<not> is_ws (CHR ''}'')" "\<not> is_ws (CHR '':'')" "\<not> is_ws (CHR '','')"
  "\<not> is_ws (CHR 0x22)" "\<not> is_ws (CHR ''-'')"
  by (simp_all add: is_ws_def)

lemma not_ws_digit: "is_digit c \<Longrightarrow> \<not> is_ws c"
  by (auto simp: is_ws_def is_digit_def)

lemma ws_itoa: "ws (itoa x @ r) = itoa x @ r"
proof -
  have "\<not> is_ws (hd (digits n))" for n using hd_digits not_ws_digit by blast
  then have "\<not> is_ws (hd (itoa x))" by (simp add: itoa_def)
  moreover have "itoa x \<noteq> []" by (simp add: itoa_def)
  ultimately show ?thesis by (cases "itoa x") auto
qed

lemma ends_number_blank:
  assumes "blank w" "hd r \<in> {CHR '','', CHR ''}''}" "r \<noteq> []"
  shows "ends_number (w @ r)"
proof (cases w)
  case Nil
  then show ?thesis using assms by (auto simp: ends_number_def is_digit_def)
next
  case (Cons c w')
  then have "is_ws c" using assms(1) by (simp add: blank_def)
  then show ?thesis using Cons by (auto simp: ends_number_def is_ws_def is_digit_def)
qed

definition member :: "string \<Rightarrow> string \<Rightarrow> string \<Rightarrow> int \<Rightarrow> string \<Rightarrow> string" where
  \<comment> \<open>the text of one member, with its blanks\<close>
  "member key w1 w2 x w3 = CHR 0x22 # key @ CHR 0x22 # w1 @ CHR '':'' # w2 @ itoa x @ w3"

lemma scanMember_text:
  assumes k: "k = ''t'' \<and> b = 1 \<or> k = ''rp'' \<and> b = 2"
    and w: "blank w0" "blank w1" "blank w2" "blank w3" and x: "in_range x"
    and r: "hd r \<in> {CHR '','', CHR ''}''}" "r \<noteq> []"
  shows "scanMember (w0 @ member k w1 w2 x w3 @ r) = Some (b, x, r)"
proof -
  have "ws r = r" using r by (cases r) auto
  moreover have "scanInt (itoa x @ w3 @ r) = Some (x, w3 @ r)"
    using x ends_number_blank [OF w(4) r] by (rule scanInt_itoa)
  moreover have "memberKey (CHR 0x22 # k @ CHR 0x22 # u) = Some (b, u)" for u
    using k by (auto simp: memberKey_def)
  ultimately show ?thesis
    using w unfolding scanMember_def member_def by (simp add: ws_itoa)
qed

lemma fastParse_text:
  assumes "blank w" "blank w'" "blank u" "blank u'" "blank a1" "blank a2" "blank a3" "blank b1" "blank b2" "blank b3"
    and "in_range t" "in_range rp"
  shows "fastParseMinimalPSKR
      (w @ ''{'' @ u @ member ''t'' a1 a2 t a3 @ '','' @ u' @ member ''rp'' b1 b2 rp b3 @ ''}'' @ w') = Some (t, rp)"
    and "fastParseMinimalPSKR
      (w @ ''{'' @ u @ member ''rp'' a1 a2 rp a3 @ '','' @ u' @ member ''t'' b1 b2 t b3 @ ''}'' @ w') = Some (t, rp)"
proof -
  have m: "\<not> is_ws (CHR 0x22)" by simp
  have wsm: "ws (member k c1 c2 x c3 @ r) = member k c1 c2 x c3 @ r" for k c1 c2 x c3 r
    by (simp add: member_def)
  have bl: "blank []" by (simp add: blank_def)
  note t1 = scanMember_text [of "''t''" 1 _ _ _ _ t] and t2 = scanMember_text [of "''rp''" 2 _ _ _ _ rp]
  have o: "(1 :: int) OR 2 = 3" "(2 :: int) OR 1 = 3" by simp_all
  have "scanMembers (member ''t'' a1 a2 t a3 @ '','' @ u' @ member ''rp'' b1 b2 rp b3 @ ''}'' @ w') 0 0 0 = Some (t, rp, 3, ''}'' @ w')"
    using assms t1 [of "[]" a1 a2 a3 "'','' @ u' @ member ''rp'' b1 b2 rp b3 @ ''}'' @ w'"]
      t2 [of u' b1 b2 b3 "''}'' @ w'"] bl
    by (subst scanMembers.simps) (simp add: scanMembers.simps [of "u' @ _"] Let_def)
  then show "fastParseMinimalPSKR
      (w @ ''{'' @ u @ member ''t'' a1 a2 t a3 @ '','' @ u' @ member ''rp'' b1 b2 rp b3 @ ''}'' @ w') = Some (t, rp)"
    using assms by (simp add: fastParseMinimalPSKR_def wsm)
  have "scanMembers (member ''rp'' a1 a2 rp a3 @ '','' @ u' @ member ''t'' b1 b2 t b3 @ ''}'' @ w') 0 0 0 = Some (t, rp, 3, ''}'' @ w')"
    using assms t2 [of "[]" a1 a2 a3 "'','' @ u' @ member ''t'' b1 b2 t b3 @ ''}'' @ w'"]
      t1 [of u' b1 b2 b3 "''}'' @ w'"] bl
    by (subst scanMembers.simps) (simp add: scanMembers.simps [of "u' @ _"] Let_def)
  then show "fastParseMinimalPSKR
      (w @ ''{'' @ u @ member ''rp'' a1 a2 rp a3 @ '','' @ u' @ member ''t'' b1 b2 t b3 @ ''}'' @ w') = Some (t, rp)"
    using assms by (simp add: fastParseMinimalPSKR_def wsm)
qed

section \<open>Ingest of one message\<close>

definition emptyMessage :: MQTTMessage where
  "emptyMessage = \<lparr>RP = 0, T = 0, SC = [], SL = [], RC = [], RL = [], B = [], MD = [], F = 0, Source = [], TXPower = 0\<rparr>"

fun topicWalk :: "nat \<Rightarrow> string \<Rightarrow> string \<Rightarrow> string list" where
  \<comment> \<open>\<open>np\<close> parts are found, \<open>part\<close> is the current one reversed\<close>
  "topicWalk np part [] = (if np < 9 then [rev part] else [])"
| "topicWalk np part (c # s) =
     (if np < 9 then (if c = CHR ''/'' then rev part # topicWalk (np + 1) [] s else topicWalk np (c # part) s)
      else [])"

definition dotsToSlashes :: "string \<Rightarrow> string" where
  \<comment> \<open>\<open>strings.ReplaceAll(s, ".", "/")\<close>\<close>
  "dotsToSlashes s = map (\<lambda>c. if c = CHR ''.'' then CHR ''/'' else c) s"

definition fillFromTopic :: "string list \<Rightarrow> MQTTMessage \<Rightarrow> MQTTMessage" where
  "fillFromTopic parts m =
     (let unk = ''unknown'';
          m = (if B m = [] \<and> parts ! 3 \<noteq> unk then m\<lparr>B := parts ! 3\<rparr> else m);
          m = (if MD m = [] \<and> parts ! 4 \<noteq> unk then m\<lparr>MD := parts ! 4\<rparr> else m);
          m = (if SC m = [] \<and> parts ! 5 \<noteq> unk then m\<lparr>SC := dotsToSlashes (parts ! 5)\<rparr> else m);
          m = (if RC m = [] \<and> parts ! 6 \<noteq> unk then m\<lparr>RC := dotsToSlashes (parts ! 6)\<rparr> else m);
          m = (if SL m = [] \<and> parts ! 7 \<noteq> unk then m\<lparr>SL := parts ! 7\<rparr> else m);
          m = (if RL m = [] \<and> parts ! 8 \<noteq> unk then m\<lparr>RL := parts ! 8\<rparr> else m)
      in m)"

definition normalizeFields :: "MQTTMessage \<Rightarrow> MQTTMessage" where
  "normalizeFields m = m\<lparr>B := TrimSpace (B m), MD := ToUpper (TrimSpace (MD m)),
     SC := ToUpper (TrimSpace (SC m)), RC := ToUpper (TrimSpace (RC m)),
     SL := ToUpper (TrimSpace (SL m)), RL := ToUpper (TrimSpace (RL m))\<rparr>"

definition pskrModeFeedsBaseline :: "string \<Rightarrow> bool" where
  "pskrModeFeedsBaseline mode \<longleftrightarrow> mode = ''FT8'' \<or> mode = ''FT4''"

definition ingestPSKRMessage ::
    "(string \<Rightarrow> MQTTMessage option) \<Rightarrow> int \<Rightarrow> string \<Rightarrow> string \<Rightarrow> MQTTMessage option" where
  \<comment> \<open>the message handed to the baseline and the hub, or \<open>None\<close> when it is dropped\<close>
  "ingestPSKRMessage unmarshal now topic payload =
     (case (case fastParseMinimalPSKR payload of
              Some (t, rp) \<Rightarrow> Some (emptyMessage\<lparr>T := t, RP := rp\<rparr>)
            | None \<Rightarrow> unmarshal payload) of
        None \<Rightarrow> None
      | Some m \<Rightarrow>
          let m = (if B m = [] \<or> MD m = [] \<or> SC m = [] \<or> RC m = [] \<or> SL m = [] \<or> RL m = []
                   then let parts = topicWalk 0 [] topic
                        in if length parts \<ge> 9 then fillFromTopic parts m else m
                   else m);
              m = normalizeFields m
          in if pskrModeFeedsBaseline (MD m)
             then Some (if T m = 0 then m\<lparr>T := now\<rparr> else m)
             else None)"

lemma topicWalk_Cons:
  "CHR ''/'' \<notin> set p \<Longrightarrow> np < 9 \<Longrightarrow> topicWalk np acc (p @ CHR ''/'' # s) = (rev acc @ p) # topicWalk (np + 1) [] s"
  by (induction p arbitrary: acc) auto

lemma topicWalk_last: "CHR ''/'' \<notin> set p \<Longrightarrow> np < 9 \<Longrightarrow> topicWalk np acc p = [rev acc @ p]"
  by (induction p arbitrary: acc) auto

definition pskrTopic :: "string \<Rightarrow> string \<Rightarrow> string \<Rightarrow> string \<Rightarrow> string \<Rightarrow> string \<Rightarrow> string" where
  \<comment> \<open>\<open>pskr/filter/v2/band/mode/sender/receiver/senderLocator/receiverLocator\<close>\<close>
  "pskrTopic b md sc rc sl rl =
     ''pskr/filter/v2/'' @ b @ ''/'' @ md @ ''/'' @ sc @ ''/'' @ rc @ ''/'' @ sl @ ''/'' @ rl"

definition topic_field :: "string \<Rightarrow> bool" where
  "topic_field p \<longleftrightarrow> CHR ''/'' \<notin> set p \<and> p \<noteq> ''unknown''"

lemma topicWalk_pskrTopic:
  assumes "topic_field b" "topic_field md" "topic_field sc" "topic_field rc" "topic_field sl" "topic_field rl"
  shows "topicWalk 0 [] (pskrTopic b md sc rc sl rl) = [''pskr'', ''filter'', ''v2'', b, md, sc, rc, sl, rl]"
  using assms by (simp add: pskrTopic_def topic_field_def topicWalk_Cons topicWalk_last)

lemma ingest_minimal:
  assumes f: "topic_field b" "topic_field md" "topic_field sc" "topic_field rc" "topic_field sl" "topic_field rl"
    and p: "fastParseMinimalPSKR payload = Some (t, rp)"
  shows "ingestPSKRMessage unmarshal now (pskrTopic b md sc rc sl rl) payload =
    (if ToUpper (TrimSpace md) \<in> {''FT8'', ''FT4''}
     then Some (emptyMessage\<lparr>T := if t = 0 then now else t, RP := rp, B := TrimSpace b, MD := ToUpper (TrimSpace md),
        SC := ToUpper (TrimSpace (dotsToSlashes sc)), RC := ToUpper (TrimSpace (dotsToSlashes rc)),
        SL := ToUpper (TrimSpace sl), RL := ToUpper (TrimSpace rl)\<rparr>)
     else None)"
  using f unfolding ingestPSKRMessage_def p option.case prod.case topicWalk_pskrTopic [OF f]
  by (simp add: emptyMessage_def fillFromTopic_def normalizeFields_def pskrModeFeedsBaseline_def topic_field_def Let_def)

lemma normalizeFields_idem: "normalizeFields (normalizeFields m) = normalizeFields m"
  by (simp add: normalizeFields_def TrimSpace_ToUpper)

lemma normalizeFields_T: "normalizeFields (m\<lparr>T := t\<rparr>) = (normalizeFields m)\<lparr>T := t\<rparr>" "MD (m\<lparr>T := t\<rparr>) = MD m"
  by (simp_all add: normalizeFields_def)

lemma ingest_form:
  assumes "ingestPSKRMessage unmarshal now topic payload = Some m"
  obtains q where "pskrModeFeedsBaseline (MD (normalizeFields q))"
    "m = (if T (normalizeFields q) = 0 then (normalizeFields q)\<lparr>T := now\<rparr> else normalizeFields q)"
  using assms unfolding ingestPSKRMessage_def Let_def
  by (auto split: option.splits if_split_asm intro: that)

lemma ingest_normal:
  assumes "ingestPSKRMessage unmarshal now topic payload = Some m"
  shows "MD m = ''FT8'' \<or> MD m = ''FT4''" "now \<noteq> 0 \<Longrightarrow> T m \<noteq> 0" "normalizeFields m = m"
proof -
  obtain q where q: "pskrModeFeedsBaseline (MD (normalizeFields q))"
    "m = (if T (normalizeFields q) = 0 then (normalizeFields q)\<lparr>T := now\<rparr> else normalizeFields q)"
    using assms by (rule ingest_form)
  then show "MD m = ''FT8'' \<or> MD m = ''FT4''" "now \<noteq> 0 \<Longrightarrow> T m \<noteq> 0"
    by (simp_all add: pskrModeFeedsBaseline_def)
  show "normalizeFields m = m"
    unfolding q(2) by (simp add: normalizeFields_T normalizeFields_idem)
qed

end
