(* ===== verification/Matching.thy ===== *)
theory Matching
  imports Messages "HOL-Library.Word"
begin

text \<open>
  Matching a message against a client or an operator's area: \<^verbatim>\<open>matchAndCreateSpot\<close>
  (spot.go, hub.go's \<^verbatim>\<open>Client\<close>), the reference matcher \<^verbatim>\<open>extractMatchedBandEventArea\<close>
  (dx_conditions.go) and the allocation-free \<^verbatim>\<open>matchBandEvent\<close> with its square bitmap
  (match_band_event.go), which is proved to compute the same.
\<close>

section \<open>Tokens and areas\<close>

lemma HasPrefix_name_iff:
  assumes "on_grid x y"
  shows "HasPrefix (ToUpper loc) (SquareXYToLocator x y) \<longleftrightarrow> SquareXYFold loc = Some (x, y)"
proof
  assume "HasPrefix (ToUpper loc) (SquareXYToLocator x y)"
  then obtain r where r: "ToUpper loc = SquareXYToLocator x y @ r" by (auto simp: HasPrefix_iff)
  have il: "IsLocator (SquareXYToLocator x y)" using assms by (rule IsLocator_SquareXYToLocator)
  then have "IsLocator (ToUpper loc)" unfolding r by (simp add: SquareXYToLocator_def)
  moreover have "take 4 (ToUpper loc) = SquareXYToLocator x y" by (simp add: r SquareXYToLocator_def)
  ultimately have "SquareXY (ToUpper loc) = SquareXY (SquareXYToLocator x y)"
    by (metis SquareXY_take4)
  then show "SquareXYFold loc = Some (x, y)"
    using assms by (simp add: SquareXYFold_eq SquareXY_SquareXYToLocator)
next
  assume "SquareXYFold loc = Some (x, y)"
  then have "SquareXY (ToUpper loc) = Some (x, y)" by (simp add: SquareXYFold_eq)
  then have "SquareXYToLocator x y = take 4 (ToUpper loc)" by (simp add: SquareXYToLocator_SquareXY)
  moreover have "length (SquareXYToLocator x y) = 4" by (simp add: SquareXYToLocator_def)
  ultimately show "HasPrefix (ToUpper loc) (SquareXYToLocator x y)"
    by (simp only: HasPrefix_def)
qed

lemma ownSquareArea_xy:
  assumes "SquareXY qth = Some (x, y)"
  obtains a where "ownSquareArea qth s = Some a" "area_x a = x" "area_y a = y"
    "Radius a = (if s then 1 else 0)" "BaseRadius a = Radius a" "\<not> Widened a"
proof -
  have "SquareXY (take 4 qth) = Some (x, y)"
    using assms by (simp add: SquareXY_take4 SquareXY_IsLocator)
  then show thesis
    by (intro that [of "the (ownSquareArea qth s)"]) (simp_all add: ownSquareArea_def Let_def)
qed

lemma QTHSquares_tokens:
  assumes "SquareXY qth = Some (cx, cy)"
  shows "set (QTHSquares qth s) =
    {SquareXYToLocator x y | x y. on_grid x y \<and> chebyshev_le (if s then 1 else 0) cx cy x y}"
  using assms SquaresWithinRings_block [of "take 4 qth" cx cy "if s then 1 else 0"]
  by (simp add: QTHSquares_def SquareXY_IsLocator SquareXY_take4 exact.set_block)

lemma area_contains_tokens:
  assumes "IsLocator qth" "ownSquareArea qth s = Some a"
  shows "area_contains a loc \<longleftrightarrow> (\<exists>t\<in>set (QTHSquares qth s). HasPrefix (ToUpper loc) t)"
proof -
  obtain cx cy where xy: "SquareXY qth = Some (cx, cy)"
    using assms(1) by (auto simp: SquareXY_def)
  have ga: "Radius a = (if s then 1 else 0)" "area_x a = cx" "area_y a = cy"
    using ownSquareArea_xy [OF xy, of s] assms(2) by (metis option.inject)+
  have "(\<exists>t\<in>set (QTHSquares qth s). HasPrefix (ToUpper loc) t) \<longleftrightarrow>
      (\<exists>x y. on_grid x y \<and> chebyshev_le (Radius a) cx cy x y \<and> SquareXYFold loc = Some (x, y))"
    unfolding QTHSquares_tokens [OF xy] ga by (simp add: Bex_def) (metis HasPrefix_name_iff)
  also have "\<dots> \<longleftrightarrow> area_contains a loc"
    using SquareXYFold_on_grid by (auto simp: area_contains_block ga)
  finally show ?thesis by blast
qed

section \<open>Spots for a client\<close>

record Spot =
  Lat :: real
  Lng :: real
  SNR :: int
  AgeSeconds :: int
  Locator :: string
  ReporterLocator :: string
  SourceType :: string
  Band :: string
  Sender :: string
  Receiver :: string
  spotT :: int
  Seq :: int

record Client =
  qthSet :: "string list"
  areaActive :: bool
  areaX :: int
  areaY :: int
  areaRings :: int

definition ageClamped :: "int \<Rightarrow> int \<Rightarrow> int" where
  "ageClamped now t = (let age = now - t in if age < 0 then 0 else age)"

definition areaHit :: "Client \<Rightarrow> string \<Rightarrow> bool" where
  \<comment> \<open>the area-of-interest test of one end, written twice in the source\<close>
  "areaHit client loc =
     (areaActive client \<and>
      (case SquareXYFold loc of None \<Rightarrow> False
       | Some (x, y) \<Rightarrow> \<bar>x - areaX client\<bar> \<le> areaRings client \<and> \<bar>y - areaY client\<bar> \<le> areaRings client))"

definition matchAndCreateSpot :: "Client \<Rightarrow> MQTTMessage \<Rightarrow> int \<Rightarrow> Spot option" where
  "matchAndCreateSpot client m now =
     (if qthSet client = [] \<and> \<not> areaActive client then None
      else let sc = ToUpper (SC m); rc = ToUpper (RC m);
               isSender = list_ex (\<lambda>t. matchCall sc t \<or> (IsLocator t \<and> hasPrefixFold (SL m) t)) (qthSet client);
               isReceiver = list_ex (\<lambda>t. matchCall rc t \<or> (IsLocator t \<and> hasPrefixFold (RL m) t)) (qthSet client);
               isSender = (isSender \<or> areaHit client (SL m));
               isReceiver = (isReceiver \<or> areaHit client (RL m))
           in if \<not> isSender \<and> \<not> isReceiver then None
              else let remoteLocator = (if isSender then ToUpper (RL m) else ToUpper (SL m))
                   in if remoteLocator = [] then None
                      else let (lat, lng) = ToLatLng remoteLocator;
                               age = ageClamped now (T m)
                           in Some \<lparr>Lat = lat, Lng = lng, SNR = RP m, AgeSeconds = age,
                                Locator = remoteLocator,
                                ReporterLocator = reporterLocatorForMessage m,
                                SourceType = sourceTypeForMessage m, Band = B m,
                                Sender = SC m, Receiver = RC m, spotT = T m, Seq = 0\<rparr>)"

definition endMatches :: "Client \<Rightarrow> string \<Rightarrow> string \<Rightarrow> bool" where
  \<comment> \<open>the specification of one end: a callsign token, a locator token or the area\<close>
  "endMatches client call loc \<longleftrightarrow>
     (\<exists>t\<in>set (qthSet client). matchCall (ToUpper call) t \<or> IsLocator t \<and> HasPrefix (ToUpper loc) t) \<or>
     areaActive client \<and> (\<exists>x y. SquareXY (ToUpper loc) = Some (x, y) \<and>
        chebyshev_le (areaRings client) (areaX client) (areaY client) x y)"

lemma areaHit_eq: "areaHit c loc \<longleftrightarrow> areaActive c \<and> (\<exists>x y. SquareXY (ToUpper loc) = Some (x, y) \<and>
    chebyshev_le (areaRings c) (areaX c) (areaY c) x y)"
  by (auto simp: areaHit_def SquareXYFold_eq chebyshev_le_def split: option.splits)

lemma end_eq: "(list_ex (\<lambda>t. matchCall (ToUpper call) t \<or> (IsLocator t \<and> hasPrefixFold loc t)) (qthSet c) \<or> areaHit c loc)
    = endMatches c call loc"
  by (simp add: endMatches_def list_ex_iff hasPrefixFold_eq areaHit_eq)

lemma matchAndCreateSpot_eq:
  "matchAndCreateSpot c m now =
     (if endMatches c (SC m) (SL m) \<and> RL m \<noteq> [] \<or> \<not> endMatches c (SC m) (SL m) \<and> endMatches c (RC m) (RL m) \<and> SL m \<noteq> []
      then let loc = ToUpper (if endMatches c (SC m) (SL m) then RL m else SL m)
           in Some \<lparr>Lat = fst (ToLatLng loc), Lng = snd (ToLatLng loc), SNR = RP m, AgeSeconds = max 0 (now - T m),
                Locator = loc, ReporterLocator = reporterLocatorForMessage m,
                SourceType = sourceTypeForMessage m, Band = B m,
                Sender = SC m, Receiver = RC m, spotT = T m, Seq = 0\<rparr>
      else None)"
proof -
  have age: "ageClamped now (T m) = max 0 (now - T m)" by (simp add: ageClamped_def Let_def)
  show ?thesis
  proof (cases "qthSet c = [] \<and> \<not> areaActive c")
    case True
    then show ?thesis by (simp add: matchAndCreateSpot_def endMatches_def)
  next
    case False
    then show ?thesis
      unfolding matchAndCreateSpot_def Let_def end_eq age
      by (auto simp: split_beta)
  qed
qed

lemma matchAndCreateSpot_locator:
  "matchAndCreateSpot c m now = Some s \<Longrightarrow> Locator s \<noteq> [] \<and> spotT s = T m \<and> 0 \<le> AgeSeconds s"
  by (auto simp: matchAndCreateSpot_eq Let_def split: if_splits)

section \<open>Band events: the reference matcher\<close>

definition dxDedupWindowSeconds :: int where
  "dxDedupWindowSeconds = 30"

record matchedBandEvent =
  me_band :: string
  remote4 :: string
  qualityKey :: string
  dedupKey :: string
  snr :: int
  distanceKm :: real
  direction :: string
  tx :: string
  rx :: string
  timestampSec :: int

definition linkGeometry :: "real \<times> real \<Rightarrow> real \<times> real \<Rightarrow> real \<times> string" where
  \<comment> \<open>distance and direction, unless an end decodes to the (0, 0) of an unusable locator\<close>
  "linkGeometry p q =
     (case (p, q) of ((lat1, lon1), (lat2, lon2)) \<Rightarrow>
        if \<not> (lat1 = 0 \<and> lon1 = 0) \<and> \<not> (lat2 = 0 \<and> lon2 = 0)
        then (haversineKm lat1 lon1 lat2 lon2, bearingDirection lat1 lon1 lat2 lon2)
        else (0, []))"

definition extractMatchedBandEventArea ::
    "MQTTMessage \<Rightarrow> string list \<Rightarrow> liveArea option \<Rightarrow> matchedBandEvent option" where
  "extractMatchedBandEventArea m qths area =
     (let band = normalizeBand (B m)
      in if band = [] then None
         else let slTrim = TrimSpace (SL m); rlTrim = TrimSpace (RL m)
         in if slTrim = [] \<or> rlTrim = [] then None
         else let isSender = (case area of None \<Rightarrow> False | Some a \<Rightarrow> area_contains a slTrim);
                  isReceiver = (case area of None \<Rightarrow> False | Some a \<Rightarrow> area_contains a rlTrim)
         in if area \<noteq> None \<and> \<not> isSender \<and> \<not> isReceiver then None
         else let sc = ToUpper (TrimSpace (SC m)); rc = ToUpper (TrimSpace (RC m));
                  sl = ToUpper slTrim; rl = ToUpper rlTrim;
                  isSender = (isSender \<or> area = None \<and>
                     list_ex (\<lambda>t. matchCall sc t \<or> (IsLocator t \<and> HasPrefix sl t)) qths);
                  isReceiver = (isReceiver \<or> area = None \<and>
                     list_ex (\<lambda>t. matchCall rc t \<or> (IsLocator t \<and> HasPrefix rl t)) qths)
         in if \<not> isSender \<and> \<not> isReceiver then None
         else let (localLocator, remoteLocator) =
                    (if \<not> isSender \<and> isReceiver then (rl, sl) else (sl, rl));
                  (dist, dir) = linkGeometry (ToLatLng localLocator) (ToLatLng remoteLocator);
                  dedup = foldl (\<lambda>kb part. (kb @ ''|'') @ part)
                            (itoa (quot (T m) dxDedupWindowSeconds)) [band, sc, rc, sl, rl];
                  quality = band @ ''|'' @ sc @ ''|'' @ rc @ ''|'' @ remoteLocator;
                  r4 = (if IsLocator remoteLocator then take 4 remoteLocator else [])
         in Some \<lparr>me_band = band, remote4 = r4, qualityKey = quality, dedupKey = dedup,
                   snr = RP m, distanceKm = dist, direction = dir, tx = sc, rx = rc,
                   timestampSec = T m\<rparr>)"

section \<open>Band events: the scan's matcher\<close>

definition appendUpperTrim :: "string \<Rightarrow> string \<Rightarrow> string" where
  "appendUpperTrim dst s =
     (let s = TrimSpace s;
          low = map (\<lambda>c. if (byte c - 97) mod 256 < 26 then char_of (byte c - 32) else c) s;
          high = list_ex (\<lambda>c. byte c \<ge> 128) s
      in if high then dst @ ToUpper s else dst @ low)"

definition locatorToLatLngFold :: "string \<Rightarrow> real \<times> real" where
  "locatorToLatLngFold locator =
     (if length locator < 2 then (0, 0)
      else if list_ex (\<lambda>c. byte c \<ge> 128) locator then ToLatLng locator
      else let up = (\<lambda>i. byte (upper_char (locator ! i)));
               lng = ub (up 0 - 65) * 20 - 180;
               lat = ub (up 1 - 65) * 10 - 90
           in if length locator \<ge> 4
              then let lng = lng + ub (up 2 - 48) * 2;
                       lat = lat + ub (up 3 - 48) * 1
                   in if length locator \<ge> 6
                      then (lat + (ub (up 5 - 65) * (5/2 / 60) + 5/2 / 120),
                            lng + (ub (up 4 - 65) * (5 / 60) + 5 / 120))
                      else (lat + 1/2, lng + 1)
              else (lat + 5, lng + 10))"

record bandHit =
  hit_snr :: int
  hit_distanceKm :: real
  hit_direction :: string
  hit_key :: string
  hit_tx :: string
  hit_rx :: string
  hit_remote :: string

fun LastIndexByte :: "string \<Rightarrow> char \<Rightarrow> nat option" where
  "LastIndexByte [] x = None"
| "LastIndexByte (c # s) x =
     (case LastIndexByte s x of Some i \<Rightarrow> Some (Suc i) | None \<Rightarrow> if c = x then Some 0 else None)"

definition remoteOf :: "matchedBandEvent \<Rightarrow> string" where
  "remoteOf ev =
     (case LastIndexByte (qualityKey ev) (CHR ''|'') of
        Some i \<Rightarrow> drop (i + 1) (qualityKey ev) | None \<Rightarrow> [])"

definition matchBandEvent ::
    "MQTTMessage \<Rightarrow> string list \<Rightarrow> liveArea option \<Rightarrow> string \<Rightarrow> bool \<Rightarrow> string \<Rightarrow> bandHit option" where
  "matchBandEvent m qths area band lite kb =
     (case area of
        None \<Rightarrow>
          (case extractMatchedBandEventArea m qths None of
             None \<Rightarrow> None
           | Some ev \<Rightarrow> Some \<lparr>hit_snr = snr ev, hit_distanceKm = distanceKm ev, hit_direction = direction ev,
                hit_key = kb @ dedupKey ev,
                hit_tx = (if lite then [] else tx ev), hit_rx = (if lite then [] else rx ev),
                hit_remote = (if lite then [] else remoteOf ev)\<rparr>)
      | Some a \<Rightarrow>
          let slTrim = TrimSpace (SL m); rlTrim = TrimSpace (RL m)
          in if slTrim = [] \<or> rlTrim = [] then None
          else let isSender = area_contains a slTrim; isReceiver = area_contains a rlTrim
          in if \<not> isSender \<and> \<not> isReceiver then None
          else let (loc, remote) = (if \<not> isSender \<and> isReceiver then (rlTrim, slTrim) else (slTrim, rlTrim));
                   (lat1, lon1) = locatorToLatLngFold loc;
                   (lat2, lon2) = locatorToLatLngFold remote;
                   usable = (\<not> (lat1 = 0 \<and> lon1 = 0) \<and> \<not> (lat2 = 0 \<and> lon2 = 0));
                   dist = (if usable then haversineKm lat1 lon1 lat2 lon2 else 0);
                   dir = (if usable \<and> \<not> lite then bearingDirection lat1 lon1 lat2 lon2 else []);
                   kb = kb @ itoa (quot (T m) dxDedupWindowSeconds);
                   kb = kb @ ''|''; kb = kb @ band; kb = kb @ ''|'';
                   scAt = length kb;
                   kb = appendUpperTrim kb (SC m);
                   rcAt = length kb + 1;
                   kb = appendUpperTrim (kb @ ''|'') (RC m);
                   slAt = length kb + 1;
                   kb = appendUpperTrim (kb @ ''|'') slTrim;
                   rlAt = length kb + 1;
                   kb = appendUpperTrim (kb @ ''|'') rlTrim
          in if lite
             then Some \<lparr>hit_snr = RP m, hit_distanceKm = dist, hit_direction = dir, hit_key = kb,
                        hit_tx = [], hit_rx = [], hit_remote = []\<rparr>
             else Some \<lparr>hit_snr = RP m, hit_distanceKm = dist, hit_direction = dir, hit_key = kb,
                        hit_tx = substr kb scAt (rcAt - 1), hit_rx = substr kb rcAt (slAt - 1),
                        hit_remote = (if isSender \<or> \<not> isReceiver then drop rlAt kb
                                      else substr kb slAt (rlAt - 1))\<rparr>)"

lemma appendUpperTrim_eq: "appendUpperTrim dst s = dst @ ToUpper (TrimSpace s)"
proof -
  have "(if (byte c - 97) mod 256 < 26 then char_of (byte c - 32) else c) = upper_char c"
    if "byte c < 128" for c
  proof (cases "byte c < 97")
    case True
    have "(byte c - 97) mod 256 = (byte c - 97 + 256) mod 256" by (rule mod_add_self2 [symmetric])
    also have "\<dots> = byte c - 97 + 256" by (rule mod_pos_pos_trivial) (use True that byte_bounds(1) [of c] in linarith)+
    finally have "\<not> (byte c - 97) mod 256 < 26" using byte_bounds(1) [of c] by linarith
    then show ?thesis using True by (simp add: upper_char_def)
  next
    case False
    then have "(byte c - 97) mod 256 = byte c - 97" using that by (intro mod_pos_pos_trivial) auto
    then show ?thesis using False by (simp add: upper_char_def)
  qed
  then have "map (\<lambda>c. if (byte c - 97) mod 256 < 26 then char_of (byte c - 32) else c) t = ToUpper t"
    if "\<not> list_ex (\<lambda>c. byte c \<ge> 128) t" for t
    using that by (auto simp: ToUpper_def list_ex_iff not_le)
  then show ?thesis by (simp add: appendUpperTrim_def Let_def)
qed

lemma locatorToLatLngFold_eq: "locatorToLatLngFold l = ToLatLng l"
proof (cases "list_ex (\<lambda>c. byte c \<ge> 128) l \<or> length l < 2")
  case True
  then show ?thesis by (auto simp: locatorToLatLngFold_def ToLatLng_def)
next
  case False
  have b: "bt (ToUpper l) i = byte (upper_char (l ! i))" if "i < length l" for i
    using that by (simp add: bt_def ToUpper_nth)
  have len: "0 < length l" "1 < length l" using False by auto
  show ?thesis
    using False b [OF len(1)] b [OF len(2)]
    by (simp add: locatorToLatLngFold_def ToLatLng_def Let_def b)
qed

lemma ToLatLng_upper [simp]: "ToLatLng (ToUpper l) = ToLatLng l"
  by (simp add: ToLatLng_def)

lemma LastIndexByte_last: "x \<notin> set v \<Longrightarrow> LastIndexByte (u @ x # v) x = Some (length u)"
proof -
  assume "x \<notin> set v"
  then have "LastIndexByte v x = None" by (induction v) auto
  then show ?thesis by (induction u) auto
qed

lemma remoteOf_quality:
  assumes "CHR ''|'' \<notin> set r" "qualityKey ev = u @ ''|'' @ r"
  shows "remoteOf ev = r"
  using assms LastIndexByte_last [of "CHR ''|''" r u] by (simp add: remoteOf_def)

definition hitOf :: "bool \<Rightarrow> string \<Rightarrow> matchedBandEvent \<Rightarrow> bandHit" where
  \<comment> \<open>what the scan keeps of an event\<close>
  "hitOf lite kb ev =
     \<lparr>hit_snr = snr ev, hit_distanceKm = distanceKm ev,
      hit_direction = (if lite then [] else direction ev), hit_key = kb @ dedupKey ev,
      hit_tx = (if lite then [] else tx ev), hit_rx = (if lite then [] else rx ev),
      hit_remote = (if lite then [] else remoteOf ev)\<rparr>"

lemma substr_mid: "i = length u \<Longrightarrow> j = length u + length v \<Longrightarrow> substr (u @ v @ w) i j = v"
  by (simp add: substr_def)

lemma no_bar_upper_trim: "CHR ''|'' \<notin> set s \<Longrightarrow> CHR ''|'' \<notin> set (ToUpper (TrimSpace s))"
proof -
  assume a: "CHR ''|'' \<notin> set s"
  have "set (TrimSpace s) \<subseteq> set s"
    by (auto simp: TrimSpace_def dest!: set_dropWhileD)
  moreover have "upper_char c \<noteq> CHR ''|''" if "c \<noteq> CHR ''|''" for c
    using that by (simp add: char_eq_byte byte_upper)
  ultimately show ?thesis using a unfolding ToUpper_def by (metis (no_types, lifting) imageE list.set_map subsetD)
qed

lemma key_parts:
  "substr (((((((k @ sc) @ ''|'') @ rc) @ ''|'') @ sl) @ ''|'') @ rl) (length k) (length (k @ sc) + 1 - 1) = sc"
  "substr (((((((k @ sc) @ ''|'') @ rc) @ ''|'') @ sl) @ ''|'') @ rl)
     (length (k @ sc) + 1) (length (((k @ sc) @ ''|'') @ rc) + 1 - 1) = rc"
  "substr (((((((k @ sc) @ ''|'') @ rc) @ ''|'') @ sl) @ ''|'') @ rl)
     (length (((k @ sc) @ ''|'') @ rc) + 1) (length (((((k @ sc) @ ''|'') @ rc) @ ''|'') @ sl) + 1 - 1) = sl"
  "drop (length (((((k @ sc) @ ''|'') @ rc) @ ''|'') @ sl) + 1) (((((((k @ sc) @ ''|'') @ rc) @ ''|'') @ sl) @ ''|'') @ rl) = rl"
  by (simp_all add: substr_def eval_nat_numeral)

lemma matchBandEvent_area:
  fixes a :: liveArea
  assumes "normalizeBand (B m) \<noteq> []" and bars: "CHR ''|'' \<notin> set (SL m)" "CHR ''|'' \<notin> set (RL m)"
  shows "matchBandEvent m qths (Some a) (normalizeBand (B m)) lite kb
    = map_option (hitOf lite kb) (extractMatchedBandEventArea m qths (Some a))"
proof (cases "TrimSpace (SL m) = [] \<or> TrimSpace (RL m) = [] \<or>
    \<not> area_contains a (TrimSpace (SL m)) \<and> \<not> area_contains a (TrimSpace (RL m))")
  case True
  then show ?thesis using assms(1) by (auto simp: matchBandEvent_def extractMatchedBandEventArea_def Let_def)
next
  case False
  note nb = no_bar_upper_trim [OF bars(1)] no_bar_upper_trim [OF bars(2)]
  have remote: "remoteOf ev = r" if "qualityKey ev = u @ CHR ''|'' # sc @ CHR ''|'' # rc @ CHR ''|'' # r" "CHR ''|'' \<notin> set r"
    for ev u sc rc r
    using remoteOf_quality [of r ev "u @ ''|'' @ sc @ ''|'' @ rc"] that by simp
  show ?thesis
    using False assms(1) nb
    unfolding matchBandEvent_def extractMatchedBandEventArea_def Let_def appendUpperTrim_eq TrimSpace_idem
      locatorToLatLngFold_eq linkGeometry_def hitOf_def option.case key_parts
    by (cases "area_contains a (TrimSpace (SL m))"; cases "area_contains a (TrimSpace (RL m))"; cases lite)
      (simp_all add: split_beta remote)
qed

lemma matchBandEvent_callsign:
  "matchBandEvent m qths None b lite kb = map_option (hitOf lite kb) (extractMatchedBandEventArea m qths None)
    \<or> lite"
  by (auto simp: matchBandEvent_def hitOf_def split: option.splits)

end
