(* ===== verification/Search.thy ===== *)
theory Search
  imports Complex_Main
begin

text \<open>
  \<^verbatim>\<open>sort.Search\<close>: binary search for the first index at which a predicate holds. The
  program uses it on the hub's history and on the area index's offsets. On any predicate
  the result is a boundary; on a monotone one it is the first index.
\<close>

function search_loop :: "(nat \<Rightarrow> bool) \<Rightarrow> nat \<Rightarrow> nat \<Rightarrow> nat" where
  "search_loop f i j =
     (if i < j
      then let h = (i + j) div 2
           in if \<not> f h then search_loop f (h + 1) j else search_loop f i h
      else i)"
  by pat_completeness auto
termination
  by (relation "measure (\<lambda>(f, i, j). j - i)") auto

declare search_loop.simps [simp del]

definition sort_Search :: "nat \<Rightarrow> (nat \<Rightarrow> bool) \<Rightarrow> nat" where
  "sort_Search n f = search_loop f 0 n"

lemma search_loop_bounds:
  assumes "i \<le> j"
  shows "i \<le> search_loop f i j \<and> search_loop f i j \<le> j \<and>
    (search_loop f i j < j \<longrightarrow> f (search_loop f i j)) \<and>
    (i < search_loop f i j \<longrightarrow> \<not> f (search_loop f i j - 1))"
  using assms
proof (induction f i j rule: search_loop.induct)
  case (1 f i j)
  show ?case
  proof (cases "i < j")
    case True
    define h where "h = (i + j) div 2"
    have h: "i \<le> h" "h < j" using True by (auto simp: h_def)
    show ?thesis
    proof (cases "f h")
      case fh: True
      have eq: "search_loop f i j = search_loop f i h"
        using True fh by (subst search_loop.simps) (simp add: Let_def h_def)
      note IH = "1.IH"(2) [OF True h_def _ h(1)]
      show ?thesis unfolding eq using IH fh h by (metis le_less_trans le_neq_implies_less less_imp_le)
    next
      case fh: False
      have eq: "search_loop f i j = search_loop f (h + 1) j"
        using True fh by (subst search_loop.simps) (simp add: Let_def h_def)
      have IH: "h + 1 \<le> search_loop f (h + 1) j \<and> search_loop f (h + 1) j \<le> j \<and>
          (search_loop f (h + 1) j < j \<longrightarrow> f (search_loop f (h + 1) j)) \<and>
          (h + 1 < search_loop f (h + 1) j \<longrightarrow> \<not> f (search_loop f (h + 1) j - 1))"
        by (rule "1.IH"(1) [OF True h_def]) (use fh h in simp_all)
      have "\<not> f (search_loop f (h + 1) j - 1)"
      proof (cases "search_loop f (h + 1) j = h + 1")
        case False
        then show ?thesis using IH by simp
      qed (use fh in simp)
      then show ?thesis unfolding eq using IH h by simp
    qed
  next
    case False
    with "1.prems" show ?thesis by (simp add: search_loop.simps)
  qed
qed

lemma sort_Search_boundary:
  "sort_Search n f \<le> n" "sort_Search n f < n \<Longrightarrow> f (sort_Search n f)"
  "0 < sort_Search n f \<Longrightarrow> \<not> f (sort_Search n f - 1)"
  using search_loop_bounds [of 0 n f] by (auto simp: sort_Search_def)

lemma sort_Search_first:
  assumes mono: "\<And>i j. i \<le> j \<Longrightarrow> j < n \<Longrightarrow> f i \<Longrightarrow> f j" and "i < n"
  shows "sort_Search n f \<le> i \<longleftrightarrow> f i"
proof
  assume "sort_Search n f \<le> i"
  then show "f i" using mono sort_Search_boundary(2) [of n f] assms(2) by (meson le_less_trans)
next
  assume "f i"
  show "sort_Search n f \<le> i"
  proof (rule ccontr)
    assume "\<not> sort_Search n f \<le> i"
    then have "f (sort_Search n f - 1)"
      using mono [of i "sort_Search n f - 1"] \<open>f i\<close> sort_Search_boundary(1) [of n f] by simp
    moreover have "0 < sort_Search n f" using \<open>\<not> sort_Search n f \<le> i\<close> by simp
    ultimately show False using sort_Search_boundary(3) by blast
  qed
qed

lemma sort_Search_none: "(\<And>i. i < n \<Longrightarrow> \<not> f i) \<Longrightarrow> sort_Search n f = n"
  using sort_Search_boundary(1,2) [of n f] by (meson le_neq_implies_less)

text \<open>Searching a sorted list for a threshold splits it into the part below and the rest.\<close>

lemma sorted_search_drop:
  fixes key :: "'a \<Rightarrow> 'b::linorder" and c :: 'b
  assumes "sorted (map key xs)"
  defines "r \<equiv> sort_Search (length xs) (\<lambda>i. c \<le> key (xs ! i))"
  shows "drop r xs = filter (\<lambda>x. c \<le> key x) xs" "take r xs = filter (\<lambda>x. key x < c) xs"
proof -
  have mono: "c \<le> key (xs ! j)" if "i \<le> j" "j < length xs" "c \<le> key (xs ! i)" for i j
    using that sorted_nth_mono [OF assms(1), of i j] by simp
  have iff: "i < length xs \<Longrightarrow> r \<le> i \<longleftrightarrow> c \<le> key (xs ! i)" for i
    unfolding r_def using mono by (rule sort_Search_first)
  have r: "r \<le> length xs" unfolding r_def by (rule sort_Search_boundary)
  have lo: "key x < c" if x: "x \<in> set (take r xs)" for x
  proof -
    from x obtain i where "i < r" "i < length xs" "x = xs ! i" by (auto simp: in_set_conv_nth)
    then show ?thesis using iff [of i] by simp
  qed
  have hi: "c \<le> key x" if x: "x \<in> set (drop r xs)" for x
  proof -
    from x obtain i where "i < length xs - r" "x = xs ! (r + i)" by (auto simp: in_set_conv_nth)
    then have "r + i < length xs" "x = xs ! (r + i)" by simp_all
    then show ?thesis using iff [of "r + i"] by simp
  qed
  have split: "xs = take r xs @ drop r xs" by simp
  have "filter (\<lambda>x. c \<le> key x) xs = filter (\<lambda>x. c \<le> key x) (take r xs) @ filter (\<lambda>x. c \<le> key x) (drop r xs)"
    by (metis filter_append split)
  also have "\<dots> = drop r xs" using lo hi by (auto simp: filter_empty_conv filter_id_conv not_le)
  finally show "drop r xs = filter (\<lambda>x. c \<le> key x) xs" ..
  have "filter (\<lambda>x. key x < c) xs = filter (\<lambda>x. key x < c) (take r xs) @ filter (\<lambda>x. key x < c) (drop r xs)"
    by (metis filter_append split)
  also have "\<dots> = take r xs" using lo hi by (auto simp: filter_empty_conv filter_id_conv not_less)
  finally show "take r xs = filter (\<lambda>x. key x < c) xs" ..
qed

end
