(* ===== verification/Hub.thy ===== *)
theory Hub
  imports Matching Search
begin

text \<open>
  The hub (\<^verbatim>\<open>hub.go\<close>, \<^verbatim>\<open>pruneLiveHistory\<close> in main.go, the window snapshots of
  dx_conditions.go): an append-only history whose messages keep a sequence number for
  life, and the registered clients with their buffered channels.

  Concurrency. What runs under the hub's lock is one step; \<^verbatim>\<open>broadcastMsg\<close> releases the
  lock before it delivers, so its deliveries are tasks that interleave with every other
  step, in any order. A client's pointer is its index in \<open>hub_clients\<close>: a session is in
  the Go map exactly while it is not \<open>chanClosed\<close> (the handler deletes it and closes its
  channel together). Sequence numbers are \<open>nat\<close>: the code's \<open>uint64\<close> does not wrap within
  2^64 messages. The propagation baseline that \<^verbatim>\<open>broadcastMsg\<close> also feeds is a component of
  its own and not part of the hub's state.
\<close>

section \<open>State\<close>

record Session =
  client :: Client
  send :: "Spot list"
  chanClosed :: bool
  snapSeq :: nat \<comment> \<open>\<open>snap.highSeq\<close> of the handler, taken under the lock that registers it\<close>

record Hub =
  hub_clients :: "Session list"
  hub_history :: "MQTTMessage list"
  baseSeq :: nat

definition newHub :: Hub where
  "newHub = \<lparr>hub_clients = [], hub_history = [], baseSeq = 0\<rparr>"

definition highSeqLocked :: "Hub \<Rightarrow> nat" where
  "highSeqLocked h = baseSeq h + length (hub_history h)"

definition dropFrontLocked :: "Hub \<Rightarrow> int \<Rightarrow> Hub" where
  "dropFrontLocked h n =
     (if n \<le> 0 then h
      else if n \<ge> int (length (hub_history h))
      then h\<lparr>baseSeq := baseSeq h + length (hub_history h), hub_history := []\<rparr>
      else h\<lparr>baseSeq := baseSeq h + nat n, hub_history := drop (nat n) (hub_history h)\<rparr>)"

definition windowFromLocked :: "Hub \<Rightarrow> nat \<Rightarrow> MQTTMessage list" where
  "windowFromLocked h idx = drop idx (hub_history h)"

definition replaceHistoryLocked :: "Hub \<Rightarrow> MQTTMessage list \<Rightarrow> Hub" where
  "replaceHistoryLocked h merged =
     h\<lparr>baseSeq := baseSeq h + length (hub_history h), hub_history := merged\<rparr>"

definition sendBuffer :: nat where
  \<comment> \<open>\<open>make(chan Spot, 10000)\<close>\<close>
  "sendBuffer = 10000"

definition safeSend :: "Session \<Rightarrow> Spot \<Rightarrow> Session" where
  \<comment> \<open>a closed channel and a full buffer both drop the spot\<close>
  "safeSend s spot =
     (if chanClosed s then s
      else if length (send s) < sendBuffer then s\<lparr>send := send s @ [spot]\<rparr> else s)"

definition registered :: "Hub \<Rightarrow> nat list" where
  "registered h = filter (\<lambda>i. \<not> chanClosed (hub_clients h ! i)) [0..<length (hub_clients h)]"

definition broadcastRecord :: "Hub \<Rightarrow> MQTTMessage \<Rightarrow> Hub \<times> nat \<times> nat list" where
  \<comment> \<open>the locked half of \<open>broadcastMsg\<close>: append, take the number, copy the client set\<close>
  "broadcastRecord h m =
     (let h = h\<lparr>hub_history := hub_history h @ [m]\<rparr>
      in (h, highSeqLocked h, registered h))"

definition deliverTo :: "Hub \<Rightarrow> MQTTMessage \<Rightarrow> nat \<Rightarrow> int \<Rightarrow> nat \<Rightarrow> Hub" where
  \<comment> \<open>one turn of the delivery loop\<close>
  "deliverTo h m seq now i =
     (case matchAndCreateSpot (client (hub_clients h ! i)) m now of
        None \<Rightarrow> h
      | Some spot \<Rightarrow> h\<lparr>hub_clients := (hub_clients h)[i := safeSend (hub_clients h ! i) (spot\<lparr>Seq := int seq\<rparr>)]\<rparr>)"

definition broadcastMsg :: "Hub \<Rightarrow> MQTTMessage \<Rightarrow> int \<Rightarrow> Hub" where
  "broadcastMsg h m now =
     (case broadcastRecord h m of
        (h, seq, clients) \<Rightarrow> foldl (\<lambda>h i. deliverTo h m seq now i) h clients)"

definition defaultLiveHistoryRetentionMinutes :: int where
  "defaultLiveHistoryRetentionMinutes = 60"

definition cutoffIndex :: "Hub \<Rightarrow> int \<Rightarrow> nat" where
  \<comment> \<open>the \<open>sort.Search\<close> for \<open>T >= cutoff\<close> that every reader of the history makes\<close>
  "cutoffIndex h cutoff = sort_Search (length (hub_history h)) (\<lambda>i. cutoff \<le> T (hub_history h ! i))"

definition pruneLiveHistory :: "Hub \<Rightarrow> int \<Rightarrow> int \<Rightarrow> Hub" where
  "pruneLiveHistory h now retentionMinutes =
     (let retentionMinutes = (if retentionMinutes \<le> 0 then defaultLiveHistoryRetentionMinutes else retentionMinutes);
          cutoff = now - retentionMinutes * 60;
          keepIdx = cutoffIndex h cutoff
      in if keepIdx = length (hub_history h)
         then (if length (hub_history h) > 0 then dropFrontLocked h (int (length (hub_history h))) else h)
         else if keepIdx > 0 then dropFrontLocked h (int keepIdx)
         else h)"

record historyWindow =
  msgs :: "MQTTMessage list"
  firstSeq :: nat
  hubFirst :: nat

definition snapshotHubHistoryWindow :: "Hub \<Rightarrow> int \<Rightarrow> int \<Rightarrow> MQTTMessage list" where
  "snapshotHubHistoryWindow h now minutes = windowFromLocked h (cutoffIndex h (now - minutes * 60))"

definition snapshotHubHistoryWindowSeq :: "Hub \<Rightarrow> int \<Rightarrow> int \<Rightarrow> historyWindow" where
  "snapshotHubHistoryWindowSeq h now minutes =
     (let idx = cutoffIndex h (now - minutes * 60)
      in \<lparr>msgs = windowFromLocked h idx, firstSeq = baseSeq h + idx + 1, hubFirst = baseSeq h + 1\<rparr>)"

definition registerClient :: "Hub \<Rightarrow> Client \<Rightarrow> Hub" where
  "registerClient h c =
     h\<lparr>hub_clients := hub_clients h @ [\<lparr>client = c, send = [], chanClosed = False, snapSeq = highSeqLocked h\<rparr>]\<rparr>"

definition unregisterClient :: "Hub \<Rightarrow> nat \<Rightarrow> Hub" where
  "unregisterClient h i = h\<lparr>hub_clients := (hub_clients h)[i := (hub_clients h ! i)\<lparr>chanClosed := True\<rparr>]\<rparr>"

definition receiveSpot :: "Hub \<Rightarrow> nat \<Rightarrow> Hub" where
  \<comment> \<open>the handler's \<open><-client.send\<close>\<close>
  "receiveSpot h i = h\<lparr>hub_clients := (hub_clients h)[i := (hub_clients h ! i)\<lparr>send := tl (send (hub_clients h ! i))\<rparr>]\<rparr>"

section \<open>Sequence numbers\<close>

definition message_at :: "Hub \<Rightarrow> nat \<Rightarrow> MQTTMessage option" where
  \<comment> \<open>the message a sequence number names, while the history holds it\<close>
  "message_at h s =
     (if baseSeq h < s \<and> s \<le> highSeqLocked h then Some (hub_history h ! (s - baseSeq h - 1)) else None)"

lemma dropFront_seq:
  "highSeqLocked (dropFrontLocked h n) = highSeqLocked h"
  "message_at (dropFrontLocked h n) s =
     (if baseSeq h + nat (min n (int (length (hub_history h)))) < s then message_at h s else None)"
  by (auto simp: dropFrontLocked_def highSeqLocked_def message_at_def min_def nat_diff_distrib intro!: arg_cong [of _ _ "(!) _"])

lemma replace_seq:
  "highSeqLocked (replaceHistoryLocked h ms) = highSeqLocked h + length ms"
  "message_at (replaceHistoryLocked h ms) s = Some m \<Longrightarrow> highSeqLocked h < s"
  by (auto simp: replaceHistoryLocked_def highSeqLocked_def message_at_def split: if_splits)

lemma record_seq:
  assumes "broadcastRecord h m = (h', seq, ids)"
  shows "seq = Suc (highSeqLocked h)" "highSeqLocked h' = Suc (highSeqLocked h)" "hub_clients h' = hub_clients h"
    "ids = registered h"
    "message_at h' s = (if s = Suc (highSeqLocked h) then Some m else message_at h s)"
  using assms
  by (auto simp: broadcastRecord_def highSeqLocked_def message_at_def registered_def Let_def nth_append)

lemma deliver_hub [simp]:
  "hub_history (deliverTo h m seq now i) = hub_history h" "baseSeq (deliverTo h m seq now i) = baseSeq h"
  "length (hub_clients (deliverTo h m seq now i)) = length (hub_clients h)"
  by (simp_all add: deliverTo_def split: option.splits)

lemma same_history:
  assumes "hub_history h' = hub_history h" "baseSeq h' = baseSeq h"
  shows "highSeqLocked h' = highSeqLocked h" "message_at h' s = message_at h s"
  using assms by (simp_all add: highSeqLocked_def message_at_def)

lemma clients_hub [simp]:
  "hub_history (registerClient h c) = hub_history h" "baseSeq (registerClient h c) = baseSeq h"
  "hub_history (unregisterClient h i) = hub_history h" "baseSeq (unregisterClient h i) = baseSeq h"
  "hub_history (receiveSpot h i) = hub_history h" "baseSeq (receiveSpot h i) = baseSeq h"
  by (simp_all add: registerClient_def unregisterClient_def receiveSpot_def)

lemma clients_seq [simp]:
  "highSeqLocked (registerClient h c) = highSeqLocked h" "message_at (registerClient h c) k = message_at h k"
  "highSeqLocked (unregisterClient h i) = highSeqLocked h" "message_at (unregisterClient h i) k = message_at h k"
  "highSeqLocked (receiveSpot h i) = highSeqLocked h" "message_at (receiveSpot h i) k = message_at h k"
  "highSeqLocked (deliverTo h m seq now i) = highSeqLocked h" "message_at (deliverTo h m seq now i) k = message_at h k"
  by (rule same_history; simp)+

lemma prune_dropFront:
  "\<exists>n. pruneLiveHistory h now r = dropFrontLocked h n"
proof -
  have "h = dropFrontLocked h 0" by (simp add: dropFrontLocked_def)
  then show ?thesis unfolding pruneLiveHistory_def Let_def by metis
qed

lemma prune_high: "highSeqLocked (pruneLiveHistory h now r) = highSeqLocked h"
  using prune_dropFront [of h now r] dropFront_seq(1) by metis

lemma prune_message: "message_at (pruneLiveHistory h now r) s = Some m \<Longrightarrow> message_at h s = Some m"
  using prune_dropFront [of h now r] by (auto simp: dropFront_seq split: if_splits)

lemma prune_history:
  assumes "sorted (map T (hub_history h))" and r: "0 < r"
  shows "hub_history (pruneLiveHistory h now r) = filter (\<lambda>m. now - r * 60 \<le> T m) (hub_history h)"
proof -
  let ?k = "cutoffIndex h (now - r * 60)"
  have k: "?k \<le> length (hub_history h)"
    by (simp add: cutoffIndex_def sort_Search_boundary)
  have "drop ?k (hub_history h) = filter (\<lambda>m. now - r * 60 \<le> T m) (hub_history h)"
    using assms(1) unfolding cutoffIndex_def by (rule sorted_search_drop)
  moreover have "hub_history (pruneLiveHistory h now r) = drop ?k (hub_history h)"
    using k r by (auto simp: pruneLiveHistory_def Let_def dropFrontLocked_def)
  ultimately show ?thesis by simp
qed

text \<open>
  The history is in the order of ingestion, not of time: \<open>disorder D\<close> bounds how late a
  message may be appended. Every history has such a bound, and the binary search of
  \<open>cutoffIndex\<close> is then right up to it.
\<close>

definition disorder :: "int \<Rightarrow> MQTTMessage list \<Rightarrow> bool" where
  \<comment> \<open>no message is more than \<open>D\<close> seconds older than one appended before it; 0 is sorted by time\<close>
  "disorder D ms \<longleftrightarrow> (\<forall>i j. i \<le> j \<longrightarrow> j < length ms \<longrightarrow> T (ms ! i) \<le> T (ms ! j) + D)"

lemma disorder_sorted: "sorted (map T ms) \<longleftrightarrow> disorder 0 ms"
  by (auto simp: disorder_def sorted_iff_nth_mono)

lemma disorder_some: "\<exists>D. disorder D ms"
proof (intro exI)
  show "disorder (Max (insert 0 ((\<lambda>(a, b). T a - T b) ` (set ms \<times> set ms)))) ms"
    unfolding disorder_def
  proof (intro allI impI)
    fix i j assume "i \<le> j" "j < length ms"
    then have "T (ms ! i) - T (ms ! j) \<le> Max (insert 0 ((\<lambda>(a, b). T a - T b) ` (set ms \<times> set ms)))"
      by (intro Max_ge) (auto intro!: image_eqI [of _ _ "(ms ! i, ms ! j)"])
    then show "T (ms ! i) \<le> T (ms ! j) + Max (insert 0 ((\<lambda>(a, b). T a - T b) ` (set ms \<times> set ms)))" by simp
  qed
qed

lemma cutoff_disorder:
  assumes "disorder D (hub_history h)" "i < length (hub_history h)"
  shows "c + D \<le> T (hub_history h ! i) \<Longrightarrow> cutoffIndex h c \<le> i" "cutoffIndex h c \<le> i \<Longrightarrow> c \<le> T (hub_history h ! i) + D"
proof -
  let ?f = "\<lambda>i. c \<le> T (hub_history h ! i)" and ?k = "cutoffIndex h c"
  show "?k \<le> i" if "c + D \<le> T (hub_history h ! i)"
  proof (rule ccontr)
    assume "\<not> ?k \<le> i"
    then have "\<not> ?f (?k - 1)" "i \<le> ?k - 1" "?k - 1 < length (hub_history h)"
      using sort_Search_boundary(1,3) [of "length (hub_history h)" ?f] by (auto simp: cutoffIndex_def)
    then have "T (hub_history h ! i) \<le> T (hub_history h ! (?k - 1)) + D" using assms(1) unfolding disorder_def by blast
    then show False using that \<open>\<not> ?f (?k - 1)\<close> by simp
  qed
  show "c \<le> T (hub_history h ! i) + D" if "?k \<le> i"
  proof -
    have "?f ?k" using sort_Search_boundary(2) [of "length (hub_history h)" ?f] that assms(2) by (simp add: cutoffIndex_def)
    moreover have "T (hub_history h ! ?k) \<le> T (hub_history h ! i) + D" using assms that unfolding disorder_def by blast
    ultimately show ?thesis by simp
  qed
qed

lemma prune_keeps:
  assumes "0 < r"
  shows "hub_history (pruneLiveHistory h now r) = drop (cutoffIndex h (now - r * 60)) (hub_history h)"
proof -
  have "cutoffIndex h (now - r * 60) \<le> length (hub_history h)" by (simp add: cutoffIndex_def sort_Search_boundary)
  then show ?thesis using assms by (auto simp: pruneLiveHistory_def Let_def dropFrontLocked_def)
qed

lemma prune_names:
  assumes "disorder D (hub_history h)" "0 < r" "message_at h s = Some m"
  shows "now - r * 60 + D \<le> T m \<Longrightarrow> message_at (pruneLiveHistory h now r) s = Some m"
    "message_at (pruneLiveHistory h now r) s = Some m \<Longrightarrow> now - r * 60 \<le> T m + D"
proof -
  let ?k = "cutoffIndex h (now - r * 60)"
  have s: "baseSeq h < s" "s \<le> highSeqLocked h" "m = hub_history h ! (s - baseSeq h - 1)"
    using assms(3) by (auto simp: message_at_def split: if_splits)
  then have i: "s - baseSeq h - 1 < length (hub_history h)" by (auto simp: highSeqLocked_def)
  have k: "?k \<le> length (hub_history h)" by (simp add: cutoffIndex_def sort_Search_boundary)
  have b: "baseSeq (pruneLiveHistory h now r) = baseSeq h + ?k"
    using k assms(2) by (auto simp: pruneLiveHistory_def Let_def dropFrontLocked_def)
  note cut = cutoff_disorder [OF assms(1) i, of "now - r * 60"]
  have hs: "highSeqLocked (pruneLiveHistory h now r) = highSeqLocked h" by (rule prune_high)
  show "message_at (pruneLiveHistory h now r) s = Some m" if "now - r * 60 + D \<le> T m"
  proof -
    have "?k \<le> s - baseSeq h - 1" using cut(1) that s(3) by simp
    then show ?thesis using s i hs b prune_keeps [OF assms(2), of h now] by (auto simp: message_at_def)
  qed
  show "now - r * 60 \<le> T m + D" if "message_at (pruneLiveHistory h now r) s = Some m"
  proof -
    have "baseSeq h + ?k < s" using that b by (auto simp: message_at_def split: if_splits)
    then show ?thesis using cut(2) s(3) by simp
  qed
qed

section \<open>Runs\<close>

text \<open>
  A state of a run is the hub with the deliveries under way: message, sequence number,
  client.
\<close>

type_synonym task = "MQTTMessage \<times> nat \<times> nat"

inductive hub_step :: "Hub \<times> task list \<Rightarrow> Hub \<times> task list \<Rightarrow> bool" where
  step_record: "broadcastRecord h m = (h', seq, ids) \<Longrightarrow>
     hub_step (h, ts) (h', ts @ map (\<lambda>i. (m, seq, i)) ids)"
| step_deliver: "hub_step (h, us @ (m, seq, i) # ts) (deliverTo h m seq now i, us @ ts)"
| step_prune: "hub_step (h, ts) (pruneLiveHistory h now r, ts)"
| step_replace: "hub_step (h, ts) (replaceHistoryLocked h ms, ts)"
| step_register: "hub_step (h, ts) (registerClient h c, ts)"
| step_unregister: "i < length (hub_clients h) \<Longrightarrow> hub_step (h, ts) (unregisterClient h i, ts)"
| step_receive: "i < length (hub_clients h) \<Longrightarrow> send (hub_clients h ! i) \<noteq> [] \<Longrightarrow>
     hub_step (h, ts) (receiveSpot h i, ts)"

inductive_cases hub_stepE: "hub_step (h, ts) (h', ts')"

abbreviation hub_run :: "Hub \<times> task list \<Rightarrow> Hub \<times> task list \<Rightarrow> bool" where
  "hub_run \<equiv> hub_step\<^sup>*\<^sup>*"

lemma step_high: "hub_step s s' \<Longrightarrow> highSeqLocked (fst s) \<le> highSeqLocked (fst s')"
proof (induction rule: hub_step.induct)
  case (step_record h m h' seq ids ts)
  then show ?case by (simp add: record_seq(2))
qed (simp_all add: prune_high replace_seq)

lemma step_message:
  assumes "hub_step s s'" "message_at (fst s') k = Some m"
  shows "message_at (fst s) k = Some m \<or> highSeqLocked (fst s) < k"
  using assms
proof (induction rule: hub_step.induct)
  case (step_record h m h' seq ids ts)
  then show ?case using record_seq(5) [OF step_record(1), of k] by (auto split: if_splits)
next
  case (step_prune h ts now r)
  then show ?case by (auto dest: prune_message)
next
  case (step_replace h ts ms)
  then show ?case by (auto dest: replace_seq(2))
qed simp_all

lemma run_high: "hub_run s s' \<Longrightarrow> highSeqLocked (fst s) \<le> highSeqLocked (fst s')"
  by (induction rule: rtranclp_induct) (auto dest: step_high)

lemma run_message:
  assumes "hub_run s s'" "message_at (fst s') k = Some m"
  shows "message_at (fst s) k = Some m \<or> highSeqLocked (fst s) < k"
  using assms
proof (induction rule: rtranclp_induct)
  case (step s1 s2)
  then show ?case using step_message [OF step.hyps(2) step.prems] run_high [OF step.hyps(1)] by fastforce
qed simp

lemma message_at_high: "message_at h s = Some m \<Longrightarrow> s \<le> highSeqLocked h"
  by (simp add: message_at_def split: if_splits)

lemma run_stable:
  assumes "hub_run s s'" "message_at (fst s) k = Some m" "message_at (fst s') k = Some m'"
  shows "m = m'"
  using run_message [OF assms(1,3)] message_at_high [OF assms(2)] assms(2) by auto

section \<open>The delivery invariant\<close>

text \<open>
  Of every session: its buffer is within the channel's capacity; the numbers in the buffer
  and those still to be delivered to it are distinct, later than the history snapshot it
  was registered with, and name the message they came from while the hub retains it.
\<close>

definition due :: "task list \<Rightarrow> nat \<Rightarrow> (int \<times> int) list" where
  \<comment> \<open>sequence number and time of the deliveries under way to client \<open>i\<close>\<close>
  "due ts i = map (\<lambda>(m, seq, _). (int seq, T m)) (filter (\<lambda>(_, _, j). j = i) ts)"

definition queued :: "Session \<Rightarrow> (int \<times> int) list" where
  "queued s = map (\<lambda>sp. (Seq sp, spotT sp)) (send s)"

definition named :: "Hub \<Rightarrow> nat \<Rightarrow> int \<times> int \<Rightarrow> bool" where
  "named h low p \<longleftrightarrow> int low < fst p \<and> fst p \<le> int (highSeqLocked h) \<and>
     (\<forall>m. message_at h (nat (fst p)) = Some m \<longrightarrow> snd p = T m)"

definition session_ok :: "Hub \<Rightarrow> Session \<Rightarrow> (int \<times> int) list \<Rightarrow> bool" where
  "session_ok h s d \<longleftrightarrow> length (send s) \<le> sendBuffer \<and> snapSeq s \<le> highSeqLocked h \<and>
     distinct (map fst (queued s @ d)) \<and> (\<forall>p\<in>set (queued s @ d). named h (snapSeq s) p)"

definition hub_ok :: "Hub \<times> task list \<Rightarrow> bool" where
  "hub_ok st \<longleftrightarrow> (\<forall>(m, seq, i)\<in>set (snd st). i < length (hub_clients (fst st))) \<and>
     (\<forall>i < length (hub_clients (fst st)). session_ok (fst st) (hub_clients (fst st) ! i) (due (snd st) i))"

lemma named_frame:
  assumes "named h l p" "highSeqLocked h \<le> highSeqLocked h'"
    "\<And>k m. message_at h' k = Some m \<Longrightarrow> message_at h k = Some m \<or> highSeqLocked h < k"
  shows "named h' l p"
  using assms(1,2) assms(3) [of "nat (fst p)"] unfolding named_def by fastforce

lemma session_ok_frame:
  assumes "session_ok h s d" "highSeqLocked h \<le> highSeqLocked h'"
    "\<And>k m. message_at h' k = Some m \<Longrightarrow> message_at h k = Some m \<or> highSeqLocked h < k"
  shows "session_ok h' s d"
  using assms named_frame [OF _ assms(2,3)] unfolding session_ok_def by (meson order_trans)

lemma due_append [simp]: "due (us @ ts) i = due us i @ due ts i"
  by (simp add: due_def)

lemma due_Cons [simp]: "due ((m, seq, j) # ts) i = (if j = i then [(int seq, T m)] else []) @ due ts i"
  by (simp add: due_def)

lemma due_Nil [simp]: "due [] i = []"
  by (simp add: due_def)

lemma due_fanout:
  assumes "distinct ids"
  shows "due (map (\<lambda>i. (m, seq, i)) ids) i = (if i \<in> set ids then [(int seq, T m)] else [])"
  using assms by (induction ids) auto

lemma due_none: "\<forall>(m, seq, j)\<in>set ts. j \<noteq> i \<Longrightarrow> due ts i = []"
  by (auto simp: due_def filter_empty_conv)

lemma hub_okD:
  assumes "hub_ok (h, ts)"
  shows "(m, seq, i) \<in> set ts \<Longrightarrow> i < length (hub_clients h)"
    "i < length (hub_clients h) \<Longrightarrow> session_ok h (hub_clients h ! i) (due ts i)"
  using assms by (auto simp: hub_ok_def)

lemma session_ok_subset:
  assumes "session_ok h s d" "send s' = us" "snapSeq s' = snapSeq s" "length us \<le> length (send s)"
    "set (queued s' @ d') \<subseteq> set (queued s @ d)" "distinct (map fst (queued s' @ d'))"
  shows "session_ok h s' d'"
  using assms unfolding session_ok_def by (metis le_trans subsetD)

lemma hub_ok_deliver:
  assumes "hub_ok (h, us @ (m, seq, i) # ts)"
  shows "hub_ok (deliverTo h m seq now i, us @ ts)"
proof -
  have i: "i < length (hub_clients h)" using hub_okD(1) [OF assms, of m seq i] by simp
  let ?s = "hub_clients h ! i" and ?h = "deliverTo h m seq now i" and ?d = "due us i @ due ts i"
  have old: "session_ok h ?s (due us i @ [(int seq, T m)] @ due ts i)"
    using hub_okD(2) [OF assms i] by simp
  have same: "hub_clients ?h ! j = hub_clients h ! j" if "j \<noteq> i" for j
    using that by (simp add: deliverTo_def split: option.splits)
  have "session_ok h (hub_clients ?h ! i) ?d"
  proof (cases "hub_clients ?h ! i = ?s")
    case True
    then show ?thesis using old by (auto simp: session_ok_def)
  next
    case False
    then obtain x where x: "matchAndCreateSpot (client ?s) m now = Some x"
        "hub_clients ?h ! i = safeSend ?s (x\<lparr>Seq := int seq\<rparr>)"
      using i by (auto simp: deliverTo_def split: option.splits)
    define sp where "sp = x\<lparr>Seq := int seq\<rparr>"
    have "safeSend ?s sp \<noteq> ?s" using False x(2) by (simp add: sp_def)
    then have "length (send ?s) < sendBuffer \<and> safeSend ?s sp = ?s\<lparr>send := send ?s @ [sp]\<rparr>"
      unfolding safeSend_def by (metis (full_types))
    then have sp: "spotT sp = T m" "Seq sp = int seq" "length (send ?s) < sendBuffer"
        "hub_clients ?h ! i = ?s\<lparr>send := send ?s @ [sp]\<rparr>"
      using matchAndCreateSpot_locator [OF x(1)] x(2) by (simp_all add: sp_def)
    then have "queued (hub_clients ?h ! i) = queued ?s @ [(int seq, T m)]" by (simp add: queued_def)
    then show ?thesis using old sp(3,4) by (auto simp: session_ok_def)
  qed
  then have "session_ok ?h (hub_clients ?h ! i) ?d" by (rule session_ok_frame) simp_all
  moreover have "session_ok ?h (hub_clients ?h ! j) (due us j @ due ts j)" if "j < length (hub_clients h)" "j \<noteq> i" for j
    using session_ok_frame [OF hub_okD(2) [OF assms that(1)], of ?h] same that by simp
  ultimately show ?thesis
    using hub_okD(1) [OF assms] unfolding hub_ok_def by (auto simp: less_Suc_eq)
qed

lemma hub_ok_record:
  assumes ok: "hub_ok (h, ts)" and r: "broadcastRecord h m = (h', seq, ids)"
  shows "hub_ok (h', ts @ map (\<lambda>i. (m, seq, i)) ids)"
proof -
  note rs = record_seq [OF r]
  have ids: "distinct ids" "\<forall>i\<in>set ids. i < length (hub_clients h)" unfolding rs(4) by (auto simp: registered_def)
  have "session_ok h' (hub_clients h ! i) (due ts i @ due (map (\<lambda>i. (m, seq, i)) ids) i)"
    if i: "i < length (hub_clients h)" for i
  proof -
    have a: "session_ok h (hub_clients h ! i) (due ts i)" using ok i by (rule hub_okD)
    then have b: "session_ok h' (hub_clients h ! i) (due ts i)"
      by (rule session_ok_frame) (use rs in \<open>auto split: if_splits\<close>)
    have "fst p \<noteq> int seq" if p: "p \<in> set (queued (hub_clients h ! i) @ due ts i)" for p
    proof -
      have "fst p \<le> int (highSeqLocked h)" using a p unfolding session_ok_def named_def by blast
      then show ?thesis using rs(1) by simp
    qed
    then have "int seq \<notin> fst ` set (queued (hub_clients h ! i) @ due ts i)" by (metis imageE)
    moreover have "named h' (snapSeq (hub_clients h ! i)) (int seq, T m)"
    proof -
      have "snapSeq (hub_clients h ! i) \<le> highSeqLocked h" using a by (simp only: session_ok_def)
      then have "snapSeq (hub_clients h ! i) < seq" "seq \<le> highSeqLocked h'" by (simp_all only: rs(1,2))
      moreover have "message_at h' seq = Some m" using rs(5) [of seq] rs(1) by (metis (full_types))
      ultimately show ?thesis by (simp add: named_def)
    qed
    ultimately show ?thesis
      using b unfolding due_fanout [OF ids(1)] session_ok_def by (auto simp: image_Un)
  qed
  then show ?thesis using ids hub_okD(1) [OF ok] by (auto simp: hub_ok_def rs(3))
qed

lemma hub_ok_frame:
  assumes ok: "hub_ok (h, ts)" and "hub_clients h' = hub_clients h" "highSeqLocked h \<le> highSeqLocked h'"
    "\<And>k m. message_at h' k = Some m \<Longrightarrow> message_at h k = Some m \<or> highSeqLocked h < k"
  shows "hub_ok (h', ts)"
  using hub_okD [OF ok] session_ok_frame [OF _ assms(3,4)] assms(2) by (auto simp: hub_ok_def)

lemma hub_ok_update:
  assumes ok: "hub_ok (h, ts)" and i: "i < length (hub_clients h)"
    and h': "hub_clients h' = (hub_clients h)[i := s']" "hub_history h' = hub_history h" "baseSeq h' = baseSeq h"
    and s': "session_ok h s' (due ts i)"
  shows "hub_ok (h', ts)"
proof -
  have "session_ok h' s d" if "session_ok h s d" for s d
    using that by (rule session_ok_frame) (simp_all add: same_history [OF h'(2,3)])
  then have "session_ok h' (hub_clients h' ! j) (due ts j)" if "j < length (hub_clients h)" for j
    using hub_okD(2) [OF ok that] s' that by (cases "j = i") (simp_all add: h'(1))
  then show ?thesis using hub_okD(1) [OF ok] by (auto simp: hub_ok_def h'(1))
qed

lemma hub_ok_step: "hub_step st st' \<Longrightarrow> hub_ok st \<Longrightarrow> hub_ok st'"
proof (induction rule: hub_step.induct)
  case (step_prune h ts now r)
  have "hub_clients (pruneLiveHistory h now r) = hub_clients h"
    using prune_dropFront [of h now r] by (auto simp: dropFrontLocked_def)
  with step_prune show ?case by (rule hub_ok_frame) (auto simp: prune_high dest: prune_message)
next
  case (step_replace h ts ms)
  show ?case
  proof (rule hub_ok_frame [OF step_replace])
    show "hub_clients (replaceHistoryLocked h ms) = hub_clients h" by (simp add: replaceHistoryLocked_def)
  qed (auto simp: replace_seq(1) dest: replace_seq(2))
next
  case (step_register h ts c)
  let ?n = "length (hub_clients h)"
  have "due ts ?n = []" using hub_okD(1) [OF step_register] by (intro due_none) auto
  then have new: "session_ok (registerClient h c) (hub_clients (registerClient h c) ! ?n) (due ts ?n)"
    by (simp add: session_ok_def queued_def) (simp add: registerClient_def)
  have "session_ok (registerClient h c) (hub_clients h ! i) (due ts i)" if "i < ?n" for i
    using hub_okD(2) [OF step_register that] by (rule session_ok_frame) simp_all
  then show ?case
    using new hub_okD(1) [OF step_register] by (auto simp: hub_ok_def registerClient_def nth_append less_Suc_eq)
next
  case (step_unregister i h ts)
  show ?case
    by (rule hub_ok_update [OF step_unregister(2,1)], simp add: unregisterClient_def)
      (use hub_okD(2) [OF step_unregister(2,1)] in \<open>simp_all add: session_ok_def queued_def\<close>)
next
  case (step_receive i h ts)
  obtain sp rest where sp: "send (hub_clients h ! i) = sp # rest" using step_receive(2) by (cases "send (hub_clients h ! i)") auto
  show ?case
    by (rule hub_ok_update [OF step_receive(3,1)], simp add: receiveSpot_def)
      (use hub_okD(2) [OF step_receive(3,1)] sp in \<open>simp_all add: session_ok_def queued_def\<close>)
qed (auto intro: hub_ok_deliver hub_ok_record)

lemma hub_ok_run: "hub_run (newHub, []) st \<Longrightarrow> hub_ok st"
  by (induction rule: rtranclp_induct) (auto simp: hub_ok_def newHub_def dest: hub_ok_step [unfolded hub_ok_def])

lemma step_snapSeq:
  assumes "hub_step st st'" "i < length (hub_clients (fst st))"
  shows "i < length (hub_clients (fst st')) \<and> snapSeq (hub_clients (fst st') ! i) = snapSeq (hub_clients (fst st) ! i)"
  using assms
proof (induction rule: hub_step.induct)
  case (step_record h m h' seq ids ts)
  then show ?case by (simp add: record_seq(3))
next
  case (step_deliver h us m seq j ts now)
  then show ?case
    by (cases "j = i") (auto simp: deliverTo_def safeSend_def split: option.splits)
next
  case (step_prune h ts now r)
  have "hub_clients (pruneLiveHistory h now r) = hub_clients h"
    using prune_dropFront [of h now r] by (auto simp: dropFrontLocked_def)
  with step_prune show ?case by simp
next
  case (step_unregister j h ts)
  then show ?case by (cases "j = i") (simp_all add: unregisterClient_def)
next
  case (step_receive j h ts)
  then show ?case by (cases "j = i") (simp_all add: receiveSpot_def)
qed (simp_all add: replaceHistoryLocked_def registerClient_def nth_append)

lemma run_snapSeq:
  "hub_run st st' \<Longrightarrow> i < length (hub_clients (fst st)) \<Longrightarrow>
     i < length (hub_clients (fst st')) \<and> snapSeq (hub_clients (fst st') ! i) = snapSeq (hub_clients (fst st) ! i)"
  by (induction rule: rtranclp_induct) (auto dest: step_snapSeq)

lemma queue_after_snapshot:
  assumes "hub_run (newHub, []) (h, ts)" "i < length (hub_clients h)" "sp \<in> set (send (hub_clients h ! i))"
  shows "int (snapSeq (hub_clients h ! i)) < Seq sp" "Seq sp \<le> int (highSeqLocked h)"
    "message_at h (nat (Seq sp)) = Some m \<Longrightarrow> spotT sp = T m"
proof -
  have "session_ok h (hub_clients h ! i) (due ts i)"
    using hub_ok_run [OF assms(1)] assms(2) by (simp add: hub_ok_def)
  then have "named h (snapSeq (hub_clients h ! i)) (Seq sp, spotT sp)"
    using assms(3) by (fastforce simp: session_ok_def queued_def)
  then show "int (snapSeq (hub_clients h ! i)) < Seq sp" "Seq sp \<le> int (highSeqLocked h)"
    "message_at h (nat (Seq sp)) = Some m \<Longrightarrow> spotT sp = T m"
    by (simp_all add: named_def)
qed

lemma queue_distinct:
  assumes "hub_run (newHub, []) (h, ts)" "i < length (hub_clients h)"
  shows "distinct (map Seq (send (hub_clients h ! i)))" "length (send (hub_clients h ! i)) \<le> sendBuffer"
proof -
  have "session_ok h (hub_clients h ! i) (due ts i)"
    using hub_ok_run [OF assms(1)] assms(2) by (simp add: hub_ok_def)
  then show "distinct (map Seq (send (hub_clients h ! i)))" "length (send (hub_clients h ! i)) \<le> sendBuffer"
    by (simp_all add: session_ok_def queued_def o_def)
qed

end
