(* ===== verification/Stream.thy ===== *)
theory Stream
  imports Hub
begin

text \<open>
  The live stream: the request filters of \<^verbatim>\<open>server.go\<close>, the wire format of
  \<^verbatim>\<open>stream_wire.go\<close> and the handler of \<^verbatim>\<open>stream.go\<close> (resume decision, history part, batching
  loop). A query is the function \<open>url.Values.Get\<close>: parameter name to value, empty when
  absent. \<^verbatim>\<open>json.Marshal\<close> of a string outside printable ASCII, the clock and the hub's epoch
  are parameters. Flushing, gzip and byte accounting are left out.
\<close>

section \<open>Filters\<close>

type_synonym query = "string \<Rightarrow> string"

definition EqualFold :: "string \<Rightarrow> string \<Rightarrow> bool" where
  "EqualFold a b \<longleftrightarrow> ToLower a = ToLower b"

definition resolveQTHQuery :: "query \<Rightarrow> string \<times> bool" where
  "resolveQTHQuery q =
     (let qth = ToUpper (TrimSpace (q ''qth''));
          surroundings = (q ''surroundings'' = ''true'');
          callsign = ToUpper (TrimSpace (q ''callsign''));
          loc = ToUpper (TrimSpace (q ''locator''))
      in (if qth = [] then (if callsign \<noteq> [] then callsign else if loc \<noteq> [] then loc else qth) else qth,
          surroundings))"

definition parseIntDefault :: "string \<Rightarrow> int \<Rightarrow> int" where
  "parseIntDefault raw fallback = (case Atoi (TrimSpace raw) of Some v \<Rightarrow> v | None \<Rightarrow> fallback)"

definition parseEnabledBands :: "string \<Rightarrow> string set" where
  "parseEnabledBands raw =
     foldl (\<lambda>s part. let band = ToLower (TrimSpace part) in if band = [] then s else insert band s)
       {} (Split raw (CHR '',''))"

definition bandAllowed :: "string \<Rightarrow> string \<Rightarrow> string set \<Rightarrow> bool" where
  "bandAllowed band selectedBand enabledBands =
     (if selectedBand \<noteq> [] \<and> selectedBand \<noteq> ''all'' \<and> band \<noteq> selectedBand then False
      else if enabledBands = {} then True
      else ToLower (TrimSpace band) \<in> enabledBands)"

definition parseIncludeFlag :: "query \<Rightarrow> string \<Rightarrow> bool" where
  "parseIncludeFlag q name =
     (let raw = TrimSpace (q name)
      in if raw = [] then True else EqualFold raw ''true'' \<or> raw = ''1'')"

record streamClientFilter =
  enabledBands :: "string set"
  minSnrMode :: string
  ssbMinDb :: int
  cwMinDb :: int
  excludeDx :: bool
  excludeRBN :: bool
  excludeWSPR :: bool

definition streamFilterFromQuery :: "query \<Rightarrow> string \<Rightarrow> bool \<Rightarrow> streamClientFilter" where
  "streamFilterFromQuery q prefix withSources =
     \<lparr>enabledBands = parseEnabledBands (q (prefix @ ''enabled_bands'')),
      minSnrMode = ToLower (TrimSpace (q (prefix @ ''min_snr_mode''))),
      ssbMinDb = parseIntDefault (q (prefix @ ''ssb_min_db'')) 0,
      cwMinDb = parseIntDefault (q (prefix @ ''cw_min_db'')) (-15),
      excludeDx = (withSources \<and> \<not> parseIncludeFlag q (prefix @ ''include_dxcluster'')),
      excludeRBN = (withSources \<and> \<not> parseIncludeFlag q (prefix @ ''include_rbn'')),
      excludeWSPR = (withSources \<and> \<not> parseIncludeFlag q (prefix @ ''include_wspr''))\<rparr>"

definition spotAllowed :: "streamClientFilter \<Rightarrow> Spot \<Rightarrow> bool" where
  "spotAllowed f s =
     (if SourceType s = ''dxcluster'' \<and> excludeDx f then False
      else if SourceType s = ''rbn'' \<and> excludeRBN f then False
      else if SourceType s = ''wspr'' \<and> excludeWSPR f then False
      else if enabledBands f \<noteq> {} \<and> ToLower (TrimSpace (Band s)) \<notin> enabledBands f then False
      else if SourceType s \<noteq> [] \<and> SourceType s \<noteq> ''mqtt'' \<and> SourceType s \<noteq> ''rbn'' then True
      else if minSnrMode f = ''ssb'' \<and> SNR s < ssbMinDb f then False
      else if minSnrMode f = ''cw'' \<and> SNR s < cwMinDb f then False
      else True)"

record streamSpot =
  ss_lat :: real
  ss_lng :: real
  ss_snr :: int
  ss_age :: int
  ss_locator :: string
  ss_reporterLocator :: string
  ss_sourceType :: string
  ss_band :: string
  ss_sender :: string
  ss_receiver :: string

definition toStreamSpot :: "Spot \<Rightarrow> streamSpot" where
  "toStreamSpot spot =
     (let s = \<lparr>ss_lat = Lat spot, ss_lng = Lng spot, ss_snr = SNR spot, ss_age = AgeSeconds spot,
               ss_locator = Locator spot, ss_reporterLocator = ReporterLocator spot,
               ss_sourceType = SourceType spot, ss_band = Band spot, ss_sender = [], ss_receiver = []\<rparr>
      in if SourceType spot = ''dxcluster''
         then s\<lparr>ss_sender := Sender spot, ss_receiver := Receiver spot\<rparr> else s)"

lemma parseEnabledBands_eq:
  "parseEnabledBands raw = {b. b \<noteq> [] \<and> (\<exists>p\<in>set (Split raw (CHR '','')). b = ToLower (TrimSpace p))}"
proof -
  have "foldl (\<lambda>s part. let band = ToLower (TrimSpace part) in if band = [] then s else insert band s) S ps
      = S \<union> {b. b \<noteq> [] \<and> (\<exists>p\<in>set ps. b = ToLower (TrimSpace p))}" for S ps
    by (induction ps arbitrary: S) (auto simp: Let_def)
  then show ?thesis by (simp add: parseEnabledBands_def)
qed

section \<open>The wire format\<close>

definition v2SourceCode :: "string \<Rightarrow> string" where
  "v2SourceCode src =
     (if src = [] \<or> src = ''mqtt'' then [] else if src = ''dxcluster'' then ''d''
      else if src = ''rbn'' then ''r'' else if src = ''wspr'' then ''w'' else src)"

definition plainChar :: "char \<Rightarrow> bool" where
  "plainChar c \<longleftrightarrow> \<not> (byte c < 0x20 \<or> byte c > 0x7e \<or> c = CHR 0x22 \<or> c = CHR 0x5C)"

definition appendV2String :: "(string \<Rightarrow> string) \<Rightarrow> string \<Rightarrow> string \<Rightarrow> string" where
  "appendV2String marshal buf s =
     (if list_all plainChar s then ((buf @ [CHR 0x22]) @ s) @ [CHR 0x22] else buf @ marshal s)"

definition v2Extra :: "string \<Rightarrow> string \<Rightarrow> string \<Rightarrow> string \<Rightarrow> nat" where
  \<comment> \<open>the switch that counts the optional elements\<close>
  "v2Extra rep src sndr rcv =
     (if rcv \<noteq> [] then 4 else if sndr \<noteq> [] then 3 else if src \<noteq> [] then 2 else if rep \<noteq> [] then 1 else 0)"

definition appendV2Spot :: "(string \<Rightarrow> string) \<Rightarrow> string \<Rightarrow> Spot \<Rightarrow> int \<Rightarrow> string" where
  "appendV2Spot marshal buf s n =
     (let rep = ReporterLocator s; src = v2SourceCode (SourceType s);
          sndr = (if SourceType s = ''dxcluster'' then Sender s else []);
          rcv = (if SourceType s = ''dxcluster'' then Receiver s else []);
          extra = v2Extra rep src sndr rcv;
          buf = buf @ ''['';
          buf = appendV2String marshal buf (Locator s);
          buf = appendV2String marshal (buf @ '','') (Band s);
          buf = (buf @ '','') @ itoa (SNR s);
          buf = (buf @ '','') @ itoa (n - spotT s);
          buf = foldl (\<lambda>b v. appendV2String marshal (b @ '','') v) buf (take extra [rep, src, sndr, rcv])
      in buf @ '']'')"

definition appendV2SpotsFrame :: "(string \<Rightarrow> string) \<Rightarrow> string \<Rightarrow> Spot list \<Rightarrow> int \<Rightarrow> string \<Rightarrow> string" where
  "appendV2SpotsFrame marshal buf spots n fid =
     (let buf = buf @ ''event: spots'' @ [CHR 0x0A];
          buf = (if fid \<noteq> [] then ((buf @ ''id: '') @ fid) @ [CHR 0x0A] else buf);
          buf = buf @ ''data: {'' @ [CHR 0x22] @ ''n'' @ [CHR 0x22] @ '':'';
          buf = buf @ itoa n;
          buf = buf @ '','' @ [CHR 0x22] @ ''s'' @ [CHR 0x22] @ '':['';
          buf = fst (foldl (\<lambda>(buf, i) s. (appendV2Spot marshal (if i > 0 then buf @ '','' else buf) s n, i + 1))
                  (buf, 0::nat) spots)
      in buf @ '']}'' @ [CHR 0x0A, CHR 0x0A])"

definition trimTrailing :: "string list \<Rightarrow> string list" where
  "trimTrailing xs = rev (dropWhile (\<lambda>x. x = []) (rev xs))"

definition v2Fields :: "Spot \<Rightarrow> string list" where
  \<comment> \<open>the optional elements a decoder pads with empty strings\<close>
  "v2Fields s = [ReporterLocator s, v2SourceCode (SourceType s),
     if SourceType s = ''dxcluster'' then Sender s else [], if SourceType s = ''dxcluster'' then Receiver s else []]"

lemma v2Extra_trim: "take (v2Extra a b c d) [a, b, c, d] = trimTrailing [a, b, c, d]"
  by (simp add: v2Extra_def trimTrailing_def)

fun comma_join :: "string list \<Rightarrow> string" where
  "comma_join [] = []"
| "comma_join [x] = x"
| "comma_join (x # y # zs) = x @ '','' @ comma_join (y # zs)"

definition v2String :: "(string \<Rightarrow> string) \<Rightarrow> string \<Rightarrow> string" where
  "v2String marshal s = (if list_all plainChar s then CHR 0x22 # s @ [CHR 0x22] else marshal s)"

lemma appendV2String_eq: "appendV2String marshal buf s = buf @ v2String marshal s"
  by (simp add: appendV2String_def v2String_def)

lemma comma_join_snoc: "xs \<noteq> [] \<Longrightarrow> comma_join (xs @ [y]) = comma_join xs @ '','' @ y"
  by (induction xs rule: comma_join.induct) auto

lemma foldl_comma:
  "xs \<noteq> [] \<Longrightarrow> foldl (\<lambda>b v. (b @ '','') @ f v) (comma_join xs) vs = comma_join (xs @ map f vs)"
proof (induction vs arbitrary: xs)
  case (Cons a vs)
  have "(comma_join xs @ '','') @ f a = comma_join (xs @ [f a])" using Cons.prems by (simp add: comma_join_snoc)
  then show ?case using Cons.IH [of "xs @ [f a]"] by simp
qed simp

lemma foldl_prefix: "foldl (\<lambda>b v. (b @ '','') @ f v) (p @ q) vs = p @ foldl (\<lambda>b v. (b @ '','') @ f v) q vs"
  by (induction vs arbitrary: q) auto

lemma appendV2Spot_eq:
  "appendV2Spot marshal buf s n = buf @ ''['' @
     comma_join ([v2String marshal (Locator s), v2String marshal (Band s), itoa (SNR s), itoa (n - spotT s)]
       @ map (v2String marshal) (trimTrailing (v2Fields s))) @ '']''"
proof -
  let ?f = "v2String marshal"
  let ?four = "[?f (Locator s), ?f (Band s), itoa (SNR s), itoa (n - spotT s)]"
  have "appendV2Spot marshal buf s n
      = foldl (\<lambda>b v. (b @ '','') @ ?f v) ((buf @ ''['') @ comma_join ?four) (trimTrailing (v2Fields s)) @ '']''"
    unfolding appendV2Spot_def Let_def appendV2String_eq v2Extra_trim v2Fields_def by simp
  also have "\<dots> = (buf @ ''['') @ comma_join (?four @ map ?f (trimTrailing (v2Fields s))) @ '']''"
    unfolding foldl_prefix by (subst foldl_comma) simp_all
  finally show ?thesis by simp
qed

lemma appendV2SpotsFrame_eq:
  "appendV2SpotsFrame marshal buf spots n fid = buf @ ''event: spots'' @ [CHR 0x0A]
     @ (if fid \<noteq> [] then ''id: '' @ fid @ [CHR 0x0A] else [])
     @ ''data: {'' @ [CHR 0x22] @ ''n'' @ [CHR 0x22] @ '':'' @ itoa n @ '','' @ [CHR 0x22] @ ''s'' @ [CHR 0x22] @ '':[''
     @ comma_join (map (\<lambda>s. appendV2Spot marshal [] s n) spots) @ '']}'' @ [CHR 0x0A, CHR 0x0A]"
proof -
  have one: "appendV2Spot marshal b s n = b @ appendV2Spot marshal [] s n" for b s
    by (simp add: appendV2Spot_eq)
  have rest: "fst (foldl (\<lambda>(buf, i) s. (appendV2Spot marshal (if i > 0 then buf @ '','' else buf) s n, i + 1)) (p @ comma_join xs, k) ss)
      = p @ comma_join (xs @ map (\<lambda>s. appendV2Spot marshal [] s n) ss)" if "0 < (k :: nat)" "xs \<noteq> []" for p xs k ss
    using that
  proof (induction ss arbitrary: xs k)
    case (Cons s ss)
    have "appendV2Spot marshal ((p @ comma_join xs) @ '','') s n = p @ comma_join (xs @ [appendV2Spot marshal [] s n])"
      by (subst one) (simp add: comma_join_snoc [OF Cons.prems(2)])
    then show ?case using Cons.IH [of "Suc k" "xs @ [appendV2Spot marshal [] s n]"] Cons.prems(1) by simp
  qed simp
  have "fst (foldl (\<lambda>(buf, i) s. (appendV2Spot marshal (if i > 0 then buf @ '','' else buf) s n, i + 1)) (p, 0::nat) spots)
      = p @ comma_join (map (\<lambda>s. appendV2Spot marshal [] s n) spots)" for p
  proof (cases spots)
    case (Cons s ss)
    then show ?thesis
      using rest [of 1 "[appendV2Spot marshal [] s n]" p ss] one [of p s] by simp
  qed simp
  then show ?thesis by (simp add: appendV2SpotsFrame_def Let_def)
qed

section \<open>Resume\<close>

definition streamEventID :: "string \<Rightarrow> nat \<Rightarrow> string" where
  "streamEventID hubEpoch seq = hubEpoch @ ''-'' @ digits seq"

fun parseStreamEventID_loop :: "string \<Rightarrow> nat \<Rightarrow> (string \<times> nat) option" where
  "parseStreamEventID_loop eid 0 = None"
| "parseStreamEventID_loop eid (Suc i) =
     (if eid ! Suc i = CHR ''-''
      then (case ParseUint64 (drop (Suc i + 1) eid) of
              None \<Rightarrow> None | Some v \<Rightarrow> Some (take (Suc i) eid, nat v))
      else parseStreamEventID_loop eid i)"

definition parseStreamEventID :: "string \<Rightarrow> (string \<times> nat) option" where
  "parseStreamEventID eid = parseStreamEventID_loop eid (length eid - 1)"

lemma parse_skip:
  assumes "\<forall>k. i < k \<longrightarrow> k \<le> i + n \<longrightarrow> eid ! k \<noteq> CHR ''-''"
  shows "parseStreamEventID_loop eid (i + n) = parseStreamEventID_loop eid i"
  using assms by (induction n) auto

lemma parse_streamEventID:
  assumes "epoch \<noteq> []" "int seq < 2 ^ 64"
  shows "parseStreamEventID (streamEventID epoch seq) = Some (epoch, seq)"
proof -
  let ?s = "streamEventID epoch seq"
  obtain k where k: "length epoch = Suc k" using assms(1) by (cases epoch) auto
  have nod: "?s ! j \<noteq> CHR ''-''" if "length epoch < j" "j < length ?s" for j
  proof -
    have "?s ! j = digits seq ! (j - length epoch - 1)" using that by (simp add: streamEventID_def nth_append)
    moreover have "digits seq ! (j - length epoch - 1) \<in> set (digits seq)"
      using that by (intro nth_mem) (simp add: streamEventID_def)
    ultimately have "is_digit (?s ! j)" using digits_is_digit by metis
    then show ?thesis by (auto simp: is_digit_def)
  qed
  have len: "length ?s - 1 = length epoch + length (digits seq)" by (simp add: streamEventID_def)
  have "parseStreamEventID ?s = parseStreamEventID_loop ?s (length epoch)"
    unfolding parseStreamEventID_def len
    by (rule parse_skip) (use nod in \<open>auto simp: streamEventID_def\<close>)
  also have "\<dots> = Some (epoch, seq)"
    using assms(2) by (simp add: k streamEventID_def nth_append ParseUint64_digits)
  finally show ?thesis .
qed

datatype resumeKind = resumeNone | resumeDelta | resumeFull

definition resumeKind_String :: "resumeKind \<Rightarrow> string" where
  "resumeKind_String k = (case k of resumeDelta \<Rightarrow> ''delta'' | resumeFull \<Rightarrow> ''full'' | resumeNone \<Rightarrow> [])"

record streamRequest =
  sr_qth :: string
  sr_surroundings :: bool
  sr_minutes :: int
  v2 :: bool
  sr_filter :: streamClientFilter
  sinceRaw :: string
  prev :: bool
  prevFilter :: streamClientFilter
  prevRadius :: int
  hasPrevRad :: bool

definition emptyFilter :: streamClientFilter where
  "emptyFilter = \<lparr>enabledBands = {}, minSnrMode = [], ssbMinDb = 0, cwMinDb = 0,
     excludeDx = False, excludeRBN = False, excludeWSPR = False\<rparr>"

definition parseStreamRequest :: "query \<Rightarrow> string \<Rightarrow> streamRequest option" where
  \<comment> \<open>\<open>lastEventID\<close> is the request header; \<open>None\<close> is the \<open>qth required\<close> error\<close>
  "parseStreamRequest q lastEventID =
     (let (qth, surroundings) = resolveQTHQuery q
      in if qth = [] then None
         else let minutes = (case Atoi (q ''minutes'') of None \<Rightarrow> 15 | Some v \<Rightarrow> if v \<le> 0 then 15 else v);
                  minutes = (if minutes > 60 then 60 else minutes);
                  req = \<lparr>sr_qth = qth, sr_surroundings = surroundings, sr_minutes = minutes,
                         v2 = (q ''v'' = ''2''), sr_filter = streamFilterFromQuery q [] True,
                         sinceRaw = [], prev = False, prevFilter = emptyFilter, prevRadius = 0, hasPrevRad = False\<rparr>
              in if v2 req
                 then let since = TrimSpace lastEventID;
                          since = (if since = [] then TrimSpace (q ''since'') else since);
                          req = req\<lparr>sinceRaw := since\<rparr>;
                          req = (if q ''prev'' = ''1''
                                 then req\<lparr>prev := True, prevFilter := streamFilterFromQuery q ''prev_'' True\<rparr> else req)
                      in Some (if q ''prev_radius'' \<noteq> []
                               then (case Atoi (q ''prev_radius'') of None \<Rightarrow> req
                                     | Some v \<Rightarrow> req\<lparr>prevRadius := v, hasPrevRad := True\<rparr>) else req)
                 else Some req)"

definition decideResume :: "string \<Rightarrow> streamRequest \<Rightarrow> int \<Rightarrow> nat \<Rightarrow> resumeKind \<times> string \<times> nat" where
  "decideResume hubEpoch req areaRadius highSeq =
     (if \<not> v2 req \<or> sinceRaw req = [] then (resumeNone, [], 0)
      else case parseStreamEventID (sinceRaw req) of
             None \<Rightarrow> (resumeFull, ''bad_id'', 0)
           | Some (epoch, seq) \<Rightarrow>
               if epoch \<noteq> hubEpoch \<or> seq > highSeq then (resumeFull, ''epoch'', 0)
               else if hasPrevRad req \<and> prevRadius req \<noteq> areaRadius then (resumeFull, ''area'', 0)
               else (resumeDelta, [], seq))"

lemma decideResume_delta:
  "decideResume e req r high = (resumeDelta, reason, seq) \<Longrightarrow>
     reason = [] \<and> seq \<le> high \<and> parseStreamEventID (sinceRaw req) = Some (e, seq)"
  by (auto simp: decideResume_def split: if_splits option.splits)

lemma parseStreamRequest_minutes: "parseStreamRequest q l = Some req \<Longrightarrow> 0 < sr_minutes req \<and> sr_minutes req \<le> 60"
  by (auto simp: parseStreamRequest_def Let_def split: if_splits option.splits prod.splits)

section \<open>The history part of a stream\<close>

definition streamResumeOverlap :: nat where
  "streamResumeOverlap = 512"

definition minU64 :: "nat \<Rightarrow> nat \<Rightarrow> nat" where
  "minU64 a b = (if a < b then a else b)"

definition streamStartIdx :: "Hub \<Rightarrow> streamRequest \<Rightarrow> int \<Rightarrow> resumeKind \<Rightarrow> nat \<Rightarrow> nat" where
  "streamStartIdx h req now mode sinceSeq =
     (let startIdx = cutoffIndex h (now - sr_minutes req * 60)
      in if mode = resumeDelta \<and> \<not> prev req
         then let from = sinceSeq - minU64 sinceSeq streamResumeOverlap
              in if from > baseSeq h
                 then let i = from - baseSeq h
                      in if i > startIdx then min i (length (hub_history h)) else startIdx
                 else startIdx
         else startIdx)"

fun historySpots ::
    "Client \<Rightarrow> streamRequest \<Rightarrow> int \<Rightarrow> resumeKind \<Rightarrow> nat \<Rightarrow> nat \<Rightarrow> MQTTMessage list \<Rightarrow> Spot list" where
  \<comment> \<open>the scan of the snapshot; \<open>s\<close> is the sequence number of the first message\<close>
  "historySpots c req now mode overlapFloor s [] = []"
| "historySpots c req now mode overlapFloor s (msg # ms) =
     (let rest = historySpots c req now mode overlapFloor (s + 1) ms
      in case matchAndCreateSpot c msg now of
           None \<Rightarrow> rest
         | Some spot \<Rightarrow>
             if \<not> spotAllowed (sr_filter req) spot then rest
             else if mode = resumeDelta \<and> prev req \<and> s \<le> overlapFloor \<and> spotAllowed (prevFilter req) spot then rest
             else spot\<lparr>Seq := int s\<rparr> # rest)"

record streamOpening =
  open_hub :: Hub
  open_mode :: resumeKind
  open_reason :: string
  open_high :: nat
  open_spots :: "Spot list"

definition streamOpen ::
    "string \<Rightarrow> int \<Rightarrow> Hub \<Rightarrow> Client \<Rightarrow> streamRequest \<Rightarrow> int \<Rightarrow> int \<Rightarrow> streamOpening option" where
  \<comment> \<open>from the lock to the history dump; \<open>None\<close> is the \<open>at capacity\<close> answer\<close>
  "streamOpen hubEpoch maxClients h c req areaRadius now =
     (if maxClients > 0 \<and> int (length (registered h)) \<ge> maxClients then None
      else let (mode, reason, sinceSeq) = decideResume hubEpoch req areaRadius (highSeqLocked h);
               startIdx = streamStartIdx h req now mode sinceSeq;
               window = windowFromLocked h startIdx;
               overlapFloor = (if sinceSeq > streamResumeOverlap then sinceSeq - streamResumeOverlap else 0)
           in Some \<lparr>open_hub = registerClient h c, open_mode = mode, open_reason = reason,
                    open_high = highSeqLocked h,
                    open_spots = historySpots c req now mode overlapFloor (baseSeq h + startIdx + 1) window\<rparr>)"

definition spotFor :: "Client \<Rightarrow> streamRequest \<Rightarrow> int \<Rightarrow> MQTTMessage \<Rightarrow> Spot option" where
  \<comment> \<open>the spot a message is worth to this stream\<close>
  "spotFor c req now m =
     (case matchAndCreateSpot c m now of None \<Rightarrow> None
      | Some sp \<Rightarrow> if spotAllowed (sr_filter req) sp then Some sp else None)"

definition held_back :: "streamRequest \<Rightarrow> resumeKind \<Rightarrow> nat \<Rightarrow> nat \<Rightarrow> Spot \<Rightarrow> bool" where
  \<comment> \<open>the client already holds this spot\<close>
  "held_back req mode fl s x \<longleftrightarrow> mode = resumeDelta \<and> prev req \<and> s \<le> fl \<and> spotAllowed (prevFilter req) x"

lemma historySpots_Cons:
  "historySpots c req now mode fl s (m # ms) =
     (let rest = historySpots c req now mode fl (Suc s) ms
      in case spotFor c req now m of None \<Rightarrow> rest
         | Some x \<Rightarrow> if held_back req mode fl s x then rest else x\<lparr>Seq := int s\<rparr> # rest)"
  by (simp add: spotFor_def held_back_def Let_def split: option.splits)

declare historySpots.simps(2) [simp del]

lemma historySpots_mem:
  "sp \<in> set (historySpots c req now mode fl s ms) \<longleftrightarrow>
     (\<exists>k < length ms. \<exists>x. spotFor c req now (ms ! k) = Some x \<and>
        \<not> held_back req mode fl (s + k) x \<and> sp = x\<lparr>Seq := int (s + k)\<rparr>)"
proof (induction ms arbitrary: s)
  case (Cons m ms)
  have split: "(\<exists>k < length (m # ms). P k) \<longleftrightarrow> P 0 \<or> (\<exists>k < length ms. P (Suc k))" for P
    using less_Suc_eq_0_disj by auto
  show ?case
  proof (cases "spotFor c req now m")
    case None
    then show ?thesis unfolding split historySpots_Cons Let_def by (simp add: Cons.IH)
  next
    case (Some x)
    then show ?thesis unfolding split historySpots_Cons Let_def
      by (cases "held_back req mode fl s x") (simp_all add: Cons.IH)
  qed
qed simp

lemma historySpots_sorted:
  "sorted_wrt (<) (map Seq (historySpots c req now mode fl s ms)) \<and>
   (\<forall>sp\<in>set (historySpots c req now mode fl s ms). int s \<le> Seq sp \<and> Seq sp < int (s + length ms))"
proof (induction ms arbitrary: s)
  case (Cons m ms)
  let ?r = "historySpots c req now mode fl (Suc s) ms"
  have r: "sorted_wrt (<) (map Seq ?r)" "\<forall>sp\<in>set ?r. int s < Seq sp \<and> Seq sp < int (Suc s + length ms)"
    using Cons.IH [of "Suc s"] by auto
  then have r': "\<forall>sp\<in>set ?r. int s \<le> Seq sp \<and> Seq sp < int (s + length (m # ms))" by auto
  have "historySpots c req now mode fl s (m # ms) = ?r \<or>
      (\<exists>x. historySpots c req now mode fl s (m # ms) = x\<lparr>Seq := int s\<rparr> # ?r)"
    unfolding historySpots_Cons Let_def by (auto split: option.splits)
  then show ?case using r r' by (elim disjE exE) auto
qed simp

lemma streamStartIdx_le: "streamStartIdx h req now mode since \<le> length (hub_history h)"
proof -
  have "cutoffIndex h c \<le> length (hub_history h)" for c by (simp add: cutoffIndex_def sort_Search_boundary)
  then show ?thesis by (simp add: streamStartIdx_def Let_def)
qed

lemma streamStartIdx_bounds:
  "cutoffIndex h (now - sr_minutes req * 60) \<le> streamStartIdx h req now mode since"
  "mode \<noteq> resumeDelta \<or> prev req \<Longrightarrow> streamStartIdx h req now mode since = cutoffIndex h (now - sr_minutes req * 60)"
  "baseSeq h + cutoffIndex h (now - sr_minutes req * 60) < s \<Longrightarrow> since < s \<Longrightarrow>
     baseSeq h + streamStartIdx h req now mode since < s"
proof -
  have le: "cutoffIndex h c \<le> length (hub_history h)" for c by (simp add: cutoffIndex_def sort_Search_boundary)
  show "cutoffIndex h (now - sr_minutes req * 60) \<le> streamStartIdx h req now mode since"
    using le [of "now - sr_minutes req * 60"] by (simp add: streamStartIdx_def Let_def)
  show "streamStartIdx h req now mode since = cutoffIndex h (now - sr_minutes req * 60)"
    if "mode \<noteq> resumeDelta \<or> prev req" using that by (auto simp: streamStartIdx_def)
  show "baseSeq h + streamStartIdx h req now mode since < s"
    if "baseSeq h + cutoffIndex h (now - sr_minutes req * 60) < s" "since < s"
    using that by (auto simp: streamStartIdx_def Let_def minU64_def min_def)
qed

lemma streamOpen_form:
  assumes "streamOpen e mx h c req r now = Some p"
  obtains since where "decideResume e req r (highSeqLocked h) = (open_mode p, open_reason p, since)"
    "open_high p = highSeqLocked h" "open_hub p = registerClient h c"
    "open_spots p = historySpots c req now (open_mode p)
       (if since > streamResumeOverlap then since - streamResumeOverlap else 0)
       (baseSeq h + streamStartIdx h req now (open_mode p) since + 1)
       (drop (streamStartIdx h req now (open_mode p) since) (hub_history h))"
  using assms by (auto simp: streamOpen_def Let_def windowFromLocked_def split: if_splits prod.splits)

lemma decideResume_modes:
  assumes "decideResume e req r high = (mode, reason, since)"
  shows "mode \<noteq> resumeDelta \<Longrightarrow> since = 0" "mode = resumeDelta \<Longrightarrow> since \<le> high"
  using assms by (auto simp: decideResume_def split: if_splits option.splits)

definition client_holds :: "streamRequest \<Rightarrow> nat \<Rightarrow> nat \<Rightarrow> Spot \<Rightarrow> bool" where
  \<comment> \<open>what a client that resumes from \<open>since\<close> is taken to have: the spots at least the overlap
    below it that its previous filter let through (a plain resume keeps its filter)\<close>
  "client_holds req since s sp \<longleftrightarrow> s + streamResumeOverlap \<le> since \<and> (prev req \<longrightarrow> spotAllowed (prevFilter req) sp)"

lemma start_overlap:
  "baseSeq h + cutoffIndex h (now - sr_minutes req * 60) < s \<Longrightarrow> since < s + streamResumeOverlap \<Longrightarrow> 
     s \<le> highSeqLocked h \<Longrightarrow> baseSeq h + streamStartIdx h req now mode since < s"
  by (auto simp: streamStartIdx_def Let_def minU64_def min_def highSeqLocked_def split: if_splits)

lemma streamOpen_complete:
  assumes o: "streamOpen e mx h c req r now = Some p"
    and dec: "decideResume e req r (highSeqLocked h) = (open_mode p, reason, since)"
    and m: "message_at h s = Some m" "baseSeq h + cutoffIndex h (now - sr_minutes req * 60) < s"
    and sp: "spotFor c req now m = Some sp"
    and new: "open_mode p = resumeDelta \<Longrightarrow> \<not> client_holds req since s sp"
  shows "sp\<lparr>Seq := int s\<rparr> \<in> set (open_spots p)"
proof -
  obtain since' where since': "decideResume e req r (highSeqLocked h) = (open_mode p, open_reason p, since')"
    and spots: "open_spots p = historySpots c req now (open_mode p)
       (if since' > streamResumeOverlap then since' - streamResumeOverlap else 0)
       (baseSeq h + streamStartIdx h req now (open_mode p) since' + 1)
       (drop (streamStartIdx h req now (open_mode p) since') (hub_history h))"
    using streamOpen_form [OF o] by metis
  then have [simp]: "since' = since" using dec by simp
  let ?i = "streamStartIdx h req now (open_mode p) since"
  have hi: "baseSeq h < s" "s \<le> highSeqLocked h" and nth: "m = hub_history h ! (s - baseSeq h - 1)"
    using m(1) by (auto simp: message_at_def split: if_splits)
  have start: "baseSeq h + ?i < s"
  proof (cases "open_mode p = resumeDelta \<and> \<not> prev req")
    case True
    then have "since < s + streamResumeOverlap" using new by (auto simp: client_holds_def)
    then show ?thesis by (rule start_overlap [OF m(2) _ hi(2)])
  next
    case False
    then show ?thesis using m(2) streamStartIdx_bounds(2) [of "open_mode p" req h now since] by auto
  qed
  define k where "k = s - baseSeq h - ?i - 1"
  have s: "s = baseSeq h + ?i + 1 + k" using start by (simp add: k_def)
  have k: "k < length (drop ?i (hub_history h))" "drop ?i (hub_history h) ! k = m"
    using hi nth s streamStartIdx_le [of h req now "open_mode p" since] by (auto simp: highSeqLocked_def)
  have "\<not> held_back req (open_mode p) (if since > streamResumeOverlap then since - streamResumeOverlap else 0) s sp"
    using new hi(1) unfolding client_holds_def held_back_def by (auto split: if_splits)
  then show ?thesis
    unfolding spots historySpots_mem using k sp s by (intro exI [of _ k] conjI exI [of _ sp]) auto
qed

lemma streamOpen_sound:
  assumes o: "streamOpen e mx h c req r now = Some p" and sp: "sp \<in> set (open_spots p)"
  obtains s m x where "message_at h s = Some m" "spotFor c req now m = Some x" "sp = x\<lparr>Seq := int s\<rparr>"
    "baseSeq h + cutoffIndex h (now - sr_minutes req * 60) < s"
proof -
  obtain since where spots: "open_spots p = historySpots c req now (open_mode p)
       (if since > streamResumeOverlap then since - streamResumeOverlap else 0)
       (baseSeq h + streamStartIdx h req now (open_mode p) since + 1)
       (drop (streamStartIdx h req now (open_mode p) since) (hub_history h))"
    using streamOpen_form [OF o] by metis
  let ?i = "streamStartIdx h req now (open_mode p) since"
  from sp obtain k x where k: "k < length (drop ?i (hub_history h))"
    "spotFor c req now (drop ?i (hub_history h) ! k) = Some x" "sp = x\<lparr>Seq := int (baseSeq h + ?i + 1 + k)\<rparr>"
    unfolding spots historySpots_mem by blast
  have "message_at h (baseSeq h + ?i + 1 + k) = Some (drop ?i (hub_history h) ! k)"
    using k(1) streamStartIdx_le [of h req now "open_mode p" since] by (auto simp: message_at_def highSeqLocked_def)
  then show thesis
    using that k(2,3) streamStartIdx_bounds(1) [of h now req "open_mode p" since] by fastforce
qed

lemma streamOpen_order:
  assumes "streamOpen e mx h c req r now = Some p"
  shows "sorted_wrt (<) (map Seq (open_spots p))" "\<forall>sp\<in>set (open_spots p). Seq sp \<le> int (open_high p)"
proof -
  obtain since where high: "open_high p = highSeqLocked h"
    and spots: "open_spots p = historySpots c req now (open_mode p)
       (if since > streamResumeOverlap then since - streamResumeOverlap else 0)
       (baseSeq h + streamStartIdx h req now (open_mode p) since + 1)
       (drop (streamStartIdx h req now (open_mode p) since) (hub_history h))"
    using streamOpen_form [OF assms] by metis
  show "sorted_wrt (<) (map Seq (open_spots p))" unfolding spots using historySpots_sorted by blast
  show "\<forall>sp\<in>set (open_spots p). Seq sp \<le> int (open_high p)"
    unfolding spots high highSeqLocked_def
    using historySpots_sorted streamStartIdx_le [of h req now "open_mode p" since]
    by (fastforce simp del: of_nat_add)
qed

lemma cutoff_window:
  assumes "disorder D (hub_history h)" "message_at h s = Some m"
  shows "c + D \<le> T m \<Longrightarrow> baseSeq h + cutoffIndex h c < s" "baseSeq h + cutoffIndex h c < s \<Longrightarrow> c \<le> T m + D"
proof -
  have s: "baseSeq h < s" "s - baseSeq h - 1 < length (hub_history h)" "m = hub_history h ! (s - baseSeq h - 1)"
    using assms(2) by (auto simp: message_at_def highSeqLocked_def split: if_splits)
  note cut = cutoff_disorder [OF assms(1) s(2), of c]
  show "baseSeq h + cutoffIndex h c < s" if "c + D \<le> T m" using cut(1) that s by simp
  show "c \<le> T m + D" if "baseSeq h + cutoffIndex h c < s" using cut(2) that s by simp
qed

section \<open>The batching loop\<close>

text \<open>
  One iteration of the handler's \<open>select\<close>: a spot from the client's channel, or a tick of
  the flush timer. The state is the pending batch, the highest sequence number announced
  and the frames written (id, spots). \<open>chunk\<close> is the frame size of \<open>writeSpotsV2\<close>.
\<close>

fun chunks :: "nat \<Rightarrow> 'a list \<Rightarrow> 'a list list" where
  "chunks n [] = []"
| "chunks n (x # xs) = (if n = 0 then [x # xs] else take n (x # xs) # chunks n (drop n (x # xs)))"

definition streamBatchMax :: nat where "streamBatchMax = 500"
definition streamHistoryChunk :: nat where "streamHistoryChunk = 1000"

definition writeSpotsV2 :: "Spot list \<Rightarrow> nat \<Rightarrow> string \<Rightarrow> (string \<times> Spot list) list" where
  \<comment> \<open>the frames, as id and spots; \<open>appendV2SpotsFrame\<close> renders one\<close>
  "writeSpotsV2 spots chunk fid =
     map (Pair fid) (chunks (if chunk = 0 then length spots else chunk) spots)"

record liveState =
  pending :: "Spot list"
  maxSeq :: int
  frames :: "(string \<times> Spot list) list"

datatype liveEvent = LiveSpot Spot | Tick

definition flushPending :: "string \<Rightarrow> liveState \<Rightarrow> liveState" where
  "flushPending hubEpoch st =
     (if pending st = [] then st
      else let m = foldl (\<lambda>m s. if Seq s > m then Seq s else m) (maxSeq st) (pending st)
           in st\<lparr>maxSeq := m, pending := [],
                frames := frames st @ writeSpotsV2 (pending st) streamBatchMax (streamEventID hubEpoch (nat m))\<rparr>)"

definition liveStep :: "string \<Rightarrow> streamClientFilter \<Rightarrow> liveState \<Rightarrow> liveEvent \<Rightarrow> liveState" where
  "liveStep hubEpoch f st ev =
     (case ev of
        LiveSpot sp \<Rightarrow>
          if \<not> spotAllowed f sp then st
          else let st = st\<lparr>pending := pending st @ [sp]\<rparr>
               in if length (pending st) \<ge> streamBatchMax then flushPending hubEpoch st else st
      | Tick \<Rightarrow> if length (pending st) > 0 then flushPending hubEpoch st else st)"

definition sentSpots :: "liveState \<Rightarrow> Spot list" where
  "sentSpots st = concat (map snd (frames st))"

definition eventSpots :: "liveEvent list \<Rightarrow> Spot list" where
  "eventSpots evs = concat (map (\<lambda>e. case e of LiveSpot sp \<Rightarrow> [sp] | Tick \<Rightarrow> []) evs)"

lemma concat_chunks: "concat (chunks n xs) = xs"
  by (induction n xs rule: chunks.induct) auto

lemma chunks_size: "0 < n \<Longrightarrow> c \<in> set (chunks n xs) \<Longrightarrow> c \<noteq> [] \<and> length c \<le> n"
  by (induction n xs rule: chunks.induct) auto

lemma foldl_max:
  fixes g :: "'a \<Rightarrow> int"
  shows "foldl (\<lambda>m s. if g s > m then g s else m) m xs \<ge> m"
    "x \<in> set xs \<Longrightarrow> g x \<le> foldl (\<lambda>m s. if g s > m then g s else m) m xs"
proof -
  show lo: "foldl (\<lambda>m s. if g s > m then g s else m) m xs \<ge> m" for m xs
  proof (induction xs arbitrary: m)
    case (Cons y ys)
    have "m \<le> (if g y > m then g y else m)" by simp
    also have "\<dots> \<le> foldl (\<lambda>m s. if g s > m then g s else m) m (y # ys)" using Cons by simp
    finally show ?case .
  qed simp
  show "g x \<le> foldl (\<lambda>m s. if g s > m then g s else m) m xs" if "x \<in> set xs"
    using that
  proof (induction xs arbitrary: m)
    case (Cons y ys)
    show ?case
    proof (cases "x = y")
      case True
      have "g x \<le> (if g y > m then g y else m)" using True by simp
      also have "\<dots> \<le> foldl (\<lambda>m s. if g s > m then g s else m) m (y # ys)" using lo by simp
      finally show ?thesis .
    qed (use Cons in simp)
  qed simp
qed

definition frame_ok :: "string \<Rightarrow> string \<times> Spot list \<Rightarrow> bool" where
  \<comment> \<open>a frame is not empty, within the batch bound, and its id covers its spots\<close>
  "frame_ok e fr \<longleftrightarrow> snd fr \<noteq> [] \<and> length (snd fr) \<le> streamBatchMax \<and>
     (\<exists>m\<ge>0. fst fr = streamEventID e (nat m) \<and> (\<forall>sp\<in>set (snd fr). Seq sp \<le> m))"

definition live_ok :: "string \<Rightarrow> liveState \<Rightarrow> bool" where
  "live_ok e st \<longleftrightarrow> length (pending st) < streamBatchMax \<and> 0 \<le> maxSeq st \<and>
     (\<forall>sp\<in>set (sentSpots st). Seq sp \<le> maxSeq st) \<and> (\<forall>fr\<in>set (frames st). frame_ok e fr)"

lemma writeSpotsV2_frames:
  assumes "fr \<in> set (writeSpotsV2 sps streamBatchMax fid)"
  shows "fst fr = fid" "snd fr \<noteq> []" "length (snd fr) \<le> streamBatchMax" "set (snd fr) \<subseteq> set sps"
proof -
  from assms obtain c where c: "fr = (fid, c)" "c \<in> set (chunks streamBatchMax sps)"
    by (auto simp: writeSpotsV2_def streamBatchMax_def)
  have "set c \<subseteq> set (concat (chunks streamBatchMax sps))" using c(2) by auto
  then show "fst fr = fid" "snd fr \<noteq> []" "length (snd fr) \<le> streamBatchMax" "set (snd fr) \<subseteq> set sps"
    using c chunks_size [of streamBatchMax c sps] by (auto simp: concat_chunks streamBatchMax_def)
qed

lemma writeSpotsV2_concat: "concat (map snd (writeSpotsV2 sps n fid)) = sps"
  by (simp add: writeSpotsV2_def o_def concat_chunks)

lemma flush_sent:
  "sentSpots (flushPending e st) = sentSpots st @ pending st" "pending (flushPending e st) = []"
  by (simp_all add: flushPending_def sentSpots_def Let_def writeSpotsV2_concat)

lemma flush_ok:
  assumes "0 \<le> maxSeq st" "\<forall>sp\<in>set (sentSpots st). Seq sp \<le> maxSeq st" "\<forall>fr\<in>set (frames st). frame_ok e fr"
  shows "live_ok e (flushPending e st)"
proof (cases "pending st = []")
  case True
  then show ?thesis using assms by (simp add: flushPending_def live_ok_def streamBatchMax_def)
next
  case False
  define m where "m = foldl (\<lambda>m s. if Seq s > m then Seq s else m) (maxSeq st) (pending st)"
  have m: "maxSeq st \<le> m" "\<And>sp. sp \<in> set (pending st) \<Longrightarrow> Seq sp \<le> m"
    unfolding m_def using foldl_max [where g = Seq] by auto
  have new: "maxSeq (flushPending e st) = m"
    "frames (flushPending e st) = frames st @ writeSpotsV2 (pending st) streamBatchMax (streamEventID e (nat m))"
    using False by (simp_all add: flushPending_def Let_def m_def)
  have "frame_ok e fr" if "fr \<in> set (writeSpotsV2 (pending st) streamBatchMax (streamEventID e (nat m)))" for fr
    unfolding frame_ok_def using writeSpotsV2_frames [OF that] m assms(1) by (intro conjI exI [of _ m]) auto
  moreover have "Seq sp \<le> m" if "sp \<in> set (sentSpots (flushPending e st))" for sp
    using that assms(2) m by (fastforce simp: flush_sent)
  ultimately show ?thesis
    using assms m(1) by (auto simp: live_ok_def new flush_sent(2) streamBatchMax_def)
qed

lemma liveStep_ok:
  assumes "live_ok e st"
  shows "live_ok e (liveStep e f st ev)"
proof (cases ev)
  case Tick
  then show ?thesis using assms flush_ok [of st e] by (auto simp: liveStep_def live_ok_def)
next
  case (LiveSpot sp)
  show ?thesis
  proof (cases "spotAllowed f sp \<and> length (pending st) + 1 \<ge> streamBatchMax")
    case True
    then show ?thesis using assms flush_ok [of "st\<lparr>pending := pending st @ [sp]\<rparr>" e] LiveSpot
      by (simp add: liveStep_def live_ok_def sentSpots_def Let_def)
  next
    case False
    then show ?thesis using assms LiveSpot by (auto simp: liveStep_def live_ok_def sentSpots_def Let_def)
  qed
qed

lemma liveStep_spots:
  "sentSpots (liveStep e f st ev) @ pending (liveStep e f st ev)
    = sentSpots st @ pending st @ filter (spotAllowed f) (eventSpots [ev])"
  by (cases ev) (simp_all add: liveStep_def Let_def flush_sent eventSpots_def, simp_all add: sentSpots_def)

definition liveStart :: "nat \<Rightarrow> liveState" where
  "liveStart high = \<lparr>pending = [], maxSeq = int high, frames = []\<rparr>"

lemma live_run:
  assumes "live_ok e st"
  shows "live_ok e (foldl (liveStep e f) st evs) \<and>
    sentSpots (foldl (liveStep e f) st evs) @ pending (foldl (liveStep e f) st evs)
      = sentSpots st @ pending st @ filter (spotAllowed f) (eventSpots evs)"
  using assms
proof (induction evs arbitrary: st)
  case (Cons ev evs)
  have "filter (spotAllowed f) (eventSpots (ev # evs))
      = filter (spotAllowed f) (eventSpots [ev]) @ filter (spotAllowed f) (eventSpots evs)"
    by (simp add: eventSpots_def)
  then show ?case
    using Cons.IH [OF liveStep_ok [OF Cons.prems]] liveStep_spots [of e f st ev] by simp
qed (simp add: eventSpots_def)

lemma liveStart_ok: "live_ok e (liveStart high)" "sentSpots (liveStart high) = []" "pending (liveStart high) = []"
  by (simp_all add: live_ok_def liveStart_def sentSpots_def streamBatchMax_def)

section \<open>Frame ids\<close>

text \<open>
  A frame's id is the highest number of everything announced so far; what is still to come
  is no further below it than the overlap a resume steps back, as long as the deliveries
  are not further out of order than that.
\<close>

definition highest :: "nat \<Rightarrow> Spot list \<Rightarrow> int" where
  \<comment> \<open>the highest sequence number among the opening's mark and the spots\<close>
  "highest high sps = Max (insert (int high) (Seq ` set sps))"

lemma highest_fold: "foldl (\<lambda>m s. if Seq s > m then Seq s else m) (highest high xs) ys = highest high (xs @ ys)"
proof (induction ys arbitrary: xs)
  case (Cons y ys)
  have "insert (int high) (Seq ` set (xs @ [y])) = insert (Seq y) (insert (int high) (Seq ` set xs))" by auto
  then have "highest high (xs @ [y]) = max (Seq y) (highest high xs)" unfolding highest_def by (simp only: Max_insert finite_insert finite_imageI finite_set insert_not_empty not_False_eq_True)
  then have "(if Seq y > highest high xs then Seq y else highest high xs) = highest high (xs @ [y])" by (simp add: max_def)
  then show ?case using Cons [of "xs @ [y]"] by simp
qed simp

definition frames_named :: "string \<Rightarrow> nat \<Rightarrow> (string \<times> Spot list) list \<Rightarrow> bool" where
  \<comment> \<open>a frame's id is the highest number announced by it and everything before it\<close>
  "frames_named e high fs \<longleftrightarrow> (\<forall>i<length fs. fst (fs ! i) = streamEventID e (nat (highest high (concat (map snd (take (Suc i) fs))))))"

lemma single_frame: "xs \<noteq> [] \<Longrightarrow> length xs \<le> streamBatchMax \<Longrightarrow> writeSpotsV2 xs streamBatchMax fid = [(fid, xs)]"
  by (cases xs) (simp_all add: writeSpotsV2_def streamBatchMax_def)

definition named_ok :: "string \<Rightarrow> nat \<Rightarrow> liveState \<Rightarrow> bool" where
  "named_ok e high st \<longleftrightarrow> maxSeq st = highest high (sentSpots st) \<and> frames_named e high (frames st) \<and> length (pending st) < streamBatchMax"

lemma flush_named:
  assumes "maxSeq st = highest high (sentSpots st)" "frames_named e high (frames st)" "length (pending st) \<le> streamBatchMax"
  shows "named_ok e high (flushPending e st)"
proof (cases "pending st = []")
  case True
  then show ?thesis using assms by (simp add: flushPending_def named_ok_def streamBatchMax_def)
next
  case False
  define m where "m = highest high (sentSpots st @ pending st)"
  have f: "flushPending e st = st\<lparr>maxSeq := m, pending := [], frames := frames st @ [(streamEventID e (nat m), pending st)]\<rparr>"
    using False assms(1,3) by (simp add: flushPending_def Let_def highest_fold m_def single_frame)
  have "frames_named e high (frames st @ [(streamEventID e (nat m), pending st)])"
    using assms(2) by (auto simp: frames_named_def nth_append less_Suc_eq m_def sentSpots_def)
  then show ?thesis unfolding f by (simp add: named_ok_def sentSpots_def streamBatchMax_def) (simp add: m_def sentSpots_def)
qed

lemma liveStep_named:
  assumes "named_ok e high st"
  shows "named_ok e high (liveStep e f st ev)"
proof (cases ev)
  case Tick
  then show ?thesis using assms flush_named [of st high e] by (simp add: liveStep_def named_ok_def)
next
  case (LiveSpot sp)
  then show ?thesis
    using assms flush_named [of "st\<lparr>pending := pending st @ [sp]\<rparr>" high e]
    by (auto simp: liveStep_def named_ok_def Let_def sentSpots_def)
qed

lemma live_named: "named_ok e high (foldl (liveStep e f) (liveStart high) evs)"
proof -
  have "named_ok e high st \<Longrightarrow> named_ok e high (foldl (liveStep e f) st evs)" for st
    by (induction evs arbitrary: st) (simp_all add: liveStep_named)
  then show ?thesis by (simp add: named_ok_def liveStart_def sentSpots_def highest_def frames_named_def streamBatchMax_def)
qed

definition nearly_ordered :: "nat \<Rightarrow> Spot list \<Rightarrow> bool" where
  \<comment> \<open>no spot arrives after one whose number is \<open>streamResumeOverlap\<close> or more above its own\<close>
  "nearly_ordered high sps \<longleftrightarrow> (\<forall>i<length sps. int high < Seq (sps ! i) + int streamResumeOverlap) \<and>
     (\<forall>i j. i \<le> j \<longrightarrow> j < length sps \<longrightarrow> Seq (sps ! i) < Seq (sps ! j) + int streamResumeOverlap)"

lemma highest_less: "(\<forall>x\<in>set xs. Seq x < b) \<Longrightarrow> int high < b \<Longrightarrow> highest high xs < b"
  by (simp add: highest_def)

lemma unsent_is_near:
  assumes "nearly_ordered high (xs @ ys)" "sp \<in> set ys"
  shows "highest high xs < Seq sp + int streamResumeOverlap"
proof (rule highest_less)
  obtain j where j: "j < length ys" "sp = ys ! j" using assms(2) by (metis in_set_conv_nth)
  then have n: "sp = (xs @ ys) ! (length xs + j)" "length xs + j < length (xs @ ys)" by (simp_all add: nth_append)
  show "int high < Seq sp + int streamResumeOverlap" using assms(1) n unfolding nearly_ordered_def by metis
  show "\<forall>x\<in>set xs. Seq x < Seq sp + int streamResumeOverlap"
  proof
    fix x assume "x \<in> set xs"
    then obtain i where "i < length xs" "x = (xs @ ys) ! i" by (metis in_set_conv_nth nth_append)
    then show "Seq x < Seq sp + int streamResumeOverlap"
      using assms(1) n unfolding nearly_ordered_def by (metis le_add1 less_imp_le order_trans)
  qed
qed

lemma unsent_is_not_held:
  assumes "nearly_ordered high (xs @ ys)" "sp \<in> set ys"
  shows "\<not> client_holds req (nat (highest high xs)) (nat (Seq sp)) x"
proof -
  have "nat (highest high xs) < nat (Seq sp) + streamResumeOverlap"
    using unsent_is_near [OF assms] by (simp add: streamResumeOverlap_def)
  then show ?thesis by (simp add: client_holds_def)
qed

definition framed :: "liveState \<Rightarrow> nat \<Rightarrow> Spot list" where
  \<comment> \<open>the spots in the frames up to number \<open>i\<close>\<close>
  "framed st i = concat (map snd (take (Suc i) (frames st)))"

lemma framed_prefix:
  assumes "sentSpots st @ pending st = xs"
  shows "xs = framed st i @ drop (length (framed st i)) xs"
proof -
  have "sentSpots st = framed st i @ concat (map snd (drop (Suc i) (frames st)))"
    unfolding sentSpots_def framed_def concat_append [symmetric] map_append [symmetric] append_take_drop_id ..
  then show ?thesis using assms by (metis append.assoc append_eq_conv_conj)
qed

end
