(* ===== verification/SecondCounts.thy ===== *)
theory SecondCounts
  imports Baseline "HOL-Library.AList"
begin

text \<open>
  \<^verbatim>\<open>cluster_counts.go\<close>: per-second, per-band counters with a dense window and a bounded
  overflow map. Seconds are \<open>int\<close>; the \<open>int32\<close> cells count message ends of one second and
  do not wrap below 2^31 of them. The Go map \<open>far\<close> is an association list with distinct
  keys. The retention flag is the parameter \<open>retention\<close>.

  The abstraction is the function \<open>count_at\<close>: how many ends a second and a band hold. The
  locale states what a client may rely on, and the model is its interpretation.
\<close>

section \<open>The contract\<close>

text \<open>A run of additions, none once one was refused, and what such a run adds to a second and slot.\<close>

fun adds :: "('s \<Rightarrow> int \<Rightarrow> nat \<Rightarrow> int \<Rightarrow> 's \<times> bool) \<Rightarrow> 's \<Rightarrow> (int \<times> nat \<times> int) list \<Rightarrow> 's option" where
  "adds add s [] = Some s"
| "adds add s ((t, slot, n) # es) = (case add s t slot n of (s', True) \<Rightarrow> adds add s' es | (s', False) \<Rightarrow> None)"

definition added :: "(int \<times> nat \<times> int) list \<Rightarrow> int \<Rightarrow> nat \<Rightarrow> int" where
  "added es t j = sum_list (map (\<lambda>(t', slot, n). if t' = t \<and> slot = j then n else 0) es)"

locale second_counter =
  fixes count :: "'s \<Rightarrow> int \<Rightarrow> nat \<Rightarrow> int"
    and ok :: "'s \<Rightarrow> bool"
    and add :: "'s \<Rightarrow> int \<Rightarrow> nat \<Rightarrow> int \<Rightarrow> 's \<times> bool"
    and trim :: "'s \<Rightarrow> int \<Rightarrow> 's"
    and span :: "'s \<Rightarrow> int"
  assumes add_ok: "ok s \<Longrightarrow> slot < 13 \<Longrightarrow> ok (fst (add s t slot n))"
    and add_count: "ok s \<Longrightarrow> slot < 13 \<Longrightarrow> j < 13 \<Longrightarrow> add s t slot n = (s', True) \<Longrightarrow>
      count s' t' j = count s t' j + (if t' = t \<and> j = slot then n else 0)"
    and add_span: "span (fst (add s t slot n)) = span s"
    and trim_ok: "ok s \<Longrightarrow> ok (trim s now)"
    and trim_count: "ok s \<Longrightarrow> now - span s \<le> t \<Longrightarrow> count (trim s now) t j = count s t j"
    and trim_span: "span (trim s now) = span s"
begin

text \<open>A run of additions that all succeed counts exactly what was added.\<close>

lemma adds_count:
  assumes "ok s" "\<forall>(t, slot, n)\<in>set es. slot < 13" "j < 13" "adds add s es = Some s'"
  shows "ok s' \<and> span s' = span s \<and> count s' t j = count s t j + added es t j"
  using assms
proof (induction es arbitrary: s)
  case (Cons e es)
  obtain t0 sl n where e: "e = (t0, sl, n)" by (cases e) auto
  with Cons.prems(4) obtain s1 where s1: "add s t0 sl n = (s1, True)" "adds add s1 es = Some s'"
    by (auto split: prod.splits bool.splits)
  have sl: "sl < 13" using Cons.prems(2) e by simp
  have "ok s1" "span s1 = span s" using add_ok [OF Cons.prems(1) sl, of t0 n] add_span [of s t0 sl n] s1(1) by simp_all
  then show ?case
    using Cons.IH [of s1] Cons.prems(2,3) s1 add_count [OF Cons.prems(1) sl Cons.prems(3) s1(1), of t] e
    by (auto simp: added_def)
qed (simp add: added_def)

end

section \<open>The counters\<close>

definition clusterBandSlots :: nat where
  "clusterBandSlots = length inScopeBandNames"

definition secondCountsMaxFar :: nat where "secondCountsMaxFar = 4096"
definition secondCountsForward :: int where "secondCountsForward = 20 * 60"
definition secondCountsSlack :: int where "secondCountsSlack = 120"
definition secondCountsTrimEvery :: int where "secondCountsTrimEvery = 300"
definition maxDxWindowMinutes :: int where "maxDxWindowMinutes = 180"

definition liveRateWindowMinutes :: "int \<Rightarrow> int \<Rightarrow> int" where
  "liveRateWindowMinutes retention minutes =
     (let minutes = (if minutes < 1 then 1 else minutes)
      in if retention > 0 \<and> minutes > retention then retention else minutes)"

record secondCounts =
  started :: bool
  sc_span :: int
  sc_base :: int
  dense :: "int list list"
  far :: "(int \<times> int list) list"

definition secondCounts_reset :: "secondCounts \<Rightarrow> secondCounts" where
  "secondCounts_reset s = s\<lparr>started := False, sc_base := 0, dense := [], far := []\<rparr>"

definition secondCounts_setSpan :: "int \<Rightarrow> secondCounts \<Rightarrow> secondCounts" where
  "secondCounts_setSpan retention s = s\<lparr>sc_span := (liveRateWindowMinutes retention maxDxWindowMinutes + 5) * 60\<rparr>"

definition zeroBands :: "int list" where
  "zeroBands = replicate clusterBandSlots 0"

definition addCell :: "int list \<Rightarrow> nat \<Rightarrow> int \<Rightarrow> int list" where
  "addCell b slot n = b[slot := b ! slot + n]"

definition secondCounts_add :: "secondCounts \<Rightarrow> int \<Rightarrow> nat \<Rightarrow> int \<Rightarrow> secondCounts \<times> bool" where
  "secondCounts_add s t slot n =
     (let s = (if started s then s else s\<lparr>started := True, sc_base := t - secondCountsSlack, dense := []\<rparr>);
          i = t - sc_base s
      in if i \<ge> 0 \<and> i < sc_span s + secondCountsForward
         then let d = dense s @ replicate (nat (i + 1) - length (dense s)) zeroBands
              in (s\<lparr>dense := d[nat i := addCell (d ! nat i) slot n]\<rparr>, True)
         else case map_of (far s) t of
                None \<Rightarrow> if length (far s) \<ge> secondCountsMaxFar then (s, False)
                        else (s\<lparr>far := AList.update t (addCell zeroBands slot n) (far s)\<rparr>, True)
              | Some b \<Rightarrow> (s\<lparr>far := AList.update t (addCell b slot n) (far s)\<rparr>, True))"

definition secondCounts_trim :: "secondCounts \<Rightarrow> int \<Rightarrow> secondCounts" where
  "secondCounts_trim s now =
     (if \<not> started s \<or> now = 0 then s
      else let keep = now - sc_span s
           in if keep \<le> sc_base s + secondCountsTrimEvery then s
              else let cut = keep - sc_base s
                   in s\<lparr>dense := (if cut \<ge> int (length (dense s)) then [] else drop (nat cut) (dense s)),
                        sc_base := keep, far := filter (\<lambda>(t, b). \<not> t < keep) (far s)\<rparr>)"

definition addBands :: "int list \<Rightarrow> int list \<Rightarrow> int list" where
  "addBands out b = map2 (+) out b"

definition secondCounts_sum :: "secondCounts \<Rightarrow> int \<Rightarrow> int \<Rightarrow> int list" where
  "secondCounts_sum s from to =
     (if \<not> started s \<or> to < from then zeroBands
      else let lo = from - sc_base s; hi = to - sc_base s;
               lo = (if lo < 0 then 0 else lo);
               hi = (if hi \<ge> int (length (dense s)) then int (length (dense s)) - 1 else hi);
               out = foldl (\<lambda>out i. addBands out (dense s ! nat i)) zeroBands [lo .. hi]
           in foldl (\<lambda>out (t, b). if t \<ge> from \<and> t \<le> to then addBands out b else out) out (far s))"

section \<open>Abstraction\<close>

definition sc_ok :: "secondCounts \<Rightarrow> bool" where
  "sc_ok s \<longleftrightarrow> distinct (map fst (far s)) \<and> (\<forall>b\<in>set (dense s). length b = clusterBandSlots) \<and>
     (\<forall>(t, b)\<in>set (far s). length b = clusterBandSlots) \<and> (\<not> started s \<longrightarrow> dense s = [] \<and> far s = [])"

definition dense_at :: "secondCounts \<Rightarrow> int \<Rightarrow> nat \<Rightarrow> int" where
  "dense_at s t j = (if sc_base s \<le> t \<and> t < sc_base s + int (length (dense s)) then dense s ! nat (t - sc_base s) ! j else 0)"

definition far_at :: "secondCounts \<Rightarrow> int \<Rightarrow> nat \<Rightarrow> int" where
  "far_at s t j = (case map_of (far s) t of None \<Rightarrow> 0 | Some b \<Rightarrow> b ! j)"

definition count_at :: "secondCounts \<Rightarrow> int \<Rightarrow> nat \<Rightarrow> int" where
  "count_at s t j = dense_at s t j + far_at s t j"

lemma clusterBandSlots_13 [simp]: "clusterBandSlots = 13"
  by (simp add: clusterBandSlots_def inScopeBandNames_def)

lemma zeroBands_nth [simp]: "j < 13 \<Longrightarrow> zeroBands ! j = 0" "length zeroBands = 13"
  by (simp_all add: zeroBands_def)

lemma addCell_nth: "slot < length b \<Longrightarrow> addCell b slot n ! j = b ! j + (if j = slot then n else 0)"
  by (simp add: addCell_def nth_list_update)

lemma addCell_length [simp]: "length (addCell b slot n) = length b"
  by (simp add: addCell_def)

lemma add_started:
  "secondCounts_add s t slot n = secondCounts_add
     (if started s then s else s\<lparr>started := True, sc_base := t - secondCountsSlack, dense := []\<rparr>) t slot n"
  by (simp add: secondCounts_add_def)

lemma start_count:
  "sc_ok s \<Longrightarrow> \<not> started s \<Longrightarrow> count_at (s\<lparr>started := True, sc_base := b, dense := []\<rparr>) t j = count_at s t j"
  by (simp add: sc_ok_def count_at_def dense_at_def far_at_def)

lemma start_ok: "sc_ok s \<Longrightarrow> \<not> started s \<Longrightarrow> sc_ok (s\<lparr>started := True, sc_base := b, dense := []\<rparr>)"
  by (simp add: sc_ok_def)

lemma add_cases:
  assumes "started s"
  obtains (dense) d where "0 \<le> t - sc_base s" "d = dense s @ replicate (nat (t - sc_base s + 1) - length (dense s)) zeroBands"
      "secondCounts_add s t slot n = (s\<lparr>dense := d[nat (t - sc_base s) := addCell (d ! nat (t - sc_base s)) slot n]\<rparr>, True)"
  | (far) b where "b = (case map_of (far s) t of None \<Rightarrow> zeroBands | Some b \<Rightarrow> b)"
      "secondCounts_add s t slot n = (s\<lparr>far := AList.update t (addCell b slot n) (far s)\<rparr>, True)"
  | (full) "secondCounts_add s t slot n = (s, False)"
proof (cases "t - sc_base s \<ge> 0 \<and> t - sc_base s < sc_span s + secondCountsForward")
  case True
  then show thesis using assms by (intro dense) (auto simp: secondCounts_add_def Let_def)
next
  case False
  show thesis
  proof (cases "map_of (far s) t")
    case None
    then show thesis
      using assms False far [of zeroBands] full
      by (cases "length (far s) \<ge> secondCountsMaxFar") (auto simp: secondCounts_add_def Let_def)
  next
    case (Some b)
    then show thesis using assms False far by (auto simp: secondCounts_add_def Let_def)
  qed
qed

lemma dense_ext:
  assumes "k < length xs + m" "\<forall>b\<in>set xs. length b = 13"
  shows "length ((xs @ replicate m zeroBands) ! k) = 13"
    "j < 13 \<Longrightarrow> (xs @ replicate m zeroBands) ! k ! j = (if k < length xs then xs ! k ! j else 0)"
  using assms by (auto simp: nth_append)

lemma dense_at_from_base:
  "sc_base s \<le> t \<Longrightarrow> dense_at s t j = (if nat (t - sc_base s) < length (dense s) then dense s ! nat (t - sc_base s) ! j else 0)"
  by (auto simp: dense_at_def)

lemma far_update:
  assumes "distinct (map fst f)"
  shows "distinct (map fst (AList.update t b f))" "map_of (AList.update t b f) t' = (if t' = t then Some b else map_of f t')"
    "(t', c) \<in> set (AList.update t b f) \<Longrightarrow> c = b \<or> (t', c) \<in> set f"
proof -
  show d: "distinct (map fst (AList.update t b f))" using assms by (rule distinct_update)
  show m: "map_of (AList.update t b f) t' = (if t' = t then Some b else map_of f t')" for t'
    by (simp add: update_conv')
  show "(t', c) \<in> set (AList.update t b f) \<Longrightarrow> c = b \<or> (t', c) \<in> set f"
  proof -
    assume "(t', c) \<in> set (AList.update t b f)"
    then have "map_of (AList.update t b f) t' = Some c" using d by simp
    then show ?thesis using m [of t'] by (auto split: if_splits dest: map_of_SomeD)
  qed
qed

lemma secondCounts_add_spec:
  assumes ok: "sc_ok s" and slot: "slot < 13"
  shows "sc_ok (fst (secondCounts_add s t slot n))"
    "j < 13 \<Longrightarrow> secondCounts_add s t slot n = (s', True) \<Longrightarrow>
       count_at s' t' j = count_at s t' j + (if t' = t \<and> j = slot then n else 0)"
proof -
  define z where "z = (if started s then s else s\<lparr>started := True, sc_base := t - secondCountsSlack, dense := []\<rparr>)"
  have z: "started z" "sc_ok z" "\<And>u i. count_at z u i = count_at s u i"
    using ok start_count start_ok by (auto simp: z_def)
  have eq: "secondCounts_add s t slot n = secondCounts_add z t slot n" unfolding z_def by (rule add_started)
  have zd: "distinct (map fst (far z))" "\<forall>b\<in>set (dense z). length b = 13" "\<forall>(t, b)\<in>set (far z). length b = 13"
    using z(2) by (auto simp: sc_ok_def)
  have both: "sc_ok (fst (secondCounts_add z t slot n)) \<and>
     (j < 13 \<longrightarrow> secondCounts_add z t slot n = (s', True) \<longrightarrow>
       count_at s' t' j = count_at z t' j + (if t' = t \<and> j = slot then n else 0))"
  proof (rule add_cases [OF z(1), of t slot n], goal_cases)
    case (1 d)
    let ?k = "nat (t - sc_base z)"
    have k: "?k < length d" using 1(1,2) by simp
    have len: "\<forall>b\<in>set d. length b = 13" using zd(2) by (auto simp: 1(2))
    have dnth: "d ! i ! j = (if i < length (dense z) then dense z ! i ! j else 0)" if "i < length d" "j < 13" for i
      using that by (auto simp: 1(2) nth_append)
    have lend: "length (dense z) \<le> length d" by (simp add: 1(2))
    have cell: "length (addCell (d ! ?k) slot n) = 13" using len k by simp
    have "sc_ok (z\<lparr>dense := d[?k := addCell (d ! ?k) slot n]\<rparr>)"
      using z(1,2) len cell by (auto simp: sc_ok_def dest!: set_update_subset_insert [THEN subsetD])
    moreover have "dense_at (z\<lparr>dense := d[?k := addCell (d ! ?k) slot n]\<rparr>) t' j
        = dense_at z t' j + (if t' = t \<and> j = slot then n else 0)" if j: "j < 13"
    proof (cases "t' = t")
      case True
      then show ?thesis
        using k 1(1) dnth [OF k j] slot len by (auto simp: dense_at_from_base addCell_nth)
    next
      case False
      then have "nat (t' - sc_base z) \<noteq> ?k" if "sc_base z \<le> t'" using that 1(1) by auto
      then show ?thesis
        using False dnth [OF _ j, of "nat (t' - sc_base z)"] lend by (auto simp: dense_at_def)
    qed
    ultimately show ?case using 1(3) by (auto simp: count_at_def far_at_def)
  next
    case (2 b)
    have lb: "length b = 13" using 2(1) zd(3) by (auto split: option.splits dest: map_of_SomeD)
    have "sc_ok (z\<lparr>far := AList.update t (addCell b slot n) (far z)\<rparr>)"
      using z(1,2) zd lb far_update(1,3) [OF zd(1)] by (fastforce simp: sc_ok_def)
    moreover have "far_at (z\<lparr>far := AList.update t (addCell b slot n) (far z)\<rparr>) t' j
        = far_at z t' j + (if t' = t \<and> j = slot then n else 0)" if "j < 13"
      using 2(1) lb slot that far_update(2) [OF zd(1)]
      by (auto simp: far_at_def addCell_nth split: option.splits)
    ultimately show ?case using 2(2) by (auto simp: count_at_def dense_at_def)
  next
    case 3
    then show ?case using z by simp
  qed
  show "sc_ok (fst (secondCounts_add s t slot n))" unfolding eq using both by blast
  show "count_at s' t' j = count_at s t' j + (if t' = t \<and> j = slot then n else 0)"
    if "j < 13" "secondCounts_add s t slot n = (s', True)"
    using both that eq z(3) by simp
qed

lemma secondCounts_add_span: "sc_span (fst (secondCounts_add s t slot n)) = sc_span s"
  by (simp add: secondCounts_add_def Let_def split: option.splits)

lemma secondCounts_trim_span: "sc_span (secondCounts_trim s now) = sc_span s"
  by (simp add: secondCounts_trim_def Let_def)

lemma secondCounts_trim_spec:
  assumes ok: "sc_ok s"
  shows "sc_ok (secondCounts_trim s now)"
    "now - sc_span s \<le> t \<Longrightarrow> count_at (secondCounts_trim s now) t j = count_at s t j"
proof -
  let ?keep = "now - sc_span s"
  let ?f = "filter (\<lambda>(t, b). \<not> t < ?keep) (far s)"
  let ?d = "if ?keep - sc_base s \<ge> int (length (dense s)) then [] else drop (nat (?keep - sc_base s)) (dense s)"
  have sp: "secondCounts_trim s now = (if \<not> started s \<or> now = 0 \<or> ?keep \<le> sc_base s + secondCountsTrimEvery then s
      else s\<lparr>dense := ?d, sc_base := ?keep, far := ?f\<rparr>)"
    by (auto simp: secondCounts_trim_def Let_def)
  have sub: "set ?d \<subseteq> set (dense s)" by (auto dest: in_set_dropD)
  have dist: "distinct (map fst ?f)" using ok by (auto simp: sc_ok_def distinct_map_filter)
  have "map_of (filter (\<lambda>(t, b). \<not> t < ?keep) f) t = map_of f t" if "?keep \<le> t" for t and f :: "(int \<times> int list) list"
    using that by (induction f) auto
  then have fmap: "map_of ?f t = map_of (far s) t" if "?keep \<le> t" for t using that by blast
  have main: "sc_ok (s\<lparr>dense := ?d, sc_base := ?keep, far := ?f\<rparr>)" if "started s"
    using ok sub dist that by (auto simp: sc_ok_def)
  then show "sc_ok (secondCounts_trim s now)" using ok by (simp add: sp)
  show "count_at (secondCounts_trim s now) t j = count_at s t j" if t: "?keep \<le> t"
  proof (cases "?keep \<le> sc_base s + secondCountsTrimEvery")
    case False
    then have pos: "0 < ?keep - sc_base s" by (simp add: secondCountsTrimEvery_def)
    have "dense_at (s\<lparr>dense := ?d, sc_base := ?keep, far := ?f\<rparr>) t j = dense_at s t j"
    proof (cases "?keep - sc_base s \<ge> int (length (dense s))")
      case True
      then show ?thesis using t pos by (auto simp: dense_at_def)
    next
      case False
      have "nat (?keep - sc_base s) + nat (t - ?keep) = nat (t - sc_base s)" using t pos by simp
      then show ?thesis using t pos False by (auto simp: dense_at_def)
    qed
    moreover have "far_at (s\<lparr>dense := ?d, sc_base := ?keep, far := ?f\<rparr>) t j = far_at s t j"
      using fmap [OF t] by (simp add: far_at_def)
    ultimately show ?thesis by (simp add: sp count_at_def)
  qed (simp add: sp)
qed

interpretation sc: second_counter count_at sc_ok secondCounts_add secondCounts_trim sc_span
  by unfold_locales
    (simp_all add: secondCounts_add_spec secondCounts_add_span secondCounts_trim_spec secondCounts_trim_span)

lemma reset_count: "sc_ok (secondCounts_reset s)" "count_at (secondCounts_reset s) t j = 0"
  by (simp_all add: secondCounts_reset_def sc_ok_def count_at_def dense_at_def far_at_def)

lemma setSpan_count [simp]: "sc_ok (secondCounts_setSpan r s) = sc_ok s" "count_at (secondCounts_setSpan r s) t j = count_at s t j"
  by (simp_all add: secondCounts_setSpan_def sc_ok_def count_at_def dense_at_def far_at_def)

section \<open>Sums\<close>

lemma addBands_spec [simp]: "length b = 13 \<Longrightarrow> length c = 13 \<Longrightarrow> length (addBands b c) = 13"
  "length b = 13 \<Longrightarrow> length c = 13 \<Longrightarrow> j < 13 \<Longrightarrow> addBands b c ! j = b ! j + c ! j"
  by (simp_all add: addBands_def)

lemma foldl_addBands:
  assumes "\<forall>x\<in>set xs. P x \<longrightarrow> length (g x) = 13" "length z = 13" "j < 13"
  shows "length (foldl (\<lambda>out x. if P x then addBands out (g x) else out) z xs) = 13 \<and>
     foldl (\<lambda>out x. if P x then addBands out (g x) else out) z xs ! j = z ! j + sum_list (map (\<lambda>x. if P x then g x ! j else 0) xs)"
  using assms by (induction xs arbitrary: z) auto

lemma secondCounts_sum_spec:
  assumes ok: "sc_ok s" and j: "j < 13"
  shows "secondCounts_sum s from to ! j = (\<Sum>t\<in>{from..to}. count_at s t j)"
proof (cases "started s \<and> from \<le> to")
  case False
  then have "count_at s t j = 0" if "from \<le> to" for t
    using ok that by (auto simp: sc_ok_def count_at_def dense_at_def far_at_def)
  then show ?thesis using False j by (auto simp: secondCounts_sum_def)
next
  case True
  define lo where "lo = max 0 (from - sc_base s)"
  define hi where "hi = min (to - sc_base s) (int (length (dense s)) - 1)"
  define out where "out = foldl (\<lambda>out i. addBands out (dense s ! nat i)) zeroBands [lo .. hi]"
  have dl: "length (dense s ! nat i) = 13" if "i \<in> set [lo .. hi]" for i
    using ok that by (auto simp: sc_ok_def lo_def hi_def)
  have out: "length out = 13" "out ! j = sum_list (map (\<lambda>i. dense s ! nat i ! j) [lo .. hi])"
    using foldl_addBands [of "[lo .. hi]" "\<lambda>_. True" "\<lambda>i. dense s ! nat i" zeroBands j] dl j
    by (simp_all add: out_def)
  have fl: "\<forall>x\<in>set (far s). (case x of (t, b) \<Rightarrow> from \<le> t \<and> t \<le> to) \<longrightarrow> length (snd x) = 13"
    using ok by (auto simp: sc_ok_def)
  have sm: "secondCounts_sum s from to = foldl (\<lambda>out x. if (case x of (t, b) \<Rightarrow> from \<le> t \<and> t \<le> to) then addBands out (snd x) else out) out (far s)"
    using True by (simp add: secondCounts_sum_def Let_def out_def lo_def hi_def max_def min_def case_prod_unfold)
  have d: "sum_list (map (\<lambda>i. dense s ! nat i ! j) [lo .. hi]) = (\<Sum>t\<in>{from..to}. dense_at s t j)"
  proof -
    have "(\<Sum>t\<in>{from..to}. dense_at s t j) = (\<Sum>t\<in>{lo + sc_base s..hi + sc_base s}. dense_at s t j)"
      by (rule sum.mono_neutral_right) (auto simp: dense_at_def lo_def hi_def)
    also have "\<dots> = (\<Sum>i\<in>{lo..hi}. dense s ! nat i ! j)"
      by (rule sum.reindex_bij_witness [of _ "\<lambda>i. i + sc_base s" "\<lambda>t. t - sc_base s"])
        (auto simp: dense_at_def lo_def hi_def)
    also have "\<dots> = sum_list (map (\<lambda>i. dense s ! nat i ! j) [lo .. hi])"
      by (subst sum_list_distinct_conv_sum_set) simp_all
    finally show ?thesis ..
  qed
  have f: "sum_list (map (\<lambda>x. if (case x of (t, b) \<Rightarrow> from \<le> t \<and> t \<le> to) then snd x ! j else 0) (far s))
      = (\<Sum>t\<in>{from..to}. far_at s t j)"
  proof -
    have dist: "distinct (map fst (far s))" using ok by (simp add: sc_ok_def)
    have "(\<Sum>t\<in>{from..to}. far_at s t j) = (\<Sum>t\<in>fst ` set (far s). if from \<le> t \<and> t \<le> to then far_at s t j else 0)"
    proof -
      have "(\<Sum>t\<in>{from..to}. far_at s t j) = (\<Sum>t\<in>{from..to} \<inter> fst ` set (far s). far_at s t j)"
        by (rule sum.mono_neutral_right) (auto simp: far_at_def split: option.splits dest!: map_of_SomeD intro: rev_image_eqI)
      also have "\<dots> = (\<Sum>t\<in>fst ` set (far s). if from \<le> t \<and> t \<le> to then far_at s t j else 0)"
        by (rule sum.mono_neutral_cong_left) auto
      finally show ?thesis .
    qed
    also have "\<dots> = (\<Sum>x\<in>set (far s). if from \<le> fst x \<and> fst x \<le> to then far_at s (fst x) j else 0)"
      using dist by (simp add: sum.reindex distinct_map)
    also have "\<dots> = (\<Sum>x\<in>set (far s). if from \<le> fst x \<and> fst x \<le> to then snd x ! j else 0)"
      by (rule sum.cong) (use dist in \<open>auto simp: far_at_def\<close>)
    also have "\<dots> = sum_list (map (\<lambda>x. if from \<le> fst x \<and> fst x \<le> to then snd x ! j else 0) (far s))"
      using dist by (subst sum_list_distinct_conv_sum_set) (auto simp: distinct_map)
    finally show ?thesis by (simp add: case_prod_beta)
  qed
  have "secondCounts_sum s from to ! j
      = out ! j + sum_list (map (\<lambda>x. if (case x of (t, b) \<Rightarrow> from \<le> t \<and> t \<le> to) then snd x ! j else 0) (far s))"
    unfolding sm using foldl_addBands [OF fl out(1) j] by blast
  then show ?thesis by (simp add: out(2) d f count_at_def sum.distrib)
qed

end
