(* ===== verification/AreaIndex.thy ===== *)
theory AreaIndex
  imports Hub SecondCounts
begin

text \<open>
  \<^verbatim>\<open>area_index.go\<close>: the incremental index of the history positions an area can match, with
  the per-second cluster counts, and its least-recently-used cache. A request passes a
  window of the hub's history; an entry classifies only the messages that arrived since.
  The entry's mutex makes a lookup atomic; the cache map is an association list with
  distinct keys. Offsets are \<open>uint32\<close>, with the truncation written out; sequence numbers
  are \<open>nat\<close> as in \<open>Hub\<close>.
\<close>

section \<open>Keys and classification\<close>

record areaIndexKey =
  k_x :: int
  k_y :: int
  k_radius :: int
  clusterOK :: bool
  k_cx :: int
  k_cy :: int

definition inArea :: "areaIndexKey \<Rightarrow> int \<Rightarrow> int \<Rightarrow> bool" where
  "inArea k x y \<longleftrightarrow> \<bar>x - k_x k\<bar> \<le> k_radius k \<and> \<bar>y - k_y k\<bar> \<le> k_radius k"

definition end_in :: "(int \<Rightarrow> int \<Rightarrow> bool) \<Rightarrow> string \<Rightarrow> bool" where
  \<comment> \<open>\<open>ok && P(x, y)\<close> for the decoded square of one end\<close>
  "end_in P loc = (case SquareXYFold loc of None \<Rightarrow> False | Some (x, y) \<Rightarrow> P x y)"

definition classify :: "areaIndexKey \<Rightarrow> MQTTMessage \<Rightarrow> bool \<times> int \<times> int" where
  "classify k m =
     (let sl = TrimSpace (SL m); rl = TrimSpace (RL m);
          hit = (end_in (inArea k) sl \<or> end_in (inArea k) rl)
      in if \<not> clusterOK k \<or> sl = [] \<or> rl = [] \<or> \<not> sourceFeedsClusterBaseline (Source m) \<or> isNonConditionsMode (MD m)
         then (hit, -1, 0)
         else let here = (\<lambda>x y. ClusterAnchorXY x y = (k_cx k, k_cy k));
                  n = (if end_in here sl then 1 else 0) + (if end_in here rl then 1 else 0)
              in if n > 0
                 then let slot = feedBandIndex (B m)
                      in if slot < 0 then (hit, slot, 0) else (hit, slot, n)
                 else (hit, -1, n))"

definition wants :: "areaIndexKey \<Rightarrow> MQTTMessage \<Rightarrow> bool" where
  "wants k m = fst (classify k m)"

definition areaIndexMaxRadius :: int where "areaIndexMaxRadius = 6"
definition areaIndexMaxEntries :: nat where "areaIndexMaxEntries = 32"

definition areaIndexKeyFor :: "string \<Rightarrow> bool \<Rightarrow> liveArea option \<Rightarrow> string \<Rightarrow> areaIndexKey option" where
  "areaIndexKeyFor qth surroundings matchArea operatorCluster =
     (let zero = \<lparr>k_x = 0, k_y = 0, k_radius = 0, clusterOK = False, k_cx = 0, k_cy = 0\<rparr>;
          area = (case matchArea of
                    Some a \<Rightarrow> if Radius a > areaIndexMaxRadius then None
                              else Some (zero\<lparr>k_x := area_x a, k_y := area_y a, k_radius := Radius a\<rparr>)
                  | None \<Rightarrow>
                      if IsLocator qth
                      then (case SquareXY (take 4 qth) of None \<Rightarrow> None
                            | Some (x, y) \<Rightarrow>
                                let k = zero\<lparr>k_x := x, k_y := y\<rparr>
                                in Some (if surroundings then k\<lparr>k_radius := 1\<rparr> else k))
                      else None)
      in case area of None \<Rightarrow> None
         | Some k \<Rightarrow> Some (case SquareXY operatorCluster of None \<Rightarrow> k
             | Some (cx, cy) \<Rightarrow> k\<lparr>clusterOK := True, k_cx := cx, k_cy := cy\<rparr>))"

lemma wants_iff: "wants k m \<longleftrightarrow> end_in (inArea k) (TrimSpace (SL m)) \<or> end_in (inArea k) (TrimSpace (RL m))"
  by (simp add: wants_def classify_def Let_def)

lemma classify_slot: "classify k m = (hit, slot, n) \<Longrightarrow> 0 < n \<Longrightarrow> 0 \<le> slot \<and> slot < 13"
  using inScopeBandIndex_range [of "normalizeBand (B m)"]
  by (auto simp: classify_def Let_def feedBandIndex_eq split: if_splits)

lemma end_in_area:
  "k_x k = area_x a \<Longrightarrow> k_y k = area_y a \<Longrightarrow> k_radius k = Radius a \<Longrightarrow> end_in (inArea k) loc = area_contains a loc"
  by (auto simp: end_in_def inArea_def area_contains_def split: option.splits)

lemma areaIndexKeyFor_area:
  assumes "areaIndexKeyFor qth s matchArea cl = Some k"
  obtains a where "(case matchArea of None \<Rightarrow> ownSquareArea qth s | Some b \<Rightarrow> Some b) = Some a"
    "k_x k = area_x a" "k_y k = area_y a" "k_radius k = Radius a"
proof (cases matchArea)
  case None
  then obtain x y where xy: "IsLocator qth" "SquareXY (take 4 qth) = Some (x, y)"
      "k_x k = x" "k_y k = y" "k_radius k = (if s then 1 else 0)"
    using assms by (auto simp: areaIndexKeyFor_def Let_def split: if_splits option.splits)
  then have "SquareXY qth = Some (x, y)" by (simp add: SquareXY_take4)
  then show thesis using ownSquareArea_xy [of qth x y s] that None xy by (metis option.simps(4))
next
  case (Some b)
  then have "k_x k = area_x b" "k_y k = area_y b" "k_radius k = Radius b"
    using assms by (auto simp: areaIndexKeyFor_def Let_def split: if_splits option.splits)
  then show thesis using that Some by simp
qed

lemma match_wants:
  assumes "k_x k = area_x a" "k_y k = area_y a" "k_radius k = Radius a"
    "matchBandEvent m qths (Some a) band lite kb \<noteq> None"
  shows "wants k m"
proof -
  have "area_contains a (TrimSpace (SL m)) \<or> area_contains a (TrimSpace (RL m))"
    using assms(4) by (auto simp: matchBandEvent_def Let_def split: if_splits)
  then show ?thesis by (simp add: wants_iff end_in_area [OF assms(1-3)])
qed

section \<open>Entries\<close>

record areaIndexEntry =
  e_base :: nat
  e_from :: nat
  scanned :: nat
  offs :: "nat list"
  lastUsed :: nat
  cc :: secondCounts
  ccBad :: bool
  ccBadSeq :: nat

definition newEntry :: areaIndexEntry where
  "newEntry = \<lparr>e_base = 0, e_from = 0, scanned = 0, offs = [], lastUsed = 0,
     cc = \<lparr>started = False, sc_span = 0, sc_base = 0, dense = [], far = []\<rparr>, ccBad = False, ccBadSeq = 0\<rparr>"

definition entry_reset :: "areaIndexEntry \<Rightarrow> nat \<Rightarrow> areaIndexEntry" where
  "entry_reset e seq = e\<lparr>e_base := seq, e_from := seq, scanned := seq - 1, offs := [],
     cc := secondCounts_reset (cc e), ccBad := False\<rparr>"

definition needsRebuild :: "areaIndexEntry \<Rightarrow> historyWindow \<Rightarrow> nat \<Rightarrow> bool" where
  "needsRebuild e win newest \<longleftrightarrow>
     scanned e = 0 \<or> firstSeq win < e_from e \<or> firstSeq win > scanned e + 1 \<or>
     u64 (int newest - int (e_base e)) \<ge> 2 ^ 31 \<or> (ccBad e \<and> hubFirst win > ccBadSeq e)"

definition forget :: "areaIndexEntry \<Rightarrow> nat \<Rightarrow> areaIndexEntry" where
  "forget e first =
     (if first > e_from e
      then let cut = sort_Search (length (offs e)) (\<lambda>i. e_base e + offs e ! i \<ge> first);
               e = e\<lparr>offs := drop cut (offs e), e_from := first\<rparr>
           in if scanned e + 1 < e_from e then e\<lparr>scanned := e_from e - 1\<rparr> else e
      else e)"

definition classifyStep :: "areaIndexKey \<Rightarrow> historyWindow \<Rightarrow> areaIndexEntry \<Rightarrow> nat \<Rightarrow> areaIndexEntry" where
  "classifyStep k win e seq =
     (if seq < firstSeq win then e
      else let m = msgs win ! (seq - firstSeq win);
               (hit, slot, cnt) = classify k m;
               e = (if hit then e\<lparr>offs := offs e @ [(seq - e_base e) mod 2 ^ 32]\<rparr> else e)
           in if cnt > 0 \<and> \<not> ccBad e
              then (case secondCounts_add (cc e) (T m) (nat slot) cnt of
                      (c, ok) \<Rightarrow> if ok then e\<lparr>cc := c\<rparr> else e\<lparr>cc := c, ccBad := True, ccBadSeq := seq\<rparr>)
              else e)"

definition entryUpdate :: "int \<Rightarrow> areaIndexKey \<Rightarrow> historyWindow \<Rightarrow> int \<Rightarrow> areaIndexEntry \<Rightarrow> areaIndexEntry" where
  "entryUpdate retention k win now e =
     (let newest = firstSeq win + length (msgs win) - 1;
          e = (if needsRebuild e win newest then entry_reset e (firstSeq win) else e);
          e = e\<lparr>cc := secondCounts_setSpan retention (cc e)\<rparr>;
          e = forget e (hubFirst win);
          e = foldl (classifyStep k win) e [scanned e + 1..<newest + 1];
          e = (if newest > scanned e then e\<lparr>scanned := newest\<rparr> else e)
      in e\<lparr>cc := secondCounts_trim (cc e) now\<rparr>)"

record areaLookup =
  pos :: "nat list option" \<comment> \<open>\<open>None\<close> is \<open>ok = false\<close>: walk the whole window\<close>
  regional :: "int list"
  regionalOK :: bool

definition entryAnswer :: "areaIndexKey \<Rightarrow> historyWindow \<Rightarrow> int \<Rightarrow> int \<Rightarrow> areaIndexEntry \<Rightarrow> areaLookup" where
  "entryAnswer k win liveStart now e =
     (let n = length (msgs win);
          newest = firstSeq win + n - 1;
          res = (if \<not> clusterOK k then \<lparr>pos = None, regional = zeroBands, regionalOK = True\<rparr>
                 else if now \<noteq> 0 \<and> \<not> ccBad e
                 then \<lparr>pos = None, regional = secondCounts_sum (cc e) liveStart now, regionalOK = True\<rparr>
                 else \<lparr>pos = None, regional = zeroBands, regionalOK = False\<rparr>);
          lo = sort_Search (length (offs e)) (\<lambda>i. e_base e + offs e ! i \<ge> firstSeq win);
          hi = sort_Search (length (offs e)) (\<lambda>i. e_base e + offs e ! i > newest);
          matches = take (hi - lo) (drop lo (offs e))
      in if length matches * 2 > n * 1 then res
         else let shift = firstSeq win - e_base e
              in res\<lparr>pos := Some (map (\<lambda>off. (off - shift) mod 2 ^ 32) matches)\<rparr>)"

section \<open>What an entry knows\<close>

text \<open>\<open>g\<close> is the naming of messages by sequence numbers, which the hub keeps stable.\<close>

definition window_ok :: "(nat \<Rightarrow> MQTTMessage) \<Rightarrow> historyWindow \<Rightarrow> bool" where
  "window_ok g win \<longleftrightarrow> 1 \<le> hubFirst win \<and> hubFirst win \<le> firstSeq win \<and> 0 < length (msgs win) \<and>
     length (msgs win) < 2 ^ 31 \<and> (\<forall>i < length (msgs win). msgs win ! i = g (firstSeq win + i))"

definition contrib :: "areaIndexKey \<Rightarrow> MQTTMessage \<Rightarrow> nat \<Rightarrow> int" where
  \<comment> \<open>how many ends of \<open>m\<close> count for band \<open>j\<close> of the cluster\<close>
  "contrib k m j = (case classify k m of (_, slot, n) \<Rightarrow> if 0 < n \<and> nat slot = j then n else 0)"

definition positions_ok :: "areaIndexKey \<Rightarrow> (nat \<Rightarrow> MQTTMessage) \<Rightarrow> areaIndexEntry \<Rightarrow> bool" where
  "positions_ok k g e \<longleftrightarrow> 1 \<le> e_base e \<and> e_base e \<le> e_from e \<and> e_from e \<le> scanned e + 1 \<and>
     scanned e < e_base e + 2 ^ 31 \<and>
     offs e = map (\<lambda>s. s - e_base e) (filter (\<lambda>s. wants k (g s)) [e_from e..<scanned e + 1])"

definition counts_ok :: "areaIndexKey \<Rightarrow> (nat \<Rightarrow> MQTTMessage) \<Rightarrow> int \<Rightarrow> areaIndexEntry \<Rightarrow> bool" where
  "counts_ok k g hz e \<longleftrightarrow> sc_ok (cc e) \<and> (\<not> ccBad e \<longrightarrow> (\<forall>t\<ge>hz. \<forall>j<13.
     count_at (cc e) t j = (\<Sum>s\<in>{e_base e..scanned e}. if T (g s) = t then contrib k (g s) j else 0)))"

definition entry_ok :: "areaIndexKey \<Rightarrow> (nat \<Rightarrow> MQTTMessage) \<Rightarrow> int \<Rightarrow> areaIndexEntry \<Rightarrow> bool" where
  "entry_ok k g hz e \<longleftrightarrow> sc_ok (cc e) \<and> (scanned e = 0 \<or> positions_ok k g e \<and> counts_ok k g hz e)"

lemma newEntry_ok: "entry_ok k g hz newEntry"
  by (simp add: entry_ok_def newEntry_def sc_ok_def)

section \<open>An update keeps the entry right\<close>

lemma offs_sorted: "positions_ok k g e \<Longrightarrow> sorted (offs e)"
proof -
  have "sorted (map (\<lambda>s. s - b) (filter P [i..<j]))" for b i j P
  proof (induction "j - i" arbitrary: i)
    case (Suc n)
    then have "[i..<j] = i # [Suc i..<j]" by (simp add: upt_conv_Cons)
    then show ?case using Suc(1) [of "Suc i"] Suc(2) by (auto intro: diff_le_mono)
  qed simp
  then show "positions_ok k g e \<Longrightarrow> sorted (offs e)" unfolding positions_ok_def by metis
qed

lemma filter_offs:
  assumes "b \<le> i"
  shows "filter (\<lambda>x. P (b + x)) (map (\<lambda>s. s - b) (filter Q [i..<j])) = map (\<lambda>s. s - b) (filter (\<lambda>s. P s \<and> Q s) [i..<j])"
proof -
  have "filter (\<lambda>x. P (b + x)) (map (\<lambda>s. s - b) xs) = map (\<lambda>s. s - b) (filter P xs)" if "\<forall>s\<in>set xs. b \<le> s" for xs
    using that by (induction xs) auto
  then show ?thesis using assms by (simp add: conj_commute)
qed

lemma filter_upt_from: "filter (\<lambda>s. c \<le> s \<and> Q s) [i..<j] = filter Q [max c i..<j]" for c i j :: nat
proof (induction "j - i" arbitrary: i)
  case (Suc n)
  then have ij: "i < j" and e: "[i..<j] = i # [Suc i..<j]" by (simp_all add: upt_conv_Cons)
  have IH: "filter (\<lambda>s. c \<le> s \<and> Q s) [Suc i..<j] = filter Q [max c (Suc i)..<j]" using Suc by simp
  show ?case
  proof (cases "c \<le> i")
    case True
    then have "max c (Suc i) = Suc i" "max c i = i" by simp_all
    then show ?thesis using e IH True by simp
  next
    case False
    then have "max c (Suc i) = c" "max c i = c" by simp_all
    then show ?thesis using e IH False by simp
  qed
qed simp

lemma forget_ok:
  assumes p: "positions_ok k g e" and f: "first \<le> scanned e + 1"
  shows "positions_ok k g (forget e first)" "e_from (forget e first) = max (e_from e) first"
    "scanned (forget e first) = scanned e" "e_base (forget e first) = e_base e" "cc (forget e first) = cc e"
    "ccBad (forget e first) = ccBad e"
proof -
  have drop: "drop (sort_Search (length (offs e)) (\<lambda>i. e_base e + offs e ! i \<ge> first)) (offs e)
      = filter (\<lambda>x. first \<le> e_base e + x) (offs e)"
    by (rule sorted_search_drop) (use offs_sorted [OF p] in \<open>simp add: sorted_map mono_def monotoneI sorted_wrt_iff_nth_less sorted_iff_nth_mono_less\<close>)
  have base: "e_base e \<le> e_from e" using p by (simp add: positions_ok_def)
  show "positions_ok k g (forget e first)"
  proof (cases "first > e_from e")
    case True
    have "filter (\<lambda>x. first \<le> e_base e + x) (offs e)
        = map (\<lambda>s. s - e_base e) (filter (\<lambda>s. wants k (g s)) [first..<scanned e + 1])"
      using p True filter_offs [OF base, of "\<lambda>x. first \<le> x"] filter_upt_from [of first]
      by (simp add: positions_ok_def max_def)
    then show ?thesis using p f True drop by (auto simp: forget_def Let_def positions_ok_def)
  qed (use p in \<open>simp add: forget_def\<close>)
qed (use f in \<open>auto simp: forget_def Let_def\<close>)

lemma classifyStep_ok:
  assumes p: "positions_ok k g e" and c: "counts_ok k g hz e"
    and seq: "scanned e + 1 = seq" "firstSeq win \<le> seq" "msgs win ! (seq - firstSeq win) = g seq" "seq < e_base e + 2 ^ 31"
  defines "e' \<equiv> (classifyStep k win e seq)\<lparr>scanned := seq\<rparr>"
  shows "positions_ok k g e'" "counts_ok k g hz e'"
proof -
  obtain hit slot n where cl: "classify k (g seq) = (hit, slot, n)" by (metis prod_cases3)
  have w: "wants k (g seq) = hit" by (simp add: wants_def cl)
  define e1 where "e1 = (if hit then e\<lparr>offs := offs e @ [(seq - e_base e) mod 2 ^ 32]\<rparr> else e)"
  have e1: "cc e1 = cc e" "ccBad e1 = ccBad e" "e_base e1 = e_base e" "e_from e1 = e_from e"
    by (simp_all add: e1_def)
  have e': "e' = (if n > 0 \<and> \<not> ccBad e
      then (case secondCounts_add (cc e) (T (g seq)) (nat slot) n of
              (c, ok) \<Rightarrow> if ok then e1\<lparr>cc := c\<rparr> else e1\<lparr>cc := c, ccBad := True, ccBadSeq := seq\<rparr>)
      else e1)\<lparr>scanned := seq\<rparr>"
    using seq(2,3) by (cases hit) (simp_all add: e'_def classifyStep_def cl Let_def e1_def split: prod.splits)
  have fields: "offs e' = offs e1" "e_base e' = e_base e" "e_from e' = e_from e" "scanned e' = seq"
    unfolding e' by (auto simp: e1 split: prod.splits)
  have "(seq - e_base e) mod 2 ^ 32 = seq - e_base e" using seq(4) by (intro mod_less) simp
  moreover have "[e_from e..<seq + 1] = [e_from e..<seq] @ [seq]"
    using p seq(1) by (simp add: positions_ok_def)
  ultimately have "offs e' = map (\<lambda>s. s - e_base e) (filter (\<lambda>s. wants k (g s)) [e_from e..<seq + 1])"
    unfolding fields e1_def using p seq(1) w by (auto simp: positions_ok_def)
  then show "positions_ok k g e'"
    using p seq by (simp add: positions_ok_def fields)
  have base: "e_base e \<le> seq" using p seq(1) by (simp add: positions_ok_def)
  have range: "{e_base e..seq} = insert seq {e_base e..scanned e}" using base seq(1) by auto
  have sum: "(\<Sum>s\<in>{e_base e..seq}. if T (g s) = t then contrib k (g s) j else 0)
      = (if T (g seq) = t then contrib k (g seq) j else 0)
        + (\<Sum>s\<in>{e_base e..scanned e}. if T (g s) = t then contrib k (g s) j else 0)" for t j
    unfolding range using seq(1) by (subst sum.insert) auto
  have con: "contrib k (g seq) j = (if 0 < n \<and> nat slot = j then n else 0)" for j by (simp add: contrib_def cl)
  show "counts_ok k g hz e'"
  proof (cases "n > 0 \<and> \<not> ccBad e")
    case False
    then show ?thesis using c unfolding e' counts_ok_def by (auto simp: e1 sum con)
  next
    case True
    then have slot: "nat slot < 13" using classify_slot [OF cl] by auto
    have ok: "sc_ok (cc e)" using c by (simp add: counts_ok_def)
    obtain s' b where a: "secondCounts_add (cc e) (T (g seq)) (nat slot) n = (s', b)" by fastforce
    have ok': "sc_ok s'" using secondCounts_add_spec(1) [OF ok slot, of "T (g seq)" n] a by simp
    show ?thesis
    proof (cases b)
      case False
      then show ?thesis using True ok' a unfolding e' by (simp add: counts_ok_def)
    next
      case b: True
      have "count_at s' t j = (\<Sum>s\<in>{e_base e..seq}. if T (g s) = t then contrib k (g s) j else 0)"
        if "hz \<le> t" "j < 13" for t j
        using secondCounts_add_spec(2) [OF ok slot that(2), of "T (g seq)" n s' t] a b c that True
        unfolding sum con by (auto simp: counts_ok_def)
      then show ?thesis using True ok' a b unfolding e' by (simp add: counts_ok_def e1)
    qed
  qed
qed

lemma classify_run:
  assumes "positions_ok k g e" "counts_ok k g hz e" "firstSeq win \<le> scanned e + 1"
    "\<forall>s. scanned e < s \<longrightarrow> s \<le> newest \<longrightarrow> msgs win ! (s - firstSeq win) = g s" "newest < e_base e + 2 ^ 31"
    "scanned e \<le> newest"
  defines "e' \<equiv> (foldl (classifyStep k win) e [scanned e + 1..<newest + 1])\<lparr>scanned := newest\<rparr>"
  shows "positions_ok k g e' \<and> counts_ok k g hz e' \<and> e_base e' = e_base e \<and> e_from e' = e_from e
    \<and> sc_span (cc e') = sc_span (cc e)"
  unfolding e'_def using assms(1-6)
proof (induction "newest - scanned e" arbitrary: e)
  case 0
  then have "(foldl (classifyStep k win) e [scanned e + 1..<newest + 1])\<lparr>scanned := newest\<rparr> = e" by simp
  then show ?case using 0 by simp
next
  case (Suc n)
  let ?q = "scanned e + 1"
  let ?c = "classifyStep k win e ?q"
  have q: "?q \<le> newest" using Suc(2) by simp
  have scan: "classifyStep k win (x\<lparr>scanned := i\<rparr>) s = (classifyStep k win x s)\<lparr>scanned := i\<rparr>" for x i s
    by (simp add: classifyStep_def Let_def split: prod.splits)
  have scans: "foldl (classifyStep k win) (x\<lparr>scanned := i\<rparr>) ss = (foldl (classifyStep k win) x ss)\<lparr>scanned := i\<rparr>" for x i ss
    by (induction ss arbitrary: x) (auto simp: scan)
  have step: "positions_ok k g (?c\<lparr>scanned := ?q\<rparr>)" "counts_ok k g hz (?c\<lparr>scanned := ?q\<rparr>)"
    using Suc.prems q by (auto intro!: classifyStep_ok)
  have keep: "e_base ?c = e_base e" "e_from ?c = e_from e" "sc_span (cc ?c) = sc_span (cc e)"
    using secondCounts_add_span by (auto simp: classifyStep_def Let_def split: prod.splits) (metis fst_conv)+
  have "[?q..<newest + 1] = ?q # [Suc ?q..<newest + 1]" using q by (simp add: upt_conv_Cons)
  then have split: "(foldl (classifyStep k win) e [?q..<newest + 1])\<lparr>scanned := newest\<rparr>
      = (foldl (classifyStep k win) (?c\<lparr>scanned := ?q\<rparr>) [?q + 1..<newest + 1])\<lparr>scanned := newest\<rparr>"
    unfolding scans by simp
  show ?case
    unfolding split using Suc.hyps(1) [of "?c\<lparr>scanned := ?q\<rparr>"] Suc.hyps(2) Suc.prems q step keep by simp
qed

definition countSpan :: "int \<Rightarrow> int" where
  \<comment> \<open>the span \<open>setSpan\<close> fixes\<close>
  "countSpan retention = sc_span (secondCounts_setSpan retention (cc newEntry))"

lemma span_eq [simp]: "sc_span (secondCounts_setSpan retention s) = countSpan retention"
  by (simp add: countSpan_def secondCounts_setSpan_def)

lemma ok_cc_update:
  "positions_ok k g (e\<lparr>cc := c\<rparr>) = positions_ok k g e"
  "counts_ok k g hz e \<Longrightarrow> sc_ok c \<Longrightarrow> hz \<le> hz' \<Longrightarrow>
     (\<And>t j. hz' \<le> t \<Longrightarrow> j < 13 \<Longrightarrow> count_at c t j = count_at (cc e) t j) \<Longrightarrow> counts_ok k g hz' (e\<lparr>cc := c\<rparr>)"
  by (auto simp: positions_ok_def counts_ok_def)

lemma rebuild_ok:
  assumes e: "entry_ok k g hz e" and w: "window_ok g win"
  defines "newest \<equiv> firstSeq win + length (msgs win) - 1"
  defines "e0 \<equiv> (if needsRebuild e win newest then entry_reset e (firstSeq win) else e)"
  shows "positions_ok k g e0 \<and> counts_ok k g hz e0 \<and> e_from e0 \<le> firstSeq win \<and>
    firstSeq win \<le> scanned e0 + 1 \<and> newest < e_base e0 + 2 ^ 31"
proof -
  have n: "1 \<le> firstSeq win" "0 < length (msgs win)" "length (msgs win) < 2 ^ 31"
    using w unfolding window_ok_def by linarith+
  then have "firstSeq win \<le> newest" unfolding newest_def by linarith
  note n = n this
  show ?thesis
  proof (cases "needsRebuild e win newest")
    case True
    then have "e0 = entry_reset e (firstSeq win)" by (simp add: e0_def)
    moreover have "newest < firstSeq win + 2 ^ 31" using n by (simp add: newest_def)
    ultimately show ?thesis
      using n reset_count [of "cc e"] by (auto simp: entry_reset_def positions_ok_def counts_ok_def)
  next
    case False
    then have e0: "e0 = e" by (simp add: e0_def)
    have nb: "e_from e \<le> firstSeq win" "firstSeq win \<le> scanned e + 1" "u64 (int newest - int (e_base e)) < 2 ^ 31"
      and ok: "positions_ok k g e" "counts_ok k g hz e"
      using False e by (auto simp: needsRebuild_def entry_ok_def)
    have b: "e_base e \<le> newest" "newest < e_base e + 2 ^ 32"
      using ok(1) nb n by (auto simp: positions_ok_def newest_def)
    then have "u64 (int newest - int (e_base e)) = int newest - int (e_base e)" by (intro u64_id) auto
    then have "newest < e_base e + 2 ^ 31" using nb(3) by simp
    then show ?thesis using e0 ok nb by simp
  qed
qed

lemma entryUpdate_ok:
  fixes now retention :: int
  assumes e: "entry_ok k g hz e" and w: "window_ok g win"
  defines "e' \<equiv> entryUpdate retention k win now e" and "newest \<equiv> firstSeq win + length (msgs win) - 1"
  shows "positions_ok k g e' \<and> counts_ok k g (max hz (now - countSpan retention)) e' \<and>
    e_from e' \<le> firstSeq win \<and> newest \<le> scanned e'"
proof -
  define e0 where "e0 = (if needsRebuild e win newest then entry_reset e (firstSeq win) else e)"
  define e1 where "e1 = e0\<lparr>cc := secondCounts_setSpan retention (cc e0)\<rparr>"
  define e2 where "e2 = forget e1 (hubFirst win)"
  define e3 where "e3 = foldl (classifyStep k win) e2 [scanned e2 + 1..<newest + 1]"
  define e4 where "e4 = (if newest > scanned e3 then e3\<lparr>scanned := newest\<rparr> else e3)"
  have e': "e' = e4\<lparr>cc := secondCounts_trim (cc e4) now\<rparr>"
    by (simp add: e'_def entryUpdate_def Let_def e4_def e3_def e2_def e1_def e0_def newest_def)
  have r: "positions_ok k g e0" "counts_ok k g hz e0" "e_from e0 \<le> firstSeq win" "firstSeq win \<le> scanned e0 + 1"
    "newest < e_base e0 + 2 ^ 31"
    using rebuild_ok [OF e w] unfolding e0_def newest_def by blast+
  have hf: "hubFirst win \<le> firstSeq win" using w by (simp add: window_ok_def)
  have e1: "positions_ok k g e1" "counts_ok k g hz e1" "scanned e1 = scanned e0" "e_base e1 = e_base e0" "e_from e1 = e_from e0"
    "sc_span (cc e1) = countSpan retention"
    unfolding e1_def using r ok_cc_update by (auto simp: counts_ok_def)
  note fg = forget_ok [OF e1(1), of "hubFirst win"]
  have le: "hubFirst win \<le> scanned e1 + 1" using hf r(4) e1(3) by simp
  have e2: "positions_ok k g e2" "counts_ok k g hz e2" "scanned e2 = scanned e0" "e_base e2 = e_base e0"
    "e_from e2 \<le> firstSeq win" "sc_span (cc e2) = countSpan retention"
    unfolding e2_def using fg [OF le] e1 r(3) hf by (auto simp: counts_ok_def)
  have e4: "positions_ok k g e4 \<and> counts_ok k g hz e4 \<and> e_from e4 \<le> firstSeq win \<and> newest \<le> scanned e4
      \<and> sc_span (cc e4) = countSpan retention"
  proof (cases "scanned e2 \<le> newest")
    case True
    have "msgs win ! (s - firstSeq win) = g s" if "scanned e2 < s" "s \<le> newest" for s
    proof -
      have "firstSeq win \<le> s" using that e2(3) r(4) by simp
      moreover have "s - firstSeq win < length (msgs win)" using that w calculation by (auto simp: newest_def window_ok_def)
      ultimately show ?thesis using w by (simp add: window_ok_def)
    qed
    then have run: "positions_ok k g (e3\<lparr>scanned := newest\<rparr>) \<and> counts_ok k g hz (e3\<lparr>scanned := newest\<rparr>)
        \<and> e_from (e3\<lparr>scanned := newest\<rparr>) = e_from e2 \<and> sc_span (cc (e3\<lparr>scanned := newest\<rparr>)) = sc_span (cc e2)"
      unfolding e3_def
      using classify_run [OF e2(1,2), of win newest] e2 r(4,5) True by simp
    have "scanned (classifyStep k win x s) = scanned x" for x s
      by (simp add: classifyStep_def Let_def split: prod.splits)
    then have "scanned (foldl (classifyStep k win) x ss) = scanned x" for x ss by (induction ss arbitrary: x) auto
    then have "scanned e3 = scanned e2" by (simp add: e3_def)
    then have "e4 = e3\<lparr>scanned := newest\<rparr>" using True by (auto simp: e4_def)
    then show ?thesis using run e2 by simp
  next
    case False
    then have "e4 = e2" by (simp add: e4_def e3_def)
    then show ?thesis using False e2 by simp
  qed
  have ok4: "sc_ok (cc e4)" using e4 by (simp add: counts_ok_def)
  have "counts_ok k g (max hz (now - countSpan retention)) e'"
    unfolding e' using e4 secondCounts_trim_spec [OF ok4, of now]
    by (intro ok_cc_update(2) [of k g hz]) auto
  then show ?thesis using e4 by (simp add: e' ok_cc_update)
qed

section \<open>The answer\<close>

lemma entryAnswer_pos:
  assumes p: "positions_ok k g e" and w: "window_ok g win" and f: "e_from e \<le> firstSeq win"
    and n: "firstSeq win + length (msgs win) - 1 \<le> scanned e"
    and a: "pos (entryAnswer k win liveStart now e) = Some ps"
  shows "ps = filter (\<lambda>i. wants k (msgs win ! i)) [0..<length (msgs win)]"
proof -
  let ?F = "firstSeq win" and ?n = "length (msgs win)"
  define newest where "newest = ?F + ?n - 1"
  have n0: "0 < ?n" "?n < 2 ^ 31" and nth: "\<And>i. i < ?n \<Longrightarrow> msgs win ! i = g (?F + i)" using w by (auto simp: window_ok_def)
  let ?lo = "sort_Search (length (offs e)) (\<lambda>i. e_base e + offs e ! i \<ge> ?F)"
  let ?hi = "sort_Search (length (offs e)) (\<lambda>i. e_base e + offs e ! i > newest)"
  let ?key = "\<lambda>x. e_base e + x"
  have srt: "sorted (map ?key (offs e))"
    using offs_sorted [OF p] by (simp add: sorted_map mono_def monotoneI sorted_wrt_iff_nth_less sorted_iff_nth_mono_less)
  have lo: "take ?lo (offs e) = filter (\<lambda>x. ?key x < ?F) (offs e)" "drop ?lo (offs e) = filter (\<lambda>x. ?F \<le> ?key x) (offs e)"
    using sorted_search_drop [OF srt] by blast+
  have hi: "take ?hi (offs e) = filter (\<lambda>x. ?key x < Suc newest) (offs e)"
    using sorted_search_drop(2) [OF srt, of "Suc newest"] by (simp add: Suc_le_eq)
  have base: "e_base e \<le> e_from e" using p by (simp add: positions_ok_def)
  have sl: "take (?hi - ?lo) (drop ?lo (offs e)) = filter (\<lambda>x. ?F \<le> ?key x) (filter (\<lambda>x. ?key x < Suc newest) (offs e))"
  proof -
    let ?X = "take ?hi (offs e)"
    have "filter (\<lambda>x. ?F \<le> ?key x) ?X = filter (\<lambda>x. ?F \<le> ?key x) (take ?lo ?X) @ filter (\<lambda>x. ?F \<le> ?key x) (drop ?lo ?X)"
      by (metis append_take_drop_id filter_append)
    moreover have "filter (\<lambda>x. ?F \<le> ?key x) (take ?lo ?X) = []"
    proof -
      have "set (take ?lo ?X) \<subseteq> set (take ?lo (offs e))" by (metis min.commute set_take_subset take_take)
      then show ?thesis unfolding lo(1) by (auto simp: filter_empty_conv)
    qed
    moreover have "filter (\<lambda>x. ?F \<le> ?key x) (drop ?lo ?X) = drop ?lo ?X"
    proof -
      have "set (drop ?lo ?X) \<subseteq> set (drop ?lo (offs e))" by (metis drop_take set_take_subset)
      then show ?thesis unfolding lo(2) by (auto simp: filter_id_conv)
    qed
    ultimately show ?thesis unfolding hi by (simp add: drop_take flip: hi)
  qed
  have "filter (\<lambda>x. ?F \<le> ?key x) (filter (\<lambda>x. ?key x < Suc newest) (offs e))
      = filter (\<lambda>x. ?F \<le> ?key x \<and> ?key x < Suc newest) (offs e)" by (simp add: conj_commute)
  also have "\<dots> = map (\<lambda>s. s - e_base e) (filter (\<lambda>s. ?F \<le> s \<and> s < Suc newest \<and> wants k (g s)) [e_from e..<scanned e + 1])"
    using p filter_offs [OF base, of "\<lambda>s. ?F \<le> s \<and> s < Suc newest"] by (simp add: positions_ok_def conj_assoc)
  also have "filter (\<lambda>s. ?F \<le> s \<and> s < Suc newest \<and> wants k (g s)) [e_from e..<scanned e + 1]
      = filter (\<lambda>s. s < Suc newest \<and> wants k (g s)) [?F..<scanned e + 1]"
    using filter_upt_from [of ?F "\<lambda>s. s < Suc newest \<and> wants k (g s)" "e_from e" "scanned e + 1"] f by (simp add: max_def)
  also have "\<dots> = filter (\<lambda>s. wants k (g s)) [?F..<Suc newest]"
  proof -
    have le: "?F \<le> Suc newest" "Suc newest \<le> scanned e + 1" using n n0(1) unfolding newest_def by linarith+
    then have "[?F..<scanned e + 1] = [?F..<Suc newest] @ [Suc newest..<scanned e + 1]"
      using upt_add_eq_append [OF le(1), of "scanned e + 1 - Suc newest"] by (simp only: le_add_diff_inverse)
    then show ?thesis by (auto simp: filter_empty_conv intro!: filter_cong)
  qed
  finally have matches: "take (?hi - ?lo) (drop ?lo (offs e)) = map (\<lambda>s. s - e_base e) (filter (\<lambda>s. wants k (g s)) [?F..<Suc newest])"
    unfolding sl .
  have "ps = map (\<lambda>off. (off - (?F - e_base e)) mod 2 ^ 32) (take (?hi - ?lo) (drop ?lo (offs e)))"
    using a by (auto simp: entryAnswer_def Let_def newest_def split: if_splits)
  also have "\<dots> = map (\<lambda>s. s - ?F) (filter (\<lambda>s. wants k (g s)) [?F..<Suc newest])"
    unfolding matches map_map o_def
  proof (rule map_cong)
    fix s assume "s \<in> set (filter (\<lambda>s. wants k (g s)) [?F..<Suc newest])"
    then have "?F \<le> s" "s - ?F < 2 ^ 32" using n0 by (auto simp: newest_def)
    then show "(s - e_base e - (?F - e_base e)) mod 2 ^ 32 = s - ?F" using base f by simp
  qed simp
  also have "[?F..<Suc newest] = map (\<lambda>i. i + ?F) [0..<?n]" using n0 by (simp add: newest_def map_add_upt add.commute)
  also have "map (\<lambda>s. s - ?F) (filter (\<lambda>s. wants k (g s)) (map (\<lambda>i. i + ?F) [0..<?n]))
      = filter (\<lambda>i. wants k (g (i + ?F))) [0..<?n]" by (simp add: filter_map o_def)
  also have "\<dots> = filter (\<lambda>i. wants k (msgs win ! i)) [0..<?n]"
    by (rule filter_cong) (use nth in \<open>auto simp: add.commute\<close>)
  finally show ?thesis .
qed

lemma entryAnswer_regional:
  assumes c: "counts_ok k g hz e" and r: "regionalOK (entryAnswer k win liveStart now e)"
    and hz: "hz \<le> liveStart" and j: "j < 13" and now: "now \<noteq> 0"
  shows "regional (entryAnswer k win liveStart now e) ! j
    = (\<Sum>s\<in>{e_base e..scanned e}. if liveStart \<le> T (g s) \<and> T (g s) \<le> now then contrib k (g s) j else 0)"
proof (cases "clusterOK k")
  case False
  have "contrib k m j = 0" for m using False by (simp add: contrib_def classify_def Let_def)
  then have "(\<Sum>s\<in>{e_base e..scanned e}. if liveStart \<le> T (g s) \<and> T (g s) \<le> now then contrib k (g s) j else 0) = 0"
    by (intro sum.neutral) auto
  then show ?thesis using False j by (simp add: entryAnswer_def Let_def)
next
  case True
  then have ok: "\<not> ccBad e" "sc_ok (cc e)" using r c now by (auto simp: entryAnswer_def Let_def counts_ok_def split: if_splits)
  then have "regional (entryAnswer k win liveStart now e) ! j = (\<Sum>t\<in>{liveStart..now}. count_at (cc e) t j)"
    using True now j by (simp add: entryAnswer_def Let_def secondCounts_sum_spec)
  also have "\<dots> = (\<Sum>t\<in>{liveStart..now}. \<Sum>s\<in>{e_base e..scanned e}. if T (g s) = t then contrib k (g s) j else 0)"
    using c ok(1) hz j by (intro sum.cong) (auto simp: counts_ok_def)
  also have "\<dots> = (\<Sum>s\<in>{e_base e..scanned e}. \<Sum>t\<in>{liveStart..now}. if T (g s) = t then contrib k (g s) j else 0)"
    by (rule sum.swap)
  also have "\<dots> = (\<Sum>s\<in>{e_base e..scanned e}. if liveStart \<le> T (g s) \<and> T (g s) \<le> now then contrib k (g s) j else 0)"
    by (rule sum.cong) (simp_all add: sum.delta')
  finally show ?thesis .
qed

section \<open>The cache\<close>

record areaIndexCache =
  ac_m :: "(areaIndexKey \<times> areaIndexEntry) list"
  tick :: nat

definition zeroKey :: areaIndexKey where
  "zeroKey = \<lparr>k_x = 0, k_y = 0, k_radius = 0, clusterOK = False, k_cx = 0, k_cy = 0\<rparr>"

fun oldestScan :: "nat \<Rightarrow> areaIndexKey \<Rightarrow> (areaIndexKey \<times> areaIndexEntry) list \<Rightarrow> areaIndexKey" where
  "oldestScan oldest key [] = key"
| "oldestScan oldest key ((kk, ee) # m) =
     (if lastUsed ee < oldest then oldestScan (lastUsed ee) kk m else oldestScan oldest key m)"

definition oldestKey :: "(areaIndexKey \<times> areaIndexEntry) list \<Rightarrow> areaIndexKey" where
  \<comment> \<open>the eviction scan, over the entries in some order\<close>
  "oldestKey m = oldestScan (2 ^ 64 - 1) zeroKey m"

definition cacheEntry :: "areaIndexCache \<Rightarrow> areaIndexKey \<Rightarrow> areaIndexCache \<times> areaIndexEntry" where
  "cacheEntry c k =
     (let (m, e) = (case map_of (ac_m c) k of
                      Some e \<Rightarrow> (ac_m c, e)
                    | None \<Rightarrow> (if length (ac_m c) \<ge> areaIndexMaxEntries
                               then AList.delete (oldestKey (ac_m c)) (ac_m c) else ac_m c, newEntry));
          e = e\<lparr>lastUsed := tick c + 1\<rparr>
      in (\<lparr>ac_m = AList.update k e m, tick = tick c + 1\<rparr>, e))"

definition cacheLookup ::
    "int \<Rightarrow> areaIndexCache \<Rightarrow> areaIndexKey \<Rightarrow> historyWindow \<Rightarrow> int \<Rightarrow> int \<Rightarrow> areaIndexCache \<times> areaLookup" where
  "cacheLookup retention c k win liveStart now =
     (if length (msgs win) = 0 then (c, \<lparr>pos = None, regional = zeroBands, regionalOK = False\<rparr>)
      else let (c, e) = cacheEntry c k;
               e = entryUpdate retention k win now e
           in (c\<lparr>ac_m := AList.update k e (ac_m c)\<rparr>, entryAnswer k win liveStart now e))"

definition positions :: "int \<Rightarrow> areaIndexCache \<Rightarrow> areaIndexKey \<Rightarrow> historyWindow \<Rightarrow> areaIndexCache \<times> nat list option" where
  "positions retention c k win = (case cacheLookup retention c k win 0 0 of (c, r) \<Rightarrow> (c, pos r))"

definition cache_ok :: "(nat \<Rightarrow> MQTTMessage) \<Rightarrow> int \<Rightarrow> areaIndexCache \<Rightarrow> bool" where
  "cache_ok g hz c \<longleftrightarrow> distinct (map fst (ac_m c)) \<and> length (ac_m c) \<le> areaIndexMaxEntries \<and> tick c < 2 ^ 64 - 1 \<and>
     (\<forall>(k, e)\<in>set (ac_m c). lastUsed e \<le> tick c \<and> entry_ok k g hz e)"

lemma entry_ok_mono: "entry_ok k g hz e \<Longrightarrow> hz \<le> hz' \<Longrightarrow> entry_ok k g hz' e"
  by (auto simp: entry_ok_def counts_ok_def)

lemma entry_ok_used [simp]: "entry_ok k g hz (e\<lparr>lastUsed := t\<rparr>) = entry_ok k g hz e"
  by (simp add: entry_ok_def positions_ok_def counts_ok_def)

lemma oldestScan_keep: "\<forall>(k, e)\<in>set m. b \<le> lastUsed e \<Longrightarrow> oldestScan b key m = key"
  by (induction m) auto

lemma oldestScan_min:
  "\<exists>(k, e)\<in>set m. lastUsed e < b \<Longrightarrow>
     \<exists>e. (oldestScan b key m, e) \<in> set m \<and> (\<forall>(k', e')\<in>set m. lastUsed e \<le> lastUsed e') \<and> lastUsed e < b"
proof (induction m arbitrary: b key)
  case (Cons ke m)
  obtain k e where ke: "ke = (k, e)" by fastforce
  show ?case
  proof (cases "\<exists>(k', e')\<in>set m. lastUsed e' < min b (lastUsed e)")
    case True
    show ?thesis
    proof (cases "lastUsed e < b")
      case lt: True
      then have "\<exists>(k', e')\<in>set m. lastUsed e' < lastUsed e" using True by auto
      from Cons.IH [OF this, of k] obtain x where x: "(oldestScan (lastUsed e) k m, x) \<in> set m"
        "\<forall>(k', e')\<in>set m. lastUsed x \<le> lastUsed e'" "lastUsed x < lastUsed e" by blast
      then show ?thesis using lt ke by (intro exI [of _ x]) auto
    next
      case ge: False
      then have "\<exists>(k', e')\<in>set m. lastUsed e' < b" using True by auto
      from Cons.IH [OF this, of key] obtain x where x: "(oldestScan b key m, x) \<in> set m"
        "\<forall>(k', e')\<in>set m. lastUsed x \<le> lastUsed e'" "lastUsed x < b" by blast
      then show ?thesis using ge ke by (intro exI [of _ x]) auto
    qed
  next
    case False
    then have "lastUsed e < b" "\<forall>(k', e')\<in>set m. lastUsed e \<le> lastUsed e'"
      using Cons.prems ke by (auto simp: not_less min_def split: if_splits)
    then show ?thesis using oldestScan_keep [of m "lastUsed e" k] ke by (intro exI [of _ e]) auto
  qed
qed simp

lemma oldestKey_spec:
  assumes "m \<noteq> []" "\<forall>(k, e)\<in>set m. lastUsed e < 2 ^ 64 - 1"
  obtains e where "(oldestKey m, e) \<in> set m" "\<forall>(k', e')\<in>set m. lastUsed e \<le> lastUsed e'"
proof -
  have "\<exists>(k, e)\<in>set m. lastUsed e < 2 ^ 64 - 1" using assms by (cases m) auto
  from oldestScan_min [OF this, of zeroKey] show thesis using that unfolding oldestKey_def by blast
qed

lemma alist_update_set:
  assumes "distinct (map fst m)"
  shows "set (AList.update k v m) = insert (k, v) {p \<in> set m. fst p \<noteq> k}"
  using assms by (induction m) (auto simp: image_iff)

lemma alist_update_length: "length (AList.update k v m) = (if k \<in> fst ` set m then length m else Suc (length m))"
proof (induction m)
  case (Cons p m)
  show ?case
  proof (cases "fst p = k")
    case True
    then show ?thesis by (cases p) simp
  next
    case False
    then show ?thesis using Cons.IH by (cases p) simp
  qed
qed simp

lemma alist_delete_length:
  assumes "k \<in> fst ` set m"
  shows "length (AList.delete k m) < length m"
proof -
  from assms obtain v where "(k, v) \<in> set m" by auto
  then show ?thesis unfolding AList.delete_eq by (rule length_filter_less) simp
qed

lemma cacheEntry_ok:
  assumes c: "cache_ok g hz c" and t: "tick c < 2 ^ 64 - 2" and r: "cacheEntry c k = (c', e)"
  shows "cache_ok g hz c'" "entry_ok k g hz e" "k \<in> fst ` set (ac_m c')" "lastUsed e \<le> tick c'"
proof -
  define m where "m = (if map_of (ac_m c) k = None \<and> length (ac_m c) \<ge> areaIndexMaxEntries
      then AList.delete (oldestKey (ac_m c)) (ac_m c) else ac_m c)"
  define e0 where "e0 = (case map_of (ac_m c) k of Some e \<Rightarrow> e | None \<Rightarrow> newEntry)"
  have eq: "e = e0\<lparr>lastUsed := tick c + 1\<rparr>" "c' = \<lparr>ac_m = AList.update k e m, tick = tick c + 1\<rparr>"
    using r by (auto simp: cacheEntry_def m_def e0_def Let_def split: option.splits if_splits)
  have cc: "distinct (map fst (ac_m c))" "length (ac_m c) \<le> areaIndexMaxEntries"
    "\<And>k e. (k, e) \<in> set (ac_m c) \<Longrightarrow> lastUsed e \<le> tick c \<and> entry_ok k g hz e"
    using c by (auto simp: cache_ok_def)
  have e0: "entry_ok k g hz e0" using cc(3) newEntry_ok by (auto simp: e0_def split: option.splits dest!: map_of_SomeD)
  then show ok: "entry_ok k g hz e" by (simp add: eq)
  have m: "distinct (map fst m)" "set m \<subseteq> set (ac_m c)"
    using cc(1) by (auto simp: m_def AList.delete_eq distinct_map_filter)
  have len: "k \<notin> fst ` set m \<Longrightarrow> length m < areaIndexMaxEntries"
    and len': "length m \<le> areaIndexMaxEntries"
  proof -
    have del: "length (AList.delete (oldestKey (ac_m c)) (ac_m c)) < length (ac_m c)" if ne: "ac_m c \<noteq> []"
    proof -
      have b: "\<forall>(k, e)\<in>set (ac_m c). lastUsed e < 2 ^ 64 - 1" using cc(3) t by fastforce
      obtain e where "(oldestKey (ac_m c), e) \<in> set (ac_m c)" using oldestKey_spec [OF ne b] by metis
      then show ?thesis by (intro alist_delete_length) force
    qed
    have ne: "length (ac_m c) \<ge> areaIndexMaxEntries \<Longrightarrow> ac_m c \<noteq> []" by (auto simp: areaIndexMaxEntries_def)
    show "length m \<le> areaIndexMaxEntries" using del ne cc(2) by (fastforce simp: m_def)
    show "length m < areaIndexMaxEntries" if k: "k \<notin> fst ` set m"
    proof (cases "map_of (ac_m c) k")
      case None
      then show ?thesis using del ne cc(2) by (fastforce simp: m_def)
    next
      case (Some x)
      then have "(k, x) \<in> set m" by (auto simp: m_def dest: map_of_SomeD)
      then show ?thesis using k by force
    qed
  qed
  show "k \<in> fst ` set (ac_m c')" by (simp add: eq alist_update_set [OF m(1)])
  show "lastUsed e \<le> tick c'" by (simp add: eq)
  have "length (AList.update k e m) \<le> areaIndexMaxEntries" using len len' by (auto simp: alist_update_length)
  moreover have "\<forall>(k', e')\<in>set (AList.update k e m). lastUsed e' \<le> tick c + 1 \<and> entry_ok k' g hz e'"
    using ok cc(3) m(2) by (fastforce simp: alist_update_set [OF m(1)] eq(1))
  ultimately show "cache_ok g hz c'"
    using t distinct_update [OF m(1), of k e] by (simp add: cache_ok_def eq(2))
qed

lemma cacheLookup_ok:
  assumes c: "cache_ok g hz c" and t: "tick c < 2 ^ 64 - 2" and w: "window_ok g win"
    and r: "cacheLookup retention c k win liveStart now = (c', res)"
  shows "cache_ok g (max hz (now - countSpan retention)) c'"
    "pos res = Some ps \<Longrightarrow> ps = filter (\<lambda>i. wants k (msgs win ! i)) [0..<length (msgs win)]"
    "regionalOK res \<Longrightarrow> max hz (now - countSpan retention) \<le> liveStart \<Longrightarrow> now \<noteq> 0 \<Longrightarrow>
       \<exists>a b. a \<le> firstSeq win \<and> firstSeq win + length (msgs win) - 1 \<le> b \<and>
         (\<forall>j<13. regional res ! j
            = (\<Sum>s\<in>{a..b}. if liveStart \<le> T (g s) \<and> T (g s) \<le> now then contrib k (g s) j else 0))"
proof -
  obtain c1 e where e: "cacheEntry c k = (c1, e)" by fastforce
  note ce = cacheEntry_ok [OF c t e]
  let ?e = "entryUpdate retention k win now e" and ?hz = "max hz (now - countSpan retention)"
  have n0: "length (msgs win) \<noteq> 0" using w by (simp add: window_ok_def)
  then have eq: "c' = c1\<lparr>ac_m := AList.update k ?e (ac_m c1)\<rparr>" "res = entryAnswer k win liveStart now ?e"
    using r e by (auto simp: cacheLookup_def Let_def)
  note u = entryUpdate_ok [OF ce(2) w, of retention now]
  have used: "lastUsed ?e = lastUsed e"
  proof -
    have cs: "lastUsed (foldl (classifyStep k win) x ss) = lastUsed x" for x ss
      by (induction ss arbitrary: x) (auto simp: classifyStep_def Let_def split: prod.splits)
    show ?thesis by (simp add: entryUpdate_def Let_def cs forget_def entry_reset_def)
  qed
  have d: "distinct (map fst (ac_m c1))" using ce(1) by (simp add: cache_ok_def)
  have ok: "entry_ok k g ?hz ?e" using u by (simp add: entry_ok_def counts_ok_def)
  have old: "\<forall>(k', e')\<in>set (ac_m c1). lastUsed e' \<le> tick c1 \<and> entry_ok k' g ?hz e'"
    using ce(1) entry_ok_mono by (fastforce simp: cache_ok_def)
  show "cache_ok g ?hz c'"
    using ce ok used old distinct_update [OF d, of k ?e]
    by (auto simp: cache_ok_def eq(1) alist_update_length alist_update_set [OF d])
  show "ps = filter (\<lambda>i. wants k (msgs win ! i)) [0..<length (msgs win)]" if "pos res = Some ps"
    using u that unfolding eq(2) by (intro entryAnswer_pos [OF _ w]) auto
  show "\<exists>a b. a \<le> firstSeq win \<and> firstSeq win + length (msgs win) - 1 \<le> b \<and>
         (\<forall>j<13. regional res ! j
            = (\<Sum>s\<in>{a..b}. if liveStart \<le> T (g s) \<and> T (g s) \<le> now then contrib k (g s) j else 0))"
    if h: "regionalOK res" "?hz \<le> liveStart" "now \<noteq> 0"
  proof (intro exI conjI allI impI)
    show "e_base ?e \<le> firstSeq win" using u by (auto simp: positions_ok_def)
    show "firstSeq win + length (msgs win) - 1 \<le> scanned ?e" using u by simp
    show "regional res ! j = (\<Sum>s\<in>{e_base ?e..scanned ?e}. if liveStart \<le> T (g s) \<and> T (g s) \<le> now then contrib k (g s) j else 0)"
      if "j < 13" for j
      using u h that unfolding eq(2) by (intro entryAnswer_regional) auto
  qed
qed

text \<open>Walking the positions is walking the window, for any evaluation of wanted messages.\<close>

lemma positions_walk:
  assumes "\<And>m. G m \<noteq> None \<Longrightarrow> wants k m" and ps: "ps = filter (\<lambda>i. wants k (ms ! i)) [0..<length ms]"
  shows "List.map_filter G (map (\<lambda>i. ms ! i) ps) = List.map_filter G ms"
proof -
  have "List.map_filter G (map (\<lambda>i. ms ! i) (filter (\<lambda>i. wants k (ms ! i)) is)) = List.map_filter G (map (\<lambda>i. ms ! i) is)" for "is"
    using assms(1) by (induction "is") (auto simp: map_filter_simps split: option.splits)
  then show ?thesis by (simp add: ps map_nth)
qed

end
