(* ===== verification/Cache.thy ===== *)
theory Cache
  imports Prelude
begin

text \<open>
  The interface of the program's time-bounded caches: a keyed store whose entries age out.
  \<open>ttl_cache\<close> is what every client may rely on (a lookup answers from a fresh entry and from
  nothing else, other keys are at most evicted); \<open>keeping_cache\<close> adds that what was just
  stored is there. \<^verbatim>\<open>live_area.go\<close> provides the second, \<^verbatim>\<open>history.go\<close> only the first.
\<close>

section \<open>Operations\<close>

datatype ('k, 'e) cache_op = Lookup 'k int | Store 'k 'e int

text \<open>The entry last stored under a key.\<close>

fun lastStore :: "('k, 'e) cache_op list \<Rightarrow> 'k \<Rightarrow> 'e option" where
  "lastStore [] k = None"
| "lastStore (Lookup k' now # ops) k = lastStore ops k"
| "lastStore (Store k' e now # ops) k = (case lastStore ops k of Some e' \<Rightarrow> Some e' | None \<Rightarrow> if k' = k then Some e else None)"

lemma lastStore_append:
  "lastStore (ops @ ops') k = (case lastStore ops' k of Some e \<Rightarrow> Some e | None \<Rightarrow> lastStore ops k)"
  by (induction ops k rule: lastStore.induct) (auto split: option.splits)

text \<open>A run of operations on a cache given by its lookup and its store.\<close>

fun cache_step :: "('s \<Rightarrow> 'k \<Rightarrow> int \<Rightarrow> 's \<times> 'a) \<Rightarrow> ('s \<Rightarrow> 'k \<Rightarrow> 'e \<Rightarrow> int \<Rightarrow> 's) \<Rightarrow> 's \<Rightarrow> ('k, 'e) cache_op \<Rightarrow> 's" where
  "cache_step lookup store s (Lookup k now) = fst (lookup s k now)"
| "cache_step lookup store s (Store k e now) = store s k e now"

definition cache_run :: "('s \<Rightarrow> 'k \<Rightarrow> int \<Rightarrow> 's \<times> 'a) \<Rightarrow> ('s \<Rightarrow> 'k \<Rightarrow> 'e \<Rightarrow> int \<Rightarrow> 's) \<Rightarrow> 's \<Rightarrow> ('k, 'e) cache_op list \<Rightarrow> 's" where
  "cache_run lookup store = foldl (cache_step lookup store)"

lemma cache_run_simps [simp]:
  "cache_run lookup store s [] = s"
  "cache_run lookup store s (op # ops) = cache_run lookup store (cache_step lookup store s op) ops"
  "cache_run lookup store s (ops @ [op]) = cache_step lookup store (cache_run lookup store s ops) op"
  by (simp_all add: cache_run_def)

section \<open>The interface\<close>

locale ttl_cache =
  fixes inv :: "'s \<Rightarrow> bool"
    and entryOf :: "'s \<Rightarrow> 'k \<Rightarrow> 'e option"
    and fresh :: "'e \<Rightarrow> int \<Rightarrow> bool"
    and lookup :: "'s \<Rightarrow> 'k \<Rightarrow> int \<Rightarrow> 's \<times> 'e option"
    and store :: "'s \<Rightarrow> 'k \<Rightarrow> 'e \<Rightarrow> int \<Rightarrow> 's"
    and room :: "'s \<Rightarrow> nat"
    and limit :: nat
  assumes lookup_inv: "inv s \<Longrightarrow> inv (fst (lookup s k now))"
    and lookup_answer: "inv s \<Longrightarrow>
      snd (lookup s k now) = (case entryOf s k of None \<Rightarrow> None | Some e \<Rightarrow> if fresh e now then Some e else None)"
    and lookup_entry: "inv s \<Longrightarrow>
      entryOf (fst (lookup s k now)) k' = entryOf s k' \<or> entryOf (fst (lookup s k now)) k' = None"
    and lookup_fresh: "inv s \<Longrightarrow> entryOf s k' = Some e \<Longrightarrow> fresh e now \<Longrightarrow> entryOf (fst (lookup s k now)) k' = Some e"
    and store_inv: "inv s \<Longrightarrow> inv (store s k e now)"
    and store_entry: "inv s \<Longrightarrow> entryOf (store s k e now) k \<in> {Some e, None}"
    and store_other: "inv s \<Longrightarrow> k' \<noteq> k \<Longrightarrow> entryOf (store s k e now) k' \<in> {entryOf s k', None}"
    and bounded: "inv s \<Longrightarrow> room s \<le> limit"
begin

lemma step_inv: "inv s \<Longrightarrow> inv (cache_step lookup store s op)"
  by (cases op) (simp_all add: lookup_inv store_inv)

lemma step_entry:
  assumes "inv s" "entryOf (cache_step lookup store s op) k = Some e"
  shows "lastStore [op] k = Some e \<or> lastStore [op] k = None \<and> entryOf s k = Some e"
proof (cases op)
  case (Lookup k' now)
  then show ?thesis using assms lookup_entry [OF assms(1), of k' now k] by auto
next
  case (Store k' e' now)
  then show ?thesis
    using assms store_entry [OF assms(1), of k' e' now] store_other [OF assms(1), of k k' e' now]
    by (cases "k' = k") auto
qed

lemma run_inv: "inv s \<Longrightarrow> inv (cache_run lookup store s ops)"
  by (induction ops arbitrary: s) (simp_all add: step_inv)

lemma run_entry:
  assumes "inv s" "entryOf (cache_run lookup store s ops) k = Some e"
  shows "lastStore ops k = Some e \<or> lastStore ops k = None \<and> entryOf s k = Some e"
  using assms
proof (induction ops arbitrary: e rule: rev_induct)
  case (snoc op ops)
  show ?case
    using step_entry [OF run_inv [OF snoc.prems(1)], of ops op k e] snoc.prems(2) snoc.IH [OF snoc.prems(1), of e]
    by (auto simp: lastStore_append split: option.splits)
qed simp

text \<open>A hit is the entry last stored under the key, still fresh.\<close>

lemma hit_is_last_store:
  assumes "inv s" "\<And>k. entryOf s k = None"
    and hit: "snd (lookup (cache_run lookup store s ops) k now) = Some e"
  shows "lastStore ops k = Some e \<and> fresh e now"
proof -
  from hit have e: "entryOf (cache_run lookup store s ops) k = Some e" "fresh e now"
    using lookup_answer [OF run_inv [OF assms(1)], of ops k now] by (auto split: option.splits if_splits)
  then show ?thesis using run_entry [OF assms(1) e(1)] assms(2) by simp
qed

lemma run_bounded: "inv s \<Longrightarrow> room (cache_run lookup store s ops) \<le> limit"
  by (rule bounded) (rule run_inv)

end

locale keeping_cache = ttl_cache +
  assumes store_keeps: "inv s \<Longrightarrow> entryOf (store s k e now) k = Some e"
begin

text \<open>An answer just stored is repeated, for as long as it is fresh, until the next store.\<close>

lemma answer_repeats:
  assumes "inv s" "fresh e now'" "\<forall>op\<in>set ops. \<exists>k' t. op = Lookup k' t \<and> t \<le> now'"
    and mono: "\<And>t. t \<le> now' \<Longrightarrow> fresh e t"
  shows "snd (lookup (cache_run lookup store (store s k e now) ops) k now') = Some e"
proof -
  have "inv (store s k e now)" by (rule store_inv) (rule assms(1))
  moreover have "entryOf (cache_run lookup store (store s k e now) ops) k = Some e"
    using assms(3)
  proof (induction ops rule: rev_induct)
    case Nil
    then show ?case by (simp add: store_keeps assms(1))
  next
    case (snoc op ops)
    then obtain k' t where op: "op = Lookup k' t" "t \<le> now'" by auto
    from snoc have "entryOf (cache_run lookup store (store s k e now) ops) k = Some e" by simp
    with lookup_fresh [OF run_inv [OF store_inv [OF assms(1)]] this mono [OF op(2)]] show ?case
      by (simp add: op(1))
  qed
  ultimately show ?thesis using lookup_answer [OF run_inv] assms(2) by simp
qed

end

end
