(* ===== verification/Assoc.thy ===== *)
theory Assoc
  imports Prelude "HOL-Library.AList"
begin

text \<open>
  Association lists as the model's Go maps: facts on update, delete and filtering that the
  caches, limiters and stores share, collected as \<open>assoc\<close>.
\<close>

named_theorems assoc

lemma alist_update_subset: "set (AList.update k v al) \<subseteq> insert (k, v) (set al)"
  by (induction al) auto

lemma alist_update_mem: "x \<in> set (AList.update k v al) \<Longrightarrow> x = (k, v) \<or> x \<in> set al"
  using alist_update_subset by fast

lemma map_fst_update [assoc]:
  "map fst (AList.update k v al) = (if k \<in> fst ` set al then map fst al else map fst al @ [k])"
  by (simp add: update_keys)

lemma length_update [assoc]: "length (AList.update k v al) = (if k \<in> fst ` set al then length al else Suc (length al))"
  by (induction al) auto

lemma distinct_keys_update [assoc]: "distinct (map fst (AList.update k v al)) = distinct (map fst al)"
  by (induction al) (auto simp: dom_update)

lemma update_new: "k \<notin> fst ` set al \<Longrightarrow> AList.update k v al = al @ [(k, v)]"
  by (induction al) auto

lemma map_of_update [assoc]: "map_of (AList.update k v al) k' = (if k' = k then Some v else map_of al k')"
  by (simp add: update_conv')

lemma distinct_keys_filter [assoc]: "distinct (map fst al) \<Longrightarrow> distinct (map fst (filter P al))"
  by (rule distinct_map_filter)

lemma map_of_filter [assoc]: "distinct (map fst al) \<Longrightarrow>
    map_of (filter P al) k = (case map_of al k of Some v \<Rightarrow> if P (k, v) then Some v else None | None \<Rightarrow> None)"
  by (induction al) (auto split: option.splits dest: map_of_SomeD simp: image_iff)

lemma map_of_delete [assoc]: "map_of (AList.delete k al) k' = (if k' = k then None else map_of al k')"
  by (simp add: delete_conv')

lemma delete_mem [assoc]: "x \<in> set (AList.delete k al) \<longleftrightarrow> x \<in> set al \<and> fst x \<noteq> k"
  by (auto simp: AList.delete_eq)

lemma keys_delete [assoc]: "fst ` set (AList.delete k al) = fst ` set al - {k}"
  by (force simp: delete_mem)

lemma distinct_keys_delete [assoc]: "distinct (map fst al) \<Longrightarrow> distinct (map fst (AList.delete k al))"
  by (simp add: AList.delete_eq distinct_map_filter)

lemma length_delete [assoc]:
  "distinct (map fst al) \<Longrightarrow> length (AList.delete k al) = (if k \<in> fst ` set al then length al - 1 else length al)"
proof (induction al)
  case (Cons p al)
  then show ?case by (cases al) (auto simp: image_iff)
qed simp

lemma delete_absent: "k \<notin> fst ` set al \<Longrightarrow> AList.delete k al = al"
  by (induction al) auto

end
