(* ===== verification/LiveArea.thy ===== *)
theory LiveArea
  imports Stream Cache Assoc
begin

text \<open>
  The adaptive area of interest of the live views, from \<^verbatim>\<open>cmd/horstreporter/live_area.go\<close>:
  the explicit area of a \<open>rings=N\<close> request, the radius decision of \<open>rings=auto\<close> on the hub
  history, and the cache of decisions. The radius decision is related to the plain counts of
  links with an end in the block; the cache interprets \<open>keeping_cache\<close>. The Go maps iterate
  in no particular order; the lists here fix one, and every use is a sum or a count.
\<close>

section \<open>Parameters of a request\<close>

definition liveAreaMaxRadius :: nat where "liveAreaMaxRadius = 3"
definition liveAreaMinBands :: nat where "liveAreaMinBands = 3"
definition liveAreaFullSampleLinks :: int where "liveAreaFullSampleLinks = 25"
definition liveAreaDecisionMinutes :: int where "liveAreaDecisionMinutes = 20"
definition liveAreaCacheTTLSeconds :: int where "liveAreaCacheTTLSeconds = 600"
definition liveAreaUndecidedTTLSeconds :: int where "liveAreaUndecidedTTLSeconds = 60"
definition liveAreaCacheMaxEntries :: nat where "liveAreaCacheMaxEntries = 1024"
definition maxAreaRings :: int where "maxAreaRings = 30"
definition defaultDxCwViableMinDb :: int where "defaultDxCwViableMinDb = -15"

definition widenedBand :: "liveArea option \<Rightarrow> string \<Rightarrow> bool" where
  "widenedBand a band =
     (case a of None \<Rightarrow> False | Some a \<Rightarrow> Widened a \<and> baseLinks a band < liveAreaFullSampleLinks)"

definition explicitLiveArea :: "string \<Rightarrow> int \<Rightarrow> liveArea option" where
  "explicitLiveArea qth rings =
     (case SquareXY qth of
        None \<Rightarrow> None
      | Some (x, y) \<Rightarrow>
          if rings \<le> 0 then None
          else let rings = (if rings > maxAreaRings then maxAreaRings else rings)
               in Some \<lparr>Centre = take 4 qth, BaseRadius = rings, Radius = rings, Widened = False,
                    area_x = x, area_y = y, baseLinks = (\<lambda>_. 0)\<rparr>)"

definition parseRingsParam :: "query \<Rightarrow> int \<times> bool" where
  "parseRingsParam q =
     (let raw = ToLower (TrimSpace (q ''rings''))
      in if raw = ''auto'' then (0, True)
         else case Atoi raw of
                None \<Rightarrow> (0, False)
              | Some v \<Rightarrow> if v < 0 then (0, False)
                          else if v > maxAreaRings then (maxAreaRings, False) else (v, False))"

section \<open>The radius decision\<close>

text \<open>
  One pass of the counting loop: the band of the message and the distance of its nearer end,
  \<open>None\<close> where the loop continues.
\<close>

definition nearerEnd :: "int \<Rightarrow> int \<Rightarrow> int \<Rightarrow> int \<Rightarrow> int \<Rightarrow> int \<Rightarrow> int" where
  "nearerEnd cx cy x1 y1 x2 y2 = min (max \<bar>x1 - cx\<bar> \<bar>y1 - cy\<bar>) (max \<bar>x2 - cx\<bar> \<bar>y2 - cy\<bar>)"

definition linkRing :: "int \<Rightarrow> int \<Rightarrow> int \<Rightarrow> int \<Rightarrow> MQTTMessage \<Rightarrow> (string \<times> nat) option" where
  "linkRing cx cy cutoff now m =
     (if T m < cutoff \<or> T m > now \<or> RP m < defaultDxCwViableMinDb then None
      else if isNonConditionsMode (MD m) \<or> \<not> feedsClusterBaseline m then None
      else let band = normalizeBand (B m)
           in if band = [] \<or> \<not> bandInScope band then None
              else case SquareXY (ToUpper (TrimSpace (SL m))) of
                     None \<Rightarrow> None
                   | Some (x1, y1) \<Rightarrow>
                     (case SquareXY (ToUpper (TrimSpace (RL m))) of
                        None \<Rightarrow> None
                      | Some (x2, y2) \<Rightarrow>
                          let d = nearerEnd cx cy x1 y1 x2 y2
                          in if d > int liveAreaMaxRadius then None else Some (band, nat d)))"

definition countLink :: "(string \<times> nat) option \<Rightarrow> (string \<times> int list) list \<Rightarrow> (string \<times> int list) list" where
  "countLink l counts =
     (case l of
        None \<Rightarrow> counts
      | Some (band, d) \<Rightarrow>
          let c = (case map_of counts band of None \<Rightarrow> replicate (liveAreaMaxRadius + 1) 0 | Some c \<Rightarrow> c)
          in AList.update band (c[d := c ! d + 1]) counts)"

definition cum :: "int list \<Rightarrow> nat \<Rightarrow> int" where
  "cum c r = sum_list (take (r + 1) c)"

definition fullBands :: "(string \<times> int list) list \<Rightarrow> nat \<Rightarrow> nat" where
  "fullBands counts r = length (filter (\<lambda>(band, c). cum c r \<ge> liveAreaFullSampleLinks) counts)"

definition chooseRadius :: "(string \<times> int list) list \<Rightarrow> nat \<Rightarrow> nat" where
  "chooseRadius counts base =
     (case find (\<lambda>r. fullBands counts r \<ge> liveAreaMinBands) [base ..< liveAreaMaxRadius + 1] of
        None \<Rightarrow> liveAreaMaxRadius
      | Some r \<Rightarrow> r)"

definition resolveLiveAreaFrom ::
    "int \<Rightarrow> string \<Rightarrow> bool \<Rightarrow> int \<Rightarrow> MQTTMessage list \<Rightarrow> liveArea option \<times> bool" where
  \<comment> \<open>\<open>since\<close> is \<open>liveHistoryCompleteSince\<close>\<close>
  "resolveLiveAreaFrom since qth surroundings now history =
     (case SquareXY qth of
        None \<Rightarrow> (None, False)
      | Some (cx, cy) \<Rightarrow>
          let base = (if surroundings then 1 else 0 :: nat);
              area = \<lparr>Centre = take 4 qth, BaseRadius = int base, Radius = int base, Widened = False,
                area_x = cx, area_y = cy, baseLinks = (\<lambda>_. 0)\<rparr>;
              cutoff = now - liveAreaDecisionMinutes * 60
          in if since > cutoff \<and> since < now then (Some area, False)
             else let counts = fold (\<lambda>m. countLink (linkRing cx cy cutoff now m)) history [];
                      links = sum_list (map (\<lambda>(band, c). cum c liveAreaMaxRadius) counts);
                      area = area\<lparr>baseLinks := (\<lambda>band. case map_of counts band of None \<Rightarrow> 0 | Some c \<Rightarrow> cum c base)\<rparr>
                  in if links < liveAreaFullSampleLinks then (Some area, False)
                     else let radius = chooseRadius counts base
                          in (Some (area\<lparr>Radius := int radius, Widened := radius > base\<rparr>), True))"

section \<open>What the counts are\<close>

definition linkWithin :: "int \<Rightarrow> int \<Rightarrow> int \<Rightarrow> int \<Rightarrow> string \<Rightarrow> nat \<Rightarrow> MQTTMessage \<Rightarrow> bool" where
  \<comment> \<open>a link of the decision's population, on the band, with an end within \<open>r\<close> rings\<close>
  "linkWithin cx cy cutoff now band r m \<longleftrightarrow> (\<exists>d\<le>r. linkRing cx cy cutoff now m = Some (band, d))"

definition linksWithin :: "int \<Rightarrow> int \<Rightarrow> int \<Rightarrow> int \<Rightarrow> MQTTMessage list \<Rightarrow> string \<Rightarrow> nat \<Rightarrow> nat" where
  "linksWithin cx cy cutoff now history band r = length (filter (linkWithin cx cy cutoff now band r) history)"

definition ring_counts :: "(string \<times> int list) list \<Rightarrow> bool" where
  "ring_counts counts \<longleftrightarrow> distinct (map fst counts) \<and> (\<forall>(band, c)\<in>set counts. length c = 4)"

definition cumOf :: "(string \<times> int list) list \<Rightarrow> string \<Rightarrow> nat \<Rightarrow> int" where
  "cumOf counts band r = (case map_of counts band of None \<Rightarrow> 0 | Some c \<Rightarrow> cum c r)"

lemma linkRing_le: "linkRing cx cy cutoff now m = Some (band, d) \<Longrightarrow> d \<le> 3"
  by (auto simp: linkRing_def liveAreaMaxRadius_def Let_def nat_le_iff split: if_splits option.splits)

lemma sum_list_update_int: "d < length (xs :: int list) \<Longrightarrow> sum_list (xs[d := v]) = sum_list xs + v - xs ! d"
  by (induction xs arbitrary: d) (auto simp: nth_Cons split: nat.splits)

lemma cum_update:
  assumes "d < length c"
  shows "cum (c[d := c ! d + 1]) r = cum c r + (if d \<le> r then 1 else 0)"
proof (cases "d \<le> r")
  case True
  then have "take (r + 1) (c[d := c ! d + 1]) = (take (r + 1) c)[d := take (r + 1) c ! d + 1]"
    by (simp add: take_update_swap)
  moreover have "d < length (take (r + 1) c)" using True assms by simp
  ultimately show ?thesis using True by (simp add: cum_def sum_list_update_int)
next
  case False
  then show ?thesis by (simp add: cum_def)
qed

lemma cum_zero [simp]: "cum (replicate n 0) r = 0"
  by (simp add: cum_def take_replicate sum_list_replicate)

lemma ring_counts_update: "ring_counts counts \<Longrightarrow> length c = 4 \<Longrightarrow> ring_counts (AList.update band c counts)"
  using alist_update_subset [of band c counts] by (fastforce simp: ring_counts_def distinct_update)

lemma countLink_ok:
  assumes "ring_counts counts" and "\<And>band d. l = Some (band, d) \<Longrightarrow> d \<le> 3"
  shows "ring_counts (countLink l counts)"
    and "cumOf (countLink l counts) band r = cumOf counts band r + (case l of Some (b, d) \<Rightarrow> if b = band \<and> d \<le> r then 1 else 0 | None \<Rightarrow> 0)"
proof -
  have len: "length c = 4" if "map_of counts b = Some c" for b c
    using assms(1) map_of_SomeD [OF that] by (auto simp: ring_counts_def)
  show "ring_counts (countLink l counts)"
    using assms(1) len
    by (auto simp: countLink_def Let_def liveAreaMaxRadius_def ring_counts_update split: option.splits)
  show "cumOf (countLink l counts) band r = cumOf counts band r + (case l of Some (b, d) \<Rightarrow> if b = band \<and> d \<le> r then 1 else 0 | None \<Rightarrow> 0)"
  proof (cases l)
    case (Some p)
    obtain b d where p: "p = (b, d)" by fastforce
    with assms(2) Some have "d < 4" by force
    then show ?thesis
      using len Some p cum_update [of d "replicate 4 0" r] cum_zero [of 4 r]
      by (cases "map_of counts b") (auto simp: cumOf_def countLink_def Let_def liveAreaMaxRadius_def update_conv' cum_update simp del: cum_zero)
  qed (simp add: countLink_def)
qed

lemma countLinks:
  assumes "ring_counts counts"
  shows "ring_counts (fold (\<lambda>m. countLink (linkRing cx cy cutoff now m)) history counts) \<and>
    cumOf (fold (\<lambda>m. countLink (linkRing cx cy cutoff now m)) history counts) band r
      = cumOf counts band r + int (linksWithin cx cy cutoff now history band r)"
  using assms
proof (induction history arbitrary: counts)
  case (Cons m history)
  have ok: "ring_counts (countLink (linkRing cx cy cutoff now m) counts)"
    "cumOf (countLink (linkRing cx cy cutoff now m) counts) band r = cumOf counts band r
       + (case linkRing cx cy cutoff now m of Some (b, d) \<Rightarrow> if b = band \<and> d \<le> r then 1 else 0 | None \<Rightarrow> 0)"
    using countLink_ok [OF Cons.prems, of "linkRing cx cy cutoff now m"] linkRing_le by blast+
  show ?case
    using Cons.IH [OF ok(1)] ok(2)
    by (auto simp: linksWithin_def linkWithin_def split: option.splits)
qed (simp add: linksWithin_def)


section \<open>The decision meets its description\<close>

lemma cumOf_links:
  "cumOf (fold (\<lambda>m. countLink (linkRing cx cy cutoff now m)) history []) band r
    = int (linksWithin cx cy cutoff now history band r)"
  "ring_counts (fold (\<lambda>m. countLink (linkRing cx cy cutoff now m)) history [])"
  using countLinks [of "[]"] by (auto simp: ring_counts_def cumOf_def)

lemma fullBands_card:
  assumes "ring_counts counts"
  shows "fullBands counts r = card {band. cumOf counts band r \<ge> liveAreaFullSampleLinks}"
proof -
  let ?full = "filter (\<lambda>(band, c). cum c r \<ge> liveAreaFullSampleLinks) counts"
  have d: "distinct (map fst counts)" using assms by (simp add: ring_counts_def)
  then have "distinct (map fst ?full)" by (metis distinct_map_filter)
  then have "fullBands counts r = card (fst ` set ?full)"
    by (metis fullBands_def distinct_card length_map list.set_map)
  also have "fst ` set ?full = {band. cumOf counts band r \<ge> liveAreaFullSampleLinks}"
  proof (intro set_eqI iffI)
    fix b assume "b \<in> fst ` set ?full"
    then obtain c where "(b, c) \<in> set counts" "cum c r \<ge> liveAreaFullSampleLinks" by auto
    then show "b \<in> {band. cumOf counts band r \<ge> liveAreaFullSampleLinks}" using d by (simp add: cumOf_def)
  next
    fix b assume "b \<in> {band. cumOf counts band r \<ge> liveAreaFullSampleLinks}"
    then obtain c where "map_of counts b = Some c" "cum c r \<ge> liveAreaFullSampleLinks"
      by (auto simp: cumOf_def liveAreaFullSampleLinks_def split: option.splits)
    then show "b \<in> fst ` set ?full" by (force dest: map_of_SomeD)
  qed
  finally show ?thesis .
qed

lemma chooseRadius_spec:
  assumes "base \<le> 3"
  shows "base \<le> chooseRadius counts base \<and> chooseRadius counts base \<le> 3 \<and>
    (\<forall>r. base \<le> r \<and> r < chooseRadius counts base \<longrightarrow> fullBands counts r < 3) \<and>
    (chooseRadius counts base < 3 \<longrightarrow> fullBands counts (chooseRadius counts base) \<ge> 3)"
proof (cases "find (\<lambda>r. fullBands counts r \<ge> 3) [base ..< 4]")
  case None
  then have "fullBands counts r < 3" if "base \<le> r" "r < 4" for r
    using that by (auto simp: find_None_iff not_le)
  moreover have "chooseRadius counts base = 3"
    using None by (simp add: chooseRadius_def liveAreaMinBands_def liveAreaMaxRadius_def)
  ultimately show ?thesis using assms by simp
next
  case (Some r)
  then obtain i where i: "i < length [base..<4]" "fullBands counts ([base..<4] ! i) \<ge> 3" "r = [base..<4] ! i"
    "\<forall>j<i. \<not> fullBands counts ([base..<4] ! j) \<ge> 3"
    by (auto simp: find_Some_iff)
  have r: "r = base + i" using i(1,3) by simp
  have "fullBands counts k < 3" if "base \<le> k" "k < r" for k
    using i(4) [rule_format, of "k - base"] that i(1) r by (simp add: not_le less_diff_conv2)
  then show ?thesis
    using Some i r by (simp add: chooseRadius_def liveAreaMinBands_def liveAreaMaxRadius_def)
qed

text \<open>The locators of a link lie in the block of \<open>r\<close> rings exactly when its ring is at most \<open>r\<close>.\<close>

lemma linkWithin_area:
  assumes "r \<le> 3" and "Radius a = int r" and "area_x a = cx" and "area_y a = cy"
  shows "linkWithin cx cy cutoff now band r m \<longleftrightarrow>
    (\<exists>d. linkRing cx cy cutoff now m = Some (band, d)) \<and>
    (area_contains a (TrimSpace (SL m)) \<or> area_contains a (TrimSpace (RL m)))"
proof (cases "linkRing cx cy cutoff now m")
  case (Some p)
  then obtain x1 y1 x2 y2 where l: "SquareXY (ToUpper (TrimSpace (SL m))) = Some (x1, y1)"
      "SquareXY (ToUpper (TrimSpace (RL m))) = Some (x2, y2)" "p = (normalizeBand (B m), nat (nearerEnd cx cy x1 y1 x2 y2))"
    by (auto simp: linkRing_def Let_def split: if_splits option.splits)
  have "nat (nearerEnd cx cy x1 y1 x2 y2) \<le> r \<longleftrightarrow>
      area_contains a (TrimSpace (SL m)) \<or> area_contains a (TrimSpace (RL m))"
    using assms(2-4) l(1,2) by (auto simp: nearerEnd_def area_contains_def SquareXYFold_eq nat_le_iff min_le_iff_disj)
  then show ?thesis using Some l(3) by (auto simp: linkWithin_def)
qed (simp add: linkWithin_def)

lemma resolve_decided:
  assumes "resolveLiveAreaFrom since qth surroundings now history = (Some a, True)"
  shows "SquareXY qth = Some (area_x a, area_y a) \<and> Centre a = take 4 qth \<and>
    BaseRadius a = (if surroundings then 1 else 0) \<and> BaseRadius a \<le> Radius a \<and> Radius a \<le> 3 \<and>
    Widened a = (Radius a > BaseRadius a) \<and>
    (\<forall>r. BaseRadius a \<le> int r \<and> int r < Radius a \<longrightarrow>
      card {band. linksWithin (area_x a) (area_y a) (now - 1200) now history band r \<ge> 25} < 3) \<and>
    (Radius a < 3 \<longrightarrow>
      card {band. linksWithin (area_x a) (area_y a) (now - 1200) now history band (nat (Radius a)) \<ge> 25} \<ge> 3) \<and>
    (\<forall>band. baseLinks a band = int (linksWithin (area_x a) (area_y a) (now - 1200) now history band (nat (BaseRadius a))))"
proof -
  from assms obtain cx cy where sq: "SquareXY qth = Some (cx, cy)"
    by (auto simp: resolveLiveAreaFrom_def split: option.splits)
  define base where "base = (if surroundings then 1 else 0 :: nat)"
  define counts where "counts = fold (\<lambda>m. countLink (linkRing cx cy (now - 1200) now m)) history []"
  have a: "a = \<lparr>Centre = take 4 qth, BaseRadius = int base, Radius = int (chooseRadius counts base),
      Widened = chooseRadius counts base > base, area_x = cx, area_y = cy,
      baseLinks = (\<lambda>band. case map_of counts band of None \<Rightarrow> 0 | Some c \<Rightarrow> cum c base)\<rparr>"
    using assms sq unfolding base_def counts_def
    by (cases surroundings) (auto simp: resolveLiveAreaFrom_def Let_def liveAreaDecisionMinutes_def
        simp del: One_nat_def split: if_splits)
  have full: "fullBands counts r = card {band. linksWithin cx cy (now - 1200) now history band r \<ge> 25}" for r
  proof -
    have "liveAreaFullSampleLinks \<le> cumOf counts b r \<longleftrightarrow> 25 \<le> linksWithin cx cy (now - 1200) now history b r" for b
      unfolding counts_def cumOf_links(1) liveAreaFullSampleLinks_def by linarith
    then show ?thesis using fullBands_card [of counts r] cumOf_links(2) by (simp add: counts_def)
  qed
  have base: "base \<le> 3" by (simp add: base_def)
  have links: "baseLinks a band = int (linksWithin cx cy (now - 1200) now history band base)" for band
    using cumOf_links(1) [of cx cy "now - 1200" now history band base] by (simp add: a cumOf_def counts_def)
  show ?thesis
    using chooseRadius_spec [OF base, of counts] sq links by (auto simp: a full base_def)
qed

lemma resolve_undecided:
  assumes "resolveLiveAreaFrom since qth surroundings now history = (Some a, False)"
  shows "Radius a = BaseRadius a \<and> \<not> Widened a"
  using assms by (auto simp: resolveLiveAreaFrom_def Let_def split: option.splits prod.splits if_splits)


section \<open>The cache of decisions\<close>

record liveAreaCacheEntry =
  ce_area :: liveArea
  ce_expires :: int

type_synonym liveAreaMap = "(string \<times> liveAreaCacheEntry) list"

definition liveAreaCached :: "liveAreaMap \<Rightarrow> string \<Rightarrow> int \<Rightarrow> liveArea option" where
  "liveAreaCached cache key now =
     (case map_of cache key of
        Some e \<Rightarrow> if ce_expires e > now then Some (ce_area e) else None
      | None \<Rightarrow> None)"

definition storeArea :: "liveAreaMap \<Rightarrow> string \<Rightarrow> liveAreaCacheEntry \<Rightarrow> int \<Rightarrow> liveAreaMap" where
  \<comment> \<open>the last critical section of \<open>liveAreaFor\<close>\<close>
  "storeArea cache key e now =
     (let cache =
        (if length cache \<ge> liveAreaCacheMaxEntries
         then let live = filter (\<lambda>(k, v). \<not> ce_expires v \<le> now) cache
              in if length live \<ge> liveAreaCacheMaxEntries then [] else live
         else cache)
      in AList.update key e cache)"

definition areaKey :: "string \<Rightarrow> bool \<Rightarrow> string" where
  "areaKey qth surroundings = take 4 qth @ (if surroundings then ''|1'' else ''|0'')"

definition liveAreaLocked :: "int \<Rightarrow> string \<Rightarrow> bool \<Rightarrow> int \<Rightarrow> Hub \<Rightarrow> liveAreaMap \<Rightarrow> liveArea option \<times> liveAreaMap" where
  \<comment> \<open>what runs under \<open>liveAreaComputeMu\<close>, on the cache as it is once the lock is held\<close>
  "liveAreaLocked since qth surroundings now h cache =
     (case liveAreaCached cache (areaKey qth surroundings) now of
        Some a \<Rightarrow> (Some a, cache)
      | None \<Rightarrow>
          let history = snapshotHubHistoryWindow h now liveAreaDecisionMinutes;
              (area, decided) = resolveLiveAreaFrom since qth surroundings now history
          in case area of
               None \<Rightarrow> (None, cache)
             | Some a \<Rightarrow>
                 let ttl = (if decided then liveAreaCacheTTLSeconds else liveAreaUndecidedTTLSeconds)
                 in (Some a, storeArea cache (areaKey qth surroundings) \<lparr>ce_area = a, ce_expires = now + ttl\<rparr> now))"

definition liveAreaFor :: "int \<Rightarrow> string \<Rightarrow> bool \<Rightarrow> int \<Rightarrow> Hub \<Rightarrow> liveAreaMap \<Rightarrow> liveArea option \<times> liveAreaMap" where
  "liveAreaFor since qth surroundings now h cache =
     (if \<not> IsLocator qth then (None, cache)
      else case liveAreaCached cache (areaKey qth surroundings) now of
             Some a \<Rightarrow> (Some a, cache)
           | None \<Rightarrow> liveAreaLocked since qth surroundings now h cache)"

definition liveAreaForRequest ::
    "int \<Rightarrow> query \<Rightarrow> string \<Rightarrow> bool \<Rightarrow> int \<Rightarrow> Hub \<Rightarrow> liveAreaMap \<Rightarrow> liveArea option \<times> liveAreaMap" where
  "liveAreaForRequest since q qth surroundings now h cache =
     (if \<not> IsLocator qth then (None, cache)
      else let (rings, auto) = parseRingsParam q
           in if auto then liveAreaFor since qth surroundings now h cache
              else if rings > 0 then (explicitLiveArea qth rings, cache)
              else (None, cache))"

definition area_cache_ok :: "liveAreaMap \<Rightarrow> bool" where
  "area_cache_ok cache \<longleftrightarrow> distinct (map fst cache) \<and> length cache \<le> liveAreaCacheMaxEntries"

definition area_lookup :: "liveAreaMap \<Rightarrow> string \<Rightarrow> int \<Rightarrow> liveAreaMap \<times> liveAreaCacheEntry option" where
  "area_lookup cache key now =
     (cache, case map_of cache key of Some e \<Rightarrow> if ce_expires e > now then Some e else None | None \<Rightarrow> None)"

lemma liveAreaCached_lookup: "liveAreaCached cache key now = map_option ce_area (snd (area_lookup cache key now))"
  by (simp add: liveAreaCached_def area_lookup_def split: option.splits)

lemma storeArea_ok: "area_cache_ok cache \<Longrightarrow> area_cache_ok (storeArea cache key e now)"
  by (auto simp: area_cache_ok_def storeArea_def Let_def assoc liveAreaCacheMaxEntries_def
      distinct_map_filter)

lemma storeArea_other:
  assumes "area_cache_ok cache" "k \<noteq> key"
  shows "map_of (storeArea cache key e now) k \<in> {map_of cache k, None}"
  using assms
  by (auto simp: storeArea_def Let_def assoc area_cache_ok_def split: option.splits)

interpretation ac: keeping_cache area_cache_ok map_of "\<lambda>e now. now < ce_expires e" area_lookup storeArea length liveAreaCacheMaxEntries
proof
  fix s :: liveAreaMap and k :: string and e now
  assume ok: "area_cache_ok s"
  show "area_cache_ok (storeArea s k e now)" by (rule storeArea_ok) (rule ok)
  show "length s \<le> liveAreaCacheMaxEntries" using ok by (simp add: area_cache_ok_def)
  show "map_of (storeArea s k e now) k \<in> {Some e, None}" "map_of (storeArea s k e now) k = Some e"
    by (simp_all add: storeArea_def Let_def update_conv')
next
  fix s :: liveAreaMap and k k' :: string and e now
  assume "area_cache_ok s" "k' \<noteq> k"
  then show "map_of (storeArea s k e now) k' \<in> {map_of s k', None}" by (rule storeArea_other)
qed (auto simp: area_lookup_def split: option.splits)

text \<open>A decision is repeated to every request of its square and radius while it is fresh.\<close>

lemma resolve_take4:
  assumes "IsLocator qth" "IsLocator qth'" "take 4 qth' = take 4 qth"
  shows "resolveLiveAreaFrom since qth' surroundings now history = resolveLiveAreaFrom since qth surroundings now history"
proof -
  have "SquareXY qth' = SquareXY qth" using assms SquareXY_take4 [of qth] SquareXY_take4 [of qth'] by simp
  then show ?thesis unfolding resolveLiveAreaFrom_def assms(3) by simp
qed

lemma area_repeats:
  assumes "area_cache_ok cache" and "liveAreaFor since qth surroundings now h cache = (Some a, cache')"
    and "IsLocator qth'" and "areaKey qth' surroundings' = areaKey qth surroundings"
    and "liveAreaCached cache (areaKey qth surroundings) now = None" and "now \<le> now'" "now' < now + 60"
  shows "liveAreaFor since' qth' surroundings' now' h' cache' = (Some a, cache')"
proof -
  obtain e where c: "cache' = storeArea cache (areaKey qth surroundings) e now" "ce_area e = a" "ce_expires e \<ge> now + 60"
    using assms(2,5)
    by (auto simp: liveAreaFor_def liveAreaLocked_def Let_def liveAreaCacheTTLSeconds_def liveAreaUndecidedTTLSeconds_def
        split: if_splits option.splits prod.splits)
  have "snd (area_lookup cache' (areaKey qth surroundings) now') = Some e"
    using ac.answer_repeats [where k = "areaKey qth surroundings" and ops = "[]" and s = cache and e = e and now = now and now' = now'] assms(1) c assms(6,7) by simp
  then show ?thesis using assms(3,4) c(2) by (simp add: liveAreaFor_def liveAreaCached_lookup)
qed

lemma liveAreaFor_ok: "area_cache_ok cache \<Longrightarrow> area_cache_ok (snd (liveAreaFor since qth surroundings now h cache))"
  by (auto simp: liveAreaFor_def liveAreaLocked_def Let_def storeArea_ok split: option.splits prod.splits)

end
