(* ===== verification/RateLimit.thy ===== *)
theory RateLimit
  imports Assoc
begin

text \<open>
  The per-address rate limiters of \<^verbatim>\<open>cmd/horstreporter/history.go\<close> and
  \<^verbatim>\<open>cmd/horstreporter/push.go\<close>: a window per address that starts with its first request and
  restarts an hour later, and an opportunistic sweep of expired windows. Times are
  nanoseconds. The locale states the contract of a windowed limiter; the bound that follows
  from it (twice the limit in any hour, however the hour lies) is proved once inside it.
\<close>

section \<open>The interface\<close>

text \<open>The times at which requests of an address are let through.\<close>

fun admitted :: "('s \<Rightarrow> string \<Rightarrow> int \<Rightarrow> 's \<times> bool) \<Rightarrow> 's \<Rightarrow> (string \<times> int) list \<Rightarrow> string \<Rightarrow> int list" where
  "admitted allow s [] ip = []"
| "admitted allow s ((ip', now) # reqs) ip =
     (let (s', ok) = allow s ip' now
      in (if ok \<and> ip' = ip then [now] else []) @ admitted allow s' reqs ip)"

definition hits :: "int list \<Rightarrow> int \<Rightarrow> int \<Rightarrow> nat" where
  \<comment> \<open>how many of the times lie in \<open>[a, b)\<close>\<close>
  "hits ts a b = length (filter (\<lambda>t. a \<le> t \<and> t < b) ts)"

lemma hits_Nil [simp]: "hits [] a b = 0"
  by (simp add: hits_def)

lemma hits_snoc [simp]: "hits (ts @ [t]) a b = hits ts a b + (if a \<le> t \<and> t < b then 1 else 0)"
  by (simp add: hits_def)

lemma hits_mono: "(\<And>t. t \<in> set ts \<Longrightarrow> a \<le> t \<Longrightarrow> t < b \<Longrightarrow> a' \<le> t \<and> t < b') \<Longrightarrow> hits ts a b \<le> hits ts a' b'"
  unfolding hits_def by (induction ts) auto

lemma hits_split: "hits ts a b \<le> hits ts a m + hits ts m b"
  unfolding hits_def by (induction ts) auto

locale windowed_limiter =
  fixes ok :: "'s \<Rightarrow> bool"
    and window :: "'s \<Rightarrow> string \<Rightarrow> (int \<times> nat) option"
    and allow :: "'s \<Rightarrow> string \<Rightarrow> int \<Rightarrow> 's \<times> bool"
    and limit :: nat
    and period :: int
  assumes positive: "0 < limit" "0 < period"
    and allow_ok: "ok s \<Longrightarrow> ok (fst (allow s ip now))"
    and answer: "ok s \<Longrightarrow> ip \<noteq> [] \<Longrightarrow>
      snd (allow s ip now) = (case window s ip of None \<Rightarrow> True | Some (start, n) \<Rightarrow> now - start \<ge> period \<or> n < limit)"
    and admit: "ok s \<Longrightarrow> ip \<noteq> [] \<Longrightarrow> snd (allow s ip now) \<Longrightarrow>
      window (fst (allow s ip now)) ip = (case window s ip of
        None \<Rightarrow> Some (now, 1)
      | Some (start, n) \<Rightarrow> if now - start \<ge> period then Some (now, 1) else Some (start, n + 1))"
    and kept: "ok s \<Longrightarrow> ip' \<noteq> ip \<or> \<not> snd (allow s ip now) \<Longrightarrow>
      window (fst (allow s ip now)) ip' = window s ip' \<or>
      window (fst (allow s ip now)) ip' = None \<and> (\<exists>start n. window s ip' = Some (start, n) \<and> now - start \<ge> period)"
begin

text \<open>What the past admissions of an address look like next to its current window.\<close>

definition fits :: "int list \<Rightarrow> int \<Rightarrow> nat \<Rightarrow> bool" where
  "fits ts start n \<longleftrightarrow> n \<le> limit \<and> (\<forall>t\<in>set ts. t < start + period) \<and>
     hits ts start (start + period) = n \<and>
     (\<forall>a. start < a + period \<longrightarrow> hits ts a start \<le> limit) \<and>
     (\<forall>a. hits ts a (a + period) \<le> 2 * limit)"

lemma fits_first: "fits [now] now 1"
  using positive by (simp add: fits_def hits_def)

lemma fits_more:
  assumes f: "fits ts start n" and n: "n < limit" and now: "start \<le> now" "now < start + period"
  shows "fits (ts @ [now]) start (n + 1)"
  unfolding fits_def
proof (intro conjI allI impI)
  fix a
  have "hits ts a (a + period) \<le> hits ts a start + hits ts start (a + period)" by (rule hits_split)
  moreover have "hits ts start (a + period) \<le> hits ts start (start + period)"
    using f by (intro hits_mono) (auto simp: fits_def)
  ultimately have "hits ts a (a + period) < 2 * limit" if "start < a + period"
    using f n that by (fastforce simp: fits_def)
  moreover have "hits ts a (a + period) \<le> 2 * limit" using f by (simp add: fits_def)
  ultimately show "hits (ts @ [now]) a (a + period) \<le> 2 * limit" using now by fastforce
qed (use f n now in \<open>auto simp: fits_def\<close>)

lemma fits_restart:
  assumes f: "fits ts start n" and now: "now - start \<ge> period"
  shows "fits (ts @ [now]) now 1"
  unfolding fits_def
proof (intro conjI allI impI)
  have old: "t < now" if "t \<in> set ts" for t using f now that by (force simp: fits_def)
  show "\<forall>t\<in>set (ts @ [now]). t < now + period" using old positive by fastforce
  have "filter (\<lambda>t. now \<le> t \<and> t < now + period) ts = []" using old by (fastforce simp: filter_empty_conv)
  then show "hits (ts @ [now]) now (now + period) = 1" using positive by (simp add: hits_def)
  fix a
  have recent: "hits ts a b \<le> limit" if "now < a + period" for b
  proof -
    have "hits ts a b \<le> hits ts start (start + period)"
      using f now that by (intro hits_mono) (auto simp: fits_def)
    then show ?thesis using f by (simp add: fits_def)
  qed
  then show "hits (ts @ [now]) a now \<le> limit" if "now < a + period" using that by simp
  show "hits (ts @ [now]) a (a + period) \<le> 2 * limit"
  proof (cases "a \<le> now \<and> now < a + period")
    case True
    then show ?thesis using recent [of "a + period"] positive by simp
  next
    case False
    then show ?thesis using f by (auto simp: fits_def)
  qed
qed (use positive in simp)

lemma admitted_bound_from:
  assumes "ok s" "ip \<noteq> []" "sorted (now0 # map snd reqs)"
    and "past = [] \<and> window s ip = None \<or>
      (\<exists>start n. fits past start n \<and> start \<le> now0 \<and>
        (window s ip = Some (start, n) \<or> window s ip = None \<and> now0 - start \<ge> period))"
  shows "hits (past @ admitted allow s reqs ip) a (a + period) \<le> 2 * limit"
  using assms
proof (induction reqs arbitrary: s now0 past)
  case Nil
  then show ?case by (auto simp: fits_def)
next
  case (Cons req reqs)
  obtain ip' now where req: "req = (ip', now)" by fastforce
  define s' where "s' = fst (allow s ip' now)"
  have ok': "ok s'" using Cons.prems(1) by (simp add: s'_def allow_ok)
  have now: "now0 \<le> now" "sorted (now # map snd reqs)" using Cons.prems(3) by (auto simp: req)
  note IH = Cons.IH [OF ok' Cons.prems(2) now(2)]
  show ?case
  proof (cases "ip' = ip \<and> snd (allow s ip' now)")
    case True
    then have eq: "past @ admitted allow s (req # reqs) ip = (past @ [now]) @ admitted allow s' reqs ip"
      by (cases "allow s ip' now") (simp add: req s'_def)
    have w: "window s' ip = (case window s ip of None \<Rightarrow> Some (now, 1)
        | Some (start, n) \<Rightarrow> if now - start \<ge> period then Some (now, 1) else Some (start, n + 1))"
    proof -
      from True have "ip' = ip" "snd (allow s ip now)" by auto
      then show ?thesis using admit [OF Cons.prems(1,2)] by (simp only: s'_def)
    qed
    have "\<exists>start n. fits (past @ [now]) start n \<and> start \<le> now \<and> window s' ip = Some (start, n)"
      using Cons.prems(4)
    proof
      assume "past = [] \<and> window s ip = None"
      then show ?thesis using fits_first [of now] w by auto
    next
      assume "\<exists>start n. fits past start n \<and> start \<le> now0 \<and>
        (window s ip = Some (start, n) \<or> window s ip = None \<and> now0 - start \<ge> period)"
      then obtain start n where f: "fits past start n" "start \<le> now0"
        "window s ip = Some (start, n) \<or> window s ip = None \<and> now0 - start \<ge> period" by blast
      show ?thesis
      proof (cases "now - start \<ge> period")
        case old: True
        then show ?thesis using fits_restart [OF f(1) old] w f(3) by auto
      next
        case False
        then have "window s ip = Some (start, n)" using f(3) now(1) by auto
        moreover from this have "n < limit"
          using answer [OF Cons.prems(1,2), of now] True False by auto
        ultimately show ?thesis using fits_more [OF f(1)] w False f(2) now(1) by auto
      qed
    qed
    then show ?thesis unfolding eq by (intro IH) blast
  next
    case False
    then have eq: "past @ admitted allow s (req # reqs) ip = past @ admitted allow s' reqs ip"
      by (cases "allow s ip' now") (auto simp: req s'_def)
    have "window s' ip = window s ip \<or>
        window s' ip = None \<and> (\<exists>start n. window s ip = Some (start, n) \<and> now - start \<ge> period)"
      using kept [OF Cons.prems(1), of ip ip' now] False by (auto simp: s'_def)
    with Cons.prems(4) have "past = [] \<and> window s' ip = None \<or>
      (\<exists>start n. fits past start n \<and> start \<le> now \<and>
        (window s' ip = Some (start, n) \<or> window s' ip = None \<and> now - start \<ge> period))"
    proof (elim disjE exE conjE)
      fix start n assume *: "fits past start n" "start \<le> now0" "window s ip = Some (start, n)" "window s' ip = window s ip"
      then show ?thesis using now(1) by (intro disjI2 exI [of _ start] exI [of _ n]) simp
    next
      fix start n start' n'
      assume *: "fits past start n" "start \<le> now0" "window s ip = Some (start, n)" "window s' ip = None"
        "window s ip = Some (start', n')" "now - start' \<ge> period"
      then show ?thesis using now(1) by (intro disjI2 exI [of _ start] exI [of _ n]) simp
    next
      fix start n assume *: "fits past start n" "start \<le> now0" "window s ip = None" "now0 - start \<ge> period"
        "window s' ip = window s ip"
      then show ?thesis using now(1) by (intro disjI2 exI [of _ start] exI [of _ n]) simp
    qed simp_all
    then show ?thesis unfolding eq by (rule IH)
  qed
qed

text \<open>No more than twice the limit in any period of time.\<close>

lemma admitted_bound:
  assumes "ok s" "ip \<noteq> []" "sorted (map snd reqs)" "window s ip = None"
  shows "hits (admitted allow s reqs ip) a (a + period) \<le> 2 * limit"
proof (cases reqs)
  case (Cons req rest)
  have "sorted (snd req # map snd reqs)" using assms(3) by (simp add: Cons)
  then show ?thesis using admitted_bound_from [OF assms(1,2), of "snd req" reqs "[]" a] assms(4) by simp
qed simp

end

section \<open>The limiters\<close>

record ipWindow =
  windowStart :: int
  windowCount :: nat

definition hour :: int where "hour = 3600000000000"
definition historyRatePerHour :: nat where "historyRatePerHour = 120"
definition pushSubscribeRatePerHour :: nat where "pushSubscribeRatePerHour = 10"

definition windowAllow :: "nat \<Rightarrow> (string \<times> ipWindow) list \<Rightarrow> string \<Rightarrow> int \<Rightarrow> (string \<times> ipWindow) list \<times> bool" where
  \<comment> \<open>the two limiters have the same body and differ in the limit\<close>
  "windowAllow limit counts ip now =
     (if ip = [] then (counts, True)
      else let counts = (if length counts > 10000 then filter (\<lambda>(k, v). \<not> now - windowStart v \<ge> hour) counts else counts)
           in case map_of counts ip of
                None \<Rightarrow> (AList.update ip \<lparr>windowStart = now, windowCount = 1\<rparr> counts, True)
              | Some w \<Rightarrow>
                  if now - windowStart w \<ge> hour
                  then (AList.update ip \<lparr>windowStart = now, windowCount = 1\<rparr> counts, True)
                  else if windowCount w \<ge> limit then (counts, False)
                  else (AList.update ip (w\<lparr>windowCount := windowCount w + 1\<rparr>) counts, True))"

definition historyLimiter_allow :: "(string \<times> ipWindow) list \<Rightarrow> string \<Rightarrow> int \<Rightarrow> (string \<times> ipWindow) list \<times> bool" where
  "historyLimiter_allow = windowAllow historyRatePerHour"

definition pushIPRateLimiter_allow :: "(string \<times> ipWindow) list \<Rightarrow> string \<Rightarrow> int \<Rightarrow> (string \<times> ipWindow) list \<times> bool" where
  "pushIPRateLimiter_allow = windowAllow pushSubscribeRatePerHour"

definition windowOf :: "(string \<times> ipWindow) list \<Rightarrow> string \<Rightarrow> (int \<times> nat) option" where
  "windowOf counts ip = map_option (\<lambda>w. (windowStart w, windowCount w)) (map_of counts ip)"

definition counts_distinct :: "(string \<times> ipWindow) list \<Rightarrow> bool" where
  "counts_distinct counts \<longleftrightarrow> distinct (map fst counts)"

lemma windowAllow_limiter:
  assumes "0 < limit"
  shows "windowed_limiter counts_distinct windowOf (windowAllow limit) limit hour"
proof
  fix s :: "(string \<times> ipWindow) list" and ip ip' :: string and now
  assume ok: "counts_distinct s"
  define swept where "swept = (if length s > 10000 then filter (\<lambda>(k, v). \<not> now - windowStart v \<ge> hour) s else s)"
  have swept_ok: "distinct (map fst swept)"
    using ok by (simp add: swept_def counts_distinct_def distinct_map_filter)
  have swept: "map_of swept k = map_of s k \<or> map_of swept k = None \<and> (\<exists>w. map_of s k = Some w \<and> now - windowStart w \<ge> hour)" for k
    using ok by (auto simp: swept_def counts_distinct_def map_of_filter split: option.splits)
  have allow: "ip \<noteq> [] \<Longrightarrow> windowAllow limit s ip now = (case map_of swept ip of
       None \<Rightarrow> (AList.update ip \<lparr>windowStart = now, windowCount = 1\<rparr> swept, True)
     | Some w \<Rightarrow> if now - windowStart w \<ge> hour then (AList.update ip \<lparr>windowStart = now, windowCount = 1\<rparr> swept, True)
                 else if windowCount w \<ge> limit then (swept, False)
                 else (AList.update ip (w\<lparr>windowCount := windowCount w + 1\<rparr>) swept, True))"
    unfolding windowAllow_def swept_def Let_def by (simp only: if_False simp_thms)
  show "counts_distinct (fst (windowAllow limit s ip now))"
  proof (cases "ip = []")
    case True
    then show ?thesis using ok by (simp add: windowAllow_def)
  next
    case False
    then show ?thesis using swept_ok by (auto simp: allow counts_distinct_def distinct_update split: option.splits)
  qed
  show "snd (windowAllow limit s ip now) = (case windowOf s ip of None \<Rightarrow> True | Some (start, n) \<Rightarrow> now - start \<ge> hour \<or> n < limit)"
    if "ip \<noteq> []"
    using swept [of ip] that by (cases "map_of swept ip"; cases "map_of s ip") (auto simp: allow windowOf_def)
  show "windowOf (fst (windowAllow limit s ip now)) ip = (case windowOf s ip of None \<Rightarrow> Some (now, 1)
      | Some (start, n) \<Rightarrow> if now - start \<ge> hour then Some (now, 1) else Some (start, n + 1))"
    if "ip \<noteq> []" "snd (windowAllow limit s ip now)"
    using swept [of ip] that by (auto simp: allow windowOf_def update_conv' split: option.splits if_splits)
  show "windowOf (fst (windowAllow limit s ip now)) ip' = windowOf s ip' \<or>
      windowOf (fst (windowAllow limit s ip now)) ip' = None \<and>
      (\<exists>start n. windowOf s ip' = Some (start, n) \<and> now - start \<ge> hour)"
    if "ip' \<noteq> ip \<or> \<not> snd (windowAllow limit s ip now)"
  proof (cases "ip = []")
    case True
    then show ?thesis by (simp add: windowAllow_def)
  next
    case False
    then have "map_of (fst (windowAllow limit s ip now)) ip' = map_of swept ip'"
      using that by (auto simp: allow update_conv' split: option.splits if_splits)
    then show ?thesis using swept [of ip'] by (auto simp: windowOf_def)
  qed
qed (use assms in \<open>simp_all add: hour_def\<close>)

interpretation hl: windowed_limiter counts_distinct windowOf historyLimiter_allow historyRatePerHour hour
  unfolding historyLimiter_allow_def by (rule windowAllow_limiter) (simp add: historyRatePerHour_def)

interpretation pl: windowed_limiter counts_distinct windowOf pushIPRateLimiter_allow pushSubscribeRatePerHour hour
  unfolding pushIPRateLimiter_allow_def by (rule windowAllow_limiter) (simp add: pushSubscribeRatePerHour_def)

end
