(* ===== verification/Push.thy ===== *)
theory Push
  imports RateLimit Stream
begin

text \<open>
  The Web Push channel, from \<^verbatim>\<open>cmd/horstreporter/push.go\<close> and the push handlers of
  \<^verbatim>\<open>cmd/horstreporter/server.go\<close>: the bounded store of subscriptions with its first-in,
  first-out eviction, the validation of a subscription, the fan-out of surges, and the four
  handlers with their answers. JSON decoding, \<open>url.Parse\<close>, \<open>net.SplitHostPort\<close>, the test of
  the trusted proxies and the outcome of a send are parameters. The store interprets
  \<open>fifo_set\<close>, the contract its clients rely on.
\<close>

section \<open>The interface of a bounded first-in, first-out set\<close>

datatype 'v fifo_op = Add 'v | Remove string

definition adds_of :: "'v fifo_op list \<Rightarrow> nat" where
  "adds_of ops = length (filter (\<lambda>op. \<exists>v. op = Add v) ops)"

locale fifo_set =
  fixes ok :: "'s \<Rightarrow> bool"
    and queue :: "'s \<Rightarrow> string list"
    and valid :: "string \<Rightarrow> bool"
    and keyOf :: "'v \<Rightarrow> string"
    and put :: "'s \<Rightarrow> 'v \<Rightarrow> 's"
    and drop_key :: "'s \<Rightarrow> string \<Rightarrow> 's"
    and has_key :: "'s \<Rightarrow> string \<Rightarrow> bool"
    and cap :: nat
  assumes put_ok: "ok s \<Longrightarrow> valid (keyOf v) \<Longrightarrow> ok (put s v)"
    and drop_ok: "ok s \<Longrightarrow> ok (drop_key s x)"
    and queue_put: "ok s \<Longrightarrow> valid (keyOf v) \<Longrightarrow> queue (put s v) =
      (if keyOf v \<in> set (queue s) then queue s
       else (if length (queue s) \<ge> cap then tl (queue s) else queue s) @ [keyOf v])"
    and queue_drop: "ok s \<Longrightarrow> valid x \<Longrightarrow> queue (drop_key s x) = remove1 x (queue s)"
    and queue_ok: "ok s \<Longrightarrow> distinct (queue s) \<and> length (queue s) \<le> cap"
    and has_queue: "ok s \<Longrightarrow> valid x \<Longrightarrow> has_key s x \<longleftrightarrow> x \<in> set (queue s)"
begin

text \<open>The clients store and remove valid keys only.\<close>

definition fifo_step :: "'s \<Rightarrow> 'v fifo_op \<Rightarrow> 's" where
  "fifo_step s op = (case op of
     Add v \<Rightarrow> if valid (keyOf v) then put s v else s
   | Remove x \<Rightarrow> if valid x then drop_key s x else s)"

lemma fifo_step_simps [simp]:
  "fifo_step s (Add v) = (if valid (keyOf v) then put s v else s)"
  "fifo_step s (Remove x) = (if valid x then drop_key s x else s)"
  by (simp_all add: fifo_step_def)

lemma fifo_step_ok: "ok s \<Longrightarrow> ok (fifo_step s op)"
  by (cases op) (auto simp: put_ok drop_ok)

lemma fifo_run_ok: "ok s \<Longrightarrow> ok (foldl fifo_step s ops)"
  by (induction ops arbitrary: s) (auto simp: fifo_step_ok)

text \<open>
  A key leaves the queue only by its removal or by \<open>cap\<close> additions after its own: behind it,
  the queue grows by at most one per addition.
\<close>

lemma step_behind:
  assumes "ok s" "queue s = us @ x # vs" "op \<noteq> Remove x" "length vs + adds_of [op] < cap"
  shows "\<exists>us' vs'. queue (fifo_step s op) = us' @ x # vs' \<and> length vs' \<le> length vs + adds_of [op]"
proof (cases op)
  case (Add v)
  show ?thesis
  proof (cases "\<not> valid (keyOf v) \<or> keyOf v \<in> set (queue s)")
    case True
    then have "queue (fifo_step s op) = us @ x # vs" using assms(1,2) Add queue_put [of s v] by auto
    then show ?thesis by fastforce
  next
    case False
    then have "us \<noteq> []" if "length (queue s) \<ge> cap"
      using assms(2,4) that Add by (auto simp: adds_of_def)
    then have "queue (fifo_step s op) = (if length (queue s) \<ge> cap then tl us else us) @ x # vs @ [keyOf v]"
      using False assms(1,2) Add queue_put [of s v] by auto
    moreover have "length (vs @ [keyOf v]) \<le> length vs + adds_of [op]" using Add by (simp add: adds_of_def)
    ultimately show ?thesis by blast
  qed
next
  case (Remove y)
  show ?thesis
  proof (cases "valid y")
    case True
    then have "queue (fifo_step s op) = remove1 y (us @ x # vs)" using Remove queue_drop assms(1,2) by simp
    moreover have "y \<noteq> x" using assms(3) Remove by simp
    ultimately have "queue (fifo_step s op) = (if y \<in> set us then remove1 y us @ x # vs else us @ x # remove1 y vs)"
      by (simp add: remove1_append)
    then show ?thesis using length_remove1 [of y vs] by (cases "y \<in> set us") (force split: if_splits)+
  next
    case False
    then show ?thesis using Remove assms(2) by fastforce
  qed
qed

lemma stays:
  assumes "ok s" "queue s = us @ x # vs" "Remove x \<notin> set ops" "length vs + adds_of ops < cap"
  shows "x \<in> set (queue (foldl fifo_step s ops))"
  using assms
proof (induction ops arbitrary: s us vs)
  case (Cons op ops)
  have split: "adds_of (op # ops) = adds_of [op] + adds_of ops" by (simp add: adds_of_def)
  have "op \<noteq> Remove x" using Cons.prems(3) by auto
  with step_behind [OF Cons.prems(1,2) this] Cons.prems(4) obtain us' vs' where
    q: "queue (fifo_step s op) = us' @ x # vs'" "length vs' \<le> length vs + adds_of [op]"
    by (auto simp: split)
  show ?case
    using Cons.IH [OF fifo_step_ok [OF Cons.prems(1)] q(1)] q(2) Cons.prems(3,4) by (simp add: split)
qed simp

lemma added_stays:
  assumes "ok s" "valid (keyOf v)" "keyOf v \<notin> set (queue s)" "Remove (keyOf v) \<notin> set ops" "adds_of ops < cap"
  shows "has_key (foldl fifo_step s (Add v # ops)) (keyOf v)"
proof -
  have "queue (put s v) = (if length (queue s) \<ge> cap then tl (queue s) else queue s) @ keyOf v # []"
    using queue_put [OF assms(1,2)] assms(3) by simp
  then have "keyOf v \<in> set (queue (foldl fifo_step (put s v) ops))"
    using stays [OF put_ok [OF assms(1,2)], of _ "keyOf v" "[]" ops] assms(4,5) by simp
  then show ?thesis
    using has_queue [OF fifo_run_ok [OF put_ok [OF assms(1,2)]] assms(2)] assms(2) by simp
qed

end

section \<open>The store\<close>

record pushSubscription =
  Endpoint :: string
  keys_auth :: string
  keys_p256dh :: string
  sub_QTH :: string
  Preferences :: "(string \<Rightarrow> bool) option"
  CreatedAt :: int

record pushSubscriptionStore =
  subs :: "(string \<times> pushSubscription) list"
  order :: "string list"
  vapidPrivateKey :: string
  vapidPublicKey :: string
  vapidSubscriber :: string
  push_enabled :: bool

definition pushMaxSubscriptions :: nat where "pushMaxSubscriptions = 1000"

definition pushStore :: pushSubscriptionStore where
  "pushStore = \<lparr>subs = [], order = [], vapidPrivateKey = [], vapidPublicKey = [],
     vapidSubscriber = ''horstreporter@example.com'', push_enabled = False\<rparr>"

definition configure :: "pushSubscriptionStore \<Rightarrow> string \<Rightarrow> string \<Rightarrow> string \<Rightarrow> bool \<Rightarrow> pushSubscriptionStore" where
  "configure s privateKey publicKey subscriber enabled =
     (let s = s\<lparr>vapidPrivateKey := TrimSpace privateKey, vapidPublicKey := TrimSpace publicKey\<rparr>;
          subscriber = TrimPrefix (TrimSpace subscriber) ''mailto:'';
          s = (if subscriber \<noteq> [] then s\<lparr>vapidSubscriber := subscriber\<rparr> else s)
      in s\<lparr>push_enabled := enabled \<and> vapidPrivateKey s \<noteq> [] \<and> vapidPublicKey s \<noteq> []\<rparr>)"

text \<open>The eviction loop: pop the order until a stored endpoint goes.\<close>

fun evictOldest :: "string list \<Rightarrow> (string \<times> pushSubscription) list \<Rightarrow> string list \<times> (string \<times> pushSubscription) list" where
  "evictOldest [] m = ([], m)"
| "evictOldest (oldest # rest) m =
     (if map_of m oldest \<noteq> None then (rest, AList.delete oldest m) else evictOldest rest m)"

definition push_add :: "pushSubscriptionStore \<Rightarrow> pushSubscription \<Rightarrow> int \<Rightarrow> pushSubscriptionStore" where
  "push_add s sub now =
     (if Endpoint sub = [] then s
      else case map_of (subs s) (Endpoint sub) of
             None \<Rightarrow>
               let (ord, m) = (if length (subs s) \<ge> pushMaxSubscriptions then evictOldest (order s) (subs s) else (order s, subs s))
               in s\<lparr>order := ord @ [Endpoint sub],
                    subs := AList.update (Endpoint sub) (sub\<lparr>CreatedAt := now\<rparr>) m\<rparr>
           | Some old \<Rightarrow> s\<lparr>subs := AList.update (Endpoint sub) (sub\<lparr>CreatedAt := CreatedAt old\<rparr>) (subs s)\<rparr>)"

definition push_remove :: "pushSubscriptionStore \<Rightarrow> string \<Rightarrow> pushSubscriptionStore" where
  "push_remove s endpoint =
     (let endpoint = TrimSpace endpoint
      in if endpoint = [] then s
         else if map_of (subs s) endpoint = None then s
         else s\<lparr>subs := AList.delete endpoint (subs s), order := remove1 endpoint (order s)\<rparr>)"

definition push_has :: "pushSubscriptionStore \<Rightarrow> string \<Rightarrow> bool" where
  "push_has s endpoint \<longleftrightarrow> map_of (subs s) (TrimSpace endpoint) \<noteq> None"

definition push_snapshot :: "pushSubscriptionStore \<Rightarrow> pushSubscription list" where
  "push_snapshot s = map snd (subs s)"

definition push_matches :: "pushSubscription \<Rightarrow> string \<Rightarrow> string \<Rightarrow> bool" where
  "push_matches sub band region =
     (case Preferences sub of
        None \<Rightarrow> False
      | Some prefs \<Rightarrow> prefs ''all'' \<or> prefs (band @ '':'' @ region))"

section \<open>The invariant of the store\<close>

definition store_ok :: "pushSubscriptionStore \<Rightarrow> bool" where
  "store_ok s \<longleftrightarrow> distinct (order s) \<and> distinct (map fst (subs s)) \<and> set (order s) = fst ` set (subs s) \<and>
     length (subs s) \<le> pushMaxSubscriptions \<and> (\<forall>(k, sub)\<in>set (subs s). k = Endpoint sub \<and> k \<noteq> [])"

lemma store_ok_start: "store_ok pushStore"
  by (simp add: store_ok_def pushStore_def)

lemma configure_store: "store_ok (configure s a b c e) = store_ok s"
  by (simp add: configure_def store_ok_def Let_def)

lemma store_ok_length: "store_ok s \<Longrightarrow> length (order s) = length (subs s)"
  unfolding store_ok_def by (metis distinct_card length_map list.set_map)

lemma order_mem: "store_ok s \<Longrightarrow> x \<in> set (order s) \<longleftrightarrow> map_of (subs s) x \<noteq> None"
  by (simp add: store_ok_def map_of_eq_None_iff)

lemma evictOldest_ok:
  assumes "set ord = fst ` set m" "ord \<noteq> []"
  shows "evictOldest ord m = (tl ord, AList.delete (hd ord) m)"
  using assms by (cases ord) (auto simp: map_of_eq_None_iff)

lemma push_add_new:
  assumes "store_ok s" "Endpoint sub \<noteq> []" "Endpoint sub \<notin> set (order s)"
  defines "full \<equiv> length (order s) \<ge> pushMaxSubscriptions"
  shows "push_add s sub now = s\<lparr>order := (if full then tl (order s) else order s) @ [Endpoint sub],
    subs := (if full then AList.delete (hd (order s)) (subs s) else subs s) @ [(Endpoint sub, sub\<lparr>CreatedAt := now\<rparr>)]\<rparr>"
proof -
  have new: "map_of (subs s) (Endpoint sub) = None" using assms(1,3) order_mem by blast
  have len: "length (subs s) = length (order s)" using store_ok_length [OF assms(1)] by simp
  have notin: "Endpoint sub \<notin> fst ` set (subs s)" using assms(1,3) by (simp add: store_ok_def)
  have notin': "Endpoint sub \<notin> fst ` set (AList.delete k (subs s))" for k
    using notin by (auto simp: AList.delete_eq)
  show ?thesis
  proof (cases full)
    case True
    then have "order s \<noteq> []" by (auto simp: full_def pushMaxSubscriptions_def)
    with assms(1) have "evictOldest (order s) (subs s) = (tl (order s), AList.delete (hd (order s)) (subs s))"
      by (intro evictOldest_ok) (simp_all add: store_ok_def)
    then show ?thesis
      using True new assms(2) len notin' [of "hd (order s)"] by (simp add: push_add_def full_def update_new)
  next
    case False
    then show ?thesis using new assms(2) len notin by (simp add: push_add_def full_def update_new)
  qed
qed

lemma push_add_known:
  assumes "store_ok s" "Endpoint sub \<noteq> []" "Endpoint sub \<in> set (order s)"
  shows "\<exists>old. map_of (subs s) (Endpoint sub) = Some old \<and>
    push_add s sub now = s\<lparr>subs := AList.update (Endpoint sub) (sub\<lparr>CreatedAt := CreatedAt old\<rparr>) (subs s)\<rparr>"
  using assms order_mem [OF assms(1), of "Endpoint sub"] by (auto simp: push_add_def)


lemma push_add_ok:
  assumes "store_ok s" "Endpoint sub \<noteq> []"
  shows "store_ok (push_add s sub now)"
proof (cases "Endpoint sub \<in> set (order s)")
  case True
  from push_add_known [OF assms True, of now] obtain old :: pushSubscription where
    *: "push_add s sub now = s\<lparr>subs := AList.update (Endpoint sub) (sub\<lparr>CreatedAt := CreatedAt old\<rparr>) (subs s)\<rparr>"
    by auto
  then show ?thesis
    using assms True unfolding * store_ok_def
    by (auto simp: assoc dom_update dest!: alist_update_mem)
next
  case False
  have len: "length (order s) = length (subs s)" by (rule store_ok_length) (rule assms)
  show ?thesis
  proof (cases "length (order s) \<ge> pushMaxSubscriptions")
    case True
    then obtain h ord where h: "order s = h # ord" by (cases "order s") (auto simp: pushMaxSubscriptions_def)
    have "h \<in> fst ` set (subs s)" using assms(1) h by (auto simp: store_ok_def)
    then show ?thesis
      using assms False True h len unfolding push_add_new [OF assms False] store_ok_def
      by (auto simp: assoc pushMaxSubscriptions_def)
  next
    case low: False
    then show ?thesis
      using assms False len unfolding push_add_new [OF assms False] store_ok_def by auto
  qed
qed

lemma push_remove_ok: "store_ok s \<Longrightarrow> store_ok (push_remove s endpoint)"
  by (auto simp: push_remove_def store_ok_def Let_def assoc)

definition trimmed_key :: "string \<Rightarrow> bool" where
  "trimmed_key k \<longleftrightarrow> k \<noteq> [] \<and> TrimSpace k = k"

interpretation ps: fifo_set store_ok order trimmed_key "\<lambda>(sub, now). Endpoint sub"
  "\<lambda>s (sub, now). push_add s sub now" push_remove push_has pushMaxSubscriptions
proof
  fix s :: pushSubscriptionStore and v :: "pushSubscription \<times> int" and x
  assume ok: "store_ok s"
  obtain sub now where v: "v = (sub, now)" by fastforce
  show "store_ok (push_remove s x)" by (rule push_remove_ok) (rule ok)
  show "distinct (order s) \<and> length (order s) \<le> pushMaxSubscriptions"
    using ok store_ok_length [OF ok] by (simp add: store_ok_def)
  show "order (push_remove s x) = remove1 x (order s)" if "trimmed_key x"
    using that order_mem [OF ok, of x] by (auto simp: trimmed_key_def push_remove_def remove1_idem)
  show "push_has s x = (x \<in> set (order s))" if "trimmed_key x"
    using that order_mem [OF ok, of x] by (simp add: trimmed_key_def push_has_def)
  assume key: "trimmed_key (case v of (sub, now) \<Rightarrow> Endpoint sub)"
  then have e: "Endpoint sub \<noteq> []" by (simp add: v trimmed_key_def)
  show "store_ok (case v of (sub, now) \<Rightarrow> push_add s sub now)" using push_add_ok [OF ok e] by (simp add: v)
  show "order (case v of (sub, now) \<Rightarrow> push_add s sub now) =
      (if (case v of (sub, now) \<Rightarrow> Endpoint sub) \<in> set (order s) then order s
       else (if length (order s) \<ge> pushMaxSubscriptions then tl (order s) else order s) @
         [case v of (sub, now) \<Rightarrow> Endpoint sub])"
  proof (cases "Endpoint sub \<in> set (order s)")
    case True
    then show ?thesis using push_add_known [OF ok e True, of now] by (auto simp: v)
  next
    case False
    then show ?thesis using push_add_new [OF ok e False, of now] by (simp add: v)
  qed
qed

section \<open>Validation\<close>

datatype pushInvalid = MissingEndpoint | NotHTTPS | MissingHost | MissingP256dh | MissingAuth

definition validatePushSubscription :: "(string \<Rightarrow> (string \<times> string) option) \<Rightarrow> pushSubscription \<Rightarrow> pushInvalid option" where
  \<comment> \<open>\<open>urlParse\<close> gives scheme and host, \<open>None\<close> an error; the result is the error, if any\<close>
  "validatePushSubscription urlParse sub =
     (let endpoint = TrimSpace (Endpoint sub)
      in if endpoint = [] then Some MissingEndpoint
         else case urlParse endpoint of
                None \<Rightarrow> Some NotHTTPS
              | Some (scheme, host) \<Rightarrow>
                  if scheme \<noteq> ''https'' then Some NotHTTPS
                  else if host = [] then Some MissingHost
                  else if TrimSpace (keys_p256dh sub) = [] then Some MissingP256dh
                  else if TrimSpace (keys_auth sub) = [] then Some MissingAuth
                  else None)"

section \<open>Surges\<close>

record propIntelCell =
  cell_Band :: string
  cell_Region :: string
  cell_Atypical :: "real option" \<comment> \<open>the z-score of \<open>Atypical\<close>, which is all the fan-out reads\<close>

record pushSurgePayload =
  pay_Band :: string
  pay_Region :: string
  pay_Label :: string
  pay_ZScore :: real

definition regionDisplayName :: "string \<Rightarrow> string" where
  "regionDisplayName code =
     (case map_of [(''EU'', ''Europe''), (''NA'', ''North America''), (''SA'', ''South America''),
         (''AF'', ''Africa''), (''AS'', ''Asia''), (''OC'', ''Oceania''), (''AN'', ''Antarctica''),
         (''JA'', ''Japan''), (''VK'', ''Australia''), (''KH6'', ''Hawaii''), (''CAR'', ''Caribbean'')] code of
        Some name \<Rightarrow> name
      | None \<Rightarrow> code)"

record pushState =
  push_store :: pushSubscriptionStore
  surgesDetected :: nat
  pushSent :: nat
  pushErrors :: nat
  sends :: "(string \<times> pushSurgePayload) list" \<comment> \<open>what was handed to \<open>sendFunc\<close>, in order\<close>

datatype sendResult = SendError | SendStatus int

text \<open>
  \<open>sendFunc\<close> is the outcome of a send; its first argument counts the sends before it, so that
  the same payload may meet different outcomes.
\<close>

definition sendPushNotification ::
    "(nat \<Rightarrow> pushSubscription \<Rightarrow> pushSurgePayload \<Rightarrow> sendResult) \<Rightarrow> pushState \<Rightarrow> pushSubscription \<Rightarrow> pushSurgePayload \<Rightarrow> pushState" where
  "sendPushNotification sendFunc st sub payload =
     (if \<not> push_enabled (push_store st) \<or> Endpoint sub = [] then st
      else let result = sendFunc (length (sends st)) sub payload;
               st = st\<lparr>sends := sends st @ [(Endpoint sub, payload)]\<rparr>;
               failed = st\<lparr>pushErrors := pushErrors st + 1\<rparr>
           in case result of
                SendError \<Rightarrow> failed
              | SendStatus status \<Rightarrow>
                  if status = 410 \<or> status = 404 then failed\<lparr>push_store := push_remove (push_store st) (Endpoint sub)\<rparr>
                  else if status \<ge> 500 then failed
                  else if status \<ge> 400 then failed
                  else st\<lparr>pushSent := pushSent st + 1\<rparr>)"

definition surgePayload :: "propIntelCell \<Rightarrow> pushSurgePayload" where
  "surgePayload c = \<lparr>pay_Band = cell_Band c, pay_Region = cell_Region c,
     pay_Label = ''tune to '' @ cell_Band c @ '', atypical to '' @ regionDisplayName (cell_Region c),
     pay_ZScore = the (cell_Atypical c)\<rparr>"

definition NotifySurges ::
    "(nat \<Rightarrow> pushSubscription \<Rightarrow> pushSurgePayload \<Rightarrow> sendResult) \<Rightarrow> pushState \<Rightarrow> propIntelCell list \<Rightarrow> pushState" where
  "NotifySurges sendFunc st cells =
     (if \<not> push_enabled (push_store st) then st
      else let surges = filter (\<lambda>c. cell_Atypical c \<noteq> None) cells
           in if surges = [] then st
              else let st = st\<lparr>surgesDetected := surgesDetected st + 1\<rparr>
                   in fold (\<lambda>sub. fold (\<lambda>c st.
                        if \<not> push_matches sub (cell_Band c) (cell_Region c) then st
                        else sendPushNotification sendFunc st sub (surgePayload c)) surges)
                      (push_snapshot (push_store st)) st)"

text \<open>The sends are exactly the wanted ones, in order, and the store only loses dead endpoints.\<close>

definition wanted_sends :: "propIntelCell list \<Rightarrow> pushSubscription list \<Rightarrow> (string \<times> pushSurgePayload) list" where
  "wanted_sends cells sbs =
     [(Endpoint sub, surgePayload c). sub \<leftarrow> sbs, c \<leftarrow> cells, cell_Atypical c \<noteq> None \<and> push_matches sub (cell_Band c) (cell_Region c)]"

lemma remove_enabled [simp]: "push_enabled (push_remove s e) = push_enabled s"
  by (simp add: push_remove_def Let_def)

lemma send_one:
  assumes "push_enabled (push_store st)" "Endpoint sub \<noteq> []"
  shows "sends (sendPushNotification f st sub p) = sends st @ [(Endpoint sub, p)]"
    and "push_enabled (push_store (sendPushNotification f st sub p))"
    and "pushSent (sendPushNotification f st sub p) + pushErrors (sendPushNotification f st sub p) = pushSent st + pushErrors st + 1"
    and "push_store (sendPushNotification f st sub p) =
      (if f (length (sends st)) sub p \<in> {SendStatus 410, SendStatus 404} then push_remove (push_store st) (Endpoint sub) else push_store st)"
  using assms by (simp_all add: sendPushNotification_def Let_def split: sendResult.splits)

lemma notify_inner:
  fixes f :: "nat \<Rightarrow> pushSubscription \<Rightarrow> pushSurgePayload \<Rightarrow> sendResult"
  assumes "push_enabled (push_store st)" "Endpoint sub \<noteq> []"
  defines "go \<equiv> \<lambda>c st. if \<not> push_matches sub (cell_Band c) (cell_Region c) then st
      else sendPushNotification f st sub (surgePayload c)"
  shows "sends (fold go cs st) = sends st @ [(Endpoint sub, surgePayload c). c \<leftarrow> cs, push_matches sub (cell_Band c) (cell_Region c)] \<and>
    push_enabled (push_store (fold go cs st)) \<and> surgesDetected (fold go cs st) = surgesDetected st"
  using assms(1)
proof (induction cs arbitrary: st)
  case (Cons c cs)
  have "push_enabled (push_store (go c st))" "surgesDetected (go c st) = surgesDetected st"
    using Cons.prems send_one(2) [OF Cons.prems assms(2)]
    by (simp_all add: go_def sendPushNotification_def Let_def split: sendResult.splits)
  with Cons.IH [of "go c st"] show ?case
    using send_one(1) [OF Cons.prems assms(2)] by (simp add: go_def)
qed simp


lemma notify_all:
  fixes f :: "nat \<Rightarrow> pushSubscription \<Rightarrow> pushSurgePayload \<Rightarrow> sendResult"
  assumes "push_enabled (push_store st)" "\<forall>sub\<in>set sbs. Endpoint sub \<noteq> []" "\<forall>c\<in>set cs. cell_Atypical c \<noteq> None"
  defines "go \<equiv> \<lambda>sub. fold (\<lambda>c st. if \<not> push_matches sub (cell_Band c) (cell_Region c) then st
      else sendPushNotification f st sub (surgePayload c)) cs"
  shows "sends (fold go sbs st) = sends st @ wanted_sends cs sbs \<and>
    surgesDetected (fold go sbs st) = surgesDetected st"
  using assms(1,2)
proof (induction sbs arbitrary: st)
  case Nil
  then show ?case by (simp add: wanted_sends_def)
next
  case (Cons sub sbs)
  have "Endpoint sub \<noteq> []" using Cons.prems(2) by simp
  moreover have "go sub = fold (\<lambda>c st. if \<not> push_matches sub (cell_Band c) (cell_Region c) then st
      else sendPushNotification f st sub (surgePayload c)) cs" by (simp add: go_def)
  ultimately have one: "sends (go sub st) = sends st @ [(Endpoint sub, surgePayload c). c \<leftarrow> cs, push_matches sub (cell_Band c) (cell_Region c)]"
    "push_enabled (push_store (go sub st))" "surgesDetected (go sub st) = surgesDetected st"
    using notify_inner [OF Cons.prems(1), of sub f cs] by simp_all
  have "wanted_sends cs [sub] = [(Endpoint sub, surgePayload c). c \<leftarrow> cs, push_matches sub (cell_Band c) (cell_Region c)]"
    using assms(3) unfolding wanted_sends_def by (induction cs) auto
  then have "wanted_sends cs (sub # sbs)
      = [(Endpoint sub, surgePayload c). c \<leftarrow> cs, push_matches sub (cell_Band c) (cell_Region c)] @ wanted_sends cs sbs"
    by (simp add: wanted_sends_def)
  then show ?case using Cons.IH [of "go sub st"] one Cons.prems(2) by simp
qed

lemma wanted_sends_filter: "wanted_sends (filter (\<lambda>c. cell_Atypical c \<noteq> None) cells) sbs = wanted_sends cells sbs"
proof -
  have "[(Endpoint sub, surgePayload c). c \<leftarrow> filter (\<lambda>c. cell_Atypical c \<noteq> None) cells,
        cell_Atypical c \<noteq> None \<and> push_matches sub (cell_Band c) (cell_Region c)]
      = [(Endpoint sub, surgePayload c). c \<leftarrow> cells, cell_Atypical c \<noteq> None \<and> push_matches sub (cell_Band c) (cell_Region c)]"
    for sub by (induction cells) auto
  then show ?thesis by (simp add: wanted_sends_def)
qed

lemma NotifySurges_sends:
  assumes "store_ok (push_store st)"
  shows "sends (NotifySurges f st cells) = sends st @
    (if push_enabled (push_store st) then wanted_sends cells (push_snapshot (push_store st)) else [])"
proof (cases "push_enabled (push_store st)")
  case True
  have ends: "\<forall>sub\<in>set (push_snapshot (push_store st)). Endpoint sub \<noteq> []"
    using assms by (auto simp: store_ok_def push_snapshot_def)
  define cs where "cs = filter (\<lambda>c. cell_Atypical c \<noteq> None) cells"
  show ?thesis
  proof (cases "cs = []")
    case none: True
    have "wanted_sends [] sbs = []" for sbs by (induction sbs) (simp_all add: wanted_sends_def)
    then have "wanted_sends cells sbs = []" for sbs
      using wanted_sends_filter [of cells sbs] none unfolding cs_def by metis
    then show ?thesis using none by (simp add: NotifySurges_def cs_def)
  next
    case False
    then show ?thesis
      using notify_all [of "st\<lparr>surgesDetected := surgesDetected st + 1\<rparr>" "push_snapshot (push_store st)" cs f]
        True ends wanted_sends_filter [of cells] by (simp add: NotifySurges_def Let_def cs_def)
  qed
qed (simp add: NotifySurges_def)

lemma send_store_ok: "store_ok (push_store st) \<Longrightarrow> store_ok (push_store (sendPushNotification f st sub p))"
  by (simp add: sendPushNotification_def Let_def push_remove_ok split: sendResult.splits)

lemma fold_inv: "P s \<Longrightarrow> (\<And>x s. P s \<Longrightarrow> P (f x s)) \<Longrightarrow> P (fold f xs s)"
  by (induction xs arbitrary: s) simp_all

lemma NotifySurges_ok: "store_ok (push_store st) \<Longrightarrow> store_ok (push_store (NotifySurges f st cells))"
  unfolding NotifySurges_def Let_def
  by (auto intro!: fold_inv [where P = "\<lambda>st. store_ok (push_store st)"] simp: send_store_ok)

section \<open>Client addresses\<close>

record request =
  r_method :: string
  r_remote :: string
  r_header :: "string \<Rightarrow> string"
  r_query :: query
  r_body :: string

definition remoteAddrHost :: "(string \<Rightarrow> string option) \<Rightarrow> request \<Rightarrow> string" where
  \<comment> \<open>\<open>splitHostPort\<close> gives the host, \<open>None\<close> an error\<close>
  "remoteAddrHost splitHostPort r = (case splitHostPort (r_remote r) of None \<Rightarrow> r_remote r | Some host \<Rightarrow> host)"

definition clientIPFromRequest :: "(string \<Rightarrow> string option) \<Rightarrow> (string \<Rightarrow> bool) \<Rightarrow> request \<Rightarrow> string" where
  \<comment> \<open>\<open>trusted peer\<close>: the peer parses as an address and lies in a network of \<open>pushTrustedProxies\<close>\<close>
  "clientIPFromRequest splitHostPort trusted r =
     (let peer = remoteAddrHost splitHostPort r
      in if trusted peer
         then let xff = r_header r ''X-Forwarded-For''
              in if xff = [] then peer
                 else case IndexByte xff (CHR '','') of
                        None \<Rightarrow> TrimSpace xff
                      | Some idx \<Rightarrow> TrimSpace (take idx xff)
         else peer)"

lemma clientIP_untrusted:
  "\<not> trusted (remoteAddrHost sp r) \<Longrightarrow> clientIPFromRequest sp trusted (r\<lparr>r_header := h\<rparr>) = clientIPFromRequest sp trusted r"
  by (cases "sp (r_remote r)") (simp_all add: clientIPFromRequest_def remoteAddrHost_def Let_def)

section \<open>Handlers\<close>

record pushSubscribeRequest =
  rq_Endpoint :: string
  rq_auth :: string
  rq_p256dh :: string
  rq_QTH :: string
  rq_Preferences :: "(string \<Rightarrow> bool) option"

datatype pushAnswer =
    HttpError int string
  | PublicKey string
  | Subscribed string
  | Unsubscribed
  | Registered bool

definition pushVAPIDPublicKeyHandler :: "pushSubscriptionStore \<Rightarrow> pushAnswer" where
  "pushVAPIDPublicKeyHandler s =
     (if \<not> push_enabled s then HttpError 503 ''push not configured'' else PublicKey (vapidPublicKey s))"

definition invalidText :: "pushInvalid \<Rightarrow> string" where
  "invalidText e = (case e of
     MissingEndpoint \<Rightarrow> ''missing endpoint''
   | NotHTTPS \<Rightarrow> ''endpoint must be an HTTPS URL''
   | MissingHost \<Rightarrow> ''endpoint missing host''
   | MissingP256dh \<Rightarrow> ''missing keys.p256dh''
   | MissingAuth \<Rightarrow> ''missing keys.auth'')"

definition requestSubscription :: "pushSubscribeRequest \<Rightarrow> pushSubscription" where
  "requestSubscription req =
     \<lparr>Endpoint = TrimSpace (rq_Endpoint req), keys_auth = rq_auth req, keys_p256dh = rq_p256dh req,
      sub_QTH = ToUpper (TrimSpace (rq_QTH req)),
      Preferences = (case rq_Preferences req of None \<Rightarrow> Some (\<lambda>_. False) | Some p \<Rightarrow> Some p), CreatedAt = 0\<rparr>"

definition pushSubscribeHandler ::
    "(string \<Rightarrow> pushSubscribeRequest option) \<Rightarrow> (string \<Rightarrow> (string \<times> string) option) \<Rightarrow> (request \<Rightarrow> string) \<Rightarrow>
     pushSubscriptionStore \<times> (string \<times> ipWindow) list \<Rightarrow> request \<Rightarrow> int \<Rightarrow>
     (pushSubscriptionStore \<times> (string \<times> ipWindow) list) \<times> pushAnswer" where
  \<comment> \<open>\<open>decode\<close> reads the size-limited body, \<open>clientIP\<close> is \<open>clientIPFromRequest\<close> with its parameters\<close>
  "pushSubscribeHandler decode urlParse clientIP st r now =
     (let (s, counts) = st
      in if r_method r \<noteq> ''POST'' then (st, HttpError 405 ''method not allowed'')
         else if \<not> push_enabled s then (st, HttpError 503 ''push not configured'')
         else let (counts, allowed) = pushIPRateLimiter_allow counts (clientIP r) now
              in if \<not> allowed then ((s, counts), HttpError 429 ''rate limit exceeded'')
                 else case decode (r_body r) of
                        None \<Rightarrow> ((s, counts), HttpError 400 ''invalid JSON body'')
                      | Some req \<Rightarrow>
                          let sub = requestSubscription req
                          in case validatePushSubscription urlParse sub of
                               Some e \<Rightarrow> ((s, counts), HttpError 400 (invalidText e))
                             | None \<Rightarrow> ((push_add s sub now, counts), Subscribed (Endpoint sub)))"

definition pushUnsubscribeHandler ::
    "(string \<Rightarrow> string option) \<Rightarrow> pushSubscriptionStore \<Rightarrow> request \<Rightarrow> pushSubscriptionStore \<times> pushAnswer" where
  \<comment> \<open>\<open>decode\<close> gives the \<open>endpoint\<close> field of the size-limited body\<close>
  "pushUnsubscribeHandler decode s r =
     (if r_method r \<noteq> ''POST'' then (s, HttpError 405 ''method not allowed'')
      else if \<not> push_enabled s then (s, Unsubscribed)
      else case decode (r_body r) of
             None \<Rightarrow> (s, HttpError 400 ''invalid JSON body'')
           | Some endpoint \<Rightarrow> (push_remove s (TrimSpace endpoint), Unsubscribed))"

definition pushSubscriptionStatusHandler :: "pushSubscriptionStore \<Rightarrow> request \<Rightarrow> pushAnswer" where
  "pushSubscriptionStatusHandler s r =
     (if r_method r \<noteq> ''GET'' then HttpError 405 ''method not allowed''
      else if \<not> push_enabled s then HttpError 503 ''push not configured''
      else let endpoint = TrimSpace (r_query r ''endpoint'')
           in if endpoint = [] then HttpError 400 ''endpoint required'' else Registered (push_has s endpoint))"

lemma subscribe_answer:
  assumes "pushSubscribeHandler decode urlParse clientIP (s, counts) r now = ((s', counts'), Subscribed e)"
  shows "\<exists>req. decode (r_body r) = Some req \<and> e = TrimSpace (rq_Endpoint req) \<and> trimmed_key e \<and>
    s' = push_add s (requestSubscription req) now \<and> push_enabled s \<and> r_method r = ''POST''"
  using assms
  by (auto simp: pushSubscribeHandler_def Let_def validatePushSubscription_def requestSubscription_def trimmed_key_def
      split: if_splits option.splits prod.splits)

lemma subscribe_unchanged:
  assumes "pushSubscribeHandler decode urlParse clientIP (s, counts) r now = ((s', counts'), a)" "\<nexists>e. a = Subscribed e"
  shows "s' = s"
  using assms by (auto simp: pushSubscribeHandler_def Let_def split: if_splits option.splits prod.splits)

lemma push_add_enabled [simp]: "push_enabled (push_add s sub now) = push_enabled s"
  by (simp add: push_add_def split: option.splits prod.splits)

lemma subscribe_registers:
  assumes "store_ok s" and "pushSubscribeHandler decode urlParse clientIP (s, counts) r now = ((s', counts'), Subscribed e)"
    and "r_method r' = ''GET''" "TrimSpace (r_query r' ''endpoint'') = e"
  shows "store_ok s' \<and> pushSubscriptionStatusHandler s' r' = Registered True"
proof -
  from subscribe_answer [OF assms(2)] obtain req where
    req: "e = TrimSpace (rq_Endpoint req)" "trimmed_key e" "s' = push_add s (requestSubscription req) now" "push_enabled s"
    by blast
  have E: "Endpoint (requestSubscription req) = e" by (simp add: req(1) requestSubscription_def)
  have ok: "store_ok s'" using push_add_ok [OF assms(1)] E req(2,3) by (simp add: trimmed_key_def)
  have "order s' = (if e \<in> set (order s) then order s
      else (if length (order s) \<ge> pushMaxSubscriptions then tl (order s) else order s) @ [e])"
    using ps.queue_put [OF assms(1), of "(requestSubscription req, now)"] E req(2,3) by simp
  then have "e \<in> set (order s')" by auto
  then have "push_has s' e" using ps.has_queue [OF ok req(2)] by simp
  then show ?thesis using ok assms(3,4) req(2-4) by (simp add: pushSubscriptionStatusHandler_def trimmed_key_def)
qed

end
