(* ===== verification/History.thy ===== *)
theory History
  imports Push LiveArea "HOL-Library.List_Lexorder" "HOL-Library.Char_ord" "HOL-Library.Multiset"
begin

text \<open>
  The time-travel endpoint, from \<^verbatim>\<open>cmd/horstreporter/history.go\<close>: the range and filter of a
  request, the bundle cache with its eviction queue, the fall-back to the hub's history and
  the handler with every answer it can give. The archive query, the JSON and gzip encoding,
  \<open>sort.Slice\<close> (which leaves the order of equal times open) and the number of requests in
  flight are parameters. Times of the limiter and the cache are nanoseconds, times of spots
  seconds.
\<close>

section \<open>Requests\<close>

definition historyMaxSpanSeconds :: int where "historyMaxSpanSeconds = 24 * 60 * 60"
definition historyMaxSpotCount :: nat where "historyMaxSpotCount = 50000"
definition historyMaxConcurrent :: nat where "historyMaxConcurrent = 4"
definition historyCacheMaxEntries :: nat where "historyCacheMaxEntries = 16"
definition historyCacheTTL :: int where "historyCacheTTL = 600000000000"
definition historyLiveEdgeSeconds :: int where "historyLiveEdgeSeconds = 120"

definition newStreamClientFilter :: "query \<Rightarrow> streamClientFilter" where
  "newStreamClientFilter q = streamFilterFromQuery q [] False"

definition historyClientFilter :: "query \<Rightarrow> Client" where
  "historyClientFilter q =
     (let (qth, surroundings) = resolveQTHQuery q;
          cl = \<lparr>qthSet = (if qth \<noteq> [] then QTHSquares qth surroundings else []),
            areaActive = False, areaX = 0, areaY = 0, areaRings = 0\<rparr>;
          rings = parseIntDefault (q ''rings'') 0
      in if rings > 0 \<and> IsLocator qth
         then let rings = (if rings > maxAreaRings then maxAreaRings else rings)
              in case SquareXY qth of
                   None \<Rightarrow> cl
                 | Some (cx, cy) \<Rightarrow> cl\<lparr>areaActive := True, areaX := cx, areaY := cy, areaRings := rings\<rparr>
         else cl)"

definition historyTargetTokens :: "Client \<Rightarrow> string list" where
  "historyTargetTokens cl =
     rev (foldl (\<lambda>tokens t. let u = ToUpper (TrimSpace t) in if u = [] \<or> u \<in> set tokens then tokens else u # tokens)
       [] (qthSet cl))"

definition parseUnixParam :: "query \<Rightarrow> string \<Rightarrow> int" where
  "parseUnixParam q name =
     (let raw = TrimSpace (q name)
      in if raw = [] then 0 else case Atoi raw of None \<Rightarrow> 0 | Some v \<Rightarrow> v)"

definition resolveHistoryRange :: "query \<Rightarrow> int \<Rightarrow> int \<times> int" where
  "resolveHistoryRange q now =
     (let t0 = parseUnixParam q ''t0'';
          t1 = parseUnixParam q ''t1'';
          t1 = (if t1 \<le> 0 \<or> t1 > now then now else t1);
          t0 = (if t0 \<le> 0 then t1 - 15 * 60 else t0);
          (t0, t1) = (if t1 < t0 then (t1, t0) else (t0, t1));
          t0 = (if t1 - t0 > historyMaxSpanSeconds then t1 - historyMaxSpanSeconds else t0)
      in (t0, t1))"

fun join :: "string \<Rightarrow> string list \<Rightarrow> string" where
  "join sep [] = []"
| "join sep [x] = x"
| "join sep (x # y # xs) = x @ sep @ join sep (y # xs)"

definition historyCacheKey :: "string \<Rightarrow> int \<Rightarrow> int \<Rightarrow> streamClientFilter \<Rightarrow> int \<Rightarrow> string" where
  "historyCacheKey qth t0 t1 filt rings =
     qth @ ''|'' @ itoa t0 @ ''|'' @ itoa t1 @ ''|'' @ itoa rings @ ''|'' @ minSnrMode filt @ ''|'' @
     itoa (ssbMinDb filt) @ ''|'' @ itoa (cwMinDb filt) @ ''|'' @
     join '','' (sorted_list_of_set (enabledBands filt))"

lemma resolveHistoryRange_ok:
  assumes "resolveHistoryRange q now = (t0, t1)" and "0 \<le> now"
  shows "t0 \<le> t1 \<and> t1 - t0 \<le> historyMaxSpanSeconds" and "parseUnixParam q ''t0'' \<le> now \<Longrightarrow> t1 \<le> now"
  using assms by (auto simp: resolveHistoryRange_def Let_def historyMaxSpanSeconds_def split: if_splits)

lemma historyTargetTokens_spec:
  "distinct (historyTargetTokens c) \<and>
   set (historyTargetTokens c) = {u. u \<noteq> [] \<and> (\<exists>t\<in>set (qthSet c). u = ToUpper (TrimSpace t))}"
proof -
  have "distinct (foldl (\<lambda>tokens t. let u = ToUpper (TrimSpace t) in if u = [] \<or> u \<in> set tokens then tokens else u # tokens) acc ts) \<and>
     set (foldl (\<lambda>tokens t. let u = ToUpper (TrimSpace t) in if u = [] \<or> u \<in> set tokens then tokens else u # tokens) acc ts)
       = set acc \<union> {u. u \<noteq> [] \<and> (\<exists>t\<in>set ts. u = ToUpper (TrimSpace t))}" if "distinct acc" for acc ts
    using that by (induction ts arbitrary: acc) (auto simp: Let_def)
  from this [of "[]" "qthSet c"] show ?thesis by (simp add: historyTargetTokens_def)
qed

section \<open>The bundle cache\<close>

record 'b historyCacheEntry =
  hc_body :: 'b
  cachedAt :: int

record 'b historyCache =
  hc_entries :: "(string \<times> 'b historyCacheEntry) list"
  eviction :: "string list"

definition emptyHistoryCache :: "'b historyCache" where
  "emptyHistoryCache = \<lparr>hc_entries = [], eviction = []\<rparr>"

definition historyCache_get :: "'b historyCache \<Rightarrow> string \<Rightarrow> int \<Rightarrow> 'b historyCache \<times> 'b option" where
  "historyCache_get c key now =
     (case map_of (hc_entries c) key of
        None \<Rightarrow> (c, None)
      | Some e \<Rightarrow> if now - cachedAt e > historyCacheTTL
                  then (c\<lparr>hc_entries := AList.delete key (hc_entries c)\<rparr>, None)
                  else (c, Some (hc_body e)))"

text \<open>\<open>None\<close> is the index panic of \<open>eviction[0]\<close> on an empty queue.\<close>

fun evictDown :: "string list \<Rightarrow> (string \<times> 'b historyCacheEntry) list \<Rightarrow>
    (string list \<times> (string \<times> 'b historyCacheEntry) list) option" where
  "evictDown [] m = (if length m > historyCacheMaxEntries then None else Some ([], m))"
| "evictDown (oldest # rest) m =
     (if length m > historyCacheMaxEntries then evictDown rest (AList.delete oldest m) else Some (oldest # rest, m))"

definition historyCache_put :: "'b historyCache \<Rightarrow> string \<Rightarrow> 'b \<Rightarrow> int \<Rightarrow> 'b historyCache option" where
  "historyCache_put c key body now =
     (case map_of (hc_entries c) key of
        Some e \<Rightarrow> Some (c\<lparr>hc_entries := AList.update key (e\<lparr>hc_body := body, cachedAt := now\<rparr>) (hc_entries c)\<rparr>)
      | None \<Rightarrow>
          map_option (\<lambda>(ev, m). \<lparr>hc_entries = m, eviction = ev\<rparr>)
            (evictDown (eviction c @ [key]) (AList.update key \<lparr>hc_body = body, cachedAt = now\<rparr> (hc_entries c))))"

definition history_cache_ok :: "'b historyCache \<Rightarrow> bool" where
  "history_cache_ok c \<longleftrightarrow> distinct (map fst (hc_entries c)) \<and> fst ` set (hc_entries c) \<subseteq> set (eviction c) \<and>
     length (hc_entries c) \<le> historyCacheMaxEntries"

text \<open>The queue names every entry, so the loop always finds something to evict.\<close>

lemma evictDown_ok:
  assumes "distinct (map fst m)" "fst ` set m \<subseteq> set ev"
  shows "\<exists>ev' m'. evictDown ev m = Some (ev', m') \<and> distinct (map fst m') \<and> fst ` set m' \<subseteq> set ev' \<and>
    length m' \<le> historyCacheMaxEntries \<and> (\<forall>k. map_of m' k \<in> {map_of m k, None}) \<and>
    (length m \<le> historyCacheMaxEntries \<longrightarrow> m' = m)"
  using assms
proof (induction ev m rule: evictDown.induct)
  case (1 m)
  then show ?case by simp
next
  case (2 oldest rest m)
  show ?case
  proof (cases "length m > historyCacheMaxEntries")
    case True
    have "distinct (map fst (AList.delete oldest m))" "fst ` set (AList.delete oldest m) \<subseteq> set rest"
      using 2(2,3) by (auto simp: assoc)
    from 2(1) [OF True this] obtain ev' m' where e: "evictDown rest (AList.delete oldest m) = Some (ev', m')"
      "distinct (map fst m')" "fst ` set m' \<subseteq> set ev'" "length m' \<le> historyCacheMaxEntries"
      "\<forall>k. map_of m' k \<in> {map_of (AList.delete oldest m) k, None}" by blast
    have "map_of m' k \<in> {map_of m k, None}" for k
      using e(5) [rule_format, of k] by (simp only: map_of_delete split: if_splits) auto
    then show ?thesis using True e(1-4) by simp
  qed (use 2(2,3) in simp)
qed

lemma historyCache_put_ok:
  assumes "history_cache_ok c"
  shows "\<exists>c'. historyCache_put c key body now = Some c' \<and> history_cache_ok c' \<and>
    map_of (hc_entries c') key \<in> {Some \<lparr>hc_body = body, cachedAt = now\<rparr>, None} \<and>
    (\<forall>k. k \<noteq> key \<longrightarrow> map_of (hc_entries c') k \<in> {map_of (hc_entries c) k, None})"
proof (cases "map_of (hc_entries c) key")
  case (Some e)
  then have "key \<in> fst ` set (hc_entries c)" by (metis domI dom_map_of_conv_image_fst)
  then show ?thesis
    using assms Some by (simp add: historyCache_put_def history_cache_ok_def assoc dom_update insert_absorb)
next
  case None
  define m where "m = AList.update key \<lparr>hc_body = body, cachedAt = now\<rparr> (hc_entries c)"
  have "distinct (map fst m)" "fst ` set m \<subseteq> set (eviction c @ [key])"
    using assms by (auto simp: m_def history_cache_ok_def assoc dest!: alist_update_mem)
  from evictDown_ok [OF this] obtain ev' m' where
    e: "evictDown (eviction c @ [key]) m = Some (ev', m')" "distinct (map fst m')" "fst ` set m' \<subseteq> set ev'"
      "length m' \<le> historyCacheMaxEntries" "\<And>k. map_of m' k \<in> {map_of m k, None}" by blast
  have "map_of m' key \<in> {Some \<lparr>hc_body = body, cachedAt = now\<rparr>, None}"
    using e(5) [of key] by (simp add: m_def assoc)
  moreover have "\<forall>k. k \<noteq> key \<longrightarrow> map_of m' k \<in> {map_of (hc_entries c) k, None}"
  proof (intro allI impI)
    fix k show "k \<noteq> key \<Longrightarrow> map_of m' k \<in> {map_of (hc_entries c) k, None}"
      using e(5) [of k] by (simp add: m_def assoc)
  qed
  ultimately show ?thesis using None e(1-4) by (simp add: historyCache_put_def history_cache_ok_def m_def)
qed

definition history_lookup :: "'b historyCache \<Rightarrow> string \<Rightarrow> int \<Rightarrow> 'b historyCache \<times> 'b historyCacheEntry option" where
  "history_lookup c key now =
     (fst (historyCache_get c key now),
      case map_of (hc_entries c) key of Some e \<Rightarrow> if now - cachedAt e \<le> historyCacheTTL then Some e else None | None \<Rightarrow> None)"

definition history_store :: "'b historyCache \<Rightarrow> string \<Rightarrow> 'b historyCacheEntry \<Rightarrow> int \<Rightarrow> 'b historyCache" where
  "history_store c key e now = the (historyCache_put c key (hc_body e) (cachedAt e))"

lemma get_lookup: "snd (historyCache_get c key now) = map_option hc_body (snd (history_lookup c key now))"
  by (simp add: historyCache_get_def history_lookup_def split: option.splits)

interpretation hc: ttl_cache history_cache_ok "\<lambda>c. map_of (hc_entries c)" "\<lambda>e now. now - cachedAt e \<le> historyCacheTTL"
  history_lookup history_store "\<lambda>c. length (hc_entries c)" historyCacheMaxEntries
proof
  fix c :: "'b historyCache" and k k' :: string and e :: "'b historyCacheEntry" and now
  assume ok: "history_cache_ok c"
  show "history_cache_ok (fst (history_lookup c k now))"
    using ok length_delete [of "hc_entries c" k]
    by (auto simp: history_lookup_def historyCache_get_def history_cache_ok_def assoc split: option.splits)
  obtain c' where c': "historyCache_put c k (hc_body e) (cachedAt e) = Some c'" "history_cache_ok c'"
    "map_of (hc_entries c') k \<in> {Some e, None}"
    "\<forall>k'. k' \<noteq> k \<longrightarrow> map_of (hc_entries c') k' \<in> {map_of (hc_entries c) k', None}"
    using historyCache_put_ok [OF ok, of k "hc_body e" "cachedAt e"] by auto
  show "history_cache_ok (history_store c k e now)" "map_of (hc_entries (history_store c k e now)) k \<in> {Some e, None}"
    using c' by (simp_all add: history_store_def)
  show "k' \<noteq> k \<Longrightarrow> map_of (hc_entries (history_store c k e now)) k' \<in> {map_of (hc_entries c) k', None}"
    using c' by (simp add: history_store_def)
  show "length (hc_entries c) \<le> historyCacheMaxEntries" using ok by (simp add: history_cache_ok_def)
qed (auto simp: history_lookup_def historyCache_get_def assoc split: option.splits if_splits)

text \<open>
  Expiry leaves the key in the queue, so a key that comes back stands there twice, and the
  older mention evicts the new entry: what was just stored is gone at once.
\<close>

definition staleQueue :: "nat historyCache" where
  "staleQueue =
     (let c = the (historyCache_put emptyHistoryCache ''Q'' 0 0);
          c = fst (historyCache_get c ''Q'' (historyCacheTTL + 1))
      in foldl (\<lambda>c k. the (historyCache_put c [k] 0 (historyCacheTTL + 2))) c ''abcdefghijklmnop'')"

lemma put_can_lose:
  "map_option (\<lambda>c. snd (historyCache_get c ''Q'' (historyCacheTTL + 3))) (historyCache_put staleQueue ''Q'' 7 (historyCacheTTL + 3)) = Some None"
  by code_simp


section \<open>Bundles\<close>

record historySpot =
  hs_t :: int
  hs_lat :: real
  hs_lng :: real
  hs_snr :: int
  hs_locator :: string
  hs_reporterLocator :: string
  hs_sourceType :: string
  hs_band :: string
  hs_sender :: string
  hs_receiver :: string

record historyResponse =
  res_QTH :: string
  res_T0 :: int
  res_T1 :: int
  Generated :: int
  Truncated :: bool
  res_Count :: nat
  Spots :: "historySpot list"

definition historySpotOf :: "Client \<Rightarrow> streamClientFilter \<Rightarrow> int \<Rightarrow> MQTTMessage \<Rightarrow> historySpot option" where
  \<comment> \<open>one pass of the loop of \<open>historySpotsFromMessages\<close>\<close>
  "historySpotOf cl filt now m =
     (case matchAndCreateSpot cl m now of
        None \<Rightarrow> None
      | Some spot \<Rightarrow>
          if \<not> spotAllowed filt spot then None
          else Some \<lparr>hs_t = T m, hs_lat = Lat spot, hs_lng = Lng spot, hs_snr = SNR spot, hs_locator = Locator spot,
            hs_reporterLocator = ReporterLocator spot, hs_sourceType = SourceType spot, hs_band = Band spot,
            hs_sender = Sender spot, hs_receiver = Receiver spot\<rparr>)"

definition historySpotsFromMessages :: "Client \<Rightarrow> streamClientFilter \<Rightarrow> int \<Rightarrow> MQTTMessage list \<Rightarrow> historySpot list" where
  "historySpotsFromMessages cl filt now ms = List.map_filter (historySpotOf cl filt now) ms"

definition historyMessagesFromHub :: "(MQTTMessage list \<Rightarrow> MQTTMessage list) \<Rightarrow> Hub \<Rightarrow> int \<Rightarrow> int \<Rightarrow> MQTTMessage list" where
  \<comment> \<open>\<open>sorter\<close> is \<open>sort.Slice\<close> by \<open>T\<close>\<close>
  "historyMessagesFromHub sorter h t0 t1 =
     (let idx = sort_Search (length (hub_history h)) (\<lambda>i. T (hub_history h ! i) \<ge> t0)
      in sorter (filter (\<lambda>m. T m \<le> t1) (windowFromLocked h idx)))"

definition sorts_by_time :: "(MQTTMessage list \<Rightarrow> MQTTMessage list) \<Rightarrow> bool" where
  "sorts_by_time sorter \<longleftrightarrow> (\<forall>ms. mset (sorter ms) = mset ms \<and> sorted (map T (sorter ms)))"

definition oldestHubHistoryTime :: "Hub \<Rightarrow> int" where
  "oldestHubHistoryTime h = (if hub_history h = [] then 0 else T (hub_history h ! 0))"

lemma historyMessages_window:
  assumes "sorts_by_time sorter" "sorted (map T (hub_history h))"
  shows "mset (historyMessagesFromHub sorter h t0 t1) = mset (filter (\<lambda>m. t0 \<le> T m \<and> T m \<le> t1) (hub_history h)) \<and>
    sorted (map T (historyMessagesFromHub sorter h t0 t1))"
proof -
  have "drop (sort_Search (length (hub_history h)) (\<lambda>i. T (hub_history h ! i) \<ge> t0)) (hub_history h)
      = filter (\<lambda>m. t0 \<le> T m) (hub_history h)"
    using sorted_search_drop(1) [OF assms(2)] .
  then show ?thesis
    using assms(1) by (auto simp: historyMessagesFromHub_def windowFromLocked_def sorts_by_time_def Let_def
        intro!: arg_cong [where f = mset] filter_cong)
qed

section \<open>The handler\<close>

record 'b historyServer =
  hs_limits :: "(string \<times> ipWindow) list"
  hs_cache :: "'b historyCache"

datatype 'b historyAnswer =
    HistoryError int string
  | HistoryHit 'b
  | HistoryBundle "int option" 'b \<comment> \<open>\<open>X-History-Reach\<close>, when set, and the body\<close>
  | HistoryPanic

definition historyBundle :: "string \<Rightarrow> int \<Rightarrow> int \<Rightarrow> int \<Rightarrow> historySpot list \<Rightarrow> historyResponse" where
  "historyBundle qth t0 t1 now spots =
     (let truncated = length spots > historyMaxSpotCount;
          spots = (if truncated then drop (length spots - historyMaxSpotCount) spots else spots)
      in \<lparr>res_QTH = qth, res_T0 = t0, res_T1 = t1, Generated = now, Truncated = truncated,
          res_Count = length spots, Spots = spots\<rparr>)"

definition historyMiss ::
    "(int \<Rightarrow> int \<Rightarrow> string list \<Rightarrow> MQTTMessage list option) \<Rightarrow> (historyResponse \<Rightarrow> 'b option) \<Rightarrow>
     (MQTTMessage list \<Rightarrow> MQTTMessage list) \<Rightarrow> Hub \<Rightarrow> 'b historyCache \<Rightarrow>
     string \<Rightarrow> string \<Rightarrow> int \<Rightarrow> int \<Rightarrow> Client \<Rightarrow> streamClientFilter \<Rightarrow> int \<Rightarrow> 'b historyCache \<times> 'b historyAnswer" where
  \<comment> \<open>the part of the handler that holds the gate: \<open>load\<close> is the archive (\<open>None\<close>: no store, or an
     error), \<open>encode\<close> is \<open>encodeHistoryBody\<close>, \<open>ns\<close> is the clock\<close>
  "historyMiss load encode sorter h cache cacheKey qth t0 t1 cl filt ns =
     (let now = ns div 1000000000;
          histStart = oldestHubHistoryTime h;
          archived = load t0 t1 (historyTargetTokens cl)
      in if archived = None \<and> (histStart = 0 \<or> t1 < histStart)
         then (case encode \<lparr>res_QTH = qth, res_T0 = t0, res_T1 = t1, Generated = now, Truncated = False, res_Count = 0, Spots = []\<rparr> of
                 None \<Rightarrow> (cache, HistoryError 500 ''encode failed'')
               | Some body \<Rightarrow> (cache, HistoryBundle (Some histStart) body))
         else let (reach, found) = (case archived of
                    Some found \<Rightarrow> (None, found)
                  | None \<Rightarrow> (Some histStart, historyMessagesFromHub sorter h t0 t1));
                  spots = historySpotsFromMessages cl filt now found
              in case encode (historyBundle qth t0 t1 now spots) of
                   None \<Rightarrow> (cache, HistoryError 500 ''encode failed'')
                 | Some body \<Rightarrow>
                     if t1 < now - historyLiveEdgeSeconds
                     then (case historyCache_put cache cacheKey body ns of
                             None \<Rightarrow> (cache, HistoryPanic)
                           | Some cache \<Rightarrow> (cache, HistoryBundle reach body))
                     else (cache, HistoryBundle reach body))"

definition historyHandler ::
    "(int \<Rightarrow> int \<Rightarrow> string list \<Rightarrow> MQTTMessage list option) \<Rightarrow> (historyResponse \<Rightarrow> 'b option) \<Rightarrow>
     (MQTTMessage list \<Rightarrow> MQTTMessage list) \<Rightarrow> (request \<Rightarrow> string) \<Rightarrow> nat \<Rightarrow> Hub \<Rightarrow> 'b historyServer \<Rightarrow>
     request \<Rightarrow> int \<Rightarrow> 'b historyServer \<times> 'b historyAnswer" where
  \<comment> \<open>\<open>inflight\<close> counts the other requests holding the gate\<close>
  "historyHandler load encode sorter clientIP inflight h sv r ns =
     (if r_method r \<noteq> ''GET'' then (sv, HistoryError 405 ''method not allowed'')
      else let now = ns div 1000000000; qth = fst (resolveQTHQuery (r_query r))
           in if qth = [] then (sv, HistoryError 400 ''qth required'')
              else let (limits, allowed) = historyLimiter_allow (hs_limits sv) (clientIP r) ns
                   in if \<not> allowed then (sv\<lparr>hs_limits := limits\<rparr>, HistoryError 429 ''rate limit exceeded'')
                      else let cl = historyClientFilter (r_query r)
                           in if qthSet cl = [] \<and> \<not> areaActive cl
                              then (sv\<lparr>hs_limits := limits\<rparr>, HistoryError 400 ''qth required'')
                              else let (t0, t1) = resolveHistoryRange (r_query r) now;
                                       filt = newStreamClientFilter (r_query r);
                                       rings = (if areaActive cl then areaRings cl else 0);
                                       cacheKey = historyCacheKey qth t0 t1 filt rings;
                                       (cache, hit) = historyCache_get (hs_cache sv) cacheKey ns;
                                       (cache, answer) = (case hit of
                                           Some body \<Rightarrow> (cache, HistoryHit body)
                                         | None \<Rightarrow>
                                             if inflight \<ge> historyMaxConcurrent
                                             then (cache, HistoryError 503 ''history endpoint busy'')
                                             else historyMiss load encode sorter h cache cacheKey qth t0 t1 cl filt ns)
                                   in (sv\<lparr>hs_limits := limits, hs_cache := cache\<rparr>, answer))"

lemma historyMiss_cache_ok:
  assumes "history_cache_ok cache"
  shows "history_cache_ok (fst (historyMiss load encode sorter h cache key qth t0 t1 cl filt ns)) \<and>
    snd (historyMiss load encode sorter h cache key qth t0 t1 cl filt ns) \<noteq> HistoryPanic"
proof -
  have put: "\<exists>c'. historyCache_put cache key b ns = Some c' \<and> history_cache_ok c'" for b
    using historyCache_put_ok [OF assms] by blast
  show ?thesis
  proof (cases "load t0 t1 (historyTargetTokens cl) = None \<and> (oldestHubHistoryTime h = 0 \<or> t1 < oldestHubHistoryTime h)")
    case True
    then show ?thesis using assms by (auto simp: historyMiss_def Let_def split: option.splits)
  next
    case False
    obtain reach found where f: "(case load t0 t1 (historyTargetTokens cl) of Some found \<Rightarrow> (None, found)
        | None \<Rightarrow> (Some (oldestHubHistoryTime h), historyMessagesFromHub sorter h t0 t1)) = (reach, found)"
      by fastforce
    define body where "body = encode (historyBundle qth t0 t1 (ns div 1000000000)
        (historySpotsFromMessages cl filt (ns div 1000000000) found))"
    have *: "historyMiss load encode sorter h cache key qth t0 t1 cl filt ns = (case body of
        None \<Rightarrow> (cache, HistoryError 500 ''encode failed'')
      | Some body \<Rightarrow>
          if t1 < ns div 1000000000 - historyLiveEdgeSeconds
          then (case historyCache_put cache key body ns of
                  None \<Rightarrow> (cache, HistoryPanic)
                | Some cache \<Rightarrow> (cache, HistoryBundle reach body))
          else (cache, HistoryBundle reach body))"
      using False f by (cases "load t0 t1 (historyTargetTokens cl)") (auto simp: historyMiss_def Let_def body_def)
    then show ?thesis
    proof (cases body)
      case (Some b)
      obtain c' where "historyCache_put cache key b ns = Some c'" "history_cache_ok c'" using put by blast
      then show ?thesis using * assms Some by simp
    qed (simp add: assms)
  qed
qed

lemma historyHandler_cases:
  obtains (refused) status what limits where "historyHandler load encode sorter clientIP inflight h sv r ns = (sv\<lparr>hs_limits := limits\<rparr>, HistoryError status what)"
  | (looked) limits t0 t1 key where
      "historyLimiter_allow (hs_limits sv) (clientIP r) ns = (limits, True)"
      "resolveHistoryRange (r_query r) (ns div 1000000000) = (t0, t1)"
      "key = historyCacheKey (fst (resolveQTHQuery (r_query r))) t0 t1 (newStreamClientFilter (r_query r))
        (if areaActive (historyClientFilter (r_query r)) then areaRings (historyClientFilter (r_query r)) else 0)"
      "historyHandler load encode sorter clientIP inflight h sv r ns =
        (let (cache, hit) = historyCache_get (hs_cache sv) key ns;
             (cache, answer) = (case hit of
                 Some body \<Rightarrow> (cache, HistoryHit body)
               | None \<Rightarrow>
                   if inflight \<ge> historyMaxConcurrent then (cache, HistoryError 503 ''history endpoint busy'')
                   else historyMiss load encode sorter h cache key (fst (resolveQTHQuery (r_query r))) t0 t1
                     (historyClientFilter (r_query r)) (newStreamClientFilter (r_query r)) ns)
         in (sv\<lparr>hs_limits := limits, hs_cache := cache\<rparr>, answer))"
proof (cases "r_method r \<noteq> ''GET'' \<or> fst (resolveQTHQuery (r_query r)) = []")
  case True
  then have "\<exists>status what. historyHandler load encode sorter clientIP inflight h sv r ns = (sv\<lparr>hs_limits := hs_limits sv\<rparr>, HistoryError status what)"
    by (auto simp: historyHandler_def)
  then show ?thesis using refused by blast
next
  case False
  obtain limits allowed where l: "historyLimiter_allow (hs_limits sv) (clientIP r) ns = (limits, allowed)" by fastforce
  obtain t0 t1 where t: "resolveHistoryRange (r_query r) (ns div 1000000000) = (t0, t1)" by fastforce
  show ?thesis
  proof (cases "allowed \<and> \<not> (qthSet (historyClientFilter (r_query r)) = [] \<and> \<not> areaActive (historyClientFilter (r_query r)))")
    case True
    then show ?thesis using looked [OF _ t refl] False l t by (auto simp: historyHandler_def Let_def)
  next
    case no: False
    then have "\<exists>status what. historyHandler load encode sorter clientIP inflight h sv r ns = (sv\<lparr>hs_limits := limits\<rparr>, HistoryError status what)"
      using False l by (auto simp: historyHandler_def Let_def)
    then show ?thesis using refused by blast
  qed
qed

lemma handler_cache_ok:
  assumes "history_cache_ok (hs_cache sv)"
  shows "history_cache_ok (hs_cache (fst (historyHandler load encode sorter clientIP inflight h sv r ns)))
    \<and> snd (historyHandler load encode sorter clientIP inflight h sv r ns) \<noteq> HistoryPanic"
proof (cases rule: historyHandler_cases [where load = load and encode = encode and sorter = sorter and
    clientIP = clientIP and inflight = inflight and h = h and sv = sv and r = r and ns = ns])
  case (refused status what limits)
  then show ?thesis using assms by simp
next
  case (looked limits t0 t1 key)
  have get: "history_cache_ok (fst (historyCache_get (hs_cache sv) key ns))"
    using hc.lookup_inv [OF assms, of key ns] by (simp add: history_lookup_def)
  obtain cache hit where c: "historyCache_get (hs_cache sv) key ns = (cache, hit)" by fastforce
  have miss: "historyMiss load encode sorter h cache key q t0 t1 cl filt ns = (cache', a) \<Longrightarrow> history_cache_ok cache' \<and> a \<noteq> HistoryPanic"
    for q cl filt cache' a
    using historyMiss_cache_ok [of cache load encode sorter h key q t0 t1 cl filt ns] get c by simp
  show ?thesis
    unfolding looked(4) using get miss by (auto simp: c split: prod.splits option.splits)
qed

end
