(* ===== verification/AlmanacSparse.thy ===== *)
theory AlmanacSparse
  imports Prelude
begin

unbundle bit_operations_syntax

text \<open>
  The on-disk format of a month of counts, from \<^verbatim>\<open>cmd/horstreporter/almanac_sparse.go\<close>: a
  dense grid of 31 x 48 saturating counts with an SNR histogram each, stored as gaps, counts,
  masks and bins. A byte is a \<open>nat\<close> below 256. The encoder and the validating decoder are
  inverse to each other on every grid, the encoded length is what the size function says,
  and replacing a day touches that day only.
\<close>

section \<open>Bytes and varints\<close>

definition almanacSeasonSlotsPerDay :: nat where "almanacSeasonSlotsPerDay = 48"
definition almanacSeasonCountsLen :: nat where "almanacSeasonCountsLen = 31 * 48"
definition almanacSNRBins :: nat where "almanacSNRBins = 6"
definition almanacSNRTiers :: nat where "almanacSNRTiers = almanacSNRBins - 1"

definition byte_ok :: "nat \<Rightarrow> bool" where
  "byte_ok b \<longleftrightarrow> b < 256"

definition satAdd8 :: "nat \<Rightarrow> int \<Rightarrow> nat" where
  \<comment> \<open>the \<open>int64\<close> sum may wrap to a negative value\<close>
  "satAdd8 p v =
     (if v \<le> 0 then p
      else let s = i64 (int p + v) in if s \<ge> 255 \<or> s < 0 then 255 else nat s)"

fun AppendUvarint :: "nat \<Rightarrow> nat list" where
  \<comment> \<open>the bytes \<open>binary.AppendUvarint\<close> appends\<close>
  "AppendUvarint x = (if x \<ge> 128 then (x mod 128 + 128) # AppendUvarint (x div 128) else [x])"

declare AppendUvarint.simps [simp del]

fun Uvarint_loop :: "nat \<Rightarrow> nat \<Rightarrow> nat \<Rightarrow> nat list \<Rightarrow> (nat \<times> nat) option" where
  \<comment> \<open>\<open>binary.Uvarint\<close> from byte \<open>i\<close> on, with \<open>x\<close> read so far and shift \<open>s\<close>; \<open>None\<close> for n \<open>\<le> 0\<close>\<close>
  "Uvarint_loop i x s [] = None"
| "Uvarint_loop i x s (b # bs) =
     (if i = 10 then None
      else if b < 128 then (if i = 9 \<and> b > 1 then None else Some (x OR push_bit s b, i + 1))
      else Uvarint_loop (i + 1) (x OR push_bit s (b mod 128)) (s + 7) bs)"

definition Uvarint :: "nat list \<Rightarrow> (nat \<times> nat) option" where
  "Uvarint bs = Uvarint_loop 0 0 0 bs"

function uvarintLen_loop :: "nat \<Rightarrow> nat \<Rightarrow> nat" where
  "uvarintLen_loop n x = (if x \<ge> 128 then uvarintLen_loop (n + 1) (drop_bit 7 x) else n)"
  by pat_completeness auto
termination by (relation "measure snd") (auto simp: drop_bit_eq_div)

declare uvarintLen_loop.simps [simp del]

definition almanacUvarintLen :: "nat \<Rightarrow> nat" where
  "almanacUvarintLen x = uvarintLen_loop 1 x"

lemma uvarintLen_loop_eq: "uvarintLen_loop (Suc n) x = n + length (AppendUvarint x)"
proof (induction x arbitrary: n rule: AppendUvarint.induct)
  case (1 x)
  show ?case
    using 1 [of "Suc n"]
    by (subst AppendUvarint.simps, subst uvarintLen_loop.simps) (simp add: drop_bit_eq_div)
qed

lemma almanacUvarintLen_eq: "almanacUvarintLen x = length (AppendUvarint x)"
  using uvarintLen_loop_eq [of 0 x] by (simp add: almanacUvarintLen_def)

lemma AppendUvarint_bytes: "\<forall>b\<in>set (AppendUvarint x). byte_ok b"
proof (induction x rule: AppendUvarint.induct)
  case (1 x)
  have "x mod 128 + 128 < 256" using mod_less_divisor [of 128 x] by linarith
  then show ?case using 1 by (subst AppendUvarint.simps) (auto simp: byte_ok_def)
qed

lemma or_push_bit:
  assumes "(acc :: nat) < 2 ^ s"
  shows "acc OR push_bit s b = acc + b * 2 ^ s"
proof -
  have "\<not> bit acc n \<or> \<not> bit (push_bit s b) n" for n
  proof (cases "n < s")
    case False
    then have "acc < 2 ^ n" using assms by (meson le_less_trans less_le_trans not_less one_le_numeral power_increasing)
    then show ?thesis by (simp add: bit_iff_odd)
  qed (simp add: bit_push_bit_iff)
  then have "acc + push_bit s b = acc OR push_bit s b" by (rule disjunctive_add)
  then show ?thesis by (simp add: push_bit_eq_mult)
qed

lemma Uvarint_loop_Append:
  assumes "acc < 2 ^ s" "s = 7 * i" "i \<le> 9" "x < 2 ^ (64 - s)"
  shows "Uvarint_loop i acc s (AppendUvarint x @ rest) = Some (acc + x * 2 ^ s, i + length (AppendUvarint x))"
  using assms
proof (induction x arbitrary: i acc s rule: AppendUvarint.induct)
  case (1 x)
  show ?case
  proof (cases "x \<ge> 128")
    case True
    have i: "i \<le> 8"
    proof (rule ccontr)
      assume "\<not> i \<le> 8"
      then have "i = 9" using 1(4) by simp
      then show False using 1(3,5) True by simp
    qed
    define r where "r = x mod 128"
    have r: "r < 128" by (simp add: r_def)
    have x: "x = r + x div 128 * 128" by (simp add: r_def)
    have acc: "acc OR push_bit s r = acc + r * 2 ^ s" by (rule or_push_bit) (rule 1(2))
    have "acc + r * 2 ^ s < 2 ^ (s + 7)"
    proof -
      have "acc + r * 2 ^ s < (r + 1) * 2 ^ s" using 1(2) by simp
      also have "\<dots> \<le> 128 * 2 ^ s" using r by (intro mult_right_mono) simp_all
      finally show ?thesis by (simp add: power_add)
    qed
    moreover have "x div 128 < 2 ^ (64 - (s + 7))"
    proof -
      have e: "64 - s = 64 - (s + 7) + 7" using 1(3) i by simp
      have "x < 2 ^ (64 - (s + 7)) * 128" using 1(5) unfolding e by (simp only: power_add) simp
      then show ?thesis by (simp add: less_mult_imp_div_less)
    qed
    ultimately have "Uvarint_loop (i + 1) (acc + r * 2 ^ s) (s + 7) (AppendUvarint (x div 128) @ rest)
        = Some (acc + r * 2 ^ s + x div 128 * 2 ^ (s + 7), i + 1 + length (AppendUvarint (x div 128)))"
      using 1(3) i by (intro 1(1) True) simp_all
    moreover have "acc + r * 2 ^ s + x div 128 * 2 ^ (s + 7) = acc + x * 2 ^ s"
      by (subst (2) x) (simp add: power_add algebra_simps)
    ultimately show ?thesis
      using True r i acc by (subst (1 2) AppendUvarint.simps) (simp add: r_def)
  next
    case False
    have "x \<le> 1" if "i = 9" using 1(3,5) that by simp
    then show ?thesis
      using False 1(4) or_push_bit [OF 1(2), of x] by (subst (1 2) AppendUvarint.simps) auto
  qed
qed

lemma Uvarint_Append: "x < 2 ^ 64 \<Longrightarrow> Uvarint (AppendUvarint x @ rest) = Some (x, length (AppendUvarint x))"
  using Uvarint_loop_Append [of 0 0 0 x rest] by (simp add: Uvarint_def)

lemma AppendUvarint_length: "1 \<le> length (AppendUvarint x)"
  by (subst AppendUvarint.simps) simp

lemma Uvarint_loop_pos: "Uvarint_loop i x s bs = Some (v, n) \<Longrightarrow> i < n \<and> n \<le> i + length bs"
  by (induction i x s bs rule: Uvarint_loop.induct) (auto split: if_splits)

lemma Uvarint_pos: "Uvarint bs = Some (v, n) \<Longrightarrow> 0 < n \<and> n \<le> length bs"
  using Uvarint_loop_pos [of 0 0 0 bs v n] by (simp add: Uvarint_def)


section \<open>Histograms\<close>

type_synonym snrHist = "nat list"

definition zeroHist :: snrHist where
  "zeroHist = replicate almanacSNRBins 0"

definition almanacSNRHist_total :: "snrHist \<Rightarrow> nat" where
  "almanacSNRHist_total h = foldl (\<lambda>n v. n + v) 0 h"

definition almanacSNRHist_atLeast :: "snrHist \<Rightarrow> nat \<Rightarrow> nat" where
  "almanacSNRHist_atLeast h tier = foldl (\<lambda>n b. n + h ! b) 0 [tier + 1 ..< almanacSNRBins]"

fun histFromCounts_loop :: "int \<Rightarrow> int list \<Rightarrow> snrHist" where
  "histFromCounts_loop prev [] = [satAdd8 0 (prev - 0)]"
| "histFromCounts_loop prev (g # ge) = satAdd8 0 (prev - g) # histFromCounts_loop g ge"

definition almanacSNRHistFromCounts :: "int \<Rightarrow> int list \<Rightarrow> snrHist" where
  \<comment> \<open>\<open>ge\<close> is the array of the \<open>almanacSNRTiers\<close> cumulative counts\<close>
  "almanacSNRHistFromCounts nSNR ge = histFromCounts_loop nSNR ge"

definition almanacSNRHist_add :: "snrHist \<Rightarrow> snrHist \<Rightarrow> snrHist" where
  "almanacSNRHist_add h d = map2 (\<lambda>a b. satAdd8 a (int b)) h d"

lemma satAdd8_byte: "byte_ok p \<Longrightarrow> byte_ok (satAdd8 p v)"
  by (auto simp: satAdd8_def byte_ok_def Let_def)

lemma satAdd8_min: "byte_ok p \<Longrightarrow> 0 \<le> v \<Longrightarrow> v < 2 ^ 62 \<Longrightarrow> satAdd8 p v = min 255 (p + nat v)"
  by (auto simp: satAdd8_def byte_ok_def Let_def i64_def min_def)

lemma histFromCounts_eq:
  "\<forall>x\<in>set (n # ge). 0 \<le> x \<and> x < 2 ^ 62 \<Longrightarrow> sorted (rev (n # ge)) \<Longrightarrow>
   histFromCounts_loop n ge = map2 (\<lambda>a b. min 255 (nat (a - b))) (n # ge) (ge @ [0])"
proof (induction ge arbitrary: n)
  case Nil
  then show ?case using satAdd8_min [of 0 n] by (simp add: byte_ok_def)
next
  case (Cons g ge)
  have "g \<le> n" "sorted (rev (g # ge))" using Cons.prems(2) by (simp_all add: sorted_append)
  moreover have "histFromCounts_loop g ge = map2 (\<lambda>a b. min 255 (nat (a - b))) (g # ge) (ge @ [0])"
    using Cons.IH [of g] Cons.prems(1) calculation(2) by simp
  moreover have "satAdd8 0 (n - g) = min 255 (nat (n - g))"
    using satAdd8_min [of 0 "n - g"] Cons.prems(1) calculation(1) by (simp add: byte_ok_def)
  ultimately show ?case by simp
qed

section \<open>Encoding\<close>

definition histMask :: "snrHist \<Rightarrow> nat" where
  "histMask h = foldl (\<lambda>snr_mask b. if h ! b \<noteq> 0 then snr_mask OR push_bit b 1 else snr_mask) 0 [0 ..< almanacSNRBins]"

type_synonym cell = "nat \<times> snrHist"

fun encodeCells :: "nat \<Rightarrow> int \<Rightarrow> cell list \<Rightarrow> nat list" where
  \<comment> \<open>the loop over the grid from position \<open>pos\<close> on, \<open>prev\<close> the last non-zero position\<close>
  "encodeCells pos prev [] = []"
| "encodeCells pos prev ((v, h) # cells) =
     (if v = 0 then encodeCells (pos + 1) prev cells
      else AppendUvarint (nat (int pos - prev - 1)) @ [v, histMask h] @ filter (\<lambda>c. c \<noteq> 0) h
        @ encodeCells (pos + 1) (int pos) cells)"

definition gridCells :: "nat list \<Rightarrow> snrHist list option \<Rightarrow> cell list" where
  "gridCells dense hist = zip dense (case hist of None \<Rightarrow> replicate (length dense) zeroHist | Some hs \<Rightarrow> hs)"

definition almanacSparseAppend :: "nat list \<Rightarrow> nat list \<Rightarrow> snrHist list option \<Rightarrow> nat list" where
  "almanacSparseAppend dst dense hist = dst @ [2] @ encodeCells 0 (-1) (gridCells dense hist)"

definition almanacSparseEncode :: "nat list \<Rightarrow> snrHist list option \<Rightarrow> nat list" where
  "almanacSparseEncode dense hist = almanacSparseAppend [] dense hist"

fun encodedLen_loop :: "nat \<Rightarrow> int \<Rightarrow> cell list \<Rightarrow> nat" where
  "encodedLen_loop pos prev [] = 0"
| "encodedLen_loop pos prev ((v, h) # cells) =
     (if v = 0 then encodedLen_loop (pos + 1) prev cells
      else almanacUvarintLen (nat (int pos - prev - 1)) + 2 + length (filter (\<lambda>b. b \<noteq> 0) h)
        + encodedLen_loop (pos + 1) (int pos) cells)"

definition almanacSparseEncodedLen :: "nat list \<Rightarrow> snrHist list option \<Rightarrow> nat" where
  "almanacSparseEncodedLen dense hist = 1 + encodedLen_loop 0 (-1) (gridCells dense hist)"

fun encodeCellsV1 :: "nat \<Rightarrow> int \<Rightarrow> nat list \<Rightarrow> nat list" where
  "encodeCellsV1 pos prev [] = []"
| "encodeCellsV1 pos prev (v # vs) =
     (if v = 0 then encodeCellsV1 (pos + 1) prev vs
      else AppendUvarint (nat (int pos - prev - 1)) @ [v] @ encodeCellsV1 (pos + 1) (int pos) vs)"

definition almanacSparseEncodeV1 :: "nat list \<Rightarrow> nat list" where
  "almanacSparseEncodeV1 dense = 1 # encodeCellsV1 0 (-1) dense"

lemma encodedLen_loop_eq: "encodedLen_loop pos prev cells = length (encodeCells pos prev cells)"
  by (induction pos prev cells rule: encodeCells.induct) (simp_all add: almanacUvarintLen_eq)

lemma encodedLen: "almanacSparseEncodedLen dense hist = length (almanacSparseEncode dense hist)"
  by (simp add: almanacSparseEncodedLen_def almanacSparseEncode_def almanacSparseAppend_def encodedLen_loop_eq)

lemma or_loop_bit:
  "bit (foldl (\<lambda>m b. if P b then m OR push_bit b 1 else m) (m :: nat) bs) n \<longleftrightarrow> bit m n \<or> n \<in> set bs \<and> P n"
proof (induction bs arbitrary: m)
  case (Cons b bs)
  have "bit (push_bit b (1 :: nat)) n \<longleftrightarrow> n = b" by (auto simp: bit_exp_iff)
  then show ?case
    using Cons.IH [of "m OR push_bit b 1"] Cons.IH [of m]
    by (cases "P b") (auto simp: bit_or_iff simp del: push_bit_of_1)
qed simp

lemma histMask_bit: "bit (histMask h) n \<longleftrightarrow> n < 6 \<and> h ! n \<noteq> 0"
  unfolding histMask_def or_loop_bit almanacSNRBins_def by simp

lemma histMask_reserved: "drop_bit 6 (histMask h) = 0"
  by (rule bit_eqI) (simp add: bit_drop_bit_eq histMask_bit)

section \<open>Decoding\<close>

datatype sparseError =
    NoVersion | BadVersion | BadVarint | PosOverflow | MissingCount | ZeroCount
  | MissingMask | ReservedMask | MissingBin | ZeroBin

fun skipBins :: "nat \<Rightarrow> nat list \<Rightarrow> nat list \<Rightarrow> sparseError + nat list" where
  "skipBins snr_mask [] bs = Inr bs"
| "skipBins snr_mask (bin # bins) bs =
     (if \<not> bit snr_mask bin then skipBins snr_mask bins bs
      else case bs of
             [] \<Rightarrow> Inl MissingBin
           | c # bs \<Rightarrow> if c = 0 then Inl ZeroBin else skipBins snr_mask bins bs)"

lemma skipBins_length: "skipBins snr_mask bins bs = Inr bs' \<Longrightarrow> length bs' \<le> length bs"
  by (induction snr_mask bins bs rule: skipBins.induct) (auto split: if_splits list.splits)

lemma Uvarint_drop: "Uvarint bs = Some (v, n) \<Longrightarrow> drop n bs = c # rest \<Longrightarrow> Suc (length rest) < length bs"
  using Uvarint_pos [of bs v n] by (metis One_nat_def Suc_leI diff_less length_Cons length_drop less_le_trans)

function validateCells :: "bool \<Rightarrow> int \<Rightarrow> nat list \<Rightarrow> sparseError option" where
  "validateCells v2 pos bs =
     (if bs = [] then None
      else case Uvarint bs of
             None \<Rightarrow> Some BadVarint
           | Some (gap, n) \<Rightarrow>
               if gap \<ge> almanacSeasonCountsLen \<or> pos + 1 + int gap \<ge> int almanacSeasonCountsLen then Some PosOverflow
               else (case drop n bs of
                       [] \<Rightarrow> Some MissingCount
                     | c # bs \<Rightarrow>
                         if c = 0 then Some ZeroCount
                         else if \<not> v2 then validateCells v2 (pos + 1 + int gap) bs
                         else (case bs of
                                 [] \<Rightarrow> Some MissingMask
                               | snr_mask # bs \<Rightarrow>
                                   if drop_bit almanacSNRBins snr_mask \<noteq> 0 then Some ReservedMask
                                   else (case skipBins snr_mask [0 ..< almanacSNRBins] bs of
                                           Inl e \<Rightarrow> Some e
                                         | Inr bs \<Rightarrow> validateCells v2 (pos + 1 + int gap) bs))))"
  by pat_completeness auto
termination
  by (relation "measure (\<lambda>(v2, pos, bs). length bs)") (auto dest!: Uvarint_drop skipBins_length)

declare validateCells.simps [simp del]

definition almanacSparseValidate :: "nat list \<Rightarrow> sparseError option" where
  "almanacSparseValidate b =
     (case b of
        [] \<Rightarrow> Some NoVersion
      | version # bs \<Rightarrow>
          if version = 1 then validateCells False (-1) bs
          else if version = 2 then validateCells True (-1) bs
          else Some BadVersion)"

text \<open>
  The second pass reads without checks: \<open>None\<close> is where Go would leave the slice, which
  validation rules out.
\<close>

fun readBins :: "nat \<Rightarrow> nat list \<Rightarrow> snrHist \<Rightarrow> nat list \<Rightarrow> (snrHist \<times> nat list) option" where
  "readBins snr_mask [] h bs = Some (h, bs)"
| "readBins snr_mask (bin # bins) h bs =
     (if \<not> bit snr_mask bin then readBins snr_mask bins h bs
      else case bs of [] \<Rightarrow> None | c # bs \<Rightarrow> readBins snr_mask bins (h[bin := c]) bs)"

lemma readBins_length: "readBins snr_mask bins h bs = Some (h', bs') \<Longrightarrow> length bs' \<le> length bs"
  by (induction snr_mask bins h bs rule: readBins.induct) (auto split: if_splits list.splits)

function cellsOf :: "bool \<Rightarrow> int \<Rightarrow> nat list \<Rightarrow> (int \<times> nat \<times> snrHist) list option" where
  "cellsOf v2 pos bs =
     (if bs = [] then Some []
      else case Uvarint bs of
             None \<Rightarrow> None
           | Some (gap, n) \<Rightarrow>
               (case drop n bs of
                  [] \<Rightarrow> None
                | c # bs \<Rightarrow>
                    if \<not> v2 then map_option (\<lambda>cs. (pos + 1 + int gap, c, zeroHist) # cs) (cellsOf v2 (pos + 1 + int gap) bs)
                    else (case bs of
                            [] \<Rightarrow> None
                          | snr_mask # bs \<Rightarrow>
                              (case readBins snr_mask [0 ..< almanacSNRBins] zeroHist bs of
                                 None \<Rightarrow> None
                               | Some (h, bs) \<Rightarrow> map_option (\<lambda>cs. (pos + 1 + int gap, c, h) # cs) (cellsOf v2 (pos + 1 + int gap) bs)))))"
  by pat_completeness auto
termination
  by (relation "measure (\<lambda>(v2, pos, bs). length bs)") (auto dest!: Uvarint_drop readBins_length)

declare cellsOf.simps [simp del]

definition almanacSparseEachCell :: "nat list \<Rightarrow> sparseError + (int \<times> nat \<times> snrHist) list option" where
  \<comment> \<open>the calls of \<open>fn\<close>, in order\<close>
  "almanacSparseEachCell b =
     (case almanacSparseValidate b of
        Some e \<Rightarrow> Inl e
      | None \<Rightarrow> Inr (cellsOf (hd b = 2) (-1) (tl b)))"

definition almanacSparseEach :: "nat list \<Rightarrow> sparseError + (int \<times> nat) list option" where
  "almanacSparseEach b = map_sum id (map_option (map (\<lambda>(p, c, h). (p, c)))) (almanacSparseEachCell b)"

definition zeroDense :: "nat list" where "zeroDense = replicate almanacSeasonCountsLen 0"
definition zeroHists :: "snrHist list" where "zeroHists = replicate almanacSeasonCountsLen zeroHist"

definition almanacSparseDecodeHist :: "nat list \<Rightarrow> nat list \<times> snrHist list \<times> sparseError option" where
  "almanacSparseDecodeHist b =
     (case almanacSparseEachCell b of
        Inl e \<Rightarrow> (zeroDense, zeroHists, Some e)
      | Inr cells \<Rightarrow>
          (foldl (\<lambda>d (p, c, h). d[nat p := c]) zeroDense (the cells),
           foldl (\<lambda>d (p, c, h). d[nat p := h]) zeroHists (the cells), None))"

definition almanacSparseDecode :: "nat list \<Rightarrow> nat list \<times> sparseError option" where
  "almanacSparseDecode b = (let (dense, _, e) = almanacSparseDecodeHist b in (dense, e))"

definition almanacSegmentOffset :: "nat \<Rightarrow> nat" where
  "almanacSegmentOffset d = (d - 1) * almanacSeasonSlotsPerDay"

definition copyAt :: "nat \<Rightarrow> 'a list \<Rightarrow> 'a list \<Rightarrow> 'a list" where
  \<comment> \<open>\<open>copy(xs[off:off+len(seg)], seg)\<close>\<close>
  "copyAt off seg xs = take off xs @ seg @ drop (off + length seg) xs"

definition almanacSparseReplaceDay ::
    "nat list option \<Rightarrow> nat \<Rightarrow> nat list \<Rightarrow> snrHist list option \<Rightarrow> nat list \<times> sparseError option" where
  "almanacSparseReplaceDay existing d seg hseg =
     (let (dense, hist, derr) = (case existing of
            None \<Rightarrow> (zeroDense, zeroHists, None)
          | Some b \<Rightarrow> almanacSparseDecodeHist b);
          off = almanacSegmentOffset d;
          dense = copyAt off seg dense;
          hist = copyAt off (case hseg of Some hs \<Rightarrow> hs | None \<Rightarrow> replicate almanacSeasonSlotsPerDay zeroHist) hist
      in (almanacSparseEncode dense (Some hist), derr))"


section \<open>What validation admits, the second pass reads\<close>

lemma skip_read: "skipBins snr_mask bins bs = Inr bs' \<Longrightarrow> \<exists>h'. readBins snr_mask bins h bs = Some (h', bs') \<and> length h' = length h"
  by (induction snr_mask bins h bs rule: readBins.induct) (auto split: if_splits list.splits)

definition cells_ok :: "int \<Rightarrow> (int \<times> nat \<times> snrHist) list \<Rightarrow> bool" where
  \<comment> \<open>positions ascend within the grid, counts are positive, histograms have all bins\<close>
  "cells_ok pos cells \<longleftrightarrow> sorted_wrt (<) (pos # map fst cells) \<and>
     (\<forall>(p, c, h)\<in>set cells. p < int almanacSeasonCountsLen \<and> 0 < c \<and> length h = almanacSNRBins)"

lemma cells_ok_Cons:
  "cells_ok pos ((p, c, h) # cells) \<longleftrightarrow>
     pos < p \<and> p < int almanacSeasonCountsLen \<and> 0 < c \<and> length h = almanacSNRBins \<and> cells_ok p cells"
  by (auto simp: cells_ok_def)

lemma validate_cells:
  assumes "validateCells v2 pos bs = None"
  shows "\<exists>cells. cellsOf v2 pos bs = Some cells \<and> cells_ok pos cells"
  using assms
proof (induction v2 pos bs rule: validateCells.induct)
  case (1 v2 pos bs)
  show ?case
  proof (cases "bs = []")
    case True
    then show ?thesis by (subst cellsOf.simps) (simp add: cells_ok_def)
  next
    case False
    with "1.prems" obtain gap n where u: "Uvarint bs = Some (gap, n)"
        "\<not> (gap \<ge> almanacSeasonCountsLen \<or> pos + 1 + int gap \<ge> int almanacSeasonCountsLen)"
      by (subst (asm) validateCells.simps) (auto split: option.splits if_splits)
    with "1.prems" False obtain c bs1 where d: "drop n bs = c # bs1" "c \<noteq> 0"
      by (subst (asm) validateCells.simps) (auto split: list.splits if_splits)
    let ?pos = "pos + 1 + int gap"
    show ?thesis
    proof (cases v2)
      case v1: False
      then have "validateCells v2 ?pos bs1 = None"
        using "1.prems" False u d by (subst (asm) validateCells.simps) (simp split: if_splits)
      then obtain cells where "cellsOf v2 ?pos bs1 = Some cells" "cells_ok ?pos cells"
        using "1.IH"(1) [OF False u(1) refl u(2) d(1,2)] v1 by blast
      then show ?thesis
        using False u d v1 by (subst cellsOf.simps) (simp add: cells_ok_Cons zeroHist_def)
    next
      case True
      with "1.prems" False u d obtain snr_mask bs2 where m: "bs1 = snr_mask # bs2" "\<not> drop_bit almanacSNRBins snr_mask \<noteq> 0"
        by (subst (asm) validateCells.simps) (auto split: list.splits if_splits)
      with "1.prems" False u d True obtain bs3 where k: "skipBins snr_mask [0 ..< almanacSNRBins] bs2 = Inr bs3"
          "validateCells v2 ?pos bs3 = None"
        by (subst (asm) validateCells.simps) (auto split: list.splits if_splits sum.splits)
      obtain h where r: "readBins snr_mask [0 ..< almanacSNRBins] zeroHist bs2 = Some (h, bs3)" "length h = almanacSNRBins"
        using skip_read [OF k(1), of zeroHist] by (auto simp: zeroHist_def)
      obtain cells where "cellsOf v2 ?pos bs3 = Some cells" "cells_ok ?pos cells"
        using "1.IH"(2) [OF False u(1) refl u(2) d(1,2) _ m k(1) k(2)] True by blast
      then show ?thesis
        using False u d True m(1) r by (subst cellsOf.simps) (simp add: cells_ok_Cons)
    qed
  qed
qed

section \<open>Round trip\<close>

definition normHist :: "cell \<Rightarrow> snrHist" where
  "normHist = (\<lambda>(v, h). if v = 0 then zeroHist else h)"

fun nonzero :: "nat \<Rightarrow> cell list \<Rightarrow> (int \<times> nat \<times> snrHist) list" where
  "nonzero pos [] = []"
| "nonzero pos ((v, h) # cells) =
     (if v = 0 then nonzero (pos + 1) cells else (int pos, v, h) # nonzero (pos + 1) cells)"

lemma skipBins_bins:
  assumes "length h = 6" "k \<le> 6"
  shows "skipBins (histMask h) [k ..< 6] (filter (\<lambda>c. c \<noteq> 0) (drop k h) @ rest) = Inr rest"
  using assms(2)
proof (induction "6 - k" arbitrary: k)
  case (Suc n)
  then have k: "[k ..< 6] = k # [Suc k ..< 6]" "drop k h = h ! k # drop (Suc k) h"
    using assms(1) by (simp_all add: upt_conv_Cons Cons_nth_drop_Suc)
  show ?case using Suc(1) [of "Suc k"] Suc(2) by (simp add: k histMask_bit)
qed (use assms in simp)

lemma readBins_bins:
  assumes "length h = 6" "k \<le> 6"
  shows "readBins (histMask h) [k ..< 6] (take k h @ replicate (6 - k) 0) (filter (\<lambda>c. c \<noteq> 0) (drop k h) @ rest) = Some (h, rest)"
  using assms(2)
proof (induction "6 - k" arbitrary: k)
  case (Suc n)
  then have k: "[k ..< 6] = k # [Suc k ..< 6]" "drop k h = h ! k # drop (Suc k) h"
      "replicate (6 - k) 0 = (0 :: nat) # replicate (6 - Suc k) 0"
    using assms(1) by (simp_all add: upt_conv_Cons Cons_nth_drop_Suc flip: replicate_Suc add: Suc_diff_Suc)
  have t: "take (Suc k) h = take k h @ [h ! k]" using Suc(2) assms(1) by (simp add: take_Suc_conv_app_nth)
  have "(take k h @ 0 # replicate (6 - Suc k) 0)[k := h ! k] = take (Suc k) h @ replicate (6 - Suc k) 0"
    using Suc(2) assms(1) by (simp add: t list_update_append)
  then show ?case using Suc(1) [of "Suc k"] Suc(2) by (auto simp: k t histMask_bit)
qed (use assms in simp)

lemma encode_validates:
  assumes "-1 \<le> prev" "prev < int pos" "pos + length cells \<le> almanacSeasonCountsLen" "\<forall>(v, h)\<in>set cells. length h = 6"
  shows "validateCells True prev (encodeCells pos prev cells) = None \<and>
    cellsOf True prev (encodeCells pos prev cells) = Some (nonzero pos cells)"
  using assms
proof (induction pos prev cells rule: encodeCells.induct)
  case (1 pos prev)
  show ?case by (subst validateCells.simps, subst cellsOf.simps) simp
next
  case (2 pos prev v h cells)
  show ?case
  proof (cases "v = 0")
    case True
    then show ?thesis using 2 by simp
  next
    case False
    define gap where "gap = nat (int pos - prev - 1)"
    have gap: "prev + 1 + int gap = int pos" using 2(4) by (simp add: gap_def)
    have small: "\<not> (gap \<ge> almanacSeasonCountsLen \<or> prev + 1 + int gap \<ge> int almanacSeasonCountsLen)"
      using 2(3,5) gap by simp
    have "gap < 2 ^ 64" using small by (simp add: almanacSeasonCountsLen_def)
    then have u: "Uvarint (AppendUvarint gap @ rest) = Some (gap, length (AppendUvarint gap))" for rest
      by (rule Uvarint_Append)
    have ne: "AppendUvarint gap @ rest \<noteq> []" for rest using AppendUvarint_length [of gap] by auto
    define rest where "rest = encodeCells (pos + 1) (int pos) cells"
    have enc: "encodeCells pos prev ((v, h) # cells)
        = AppendUvarint gap @ v # histMask h # filter (\<lambda>c. c \<noteq> 0) h @ rest"
      using False by (simp add: gap_def rest_def)
    have h: "length h = 6" using 2(6) by simp
    have sk: "skipBins (histMask h) [0 ..< almanacSNRBins] (filter (\<lambda>c. c \<noteq> 0) h @ rest) = Inr rest"
      using skipBins_bins [OF h, of 0 rest] by (simp add: almanacSNRBins_def)
    have rd: "readBins (histMask h) [0 ..< almanacSNRBins] zeroHist (filter (\<lambda>c. c \<noteq> 0) h @ rest) = Some (h, rest)"
      using readBins_bins [OF h, of 0 rest] by (simp add: almanacSNRBins_def zeroHist_def)
    have res: "drop_bit almanacSNRBins (histMask h) = 0" using histMask_reserved by (simp add: almanacSNRBins_def)
    have IH: "validateCells True (int pos) rest = None" "cellsOf True (int pos) rest = Some (nonzero (pos + 1) cells)"
      using 2(2) [OF False] 2(3-6) by (simp_all add: rest_def)
    have "validateCells True prev (AppendUvarint gap @ v # histMask h # filter (\<lambda>c. c \<noteq> 0) h @ rest) = None"
      by (subst validateCells.simps) (use ne u small False res sk IH(1) gap in simp)
    moreover have "cellsOf True prev (AppendUvarint gap @ v # histMask h # filter (\<lambda>c. c \<noteq> 0) h @ rest)
        = Some (nonzero pos ((v, h) # cells))"
      by (subst cellsOf.simps) (use ne u False rd IH(2) gap in simp)
    ultimately show ?thesis unfolding enc by simp
  qed
qed

text \<open>Writing the non-zero cells into a zero grid restores it.\<close>

lemma fill_grid:
  assumes "length acc \<ge> k + length cells" "\<forall>j. k \<le> j \<and> j < k + length cells \<longrightarrow> acc ! j = z"
    and "\<forall>cell\<in>set cells. fst cell = 0 \<longrightarrow> f cell = z"
  shows "foldl (\<lambda>d (p, c, h). d[nat p := f (c, h)]) acc (nonzero k cells) = take k acc @ map f cells @ drop (k + length cells) acc"
  using assms
proof (induction k cells arbitrary: acc rule: nonzero.induct)
  case (2 pos v h cells)
  have len: "pos < length acc" using 2(3) by simp
  show ?case
  proof (cases "v = 0")
    case True
    have "acc ! pos = f (v, h)" using 2(4,5) True by simp
    then have "take (pos + 1) acc = take pos acc @ [f (v, h)]" using len by (simp add: take_Suc_conv_app_nth)
    then show ?thesis using 2(1) [OF True, of acc] 2(3-5) True by simp
  next
    case False
    have "take (pos + 1) (acc[pos := f (v, h)]) = take pos acc @ [f (v, h)]"
      using len by (simp add: take_Suc_conv_app_nth)
    then show ?thesis using 2(2) [OF False, of "acc[pos := f (v, h)]"] 2(3-5) False by simp
  qed
qed simp

definition grid_ok :: "nat list \<Rightarrow> snrHist list \<Rightarrow> bool" where
  "grid_ok dense hist \<longleftrightarrow> length dense = almanacSeasonCountsLen \<and> length hist = almanacSeasonCountsLen \<and>
     (\<forall>h\<in>set hist. length h = almanacSNRBins)"

lemma gridCells_ok:
  assumes "grid_ok dense hist"
  shows "length (gridCells dense (Some hist)) = almanacSeasonCountsLen" "\<forall>(v, h)\<in>set (gridCells dense (Some hist)). length h = 6"
    "map fst (gridCells dense (Some hist)) = dense"
  using assms by (auto simp: gridCells_def grid_ok_def almanacSNRBins_def dest: set_zip_rightD)

lemma decode_encode:
  assumes "grid_ok dense hist"
  shows "almanacSparseDecodeHist (almanacSparseEncode dense (Some hist)) =
    (dense, map normHist (zip dense hist), None)"
proof -
  let ?cells = "gridCells dense (Some hist)"
  note g = gridCells_ok [OF assms]
  have e: "validateCells True (-1) (encodeCells 0 (-1) ?cells) = None"
      "cellsOf True (-1) (encodeCells 0 (-1) ?cells) = Some (nonzero 0 ?cells)"
    using encode_validates [of "-1" 0 ?cells] g by simp_all
  have "almanacSparseEachCell (almanacSparseEncode dense (Some hist)) = Inr (Some (nonzero 0 ?cells))"
    using e by (simp add: almanacSparseEachCell_def almanacSparseValidate_def almanacSparseEncode_def almanacSparseAppend_def)
  moreover have "foldl (\<lambda>d (p, c, h). d[nat p := fst (c, h)]) zeroDense (nonzero 0 ?cells) = map fst ?cells"
    using fill_grid [of 0 ?cells zeroDense 0 fst] g(1) by (simp add: zeroDense_def)
  moreover have "foldl (\<lambda>d (p, c, h). d[nat p := normHist (c, h)]) zeroHists (nonzero 0 ?cells) = map normHist ?cells"
  proof -
    have "\<forall>cell\<in>set ?cells. fst cell = 0 \<longrightarrow> normHist cell = zeroHist" by (auto simp: normHist_def)
    then show ?thesis using fill_grid [of 0 ?cells zeroHists zeroHist normHist] g(1) by (simp add: zeroHists_def)
  qed
  moreover have "foldl (\<lambda>d (p, c, h). d[nat p := normHist (c, h)]) acc (nonzero k cells)
      = foldl (\<lambda>d (p, c, h). d[nat p := h]) acc (nonzero k cells)" for acc k and cells :: "cell list"
    by (induction k cells arbitrary: acc rule: nonzero.induct) (auto simp: normHist_def)
  ultimately show ?thesis
    using g(3) by (simp add: almanacSparseDecodeHist_def gridCells_def)
qed

lemma encode_norm: "encodeCells pos prev (map (\<lambda>(v, h). (v, normHist (v, h))) cells) = encodeCells pos prev cells"
  by (induction pos prev cells rule: encodeCells.induct) (simp_all add: normHist_def)

lemma encode_normHist:
  assumes "grid_ok dense hist"
  shows "almanacSparseEncode dense (Some (map normHist (zip dense hist))) = almanacSparseEncode dense (Some hist)"
proof -
  have "zip dense (map normHist (zip dense hist)) = map (\<lambda>(v, h). (v, normHist (v, h))) (zip dense hist)"
    by (rule nth_equalityI) (use assms in \<open>auto simp: grid_ok_def\<close>)
  then show ?thesis by (simp add: almanacSparseEncode_def almanacSparseAppend_def gridCells_def encode_norm)
qed


section \<open>Decoding is well-formed\<close>

lemma fill_length: "length (foldl (\<lambda>d (p, c, h). d[nat p := f c h]) acc cells) = length acc"
  by (induction cells arbitrary: acc) auto

lemma fill_all: "\<forall>x\<in>set acc. Q x \<Longrightarrow> \<forall>(p, c, h)\<in>set cells. Q (f c h) \<Longrightarrow>
    \<forall>x\<in>set (foldl (\<lambda>d (p, c, h). d[nat p := f c h]) acc cells). Q x"
proof (induction cells arbitrary: acc)
  case (Cons cell cells)
  obtain p c h where cell: "cell = (p, c, h)" by (cases cell) auto
  have "\<forall>x\<in>set (acc[nat p := f c h]). Q x"
    using Cons.prems cell set_update_subset_insert [of acc "nat p" "f c h"] by auto
  then show ?case using Cons.IH [of "acc[nat p := f c h]"] Cons.prems(2) cell by simp
qed simp

lemma each_cell_ok: "almanacSparseEachCell b = Inr x \<Longrightarrow> \<exists>cells. x = Some cells \<and> cells_ok (-1) cells"
  using validate_cells [of "hd b = 2" "-1" "tl b"]
  by (auto simp: almanacSparseEachCell_def almanacSparseValidate_def split: list.splits option.splits if_splits)

lemma decode_grid_ok:
  assumes "almanacSparseDecodeHist b = (dense, hist, e)"
  shows "grid_ok dense hist"
proof (cases "almanacSparseEachCell b")
  case (Inl e')
  then show ?thesis using assms
    by (auto simp: almanacSparseDecodeHist_def grid_ok_def zeroDense_def zeroHists_def zeroHist_def)
next
  case (Inr x)
  then obtain cells where c: "x = Some cells" "cells_ok (-1) cells" using each_cell_ok by blast
  then have "\<forall>h\<in>set (foldl (\<lambda>d (p, c, h). d[nat p := h]) zeroHists cells). length h = almanacSNRBins"
    by (intro fill_all [where Q = "\<lambda>h. length h = almanacSNRBins"])
      (auto simp: zeroHists_def zeroHist_def cells_ok_def)
  then show ?thesis
    using assms Inr c fill_length [of "\<lambda>c h. c" zeroDense cells] fill_length [of "\<lambda>c h. h" zeroHists cells]
    by (auto simp: almanacSparseDecodeHist_def grid_ok_def zeroDense_def zeroHists_def)
qed

section \<open>Replacing a day\<close>

definition rowOf :: "nat list option \<Rightarrow> nat list \<times> snrHist list" where
  \<comment> \<open>what a row stands for: nothing, or its decoding (nothing when malformed)\<close>
  "rowOf existing =
     (case existing of
        None \<Rightarrow> (zeroDense, zeroHists)
      | Some b \<Rightarrow> (let (dense, hist, _) = almanacSparseDecodeHist b in (dense, hist)))"

lemma copyAt_length [simp]: "off + length seg \<le> length xs \<Longrightarrow> length (copyAt off seg xs) = length xs"
  by (simp add: copyAt_def)

lemma copyAt_zip:
  "off + length a \<le> length xs \<Longrightarrow> length a = length b \<Longrightarrow> length xs = length ys \<Longrightarrow>
   zip (copyAt off a xs) (copyAt off b ys) = copyAt off (zip a b) (zip xs ys)"
  by (simp add: copyAt_def zip_append take_zip drop_zip)

lemma copyAt_map: "map f (copyAt off a xs) = copyAt off (map f a) (map f xs)"
  by (simp add: copyAt_def take_map drop_map)

lemma copyAt_twice: "off + length a \<le> length xs \<Longrightarrow> copyAt off a (copyAt off a xs) = copyAt off a xs"
  by (simp add: copyAt_def)

lemma copyAt_set: "set (copyAt off a xs) \<subseteq> set a \<union> set xs"
  by (auto simp: copyAt_def dest: in_set_takeD in_set_dropD)

lemma rowOf_ok: "grid_ok (fst (rowOf e)) (snd (rowOf e))"
proof (cases e)
  case None
  then show ?thesis by (simp add: rowOf_def grid_ok_def zeroDense_def zeroHists_def zeroHist_def)
next
  case (Some b)
  obtain dense hist er where "almanacSparseDecodeHist b = (dense, hist, er)" using prod_cases3 by blast
  then show ?thesis using decode_grid_ok Some by (simp add: rowOf_def)
qed

definition day_ok :: "nat \<Rightarrow> nat list \<Rightarrow> snrHist list \<Rightarrow> bool" where
  "day_ok d seg hs \<longleftrightarrow> 1 \<le> d \<and> d \<le> 31 \<and> length seg = 48 \<and> length hs = 48 \<and> (\<forall>h\<in>set hs. length h = 6)"

lemma replace_eq:
  "fst (almanacSparseReplaceDay e d seg (Some hs)) =
   almanacSparseEncode (copyAt (almanacSegmentOffset d) seg (fst (rowOf e)))
     (Some (copyAt (almanacSegmentOffset d) hs (snd (rowOf e))))"
  by (simp add: almanacSparseReplaceDay_def rowOf_def Let_def split: option.splits prod.splits)

lemma replace_day_row:
  assumes "day_ok d seg hs"
  shows "rowOf (Some (fst (almanacSparseReplaceDay e d seg (Some hs)))) =
    (copyAt (almanacSegmentOffset d) seg (fst (rowOf e)),
     copyAt (almanacSegmentOffset d) (map normHist (zip seg hs)) (map normHist (zip (fst (rowOf e)) (snd (rowOf e)))))"
    and "snd (almanacSparseDecodeHist (fst (almanacSparseReplaceDay e d seg (Some hs)))) = (snd (rowOf (Some (fst (almanacSparseReplaceDay e d seg (Some hs))))), None)"
proof -
  let ?off = "almanacSegmentOffset d"
  note r = rowOf_ok [of e]
  have off: "?off + 48 \<le> almanacSeasonCountsLen"
    using assms by (auto simp: day_ok_def almanacSegmentOffset_def almanacSeasonSlotsPerDay_def almanacSeasonCountsLen_def)
  have g: "grid_ok (copyAt ?off seg (fst (rowOf e))) (copyAt ?off hs (snd (rowOf e)))"
    using r assms off copyAt_set [of ?off hs "snd (rowOf e)"]
    by (auto simp: grid_ok_def day_ok_def almanacSNRBins_def)
  note d = decode_encode [OF g, folded replace_eq]
  have z: "map normHist (zip (copyAt ?off seg (fst (rowOf e))) (copyAt ?off hs (snd (rowOf e))))
      = copyAt ?off (map normHist (zip seg hs)) (map normHist (zip (fst (rowOf e)) (snd (rowOf e))))"
    using r assms off by (subst copyAt_zip) (auto simp: grid_ok_def day_ok_def copyAt_map)
  show "rowOf (Some (fst (almanacSparseReplaceDay e d seg (Some hs)))) =
    (copyAt ?off seg (fst (rowOf e)), copyAt ?off (map normHist (zip seg hs)) (map normHist (zip (fst (rowOf e)) (snd (rowOf e)))))"
    using d z by (simp add: rowOf_def)
  show "snd (almanacSparseDecodeHist (fst (almanacSparseReplaceDay e d seg (Some hs)))) = (snd (rowOf (Some (fst (almanacSparseReplaceDay e d seg (Some hs))))), None)"
    using d by (simp add: rowOf_def)
qed

lemma replace_day_idem:
  assumes "day_ok d seg hs"
  shows "fst (almanacSparseReplaceDay (Some (fst (almanacSparseReplaceDay e d seg (Some hs)))) d seg (Some hs))
    = fst (almanacSparseReplaceDay e d seg (Some hs))"
proof -
  let ?off = "almanacSegmentOffset d"
  note r = rowOf_ok [of e]
  have off: "?off + 48 \<le> almanacSeasonCountsLen"
    using assms by (auto simp: day_ok_def almanacSegmentOffset_def almanacSeasonSlotsPerDay_def almanacSeasonCountsLen_def)
  have l: "length seg = 48" "length hs = 48" using assms by (simp_all add: day_ok_def)
  let ?D = "copyAt ?off seg (fst (rowOf e))" and ?H = "copyAt ?off hs (snd (rowOf e))"
  have g: "grid_ok ?D ?H"
    using r assms off copyAt_set [of ?off hs "snd (rowOf e)"]
    by (auto simp: grid_ok_def day_ok_def almanacSNRBins_def)
  define H' where "H' = map normHist (zip ?D ?H)"
  have row: "rowOf (Some (fst (almanacSparseReplaceDay e d seg (Some hs)))) = (?D, H')"
    using decode_encode [OF g] by (simp add: replace_eq rowOf_def H'_def)
  have gH: "grid_ok ?D H'" using decode_grid_ok [OF decode_encode [OF g]] by (simp add: H'_def)
  have g': "grid_ok ?D (copyAt ?off hs H')"
    using gH assms off copyAt_set [of ?off hs H'] by (auto simp: grid_ok_def day_ok_def almanacSNRBins_def)
  have "map normHist (zip ?D (copyAt ?off hs H')) = map normHist (zip ?D ?H)"
  proof (rule nth_equalityI)
    fix i assume "i < length (map normHist (zip ?D (copyAt ?off hs H')))"
    then have i: "i < almanacSeasonCountsLen" "i < length ?D" using g g' by (simp_all add: grid_ok_def)
    have len: "length ?H = almanacSeasonCountsLen" "length H' = almanacSeasonCountsLen" "length (copyAt ?off hs H') = almanacSeasonCountsLen"
      using g g' by (simp_all add: grid_ok_def H'_def)
    have "copyAt ?off hs H' ! i = (if ?off \<le> i \<and> i < ?off + 48 then ?H ! i else H' ! i)"
      using i len l off r by (auto simp: copyAt_def nth_append grid_ok_def)
    then show "map normHist (zip ?D (copyAt ?off hs H')) ! i = map normHist (zip ?D ?H) ! i"
      using i len g by (auto simp: H'_def normHist_def grid_ok_def)
  qed (use g g' in \<open>simp add: grid_ok_def\<close>)
  then have "almanacSparseEncode ?D (Some (copyAt ?off hs H')) = almanacSparseEncode ?D (Some ?H)"
    using encode_normHist [OF g] encode_normHist [OF g'] by simp
  moreover have "copyAt ?off seg ?D = ?D" using r l off by (intro copyAt_twice) (simp add: grid_ok_def)
  ultimately show ?thesis
    unfolding replace_eq [of "Some (fst (almanacSparseReplaceDay e d seg (Some hs)))"] row by (simp add: replace_eq)
qed

end
