(* ===== verification/Gzip.thy ===== *)
theory Gzip
  imports Stream
begin

text \<open>
  The compressing response writer of \<^verbatim>\<open>internal/httpx/gzip.go\<close> as a state machine: a handler
  sets headers, writes and flushes, and the writer decides once whether the response goes out
  compressed. What reaches the wrapped writer is a list of events; a chunk handed to the gzip
  writer is the event \<open>GzWrite\<close> and its \<open>Close\<close> is \<open>GzClose\<close>, without which the client cannot
  decode the stream to its end (\<open>clientBody\<close>). \<open>http.DetectContentType\<close>, \<open>mime.TypeByExtension\<close> and the
  compressor itself are parameters.
\<close>

section \<open>Negotiation\<close>

definition gzipMinSize :: nat where "gzipMinSize = 1024"

definition gzipCompressibleType :: "string \<Rightarrow> bool" where
  "gzipCompressibleType ct =
     (let ct = (case IndexByte ct (CHR '';'') of Some i \<Rightarrow> take i ct | None \<Rightarrow> ct);
          ct = ToLower (TrimSpace ct)
      in if ct = ''text/event-stream'' then False
         else if HasPrefix ct ''text/'' then True
         else Contains ct ''json'' \<or> Contains ct ''javascript'' \<or> Contains ct ''xml'' \<or> Contains ct ''svg'')"

definition Cut :: "string \<Rightarrow> char \<Rightarrow> string \<times> string" where
  \<comment> \<open>\<open>strings.Cut\<close> at one byte\<close>
  "Cut s sep = (case IndexByte s sep of Some i \<Rightarrow> (take i s, drop (i + 1) s) | None \<Rightarrow> (s, []))"

fun acceptsPart :: "string list \<Rightarrow> bool" where
  "acceptsPart [] = False"
| "acceptsPart (part # parts) =
     (let (name, params) = Cut (TrimSpace part) (CHR '';'')
      in if \<not> EqualFold (TrimSpace name) ''gzip'' then acceptsPart parts
         else let q = TrimSpace params
              in \<not> (HasPrefix q ''q='' \<and> (\<forall>c\<in>set (drop 2 q). c = CHR ''0'' \<or> c = CHR ''.'')))"

definition AcceptsGzip :: "(string \<Rightarrow> string) \<Rightarrow> bool" where
  "AcceptsGzip hdr = acceptsPart (Split (hdr ''Accept-Encoding'') (CHR '',''))"

definition middlewareWraps :: "string \<Rightarrow> string \<Rightarrow> (string \<Rightarrow> string) \<Rightarrow> bool" where
  \<comment> \<open>the test of \<open>Middleware\<close>, on method, path and headers: \<open>False\<close> passes the request by\<close>
  "middlewareWraps meth path hdr \<longleftrightarrow>
     \<not> (meth = ''HEAD'' \<or> path = ''/api/stream'' \<or> HasPrefix path ''/pathscope/'' \<or>
        hdr ''Range'' \<noteq> [] \<or> hdr ''Upgrade'' \<noteq> [] \<or> \<not> AcceptsGzip hdr)"

fun contentLength_loop :: "int \<Rightarrow> string \<Rightarrow> int option" where
  "contentLength_loop n [] = Some n"
| "contentLength_loop n (c # s) =
     (if byte c < 48 \<or> byte c > 57 then None else contentLength_loop (i64 (n * 10 + (byte c - 48))) s)"

definition parseContentLength :: "string \<Rightarrow> int option" where
  "parseContentLength s = (if s = [] then None else contentLength_loop 0 s)"

section \<open>The writer\<close>

type_synonym headers = "string \<Rightarrow> string list"

definition hget :: "headers \<Rightarrow> string \<Rightarrow> string" where
  "hget h k = (case h k of [] \<Rightarrow> [] | v # _ \<Rightarrow> v)"

datatype wireEvent = SendHeader int headers | SendBody string | GzWrite string | GzFlush | GzClose | WireFlush

record gzipResponseWriter =
  g_header :: headers
  g_status :: int
  wroteHeader :: bool
  decided :: bool
  compress :: bool
  g_buf :: string
  wire :: "wireEvent list"

definition newGzipWriter :: "headers \<Rightarrow> gzipResponseWriter" where
  "newGzipWriter h = \<lparr>g_header = h, g_status = 0, wroteHeader = False, decided = False, compress = False, g_buf = [], wire = []\<rparr>"

definition passThrough :: "gzipResponseWriter \<Rightarrow> gzipResponseWriter" where
  "passThrough g =
     (let g = g\<lparr>decided := True, wire := wire g @ [SendHeader (g_status g) (g_header g)]\<rparr>
      in if length (g_buf g) > 0 then g\<lparr>wire := wire g @ [SendBody (g_buf g)], g_buf := []\<rparr> else g)"

definition startCompress :: "gzipResponseWriter \<Rightarrow> gzipResponseWriter" where
  "startCompress g =
     (let h = g_header g;
          h = h(''Content-Length'' := []);
          h = h(''Content-Encoding'' := [''gzip'']);
          h = h(''Vary'' := h ''Vary'' @ [''Accept-Encoding'']);
          et = hget h ''ETag'';
          h = (if et \<noteq> [] \<and> \<not> HasPrefix et ''W/'' then h(''ETag'' := [''W/'' @ et]) else h);
          g = g\<lparr>decided := True, compress := True, g_header := h, wire := wire g @ [SendHeader (g_status g) h]\<rparr>
      in if length (g_buf g) > 0 then g\<lparr>wire := wire g @ [GzWrite (g_buf g)], g_buf := []\<rparr> else g)"

definition gz_WriteHeader :: "gzipResponseWriter \<Rightarrow> int \<Rightarrow> gzipResponseWriter" where
  "gz_WriteHeader g code =
     (if wroteHeader g then g
      else let g = g\<lparr>wroteHeader := True, g_status := code\<rparr>; h = g_header g
           in if hget h ''Content-Encoding'' \<noteq> [] \<or> code < 200 \<or> code = 204 \<or> code = 304 then passThrough g
              else if hget h ''Content-Type'' \<noteq> [] \<and> \<not> gzipCompressibleType (hget h ''Content-Type'') then passThrough g
              else if hget h ''Content-Length'' \<noteq> []
              then (case parseContentLength (hget h ''Content-Length'') of
                      Some n \<Rightarrow> if n < int gzipMinSize then passThrough g else g
                    | None \<Rightarrow> g)
              else g)"

definition gz_Write :: "(string \<Rightarrow> string) \<Rightarrow> gzipResponseWriter \<Rightarrow> string \<Rightarrow> gzipResponseWriter" where
  "gz_Write detect g p =
     (let g = (if \<not> wroteHeader g then gz_WriteHeader g 200 else g)
      in if decided g then g\<lparr>wire := wire g @ [if compress g then GzWrite p else SendBody p]\<rparr>
         else let g = g\<lparr>g_buf := g_buf g @ p\<rparr>
              in if length (g_buf g) < gzipMinSize then g
                 else let g = (if hget (g_header g) ''Content-Type'' = []
                               then g\<lparr>g_header := (g_header g)(''Content-Type'' := [detect (g_buf g)])\<rparr> else g)
                      in if gzipCompressibleType (hget (g_header g) ''Content-Type'') then startCompress g else passThrough g)"

definition gz_Flush :: "gzipResponseWriter \<Rightarrow> gzipResponseWriter" where
  \<comment> \<open>on a wrapped writer that can flush\<close>
  "gz_Flush g =
     (let g = (if \<not> wroteHeader g then gz_WriteHeader g 200 else g);
          g = (if \<not> decided g then passThrough g else g);
          g = (if compress g then g\<lparr>wire := wire g @ [GzFlush]\<rparr> else g)
      in g\<lparr>wire := wire g @ [WireFlush]\<rparr>)"

definition gz_close :: "gzipResponseWriter \<Rightarrow> gzipResponseWriter" where
  "gz_close g =
     (if \<not> decided g then (if \<not> wroteHeader g then g else passThrough g)
      else if compress g then g\<lparr>wire := wire g @ [GzClose]\<rparr> else g)"

datatype handlerOp = SetHeader string "string list" | WriteHeaderOp int | WriteOp string | FlushOp

definition handlerStep :: "(string \<Rightarrow> string) \<Rightarrow> gzipResponseWriter \<Rightarrow> handlerOp \<Rightarrow> gzipResponseWriter" where
  "handlerStep detect g op =
     (case op of
        SetHeader k v \<Rightarrow> g\<lparr>g_header := (g_header g)(k := v)\<rparr>
      | WriteHeaderOp code \<Rightarrow> gz_WriteHeader g code
      | WriteOp p \<Rightarrow> gz_Write detect g p
      | FlushOp \<Rightarrow> gz_Flush g)"

definition serve :: "(string \<Rightarrow> string) \<Rightarrow> headers \<Rightarrow> handlerOp list \<Rightarrow> gzipResponseWriter" where
  \<comment> \<open>the wrapped branch of \<open>Middleware\<close>: the handler, then the deferred \<open>close\<close>\<close>
  "serve detect h ops = gz_close (foldl (handlerStep detect) (newGzipWriter h) ops)"

section \<open>What the client sees\<close>

fun chunk :: "wireEvent \<Rightarrow> string" where
  "chunk (SendBody p) = p"
| "chunk (GzWrite p) = p"
| "chunk _ = []"

definition decodedBody :: "wireEvent list \<Rightarrow> string" where
  "decodedBody w = concat (map chunk w)"

fun written :: "handlerOp list \<Rightarrow> string" where
  "written [] = []"
| "written (WriteOp p # ops) = p @ written ops"
| "written (_ # ops) = written ops"

definition isGz :: "wireEvent \<Rightarrow> bool" where
  "isGz e \<longleftrightarrow> (\<exists>p. e = GzWrite p) \<or> e = GzFlush \<or> e = GzClose"

text \<open>
  The server underneath is \<open>net/http\<close>: an informational status (1xx other than 101) is not the
  response's own and the implicit 200 follows it; a 1xx, 204 or 304 response has no body and
  what is written to it is dropped. A body in gzip chunks can be decoded only when the gzip
  stream was closed (its trailer is written by \<open>Close\<close>) and nothing else is mixed in;
  otherwise the client reports an unexpected end.
\<close>

definition informational :: "int \<Rightarrow> bool" where
  "informational code \<longleftrightarrow> 100 \<le> code \<and> code \<le> 199 \<and> code \<noteq> 101"

definition bodyAllowed :: "int \<Rightarrow> bool" where
  "bodyAllowed code \<longleftrightarrow> \<not> (100 \<le> code \<and> code \<le> 199) \<and> code \<noteq> 204 \<and> code \<noteq> 304"

fun gunzip :: "wireEvent list \<Rightarrow> string option" where
  "gunzip (GzWrite p # w) = map_option ((@) p) (gunzip w)"
| "gunzip (GzFlush # w) = gunzip w"
| "gunzip (WireFlush # w) = gunzip w"
| "gunzip (GzClose # w) = (if \<forall>e\<in>set w. e = WireFlush then Some [] else None)"
| "gunzip _ = None"

definition clientStatus :: "wireEvent list \<Rightarrow> int" where
  "clientStatus w = (case w of SendHeader s h # _ \<Rightarrow> if informational s then 200 else s | _ \<Rightarrow> 200)"

definition clientBody :: "wireEvent list \<Rightarrow> string option" where
  "clientBody w = (if \<not> bodyAllowed (clientStatus w) then Some []
     else if \<exists>e\<in>set w. isGz e then gunzip (tl w) else Some (decodedBody w))"

text \<open>What the same handler gets without the middleware.\<close>

fun directStatus :: "handlerOp list \<Rightarrow> int" where
  "directStatus [] = 200"
| "directStatus (SetHeader k v # ops) = directStatus ops"
| "directStatus (WriteHeaderOp code # ops) = (if informational code then directStatus ops else code)"
| "directStatus (WriteOp p # ops) = 200"
| "directStatus (FlushOp # ops) = 200"

definition directBody :: "handlerOp list \<Rightarrow> string" where
  "directBody ops = (if bodyAllowed (directStatus ops) then written ops else [])"

definition status_ok :: "int \<Rightarrow> bool" where
  "status_ok code \<longleftrightarrow> 200 \<le> code \<and> code \<noteq> 204 \<and> code \<noteq> 304"

text \<open>
  A response on the wire: nothing yet, or one header and then a body that is compressed
  throughout, under the headers that say so, or not at all.
\<close>

definition held_ok :: "gzipResponseWriter \<Rightarrow> bool" where
  "held_ok g \<longleftrightarrow> wire g = [] \<and> \<not> compress g \<and> length (g_buf g) < gzipMinSize \<and>
     (if wroteHeader g then status_ok (g_status g) else g_buf g = [])"

definition sent_ok :: "gzipResponseWriter \<Rightarrow> bool" where
  "sent_ok g \<longleftrightarrow> g_buf g = [] \<and> wroteHeader g \<and>
     (\<exists>h rest. wire g = SendHeader (g_status g) h # rest \<and> (\<forall>s h'. SendHeader s h' \<notin> set rest) \<and>
       (if compress g
        then hget h ''Content-Encoding'' = ''gzip'' \<and> h ''Content-Length'' = [] \<and> ''Accept-Encoding'' \<in> set (h ''Vary'') \<and>
          gzipCompressibleType (hget h ''Content-Type'') \<and> status_ok (g_status g) \<and> (\<forall>p. SendBody p \<notin> set rest)
        else \<forall>e\<in>set rest. \<not> isGz e))"

definition wire_ok :: "gzipResponseWriter \<Rightarrow> bool" where
  "wire_ok g \<longleftrightarrow> (if decided g then sent_ok g else held_ok g)"

definition body_ok :: "gzipResponseWriter \<Rightarrow> string \<Rightarrow> bool" where
  "body_ok g body \<longleftrightarrow> decodedBody (wire g) @ g_buf g = body"


lemma decodedBody_append [simp]: "decodedBody (w @ w') = decodedBody w @ decodedBody w'"
  by (simp add: decodedBody_def)

lemma decodedBody_Nil [simp]: "decodedBody [] = []"
  by (simp add: decodedBody_def)

lemma decodedBody_Cons [simp]: "decodedBody (e # w) = chunk e @ decodedBody w"
  by (simp add: decodedBody_def)

lemma body_ok_passThrough: "body_ok g body \<Longrightarrow> body_ok (passThrough g) body"
  by (auto simp: body_ok_def passThrough_def Let_def)

lemma body_ok_startCompress: "body_ok g body \<Longrightarrow> body_ok (startCompress g) body"
  by (auto simp: body_ok_def startCompress_def Let_def)

lemma WriteHeader_cases:
  obtains (known) "wroteHeader g" "gz_WriteHeader g code = g"
  | (pass) "\<not> wroteHeader g" "gz_WriteHeader g code = passThrough (g\<lparr>wroteHeader := True, g_status := code\<rparr>)"
  | (hold) "\<not> wroteHeader g" "gz_WriteHeader g code = g\<lparr>wroteHeader := True, g_status := code\<rparr>" "status_ok code"
proof (cases "wroteHeader g")
  case False
  then have "gz_WriteHeader g code = passThrough (g\<lparr>wroteHeader := True, g_status := code\<rparr>) \<or>
      status_ok code \<and> gz_WriteHeader g code = g\<lparr>wroteHeader := True, g_status := code\<rparr>"
    by (auto simp: gz_WriteHeader_def status_ok_def Let_def split: option.splits)
  then show ?thesis using False pass hold by blast
qed (use known in \<open>simp add: gz_WriteHeader_def\<close>)

lemma body_ok_fields [simp]:
  "body_ok (g\<lparr>wroteHeader := a\<rparr>) body = body_ok g body" "body_ok (g\<lparr>g_status := c\<rparr>) body = body_ok g body"
  "body_ok (g\<lparr>g_header := h\<rparr>) body = body_ok g body"
  by (simp_all add: body_ok_def)

lemma body_ok_WriteHeader: "body_ok g body \<Longrightarrow> body_ok (gz_WriteHeader g code) body"
  by (cases rule: WriteHeader_cases [of g code]) (simp_all add: body_ok_passThrough)

lemma passThrough_ok:
  assumes "wire g = []" "\<not> compress g" "wroteHeader g"
  shows "decided (passThrough g) \<and> sent_ok (passThrough g)"
  using assms by (cases "g_buf g = []") (simp_all add: sent_ok_def passThrough_def Let_def isGz_def)

lemma startCompress_ok:
  assumes "wire g = []" "wroteHeader g" "status_ok (g_status g)" "gzipCompressibleType (hget (g_header g) ''Content-Type'')"
  shows "decided (startCompress g) \<and> sent_ok (startCompress g)"
  using assms by (cases "g_buf g = []") (simp_all add: sent_ok_def startCompress_def Let_def hget_def)

lemma sent_ok_more:
  assumes "sent_ok g" "\<And>s h. e \<noteq> SendHeader s h" "if compress g then \<forall>p. e \<noteq> SendBody p else \<not> isGz e"
  shows "sent_ok (g\<lparr>wire := wire g @ [e]\<rparr>)"
proof -
  obtain h rest where w: "wire g = SendHeader (g_status g) h # rest" "\<forall>s h'. SendHeader s h' \<notin> set rest"
    using assms(1) by (auto simp: sent_ok_def)
  show ?thesis using assms w by (cases "compress g") (force simp: sent_ok_def)+
qed

lemma wire_ok_header [simp]: "wire_ok (g\<lparr>g_header := h\<rparr>) = wire_ok g"
  by (simp add: wire_ok_def held_ok_def sent_ok_def)

lemma WriteHeader_ok:
  assumes "wire_ok g"
  shows "wire_ok (gz_WriteHeader g code) \<and> wroteHeader (gz_WriteHeader g code)"
proof (cases rule: WriteHeader_cases [of g code])
  case pass
  then have "held_ok g" using assms by (auto simp: wire_ok_def sent_ok_def split: if_splits)
  then show ?thesis
    using pass(2) passThrough_ok [of "g\<lparr>wroteHeader := True, g_status := code\<rparr>"]
    by (simp add: wire_ok_def held_ok_def) (simp add: sent_ok_def)
next
  case hold
  then have "held_ok g" "\<not> decided g" using assms by (auto simp: wire_ok_def sent_ok_def split: if_splits)
  then show ?thesis using hold by (simp add: wire_ok_def held_ok_def)
qed (use assms in simp)

lemma opened:
  assumes "wire_ok g"
  defines "g1 \<equiv> if \<not> wroteHeader g then gz_WriteHeader g 200 else g"
  shows "wire_ok g1" "wroteHeader g1" "body_ok g body \<Longrightarrow> body_ok g1 body"
  using WriteHeader_ok [OF assms(1)] assms(1) body_ok_WriteHeader by (auto simp: g1_def)

lemma Write_ok:
  assumes "wire_ok g"
  shows "wire_ok (gz_Write detect g p)"
proof -
  define g1 where "g1 = (if \<not> wroteHeader g then gz_WriteHeader g 200 else g)"
  note g1 = opened [OF assms, folded g1_def]
  show ?thesis
  proof (cases "decided g1")
    case True
    then have "sent_ok (g1\<lparr>wire := wire g1 @ [if compress g1 then GzWrite p else SendBody p]\<rparr>)"
      using g1(1) by (intro sent_ok_more) (auto simp: wire_ok_def isGz_def)
    then show ?thesis using True unfolding gz_Write_def g1_def [symmetric] Let_def by (simp add: wire_ok_def)
  next
    case False
    then have h: "held_ok g1" using g1(1) by (simp add: wire_ok_def)
    define g2 where "g2 = g1\<lparr>g_buf := g_buf g1 @ p\<rparr>"
    define g3 where "g3 = (if hget (g_header g2) ''Content-Type'' = []
        then g2\<lparr>g_header := (g_header g2)(''Content-Type'' := [detect (g_buf g2)])\<rparr> else g2)"
    have w: "gz_Write detect g p = (if length (g_buf g2) < gzipMinSize then g2
        else if gzipCompressibleType (hget (g_header g3) ''Content-Type'') then startCompress g3 else passThrough g3)"
      using False unfolding gz_Write_def g2_def g3_def g1_def [symmetric] Let_def by simp
    have g3: "wire g3 = []" "\<not> compress g3" "wroteHeader g3" "status_ok (g_status g3)"
      using h g1(2) by (simp_all add: g3_def g2_def held_ok_def)
    have "wire_ok g2" if "length (g_buf g2) < gzipMinSize"
      using h False g1(2) that by (simp add: g2_def wire_ok_def held_ok_def)
    then show ?thesis using w startCompress_ok [OF g3(1,3,4)] passThrough_ok [OF g3(1-3)] by (auto simp: wire_ok_def)
  qed
qed

lemma Flush_ok:
  assumes "wire_ok g"
  shows "wire_ok (gz_Flush g) \<and> decided (gz_Flush g)"
proof -
  define g1 where "g1 = (if \<not> wroteHeader g then gz_WriteHeader g 200 else g)"
  note g1 = opened [OF assms, folded g1_def]
  define g2 where "g2 = (if \<not> decided g1 then passThrough g1 else g1)"
  have g2: "sent_ok g2" "decided g2"
    using g1 passThrough_ok [of g1] by (auto simp: g2_def wire_ok_def held_ok_def)
  define g3 where "g3 = (if compress g2 then g2\<lparr>wire := wire g2 @ [GzFlush]\<rparr> else g2)"
  have "sent_ok g3" using g2 sent_ok_more [of g2 GzFlush] by (auto simp: g3_def)
  then have "sent_ok (g3\<lparr>wire := wire g3 @ [WireFlush]\<rparr>)" by (rule sent_ok_more) (simp_all add: isGz_def)
  moreover have "gz_Flush g = g3\<lparr>wire := wire g3 @ [WireFlush]\<rparr>"
    unfolding gz_Flush_def g3_def g2_def g1_def Let_def ..
  ultimately show ?thesis using g2(2) by (simp add: wire_ok_def g3_def)
qed

lemma close_ok: "wire_ok g \<Longrightarrow> wire_ok (gz_close g)"
  using passThrough_ok [of g] sent_ok_more [of g GzClose]
  by (auto simp: gz_close_def wire_ok_def held_ok_def)

lemma handlerStep_ok: "wire_ok g \<Longrightarrow> wire_ok (handlerStep detect g op)"
  by (cases op) (simp_all add: handlerStep_def Write_ok Flush_ok WriteHeader_ok)

lemma body_ok_Write:
  assumes "body_ok g body" "wire_ok g"
  shows "body_ok (gz_Write detect g p) (body @ p)"
proof -
  define g1 where "g1 = (if \<not> wroteHeader g then gz_WriteHeader g 200 else g)"
  note g1 = opened [OF assms(2), folded g1_def]
  have d: "g_buf g1 = []" if "decided g1" using g1(1) that by (simp add: wire_ok_def sent_ok_def)
  have b: "body_ok (g1\<lparr>g_buf := g_buf g1 @ p\<rparr>) (body @ p)"
    using g1(3) [OF assms(1)] by (auto simp: body_ok_def)
  have b': "body_ok (g1\<lparr>wire := wire g1 @ [if compress g1 then GzWrite p else SendBody p]\<rparr>) (body @ p)" if "decided g1"
    using g1(3) [OF assms(1)] d [OF that] by (auto simp: body_ok_def)
  show ?thesis
    unfolding gz_Write_def g1_def [symmetric] Let_def
    using b' b body_ok_startCompress body_ok_passThrough by auto
qed

lemma body_ok_Flush:
  assumes "body_ok g body" "wire_ok g"
  shows "body_ok (gz_Flush g) body"
proof -
  define g1 where "g1 = (if \<not> wroteHeader g then gz_WriteHeader g 200 else g)"
  define g2 where "g2 = (if \<not> decided g1 then passThrough g1 else g1)"
  have "body_ok g2 body" using opened(3) [OF assms(2,1), folded g1_def] body_ok_passThrough by (simp add: g2_def)
  then show ?thesis unfolding gz_Flush_def g1_def [symmetric] g2_def [symmetric] Let_def by (simp add: body_ok_def)
qed

lemma written_Cons: "written (op # ops) = written [op] @ written ops"
  by (cases op) simp_all

lemma run_ok:
  assumes "wire_ok g" "body_ok g body"
  shows "wire_ok (foldl (handlerStep detect) g ops) \<and> body_ok (foldl (handlerStep detect) g ops) (body @ written ops)"
  using assms
proof (induction ops arbitrary: g body)
  case (Cons op ops)
  have "body_ok (handlerStep detect g op) (body @ written [op])"
    using Cons.prems body_ok_Write body_ok_Flush body_ok_WriteHeader by (cases op) (simp_all add: handlerStep_def)
  then show ?case
    using Cons.IH [OF handlerStep_ok [OF Cons.prems(1)], of detect op "body @ written [op]"] written_Cons [of op ops]
    by simp
qed simp

lemma serve_ok:
  shows "wire_ok (serve detect h ops)" and "decodedBody (wire (serve detect h ops)) = written ops"
proof -
  define g where "g = foldl (handlerStep detect) (newGzipWriter h) ops"
  have "wire_ok (newGzipWriter h)" "body_ok (newGzipWriter h) []"
    by (simp_all add: newGzipWriter_def wire_ok_def held_ok_def body_ok_def gzipMinSize_def)
  from run_ok [OF this, of detect ops] have g: "wire_ok g" "body_ok g (written ops)" by (simp_all add: g_def)
  show "wire_ok (serve detect h ops)" using close_ok [OF g(1)] by (simp add: serve_def g_def)
  have "decodedBody (wire (gz_close g)) = written ops"
    using g by (auto simp: gz_close_def body_ok_def wire_ok_def held_ok_def sent_ok_def passThrough_def Let_def split: if_splits)
  then show "decodedBody (wire (serve detect h ops)) = written ops" by (simp add: serve_def g_def)
qed

text \<open>The status: fixed by the first operation that fixes it, and kept.\<close>

lemma same_status [simp]:
  "g_status (passThrough g) = g_status g" "wroteHeader (passThrough g) = wroteHeader g"
  "g_status (startCompress g) = g_status g" "wroteHeader (startCompress g) = wroteHeader g"
  by (simp_all add: passThrough_def startCompress_def Let_def)

lemma WriteHeader_status [simp]:
  "wroteHeader (gz_WriteHeader g code)" "g_status (gz_WriteHeader g code) = (if wroteHeader g then g_status g else code)"
  by (cases rule: WriteHeader_cases [of g code]; simp)+

lemma handlerStep_status:
  "wroteHeader (handlerStep detect g op) \<longleftrightarrow> wroteHeader g \<or> (\<forall>k v. op \<noteq> SetHeader k v)"
  "g_status (handlerStep detect g op) = (if wroteHeader g then g_status g
     else case op of SetHeader k v \<Rightarrow> g_status g | WriteHeaderOp code \<Rightarrow> code | _ \<Rightarrow> 200)"
  by (cases op; simp add: handlerStep_def gz_Write_def gz_Flush_def Let_def)+

lemma run_status:
  assumes "\<forall>c. WriteHeaderOp c \<in> set ops \<longrightarrow> \<not> informational c"
  shows "wroteHeader g \<Longrightarrow> wroteHeader (foldl (handlerStep detect) g ops) \<and> g_status (foldl (handlerStep detect) g ops) = g_status g"
    and "\<not> wroteHeader g \<Longrightarrow> (if wroteHeader (foldl (handlerStep detect) g ops)
       then g_status (foldl (handlerStep detect) g ops) else 200) = directStatus ops"
proof -
  have keep: "wroteHeader g \<Longrightarrow> wroteHeader (foldl (handlerStep detect) g ops) \<and> g_status (foldl (handlerStep detect) g ops) = g_status g"
    for g ops
    by (induction ops arbitrary: g) (simp_all add: handlerStep_status)
  then show "wroteHeader g \<Longrightarrow> wroteHeader (foldl (handlerStep detect) g ops) \<and> g_status (foldl (handlerStep detect) g ops) = g_status g" .
  show "\<not> wroteHeader g \<Longrightarrow> (if wroteHeader (foldl (handlerStep detect) g ops)
       then g_status (foldl (handlerStep detect) g ops) else 200) = directStatus ops"
    using assms
  proof (induction ops arbitrary: g)
    case (Cons op ops)
    show ?case
    proof (cases op)
      case (SetHeader k v)
      have "\<not> wroteHeader (handlerStep detect g op)" "\<forall>c. WriteHeaderOp c \<in> set ops \<longrightarrow> \<not> informational c"
        using Cons.prems SetHeader by (simp_all add: handlerStep_status)
      from Cons.IH [OF this] show ?thesis by (simp only: SetHeader foldl.simps directStatus.simps)
    qed (use Cons.prems keep [of "handlerStep detect g op" ops] in \<open>simp_all add: handlerStep_status\<close>)
  qed simp
qed

text \<open>The gzip stream is closed once, at the end.\<close>

lemma gunzip_closed:
  "\<forall>e\<in>set w. e \<noteq> GzClose \<and> (\<forall>p. e \<noteq> SendBody p) \<and> (\<forall>s h. e \<noteq> SendHeader s h) \<Longrightarrow> gunzip (w @ [GzClose]) = Some (decodedBody w)"
  by (induction w rule: gunzip.induct) simp_all

definition not_closed :: "gzipResponseWriter \<Rightarrow> bool" where
  "not_closed g \<longleftrightarrow> GzClose \<notin> set (wire g)"

lemma not_closed_step: "not_closed g \<Longrightarrow> not_closed (handlerStep detect g op)"
proof -
  have p: "not_closed g \<Longrightarrow> not_closed (passThrough g)" "not_closed g \<Longrightarrow> not_closed (startCompress g)"
    "not_closed (g\<lparr>wroteHeader := b, g_status := c\<rparr>) = not_closed g" "not_closed (g\<lparr>g_header := h\<rparr>) = not_closed g"
    "not_closed (g\<lparr>g_buf := bs\<rparr>) = not_closed g" for g b c h bs
    by (auto simp: not_closed_def passThrough_def startCompress_def Let_def)
  have h: "not_closed g \<Longrightarrow> not_closed (gz_WriteHeader g code)" for g code
    by (cases rule: WriteHeader_cases [of g code]) (simp_all add: p)
  have a: "not_closed g \<Longrightarrow> GzClose \<notin> set es \<Longrightarrow> not_closed (g\<lparr>wire := wire g @ es\<rparr>)" for g es
    by (auto simp: not_closed_def)
  show "not_closed g \<Longrightarrow> not_closed (handlerStep detect g op)"
    by (cases op) (auto simp: handlerStep_def gz_Write_def gz_Flush_def Let_def intro!: p(1,2) h a simp: p(3-5))
qed

lemma not_closed_run: "not_closed g \<Longrightarrow> not_closed (foldl (handlerStep detect) g ops)"
  by (induction ops arbitrary: g) (simp_all add: not_closed_step)

lemma serve_client:
  assumes "\<forall>c. WriteHeaderOp c \<in> set ops \<longrightarrow> \<not> informational c"
  shows "clientStatus (wire (serve detect h ops)) = directStatus ops"
    and "clientBody (wire (serve detect h ops)) = Some (directBody ops)"
proof -
  define g where "g = foldl (handlerStep detect) (newGzipWriter h) ops"
  have s: "serve detect h ops = gz_close g" by (simp add: serve_def g_def)
  note ok = serve_ok [of detect h ops, unfolded s]
  have st: "(if wroteHeader g then g_status g else 200) = directStatus ops"
    unfolding g_def by (rule run_status(2) [OF assms]) (simp add: newGzipWriter_def)
  have w0: "wire_ok (newGzipWriter h)" "body_ok (newGzipWriter h) []"
    by (simp_all add: newGzipWriter_def wire_ok_def held_ok_def body_ok_def gzipMinSize_def)
  have g: "wire_ok g" using run_ok [OF w0] by (simp add: g_def)
  have info: "\<not> informational (directStatus ops)"
    using assms by (induction ops rule: directStatus.induct) (auto simp: informational_def)
  show cs: "clientStatus (wire (serve detect h ops)) = directStatus ops"
  proof (cases "decided g")
    case True
    then obtain h' rest where w: "wire g = SendHeader (g_status g) h' # rest" "wroteHeader g"
      using g by (auto simp: wire_ok_def sent_ok_def)
    then show ?thesis using st info True by (simp add: s gz_close_def clientStatus_def)
  next
    case False
    then have "wire g = []" using g by (simp add: wire_ok_def held_ok_def)
    then show ?thesis using st info False by (auto simp: s gz_close_def clientStatus_def passThrough_def Let_def)
  qed
  have nc: "GzClose \<notin> set (wire g)"
    using not_closed_run [of "newGzipWriter h" detect ops] by (simp add: g_def not_closed_def newGzipWriter_def)
  show "clientBody (wire (serve detect h ops)) = Some (directBody ops)"
  proof (cases "compress g")
    case True
    then have d: "decided g" "sent_ok g" using g by (auto simp: wire_ok_def held_ok_def split: if_splits)
    then obtain h' rest where w: "wire g = SendHeader (g_status g) h' # rest" "\<forall>s h'. SendHeader s h' \<notin> set rest"
      "\<forall>p. SendBody p \<notin> set rest" "status_ok (g_status g)" "wroteHeader g"
      using True by (auto simp: sent_ok_def)
    have "gunzip (rest @ [GzClose]) = Some (decodedBody rest)"
      using w nc by (intro gunzip_closed) auto
    moreover have e: "wire (gz_close g) = SendHeader (g_status g) h' # rest @ [GzClose]"
      using d True w by (simp add: gz_close_def)
    moreover have "written ops = decodedBody rest" using ok(2) by (simp add: e)
    moreover have "bodyAllowed (directStatus ops)" using st w by (auto simp: bodyAllowed_def status_ok_def)
    ultimately show ?thesis using cs by (simp add: clientBody_def s directBody_def isGz_def)
  next
    case False
    have "\<forall>e\<in>set (wire (gz_close g)). \<not> isGz e"
    proof (cases "decided g")
      case True
      then show ?thesis using g False by (auto simp: wire_ok_def sent_ok_def gz_close_def isGz_def)
    next
      case undecided: False
      then show ?thesis using g by (auto simp: wire_ok_def held_ok_def gz_close_def passThrough_def Let_def isGz_def)
    qed
    then show ?thesis using cs ok(2) by (auto simp: clientBody_def s directBody_def)
  qed
qed
section \<open>Static variants\<close>

record StaticVariant =
  sv_Body :: string
  sv_ETag :: string
  sv_ContentType :: string

definition BuildStaticVariant ::
    "(string \<Rightarrow> string) \<Rightarrow> (string \<Rightarrow> string) \<Rightarrow> string \<Rightarrow> string \<Rightarrow> string \<Rightarrow> StaticVariant option" where
  \<comment> \<open>\<open>typeOf\<close> is the MIME type of a name's extension, \<open>pack\<close> is gzip at the best level\<close>
  "BuildStaticVariant typeOf pack name b etag =
     (let ct = typeOf name
      in if ct = [] \<or> \<not> gzipCompressibleType ct \<or> length b < gzipMinSize then None
         else let out = pack b
              in if length out \<ge> length b * 9 div 10 then None
                 else Some \<lparr>sv_Body = out, sv_ETag = TrimSuffix etag [CHR 0x22] @ ''-gz'' @ [CHR 0x22], sv_ContentType = ct\<rparr>)"

lemma BuildStaticVariant_smaller:
  "BuildStaticVariant typeOf pack name b etag = Some v \<Longrightarrow>
     sv_Body v = pack b \<and> length (sv_Body v) < length b \<and> gzipCompressibleType (sv_ContentType v)"
  by (auto simp: BuildStaticVariant_def Let_def gzipMinSize_def split: if_splits)

text \<open>
  An informational status counts as the response's header: after \<open>103 Early Hints\<close> the final
  status is dropped, and the wrapped writer never sees it.
\<close>

lemma early_hints_lose_the_status:
  "wire (serve detect (\<lambda>_. []) [WriteHeaderOp 103, WriteHeaderOp 404, WriteOp ''no'']) = [SendHeader 103 (\<lambda>_. []), SendBody ''no'']"
  by (simp add: serve_def handlerStep_def gz_WriteHeader_def gz_Write_def gz_close_def newGzipWriter_def passThrough_def
      hget_def Let_def)

end
