(* ===== verification/Cty.thy ===== *)
theory Cty
  imports Prelude
begin

text \<open>
  The country file resolver, \<open>internal/cty/cty.go\<close> and its flag table \<open>iso.go\<close>.  \<open>Parse\<close> is a fold
  over the lines \<open>bufio.Scanner\<close> delivers (an over-long line or a read error is the flag \<open>scanErr\<close>),
  with the header, the prefix buffer and the \<open>inPrefixes\<close> flag as its state;
  \<open>strconv.ParseFloat\<close> is the parameter \<open>parseFloat\<close>.  A parsed resolver finds the longest
  listed prefix (\<open>Resolve_spec\<close>), and a header with too few fields makes \<open>Parse\<close> ignore
  everything after it (\<open>short_header_swallows\<close>).
\<close>

section \<open>Splitting\<close>

fun SplitN :: "nat \<Rightarrow> string \<Rightarrow> char \<Rightarrow> string list" where
  \<comment> \<open>\<open>strings.SplitN\<close> for a positive count and a one-byte separator\<close>
  "SplitN n s sep =
     (if n \<le> 1 then [s]
      else case IndexByte s sep of
             None \<Rightarrow> [s]
           | Some i \<Rightarrow> take i s # SplitN (n - 1) (drop (i + 1) s) sep)"

declare SplitN.simps [simp del]

lemma SplitN_none: "sep \<notin> set s \<Longrightarrow> SplitN n s sep = [s]"
  by (simp add: SplitN.simps IndexByte_None [symmetric])

lemma SplitN_Cons: "sep \<notin> set s \<Longrightarrow> 1 < n \<Longrightarrow> SplitN n (s @ sep # t) sep = s # SplitN (n - 1) t sep"
  by (subst SplitN.simps) (simp add: IndexByte_append)

section \<open>Entities and the resolver\<close>

record Entity =
  ent_Name :: string
  PrimaryPrefix :: string
  Continent :: string
  ent_Lat :: real
  ent_Lon :: real

record Resolver =
  cty_exact :: "(string \<times> Entity) list"
  cty_prefixes :: "(string \<times> Entity) list"
  maxPfx :: nat

definition prefixISO :: "(string \<times> string) list" where
  "prefixISO =
    [(''3A'', ''MC''), (''3B8'', ''MU''), (''3C'', ''GQ''), (''3D2'', ''FJ''), (''3DA'', ''SZ''),
     (''3V'', ''TN''), (''3W'', ''VN''), (''3X'', ''GN''), (''4J'', ''AZ''), (''4L'', ''GE''),
     (''4O'', ''ME''), (''4S'', ''LK''), (''4W'', ''TL''), (''4X'', ''IL''), (''5A'', ''LY''),
     (''5B'', ''CY''), (''5H'', ''TZ''), (''5N'', ''NG''), (''5R'', ''MG''), (''5T'', ''MR''),
     (''5U'', ''NE''), (''5V'', ''TG''), (''5W'', ''WS''), (''5X'', ''UG''), (''5Z'', ''KE''),
     (''6W'', ''SN''), (''6Y'', ''JM''), (''7O'', ''YE''), (''7P'', ''LS''), (''7Q'', ''MW''),
     (''7X'', ''DZ''), (''8P'', ''BB''), (''8Q'', ''MV''), (''8R'', ''GY''), (''9A'', ''HR''),
     (''9G'', ''GH''), (''9H'', ''MT''), (''9J'', ''ZM''), (''9K'', ''KW''), (''9L'', ''SL''),
     (''9M2'', ''MY''), (''9M6'', ''MY''), (''9N'', ''NP''), (''9Q'', ''CD''), (''9U'', ''BI''),
     (''9V'', ''SG''), (''9X'', ''RW''), (''9Y'', ''TT''), (''A2'', ''BW''), (''A3'', ''TO''),
     (''A4'', ''OM''), (''A5'', ''BT''), (''A6'', ''AE''), (''A7'', ''QA''), (''A9'', ''BH''),
     (''AP'', ''PK''), (''BV'', ''TW''), (''BY'', ''CN''), (''C2'', ''NR''), (''C3'', ''AD''),
     (''C5'', ''GM''), (''C6'', ''BS''), (''C9'', ''MZ''), (''CE'', ''CL''), (''CE0Y'', ''CL''),
     (''CE0Z'', ''CL''), (''CM'', ''CU''), (''CN'', ''MA''), (''CP'', ''BO''), (''CT'', ''PT''),
     (''CT3'', ''PT''), (''CU'', ''PT''), (''CX'', ''UY''), (''D2'', ''AO''), (''D4'', ''CV''),
     (''D6'', ''KM''), (''DL'', ''DE''), (''DU'', ''PH''), (''E3'', ''ER''), (''E4'', ''PS''),
     (''E5/n'', ''CK''), (''E5/s'', ''CK''), (''E6'', ''NU''), (''E7'', ''BA''), (''EA'', ''ES''),
     (''EA6'', ''ES''), (''EA8'', ''ES''), (''EA9'', ''ES''), (''EI'', ''IE''), (''EK'', ''AM''),
     (''EL'', ''LR''), (''EP'', ''IR''), (''ER'', ''MD''), (''ES'', ''EE''), (''ET'', ''ET''),
     (''EU'', ''BY''), (''EX'', ''KG''), (''EY'', ''TJ''), (''EZ'', ''TM''), (''F'', ''FR''),
     (''FG'', ''GP''), (''FH'', ''YT''), (''FJ'', ''BL''), (''FK'', ''NC''), (''FM'', ''MQ''),
     (''FO'', ''PF''), (''FO/a'', ''PF''), (''FO/m'', ''PF''), (''FP'', ''PM''), (''FR'', ''RE''),
     (''FS'', ''MF''), (''FT/g'', ''FR''), (''FT/t'', ''FR''), (''FT/w'', ''FR''), (''FT/x'', ''FR''),
     (''FT/z'', ''FR''), (''FW'', ''WF''), (''FY'', ''GF''), (''G'', ''GB''), (''GD'', ''IM''),
     (''GI'', ''GB''), (''GJ'', ''JE''), (''GM'', ''GB''), (''GM/s'', ''GB''), (''GU'', ''GG''),
     (''GW'', ''GB''), (''H4'', ''SB''), (''H40'', ''SB''), (''HA'', ''HU''), (''HB'', ''CH''),
     (''HB0'', ''LI''), (''HC'', ''EC''), (''HC8'', ''EC''), (''HH'', ''HT''), (''HI'', ''DO''),
     (''HK'', ''CO''), (''HK0/a'', ''CO''), (''HK0/m'', ''CO''), (''HL'', ''KR''), (''HP'', ''PA''),
     (''HR'', ''HN''), (''HS'', ''TH''), (''HV'', ''VA''), (''HZ'', ''SA''), (''I'', ''IT''),
     (''IG9'', ''IT''), (''IS'', ''IT''), (''IT9'', ''IT''), (''J2'', ''DJ''), (''J3'', ''GD''),
     (''J5'', ''GW''), (''J6'', ''LC''), (''J7'', ''DM''), (''J8'', ''VC''), (''JA'', ''JP''),
     (''JD/m'', ''JP''), (''JD/o'', ''JP''), (''JT'', ''MN''), (''JW'', ''SJ''), (''JW/b'', ''NO''),
     (''JX'', ''SJ''), (''JY'', ''JO''), (''K'', ''US''), (''KH0'', ''MP''), (''KH1'', ''US''),
     (''KH2'', ''GU''), (''KH3'', ''US''), (''KH4'', ''US''), (''KH5'', ''US''), (''KH6'', ''US''),
     (''KH7K'', ''US''), (''KH8'', ''AS''), (''KH9'', ''US''), (''KL'', ''US''), (''KP1'', ''US''),
     (''KP2'', ''VI''), (''KP4'', ''PR''), (''KP5'', ''US''), (''LA'', ''NO''), (''LU'', ''AR''),
     (''LX'', ''LU''), (''LY'', ''LT''), (''LZ'', ''BG''), (''OA'', ''PE''), (''OD'', ''LB''),
     (''OE'', ''AT''), (''OH'', ''FI''), (''OH0'', ''AX''), (''OK'', ''CZ''), (''OM'', ''SK''),
     (''ON'', ''BE''), (''OX'', ''GL''), (''OY'', ''FO''), (''OZ'', ''DK''), (''P2'', ''PG''),
     (''P4'', ''AW''), (''P5'', ''KP''), (''PA'', ''NL''), (''PJ2'', ''CW''), (''PJ4'', ''BQ''),
     (''PJ5'', ''BQ''), (''PJ7'', ''SX''), (''PY'', ''BR''), (''PY0F'', ''BR''), (''PY0S'', ''BR''),
     (''PY0T'', ''BR''), (''PZ'', ''SR''), (''R1FJ'', ''RU''), (''S2'', ''BD''), (''S5'', ''SI''),
     (''S7'', ''SC''), (''SM'', ''SE''), (''SP'', ''PL''), (''ST'', ''SD''), (''SU'', ''EG''),
     (''SV'', ''GR''), (''SV5'', ''GR''), (''SV9'', ''GR''), (''T2'', ''TV''), (''T5'', ''SO''),
     (''T7'', ''SM''), (''T8'', ''PW''), (''TF'', ''IS''), (''TG'', ''GT''), (''TI'', ''CR''),
     (''TJ'', ''CM''), (''TK'', ''FR''), (''TL'', ''CF''), (''TR'', ''GA''), (''TT'', ''TD''),
     (''TY'', ''BJ''), (''TZ'', ''ML''), (''UA'', ''RU''), (''UA2'', ''RU''), (''UA9'', ''RU''),
     (''UK'', ''UZ''), (''UN'', ''KZ''), (''UR'', ''UA''), (''V2'', ''AG''), (''V3'', ''BZ''),
     (''V4'', ''KN''), (''V5'', ''NA''), (''V8'', ''BN''), (''VE'', ''CA''), (''VK'', ''AU''),
     (''VP2E'', ''AI''), (''VP2M'', ''MS''), (''VP2V'', ''VG''), (''VP5'', ''TC''), (''VP8'', ''FK''),
     (''VP9'', ''BM''), (''VR'', ''HK''), (''VU'', ''IN''), (''XE'', ''MX''), (''XT'', ''BF''),
     (''XU'', ''KH''), (''XW'', ''LA''), (''XX9'', ''MO''), (''XZ'', ''MM''), (''YA'', ''AF''),
     (''YB'', ''ID''), (''YI'', ''IQ''), (''YJ'', ''VU''), (''YK'', ''SY''), (''YL'', ''LV''),
     (''YN'', ''NI''), (''YO'', ''RO''), (''YS'', ''SV''), (''YU'', ''RS''), (''YV'', ''VE''),
     (''Z2'', ''ZW''), (''Z3'', ''MK''), (''ZA'', ''AL''), (''ZB'', ''GI''), (''ZF'', ''KY''),
     (''ZL'', ''NZ''), (''ZP'', ''PY''), (''ZS'', ''ZA'')]"

definition isoOf :: "Entity \<Rightarrow> string" where
  \<comment> \<open>\<open>prefixISO[e.PrimaryPrefix]\<close>\<close>
  "isoOf e = (case map_of prefixISO (PrimaryPrefix e) of Some code \<Rightarrow> code | None \<Rightarrow> [])"

fun longestPrefix :: "(string \<times> Entity) list \<Rightarrow> string \<Rightarrow> nat \<Rightarrow> Entity option" where
  \<comment> \<open>the loop of \<open>Resolve\<close>, from \<open>i\<close> down to 1\<close>
  "longestPrefix m cs 0 = None"
| "longestPrefix m cs (Suc i) =
     (case map_of m (take (Suc i) cs) of Some e \<Rightarrow> Some e | None \<Rightarrow> longestPrefix m cs i)"

definition Resolve :: "Resolver option \<Rightarrow> string \<Rightarrow> (Entity \<times> string) option" where
  "Resolve r call =
     (case r of None \<Rightarrow> None
      | Some r \<Rightarrow>
          let cs = ToUpper (TrimSpace call)
          in if cs = [] then None
             else case map_of (cty_exact r) cs of
                    Some e \<Rightarrow> Some (e, isoOf e)
                  | None \<Rightarrow> map_option (\<lambda>e. (e, isoOf e))
                      (longestPrefix (cty_prefixes r) cs (min (maxPfx r) (length cs))))"

section \<open>Parsing\<close>

definition stripOverrides :: "string \<Rightarrow> string" where
  "stripOverrides tok =
     (let tok = TrimSuffix (TrimSpace tok) '';''
      in TrimSpace (takeWhile (\<lambda>c. c \<notin> set ''([<{~'') tok))"

record parseState =
  cty_res :: Resolver
  cty_header :: "string list"
  prefixBuf :: string
  inPrefixes :: bool

definition parseStart :: parseState where
  "parseStart = \<lparr>cty_res = \<lparr>cty_exact = [], cty_prefixes = [], maxPfx = 0\<rparr>, cty_header = [], prefixBuf = [], inPrefixes = False\<rparr>"

definition entityOf :: "(string \<Rightarrow> real option) \<Rightarrow> string list \<Rightarrow> Entity" where
  "entityOf parseFloat hdr = \<lparr>
     ent_Name = TrimSpace (hdr ! 0),
     PrimaryPrefix = TrimPrefix (TrimSpace (hdr ! 7)) ''*'',
     Continent = TrimSpace (hdr ! 3),
     ent_Lat = (case parseFloat (TrimSpace (hdr ! 4)) of Some lat \<Rightarrow> lat | None \<Rightarrow> 0),
     ent_Lon = (case parseFloat (TrimSpace (hdr ! 5)) of Some lonWest \<Rightarrow> - lonWest | None \<Rightarrow> 0)\<rparr>"

definition addToken :: "Entity \<Rightarrow> string \<Rightarrow> Resolver \<Rightarrow> Resolver" where
  \<comment> \<open>one entry of the prefix list\<close>
  "addToken ent raw r =
     (let tok = TrimSpace raw
      in if tok = [] then r
         else let isExact = HasPrefix tok ''='';
                  tok = ToUpper (stripOverrides (if isExact then drop 1 tok else tok))
              in if tok = [] then r
                 else if isExact then r\<lparr>cty_exact := (tok, ent) # cty_exact r\<rparr>
                 else r\<lparr>cty_prefixes := (tok, ent) # cty_prefixes r, maxPfx := max (maxPfx r) (length tok)\<rparr>)"

definition flush :: "(string \<Rightarrow> real option) \<Rightarrow> parseState \<Rightarrow> parseState" where
  "flush parseFloat st =
     (if length (cty_header st) < 8 then st
      else st\<lparr>cty_res := fold (addToken (entityOf parseFloat (cty_header st))) (Split (prefixBuf st) CHR '','') (cty_res st),
              cty_header := [], prefixBuf := [], inPrefixes := False\<rparr>)"

definition headerLine :: "parseState \<Rightarrow> string \<Rightarrow> bool" where
  "headerLine st line \<longleftrightarrow> \<not> inPrefixes st \<and> line \<noteq> [] \<and> hd line \<noteq> CHR '' '' \<and> hd line \<noteq> CHR 0x09 \<and> CHR '':'' \<in> set line"

definition parseLine :: "(string \<Rightarrow> real option) \<Rightarrow> string \<Rightarrow> parseState \<Rightarrow> parseState" where
  "parseLine parseFloat line st =
     (let trimmed = TrimSpace line
      in if trimmed = [] \<or> HasPrefix trimmed ''#'' then st
         else let st = (if headerLine st line
                        then let st = flush parseFloat st; hdr = SplitN 9 line CHR '':''
                             in st\<lparr>cty_header := hdr,
                                   prefixBuf := (if length hdr \<ge> 9 then prefixBuf st @ hdr ! 8 else prefixBuf st),
                                   inPrefixes := True\<rparr>
                        else if inPrefixes st then st\<lparr>prefixBuf := prefixBuf st @ line\<rparr>
                        else st)
              in if CHR '';'' \<in> set trimmed then flush parseFloat st else st)"

definition Parse :: "(string \<Rightarrow> real option) \<Rightarrow> string list \<Rightarrow> bool \<Rightarrow> Resolver option" where
  "Parse parseFloat ls scanErr =
     (let st = flush parseFloat (fold (parseLine parseFloat) ls parseStart)
      in if scanErr then None else Some (cty_res st))"

section \<open>What a resolver promises\<close>

definition resolver_ok :: "Resolver \<Rightarrow> bool" where
  "resolver_ok r \<longleftrightarrow> (\<forall>(p, e) \<in> set (cty_prefixes r). p \<noteq> [] \<and> length p \<le> maxPfx r \<and> ToUpper p = p)
     \<and> (\<forall>(c, e) \<in> set (cty_exact r). c \<noteq> [] \<and> ToUpper c = c)"

lemma addToken_ok: "resolver_ok r \<Longrightarrow> resolver_ok (addToken ent raw r)"
  by (fastforce simp: addToken_def resolver_ok_def Let_def)

lemma flushed_ok: "resolver_ok (cty_res st) \<Longrightarrow> resolver_ok (cty_res (flush pf st))"
proof -
  have "resolver_ok r \<Longrightarrow> resolver_ok (fold (addToken ent) toks r)" for ent toks r
    by (induction toks arbitrary: r) (simp_all add: addToken_ok)
  then show "resolver_ok (cty_res st) \<Longrightarrow> ?thesis" by (simp add: flush_def)
qed

lemma parseLine_ok: "resolver_ok (cty_res st) \<Longrightarrow> resolver_ok (cty_res (parseLine pf line st))"
  by (simp add: parseLine_def Let_def flushed_ok)

lemma Parse_ok: "Parse pf ls scanErr = Some r \<Longrightarrow> resolver_ok r"
proof -
  have "resolver_ok (cty_res st) \<Longrightarrow> resolver_ok (cty_res (fold (parseLine pf) ls st))" for st
    by (induction ls arbitrary: st) (simp_all add: parseLine_ok)
  moreover have "resolver_ok (cty_res parseStart)" by (simp add: parseStart_def resolver_ok_def)
  ultimately show "Parse pf ls scanErr = Some r \<Longrightarrow> ?thesis"
    by (auto simp: Parse_def Let_def flushed_ok split: if_splits)
qed

lemma longestPrefix_spec:
  "case longestPrefix m cs n of
     None \<Rightarrow> \<forall>i. 0 < i \<and> i \<le> n \<longrightarrow> map_of m (take i cs) = None
   | Some e \<Rightarrow> \<exists>i. 0 < i \<and> i \<le> n \<and> map_of m (take i cs) = Some e \<and>
       (\<forall>j. i < j \<and> j \<le> n \<longrightarrow> map_of m (take j cs) = None)"
proof (induction n)
  case (Suc n)
  show ?case
  proof (cases "map_of m (take (Suc n) cs)")
    case None
    show ?thesis
    proof (cases "longestPrefix m cs n")
      case none: None
      then show ?thesis using Suc None by (auto simp: le_Suc_eq)
    next
      case (Some e)
      then obtain i where "0 < i" "i \<le> n" "map_of m (take i cs) = Some e"
        "\<forall>j. i < j \<and> j \<le> n \<longrightarrow> map_of m (take j cs) = None" using Suc by auto
      then have "\<exists>i. 0 < i \<and> i \<le> Suc n \<and> map_of m (take i cs) = Some e \<and>
          (\<forall>j. i < j \<and> j \<le> Suc n \<longrightarrow> map_of m (take j cs) = None)"
        using None by (intro exI [of _ i]) (auto simp: le_Suc_eq)
      then show ?thesis using None Some by simp
    qed
  qed (auto intro: exI [of _ "Suc n"])
qed simp

definition listed :: "Resolver \<Rightarrow> string \<Rightarrow> string \<Rightarrow> Entity \<Rightarrow> bool" where
  \<comment> \<open>\<open>p\<close> is a listed prefix of \<open>cs\<close>\<close>
  "listed r cs p e \<longleftrightarrow> p \<noteq> [] \<and> HasPrefix cs p \<and> map_of (cty_prefixes r) p = Some e"

lemma listed_iff: "listed r cs p e \<longleftrightarrow> 0 < length p \<and> length p \<le> length cs \<and> p = take (length p) cs \<and> map_of (cty_prefixes r) p = Some e"
  unfolding listed_def HasPrefix_def by (metis length_greater_0_conv length_take min.absorb_iff2 min.commute)

lemma Resolve_spec:
  assumes ok: "resolver_ok r" and cs: "cs = ToUpper (TrimSpace call)" "cs \<noteq> []"
    and no_override: "map_of (cty_exact r) cs = None"
  shows "case Resolve (Some r) call of
      None \<Rightarrow> \<forall>p e. \<not> listed r cs p e
    | Some (e, code) \<Rightarrow> code = isoOf e \<and> (\<exists>p. listed r cs p e \<and> (\<forall>q e'. listed r cs q e' \<longrightarrow> length q \<le> length p))"
proof -
  let ?n = "min (maxPfx r) (length cs)"
  have R: "Resolve (Some r) call = map_option (\<lambda>e. (e, isoOf e)) (longestPrefix (cty_prefixes r) cs ?n)"
    using cs no_override by (simp add: Resolve_def Let_def)
  have bound: "length q \<le> ?n" if "listed r cs q e'" for q e'
  proof -
    have "(q, e') \<in> set (cty_prefixes r)" using that map_of_SomeD by (fastforce simp: listed_def)
    then show ?thesis using ok that by (auto simp: resolver_ok_def listed_iff)
  qed
  show ?thesis
  proof (cases "longestPrefix (cty_prefixes r) cs ?n")
    case None
    have "\<not> listed r cs p e" for p e
    proof
      assume l: "listed r cs p e"
      have "\<And>i. 0 < i \<Longrightarrow> i \<le> ?n \<Longrightarrow> map_of (cty_prefixes r) (take i cs) = None"
        using longestPrefix_spec [where m = "cty_prefixes r" and cs = cs and n = ?n] None by simp
      then have "map_of (cty_prefixes r) (take (length p) cs) = None"
        using bound [OF l] l by (metis listed_iff)
      then show False using l by (metis listed_iff option.discI)
    qed
    then show ?thesis using R None by simp
  next
    case (Some e)
    then obtain i where i: "0 < i" "i \<le> ?n" "map_of (cty_prefixes r) (take i cs) = Some e"
      and top: "\<And>j. i < j \<Longrightarrow> j \<le> ?n \<Longrightarrow> map_of (cty_prefixes r) (take j cs) = None"
      using longestPrefix_spec [where m = "cty_prefixes r" and cs = cs and n = ?n] by auto
    have "listed r cs (take i cs) e" using i by (simp add: listed_iff)
    moreover have "length q \<le> length (take i cs)" if "listed r cs q e'" for q e'
      using top [of "length q"] bound [OF that] that i by (metis leI length_take listed_iff min.absorb2 min.bounded_iff option.discI)
    ultimately have "\<exists>p. listed r cs p e \<and> (\<forall>q e'. listed r cs q e' \<longrightarrow> length q \<le> length p)" by blast
    then show ?thesis using R Some by simp
  qed
qed

section \<open>What the parser reads\<close>

definition idle :: "parseState \<Rightarrow> bool" where
  "idle st \<longleftrightarrow> cty_header st = [] \<and> prefixBuf st = [] \<and> \<not> inPrefixes st"

definition content :: "string \<Rightarrow> bool" where
  "content line \<longleftrightarrow> TrimSpace line \<noteq> [] \<and> \<not> HasPrefix (TrimSpace line) ''#''"

lemma continuation:
  assumes "\<forall>l \<in> set ls. content l \<and> CHR '';'' \<notin> set (TrimSpace l)" "inPrefixes st"
  shows "fold (parseLine pf) ls st = st\<lparr>prefixBuf := prefixBuf st @ concat ls\<rparr>"
  using assms
  by (induction ls arbitrary: st) (auto simp: parseLine_def headerLine_def content_def Let_def)

text \<open>An entry in the file's own shape: a header of nine fields, the prefixes to the semicolon.\<close>

lemma entry_parses:
  assumes "idle st" "content h" "headerLine st h" "CHR '';'' \<notin> set (TrimSpace h)" "length (SplitN 9 h CHR '':'') = 9"
    and "\<forall>l \<in> set ls. content l \<and> CHR '';'' \<notin> set (TrimSpace l)"
    and "content l" "CHR '';'' \<in> set (TrimSpace l)"
  shows "fold (parseLine pf) (h # ls @ [l]) st = st\<lparr>cty_res :=
    fold (addToken (entityOf pf (SplitN 9 h CHR '':'')))
      (Split (SplitN 9 h CHR '':'' ! 8 @ concat ls @ l) CHR '','') (cty_res st)\<rparr>"
proof -
  define hdr where "hdr = SplitN 9 h CHR '':''"
  obtain r where st: "st = \<lparr>cty_res = r, cty_header = [], prefixBuf = [], inPrefixes = False\<rparr>"
    using assms(1) by (cases st) (simp add: idle_def)
  let ?in = "\<lambda>buf. \<lparr>cty_res = r, cty_header = hdr, prefixBuf = buf, inPrefixes = True\<rparr>"
  have "flush pf st = st" by (simp add: flush_def st)
  then have first: "parseLine pf h st = ?in (hdr ! 8)"
    using assms(2-5) by (simp add: parseLine_def content_def Let_def hdr_def [symmetric]) (simp add: st)
  have last: "parseLine pf l (?in buf) = flush pf (?in (buf @ l))" for buf
    using assms(7,8) by (simp add: parseLine_def content_def headerLine_def Let_def)
  have "fold (parseLine pf) (h # ls @ [l]) st = flush pf (?in (hdr ! 8 @ concat ls @ l))"
    using continuation [OF assms(6), of "?in (hdr ! 8)" pf] by (simp add: first last)
  then show ?thesis
    using assms(5) by (simp add: flush_def st hdr_def)
qed

text \<open>A header with fewer than eight fields is never flushed, so the parser never leaves its prefix list.\<close>

lemma short_header_swallows:
  assumes "idle st" "content h" "headerLine st h" "length (SplitN 9 h CHR '':'') < 8"
  shows "cty_res (flush pf (fold (parseLine pf) (h # ls) st)) = cty_res st"
proof -
  define stuck where "stuck s \<longleftrightarrow> inPrefixes s \<and> length (cty_header s) < 8 \<and> cty_res s = cty_res st" for s :: parseState
  have step: "stuck (parseLine pf line s)" if "stuck s" for line and s :: parseState
    using that by (simp add: stuck_def parseLine_def headerLine_def flush_def Let_def)
  have "stuck (fold (parseLine pf) ls s)" if "stuck s" for s
    using that by (induction ls arbitrary: s) (simp_all add: step)
  moreover have "stuck (parseLine pf h st)"
    using assms by (simp add: stuck_def parseLine_def content_def flush_def Let_def) (simp add: idle_def)
  ultimately have "stuck (fold (parseLine pf) (h # ls) st)" by simp
  then show ?thesis by (simp add: stuck_def flush_def)
qed

end
