(* ===== verification/Regions.thy ===== *)
theory Regions
  imports Maidenhead
begin

text \<open>
  The eleven regions: \<open>internal/region\<close> (region.go, geo.go) and the copy of the rules that
  dx_regions.go keeps for the main binary. Coordinates are reals. The two classifiers agree on
  every point, and on locators once the case is folded (\<open>FromLocator_legacy\<close>); the legacy one
  refuses a lower-case locator that the other accepts.
\<close>

section \<open>Regions and their wire names\<close>

datatype Region = Unknown | EU | NA | SA | AF | AS | OC | AN | JA | VK | KH6 | CAR

definition Region_String :: "Region \<Rightarrow> string" where
  "Region_String r = (case r of
     Unknown \<Rightarrow> ''??'' | EU \<Rightarrow> ''EU'' | NA \<Rightarrow> ''NA'' | SA \<Rightarrow> ''SA'' | AF \<Rightarrow> ''AF'' | AS \<Rightarrow> ''AS''
   | OC \<Rightarrow> ''OC'' | AN \<Rightarrow> ''AN'' | JA \<Rightarrow> ''JA'' | VK \<Rightarrow> ''VK'' | KH6 \<Rightarrow> ''KH6'' | CAR \<Rightarrow> ''CAR'')"

definition AllRegions :: "Region list" where
  "AllRegions = [EU, NA, SA, AF, AS, JA, OC, VK, KH6, CAR, AN]"

definition IsValid :: "Region \<Rightarrow> bool" where
  "IsValid r \<longleftrightarrow> (case r of Unknown \<Rightarrow> False | _ \<Rightarrow> True)"

lemma Region_String_inj: "Region_String r = Region_String s \<longleftrightarrow> r = s"
  by (cases r; cases s) (simp_all add: Region_String_def)

lemma AllRegions_valid: "set AllRegions = {r. IsValid r}" "distinct AllRegions"
proof -
  have "r \<in> set AllRegions \<longleftrightarrow> IsValid r" for r by (cases r) (simp_all add: AllRegions_def IsValid_def)
  then show "set AllRegions = {r. IsValid r}" by blast
qed (simp add: AllRegions_def)

section \<open>Points\<close>

definition region_FromLatLng :: "real \<Rightarrow> real \<Rightarrow> Region" where
  "region_FromLatLng lat lng =
     (if lat \<le> -60 then AN
      else if lat \<ge> 30 \<and> lat \<le> 46 \<and> lng \<ge> 128 \<and> lng \<le> 146 then JA
      else if lat \<ge> 18 \<and> lat \<le> 29 \<and> lng \<ge> -161 \<and> lng \<le> -154 then KH6
      else if lat \<ge> 10 \<and> lat \<le> 25 \<and> lng \<ge> -85 \<and> lng \<le> -60 then CAR
      else if lat \<ge> -50 \<and> lat \<le> -10 \<and> lng \<ge> 110 \<and> lng \<le> 180 then VK
      else if lat \<ge> 35 \<and> lat \<le> 72 \<and> lng \<ge> -15 \<and> lng \<le> 45 then EU
      else if lat \<ge> -40 \<and> lat \<le> 37 \<and> lng \<ge> -20 \<and> lng \<le> 55 then AF
      else if lat \<ge> 15 \<and> lat \<le> 84 \<and> lng \<ge> -170 \<and> lng \<le> -50 then NA
      else if lat \<ge> -60 \<and> lat < 15 \<and> lng \<ge> -90 \<and> lng \<le> -30 then SA
      else if lat \<ge> 0 \<and> lat \<le> 78 \<and> lng \<ge> 40 \<and> lng \<le> 180 then AS
      else if lat \<ge> -50 \<and> lat \<le> 30 \<and> (lng \<ge> 130 \<or> lng \<le> -130) then OC
      else Unknown)"

definition dxPulseRegionForLatLng :: "real \<Rightarrow> real \<Rightarrow> Region" where
  "dxPulseRegionForLatLng lat lng =
     (if lat \<le> -60 then AN
      else if lat \<ge> 30 \<and> lat \<le> 46 \<and> lng \<ge> 128 \<and> lng \<le> 146 then JA
      else if lat \<ge> 18 \<and> lat \<le> 29 \<and> lng \<ge> -161 \<and> lng \<le> -154 then KH6
      else if lat \<ge> 10 \<and> lat \<le> 25 \<and> lng \<ge> -85 \<and> lng \<le> -60 then CAR
      else if lat \<ge> -50 \<and> lat \<le> -10 \<and> lng \<ge> 110 \<and> lng \<le> 180 then VK
      else if lat \<ge> 35 \<and> lat \<le> 72 \<and> lng \<ge> -15 \<and> lng \<le> 45 then EU
      else if lat \<ge> -40 \<and> lat \<le> 37 \<and> lng \<ge> -20 \<and> lng \<le> 55 then AF
      else if lat \<ge> 15 \<and> lat \<le> 84 \<and> lng \<ge> -170 \<and> lng \<le> -50 then NA
      else if lat \<ge> -60 \<and> lat < 15 \<and> lng \<ge> -90 \<and> lng \<le> -30 then SA
      else if lat \<ge> 0 \<and> lat \<le> 78 \<and> lng \<ge> 40 \<and> lng \<le> 180 then AS
      else if lat \<ge> -50 \<and> lat \<le> 30 \<and> (lng \<ge> 130 \<or> lng \<le> -130) then OC
      else Unknown)"

lemma FromLatLng_legacy: "region_FromLatLng lat lng = dxPulseRegionForLatLng lat lng"
  unfolding region_FromLatLng_def dxPulseRegionForLatLng_def ..

text \<open>Some points on the globe have no region, in the south Atlantic and in the high Arctic.\<close>

lemma FromLatLng_gaps: "region_FromLatLng (-55) 0 = Unknown" "region_FromLatLng 80 100 = Unknown"
  by (simp_all add: region_FromLatLng_def)

section \<open>Locators\<close>

definition region_IsLocator :: "string \<Rightarrow> bool" where
  "region_IsLocator s =
     (if length s < 4 then False
      else let s = ToUpper s
           in if bt s 0 < 65 \<or> bt s 0 > 82 \<or> bt s 1 < 65 \<or> bt s 1 > 82 then False
              else if bt s 2 < 48 \<or> bt s 2 > 57 \<or> bt s 3 < 48 \<or> bt s 3 > 57 then False
              else True)"

definition LocatorCentroid :: "string \<Rightarrow> real \<times> real \<times> bool" where
  "LocatorCentroid loc =
     (let locator = ToUpper loc
      in if length locator < 2 then (0, 0, False)
         else let lng = ub (bt locator 0 - 65) * 20 - 180;
                  lat = ub (bt locator 1 - 65) * 10 - 90;
                  (lat, lng) =
                    (if length locator \<ge> 4
                     then let lng = lng + ub (bt locator 2 - 48) * 2;
                              lat = lat + ub (bt locator 3 - 48) * 1
                          in if length locator \<ge> 6
                             then (lat + (ub (bt locator 5 - 65) * (5/2 / 60) + 5/2 / 120),
                                   lng + (ub (bt locator 4 - 65) * (5 / 60) + 5 / 120))
                             else (lat + 1/2, lng + 1)
                     else (lat + 5, lng + 10))
              in (lat, lng, region_IsLocator locator))"

definition region_FromLocator :: "string \<Rightarrow> Region" where
  "region_FromLocator loc =
     (let (lat, lng, ok) = LocatorCentroid loc
      in if \<not> ok then Unknown else region_FromLatLng lat lng)"

definition dxPulseRegionForLocator :: "string \<Rightarrow> Region" where
  "dxPulseRegionForLocator loc =
     (if \<not> IsLocator loc then Unknown
      else let (lat, lng) = ToLatLng loc in dxPulseRegionForLatLng lat lng)"

lemma region_IsLocator_eq: "region_IsLocator s = IsLocator (ToUpper s)"
  by (simp add: region_IsLocator_def IsLocator_def Let_def)

lemma LocatorCentroid_eq:
  "4 \<le> length loc \<Longrightarrow> LocatorCentroid loc = (fst (ToLatLng loc), snd (ToLatLng loc), IsLocator (ToUpper loc))"
  unfolding LocatorCentroid_def ToLatLng_def Let_def by (simp add: region_IsLocator_eq)

lemma LocatorCentroid_bad: "length loc < 4 \<Longrightarrow> \<not> snd (snd (LocatorCentroid loc))"
  by (simp add: LocatorCentroid_def region_IsLocator_def Let_def)

theorem FromLocator_legacy: "region_FromLocator loc = dxPulseRegionForLocator (ToUpper loc)"
proof (cases "length loc < 4")
  case True
  then have "\<not> IsLocator (ToUpper loc)" by (simp add: IsLocator_def)
  then show ?thesis
    using LocatorCentroid_bad [OF True] by (simp add: region_FromLocator_def dxPulseRegionForLocator_def case_prod_beta Let_def)
next
  case False
  have "ToLatLng (ToUpper loc) = ToLatLng loc" by (simp add: ToLatLng_def)
  then show ?thesis
    using False by (simp add: region_FromLocator_def dxPulseRegionForLocator_def LocatorCentroid_eq
        FromLatLng_legacy split: prod.splits)
qed

lemma legacy_refuses_lower_case:
  "region_FromLocator ''jo31'' = EU" "dxPulseRegionForLocator ''jo31'' = Unknown"
proof -
  have u: "ToUpper ''jo31'' = ''JO31''" by (simp add: char_eq_byte byte_upper)
  have "SquareXY ''JO31'' = Some (93, 141)" by (simp add: SquareXY_def bt_def IsLocator_def)
  then have "ToLatLng ''JO31'' = (103/2, 7)" using ToLatLng_square by fastforce
  then show "region_FromLocator ''jo31'' = EU"
    unfolding FromLocator_legacy u by (simp add: dxPulseRegionForLocator_def dxPulseRegionForLatLng_def)
  show "dxPulseRegionForLocator ''jo31'' = Unknown" by (simp add: dxPulseRegionForLocator_def)
qed

end
