(* ===== verification/Grouping.thy ===== *)
theory Grouping
  imports Assoc
begin

text \<open>
  An accumulator that folds every item into the slot of its key, as the cell buckets and the
  baseline buckets do. Its contract: after any items a slot holds the fold over the items of
  its key, and there is a slot for every key met.
\<close>

locale grouping =
  fixes key :: "'m \<Rightarrow> 'k option" and new :: "'m \<Rightarrow> 'b" and add :: "'m \<Rightarrow> 'b \<Rightarrow> 'b"
    and step :: "('k \<times> 'b) list \<Rightarrow> 'm \<Rightarrow> ('k \<times> 'b) list"
  assumes step_none: "key m = None \<Longrightarrow> step e m = e"
    and step_some: "key m = Some k \<Longrightarrow>
      step e m = AList.update k (add m (case map_of e k of None \<Rightarrow> new m | Some b \<Rightarrow> b)) e"
begin

lemma step_distinct: "distinct (map fst e) \<Longrightarrow> distinct (map fst (step e m))"
  by (cases "key m") (simp_all add: step_none step_some assoc)

lemma run_distinct: "distinct (map fst e) \<Longrightarrow> distinct (map fst (foldl step e ms))"
  by (induction ms arbitrary: e) (simp_all add: step_distinct)

lemma step_slot:
  "map_of (step e m) k =
    (if key m = Some k then Some (add m (case map_of e k of None \<Rightarrow> new m | Some b \<Rightarrow> b)) else map_of e k)"
  by (cases "key m") (auto simp: step_none step_some assoc)

lemma run_slot:
  "map_of (foldl step e ms) k =
    (let own = filter (\<lambda>m. key m = Some k) ms
     in if own = [] then map_of e k
        else Some (fold add own (case map_of e k of None \<Rightarrow> new (hd own) | Some b \<Rightarrow> b)))"
proof (induction ms arbitrary: e)
  case (Cons m ms)
  then show ?case by (cases "map_of e k") (auto simp: step_slot Let_def)
qed simp

lemma run_new:
  "map_of (foldl step [] ms) k =
    (let own = filter (\<lambda>m. key m = Some k) ms in if own = [] then None else Some (fold add own (new (hd own))))"
  by (simp add: run_slot Let_def)

lemma hd_own:
  assumes "filter (\<lambda>m. key m = Some k) ms \<noteq> []"
  shows "key (hd (filter (\<lambda>m. key m = Some k) ms)) = Some k"
  using hd_in_set [OF assms] by simp

lemma run_keys: "fst ` set (foldl step e ms) = fst ` set e \<union> {k. \<exists>m \<in> set ms. key m = Some k}"
proof (induction ms arbitrary: e)
  case (Cons m ms)
  then show ?case by (cases "key m") (auto simp: step_none step_some dom_update)
qed simp

end

end
