(* ===== verification/CellFeed.thy ===== *)
theory CellFeed
  imports Messages Regions Grouping
begin

text \<open>
  The midpoint-cell feed: \<open>internal/proplab\<close> (geo.go, spot.go, lane.go, stats.go, time.go,
  buckets.go) and its driver dx_cellfeed.go. The engine's buckets are an association list of
  records; a set of strings is a \<open>set\<close>; the table \<open>proplab_cell_buckets\<close> is an association list
  updated as the upsert statement says. What the feed keeps in memory and what the table holds
  add up to the spots accepted (\<open>feed_conserves\<close>), and a closed row is the summary of
  the spots of its key (\<open>Close_rows\<close>).
\<close>

section \<open>Geometry of the feed\<close>

definition proplab_IsLocator :: "string \<Rightarrow> bool" where
  "proplab_IsLocator s =
     (if length s < 4 then False
      else let s = ToUpper s
           in if bt s 0 < 65 \<or> bt s 0 > 82 \<or> bt s 1 < 65 \<or> bt s 1 > 82 then False
              else if bt s 2 < 48 \<or> bt s 2 > 57 \<or> bt s 3 < 48 \<or> bt s 3 > 57 then False
              else True)"

definition LocatorToLatLng :: "string \<Rightarrow> real \<times> real" where
  "LocatorToLatLng loc =
     (let locator = ToUpper loc
      in if length locator < 2 then (0, 0)
         else let lng = ub (bt locator 0 - 65) * 20 - 180;
                  lat = ub (bt locator 1 - 65) * 10 - 90
              in if length locator \<ge> 4
                 then let lng = lng + ub (bt locator 2 - 48) * 2;
                          lat = lat + ub (bt locator 3 - 48) * 1
                      in if length locator \<ge> 6
                         then (lat + (ub (bt locator 5 - 65) * (5/2 / 60) + 5/2 / 120),
                               lng + (ub (bt locator 4 - 65) * (5 / 60) + 5 / 120))
                         else (lat + 1/2, lng + 1)
                 else (lat + 5, lng + 10))"

definition HaversineKm :: "real \<Rightarrow> real \<Rightarrow> real \<Rightarrow> real \<Rightarrow> real" where
  "HaversineKm lat1 lon1 lat2 lon2 =
     (let r = 6371; toRad = pi / 180;
          dLat = (lat2 - lat1) * toRad; dLon = (lon2 - lon1) * toRad;
          a = sin (dLat/2) * sin (dLat/2) + cos (lat1*toRad) * cos (lat2*toRad) * sin (dLon/2) * sin (dLon/2);
          a = (if a < 0 then 0 else a);
          a = (if a > 1 then 1 else a);
          c = 2 * atan2 (sqrt a) (sqrt (1 - a))
      in r * c)"

function lonUp :: "real \<Rightarrow> real" where
  \<comment> \<open>the first loop of \<open>normalizeLon\<close>\<close>
  "lonUp lon = (if lon < -180 then lonUp (lon + 360) else lon)"
  by pat_completeness auto
termination by (relation "measure (\<lambda>b. nat \<lceil>- b\<rceil>)") auto

function lonDown :: "real \<Rightarrow> real" where
  \<comment> \<open>the second loop of \<open>normalizeLon\<close>\<close>
  "lonDown lon = (if lon \<ge> 180 then lonDown (lon - 360) else lon)"
  by pat_completeness auto
termination by (relation "measure (\<lambda>b. nat \<lceil>b\<rceil>)") auto

declare lonUp.simps [simp del] lonDown.simps [simp del]

definition normalizeLon :: "real \<Rightarrow> real" where
  \<comment> \<open>with exact arithmetic, as the feed's midpoints use it; \<open>normalizeLonF\<close> below rounds\<close>
  "normalizeLon lon = lonDown (lonUp lon)"

definition GreatCircleMidpoint :: "real \<Rightarrow> real \<Rightarrow> real \<Rightarrow> real \<Rightarrow> real \<times> real" where
  "GreatCircleMidpoint lat1 lon1 lat2 lon2 =
     (let toRad = pi / 180; phi1 = lat1 * toRad; phi2 = lat2 * toRad;
          deltaLambda = (lon2 - lon1) * toRad;
          x1 = cos phi1 * cos (lon1*toRad); y1 = cos phi1 * sin (lon1*toRad); z1 = sin phi1;
          x2 = cos phi2 * cos (lon2*toRad); y2 = cos phi2 * sin (lon2*toRad); z2 = sin phi2;
          x = x1 + x2; y = y1 + y2; z = z1 + z2;
          r = sqrt (x*x + y*y + z*z)
      in if r = 0 then ((lat1 + lat2) / 2, normalizeLon ((lon1 + lon2) / 2))
         else let x = x / r; y = y / r; z = z / r;
                  lat = arcsin z * (180 / pi);
                  lon = atan2 y x * (180 / pi);
                  lon = normalizeLon lon
              in if \<bar>deltaLambda\<bar> > pi
                 then let altLon = normalizeLon (lon + 180)
                      in if HaversineKm lat altLon lat1 lon1 + HaversineKm lat altLon lat2 lon2
                            < HaversineKm lat lon lat1 lon1 + HaversineKm lat lon lat2 lon2
                         then (lat, altLon) else (lat, lon)
                 else (lat, lon))"

definition LatLngToLocator4 :: "real \<Rightarrow> real \<Rightarrow> string option" where
  "LatLngToLocator4 lat lon =
     (if lat < -90 \<or> lat > 90 \<or> lon < -180 \<or> lon \<ge> 180 then None
      else let x = \<lfloor>(lon + 180) / 2\<rfloor>; y = \<lfloor>(lat + 90) / 1\<rfloor>;
               x = (if x < 0 then 0 else x); x = (if x \<ge> 180 then 179 else x);
               y = (if y < 0 then 0 else y); y = (if y \<ge> 180 then 179 else y)
           in Some (SquareXYToLocator x y))"

definition MidpointCell :: "string \<Rightarrow> string \<Rightarrow> string option" where
  "MidpointCell senderLoc receiverLoc =
     (let senderLoc = ToUpper (TrimSpace senderLoc); receiverLoc = ToUpper (TrimSpace receiverLoc)
      in if \<not> proplab_IsLocator senderLoc \<or> \<not> proplab_IsLocator receiverLoc
            \<or> length senderLoc < 4 \<or> length receiverLoc < 4 then None
         else let (lat1, lon1) = LocatorToLatLng senderLoc;
                  (lat2, lon2) = LocatorToLatLng receiverLoc;
                  (mLat, mLon) = GreatCircleMidpoint lat1 lon1 lat2 lon2
              in LatLngToLocator4 mLat mLon)"

text \<open>The copies agree with the originals, and a midpoint is always on the grid.\<close>

lemma proplab_IsLocator_eq: "proplab_IsLocator s = IsLocator (ToUpper s)"
  by (simp add: proplab_IsLocator_def IsLocator_def Let_def)

lemma LocatorToLatLng_eq: "LocatorToLatLng loc = ToLatLng loc"
  unfolding LocatorToLatLng_def ToLatLng_def ..

lemma lonUp_ge: "-180 \<le> lonUp lon"
proof (induction lon rule: lonUp.induct)
  case (1 lon)
  then show ?case by (cases "lon < -180") (simp_all add: lonUp.simps [of lon])
qed

lemma lonDown_range: "-180 \<le> lon \<Longrightarrow> -180 \<le> lonDown lon \<and> lonDown lon < 180"
proof (induction lon rule: lonDown.induct)
  case (1 lon)
  then show ?case by (cases "lon \<ge> 180") (simp_all add: lonDown.simps [of lon])
qed

lemma normalizeLon_range: "-180 \<le> normalizeLon lon" "normalizeLon lon < 180"
  using lonDown_range [OF lonUp_ge] by (simp_all add: normalizeLon_def)

lemma lonUp_turns: "\<exists>k::int. lonUp lon = lon + 360 * of_int k"
proof (induction lon rule: lonUp.induct)
  case (1 lon)
  show ?case
  proof (cases "lon < -180")
    case True
    then obtain k :: int where "lonUp (lon + 360) = lon + 360 + 360 * of_int k" using 1 by blast
    then have "lonUp lon = lon + 360 * of_int (k + 1)" using True by (simp add: lonUp.simps [of lon])
    then show ?thesis by blast
  qed (auto simp: lonUp.simps [of lon] intro: exI [of _ 0])
qed

lemma lonDown_turns: "\<exists>k::int. lonDown lon = lon + 360 * of_int k"
proof (induction lon rule: lonDown.induct)
  case (1 lon)
  show ?case
  proof (cases "lon \<ge> 180")
    case True
    then obtain k :: int where "lonDown (lon - 360) = lon - 360 + 360 * of_int k" using 1 by blast
    then have "lonDown lon = lon + 360 * of_int (k - 1)" using True by (simp add: lonDown.simps [of lon])
    then show ?thesis by blast
  qed (auto simp: lonDown.simps [of lon] intro: exI [of _ 0])
qed

lemma normalizeLon_turns: "\<exists>k::int. normalizeLon lon = lon + 360 * of_int k"
proof -
  obtain j k :: int where "lonUp lon = lon + 360 * of_int j" "lonDown (lonUp lon) = lonUp lon + 360 * of_int k"
    using lonUp_turns lonDown_turns by metis
  then have "normalizeLon lon = lon + 360 * of_int (j + k)" by (simp add: normalizeLon_def)
  then show ?thesis by blast
qed

text \<open>
  The same loops with the arithmetic rounded: \<open>rnd\<close> is the rounding of a float64 sum. Far
  out a step of 360 rounds to no step at all, so the loops may not end: \<open>None\<close> is not
  returning.
\<close>

partial_function (option) lonUpF :: "(real \<Rightarrow> real) \<Rightarrow> real \<Rightarrow> real option" where
  "lonUpF rnd lon = (if lon < -180 then lonUpF rnd (rnd (lon + 360)) else Some lon)"

partial_function (option) lonDownF :: "(real \<Rightarrow> real) \<Rightarrow> real \<Rightarrow> real option" where
  "lonDownF rnd lon = (if lon \<ge> 180 then lonDownF rnd (rnd (lon - 360)) else Some lon)"

definition normalizeLonF :: "(real \<Rightarrow> real) \<Rightarrow> real \<Rightarrow> real option" where
  "normalizeLonF rnd lon = Option.bind (lonUpF rnd lon) (lonDownF rnd)"

definition rounds_like_float64 :: "(real \<Rightarrow> real) \<Rightarrow> bool" where
  \<comment> \<open>rounding to nearest: monotone, exact on \<open>-180\<close>, relative error at most \<open>2 ^ -53\<close>\<close>
  "rounds_like_float64 rnd \<longleftrightarrow> mono rnd \<and> rnd (-180) = -180 \<and> (\<forall>x. \<bar>rnd x - x\<bar> \<le> \<bar>x\<bar> / 2 ^ 53)"

lemma lonDownF_returns:
  assumes "rounds_like_float64 rnd"
  shows "-180 \<le> lon \<Longrightarrow> lon \<le> 2 ^ 60 \<Longrightarrow> \<exists>y. lonDownF rnd lon = Some y \<and> -180 \<le> y \<and> y < 180"
proof (induction "nat \<lceil>lon + 180\<rceil>" arbitrary: lon rule: less_induct)
  case less
  show ?case
  proof (cases "lon \<ge> 180")
    case True
    let ?l = "rnd (lon - 360)"
    have "\<bar>?l - (lon - 360)\<bar> \<le> \<bar>lon - 360\<bar> / 2 ^ 53" using assms unfolding rounds_like_float64_def by blast
    also have "\<bar>lon - 360\<bar> / 2 ^ 53 \<le> 2 ^ 60 / 2 ^ 53" using True less.prems(2) by (intro divide_right_mono) auto
    finally have "\<bar>?l - (lon - 360)\<bar> \<le> 128" by simp
    then have step: "?l \<le> lon - 232" by (simp add: abs_le_iff)
    have "mono rnd" "rnd (-180) = -180" using assms unfolding rounds_like_float64_def by blast+
    then have low: "-180 \<le> ?l" using monoD [of rnd "-180" "lon - 360"] True by simp
    have "nat \<lceil>?l + 180\<rceil> < nat \<lceil>lon + 180\<rceil>" using step low True by linarith
    then obtain y where "lonDownF rnd ?l = Some y" "-180 \<le> y" "y < 180"
      using less.hyps [of ?l] low step less.prems by fastforce
    then show ?thesis using True by (auto simp: lonDownF.simps [of rnd lon])
  qed (use less.prems in \<open>simp add: lonDownF.simps [of rnd lon]\<close>)
qed

lemma lonUpF_returns:
  assumes "rounds_like_float64 rnd"
  shows "- (2 ^ 60) \<le> lon \<Longrightarrow> lon \<le> 2 ^ 60 \<Longrightarrow> \<exists>y. lonUpF rnd lon = Some y \<and> -180 \<le> y \<and> y \<le> 2 ^ 60"
proof (induction "nat \<lceil>- lon\<rceil>" arbitrary: lon rule: less_induct)
  case less
  show ?case
  proof (cases "lon < -180")
    case True
    let ?l = "rnd (lon + 360)"
    have "\<bar>?l - (lon + 360)\<bar> \<le> \<bar>lon + 360\<bar> / 2 ^ 53" using assms unfolding rounds_like_float64_def by blast
    also have "\<bar>lon + 360\<bar> / 2 ^ 53 \<le> 2 ^ 60 / 2 ^ 53" using True less.prems(1) by (intro divide_right_mono) auto
    finally have "\<bar>?l - (lon + 360)\<bar> \<le> 128" by simp
    then have step: "lon + 232 \<le> ?l" "?l \<le> lon + 488" by (simp_all add: abs_le_iff)
    have "nat \<lceil>- ?l\<rceil> < nat \<lceil>- lon\<rceil>" using step True by linarith
    moreover have "- (2 ^ 60) \<le> ?l" using step(1) less.prems(1) by linarith
    moreover have "?l \<le> 2 ^ 60" using step(2) True by simp
    ultimately obtain y where "lonUpF rnd ?l = Some y" "-180 \<le> y" "y \<le> 2 ^ 60"
      using less.hyps [of ?l] by blast
    then show ?thesis using True by (auto simp: lonUpF.simps [of rnd lon])
  qed (use less.prems in \<open>simp add: lonUpF.simps [of rnd lon]\<close>)
qed

lemma lonDownF_stuck:
  assumes "180 \<le> lon" "rnd (lon - 360) = lon"
  shows "lonDownF rnd lon = None"
proof (rule ccontr)
  assume "lonDownF rnd lon \<noteq> None"
  then obtain y where "lonDownF rnd lon = Some y" by blast
  then have "\<not> (180 \<le> lon \<and> rnd (lon - 360) = lon)"
  proof (rule lonDownF.raw_induct [rotated])
    fix f :: "(real \<Rightarrow> real) \<Rightarrow> real \<Rightarrow> real option" and rnd :: "real \<Rightarrow> real" and lon y :: real
    assume "\<And>rnd lon y. f rnd lon = Some y \<Longrightarrow> \<not> (180 \<le> lon \<and> rnd (lon - 360) = lon)"
      and "(if lon \<ge> 180 then f rnd (rnd (lon - 360)) else Some lon) = Some y"
    then show "\<not> (180 \<le> lon \<and> rnd (lon - 360) = lon)" by metis
  qed
  then show False using assms by blast
qed

lemma lonUpF_stuck:
  assumes "lon < -180" "rnd (lon + 360) = lon"
  shows "lonUpF rnd lon = None"
proof (rule ccontr)
  assume "lonUpF rnd lon \<noteq> None"
  then obtain y where "lonUpF rnd lon = Some y" by blast
  then have "\<not> (lon < -180 \<and> rnd (lon + 360) = lon)"
  proof (rule lonUpF.raw_induct [rotated])
    fix f :: "(real \<Rightarrow> real) \<Rightarrow> real \<Rightarrow> real option" and rnd :: "real \<Rightarrow> real" and lon y :: real
    assume "\<And>rnd lon y. f rnd lon = Some y \<Longrightarrow> \<not> (lon < -180 \<and> rnd (lon + 360) = lon)"
      and "(if lon < -180 then f rnd (rnd (lon + 360)) else Some lon) = Some y"
    then show "\<not> (lon < -180 \<and> rnd (lon + 360) = lon)" by metis
  qed
  then show False using assms by blast
qed

lemma normalizeLonF_stuck:
  "180 \<le> lon \<Longrightarrow> rnd (lon - 360) = lon \<Longrightarrow> normalizeLonF rnd lon = None"
  "lon < -180 \<Longrightarrow> rnd (lon + 360) = lon \<Longrightarrow> normalizeLonF rnd lon = None"
proof -
  have "180 \<le> lon \<Longrightarrow> lonUpF rnd lon = Some lon" by (simp add: lonUpF.simps [of rnd lon])
  then show "180 \<le> lon \<Longrightarrow> rnd (lon - 360) = lon \<Longrightarrow> normalizeLonF rnd lon = None"
    by (simp add: normalizeLonF_def lonDownF_stuck)
  show "lon < -180 \<Longrightarrow> rnd (lon + 360) = lon \<Longrightarrow> normalizeLonF rnd lon = None"
    by (simp add: normalizeLonF_def lonUpF_stuck)
qed

lemma normalizeLonF_returns:
  assumes "rounds_like_float64 rnd" "\<bar>lon\<bar> \<le> 2 ^ 60"
  shows "\<exists>y. normalizeLonF rnd lon = Some y \<and> -180 \<le> y \<and> y < 180"
proof -
  have "- (2 ^ 60) \<le> lon" "lon \<le> 2 ^ 60" using assms(2) abs_le_iff [of lon "2 ^ 60"] by linarith+
  then obtain x where x: "lonUpF rnd lon = Some x" "-180 \<le> x" "x \<le> 2 ^ 60" using lonUpF_returns [OF assms(1)] by blast
  from lonDownF_returns [OF assms(1) x(2,3)] show ?thesis by (simp add: normalizeLonF_def x(1))
qed

lemma normalizeLonF_exact: "normalizeLonF (\<lambda>x. x) lon = Some (normalizeLon lon)"
proof -
  have "lonUpF (\<lambda>x. x) lon = Some (lonUp lon)" for lon
  proof (induction lon rule: lonUp.induct)
    case (1 lon)
    then show ?case by (cases "lon < -180") (simp_all add: lonUp.simps [of lon] lonUpF.simps [of _ lon])
  qed
  moreover have "lonDownF (\<lambda>x. x) lon = Some (lonDown lon)" for lon
  proof (induction lon rule: lonDown.induct)
    case (1 lon)
    then show ?case by (cases "lon \<ge> 180") (simp_all add: lonDown.simps [of lon] lonDownF.simps [of _ lon])
  qed
  ultimately show ?thesis by (simp add: normalizeLonF_def normalizeLon_def)
qed
lemma atan2_quadrant:
  assumes "0 \<le> y" "0 \<le> x"
  shows "0 \<le> atan2 y x" "atan2 y x \<le> pi / 2"
  using assms arctan_ubound [of "y / x"] by (auto simp: atan2_def)

lemma HaversineKm_bounds: "0 \<le> HaversineKm a b c d" "HaversineKm a b c d \<le> 6371 * pi"
proof -
  obtain t where t: "0 \<le> t" "t \<le> 1" "HaversineKm a b c d = 6371 * (2 * atan2 (sqrt t) (sqrt (1 - t)))"
    unfolding HaversineKm_def Let_def by (atomize_elim) (intro exI conjI, rule_tac [3] refl, auto)
  then show "0 \<le> HaversineKm a b c d" "HaversineKm a b c d \<le> 6371 * pi"
    using atan2_quadrant [of "sqrt t" "sqrt (1 - t)"] by simp_all
qed

lemma unit_ratio: "\<bar>z\<bar> \<le> r \<Longrightarrow> -1 \<le> z / r \<and> z / r \<le> (1::real)"
  by (cases "r = 0") (auto simp: divide_simps abs_le_iff)

lemma GreatCircleMidpoint_range:
  assumes "-90 \<le> lat1" "lat1 \<le> 90" "-90 \<le> lat2" "lat2 \<le> 90"
    and m: "GreatCircleMidpoint lat1 lon1 lat2 lon2 = (lat, lon)"
  shows "-90 \<le> lat \<and> lat \<le> 90 \<and> -180 \<le> lon \<and> lon < 180"
proof -
  have asin: "-90 \<le> arcsin (z / sqrt (x*x + y*y + z*z)) * (180 / pi) \<and> arcsin (z / sqrt (x*x + y*y + z*z)) * (180 / pi) \<le> 90"
    for x y z :: real
  proof -
    have "z * z \<le> x*x + y*y + z*z" by simp
    then have "\<bar>z\<bar> \<le> sqrt (x*x + y*y + z*z)" by (simp add: real_le_rsqrt power2_eq_square)
    from unit_ratio [OF this] have "- (pi / 2) \<le> arcsin (z / sqrt (x*x + y*y + z*z))" "arcsin (z / sqrt (x*x + y*y + z*z)) \<le> pi / 2"
      using arcsin_bounded by auto
    then show ?thesis using pi_gt_zero by (auto simp: field_simps)
  qed
  have "-90 \<le> (lat1 + lat2) / 2 \<and> (lat1 + lat2) / 2 \<le> 90" using assms(1-4) by simp
  then show ?thesis
    using m asin normalizeLon_range by (auto simp: GreatCircleMidpoint_def Let_def split: if_splits)
qed

lemma LatLngToLocator4_grid:
  assumes "-90 \<le> lat" "lat \<le> 90" "-180 \<le> lon" "lon < 180"
  shows "\<exists>x y. on_grid x y \<and> LatLngToLocator4 lat lon = Some (SquareXYToLocator x y)"
  using assms unfolding LatLngToLocator4_def Let_def on_grid_def
  by (intro exI conjI; (rule refl)?) auto

lemma MidpointCell_grid:
  assumes "IsLocator (ToUpper (TrimSpace a))" "IsLocator (ToUpper (TrimSpace b))"
    and "fst (ToLatLng (TrimSpace a)) \<in> {-90..90}" "fst (ToLatLng (TrimSpace b)) \<in> {-90..90}"
  shows "\<exists>x y. on_grid x y \<and> MidpointCell a b = Some (SquareXYToLocator x y)"
proof -
  have fold: "ToLatLng (ToUpper s) = ToLatLng s" for s by (simp add: ToLatLng_def)
  obtain lat1 lon1 lat2 lon2 where ll: "ToLatLng (TrimSpace a) = (lat1, lon1)" "ToLatLng (TrimSpace b) = (lat2, lon2)"
    by fastforce
  obtain lat lon where m: "GreatCircleMidpoint lat1 lon1 lat2 lon2 = (lat, lon)" by fastforce
  have "MidpointCell a b = LatLngToLocator4 lat lon"
    using assms(1,2) IsLocator_length [OF assms(1)] IsLocator_length [OF assms(2)]
    by (simp add: MidpointCell_def proplab_IsLocator_eq LocatorToLatLng_eq fold ll m)
  moreover have "-90 \<le> lat \<and> lat \<le> 90 \<and> -180 \<le> lon \<and> lon < 180"
    using assms(3,4) m ll by (intro GreatCircleMidpoint_range [where lat = lat and lon = lon]) auto
  ultimately show ?thesis using LatLngToLocator4_grid by auto
qed

section \<open>The bucket engine\<close>

record proplabSpot =
  sp_RP :: int
  sp_T :: int
  sp_SC :: string
  sp_SL :: string
  sp_RC :: string
  sp_RL :: string
  sp_B :: string
  sp_MD :: string
  sp_Source :: string

definition proplab_SourceTypeForMessage :: "proplabSpot \<Rightarrow> string" where
  "proplab_SourceTypeForMessage m =
     (let src = ToLower (TrimSpace (sp_Source m))
      in if src \<noteq> [] then src
         else if ToUpper (TrimSpace (sp_MD m)) = ''DXCLUSTER'' then ''dxcluster''
         else ''mqtt'')"

definition LaneForSourceType :: "string \<Rightarrow> string" where
  "LaneForSourceType t = (if t = ''rbn'' then ''rbn'' else if t = ''dxcluster'' then ''dcx'' else ''ft8'')"

definition BucketSeconds :: int where "BucketSeconds = 15 * 60"

definition AlignBucketStart :: "int \<Rightarrow> int" where
  "AlignBucketStart t = quot t BucketSeconds * BucketSeconds"

definition IntMedian :: "int list \<Rightarrow> int" where
  "IntMedian xs =
     (let xs = sort xs; n = length xs
      in if n = 0 then 0
         else if n mod 2 = 1 then xs ! (n div 2)
         else quot (xs ! (n div 2 - 1) + xs ! (n div 2)) 2)"

definition PercentileInt :: "int list \<Rightarrow> real \<Rightarrow> real" where
  "PercentileInt xs p =
     (let xs = sort xs; n = length xs
      in if n = 0 then 0
         else if p \<le> 0 then of_int (xs ! 0)
         else if p \<ge> 1 then of_int (xs ! (n - 1))
         else let idx = \<lceil>real n * p\<rceil> - 1;
                  idx = (if idx < 0 then 0 else idx);
                  idx = (if idx \<ge> int n then int n - 1 else idx)
              in of_int (xs ! nat idx))"

record cellBucket =
  cb_links :: "string set"
  cb_reporters :: "string set"
  cb_snrs :: "int list"
  cb_spotCount :: nat
  sumDistKm :: real
  maxDistKm :: real
  bucket_region :: string

record bucketKey =
  key_BucketStart :: int
  key_Band :: string
  key_Cell4 :: string
  key_Lane :: string

type_synonym engine = "(bucketKey \<times> cellBucket) list"

record CellRow =
  row_key :: bucketKey
  row_Region :: string
  SpotCount :: nat
  LinkCount :: nat
  ReporterCount :: nat
  SnrMedian :: int
  SnrP10 :: int
  DistMedianKm :: int
  DistMaxKm :: int

definition spotKey :: "proplabSpot \<Rightarrow> bucketKey option" where
  \<comment> \<open>the guards of \<open>Observe\<close> and the key they lead to\<close>
  "spotKey m =
     (let band = normalizeBand (sp_B m)
      in if \<not> BandInScope band then None
         else case MidpointCell (sp_SL m) (sp_RL m) of
                None \<Rightarrow> None
              | Some cell \<Rightarrow> Some \<lparr>key_BucketStart = AlignBucketStart (sp_T m), key_Band = band, key_Cell4 = cell,
                  key_Lane = LaneForSourceType (proplab_SourceTypeForMessage m)\<rparr>)"

definition newBucket :: "bucketKey \<Rightarrow> cellBucket" where
  "newBucket k = \<lparr>cb_links = {}, cb_reporters = {}, cb_snrs = [], cb_spotCount = 0, sumDistKm = 0, maxDistKm = 0,
     bucket_region = Region_String (region_FromLocator (key_Cell4 k))\<rparr>"

definition spotLink :: "proplabSpot \<Rightarrow> string" where
  "spotLink m = ToUpper (TrimSpace (sp_SC m)) @ ''|'' @ ToUpper (TrimSpace (sp_RC m))"

definition spotDist :: "proplabSpot \<Rightarrow> real" where
  "spotDist m =
     (let (lat1, lon1) = LocatorToLatLng (ToUpper (TrimSpace (sp_SL m)));
          (lat2, lon2) = LocatorToLatLng (ToUpper (TrimSpace (sp_RL m)))
      in HaversineKm lat1 lon1 lat2 lon2)"

definition addToBucket :: "proplabSpot \<Rightarrow> cellBucket \<Rightarrow> cellBucket" where
  "addToBucket m b =
     (let lane = LaneForSourceType (proplab_SourceTypeForMessage m);
          sc = ToUpper (TrimSpace (sp_SC m)); rc = ToUpper (TrimSpace (sp_RC m));
          dist = spotDist m
      in b\<lparr>cb_spotCount := cb_spotCount b + 1,
           cb_links := insert (spotLink m) (cb_links b),
           cb_reporters := insert rc (insert sc (cb_reporters b)),
           sumDistKm := sumDistKm b + dist,
           maxDistKm := (if dist > maxDistKm b then dist else maxDistKm b),
           cb_snrs := (if lane \<noteq> ''dcx'' then cb_snrs b @ [sp_RP m] else cb_snrs b)\<rparr>)"

definition engine_Observe :: "engine \<Rightarrow> proplabSpot \<Rightarrow> engine" where
  "engine_Observe e m =
     (case spotKey m of
        None \<Rightarrow> e
      | Some k \<Rightarrow>
          let b = (case map_of e k of None \<Rightarrow> newBucket k | Some b \<Rightarrow> b)
          in AList.update k (addToBucket m b) e)"

definition closeRow :: "bucketKey \<Rightarrow> cellBucket \<Rightarrow> CellRow" where
  "closeRow k b = \<lparr>row_key = k, row_Region = bucket_region b, SpotCount = cb_spotCount b,
     LinkCount = card (cb_links b), ReporterCount = card (cb_reporters b),
     SnrMedian = (if cb_snrs b \<noteq> [] then IntMedian (cb_snrs b) else 0),
     SnrP10 = (if cb_snrs b \<noteq> [] then trunc (PercentileInt (cb_snrs b) (1/10)) else 0),
     DistMedianKm = (if cb_spotCount b > 0 then trunc (sumDistKm b / real (cb_spotCount b)) else 0),
     DistMaxKm = trunc (maxDistKm b)\<rparr>"

definition CloseBuckets :: "engine \<Rightarrow> int \<Rightarrow> engine \<times> CellRow list" where
  "CloseBuckets e cutoff =
     (filter (\<lambda>(k, b). key_BucketStart k > cutoff) e,
      map (\<lambda>(k, b). closeRow k b) (filter (\<lambda>(k, b). \<not> key_BucketStart k > cutoff) e))"

section \<open>What a bucket holds\<close>

interpretation bk: grouping spotKey "\<lambda>m. newBucket (the (spotKey m))" addToBucket engine_Observe
  by unfold_locales (auto simp: engine_Observe_def Let_def split: option.split)

definition summary :: "bucketKey \<Rightarrow> proplabSpot list \<Rightarrow> cellBucket" where
  \<comment> \<open>what a bucket must hold, said of the spots themselves\<close>
  "summary k ms = \<lparr>cb_links = spotLink ` set ms,
     cb_reporters = (\<lambda>m. ToUpper (TrimSpace (sp_SC m))) ` set ms \<union> (\<lambda>m. ToUpper (TrimSpace (sp_RC m))) ` set ms,
     cb_snrs = (if key_Lane k = ''dcx'' then [] else map sp_RP ms), cb_spotCount = length ms,
     sumDistKm = sum_list (map spotDist ms), maxDistKm = fold (\<lambda>m. max (spotDist m)) ms 0,
     bucket_region = Region_String (region_FromLocator (key_Cell4 k))\<rparr>"

lemma spotKey_lane: "spotKey m = Some k \<Longrightarrow> key_Lane k = LaneForSourceType (proplab_SourceTypeForMessage m)"
  by (auto simp: spotKey_def Let_def split: if_splits option.splits)

lemma bucket_summary:
  "\<forall>m \<in> set ms. spotKey m = Some k \<Longrightarrow> fold addToBucket ms (newBucket k) = summary k ms"
proof (induction ms rule: rev_induct)
  case (snoc m ms)
  then have "LaneForSourceType (proplab_SourceTypeForMessage m) = key_Lane k" using spotKey_lane [of m k] by simp
  with snoc show ?case by (auto simp: addToBucket_def summary_def Let_def max_def)
qed (simp add: summary_def newBucket_def)

theorem Close_rows:
  "set (snd (CloseBuckets (foldl engine_Observe [] ms) cutoff)) =
    {closeRow k (summary k (filter (\<lambda>m. spotKey m = Some k) ms)) | k.
      key_BucketStart k \<le> cutoff \<and> (\<exists>m \<in> set ms. spotKey m = Some k)}"
proof -
  define e where "e = foldl engine_Observe [] ms"
  have d: "distinct (map fst e)" unfolding e_def by (rule bk.run_distinct) simp
  have slot: "(k, b) \<in> set e \<longleftrightarrow> (\<exists>m \<in> set ms. spotKey m = Some k) \<and> b = summary k (filter (\<lambda>m. spotKey m = Some k) ms)" for k b
  proof -
    have "(k, b) \<in> set e \<longleftrightarrow> map_of e k = Some b" using d by simp
    also have "\<dots> \<longleftrightarrow> (\<exists>m \<in> set ms. spotKey m = Some k) \<and> b = summary k (filter (\<lambda>m. spotKey m = Some k) ms)"
      using bk.hd_own [of k ms] unfolding e_def bk.run_new Let_def
      by (auto simp: filter_empty_conv bucket_summary)
    finally show ?thesis .
  qed
  have "r \<in> set (snd (CloseBuckets e cutoff)) \<longleftrightarrow>
      (\<exists>k b. (k, b) \<in> set e \<and> key_BucketStart k \<le> cutoff \<and> r = closeRow k b)" for r
    by (auto simp: CloseBuckets_def not_less)
  then show ?thesis unfolding e_def [symmetric] slot by blast
qed

lemma Close_rest:
  "map_of (fst (CloseBuckets (foldl engine_Observe [] ms) cutoff)) k =
    map_of (foldl engine_Observe [] (filter (\<lambda>m. \<forall>k. spotKey m = Some k \<longrightarrow> key_BucketStart k > cutoff) ms)) k"
proof -
  have d: "distinct (map fst (foldl engine_Observe [] ms))" by (rule bk.run_distinct) simp
  have "filter (\<lambda>m. spotKey m = Some k) (filter (\<lambda>m. \<forall>k. spotKey m = Some k \<longrightarrow> key_BucketStart k > cutoff) ms)
      = (if key_BucketStart k > cutoff then filter (\<lambda>m. spotKey m = Some k) ms else [])"
    by (auto simp: filter_empty_conv intro: filter_cong)
  then show ?thesis
    by (simp add: CloseBuckets_def map_of_filter d bk.run_new Let_def split: option.splits)
qed

section \<open>The feed\<close>

record cellFeed =
  feed_engine :: engine
  feed_hasStore :: bool
  retentionDays :: int
  feed_dedup :: "(string \<times> int) list"
  lastPrune :: int \<comment> \<open>in seconds\<close>
  feed_table :: "(bucketKey \<times> CellRow) list" \<comment> \<open>\<open>proplab_cell_buckets\<close>\<close>

definition toProplabSpot :: "MQTTMessage \<Rightarrow> proplabSpot" where
  "toProplabSpot m = \<lparr>sp_RP = RP m, sp_T = T m, sp_SC = SC m, sp_SL = SL m, sp_RC = RC m, sp_RL = RL m,
     sp_B = B m, sp_MD = [], sp_Source = ToLower (TrimSpace (sourceTypeForMessage m))\<rparr>"

definition cellDedupKey :: "string \<Rightarrow> string \<Rightarrow> string \<Rightarrow> string \<Rightarrow> int \<Rightarrow> string" where
  "cellDedupKey band lane sc rc bucketStart =
     band @ ''|'' @ lane @ ''|'' @ sc @ ''|'' @ rc @ ''|'' @ itoa bucketStart"

definition messageKey :: "MQTTMessage \<Rightarrow> string option" where
  \<comment> \<open>the guards of the feed's \<open>Observe\<close> and the key it deduplicates by\<close>
  "messageKey m =
     (let band = normalizeBand (B m)
      in if band = [] \<or> \<not> bandInScope band then None
         else if \<not> IsLocator (SL m) \<or> \<not> IsLocator (RL m) \<or> length (SL m) < 4 \<or> length (RL m) < 4 then None
         else let lane = LaneForSourceType (proplab_SourceTypeForMessage (toProplabSpot m));
                  sc = ToUpper (TrimSpace (SC m)); rc = ToUpper (TrimSpace (RC m))
              in Some (cellDedupKey band lane sc rc (AlignBucketStart (T m))))"

definition feed_Observe :: "int \<Rightarrow> MQTTMessage \<Rightarrow> cellFeed \<Rightarrow> cellFeed" where
  "feed_Observe now m s =
     (case messageKey m of
        None \<Rightarrow> s
      | Some key \<Rightarrow>
          if (case map_of (feed_dedup s) key of Some seen \<Rightarrow> now - seen < 5 | None \<Rightarrow> False) then s
          else s\<lparr>feed_dedup := AList.update key now (feed_dedup s), feed_engine := engine_Observe (feed_engine s) (toProplabSpot m)\<rparr>)"

definition Backfill :: "MQTTMessage list \<Rightarrow> cellFeed \<Rightarrow> cellFeed" where
  "Backfill spots s = s\<lparr>feed_engine := foldl (\<lambda>e m. engine_Observe e (toProplabSpot m)) (feed_engine s) spots\<rparr>"

definition cleanupDedup :: "int \<Rightarrow> cellFeed \<Rightarrow> cellFeed" where
  "cleanupDedup now s = s\<lparr>feed_dedup := filter (\<lambda>(k, seen). \<not> now - seen > 30) (feed_dedup s)\<rparr>"

definition upsertRow :: "CellRow \<Rightarrow> (bucketKey \<times> CellRow) list \<Rightarrow> (bucketKey \<times> CellRow) list" where
  \<comment> \<open>\<open>proplabCellBucketUpsertSQL\<close>\<close>
  "upsertRow r tab =
     AList.update (row_key r)
       (case map_of tab (row_key r) of
          None \<Rightarrow> r
        | Some old \<Rightarrow> old\<lparr>SpotCount := SpotCount old + SpotCount r, LinkCount := LinkCount old + LinkCount r,
            ReporterCount := ReporterCount old + ReporterCount r, SnrMedian := SnrMedian r, SnrP10 := SnrP10 r,
            DistMedianKm := DistMedianKm r, DistMaxKm := max (DistMaxKm old) (DistMaxKm r)\<rparr>) tab"

definition upsertProplabCellBuckets :: "bool \<Rightarrow> CellRow list \<Rightarrow> (bucketKey \<times> CellRow) list \<Rightarrow> (bucketKey \<times> CellRow) list" where
  \<comment> \<open>\<open>ok\<close>: the batch, one implicit transaction, was committed\<close>
  "upsertProplabCellBuckets ok rows tab = (if \<not> ok then tab else fold upsertRow rows tab)"

definition feed_tick :: "int \<Rightarrow> bool \<Rightarrow> (bucketKey \<Rightarrow> bool) \<Rightarrow> cellFeed \<Rightarrow> cellFeed" where
  \<comment> \<open>\<open>gone\<close>: the rows the pruning reached before its batches, its budget or an error stopped it\<close>
  "feed_tick now ok gone s =
     (let cutoff = AlignBucketStart (now - BucketSeconds);
          (e, rows) = CloseBuckets (feed_engine s) cutoff;
          s = s\<lparr>feed_engine := e\<rparr>;
          s = (if rows \<noteq> [] \<and> feed_hasStore s then s\<lparr>feed_table := upsertProplabCellBuckets ok rows (feed_table s)\<rparr> else s);
          s = cleanupDedup now s
      in if retentionDays s > 0 \<and> now - lastPrune s > 3600
         then let pruneCutoff = now - retentionDays s * 24 * 60 * 60;
                  s = (if feed_hasStore s
                       then s\<lparr>feed_table := filter (\<lambda>(k, r). \<not> (key_BucketStart k < pruneCutoff \<and> gone k)) (feed_table s)\<rparr>
                       else s)
              in s\<lparr>lastPrune := now\<rparr>
         else s)"

section \<open>Nothing is lost between memory and the table\<close>

datatype feedOp = FeedObserve int MQTTMessage | FeedBackfill "MQTTMessage list" | FeedTick int bool "bucketKey \<Rightarrow> bool"

fun feedStep :: "feedOp \<Rightarrow> cellFeed \<Rightarrow> cellFeed" where
  "feedStep (FeedObserve now m) s = feed_Observe now m s"
| "feedStep (FeedBackfill ms) s = Backfill ms s"
| "feedStep (FeedTick now ok gone) s = feed_tick now ok gone s"

fun handed :: "feedOp \<Rightarrow> cellFeed \<Rightarrow> proplabSpot list" where
  \<comment> \<open>the spots an operation hands to the engine\<close>
  "handed (FeedObserve now m) s =
     (case messageKey m of
        None \<Rightarrow> []
      | Some key \<Rightarrow> if (case map_of (feed_dedup s) key of Some seen \<Rightarrow> now - seen < 5 | None \<Rightarrow> False) then [] else [toProplabSpot m])"
| "handed (FeedBackfill ms) s = map toProplabSpot ms"
| "handed (FeedTick now ok gone) s = []"

fun handedAll :: "feedOp list \<Rightarrow> cellFeed \<Rightarrow> proplabSpot list" where
  "handedAll [] s = []"
| "handedAll (op # ops) s = handed op s @ handedAll ops (feedStep op s)"

fun feed_safe :: "bucketKey \<Rightarrow> int \<Rightarrow> feedOp \<Rightarrow> bool" where
  \<comment> \<open>the database commits, and the row of \<open>k\<close> is not pruned\<close>
  "feed_safe k days (FeedTick now ok gone) \<longleftrightarrow> ok \<and> \<not> (key_BucketStart k < now - days * 24 * 60 * 60 \<and> gone k)"
| "feed_safe k days _ \<longleftrightarrow> True"

definition memCount :: "bucketKey \<Rightarrow> engine \<Rightarrow> nat" where
  "memCount k e = (case map_of e k of None \<Rightarrow> 0 | Some b \<Rightarrow> cb_spotCount b)"

definition tabCount :: "bucketKey \<Rightarrow> (bucketKey \<times> CellRow) list \<Rightarrow> nat" where
  "tabCount k tab = (case map_of tab k of None \<Rightarrow> 0 | Some r \<Rightarrow> SpotCount r)"

definition feed_ok :: "cellFeed \<Rightarrow> bool" where
  "feed_ok s \<longleftrightarrow> distinct (map fst (feed_engine s)) \<and> distinct (map fst (feed_table s)) \<and> feed_hasStore s"

lemma memCount_Observe: "memCount k (engine_Observe e m) = memCount k e + (if spotKey m = Some k then 1 else 0)"
  by (simp add: memCount_def bk.step_slot addToBucket_def newBucket_def Let_def split: option.splits)

lemma memCount_run: "memCount k (foldl engine_Observe e ms) = memCount k e + length (filter (\<lambda>m. spotKey m = Some k) ms)"
  by (induction ms arbitrary: e) (simp_all add: memCount_Observe)

lemma tabCount_upsert: "tabCount k (upsertRow r tab) = tabCount k tab + (if row_key r = k then SpotCount r else 0)"
  by (simp add: tabCount_def upsertRow_def assoc split: option.splits)

lemma tabCount_fold:
  "tabCount k (fold upsertRow rows tab) = tabCount k tab + sum_list (map (\<lambda>r. if row_key r = k then SpotCount r else 0) rows)"
  by (induction rows arbitrary: tab) (simp_all add: tabCount_upsert)

lemma fold_upsert_distinct: "distinct (map fst tab) \<Longrightarrow> distinct (map fst (fold upsertRow rows tab))"
  by (induction rows arbitrary: tab) (simp_all add: upsertRow_def assoc)

lemma closed_count:
  "distinct (map fst e) \<Longrightarrow> sum_list (map (\<lambda>r. if row_key r = k then SpotCount r else 0) (map (\<lambda>(k, b). closeRow k b) e)) = memCount k e"
proof (induction e)
  case (Cons p e)
  obtain k' b where p: "p = (k', b)" by fastforce
  have "k' \<notin> fst ` set e" using Cons.prems p by simp
  then have "map_of e k' = None" by (simp add: map_of_eq_None_iff)
  then show ?case using Cons p by (auto simp: memCount_def closeRow_def)
qed (simp add: memCount_def)

lemma Close_counts:
  assumes "distinct (map fst e)" and c: "CloseBuckets e cutoff = (e', rows)"
  shows "memCount k e' + sum_list (map (\<lambda>r. if row_key r = k then SpotCount r else 0) rows) = memCount k e"
    and "distinct (map fst e')"
proof -
  have "sum_list (map (\<lambda>r. if row_key r = k then SpotCount r else 0) rows)
      = memCount k (filter (\<lambda>(k, b). \<not> key_BucketStart k > cutoff) e)"
    using c closed_count [of "filter (\<lambda>(k, b). \<not> key_BucketStart k > cutoff) e" k] assms(1)
    by (auto simp: CloseBuckets_def distinct_keys_filter)
  moreover have "memCount k (filter (\<lambda>(k, b). \<not> key_BucketStart k > cutoff) e) + memCount k (filter (\<lambda>(k, b). key_BucketStart k > cutoff) e) = memCount k e"
    using assms(1) by (simp add: memCount_def map_of_filter split: option.splits)
  ultimately show "memCount k e' + sum_list (map (\<lambda>r. if row_key r = k then SpotCount r else 0) rows) = memCount k e"
    using c by (simp add: CloseBuckets_def)
  show "distinct (map fst e')" using c assms(1) by (auto simp: CloseBuckets_def distinct_keys_filter)
qed

definition feedTotal :: "bucketKey \<Rightarrow> cellFeed \<Rightarrow> nat" where
  "feedTotal k s = memCount k (feed_engine s) + tabCount k (feed_table s)"

lemma tick_total:
  assumes ok: "feed_ok s" and safe: "feed_safe k (retentionDays s) (FeedTick now True gone)"
  shows "feedTotal k (feed_tick now True gone s) = feedTotal k s \<and> feed_ok (feed_tick now True gone s)
    \<and> retentionDays (feed_tick now True gone s) = retentionDays s"
proof -
  obtain e rows where c: "CloseBuckets (feed_engine s) (AlignBucketStart (now - BucketSeconds)) = (e, rows)" by fastforce
  have counts: "memCount k e + sum_list (map (\<lambda>r. if row_key r = k then SpotCount r else 0) rows) = memCount k (feed_engine s)"
      "distinct (map fst e)"
    using Close_counts [OF _ c] ok by (simp_all add: feed_ok_def)
  define tab where "tab = fold upsertRow rows (feed_table s)"
  define pruned where "pruned = filter (\<lambda>(k, r). \<not> (key_BucketStart k < now - retentionDays s * 24 * 60 * 60 \<and> gone k)) tab"
  have d: "distinct (map fst tab)" using ok by (simp add: tab_def fold_upsert_distinct feed_ok_def)
  have "tabCount k pruned = tabCount k tab"
    using safe by (simp add: pruned_def tabCount_def map_of_filter [OF d] split: option.splits)
  moreover have "tabCount k tab = tabCount k (feed_table s) + sum_list (map (\<lambda>r. if row_key r = k then SpotCount r else 0) rows)"
    by (simp add: tab_def tabCount_fold)
  moreover have "feed_engine (feed_tick now True gone s) = e" "feed_hasStore (feed_tick now True gone s)"
      "retentionDays (feed_tick now True gone s) = retentionDays s"
      "feed_table (feed_tick now True gone s) = tab \<or> feed_table (feed_tick now True gone s) = pruned"
    using c ok by (auto simp: feed_tick_def Let_def cleanupDedup_def upsertProplabCellBuckets_def feed_ok_def tab_def pruned_def)
  moreover have "distinct (map fst pruned)" using d by (simp add: pruned_def distinct_keys_filter)
  ultimately show ?thesis using counts d by (auto simp: feedTotal_def feed_ok_def)
qed

lemma feedStep_total:
  assumes "feed_ok s" "feed_safe k (retentionDays s) op"
  shows "feedTotal k (feedStep op s) = feedTotal k s + length (filter (\<lambda>m. spotKey m = Some k) (handed op s))
    \<and> feed_ok (feedStep op s) \<and> retentionDays (feedStep op s) = retentionDays s"
proof (cases op)
  case (FeedObserve now m)
  then show ?thesis
    using assms(1) by (auto simp: feed_Observe_def feedTotal_def memCount_Observe feed_ok_def bk.step_distinct split: option.splits)
next
  case (FeedBackfill ms)
  have "foldl (\<lambda>e m. engine_Observe e (toProplabSpot m)) e ms = foldl engine_Observe e (map toProplabSpot ms)" for e
    by (induction ms arbitrary: e) simp_all
  then show ?thesis
    using assms(1) FeedBackfill by (simp add: Backfill_def feedTotal_def memCount_run feed_ok_def bk.run_distinct)
next
  case (FeedTick now ok gone)
  then have "ok" and "feed_safe k (retentionDays s) (FeedTick now True gone)" using assms(2) by simp_all
  then show ?thesis using FeedTick tick_total [OF assms(1)] by simp
qed

theorem feed_conserves:
  "feed_ok s \<Longrightarrow> \<forall>op \<in> set ops. feed_safe k (retentionDays s) op \<Longrightarrow>
    feedTotal k (fold feedStep ops s) = feedTotal k s + length (filter (\<lambda>m. spotKey m = Some k) (handedAll ops s))"
proof (induction ops arbitrary: s)
  case (Cons op ops)
  then show ?case using feedStep_total [of s k op] by simp
qed simp

text \<open>The second delivery of a spot within five seconds changes nothing.\<close>

lemma feed_dedup:
  assumes "handed (FeedObserve now m) s \<noteq> []" "now \<le> now'" "now' < now + 5"
  shows "feed_Observe now' m (feed_Observe now m s) = feed_Observe now m s"
  using assms by (auto simp: feed_Observe_def assoc split: option.splits if_splits)

text \<open>A failed batch loses the rows it carried: they have already left memory.\<close>

lemma failed_batch_loses:
  assumes "feed_ok s" "key_BucketStart k \<le> AlignBucketStart (now - BucketSeconds)"
  shows "feedTotal k (feed_tick now False (\<lambda>_. False) s) = tabCount k (feed_table s)"
proof -
  obtain e rows where c: "CloseBuckets (feed_engine s) (AlignBucketStart (now - BucketSeconds)) = (e, rows)" by fastforce
  have "k \<notin> fst ` set e" using c assms(2) by (auto simp: CloseBuckets_def)
  then have "memCount k e = 0" by (simp add: memCount_def map_of_eq_None_iff [THEN iffD2])
  moreover have "feed_engine (feed_tick now False (\<lambda>_. False) s) = e" "feed_table (feed_tick now False (\<lambda>_. False) s) = feed_table s"
    using c by (auto simp: feed_tick_def Let_def cleanupDedup_def upsertProplabCellBuckets_def)
  ultimately show ?thesis by (simp add: feedTotal_def)
qed

end
