(* ===== verification/Json.thy ===== *)
theory Json
  imports Assoc
begin

text \<open>
  The documented behaviour of \<open>encoding/json\<close> on values: what a Go value marshals to and what
  \<open>Unmarshal\<close> stores into a struct field by field. The text of a value (quotes, escapes,
  indentation) is not modelled, but its one loss is: marshalling coerces a string to valid
  UTF-8, which is the parameter \<open>coerce\<close>. \<open>None\<close> is an error of \<open>Unmarshal\<close>.
\<close>

datatype json = JNull | JBool bool | JInt int | JFrac real | JStr string | JArr "json list" | JObj "(string \<times> json) list"

definition is_int64 :: "int \<Rightarrow> bool" where
  "is_int64 n \<longleftrightarrow> - (2 ^ 63) \<le> n \<and> n < 2 ^ 63"

fun toInt :: "int \<Rightarrow> json \<Rightarrow> int option" where
  \<comment> \<open>into an \<open>int\<close> or \<open>int64\<close> field that holds \<open>old\<close>: null changes nothing\<close>
  "toInt old JNull = Some old"
| "toInt old (JInt n) = (if is_int64 n then Some n else None)"
| "toInt old _ = None"

fun toStr :: "string \<Rightarrow> json \<Rightarrow> string option" where
  "toStr old JNull = Some old"
| "toStr old (JStr s) = Some s"
| "toStr old _ = None"

fun toIntPtr :: "json \<Rightarrow> int option option" where
  \<comment> \<open>into a \<open>*int\<close> field: null is the nil pointer\<close>
  "toIntPtr JNull = Some None"
| "toIntPtr v = map_option Some (toInt 0 v)"

fun toStrPtr :: "json \<Rightarrow> string option option" where
  "toStrPtr JNull = Some None"
| "toStrPtr v = map_option Some (toStr [] v)"

definition fieldNamed :: "string \<Rightarrow> string \<Rightarrow> bool" where
  \<comment> \<open>a member matches a field's name up to case\<close>
  "fieldNamed k name \<longleftrightarrow> ToLower k = name"

fun members :: "(string \<Rightarrow> json \<Rightarrow> 'a \<Rightarrow> 'a option) \<Rightarrow> (string \<times> json) list \<Rightarrow> 'a \<Rightarrow> 'a option" where
  \<comment> \<open>the members of an object, in order, each stored by \<open>f\<close>\<close>
  "members f [] a = Some a"
| "members f ((k, v) # ms) a = Option.bind (f k v a) (members f ms)"

fun toStruct :: "(string \<Rightarrow> json \<Rightarrow> 'a \<Rightarrow> 'a option) \<Rightarrow> 'a \<Rightarrow> json \<Rightarrow> 'a option" where
  "toStruct f a JNull = Some a"
| "toStruct f a (JObj ms) = members f ms a"
| "toStruct f a _ = None"

fun toElems :: "(json \<Rightarrow> 'a option) \<Rightarrow> json list \<Rightarrow> 'a list option" where
  "toElems f [] = Some []"
| "toElems f (v # vs) = Option.bind (f v) (\<lambda>x. map_option ((#) x) (toElems f vs))"

fun toSlice :: "(json \<Rightarrow> 'a option) \<Rightarrow> json \<Rightarrow> 'a list option" where
  "toSlice f JNull = Some []"
| "toSlice f (JArr vs) = toElems f vs"
| "toSlice f _ = None"

definition mapMember :: "(json \<Rightarrow> 'a option) \<Rightarrow> string \<Rightarrow> json \<Rightarrow> (string \<times> 'a) list \<Rightarrow> (string \<times> 'a) list option" where
  "mapMember f k v m = map_option (\<lambda>x. AList.update k x m) (f v)"

fun toMap :: "(json \<Rightarrow> 'a option) \<Rightarrow> (string \<times> 'a) list option \<Rightarrow> json \<Rightarrow> (string \<times> 'a) list option option" where
  \<comment> \<open>into a map field: null is the nil map, an object adds to the map there is\<close>
  "toMap f old JNull = Some None"
| "toMap f old (JObj ms) = map_option Some (members (mapMember f) ms (case old of None \<Rightarrow> [] | Some m \<Rightarrow> m))"
| "toMap f old _ = None"

lemma members_append: "members f (xs @ ys) a = Option.bind (members f xs a) (members f ys)"
  by (induction xs arbitrary: a) (auto split: Option.bind_splits)

lemma toElems_map: "\<forall>x\<in>set xs. f (g x) = Some x \<Longrightarrow> toElems f (map g xs) = Some xs"
  by (induction xs) simp_all

lemma toMap_members:
  assumes "distinct (map fst m)" "\<forall>(k, x)\<in>set m. c k = k \<and> f (g x) = Some x"
  shows "members (mapMember f) (map (\<lambda>(k, x). (c k, g x)) m) [] = Some m"
proof -
  have "members (mapMember f) (map (\<lambda>(k, x). (c k, g x)) m) acc = Some (acc @ m)"
    if "distinct (map fst (acc @ m))" "\<forall>(k, x)\<in>set m. c k = k \<and> f (g x) = Some x" for acc
    using that
  proof (induction m arbitrary: acc)
    case (Cons p m)
    obtain k x where p: "p = (k, x)" by fastforce
    have "AList.update k x acc = acc @ [(k, x)]" using Cons.prems(1) by (simp add: p update_new)
    then show ?case using Cons.IH [of "acc @ [(k, x)]"] Cons.prems by (simp add: p mapMember_def)
  qed simp
  then show ?thesis using assms by simp
qed

end
