(* ===== verification/Engine.thy ===== *)
theory Engine
  imports Messages Conditions Cty Grouping Json
begin

text \<open>
  The baseline engine of dx_conditions.go in memory: the buckets per band, half-hour slot and
  tiers, for the globe and per grid cluster, the ring of observed events, \<open>Observe\<close>,
  \<open>Load\<close> and \<open>Save\<close> with the JSON of the file, and the figures read back for a band. \<open>dxBaselineMaxEvents\<close> is the parameter \<open>maxEvents\<close>; the QRZ resolver is a
  function from a callsign to the locator of its record. The ring keeps the newest events
  (\<open>Observe_ring\<close>), the cluster buckets count exactly the ends the live side counts
  (\<open>cluster_like_for_like\<close>), and the quantiles in memory are the store's
  (\<open>quantiles_eq\<close>). Reloading a snapshot drops every cluster bucket from the reach of the
  lookups (\<open>Load_loses_cluster\<close>).
\<close>

section \<open>State\<close>

record baselineBucket =
  bk_Band :: string
  bk_SlotOfDay :: int
  bk_DistanceTier :: int
  bk_SnrTier :: int
  bk_Count :: int

record dxObservedEvent =
  ev_T :: int
  ev_B :: string
  ev_SC :: string
  ev_RC :: string
  ev_SL :: string
  ev_RL :: string
  ev_RP :: int

type_synonym bucketMap = "(string \<times> baselineBucket) list"

record DxBaselineEngine =
  eng_path :: string
  buckets :: bucketMap
  clusterBuckets :: bucketMap
  firstEventAt :: int
  lastEventAt :: int
  eventsStart :: nat
  eng_events :: "dxObservedEvent list"
  callsignResolver :: "(string \<Rightarrow> string option) option"
  ctyResolver :: "Resolver option"

record baselineSnapshot =
  snap_Version :: int
  snap_SavedAt :: int
  snap_FirstEventAt :: int
  snap_LastEventAt :: int
  snap_Buckets :: "(string \<times> baselineBucket option) list"
  snap_ClusterBuckets :: "(string \<times> baselineBucket option) list option"
  snap_Events :: "dxObservedEvent list"

definition newDxBaselineEngine :: "string \<Rightarrow> DxBaselineEngine" where
  "newDxBaselineEngine path = \<lparr>eng_path = TrimSpace path, buckets = [], clusterBuckets = [], firstEventAt = 0,
     lastEventAt = 0, eventsStart = 0, eng_events = [], callsignResolver = None, ctyResolver = None\<rparr>"

definition NumBuckets :: "DxBaselineEngine \<Rightarrow> nat" where
  "NumBuckets e = length (buckets e) + length (clusterBuckets e)"

section \<open>Distances\<close>

definition distanceKmForLocators :: "string \<Rightarrow> string \<Rightarrow> real" where
  "distanceKmForLocators a b =
     (let (la1, lo1) = ToLatLng (ToUpper (TrimSpace a)); (la2, lo2) = ToLatLng (ToUpper (TrimSpace b))
      in if la1 = 0 \<and> lo1 = 0 \<or> la2 = 0 \<and> lo2 = 0 then 0 else haversineKm la1 lo1 la2 lo2)"

definition distanceTierForLocators :: "string \<Rightarrow> string \<Rightarrow> int" where
  "distanceTierForLocators a b = distanceTierFromKm (distanceKmForLocators a b)"

section \<open>The event ring\<close>

definition snapshotEventsLocked :: "DxBaselineEngine \<Rightarrow> dxObservedEvent list" where
  "snapshotEventsLocked e =
     (if eng_events e = [] then []
      else if eventsStart e \<le> 0 \<or> eventsStart e \<ge> length (eng_events e) then eng_events e
      else drop (eventsStart e) (eng_events e) @ take (eventsStart e) (eng_events e))"

definition shrinkRing :: "int \<Rightarrow> DxBaselineEngine \<Rightarrow> DxBaselineEngine" where
  \<comment> \<open>the part of \<open>Observe\<close> that applies a smaller limit\<close>
  "shrinkRing maxEvents e =
     (if maxEvents < int (length (eng_events e))
      then if maxEvents = 0 then e\<lparr>eng_events := [], eventsStart := 0\<rparr>
           else let ordered = snapshotEventsLocked e;
                    ordered = (if int (length ordered) > maxEvents then drop (length ordered - nat maxEvents) ordered else ordered)
                in e\<lparr>eng_events := ordered, eventsStart := 0\<rparr>
      else e)"

definition pushEvent :: "int \<Rightarrow> dxObservedEvent \<Rightarrow> DxBaselineEngine \<Rightarrow> DxBaselineEngine" where
  "pushEvent maxEvents ev e =
     (if maxEvents > 0
      then if int (length (eng_events e)) < maxEvents then e\<lparr>eng_events := eng_events e @ [ev]\<rparr>
           else let start = eventsStart e + 1
                in e\<lparr>eng_events := (eng_events e)[eventsStart e := ev],
                     eventsStart := (if int start \<ge> maxEvents then 0 else start)\<rparr>
      else e)"

section \<open>Observing a spot\<close>

definition dxBaselineObserveGate :: "MQTTMessage \<Rightarrow> string option" where
  "dxBaselineObserveGate m =
     (let band = normalizeBand (B m)
      in if band = [] then None
         else if TrimSpace (SL m) = [] \<or> TrimSpace (RL m) = [] then None
         else Some band)"

definition observeBucket :: "bucketMap \<Rightarrow> string \<Rightarrow> string \<Rightarrow> int \<Rightarrow> int \<Rightarrow> int \<Rightarrow> bucketMap" where
  "observeBucket store key band hour distTier snrTier =
     (let b = (case map_of store key of
                 Some b \<Rightarrow> b
               | None \<Rightarrow> \<lparr>bk_Band = band, bk_SlotOfDay = hour, bk_DistanceTier = distTier, bk_SnrTier = snrTier, bk_Count = 0\<rparr>)
      in AList.update key (b\<lparr>bk_Count := bk_Count b + 1\<rparr>) store)"

definition observeCluster :: "string \<Rightarrow> string \<Rightarrow> int \<Rightarrow> int \<Rightarrow> int \<Rightarrow> bucketMap \<Rightarrow> bucketMap" where
  \<comment> \<open>one end of the path\<close>
  "observeCluster loc band hour distTier snrTier store =
     (case ClusterAnchor loc of
        None \<Rightarrow> store
      | Some anchor \<Rightarrow> observeBucket store (appendBaselineKey (anchor @ ''|'') band hour distTier snrTier) band hour distTier snrTier)"

definition Observe :: "int \<Rightarrow> int \<Rightarrow> DxBaselineEngine \<Rightarrow> MQTTMessage \<Rightarrow> DxBaselineEngine" where
  \<comment> \<open>\<open>wall\<close> is \<open>time.Now().Unix()\<close>; the store and the cell feed get the message afterwards\<close>
  "Observe dxBaselineMaxEvents wall e m =
     (case dxBaselineObserveGate m of
        None \<Rightarrow> e
      | Some band \<Rightarrow>
          let sl = ToUpper (TrimSpace (SL m)); rl = ToUpper (TrimSpace (RL m));
              sc = ToUpper (TrimSpace (SC m)); rc = ToUpper (TrimSpace (RC m));
              ts = (if T m \<le> 0 then wall else T m);
              hour = utcSlotOfDay ts;
              distTier = distanceTierForLocators sl rl;
              snrTier = snrTierFromDb (RP m);
              e = (if ts > 0
                   then e\<lparr>firstEventAt := (if firstEventAt e = 0 \<or> ts < firstEventAt e then ts else firstEventAt e),
                          lastEventAt := (if ts > lastEventAt e then ts else lastEventAt e)\<rparr>
                   else e);
              e = e\<lparr>buckets := observeBucket (buckets e) (appendBaselineKey [] band hour distTier snrTier) band hour distTier snrTier\<rparr>;
              e = e\<lparr>clusterBuckets := observeCluster sl band hour distTier snrTier (clusterBuckets e)\<rparr>;
              e = e\<lparr>clusterBuckets := observeCluster rl band hour distTier snrTier (clusterBuckets e)\<rparr>;
              maxEvents = (if dxBaselineMaxEvents < 0 then 0 else dxBaselineMaxEvents);
              e = shrinkRing maxEvents e
          in pushEvent maxEvents \<lparr>ev_T = ts, ev_B = band, ev_SC = sc, ev_RC = rc, ev_SL = sl, ev_RL = rl, ev_RP = RP m\<rparr> e)"

section \<open>Loading and saving\<close>

definition spanStep :: "dxObservedEvent \<Rightarrow> DxBaselineEngine \<Rightarrow> DxBaselineEngine" where
  "spanStep ev e =
     (if ev_T ev \<le> 0 then e
      else let e = (if firstEventAt e = 0 \<or> ev_T ev < firstEventAt e then e\<lparr>firstEventAt := ev_T ev\<rparr> else e)
           in if ev_T ev > lastEventAt e then e\<lparr>lastEventAt := ev_T ev\<rparr> else e)"

definition refreshEventSpanLocked :: "DxBaselineEngine \<Rightarrow> DxBaselineEngine" where
  "refreshEventSpanLocked e = fold spanStep (eng_events e) (e\<lparr>firstEventAt := 0, lastEventAt := 0\<rparr>)"

definition cloneBuckets :: "bucketMap \<Rightarrow> (string \<times> baselineBucket option) list" where
  \<comment> \<open>no bucket of an engine is a nil pointer\<close>
  "cloneBuckets src = map (\<lambda>(k, b). (k, Some b)) src"

definition storedKey :: "baselineBucket \<Rightarrow> string" where
  "storedKey v = baselineKey (bk_Band v) (bk_SlotOfDay v) (bk_DistanceTier v) (bk_SnrTier v)"

definition remapStep :: "string \<times> baselineBucket option \<Rightarrow> bucketMap \<Rightarrow> bucketMap" where
  "remapStep p out =
     (case snd p of
        None \<Rightarrow> out
      | Some v \<Rightarrow>
          let newKey = storedKey v
          in case map_of out newKey of
               Some existing \<Rightarrow> AList.update newKey (existing\<lparr>bk_Count := bk_Count existing + bk_Count v\<rparr>) out
             | None \<Rightarrow> AList.update newKey v out)"

definition remapBucketsForLoad :: "(string \<times> baselineBucket option) list \<Rightarrow> bucketMap" where
  "remapBucketsForLoad src = fold remapStep src []"

subsection \<open>The JSON of a snapshot\<close>

definition marshalBucket :: "(string \<Rightarrow> string) \<Rightarrow> baselineBucket \<Rightarrow> json" where
  "marshalBucket coerce b = JObj [(''band'', JStr (coerce (bk_Band b))), (''slot_of_day'', JInt (bk_SlotOfDay b)),
     (''distance_tier'', JInt (bk_DistanceTier b)), (''snr_tier'', JInt (bk_SnrTier b)), (''count'', JInt (bk_Count b))]"

definition marshalEvent :: "(string \<Rightarrow> string) \<Rightarrow> dxObservedEvent \<Rightarrow> json" where
  "marshalEvent coerce ev = JObj [(''t'', JInt (ev_T ev)), (''b'', JStr (coerce (ev_B ev))), (''sc'', JStr (coerce (ev_SC ev))),
     (''rc'', JStr (coerce (ev_RC ev))), (''sl'', JStr (coerce (ev_SL ev))), (''rl'', JStr (coerce (ev_RL ev))), (''rp'', JInt (ev_RP ev))]"

definition marshalBuckets :: "(string \<Rightarrow> string) \<Rightarrow> (string \<times> baselineBucket option) list \<Rightarrow> json" where
  \<comment> \<open>a map has no order; its members are written in the order of the list\<close>
  "marshalBuckets coerce m =
     JObj (map (\<lambda>(k, p). (coerce k, case p of None \<Rightarrow> JNull | Some b \<Rightarrow> marshalBucket coerce b)) m)"

definition marshalSnapshot :: "(string \<Rightarrow> string) \<Rightarrow> baselineSnapshot \<Rightarrow> json" where
  \<comment> \<open>\<open>omitempty\<close> leaves out a zero time, an empty map and an empty list\<close>
  "marshalSnapshot coerce s = JObj (
     [(''version'', JInt (snap_Version s)), (''saved_at'', JInt (snap_SavedAt s))] @
     (if snap_FirstEventAt s = 0 then [] else [(''first_event_at'', JInt (snap_FirstEventAt s))]) @
     (if snap_LastEventAt s = 0 then [] else [(''last_event_at'', JInt (snap_LastEventAt s))]) @
     [(''buckets'', marshalBuckets coerce (snap_Buckets s))] @
     (case snap_ClusterBuckets s of None \<Rightarrow> [] | Some m \<Rightarrow> if m = [] then [] else [(''cluster_buckets'', marshalBuckets coerce m)]) @
     (if snap_Events s = [] then [] else [(''events'', JArr (map (marshalEvent coerce) (snap_Events s)))]))"

record auxBucket =
  HourOfWeek :: "int option"
  SlotOfDay :: "int option"
  Source4 :: "string option"
  aux_alias :: baselineBucket

definition auxField :: "string \<Rightarrow> json \<Rightarrow> auxBucket \<Rightarrow> auxBucket option" where
  \<comment> \<open>the outer \<open>slot_of_day\<close> hides the one of the embedded bucket\<close>
  "auxField k v a =
     (let b = aux_alias a
      in if fieldNamed k ''hour_of_week'' then map_option (\<lambda>p. a\<lparr>HourOfWeek := p\<rparr>) (toIntPtr v)
         else if fieldNamed k ''slot_of_day'' then map_option (\<lambda>p. a\<lparr>SlotOfDay := p\<rparr>) (toIntPtr v)
         else if fieldNamed k ''source4'' then map_option (\<lambda>p. a\<lparr>Source4 := p\<rparr>) (toStrPtr v)
         else if fieldNamed k ''band'' then map_option (\<lambda>x. a\<lparr>aux_alias := b\<lparr>bk_Band := x\<rparr>\<rparr>) (toStr (bk_Band b) v)
         else if fieldNamed k ''distance_tier'' then map_option (\<lambda>x. a\<lparr>aux_alias := b\<lparr>bk_DistanceTier := x\<rparr>\<rparr>) (toInt (bk_DistanceTier b) v)
         else if fieldNamed k ''snr_tier'' then map_option (\<lambda>x. a\<lparr>aux_alias := b\<lparr>bk_SnrTier := x\<rparr>\<rparr>) (toInt (bk_SnrTier b) v)
         else if fieldNamed k ''count'' then map_option (\<lambda>x. a\<lparr>aux_alias := b\<lparr>bk_Count := x\<rparr>\<rparr>) (toInt (bk_Count b) v)
         else Some a)"

definition UnmarshalJSON :: "baselineBucket \<Rightarrow> json \<Rightarrow> baselineBucket option" where
  "UnmarshalJSON b j =
     Option.bind (toStruct auxField \<lparr>HourOfWeek = None, SlotOfDay = None, Source4 = None, aux_alias = b\<rparr> j) (\<lambda>aux.
       Some (case SlotOfDay aux of
               Some s \<Rightarrow> (aux_alias aux)\<lparr>bk_SlotOfDay := s\<rparr>
             | None \<Rightarrow> (case HourOfWeek aux of
                         Some h \<Rightarrow> (aux_alias aux)\<lparr>bk_SlotOfDay := rem h 24 * 2\<rparr>
                       | None \<Rightarrow> aux_alias aux)))"

definition zeroBucket :: baselineBucket where
  "zeroBucket = \<lparr>bk_Band = [], bk_SlotOfDay = 0, bk_DistanceTier = 0, bk_SnrTier = 0, bk_Count = 0\<rparr>"

definition toBucketPtr :: "json \<Rightarrow> baselineBucket option option" where
  "toBucketPtr v = (if v = JNull then Some None else map_option Some (UnmarshalJSON zeroBucket v))"

definition eventField :: "string \<Rightarrow> json \<Rightarrow> dxObservedEvent \<Rightarrow> dxObservedEvent option" where
  "eventField k v ev =
     (if fieldNamed k ''t'' then map_option (\<lambda>x. ev\<lparr>ev_T := x\<rparr>) (toInt (ev_T ev) v)
      else if fieldNamed k ''b'' then map_option (\<lambda>x. ev\<lparr>ev_B := x\<rparr>) (toStr (ev_B ev) v)
      else if fieldNamed k ''sc'' then map_option (\<lambda>x. ev\<lparr>ev_SC := x\<rparr>) (toStr (ev_SC ev) v)
      else if fieldNamed k ''rc'' then map_option (\<lambda>x. ev\<lparr>ev_RC := x\<rparr>) (toStr (ev_RC ev) v)
      else if fieldNamed k ''sl'' then map_option (\<lambda>x. ev\<lparr>ev_SL := x\<rparr>) (toStr (ev_SL ev) v)
      else if fieldNamed k ''rl'' then map_option (\<lambda>x. ev\<lparr>ev_RL := x\<rparr>) (toStr (ev_RL ev) v)
      else if fieldNamed k ''rp'' then map_option (\<lambda>x. ev\<lparr>ev_RP := x\<rparr>) (toInt (ev_RP ev) v)
      else Some ev)"

definition zeroEvent :: dxObservedEvent where
  "zeroEvent = \<lparr>ev_T = 0, ev_B = [], ev_SC = [], ev_RC = [], ev_SL = [], ev_RL = [], ev_RP = 0\<rparr>"

definition snapshotField :: "string \<Rightarrow> json \<Rightarrow> baselineSnapshot \<Rightarrow> baselineSnapshot option" where
  "snapshotField k v s =
     (if fieldNamed k ''version'' then map_option (\<lambda>x. s\<lparr>snap_Version := x\<rparr>) (toInt (snap_Version s) v)
      else if fieldNamed k ''saved_at'' then map_option (\<lambda>x. s\<lparr>snap_SavedAt := x\<rparr>) (toInt (snap_SavedAt s) v)
      else if fieldNamed k ''first_event_at'' then map_option (\<lambda>x. s\<lparr>snap_FirstEventAt := x\<rparr>) (toInt (snap_FirstEventAt s) v)
      else if fieldNamed k ''last_event_at'' then map_option (\<lambda>x. s\<lparr>snap_LastEventAt := x\<rparr>) (toInt (snap_LastEventAt s) v)
      else if fieldNamed k ''buckets''
      then map_option (\<lambda>m. s\<lparr>snap_Buckets := (case m of None \<Rightarrow> [] | Some m \<Rightarrow> m)\<rparr>) (toMap toBucketPtr (Some (snap_Buckets s)) v)
      else if fieldNamed k ''cluster_buckets''
      then map_option (\<lambda>m. s\<lparr>snap_ClusterBuckets := m\<rparr>) (toMap toBucketPtr (snap_ClusterBuckets s) v)
      else if fieldNamed k ''events'' then map_option (\<lambda>x. s\<lparr>snap_Events := x\<rparr>) (toSlice (toStruct eventField zeroEvent) v)
      else Some s)"

definition unmarshalSnapshot :: "json \<Rightarrow> baselineSnapshot option" where
  "unmarshalSnapshot j = toStruct snapshotField
     \<lparr>snap_Version = 0, snap_SavedAt = 0, snap_FirstEventAt = 0, snap_LastEventAt = 0, snap_Buckets = [],
      snap_ClusterBuckets = None, snap_Events = []\<rparr> j"

datatype fileRead = FileMissing | FileError | FileJson json

definition loadBuckets :: "baselineSnapshot \<Rightarrow> DxBaselineEngine \<Rightarrow> DxBaselineEngine" where
  "loadBuckets snap e =
     e\<lparr>buckets := remapBucketsForLoad (snap_Buckets snap),
       clusterBuckets := (case snap_ClusterBuckets snap of None \<Rightarrow> clusterBuckets e | Some cb \<Rightarrow> remapBucketsForLoad cb),
       firstEventAt := snap_FirstEventAt snap, lastEventAt := snap_LastEventAt snap\<rparr>"

definition loadEvents :: "int \<Rightarrow> dxObservedEvent list \<Rightarrow> DxBaselineEngine \<Rightarrow> DxBaselineEngine" where
  "loadEvents maxEvents evs e =
     (if maxEvents = 0 then e\<lparr>eng_events := [], eventsStart := 0\<rparr>
      else let evs = (if int (length evs) > maxEvents then drop (length evs - nat maxEvents) evs else evs)
           in e\<lparr>eng_events := evs, eventsStart := 0\<rparr>)"

definition Load :: "int \<Rightarrow> fileRead \<Rightarrow> DxBaselineEngine \<Rightarrow> DxBaselineEngine \<times> bool" where
  \<comment> \<open>the flag is \<open>err == nil\<close>; a file that cannot be read or is not JSON is a \<open>FileError\<close>\<close>
  "Load dxBaselineMaxEvents file e =
     (if eng_path e = [] then (e, True)
      else case file of
             FileMissing \<Rightarrow> (e, True)
           | FileError \<Rightarrow> (e, False)
           | FileJson j \<Rightarrow>
               (case unmarshalSnapshot j of
                  None \<Rightarrow> (e, False)
                | Some snap \<Rightarrow>
                    let maxEvents = (if dxBaselineMaxEvents < 0 then 0 else dxBaselineMaxEvents);
                        e = loadEvents maxEvents (snap_Events snap) (loadBuckets snap e)
                    in (if firstEventAt e = 0 \<or> lastEventAt e = 0 then refreshEventSpanLocked e else e, True)))"

definition Save :: "(string \<Rightarrow> string) \<Rightarrow> int \<Rightarrow> DxBaselineEngine \<Rightarrow> json option" where
  \<comment> \<open>the JSON that \<open>writeJSONAtomic\<close> writes; \<open>None\<close> writes nothing\<close>
  "Save coerce now e =
     (if eng_path e = [] then None
      else Some (marshalSnapshot coerce
        \<lparr>snap_Version = 8, snap_SavedAt = now, snap_FirstEventAt = firstEventAt e, snap_LastEventAt = lastEventAt e,
         snap_Buckets = cloneBuckets (buckets e), snap_ClusterBuckets = Some (cloneBuckets (clusterBuckets e)),
         snap_Events = snapshotEventsLocked e\<rparr>))"

section \<open>History span and statistics\<close>

definition baselineHistoryMinutesFromEvents :: "dxObservedEvent list \<Rightarrow> int \<Rightarrow> int" where
  "baselineHistoryMinutesFromEvents evs now =
     (if evs = [] then 0
      else let (earliest, latest) = fold (\<lambda>e (earliest, latest).
                 if ev_T e \<le> 0 then (earliest, latest)
                 else (if ev_T e < earliest then ev_T e else earliest, if ev_T e > latest then ev_T e else latest)) evs (now, 0)
           in if latest = 0 then 0 else if latest < earliest then 0 else quot (latest - earliest) 60)"

definition baselineHistoryMinutes :: "int \<Rightarrow> int \<Rightarrow> dxObservedEvent list \<Rightarrow> int \<Rightarrow> int" where
  "baselineHistoryMinutes first latest evs now =
     (if first > 0 \<and> latest \<ge> first then quot (latest - first) 60 else baselineHistoryMinutesFromEvents evs now)"

definition Stats :: "(int \<Rightarrow> (nat \<times> nat \<times> int) option) option \<Rightarrow> DxBaselineEngine option \<Rightarrow> int \<Rightarrow> nat \<times> nat \<times> int" where
  \<comment> \<open>\<open>baselineStats\<close> is the store's query, when there is a store\<close>
  "Stats baselineStats e now =
     (case e of None \<Rightarrow> (0, 0, 0)
      | Some e \<Rightarrow>
          (case baselineStats of
             None \<Rightarrow> let evs = snapshotEventsLocked e
                      in (length (buckets e) + length (clusterBuckets e), length evs,
                          baselineHistoryMinutes (firstEventAt e) (lastEventAt e) evs now)
           | Some query \<Rightarrow> (case query now of Some r \<Rightarrow> r | None \<Rightarrow> (0, 0, 0))))"

section \<open>The operator's place\<close>

datatype qthLocationSource = qthSourceLocator | qthSourceQRZ | qthSourceDXCC

definition resolveQTHLocator ::
    "string \<Rightarrow> (string \<Rightarrow> string option) option \<Rightarrow> Resolver option \<Rightarrow> (string \<times> qthLocationSource) option" where
  "resolveQTHLocator qth qrz ctyRes =
     (if qth = [] then None
      else if IsLocator qth then Some (qth, qthSourceLocator)
      else case (case qrz of None \<Rightarrow> None
                 | Some lookup \<Rightarrow> (case lookup qth of Some l \<Rightarrow> if IsLocator l then Some l else None | None \<Rightarrow> None)) of
             Some l \<Rightarrow> Some (l, qthSourceQRZ)
           | None \<Rightarrow>
               (case ctyRes of None \<Rightarrow> None
                | Some r \<Rightarrow>
                    (case Resolve (Some r) qth of
                       Some (ent, code) \<Rightarrow>
                         if ent_Lat ent \<noteq> 0 \<and> ent_Lon ent \<noteq> 0
                         then let l = FromLatLng (ent_Lat ent) (ent_Lon ent) 4
                              in if IsLocator l then Some (l, qthSourceDXCC) else None
                         else None
                     | None \<Rightarrow> None)))"

definition deriveOperatorCluster :: "DxBaselineEngine \<Rightarrow> string \<Rightarrow> string" where
  "deriveOperatorCluster e qth =
     (if qth = [] then []
      else case resolveQTHLocator qth (callsignResolver e) (ctyResolver e) of
             None \<Rightarrow> []
           | Some (loc, source) \<Rightarrow> (case ClusterAnchor loc of Some anchor \<Rightarrow> anchor | None \<Rightarrow> []))"

section \<open>The baseline figures of a band\<close>

definition tiers :: "(int \<times> int) list" where
  \<comment> \<open>the loops over distance and SNR tiers\<close>
  "tiers = [(d, s). d \<leftarrow> [0, 1, 2, 3, 4], s \<leftarrow> [0, 1, 2, 3]]"

definition bucketCount :: "bucketMap \<Rightarrow> string \<Rightarrow> int" where
  \<comment> \<open>a missing bucket adds nothing\<close>
  "bucketCount m key = (case map_of m key of None \<Rightarrow> 0 | Some b \<Rightarrow> bk_Count b)"

definition clusterTotal :: "bucketMap \<Rightarrow> string \<Rightarrow> string \<Rightarrow> int \<Rightarrow> int" where
  "clusterTotal cb operatorCluster band hour =
     sum_list (map (\<lambda>(d, s). bucketCount cb (baselineClusterKey operatorCluster band hour d s)) tiers)"

definition globalTotal :: "bucketMap \<Rightarrow> string \<Rightarrow> int \<Rightarrow> int" where
  "globalTotal global band hour = sum_list (map (\<lambda>(d, s). bucketCount global (baselineKey band hour d s)) tiers)"

definition baselineActivityForBand :: "bucketMap \<Rightarrow> bucketMap \<Rightarrow> string \<Rightarrow> string \<Rightarrow> int \<Rightarrow> int \<Rightarrow> int \<Rightarrow> real \<times> bool" where
  "baselineActivityForBand global cb operatorCluster band hour historyMinutes clusterHistoryMinutes =
     (if operatorCluster \<noteq> [] \<and> clusterTotal cb operatorCluster band hour > 0
      then (normalizeBaselineToSpotsPerMinute (of_int (clusterTotal cb operatorCluster band hour)) clusterHistoryMinutes, True)
      else let total = globalTotal global band hour
           in if total = 0 then (0, False)
              else (normalizeBaselineToSpotsPerMinute (of_int total) historyMinutes, False))"

definition slotActivity :: "bucketMap \<Rightarrow> bucketMap \<Rightarrow> string \<Rightarrow> string \<Rightarrow> int \<Rightarrow> int \<Rightarrow> int \<Rightarrow> real \<times> bool" where
  \<comment> \<open>one slot of \<open>baselineActivityForBandAllSlots\<close>\<close>
  "slotActivity global cb operatorCluster band historyMinutes clusterHistoryMinutes slot =
     (if operatorCluster \<noteq> [] \<and> clusterTotal cb operatorCluster band slot > 0
      then (normalizeBaselineToSpotsPerMinute (of_int (clusterTotal cb operatorCluster band slot)) clusterHistoryMinutes, True)
      else let total = globalTotal global band slot
           in if total > 0 then (normalizeBaselineToSpotsPerMinute (of_int total) historyMinutes, False)
              else (0, False))"

definition baselineActivityForBandAllSlots :: "bucketMap \<Rightarrow> bucketMap \<Rightarrow> string \<Rightarrow> string \<Rightarrow> int \<Rightarrow> int \<Rightarrow> real list \<times> bool list" where
  "baselineActivityForBandAllSlots global cb operatorCluster band historyMinutes clusterHistoryMinutes =
     (let slots = map (slotActivity global cb operatorCluster band historyMinutes clusterHistoryMinutes) [0..47]
      in (map fst slots, map snd slots))"

definition baselineSupportForBand :: "bucketMap \<Rightarrow> bucketMap \<Rightarrow> string \<Rightarrow> string \<Rightarrow> int \<Rightarrow> int" where
  "baselineSupportForBand global cb operatorCluster band hour =
     (if operatorCluster \<noteq> [] \<and> clusterTotal cb operatorCluster band hour > 0
      then clusterTotal cb operatorCluster band hour
      else globalTotal global band hour)"

definition sumBucketCounts :: "bucketMap \<Rightarrow> real" where
  "sumBucketCounts m = sum_list (map (\<lambda>(k, b). if bk_Count b > 0 then of_int (bk_Count b) else 0) m)"

definition clusterPairsFromBuckets :: "bucketMap \<Rightarrow> string \<Rightarrow> string \<Rightarrow> int \<Rightarrow> baselinePair list" where
  "clusterPairsFromBuckets cb operatorCluster band slot =
     (if operatorCluster = [] then []
      else concat (map (\<lambda>(d, s).
        case map_of cb (baselineClusterKey operatorCluster band slot d s) of
          Some b \<Rightarrow> if bk_Count b > 0 then [\<lparr>DistanceTier = d, SnrTier = s, Count = bk_Count b\<rparr>] else []
        | None \<Rightarrow> []) tiers))"

definition usableBuckets :: "bucketMap \<Rightarrow> (int \<Rightarrow> int \<Rightarrow> string) \<Rightarrow> baselineBucket list" where
  \<comment> \<open>what \<open>appendBucket\<close> and \<open>collectBucket\<close> do not skip, in the order of the loops\<close>
  "usableBuckets m key =
     concat (map (\<lambda>(d, s). case map_of m (key d s) of Some b \<Rightarrow> if bk_Count b \<le> 0 then [] else [b] | None \<Rightarrow> []) tiers)"

definition bucketScore :: "int \<Rightarrow> baselineBucket \<Rightarrow> real" where
  "bucketScore maxCount b =
     (let distanceNorm = clamp01 (of_int (bk_DistanceTier b) / 4);
          snrNorm = clamp01 (of_int (bk_SnrTier b) / 3);
          activityNorm = (if maxCount > 0 then clamp01 (of_int (bk_Count b) / of_int maxCount) else 1/2)
      in (45/100 * distanceNorm + 35/100 * activityNorm + 20/100 * snrNorm) * 100)"

definition topCount :: "int \<Rightarrow> baselineBucket list \<Rightarrow> int" where
  \<comment> \<open>the calls of \<open>appendBucket\<close>\<close>
  "topCount maxCount bs = fold (\<lambda>b m. if bk_Count b > m then bk_Count b else m) bs maxCount"

definition baselineScoreQuantilesForBand :: "bucketMap \<Rightarrow> bucketMap \<Rightarrow> string \<Rightarrow> string \<Rightarrow> int \<Rightarrow> bool \<times> (real \<times> real) option" where
  \<comment> \<open>the cluster flag, and the quantiles when \<open>ok\<close>\<close>
  "baselineScoreQuantilesForBand global cb operatorCluster band hour =
     (let own = (if operatorCluster \<noteq> [] then usableBuckets cb (baselineClusterKey operatorCluster band hour) else []);
          maxCount = topCount 0 own;
          clusterUsed = (maxCount > 0);
          all = usableBuckets global (baselineKey band hour);
          maxCount = (if maxCount = 0 then topCount maxCount all else maxCount);
          collected = (if clusterUsed \<and> operatorCluster \<noteq> [] then own else all);
          pairs = map (\<lambda>b. (bucketScore maxCount b, bk_Count b)) collected
      in if pairs = [] then (clusterUsed, None)
         else let pairs = sort_key fst pairs;
                  totalWeight = sum_list (map snd pairs)
              in if totalWeight < dxMinBaselineQuantileSupport then (clusterUsed, None)
                 else let q25 = pickQuantile (of_int totalWeight * (1/4)) 0 pairs (fst (hd pairs));
                          q75 = pickQuantile (of_int totalWeight * (3/4)) 0 pairs (fst (last pairs))
                      in (clusterUsed, Some (q25, q75)))"

definition clusterEndCount :: "MQTTMessage \<Rightarrow> int \<Rightarrow> int \<Rightarrow> int" where
  "clusterEndCount m ax ay =
     (let sl = TrimSpace (SL m); rl = TrimSpace (RL m)
      in if sl = [] \<or> rl = [] then 0
         else (if InCluster sl ax ay then 1 else 0) + (if InCluster rl ax ay then 1 else 0))"

section \<open>The ring keeps the newest events\<close>

definition ring_ok :: "int \<Rightarrow> DxBaselineEngine \<Rightarrow> bool" where
  "ring_ok maxEvents e \<longleftrightarrow> int (length (eng_events e)) \<le> maxEvents \<and>
     (eventsStart e = 0 \<or> eventsStart e < length (eng_events e) \<and> int (length (eng_events e)) = maxEvents)"

definition newest :: "nat \<Rightarrow> 'a list \<Rightarrow> 'a list" where
  "newest n xs = drop (length xs - n) xs"

lemma snapshot_ring: "ring_ok n e \<Longrightarrow> snapshotEventsLocked e = drop (eventsStart e) (eng_events e) @ take (eventsStart e) (eng_events e)"
  by (auto simp: snapshotEventsLocked_def ring_ok_def)

lemma snapshot_length: "length (snapshotEventsLocked e) = length (eng_events e)"
  by (simp add: snapshotEventsLocked_def)

lemma pushEvent_ring:
  assumes ok: "ring_ok n e" and n: "0 < n"
  shows "ring_ok n (pushEvent n ev e)" and "snapshotEventsLocked (pushEvent n ev e) = newest (nat n) (snapshotEventsLocked e @ [ev])"
proof -
  let ?xs = "eng_events e" and ?i = "eventsStart e"
  have "ring_ok n (pushEvent n ev e) \<and> snapshotEventsLocked (pushEvent n ev e) = newest (nat n) (snapshotEventsLocked e @ [ev])"
  proof (cases "int (length ?xs) < n")
    case True
    then have s0: "?i = 0" using ok by (auto simp: ring_ok_def)
    have r: "ring_ok n (pushEvent n ev e)" using True s0 n by (simp add: pushEvent_def ring_ok_def)
    show ?thesis
      using r snapshot_ring [OF r] snapshot_ring [OF ok] True s0 n by (simp add: pushEvent_def newest_def)
  next
    case False
    then have len: "int (length ?xs) = n" using ok by (simp add: ring_ok_def)
    have i: "?i < length ?xs" using ok len n by (auto simp: ring_ok_def)
    have r: "ring_ok n (pushEvent n ev e)" using len i n by (auto simp: pushEvent_def ring_ok_def Let_def)
    have split: "drop ?i ?xs = ?xs ! ?i # drop (Suc ?i) ?xs" using i by (simp add: Cons_nth_drop_Suc)
    have old: "newest (nat n) (snapshotEventsLocked e @ [ev]) = drop (Suc ?i) ?xs @ take ?i ?xs @ [ev]"
    proof -
      have "nat n = length (snapshotEventsLocked e)" using len by (simp add: snapshot_length)
      then have "newest (nat n) (snapshotEventsLocked e @ [ev]) = tl (snapshotEventsLocked e @ [ev])"
        using i snapshot_length [of e] by (cases "snapshotEventsLocked e") (simp_all add: newest_def)
      then show ?thesis by (simp add: snapshot_ring [OF ok] split)
    qed
    have new: "(?xs[?i := ev]) = take ?i ?xs @ ev # drop (Suc ?i) ?xs" using i by (simp add: upd_conv_take_nth_drop)
    show ?thesis
    proof (cases "Suc ?i = length ?xs")
      case True
      then have "eng_events (pushEvent n ev e) = take ?i ?xs @ [ev]" "eventsStart (pushEvent n ev e) = 0"
        using False len n new by (simp_all add: pushEvent_def Let_def)
      then show ?thesis using r snapshot_ring [OF r] old True by simp
    next
      case more: False
      then have s: "eng_events (pushEvent n ev e) = take ?i ?xs @ ev # drop (Suc ?i) ?xs" "eventsStart (pushEvent n ev e) = Suc ?i"
        using False len n new i by (simp_all add: pushEvent_def Let_def)
      have "length (take ?i ?xs) = ?i" using i by simp
      then have "snapshotEventsLocked (pushEvent n ev e) = drop (Suc ?i) ?xs @ take ?i ?xs @ [ev]"
        unfolding snapshot_ring [OF r] s by (simp add: Suc_diff_le)
      then show ?thesis using r old by simp
    qed
  qed
  then show "ring_ok n (pushEvent n ev e)" "snapshotEventsLocked (pushEvent n ev e) = newest (nat n) (snapshotEventsLocked e @ [ev])"
    by simp_all
qed

lemma shrinkRing_id: "int (length (eng_events e)) \<le> n \<Longrightarrow> shrinkRing n e = e"
  by (simp add: shrinkRing_def)

definition accepted :: "int \<Rightarrow> MQTTMessage \<Rightarrow> dxObservedEvent option" where
  \<comment> \<open>the event an observed message leaves\<close>
  "accepted wall m =
     (case dxBaselineObserveGate m of
        None \<Rightarrow> None
      | Some band \<Rightarrow> Some \<lparr>ev_T = (if T m \<le> 0 then wall else T m), ev_B = band, ev_SC = ToUpper (TrimSpace (SC m)),
          ev_RC = ToUpper (TrimSpace (RC m)), ev_SL = ToUpper (TrimSpace (SL m)), ev_RL = ToUpper (TrimSpace (RL m)), ev_RP = RP m\<rparr>)"

lemma ring_keeps_buckets [simp]:
  "buckets (pushEvent n ev e) = buckets e" "clusterBuckets (pushEvent n ev e) = clusterBuckets e"
  "buckets (shrinkRing n e) = buckets e" "clusterBuckets (shrinkRing n e) = clusterBuckets e"
  by (simp_all add: pushEvent_def shrinkRing_def Let_def)

lemma Observe_form:
  assumes "dxBaselineObserveGate m = Some band" and "ts = (if T m \<le> 0 then wall else T m)"
    and "sl = ToUpper (TrimSpace (SL m))" "rl = ToUpper (TrimSpace (RL m))"
    and "hour = utcSlotOfDay ts" "d = distanceTierForLocators sl rl" "s = snrTierFromDb (RP m)"
  obtains e' where "Observe n wall e m = pushEvent (max 0 n) (the (accepted wall m)) (shrinkRing (max 0 n) e')"
    "buckets e' = observeBucket (buckets e) (appendBaselineKey [] band hour d s) band hour d s"
    "clusterBuckets e' = observeCluster rl band hour d s (observeCluster sl band hour d s (clusterBuckets e))"
    "eng_events e' = eng_events e" "eventsStart e' = eventsStart e"
proof -
  have n: "(if n < 0 then 0 else n) = max 0 n" by simp
  define e0 where "e0 = (if ts > 0
     then e\<lparr>firstEventAt := (if firstEventAt e = 0 \<or> ts < firstEventAt e then ts else firstEventAt e),
            lastEventAt := (if ts > lastEventAt e then ts else lastEventAt e)\<rparr> else e)"
  have e0: "buckets e0 = buckets e" "clusterBuckets e0 = clusterBuckets e" "eng_events e0 = eng_events e" "eventsStart e0 = eventsStart e"
    by (simp_all add: e0_def)
  show thesis
    by (rule that [of "e0\<lparr>buckets := observeBucket (buckets e0) (appendBaselineKey [] band hour d s) band hour d s,
          clusterBuckets := observeCluster rl band hour d s (observeCluster sl band hour d s (clusterBuckets e0))\<rparr>"])
      (simp_all add: e0, simp add: Observe_def accepted_def assms(1) n Let_def e0_def [unfolded assms(2)] assms(2-))
qed

lemma Observe_refused: "dxBaselineObserveGate m = None \<Longrightarrow> Observe n wall e m = e"
  by (simp add: Observe_def)

lemma Observe_ring_step:
  assumes "ring_ok n e" "0 < n"
  shows "ring_ok n (Observe n wall e m) \<and> snapshotEventsLocked (Observe n wall e m) =
    newest (nat n) (snapshotEventsLocked e @ (case accepted wall m of Some ev \<Rightarrow> [ev] | None \<Rightarrow> []))"
proof (cases "dxBaselineObserveGate m")
  case None
  have "length (eng_events e) - nat n = 0" using assms by (auto simp: ring_ok_def)
  then show ?thesis using assms None by (simp add: Observe_refused accepted_def newest_def snapshot_length)
next
  case (Some band)
  then obtain ev where ev: "accepted wall m = Some ev" by (simp add: accepted_def)
  obtain e' where e': "Observe n wall e m = pushEvent (max 0 n) (the (accepted wall m)) (shrinkRing (max 0 n) e')"
      "eng_events e' = eng_events e" "eventsStart e' = eventsStart e"
    using Observe_form [OF Some refl refl refl refl refl refl] by metis
  have r: "ring_ok n e'" "snapshotEventsLocked e' = snapshotEventsLocked e"
    using assms(1) e'(2,3) by (simp_all add: ring_ok_def snapshotEventsLocked_def)
  have "Observe n wall e m = pushEvent n ev e'"
    using e'(1) ev assms(2) r(1) by (simp add: shrinkRing_id ring_ok_def max_def)
  then show ?thesis using pushEvent_ring [OF r(1) assms(2), of ev] ev r(2) by simp
qed

theorem Observe_ring:
  assumes "0 < n"
  shows "snapshotEventsLocked (foldl (Observe n wall) (newDxBaselineEngine path) ms) =
    newest (nat n) (List.map_filter (accepted wall) ms)"
proof -
  have "ring_ok n (foldl (Observe n wall) (newDxBaselineEngine path) ms) \<and>
    snapshotEventsLocked (foldl (Observe n wall) (newDxBaselineEngine path) ms) = newest (nat n) (List.map_filter (accepted wall) ms)"
  proof (induction ms rule: rev_induct)
    case (snoc m ms)
    have mf: "List.map_filter (accepted wall) (ms @ [m]) = List.map_filter (accepted wall) ms @ (case accepted wall m of Some ev \<Rightarrow> [ev] | None \<Rightarrow> [])"
      by (simp add: List.map_filter_def split: option.split)
    have trim: "newest k (newest k xs @ ys) = newest k (xs @ ys)" for k and xs ys :: "dxObservedEvent list"
      by (cases "k \<le> length xs") (simp_all add: newest_def add.commute)
    show ?case
      using snoc Observe_ring_step [OF _ assms, of "foldl (Observe n wall) (newDxBaselineEngine path) ms" wall m]
      by (simp add: mf trim)
  qed (use assms in \<open>simp add: newDxBaselineEngine_def ring_ok_def snapshotEventsLocked_def newest_def List.map_filter_def\<close>)
  then show ?thesis by blast
qed

section \<open>The cluster buckets count what the live side counts\<close>

type_synonym observation = "string \<times> string \<times> int \<times> int \<times> int"

interpretation ob: grouping "\<lambda>(key, band, hour, d, s). Some key"
  "\<lambda>(key, band, hour, d, s). \<lparr>bk_Band = band, bk_SlotOfDay = hour, bk_DistanceTier = d, bk_SnrTier = s, bk_Count = 0\<rparr>"
  "\<lambda>_ b. b\<lparr>bk_Count := bk_Count b + 1\<rparr>"
  "\<lambda>e (key, band, hour, d, s). observeBucket e key band hour d s"
  by unfold_locales (auto simp: observeBucket_def Let_def split: option.split)

definition observeAll :: "bucketMap \<Rightarrow> observation list \<Rightarrow> bucketMap" where
  "observeAll = foldl (\<lambda>e (key, band, hour, d, s). observeBucket e key band hour d s)"

lemma bucketCount_run: "bucketCount (observeAll m items) k = bucketCount m k + int (length (filter (\<lambda>i. fst i = k) items))"
proof (induction items arbitrary: m)
  case (Cons i items)
  obtain key band hour d s where i: "i = (key, band, hour, d, s)" by (metis prod_cases5)
  have "bucketCount (observeBucket m key band hour d s) k = bucketCount m k + (if key = k then 1 else 0)"
    by (auto simp: bucketCount_def observeBucket_def assoc Let_def split: option.split)
  then show ?case using Cons by (simp add: observeAll_def i)
qed (simp add: observeAll_def)

definition messageTime :: "int \<Rightarrow> MQTTMessage \<Rightarrow> int" where
  "messageTime wall m = (if T m \<le> 0 then wall else T m)"

definition messageTiers :: "MQTTMessage \<Rightarrow> int \<times> int" where
  "messageTiers m = (distanceTierForLocators (ToUpper (TrimSpace (SL m))) (ToUpper (TrimSpace (RL m))), snrTierFromDb (RP m))"

definition clusterItems :: "int \<Rightarrow> MQTTMessage \<Rightarrow> observation list" where
  \<comment> \<open>the bucket writes of one message, one per end with a cluster\<close>
  "clusterItems wall m =
     (case dxBaselineObserveGate m of
        None \<Rightarrow> []
      | Some band \<Rightarrow>
          (let hour = utcSlotOfDay (messageTime wall m); (d, s) = messageTiers m
           in map (\<lambda>a. (baselineClusterKey a band hour d s, band, hour, d, s))
                (List.map_filter (\<lambda>l. ClusterAnchor (ToUpper (TrimSpace l))) [SL m, RL m])))"

lemma tiers_members:
  "distanceTierForLocators a b \<in> {0, 1, 2, 3, 4}" "snrTierFromDb db \<in> {0, 1, 2, 3}"
  by (simp_all add: distanceTierForLocators_def distanceTierFromKm_def snrTierFromDb_def)

lemma tiers_set: "set tiers = {0, 1, 2, 3, 4} \<times> {0, 1, 2, 3}" "distinct tiers"
  by (auto simp: tiers_def)

lemma messageTiers_in: "messageTiers m \<in> set tiers"
  using tiers_members(1) [of "ToUpper (TrimSpace (SL m))" "ToUpper (TrimSpace (RL m))"] tiers_members(2) [of "RP m"]
  unfolding messageTiers_def tiers_set by blast

lemma tier_range_small: "(d, s) \<in> set tiers \<Longrightarrow> tier_range d \<and> tier_range s" "tier_range (utcSlotOfDay t)"
  using utcSlotOfDay_range [of t] by (auto simp: tiers_set tier_range_def SlotsOfDay_def)

lemma clusterBuckets_run:
  "clusterBuckets (foldl (Observe n wall) e ms) = observeAll (clusterBuckets e) (concat (map (clusterItems wall) ms))"
proof (induction ms arbitrary: e)
  case (Cons m ms)
  have "clusterBuckets (Observe n wall e m) = observeAll (clusterBuckets e) (clusterItems wall m)"
  proof (cases "dxBaselineObserveGate m")
    case None
    then show ?thesis by (simp add: Observe_refused clusterItems_def observeAll_def)
  next
    case (Some band)
    let ?sl = "ToUpper (TrimSpace (SL m))" and ?rl = "ToUpper (TrimSpace (RL m))" and ?hour = "utcSlotOfDay (messageTime wall m)"
    obtain d s where ds: "messageTiers m = (d, s)" by fastforce
    then have d: "d = distanceTierForLocators ?sl ?rl" "s = snrTierFromDb (RP m)" by (simp_all add: messageTiers_def)
    obtain e' where e': "Observe n wall e m = pushEvent (max 0 n) (the (accepted wall m)) (shrinkRing (max 0 n) e')"
      "clusterBuckets e' = observeCluster ?rl band ?hour d s (observeCluster ?sl band ?hour d s (clusterBuckets e))"
      using Observe_form [OF Some messageTime_def refl refl refl d, where n = n and e = e] by metis
    have range: "tier_range ?hour \<and> tier_range d \<and> tier_range s"
      using tier_range_small messageTiers_in [of m] ds by auto
    have one: "observeCluster l band ?hour d s c =
        (case ClusterAnchor l of None \<Rightarrow> c | Some a \<Rightarrow> observeBucket c (baselineClusterKey a band ?hour d s) band ?hour d s)" for l c
      using range by (simp add: observeCluster_def appendBaselineKey_eq baselineClusterKey_def split: option.split)
    show ?thesis
      unfolding e'(1) ring_keeps_buckets e'(2) one clusterItems_def Some option.simps Let_def ds prod.case observeAll_def
      by (simp add: List.map_filter_def split: option.split)
  qed
  then show ?case using Cons by (simp add: observeAll_def)
qed (simp add: observeAll_def)

lemma anchor_no_bar:
  assumes "ClusterAnchor l = Some a"
  shows "no_bar a"
proof -
  obtain x y where "SquareXY l = Some (x, y)"
    and a: "a = SquareXYToLocator (fst (ClusterAnchorXY x y)) (snd (ClusterAnchorXY x y))"
    using assms by (auto simp: ClusterAnchor_def split: option.splits prod.splits)
  then have "on_grid (fst (ClusterAnchorXY x y)) (snd (ClusterAnchorXY x y))"
    using ClusterAnchorXY_idem [OF SquareXY_on_grid] by (metis prod.collapse)
  then have "IsLocator a" unfolding a by (rule IsLocator_SquareXYToLocator)
  moreover obtain p q r t where "a = [p, q, r, t]" unfolding a SquareXYToLocator_def by blast
  moreover have "byte c \<noteq> 124 \<Longrightarrow> c \<noteq> CHR ''|''" for c by auto
  ultimately show ?thesis by (force simp: no_bar_def)
qed

lemma clusterKey_inj:
  assumes "no_bar a" "no_bar a'" "no_bar band" "no_bar band'" "tier_range h" "tier_range h'"
    "(d, s) \<in> set tiers" "(d', s') \<in> set tiers"
  shows "baselineClusterKey a' band' h' d' s' = baselineClusterKey a band h d s \<longleftrightarrow> a' = a \<and> band' = band \<and> h' = h \<and> (d, s) = (d', s')"
proof
  assume "baselineClusterKey a' band' h' d' s' = baselineClusterKey a band h d s"
  then have 1: "a' = a \<and> baselineKey band' h' d' s' = baselineKey band h d s"
    using bar_split [OF assms(2,1)] by (simp add: baselineClusterKey_def)
  then have "band' = band \<and> h' = h \<and> d' = d \<and> s' = s"
    using baselineKey_inj [OF assms(4,3)] tier_range_small(1) assms(5-8) by blast
  with 1 show "a' = a \<and> band' = band \<and> h' = h \<and> (d, s) = (d', s')" by simp
qed simp

lemma tiers_once:
  "t \<in> set tiers \<Longrightarrow> sum_list (map (\<lambda>(d, s). if P \<and> t = (d, s) then 1 else 0) tiers) = (if P then 1 else (0::int))"
  unfolding tiers_def by auto

lemma sum_over_tiers_swap:
  "sum_list (map (\<lambda>(d, s). int (length (filter (\<lambda>i. fst i = K d s) (xs @ ys)))) tiers)
   = sum_list (map (\<lambda>(d, s). int (length (filter (\<lambda>i. fst i = K d s) xs))) tiers)
     + sum_list (map (\<lambda>(d, s). int (length (filter (\<lambda>i. fst i = K d s) ys))) tiers)"
  unfolding tiers_def by simp

definition plain_bands :: "MQTTMessage list \<Rightarrow> bool" where
  \<comment> \<open>no band name holds the separator of the keys\<close>
  "plain_bands ms \<longleftrightarrow> (\<forall>m \<in> set ms. no_bar (normalizeBand (B m)))"

lemma gate_band: "dxBaselineObserveGate m = Some band \<Longrightarrow> band = normalizeBand (B m) \<and> TrimSpace (SL m) \<noteq> [] \<and> TrimSpace (RL m) \<noteq> []"
  by (auto simp: dxBaselineObserveGate_def Let_def split: if_splits)

lemma endCount_anchors:
  assumes "ClusterAnchor l0 = Some a" "SquareXY a = Some (ax, ay)" "dxBaselineObserveGate m = Some band"
  shows "clusterEndCount m ax ay = sum_list (map (\<lambda>l. if ClusterAnchor (ToUpper (TrimSpace l)) = Some a then 1 else 0) [SL m, RL m])"
  using gate_band [OF assms(3)] by (simp add: clusterEndCount_def InCluster_ClusterAnchor [OF assms(1,2)])

lemma items_count:
  assumes a: "ClusterAnchor l0 = Some a" "SquareXY a = Some (ax, ay)" and bars: "no_bar band" "no_bar (normalizeBand (B m))"
    and slot: "tier_range slot"
  shows "sum_list (map (\<lambda>(d, s). int (length (filter (\<lambda>i. fst i = baselineClusterKey a band slot d s) (clusterItems wall m)))) tiers)
    = (if dxBaselineObserveGate m = Some band \<and> utcSlotOfDay (messageTime wall m) = slot then clusterEndCount m ax ay else 0)"
proof (cases "dxBaselineObserveGate m")
  case None
  then show ?thesis by (simp add: clusterItems_def tiers_def)
next
  case (Some b)
  define h where "h = utcSlotOfDay (messageTime wall m)"
  obtain d' s' where ds: "messageTiers m = (d', s')" by fastforce
  have t: "(d', s') \<in> set tiers" using messageTiers_in [of m] ds by simp
  have b: "no_bar b" using bars(2) gate_band [OF Some] by simp
  have item: "sum_list (map (\<lambda>(d, s). int (length (filter (\<lambda>i. fst i = baselineClusterKey a band slot d s)
        (map (\<lambda>a. (baselineClusterKey a b h d' s', b, h, d', s')) (List.map_filter (\<lambda>l. ClusterAnchor (ToUpper (TrimSpace l))) [l]))))) tiers)
      = (if b = band \<and> h = slot then if ClusterAnchor (ToUpper (TrimSpace l)) = Some a then 1 else 0 else 0)" for l
  proof (cases "ClusterAnchor (ToUpper (TrimSpace l))")
    case None
    then show ?thesis by (simp add: List.map_filter_def tiers_def)
  next
    case (Some a')
    have key: "baselineClusterKey a' b h d' s' = baselineClusterKey a band slot d s \<longleftrightarrow>
        (a' = a \<and> b = band \<and> h = slot) \<and> (d', s') = (d, s)" if "(d, s) \<in> set tiers" for d s
      using clusterKey_inj [OF anchor_no_bar [OF a(1)] anchor_no_bar [OF Some] bars(1) b slot _ that t, of h] tier_range_small(2)
      by (auto simp: h_def)
    have "sum_list (map (\<lambda>(d, s). int (length (filter (\<lambda>i. fst i = baselineClusterKey a band slot d s) [(baselineClusterKey a' b h d' s', b, h, d', s')]))) tiers)
        = sum_list (map (\<lambda>(d, s). if (a' = a \<and> b = band \<and> h = slot) \<and> (d', s') = (d, s) then 1 else 0) tiers)"
      by (rule arg_cong [where f = sum_list], rule map_cong [OF refl]) (auto simp: key)
    then show ?thesis using tiers_once [OF t, of "a' = a \<and> b = band \<and> h = slot"] Some by (auto simp: List.map_filter_def)
  qed
  have two: "clusterItems wall m =
      map (\<lambda>a. (baselineClusterKey a b h d' s', b, h, d', s')) (List.map_filter (\<lambda>l. ClusterAnchor (ToUpper (TrimSpace l))) [SL m])
      @ map (\<lambda>a. (baselineClusterKey a b h d' s', b, h, d', s')) (List.map_filter (\<lambda>l. ClusterAnchor (ToUpper (TrimSpace l))) [RL m])"
    using Some ds by (simp add: clusterItems_def h_def List.map_filter_def Let_def)
  show ?thesis
    unfolding two sum_over_tiers_swap item using Some endCount_anchors [OF a Some] by (auto simp: h_def)
qed

theorem cluster_like_for_like:
  assumes "ClusterAnchor l0 = Some a" "SquareXY a = Some (ax, ay)" "plain_bands ms" "no_bar band" "0 \<le> slot" "slot < 48"
  shows "clusterTotal (clusterBuckets (foldl (Observe n wall) (newDxBaselineEngine path) ms)) a band slot =
    sum_list (map (\<lambda>m. clusterEndCount m ax ay)
      (filter (\<lambda>m. dxBaselineObserveGate m = Some band \<and> utcSlotOfDay (messageTime wall m) = slot) ms))"
proof -
  have slot: "tier_range slot" using assms(5,6) by (simp add: tier_range_def)
  have "sum_list (map (\<lambda>(d, s). int (length (filter (\<lambda>i. fst i = baselineClusterKey a band slot d s) (concat (map (clusterItems wall) ms))))) tiers)
    = sum_list (map (\<lambda>m. clusterEndCount m ax ay)
      (filter (\<lambda>m. dxBaselineObserveGate m = Some band \<and> utcSlotOfDay (messageTime wall m) = slot) ms))"
    using assms(3)
  proof (induction ms)
    case Nil
    show ?case by (simp add: tiers_def)
  next
    case (Cons m ms)
    then have "no_bar (normalizeBand (B m))" "plain_bands ms" by (simp_all add: plain_bands_def)
    then show ?case
      unfolding list.map concat.simps sum_over_tiers_swap
      using Cons.IH items_count [OF assms(1,2,4) _ slot, of m wall] by simp
  qed
  then show ?thesis
    unfolding clusterTotal_def clusterBuckets_run bucketCount_run
    by (simp add: newDxBaselineEngine_def bucketCount_def)
qed

section \<open>A snapshot and back\<close>

definition engine_keys :: "bucketMap \<Rightarrow> bool" where
  "engine_keys m \<longleftrightarrow> distinct (map fst m) \<and>
     (\<forall>(k, b) \<in> set m. k = storedKey b)"

lemma observeBucket_keys:
  assumes "engine_keys m" "tier_range hour" "tier_range dt" "tier_range st"
  shows "engine_keys (observeBucket m (appendBaselineKey [] band hour dt st) band hour dt st)"
proof -
  let ?k = "appendBaselineKey [] band hour dt st"
  have k: "?k = baselineKey band hour dt st" using assms(2-) by (simp add: appendBaselineKey_eq)
  have "storedKey b = ?k" if "map_of m ?k = Some b" for b
    using assms map_of_SomeD [OF that] by (auto simp: engine_keys_def)
  moreover have "storedKey (b\<lparr>bk_Count := c\<rparr>) = storedKey b" for b c by (simp add: storedKey_def)
  ultimately have "\<exists>b. observeBucket m ?k band hour dt st = AList.update ?k b m \<and> storedKey b = ?k"
    unfolding observeBucket_def Let_def by (cases "map_of m ?k") (auto simp: storedKey_def k)
  then show ?thesis
    using assms by (auto simp: engine_keys_def distinct_update dest!: subsetD [OF alist_update_subset])
qed

lemma Observe_keys:
  assumes "engine_keys (buckets e)"
  shows "engine_keys (buckets (Observe n wall e m))"
proof (cases "dxBaselineObserveGate m")
  case None
  then show ?thesis using assms by (simp add: Observe_refused)
next
  case (Some band)
  obtain d s where ds: "messageTiers m = (d, s)" by fastforce
  then have d: "d = distanceTierForLocators (ToUpper (TrimSpace (SL m))) (ToUpper (TrimSpace (RL m)))" "s = snrTierFromDb (RP m)"
    by (simp_all add: messageTiers_def)
  obtain e' where e': "Observe n wall e m = pushEvent (max 0 n) (the (accepted wall m)) (shrinkRing (max 0 n) e')"
    "buckets e' = observeBucket (buckets e) (appendBaselineKey [] band (utcSlotOfDay (messageTime wall m)) d s) band
       (utcSlotOfDay (messageTime wall m)) d s"
    using Observe_form [OF Some messageTime_def refl refl refl d, where n = n and e = e] by metis
  have "tier_range (utcSlotOfDay (messageTime wall m))" "tier_range d" "tier_range s"
    using tier_range_small messageTiers_in [of m] ds by auto
  from observeBucket_keys [OF assms this] show ?thesis by (simp add: e')
qed

lemma remap_keeps:
  assumes "engine_keys m"
  shows "remapBucketsForLoad (cloneBuckets m) = m"
proof -
  have "fold remapStep (map (\<lambda>(k, b). (k, Some b)) bs) out = out @ bs" if "engine_keys (out @ bs)" for out bs
    using that
  proof (induction bs arbitrary: out)
    case (Cons p bs)
    obtain k b where p: "p = (k, b)" by fastforce
    have k: "k = storedKey b" "k \<notin> fst ` set out"
      using Cons.prems by (auto simp: engine_keys_def p)
    then have "map_of out k = None" by (simp add: map_of_eq_None_iff)
    then have "remapStep (k, Some b) out = out @ [(k, b)]"
      using k by (simp add: remapStep_def Let_def update_new)
    then show ?case using Cons by (simp add: p)
  qed simp
  from this [of "[]" m] show ?thesis
    using assms by (simp add: remapBucketsForLoad_def cloneBuckets_def)
qed

definition json_bucket :: "(string \<Rightarrow> string) \<Rightarrow> string \<times> baselineBucket \<Rightarrow> bool" where
  \<comment> \<open>integers of their width and strings of valid UTF-8\<close>
  "json_bucket coerce p \<longleftrightarrow> coerce (fst p) = fst p \<and> coerce (bk_Band (snd p)) = bk_Band (snd p) \<and> is_int64 (bk_SlotOfDay (snd p)) \<and>
     is_int64 (bk_DistanceTier (snd p)) \<and> is_int64 (bk_SnrTier (snd p)) \<and> is_int64 (bk_Count (snd p))"

definition json_event :: "(string \<Rightarrow> string) \<Rightarrow> dxObservedEvent \<Rightarrow> bool" where
  "json_event coerce ev \<longleftrightarrow> is_int64 (ev_T ev) \<and> is_int64 (ev_RP ev) \<and>
     (\<forall>s\<in>{ev_B ev, ev_SC ev, ev_RC ev, ev_SL ev, ev_RL ev}. coerce s = s)"

definition json_engine :: "(string \<Rightarrow> string) \<Rightarrow> DxBaselineEngine \<Rightarrow> bool" where
  "json_engine coerce e \<longleftrightarrow> is_int64 (firstEventAt e) \<and> is_int64 (lastEventAt e) \<and>
     distinct (map fst (buckets e)) \<and> distinct (map fst (clusterBuckets e)) \<and>
     (\<forall>p\<in>set (buckets e) \<union> set (clusterBuckets e). json_bucket coerce p) \<and> (\<forall>ev\<in>set (eng_events e). json_event coerce ev)"

lemma fieldNamed_Cons [simp]:
  "fieldNamed (c # k) name \<longleftrightarrow> name \<noteq> [] \<and> lower_char c = hd name \<and> fieldNamed k (tl name)"
  "fieldNamed [] name \<longleftrightarrow> name = []"
  by (cases name; auto simp: fieldNamed_def ToLower_def)+

lemma toInt_int64 [simp]: "is_int64 n \<Longrightarrow> toInt old (JInt n) = Some n"
  by simp

lemma bucket_back:
  "json_bucket coerce (k, b) \<Longrightarrow> UnmarshalJSON zeroBucket (marshalBucket coerce b) = Some b"
  by (simp add: json_bucket_def UnmarshalJSON_def marshalBucket_def auxField_def lower_char_def zeroBucket_def Let_def)

lemma event_back:
  "json_event coerce ev \<Longrightarrow> toStruct eventField zeroEvent (marshalEvent coerce ev) = Some ev"
  by (simp add: json_event_def marshalEvent_def eventField_def lower_char_def zeroEvent_def)

lemma buckets_back:
  assumes "distinct (map fst m)" "\<forall>p\<in>set m. json_bucket coerce p" "old = None \<or> old = Some []"
  shows "toMap toBucketPtr old (marshalBuckets coerce (cloneBuckets m)) = Some (Some (cloneBuckets m))"
proof -
  have "members (mapMember toBucketPtr)
      (map (\<lambda>(k, p). (coerce k, case p of None \<Rightarrow> JNull | Some b \<Rightarrow> marshalBucket coerce b)) (cloneBuckets m)) [] = Some (cloneBuckets m)"
  proof (rule toMap_members)
    show "distinct (map fst (cloneBuckets m))" using assms(1) by (simp add: cloneBuckets_def comp_def case_prod_beta)
    show "\<forall>(k, p)\<in>set (cloneBuckets m). coerce k = k \<and>
        toBucketPtr (case p of None \<Rightarrow> JNull | Some b \<Rightarrow> marshalBucket coerce b) = Some p"
      using assms(2) bucket_back by (fastforce simp: cloneBuckets_def json_bucket_def toBucketPtr_def marshalBucket_def)
  qed
  then show ?thesis using assms(3) by (auto simp: marshalBuckets_def)
qed

lemma snapshotEvents_mem: "ev \<in> set (snapshotEventsLocked e) \<Longrightarrow> ev \<in> set (eng_events e)"
  by (auto simp: snapshotEventsLocked_def dest: in_set_dropD in_set_takeD split: if_splits)

lemma snapshot_back:
  assumes "json_engine coerce e" "is_int64 now" "Save coerce now e = Some j"
  shows "unmarshalSnapshot j = Some \<lparr>snap_Version = 8, snap_SavedAt = now, snap_FirstEventAt = firstEventAt e,
    snap_LastEventAt = lastEventAt e, snap_Buckets = cloneBuckets (buckets e),
    snap_ClusterBuckets = (if clusterBuckets e = [] then None else Some (cloneBuckets (clusterBuckets e))),
    snap_Events = snapshotEventsLocked e\<rparr>"
proof -
  let ?c = "cloneBuckets (clusterBuckets e)" and ?evs = "snapshotEventsLocked e"
  have ints: "is_int64 (firstEventAt e)" "is_int64 (lastEventAt e)" "is_int64 8"
    using assms(1) by (simp_all add: json_engine_def) (simp add: is_int64_def)
  have maps: "toMap toBucketPtr (Some []) (marshalBuckets coerce (cloneBuckets (buckets e))) = Some (Some (cloneBuckets (buckets e)))"
    "toMap toBucketPtr None (marshalBuckets coerce ?c) = Some (Some ?c)"
    using assms(1) by (intro buckets_back; simp add: json_engine_def)+
  have evs: "toElems (toStruct eventField zeroEvent) (map (marshalEvent coerce) ?evs) = Some ?evs"
    using assms(1) by (intro toElems_map ballI event_back) (simp add: json_engine_def snapshotEvents_mem)
  have c: "cloneBuckets m = [] \<longleftrightarrow> m = []" for m by (simp add: cloneBuckets_def)
  have j: "j = marshalSnapshot coerce \<lparr>snap_Version = 8, snap_SavedAt = now, snap_FirstEventAt = firstEventAt e,
      snap_LastEventAt = lastEventAt e, snap_Buckets = cloneBuckets (buckets e), snap_ClusterBuckets = Some ?c, snap_Events = ?evs\<rparr>"
    using assms(3) by (simp add: Save_def split: if_splits)
  note fields = snapshotField_def lower_char_def ints assms(2) maps evs
  show ?thesis
    unfolding j marshalSnapshot_def unmarshalSnapshot_def toStruct.simps members_append
    by (cases "firstEventAt e = 0"; cases "lastEventAt e = 0"; cases "clusterBuckets e = []"; cases "?evs = []")
      (simp_all add: fields c)
qed

lemma refresh_keeps:
  "buckets (refreshEventSpanLocked x) = buckets x" "clusterBuckets (refreshEventSpanLocked x) = clusterBuckets x"
  "eng_events (refreshEventSpanLocked x) = eng_events x" "eventsStart (refreshEventSpanLocked x) = eventsStart x"
proof -
  have "buckets (fold spanStep evs y) = buckets y \<and> clusterBuckets (fold spanStep evs y) = clusterBuckets y \<and>
      eng_events (fold spanStep evs y) = eng_events y \<and> eventsStart (fold spanStep evs y) = eventsStart y"
    for evs and y :: DxBaselineEngine
    by (induction evs arbitrary: y) (simp_all add: spanStep_def Let_def)
  then show "buckets (refreshEventSpanLocked x) = buckets x" "clusterBuckets (refreshEventSpanLocked x) = clusterBuckets x"
    "eng_events (refreshEventSpanLocked x) = eng_events x" "eventsStart (refreshEventSpanLocked x) = eventsStart x"
    by (simp_all add: refreshEventSpanLocked_def)
qed

theorem Load_Save:
  assumes "json_engine coerce e" "is_int64 now" "engine_keys (buckets e)" "eng_path e' \<noteq> []"
    and "Save coerce now e = Some j" "Load n (FileJson j) e' = (e'', ok)"
  shows "ok" "buckets e'' = buckets e" "snapshotEventsLocked e'' = newest (nat n) (snapshotEventsLocked e)"
    "clusterBuckets e'' = (if clusterBuckets e = [] then clusterBuckets e' else remapBucketsForLoad (cloneBuckets (clusterBuckets e)))"
    "firstEventAt e \<noteq> 0 \<Longrightarrow> lastEventAt e \<noteq> 0 \<Longrightarrow> firstEventAt e'' = firstEventAt e \<and> lastEventAt e'' = lastEventAt e"
proof -
  define snap where "snap = \<lparr>snap_Version = 8, snap_SavedAt = now, snap_FirstEventAt = firstEventAt e,
    snap_LastEventAt = lastEventAt e, snap_Buckets = cloneBuckets (buckets e),
    snap_ClusterBuckets = (if clusterBuckets e = [] then None else Some (cloneBuckets (clusterBuckets e))),
    snap_Events = snapshotEventsLocked e\<rparr>"
  have j: "unmarshalSnapshot j = Some snap" using snapshot_back [OF assms(1,2,5)] by (simp add: snap_def)
  define x where "x = loadEvents (if n < 0 then 0 else n) (snapshotEventsLocked e) (loadBuckets snap e')"
  have x: "buckets x = buckets e" "firstEventAt x = firstEventAt e" "lastEventAt x = lastEventAt e"
      "clusterBuckets x = (if clusterBuckets e = [] then clusterBuckets e' else remapBucketsForLoad (cloneBuckets (clusterBuckets e)))"
      "eng_events x = newest (nat n) (snapshotEventsLocked e)" "eventsStart x = 0"
    using remap_keeps [OF assms(3)] by (auto simp: x_def loadEvents_def loadBuckets_def snap_def newest_def Let_def)
  have "snap_Events snap = snapshotEventsLocked e" by (simp add: snap_def)
  then have "Load n (FileJson j) e' = (if firstEventAt x = 0 \<or> lastEventAt x = 0 then refreshEventSpanLocked x else x, True)"
    using assms(4) by (simp add: Load_def Let_def j x_def)
  then have e'': "e'' = (if firstEventAt x = 0 \<or> lastEventAt x = 0 then refreshEventSpanLocked x else x)" and "ok"
    using assms(6) by simp_all
  then show ok by simp
  show "buckets e'' = buckets e" "clusterBuckets e'' = (if clusterBuckets e = [] then clusterBuckets e' else remapBucketsForLoad (cloneBuckets (clusterBuckets e)))"
    unfolding e'' using x by (simp_all add: refresh_keeps)
  show "snapshotEventsLocked e'' = newest (nat n) (snapshotEventsLocked e)"
    unfolding e'' snapshotEventsLocked_def [of "if _ then _ else _"] using x by (simp add: refresh_keeps)
  show "firstEventAt e'' = firstEventAt e \<and> lastEventAt e'' = lastEventAt e" if "firstEventAt e \<noteq> 0" "lastEventAt e \<noteq> 0"
    unfolding e'' using x that by simp
qed

text \<open>A bucket of the third version, with an hour of the week and no slot, loads into the first slot of its hour.\<close>

lemma legacy_bucket:
  assumes "is_int64 h" "is_int64 d" "is_int64 s" "is_int64 c" "0 \<le> h"
  shows "UnmarshalJSON zeroBucket (JObj [(''band'', JStr band), (''hour_of_week'', JInt h), (''source4'', JStr src),
      (''distance_tier'', JInt d), (''snr_tier'', JInt s), (''count'', JInt c)])
    = Some \<lparr>bk_Band = band, bk_SlotOfDay = h mod 24 * 2, bk_DistanceTier = d, bk_SnrTier = s, bk_Count = c\<rparr>"
  using assms by (simp add: UnmarshalJSON_def auxField_def lower_char_def zeroBucket_def Let_def rem_nonneg)

text \<open>
  The cluster buckets come back under the keys of the global ones: no lookup by a cluster key
  finds them.
\<close>

definition bars :: "string \<Rightarrow> nat" where
  "bars k = length (filter (\<lambda>c. c = CHR ''|'') k)"

lemma bars_no_bar: "no_bar s \<Longrightarrow> bars s = 0"
  by (auto simp: bars_def no_bar_def filter_empty_conv)

lemma bars_itoa: "tier_range v \<Longrightarrow> bars (strconvItoa v) = 0"
  using no_bar_itoa [of v] by (simp add: strconvItoa_itoa tier_range_def bars_no_bar)

lemma bars_baselineKey:
  "no_bar band \<Longrightarrow> tier_range a \<Longrightarrow> tier_range b \<Longrightarrow> tier_range c \<Longrightarrow> bars (baselineKey band a b c) = 3"
  using bars_itoa bars_no_bar [of band] by (simp add: baselineKey_def bars_def)

lemma remapStep_keys: "k \<in> fst ` set (remapStep p out) \<Longrightarrow> k \<in> fst ` set out \<or> (\<exists>b. snd p = Some b \<and> k = storedKey b)"
  by (cases "snd p") (auto simp: remapStep_def Let_def dom_update split: option.splits)

lemma remap_keys:
  assumes "k \<in> fst ` set (remapBucketsForLoad src)"
  shows "\<exists>b. Some b \<in> snd ` set src \<and> k = storedKey b"
proof -
  have "k \<in> fst ` set out \<or> (\<exists>b. Some b \<in> snd ` set src \<and> k = storedKey b)"
    if "k \<in> fst ` set (fold remapStep src out)" for out
    using that
  proof (induction src arbitrary: out)
    case (Cons p src)
    then consider "k \<in> fst ` set (remapStep p out)" | b where "Some b \<in> snd ` set src" "k = storedKey b" by fastforce
    then show ?case
    proof cases
      case 1
      then show ?thesis using remapStep_keys [OF 1] by auto
    qed auto
  qed simp
  from this [of "[]"] show ?thesis using assms by (simp add: remapBucketsForLoad_def)
qed

definition stored_plain :: "bucketMap \<Rightarrow> bool" where
  "stored_plain m \<longleftrightarrow> (\<forall>(k, b) \<in> set m. no_bar (bk_Band b) \<and> tier_range (bk_SlotOfDay b) \<and> tier_range (bk_DistanceTier b) \<and> tier_range (bk_SnrTier b))"

lemma sum_list_0: "\<forall>x \<in> set xs. f x = 0 \<Longrightarrow> sum_list (map f xs) = (0::int)"
  by (induction xs) simp_all

theorem Load_loses_cluster:
  assumes "stored_plain (clusterBuckets e)" "clusterBuckets e \<noteq> []" "json_engine coerce e" "is_int64 now" "engine_keys (buckets e)"
    and "eng_path e' \<noteq> []" "Save coerce now e = Some j" "Load n (FileJson j) e' = (e'', ok)"
    and "no_bar band" "0 \<le> slot" "slot < 48"
  shows "clusterTotal (clusterBuckets e'') a band slot = 0"
proof -
  have cb: "clusterBuckets e'' = remapBucketsForLoad (cloneBuckets (clusterBuckets e))"
    using Load_Save(4) [OF assms(3-8)] assms(2) by simp
  have three: "bars k = 3" if "k \<in> fst ` set (clusterBuckets e'')" for k
  proof -
    have "k \<in> fst ` set (remapBucketsForLoad (cloneBuckets (clusterBuckets e)))" using that cb by simp
    from remap_keys [OF this] obtain b where b: "k = storedKey b" "Some b \<in> snd ` set (cloneBuckets (clusterBuckets e))"
      by auto
    then obtain k' where "(k', b) \<in> set (clusterBuckets e)" by (auto simp: cloneBuckets_def)
    then show ?thesis using assms(1) b(1) by (auto simp: stored_plain_def storedKey_def intro!: bars_baselineKey)
  qed
  have "bucketCount (clusterBuckets e'') (baselineClusterKey a band slot d s) = 0" if "(d, s) \<in> set tiers" for d s
  proof -
    have "bars (baselineKey band slot d s) = 3"
      using assms(9-11) tier_range_small(1) [OF that] by (intro bars_baselineKey) (auto simp: tier_range_def)
    then have "3 < bars (baselineClusterKey a band slot d s)" by (simp add: baselineClusterKey_def bars_def)
    then have "map_of (clusterBuckets e'') (baselineClusterKey a band slot d s) = None"
      using three by (fastforce simp: map_of_eq_None_iff)
    then show ?thesis by (simp add: bucketCount_def)
  qed
  then show ?thesis unfolding clusterTotal_def by (intro sum_list_0) auto
qed

section \<open>Quantiles in memory and in the store\<close>

lemma stable_insertBack:
  "filter (\<lambda>x. fst x = c) (insertBack ys x) = (if fst x = c then x # filter (\<lambda>x. fst x = c) ys else filter (\<lambda>x. fst x = c) ys)"
  if "sorted (rev (map fst ys))"
  using that
proof (induction ys)
  case (Cons y ys)
  show ?case
  proof (cases "fst y > fst x")
    case True
    then show ?thesis using Cons by (auto simp: sorted_append)
  qed simp
qed simp

lemma stable_sortItems: "filter (\<lambda>x. fst x = c) (sortItems items) = filter (\<lambda>x. fst x = c) items"
proof -
  have "filter (\<lambda>x. fst x = c) (foldl insertBack [] items) = rev (filter (\<lambda>x. fst x = c) items)"
  proof (induction items rule: rev_induct)
    case (snoc x items)
    have "sorted (rev (map fst (foldl insertBack [] items)))"
      using sorted_sortItems [of items] by (simp add: sortItems_def rev_map)
    then show ?case using snoc stable_insertBack by simp
  qed simp
  then show ?thesis by (simp add: sortItems_def flip: rev_filter)
qed

lemma sortItems_sort_key: "sortItems items = sort_key fst items"
proof (rule sym, rule properties_for_sort_key)
  show "mset (sortItems items) = mset items" by (rule mset_sortItems)
  show "sorted (map fst (sortItems items))" by (rule sorted_sortItems)
  show "filter (\<lambda>x. fst k = fst x) (sortItems items) = filter (\<lambda>x. fst k = fst x) items" for k
    using stable_sortItems [of "fst k" items] by (simp add: eq_commute)
qed

definition pairOf :: "baselineBucket \<Rightarrow> baselinePair" where
  "pairOf b = \<lparr>DistanceTier = bk_DistanceTier b, SnrTier = bk_SnrTier b, Count = bk_Count b\<rparr>"

definition chosenBuckets :: "bucketMap \<Rightarrow> bucketMap \<Rightarrow> string \<Rightarrow> string \<Rightarrow> int \<Rightarrow> baselineBucket list" where
  \<comment> \<open>the cluster's buckets when it has any, else the global ones\<close>
  "chosenBuckets global cb operatorCluster band hour =
     (let own = (if operatorCluster \<noteq> [] then usableBuckets cb (baselineClusterKey operatorCluster band hour) else [])
      in if own \<noteq> [] then own else usableBuckets global (baselineKey band hour))"

lemma usable_positive: "b \<in> set (usableBuckets m key) \<Longrightarrow> 0 < bk_Count b"
  by (auto simp: usableBuckets_def split: option.splits if_splits)

lemma topCount_simps [simp]:
  "topCount m [] = m" "topCount m (b # bs) = topCount (if bk_Count b > m then bk_Count b else m) bs"
  by (simp_all add: topCount_def)

lemma topCount_ge: "m \<le> topCount m bs"
proof (induction bs arbitrary: m)
  case (Cons b bs)
  show ?case by (auto intro: order_trans [OF less_imp_le Cons.IH] Cons.IH)
qed simp

lemma topCount_pos:
  assumes "bs \<noteq> []" "\<forall>b \<in> set bs. 0 < bk_Count b"
  shows "0 < topCount 0 bs"
proof (cases bs)
  case (Cons b bs')
  then have "0 < bk_Count b" using assms by simp
  then show ?thesis using topCount_ge [of "bk_Count b" bs'] Cons by simp
qed (use assms in simp)

lemma maxCountOf_pairs:
  "\<forall>b \<in> set bs. plausibleBaselinePair (pairOf b) \<Longrightarrow> maxCountOf m (map pairOf bs) = topCount m bs"
  by (induction bs arbitrary: m) (simp_all add: pairOf_def)

theorem quantiles_eq:
  assumes "\<forall>b \<in> set (chosenBuckets global cb operatorCluster band hour). plausibleBaselinePair (pairOf b)"
  shows "snd (baselineScoreQuantilesForBand global cb operatorCluster band hour) =
    quantilesFromPairs (map pairOf (chosenBuckets global cb operatorCluster band hour))"
proof -
  define own where "own = (if operatorCluster \<noteq> [] then usableBuckets cb (baselineClusterKey operatorCluster band hour) else [])"
  define all where "all = usableBuckets global (baselineKey band hour)"
  define bs where "bs = chosenBuckets global cb operatorCluster band hour"
  have bs: "bs = (if own \<noteq> [] then own else all)" by (simp add: bs_def chosenBuckets_def own_def all_def Let_def)
  have "\<forall>b \<in> set own. 0 < bk_Count b" using usable_positive by (auto simp: own_def)
  then have own_top: "0 < topCount 0 own \<longleftrightarrow> own \<noteq> []" using topCount_pos [of own] by auto
  have cluster: "own \<noteq> [] \<Longrightarrow> operatorCluster \<noteq> []" by (auto simp: own_def)
  have chosen: "(if 0 < topCount 0 own \<and> operatorCluster \<noteq> [] then own else all) = bs"
      "(if topCount 0 own = 0 then topCount 0 all else topCount 0 own) = topCount 0 bs"
    using own_top cluster by (auto simp: bs)
  have plaus: "filter plausibleBaselinePair (map pairOf bs) = map pairOf bs" "maxCountOf 0 (map pairOf bs) = topCount 0 bs"
    using assms maxCountOf_pairs [of bs 0] by (auto simp: bs_def)
  have score: "map (\<lambda>p. (pairScore n p, Count p)) (map pairOf bs) = map (\<lambda>b. (bucketScore n b, bk_Count b)) bs" for n
    by (simp add: pairScore_def bucketScore_def pairOf_def)
  have weights: "sum_list (map snd (sort_key fst xs)) = sum_list (map snd xs)" for xs :: "(real \<times> int) list"
    by (metis mset_map mset_sort sum_mset_sum_list)
  define items where "items = map (\<lambda>b. (bucketScore (topCount 0 bs) b, bk_Count b)) bs"
  have "snd (baselineScoreQuantilesForBand global cb operatorCluster band hour) =
    (if items = [] then None
     else if sum_list (map snd items) < dxMinBaselineQuantileSupport then None
     else Some (pickQuantile (of_int (sum_list (map snd items)) * (1/4)) 0 (sort_key fst items) (fst (hd (sort_key fst items))),
                pickQuantile (of_int (sum_list (map snd items)) * (3/4)) 0 (sort_key fst items) (fst (last (sort_key fst items)))))"
    unfolding baselineScoreQuantilesForBand_def own_def [symmetric] all_def [symmetric] Let_def weights
    by (cases "topCount 0 own = 0") (use chosen in \<open>simp_all add: items_def weights\<close>)
  also have "\<dots> = quantilesFromPairs (map pairOf bs)"
    by (simp add: quantilesFromPairs_def Let_def plaus score [unfolded map_map comp_def] sortItems_sort_key items_def comp_def)
  finally show ?thesis by (simp add: bs_def)
qed

end
