(* ===== verification/Activity.thy ===== *)
theory Activity
  imports Engine Matching
begin

text \<open>
  The parts of dx_conditions.go between the counts and the response: rounding and scaling, the
  activity series over twelve bins (from the live history, or from the event ring), the trend,
  the reach comparison and the classifications. Floats are reals; a Go map of series is an
  association list. The main facts: the bins of a series hold exactly the counted spots
  (\<open>series_bins\<close>, \<open>series_total\<close>), and a normalised series stays within 0 and 100
  (\<open>normalizeSeries_range\<close>).
\<close>

section \<open>Numbers\<close>

definition round1 :: "real \<Rightarrow> real" where "round1 v = of_int (goRound (v * 10)) / 10"
definition round2 :: "real \<Rightarrow> real" where "round2 v = of_int (goRound (v * 100)) / 100"
definition round4 :: "real \<Rightarrow> real" where "round4 v = of_int (goRound (v * 10000)) / 10000"

definition average :: "real list \<Rightarrow> real" where
  "average v = (if v = [] then 0 else sum_list v / real (length v))"

definition maxFloat :: "real list \<Rightarrow> real" where
  "maxFloat v = (case v of [] \<Rightarrow> 0 | x # xs \<Rightarrow> foldl (\<lambda>m v. if v > m then v else m) x xs)"

definition clamp :: "real \<Rightarrow> real \<Rightarrow> real \<Rightarrow> real" where
  "clamp v lo hi = (if v < lo then lo else if v > hi then hi else v)"

definition roundFloats2 :: "real list option \<Rightarrow> real list option" where
  "roundFloats2 v = map_option (map round2) v"

definition normalizeSeriesTo100 :: "real list \<Rightarrow> real list" where
  "normalizeSeriesTo100 series =
     (let maxV = foldl (\<lambda>m v. if v > m then v else m) 0 series
      in if maxV \<le> 0 then replicate (length series) 0
         else map (\<lambda>v. round2 (v / maxV * 100)) series)"

definition computeTrend :: "real list \<Rightarrow> string \<times> real" where
  "computeTrend series =
     (if length series < 6 then (''stable'', 0)
      else let mid = length series div 2;
               delta = average (drop mid series) - average (take mid series)
           in if delta > 6 then (''rising'', round2 (delta / 10))
              else if delta < -6 then (''falling'', round2 (delta / 10))
              else (''stable'', round2 (delta / 10)))"

section \<open>Activity series\<close>

definition activityBins :: nat where "activityBins = 12"

definition hubCoversWindow :: "int \<Rightarrow> int \<Rightarrow> int \<Rightarrow> int \<Rightarrow> bool" where
  \<comment> \<open>\<open>retention\<close>, \<open>since\<close>: \<open>liveHistoryRetentionMinutes\<close>, \<open>liveHistoryCompleteSince\<close>\<close>
  "hubCoversWindow retention since now minutes =
     (if minutes \<le> 0 \<or> retention > 0 \<and> minutes > retention then False
      else if since > now - minutes * 60 then False
      else True)"

definition binIndex :: "int \<Rightarrow> int \<Rightarrow> int \<Rightarrow> nat" where
  \<comment> \<open>the bin of a spot timed \<open>t\<close>, which lies in the window\<close>
  "binIndex windowStart binSec t =
     (let idx = quot (t - windowStart) binSec
      in if idx \<ge> int activityBins then activityBins - 1 else nat idx)"

definition bump :: "nat \<Rightarrow> real list \<Rightarrow> real list" where
  "bump i s = s[i := s ! i + 1]"

definition seriesBand :: "liveArea \<Rightarrow> int \<Rightarrow> int \<Rightarrow> int \<Rightarrow> MQTTMessage \<Rightarrow> string option" where
  \<comment> \<open>the band a spot counts for, if it counts\<close>
  "seriesBand area cwMinDb windowStart now m =
     (if T m < windowStart \<or> T m > now \<or> RP m < cwMinDb then None
      else let bi = feedBandIndex (B m)
           in if bi < 0 then None
              else if \<not> area_contains area (SL m) \<and> \<not> area_contains area (RL m) then None
              else Some (inScopeBandNames ! nat bi))"

definition seriesStep :: "liveArea \<Rightarrow> int \<Rightarrow> int \<Rightarrow> int \<Rightarrow> int \<Rightarrow> (string \<times> real list) list \<Rightarrow> MQTTMessage \<Rightarrow> (string \<times> real list) list" where
  "seriesStep area cwMinDb windowStart binSec now out m =
     (case seriesBand area cwMinDb windowStart now m of
        None \<Rightarrow> out
      | Some band \<Rightarrow>
          let s = (case map_of out band of Some s \<Rightarrow> s | None \<Rightarrow> replicate activityBins 0)
          in AList.update band (bump (binIndex windowStart binSec (T m)) s) out)"

definition buildActivityByBinFromHistoryAt ::
    "MQTTMessage list \<Rightarrow> nat list option \<Rightarrow> liveArea option \<Rightarrow> int \<Rightarrow> int \<Rightarrow> int \<Rightarrow> (string \<times> real list) list" where
  \<comment> \<open>\<open>pos\<close> is \<open>None\<close> when \<open>usePos\<close> is not set\<close>
  "buildActivityByBinFromHistoryAt history pos area cwMinDb minutes now =
     (case area of None \<Rightarrow> []
      | Some area \<Rightarrow>
          if minutes \<le> 0 then []
          else let windowSec = minutes * 60; binSec = quot windowSec (int activityBins)
               in if binSec \<le> 0 then []
                  else let windowStart = now - windowSec;
                           visited = (case pos of None \<Rightarrow> history | Some ps \<Rightarrow> map (\<lambda>i. history ! i) ps);
                           out = foldl (seriesStep area cwMinDb windowStart binSec now) [] visited;
                           binMinutes = real_of_int binSec / 60
                       in map (\<lambda>(band, s). (band, map (\<lambda>v. v / binMinutes) s)) out)"

definition buildActivityByBinFromHistory :: "MQTTMessage list \<Rightarrow> liveArea option \<Rightarrow> int \<Rightarrow> int \<Rightarrow> int \<Rightarrow> (string \<times> real list) list" where
  "buildActivityByBinFromHistory history area cwMinDb minutes now =
     buildActivityByBinFromHistoryAt history None area cwMinDb minutes now"

definition hubActivityByBin ::
    "int \<Rightarrow> int \<Rightarrow> string \<Rightarrow> bool \<Rightarrow> MQTTMessage list \<Rightarrow> nat list option \<Rightarrow> int \<Rightarrow> int \<Rightarrow> int \<Rightarrow> (string \<times> real list) list option" where
  \<comment> \<open>\<open>None\<close>: not ok; an empty list is the nil map\<close>
  "hubActivityByBin retention since qth surroundings history pos cwMinDb minutes now =
     (if \<not> IsLocator qth \<or> \<not> hubCoversWindow retention since now minutes then None
      else case ownSquareArea qth surroundings of
             None \<Rightarrow> None
           | Some area \<Rightarrow> Some (buildActivityByBinFromHistoryAt history pos (Some area) cwMinDb minutes now))"

definition eventMatchesTargets :: "dxObservedEvent \<Rightarrow> string list \<Rightarrow> bool" where
  "eventMatchesTargets e targets =
     list_ex (\<lambda>t. (matchCall (ev_SC e) t \<or> matchCall (ev_RC e) t)
       \<or> IsLocator t \<and> (HasPrefix (ev_SL e) t \<or> HasPrefix (ev_RL e) t)) targets"

definition buildBandActivityByBin :: "dxObservedEvent list \<Rightarrow> string list \<Rightarrow> string \<Rightarrow> int \<Rightarrow> int \<Rightarrow> int \<Rightarrow> real list" where
  "buildBandActivityByBin evs targets band cwMinDb minutes now =
     (let series = replicate activityBins 0
      in if minutes \<le> 0 then series
         else if evs = [] then series
         else let windowSec = minutes * 60; binSec = quot windowSec (int activityBins)
              in if binSec \<le> 0 then series
                 else let binMinutes = real_of_int binSec / 60; windowStart = now - windowSec;
                          series = foldl (\<lambda>series e.
                            if ev_B e \<noteq> band then series
                            else if ev_T e < windowStart \<or> ev_T e > now then series
                            else if \<not> eventMatchesTargets e targets then series
                            else if ev_RP e < cwMinDb then series
                            else bump (binIndex windowStart binSec (ev_T e)) series) series evs
                      in map (\<lambda>v. v / binMinutes) series)"

section \<open>Classifications\<close>

definition activityLevelMinSample :: real where "activityLevelMinSample = 20"
definition activityLevelMinSupport :: real where "activityLevelMinSupport = 100"
definition reachMinLiveSpots :: nat where "reachMinLiveSpots = 20"
definition reachMinBaselineSupport :: int where "reachMinBaselineSupport = 100"

datatype activityLevel = activityLevelAbove | activityLevelNormal | activityLevelBelow | activityLevelLowSample | activityLevelNoBaseline

definition classifyActivityLevel :: "real \<Rightarrow> real \<Rightarrow> activityLevel" where
  "classifyActivityLevel observed expected =
     (if expected \<le> 0 then activityLevelNoBaseline
      else if max observed expected < activityLevelMinSample then activityLevelLowSample
      else let ratio = round2 (observed / expected)
           in if ratio \<ge> 3/2 then activityLevelAbove
              else if ratio \<le> 67/100 then activityLevelBelow
              else activityLevelNormal)"

definition activityLevelHasRatio :: "activityLevel \<Rightarrow> bool" where
  "activityLevelHasRatio level \<longleftrightarrow> level = activityLevelAbove \<or> level = activityLevelNormal \<or> level = activityLevelBelow"

definition reachLevelRatio :: real where "reachLevelRatio = 13/10"

definition classifyReachLevel :: "real \<Rightarrow> string" where
  "classifyReachLevel ratio =
     (if ratio \<ge> reachLevelRatio then ''longer''
      else if ratio \<le> 1 / reachLevelRatio then ''shorter''
      else ''typical'')"

definition classifyBandStatus :: "real \<Rightarrow> (real \<times> real) option \<Rightarrow> nat \<Rightarrow> string" where
  \<comment> \<open>the quantiles, when \<open>quantileOK\<close>\<close>
  "classifyBandStatus score quantiles spots =
     (case quantiles of
        None \<Rightarrow> ''grey''
      | Some (q25, q75) \<Rightarrow>
          if spots < 2 then ''grey''
          else if score > q75 then ''green''
          else if score < q25 then ''red''
          else ''yellow'')"

definition classifyOverallStatus :: "real \<Rightarrow> real \<Rightarrow> nat \<Rightarrow> string" where
  "classifyOverallStatus score confidence bands =
     (if bands = 0 \<or> confidence < 15 then ''grey''
      else if score \<ge> 65 then ''green''
      else if score \<ge> 35 then ''yellow''
      else ''red'')"

definition legacyConditionFromStatus :: "string \<Rightarrow> real \<Rightarrow> string" where
  "legacyConditionFromStatus status score =
     (if status = ''green'' then (if score \<ge> 78 then ''Excellent'' else ''Good'')
      else if status = ''yellow'' then ''Fair''
      else if status = ''red'' then ''Poor''
      else ''Poor'')"

definition classifyMode :: "nat \<Rightarrow> nat \<Rightarrow> nat \<Rightarrow> string" where
  "classifyMode ssbCount cwCount n =
     (if n \<le> 0 then ''none''
      else if real ssbCount / real n \<ge> 55/100 then ''ssb''
      else if real cwCount / real n \<ge> 55/100 then ''cw''
      else if n \<ge> 3 then ''digital''
      else ''none'')"

definition classifyRecommendation :: "string \<Rightarrow> string \<Rightarrow> real \<Rightarrow> real \<Rightarrow> real \<Rightarrow> string" where
  "classifyRecommendation status mode dxRatio spotsPerMin confidence =
     (if confidence < 20 \<or> status = ''grey'' then ''Insufficient data''
      else if status = ''green'' \<and> dxRatio \<ge> 4/10
      then (if mode = ''ssb'' then ''Try DX on SSB'' else if mode = ''cw'' then ''Try DX on CW'' else ''Try DX'')
      else if status = ''green'' \<or> status = ''yellow''
      then (if spotsPerMin > 8/10 then ''Band usable now'' else ''Monitor for openings'')
      else ''Avoid for now'')"

definition compassOrder :: "string \<Rightarrow> int" where
  \<comment> \<open>a missing key reads as 0\<close>
  "compassOrder d =
     (case map_of [(''N'', 0), (''NE'', 1), (''E'', 2), (''SE'', 3), (''S'', 4), (''SW'', 5), (''W'', 6), (''NW'', 7)] d of
        Some i \<Rightarrow> i | None \<Rightarrow> 0)"

definition dominantDirection :: "(string \<times> nat) list \<Rightarrow> string" where
  "dominantDirection bins =
     (let (best, bestN) = foldl (\<lambda>(best, bestN) (dir, n).
            if n > bestN \<or> n = bestN \<and> n > 0 \<and> compassOrder dir < compassOrder best then (dir, n) else (best, bestN))
            ([], 0) bins
      in if best = [] then ''-'' else best)"

definition clusterCoverageFromTotals :: "real \<Rightarrow> real \<Rightarrow> real" where
  "clusterCoverageFromTotals clusterSum globalSum =
     (if globalSum \<le> 0 \<or> clusterSum \<le> 0 then 1
      else let c = clusterSum / (2 * globalSum) in if c > 1 then 1 else c)"

section \<open>Reach\<close>

definition slotTiers :: "int \<Rightarrow> baselinePair list \<Rightarrow> int list \<times> int \<times> int" where
  \<comment> \<open>the tiers above the floor, their total, and the total of all tiers\<close>
  "slotTiers cwMinDb ps =
     foldl (\<lambda>(tiers, slotTotal, slotAll) p.
       if DistanceTier p < 0 \<or> DistanceTier p > 4 \<or> \<not> plausibleBaselinePair p then (tiers, slotTotal, slotAll)
       else if snrTierMaxDb (SnrTier p) < cwMinDb then (tiers, slotTotal, slotAll + Count p)
       else (tiers[nat (DistanceTier p) := tiers ! nat (DistanceTier p) + Count p], slotTotal + Count p, slotAll + Count p))
       ([0, 0, 0, 0, 0], 0, 0) ps"

function reach_loop ::
    "(int \<Rightarrow> baselinePair list) \<Rightarrow> real list \<Rightarrow> int \<Rightarrow> int \<Rightarrow> int \<Rightarrow> real list \<Rightarrow> int \<Rightarrow> (real list \<times> int) option" where
  "reach_loop pairsForSlot rates cwMinDb t finish mix support =
     (if t < finish
      then let segEnd = slotSegmentEnd t finish;
               slot = utcSlotOfDay t;
               (tiers, slotTotal, slotAll) = slotTiers cwMinDb (pairsForSlot slot)
           in if slotTotal = 0 then None
              else let weight = rates ! nat slot * of_int (segEnd - t) / 60 * of_int slotTotal / of_int slotAll;
                       mix = map2 (\<lambda>v n. v + weight * of_int n / of_int slotTotal) mix tiers
                   in reach_loop pairsForSlot rates cwMinDb segEnd finish mix (support + slotTotal)
      else Some (mix, support))"
  by pat_completeness auto
termination
proof (relation "measure (\<lambda>(_, _, _, t, finish, _, _). nat (finish - t))", goal_cases)
  case (2 pairsForSlot rates cwMinDb t finish mix support)
  then show ?case using slotSegmentEnd_gt [of t finish] by simp
qed simp

definition reachBaselineP90 :: "(int \<Rightarrow> baselinePair list) \<Rightarrow> real list option \<Rightarrow> int \<Rightarrow> int \<Rightarrow> int \<Rightarrow> (real \<times> int) option" where
  \<comment> \<open>the p90 and its support, when \<open>ok\<close>\<close>
  "reachBaselineP90 pairsForSlot ratesBySlot start finish cwMinDb =
     (case ratesBySlot of None \<Rightarrow> None
      | Some rates \<Rightarrow>
          if int (length rates) \<noteq> SlotsOfDay \<or> finish \<le> start then None
          else map_option (\<lambda>(mix, support). (p90FromTierWeights mix, support))
                 (reach_loop pairsForSlot rates cwMinDb start finish [0, 0, 0, 0, 0] 0))"

section \<open>The series hold the counted spots\<close>

interpretation series: grouping "seriesBand area cwMinDb windowStart now" "\<lambda>_. replicate activityBins 0"
  "\<lambda>m. bump (binIndex windowStart binSec (T m))" "seriesStep area cwMinDb windowStart binSec now"
  by unfold_locales (auto simp: seriesStep_def split: option.split)

lemma binIndex_less: "binIndex windowStart binSec t < activityBins"
  by (auto simp: binIndex_def activityBins_def Let_def)

lemma bump_length [simp]: "length (bump i s) = length s"
  by (simp add: bump_def)

lemma fold_bump_length [simp]: "length (fold (\<lambda>m. bump (f m)) ms s) = length s"
  by (induction ms arbitrary: s) simp_all

lemma fold_bump_nth:
  "\<forall>m \<in> set ms. f m < length s \<Longrightarrow> i < length s \<Longrightarrow>
    fold (\<lambda>m. bump (f m)) ms s ! i = s ! i + real (length (filter (\<lambda>m. f m = i) ms))"
  by (induction ms arbitrary: s) (auto simp: bump_def nth_list_update)

definition countedIn :: "liveArea \<Rightarrow> int \<Rightarrow> int \<Rightarrow> int \<Rightarrow> string \<Rightarrow> MQTTMessage list \<Rightarrow> MQTTMessage list" where
  \<comment> \<open>the spots a series of \<open>band\<close> is about\<close>
  "countedIn area cwMinDb minutes now band ms =
     filter (\<lambda>m. seriesBand area cwMinDb (now - minutes * 60) now m = Some band) ms"

lemma series_map:
  assumes "0 < minutes" "binSec = minutes * 60 div 12"
  shows "map_of (buildActivityByBinFromHistory history (Some area) cwMinDb minutes now) band =
    (let own = countedIn area cwMinDb minutes now band history
     in if own = [] then None
        else Some (map (\<lambda>v. v / (real_of_int binSec / 60))
          (fold (\<lambda>m. bump (binIndex (now - minutes * 60) binSec (T m))) own (replicate activityBins 0))))"
proof -
  have b: "quot (minutes * 60) (int activityBins) = binSec" "0 < binSec"
    using assms by (auto simp: activityBins_def quot_nonneg)
  have m: "map_of (map (\<lambda>(band, s). (band, f s)) xs) k = map_option f (map_of xs k)" for f :: "real list \<Rightarrow> real list" and xs :: "(string \<times> real list) list" and k
    by (induction xs) auto
  show ?thesis
    using assms(1) b(2)
    by (simp add: buildActivityByBinFromHistory_def buildActivityByBinFromHistoryAt_def b(1) m series.run_new countedIn_def Let_def)
qed

theorem series_bins:
  assumes "0 < minutes" "binSec = minutes * 60 div 12" "own = countedIn area cwMinDb minutes now band history"
    and "map_of (buildActivityByBinFromHistory history (Some area) cwMinDb minutes now) band = Some s"
  shows "own \<noteq> [] \<and> length s = 12 \<and> (\<forall>i<12. s ! i =
    real (length (filter (\<lambda>m. binIndex (now - minutes * 60) binSec (T m) = i) own)) / (real_of_int binSec / 60))"
proof -
  define ix where "ix m = binIndex (now - minutes * 60) binSec (T m)" for m :: MQTTMessage
  have own: "own \<noteq> []" and s: "s = map (\<lambda>v. v / (real_of_int binSec / 60)) (fold (\<lambda>m. bump (ix m)) own (replicate 12 0))"
    using assms(4) unfolding series_map [OF assms(1,2)] assms(3) [symmetric] ix_def activityBins_def
    by (simp_all add: Let_def split: if_splits)
  have "fold (\<lambda>m. bump (ix m)) own (replicate 12 0) ! i = real (length (filter (\<lambda>m. ix m = i) own))" if "i < 12" for i
    using fold_bump_nth [of own ix "replicate 12 0" i] that binIndex_less by (simp add: ix_def activityBins_def)
  then show ?thesis using own by (simp add: s ix_def)
qed

lemma length_by_bins:
  "\<forall>m \<in> set ms. f m < n \<Longrightarrow> sum_list (map (\<lambda>i. length (filter (\<lambda>m. f m = i) ms)) [0..<n]) = length ms"
proof (induction ms)
  case (Cons m ms)
  have "sum_list (map (\<lambda>i. length (filter (\<lambda>m. f m = i) (m # ms))) [0..<n]) =
      sum_list (map (\<lambda>i. (if f m = i then 1 else 0) + length (filter (\<lambda>m. f m = i) ms)) [0..<n])"
    by (intro arg_cong [where f = sum_list] map_cong) auto
  also have "\<dots> = sum_list (map (\<lambda>i. if f m = i then 1 else 0) [0..<n]) + length ms"
    using Cons by (simp add: sum_list_addf)
  also have "sum_list (map (\<lambda>i. if f m = i then 1 else 0) [0..<n]) = (1::nat)"
    using Cons.prems by (simp add: interv_sum_list_conv_sum_set_nat)
  finally show ?case by simp
qed simp

lemma real_sum_list: "real (sum_list (map f xs)) = sum_list (map (\<lambda>i. real (f i)) xs)" for f :: "nat \<Rightarrow> nat"
  by (induction xs) simp_all

theorem series_total:
  assumes "0 < minutes" "binSec = minutes * 60 div 12" "own = countedIn area cwMinDb minutes now band history"
    and "map_of (buildActivityByBinFromHistory history (Some area) cwMinDb minutes now) band = Some s"
  shows "sum_list s * (real_of_int binSec / 60) = real (length own)"
proof -
  define ix where "ix m = binIndex (now - minutes * 60) binSec (T m)" for m :: MQTTMessage
  have pos: "0 < real_of_int binSec / 60" using assms(1,2) by auto
  have nth: "length s = 12 \<and> (\<forall>i<12. s ! i = real (length (filter (\<lambda>m. ix m = i) own)) / (real_of_int binSec / 60))"
    using series_bins [OF assms] by (simp add: ix_def)
  have "s = map (\<lambda>i. s ! i) [0..<12]" using nth by (metis map_nth)
  also have "\<dots> = map (\<lambda>i. real (length (filter (\<lambda>m. ix m = i) own)) / (real_of_int binSec / 60)) [0..<12]"
    using nth by (intro map_cong) auto
  finally have "sum_list s = sum_list (map (\<lambda>i. real (length (filter (\<lambda>m. ix m = i) own)) / (real_of_int binSec / 60)) [0..<12])"
    by (rule arg_cong)
  then have "sum_list s * (real_of_int binSec / 60) = sum_list (map (\<lambda>i. real (length (filter (\<lambda>m. ix m = i) own))) [0..<12])"
    using pos by (simp add: sum_list_mult_const [symmetric] comp_def)
  also have "\<dots> = real (sum_list (map (\<lambda>i. length (filter (\<lambda>m. ix m = i) own)) [0..<12]))"
    by (rule real_sum_list [symmetric])
  also have "\<dots> = real (length own)"
    by (rule arg_cong [where f = real], rule length_by_bins) (use binIndex_less in \<open>simp add: ix_def activityBins_def\<close>)
  finally show ?thesis .
qed

text \<open>The series in memory agrees with the one built over the positions of an area's messages.\<close>

lemma series_positions:
  assumes "ps = filter (\<lambda>i. wanted (history ! i)) [0..<length history]"
    and "\<And>m. seriesBand area cwMinDb (now - minutes * 60) now m \<noteq> None \<Longrightarrow> wanted m"
  shows "buildActivityByBinFromHistoryAt history (Some ps) (Some area) cwMinDb minutes now =
    buildActivityByBinFromHistory history (Some area) cwMinDb minutes now"
proof -
  have skip: "foldl (seriesStep area cwMinDb (now - minutes * 60) binSec now) out (map (\<lambda>i. history ! i) (filter (\<lambda>i. wanted (history ! i)) is))
      = foldl (seriesStep area cwMinDb (now - minutes * 60) binSec now) out (map (\<lambda>i. history ! i) is)" for out binSec "is"
  proof (induction "is" arbitrary: out)
    case (Cons i "is")
    have "\<not> wanted (history ! i) \<Longrightarrow> seriesStep area cwMinDb (now - minutes * 60) binSec now out (history ! i) = out"
      using assms(2) [of "history ! i"] by (auto simp: seriesStep_def split: option.split)
    then show ?case using Cons by simp
  qed simp
  show ?thesis
    by (simp add: buildActivityByBinFromHistory_def buildActivityByBinFromHistoryAt_def assms(1) skip map_nth Let_def)
qed

section \<open>Ranges\<close>

lemma goRound_range: "0 \<le> x \<Longrightarrow> x \<le> of_int n \<Longrightarrow> 0 \<le> goRound x \<and> goRound x \<le> n"
  by (simp add: goRound_def) linarith

lemma round2_range: "0 \<le> v \<Longrightarrow> v \<le> of_int n \<Longrightarrow> 0 \<le> round2 v \<and> round2 v \<le> of_int n"
  using goRound_range [of "v * 100" "n * 100"] by (auto simp: round2_def)

lemma round1_range: "0 \<le> v \<Longrightarrow> v \<le> of_int n \<Longrightarrow> 0 \<le> round1 v \<and> round1 v \<le> of_int n"
  using goRound_range [of "v * 10" "n * 10"] by (auto simp: round1_def)

lemma foldl_top: "\<forall>v \<in> set xs. v \<le> foldl (\<lambda>m v. if v > m then v else m) a xs" "a \<le> foldl (\<lambda>m v. if v > m then v else m) (a::real) xs"
proof (induction xs arbitrary: a)
  case (Cons x xs)
  { case 1 show ?case using Cons [of x] Cons [of a] by auto }
  { case 2 show ?case using Cons(2) [of x] Cons(2) [of a] by auto }
qed simp_all

lemma normalizeSeries_range:
  assumes "\<forall>v \<in> set series. 0 \<le> v"
  shows "\<forall>v \<in> set (normalizeSeriesTo100 series). 0 \<le> v \<and> v \<le> 100"
proof -
  define top where "top = foldl (\<lambda>m v. if v > m then v else m) 0 series"
  have "0 \<le> round2 (v / top * 100) \<and> round2 (v / top * 100) \<le> 100" if "v \<in> set series" "\<not> top \<le> 0" for v
  proof -
    have "v \<le> top" using foldl_top(1) that(1) by (auto simp: top_def)
    then have "0 \<le> v / top * 100 \<and> v / top * 100 \<le> of_int 100" using that assms by (auto simp: field_simps)
    then show ?thesis using round2_range [of "v / top * 100" 100] by auto
  qed
  then show ?thesis by (auto simp: normalizeSeriesTo100_def Let_def top_def)
qed

lemma clamp_range: "lo \<le> hi \<Longrightarrow> lo \<le> clamp v lo hi \<and> clamp v lo hi \<le> hi"
  by (simp add: clamp_def)

lemma clamp01_range: "0 \<le> clamp01 v" "clamp01 v \<le> 1"
  by (simp_all add: clamp01_def)

end
