(* ===== verification/Evaluate.thy ===== *)
theory Evaluate
  imports Activity AreaIndex SquareSet Percentile LiveArea Regions
begin

text \<open>
  \<open>evaluateAreaWindow\<close> of dx_conditions.go: the walk over the live window that fills one
  accumulator per band, the condition of a band from its accumulator and its baseline, and the
  response. The package state it reads is \<open>evalEnv\<close>, the Postgres store a \<open>storeView\<close> of the
  results of its queries, \<open>sort.Slice\<close> a parameter known to return a sorted permutation. The
  bands are visited in table order, where the source ranges over a map; only the sort and sums
  see the order. The two facts the rest relies on: the area index changes nothing in the
  answer of the walk (\<open>walk_positions\<close>), and the figures stay in their ranges.
\<close>

section \<open>Accumulators\<close>

type_synonym keySet = "(64 word \<times> 64 word) set"

record bandAccumulator =
  acc_total :: nat
  uniqueLinks :: keySet
  uniqueTx :: keySet
  uniqueRx :: keySet
  uniqueRemote :: "squareSet option"
  totalDistance :: real
  distancesKm :: "real list"
  longHaulCount :: nat
  sumSnr :: int
  acc_snrs :: "int list"
  peakSnr :: int
  ssbCount :: nat
  cwCount :: nat
  directionBins :: "(string \<times> nat) list"
  regionBins :: "(string \<times> nat) list"

definition newAccumulator :: "bool \<Rightarrow> bandAccumulator" where
  "newAccumulator lite = \<lparr>acc_total = 0, uniqueLinks = {}, uniqueTx = {}, uniqueRx = {},
     uniqueRemote = (if lite then None else Some squareSet_empty), totalDistance = 0, distancesKm = [],
     longHaulCount = 0, sumSnr = 0, acc_snrs = [], peakSnr = -999, ssbCount = 0, cwCount = 0,
     directionBins = [], regionBins = []\<rparr>"

definition dxLongHaulThresholdKm :: real where "dxLongHaulThresholdKm = 3000"

definition countKey :: "string \<Rightarrow> (string \<times> nat) list \<Rightarrow> (string \<times> nat) list" where
  \<comment> \<open>\<open>m[k]++\<close>\<close>
  "countKey k m = AList.update k ((case map_of m k of Some n \<Rightarrow> n | None \<Rightarrow> 0) + 1) m"

definition noteSignal :: "bandHit \<Rightarrow> bandAccumulator \<Rightarrow> bandAccumulator" where
  \<comment> \<open>what both modes count of a hit\<close>
  "noteSignal ev acc = acc\<lparr>
     acc_total := acc_total acc + 1,
     totalDistance := totalDistance acc + hit_distanceKm ev,
     distancesKm := distancesKm acc @ [hit_distanceKm ev],
     longHaulCount := (if hit_distanceKm ev \<ge> dxLongHaulThresholdKm then longHaulCount acc + 1 else longHaulCount acc),
     sumSnr := sumSnr acc + hit_snr ev,
     acc_snrs := acc_snrs acc @ [hit_snr ev],
     peakSnr := (if hit_snr ev > peakSnr acc then hit_snr ev else peakSnr acc),
     ssbCount := (if hit_snr ev \<ge> 0 then ssbCount acc + 1 else ssbCount acc),
     cwCount := (if hit_snr ev \<ge> -12 then cwCount acc + 1 else cwCount acc)\<rparr>"

definition noteStations ::
    "(string \<Rightarrow> 64 word) \<Rightarrow> (string \<Rightarrow> 64 word) \<Rightarrow> string \<Rightarrow> bandHit \<Rightarrow> bandAccumulator \<Rightarrow> bandAccumulator" where
  \<comment> \<open>what lite leaves out\<close>
  "noteStations h0 h1 band ev acc =
     (let link = band @ ''|'' @ hit_tx ev @ ''|'' @ hit_rx ev @ ''|'' @ hit_remote ev;
          remote = (if IsLocator (hit_remote ev) then take 4 (hit_remote ev) else []);
          reg = region_FromLocator remote
      in acc\<lparr>
           uniqueLinks := keySet_note h0 h1 (uniqueLinks acc) link,
           uniqueTx := keySet_note h0 h1 (uniqueTx acc) (hit_tx ev),
           uniqueRx := keySet_note h0 h1 (uniqueRx acc) (hit_rx ev),
           uniqueRemote := (if IsLocator (hit_remote ev)
                            then map_option (\<lambda>s. squareSet_add s remote) (uniqueRemote acc) else uniqueRemote acc),
           directionBins := (if hit_direction ev \<noteq> [] then countKey (hit_direction ev) (directionBins acc) else directionBins acc),
           regionBins := (if reg \<noteq> Unknown then countKey (Region_String reg) (regionBins acc) else regionBins acc)\<rparr>)"

section \<open>The walk\<close>

record walkParams =
  w_liveStart :: int
  w_now :: int
  w_cwMinDb :: int
  w_targets :: "string list"
  w_area :: "liveArea option"
  w_cluster :: "(int \<times> int) option"
  w_regionalFromIndex :: bool
  w_lite :: bool
  w_h0 :: "string \<Rightarrow> 64 word"
  w_h1 :: "string \<Rightarrow> 64 word"

record walkState =
  accs :: "bandAccumulator option list"
  localCnt :: "nat list"
  regionalCnt :: "(string \<times> int) list"
  dedupSeen :: keySet

definition walkStart :: "(string \<times> int) list \<Rightarrow> walkState" where
  "walkStart reg = \<lparr>accs = replicate 13 None, localCnt = replicate 13 0, regionalCnt = reg, dedupSeen = {}\<rparr>"

definition addCount :: "string \<Rightarrow> int \<Rightarrow> (string \<times> int) list \<Rightarrow> (string \<times> int) list" where
  "addCount k n m = AList.update k ((case map_of m k of Some v \<Rightarrow> v | None \<Rightarrow> 0) + n) m"

definition countRegional :: "walkParams \<Rightarrow> MQTTMessage \<Rightarrow> (string \<times> int) list \<Rightarrow> (string \<times> int) list" where
  "countRegional p m reg =
     (case w_cluster p of None \<Rightarrow> reg
      | Some (clusterX, clusterY) \<Rightarrow>
          if w_regionalFromIndex p \<or> isNonConditionsMode (MD m) \<or> \<not> feedsClusterBaseline m then reg
          else let n = clusterEndCount m clusterX clusterY
               in if n > 0
                  then let band = normalizeBand (B m) in if band \<noteq> [] then addCount band n reg else reg
                  else reg)"

definition countHit :: "walkParams \<Rightarrow> MQTTMessage \<Rightarrow> nat \<Rightarrow> string \<Rightarrow> bandHit \<Rightarrow> walkState \<Rightarrow> walkState" where
  \<comment> \<open>the rest of the loop body once a message has matched\<close>
  "countHit p m bi band ev st =
     (let st = (if hit_snr ev \<ge> w_cwMinDb p then st\<lparr>localCnt := (localCnt st)[bi := localCnt st ! bi + 1]\<rparr> else st)
      in if isNonConditionsMode (MD m) then st
         else if hit_snr ev < w_cwMinDb p then st
         else let (seen, new) = keySet_add (w_h0 p) (w_h1 p) (dedupSeen st) (hit_key ev);
                  st = st\<lparr>dedupSeen := seen\<rparr>
              in if \<not> new then st
                 else let acc = (case accs st ! bi of Some acc \<Rightarrow> acc | None \<Rightarrow> newAccumulator (w_lite p));
                          acc = noteSignal ev acc;
                          acc = (if w_lite p then acc else noteStations (w_h0 p) (w_h1 p) band ev acc)
                      in st\<lparr>accs := (accs st)[bi := Some acc]\<rparr>)"

definition walkHit :: "walkParams \<Rightarrow> MQTTMessage \<Rightarrow> (nat \<times> string \<times> bandHit) option" where
  \<comment> \<open>the band slot and the event of a message that matches\<close>
  "walkHit p m =
     (let bi = feedBandIndex (B m)
      in if bi < 0 then None
         else let band = inScopeBandNames ! nat bi
              in map_option (\<lambda>ev. (nat bi, band, ev)) (matchBandEvent m (w_targets p) (w_area p) band (w_lite p) []))"

definition walkStep :: "walkParams \<Rightarrow> walkState \<Rightarrow> MQTTMessage \<Rightarrow> walkState" where
  "walkStep p st m =
     (if T m < w_liveStart p \<or> T m > w_now p then st
      else let st = st\<lparr>regionalCnt := countRegional p m (regionalCnt st)\<rparr>
           in case walkHit p m of
                None \<Rightarrow> st
              | Some (bi, band, ev) \<Rightarrow> countHit p m bi band ev st)"

definition walk :: "walkParams \<Rightarrow> (string \<times> int) list \<Rightarrow> MQTTMessage list \<Rightarrow> walkState" where
  "walk p reg visited = foldl (walkStep p) (walkStart reg) visited"

section \<open>The response\<close>

record dxBandCondition =
  c_Band :: string
  c_AreaWidened :: bool
  c_Score :: real
  c_Confidence :: real
  c_Status :: string
  c_Condition :: string
  c_Mode :: string
  c_Recommendation :: string
  c_CurrentLinks :: nat
  c_UniqueLinks :: nat
  c_RepeatRatio :: real
  c_SpotsPerMinute :: real
  c_UniqueTxStations :: nat
  c_UniqueRxStations :: nat
  c_UniqueRemoteGrids :: nat
  c_AvgDistanceKm :: real
  c_MaxDistanceKm :: real
  c_MedianDistanceKm :: real
  c_P90DistanceKm :: real
  c_LongHaulRatio :: real
  c_DxRatio :: real
  c_AvgSnr :: real
  c_PeakSnr :: int
  c_MedianSnr :: real
  c_P90Snr :: real
  c_BaselineActivity :: real
  c_baselineRate :: real
  c_ClusterBaselineUsed :: bool
  c_BaselineActivityBySlot :: "real list option"
  c_BaselineSlotUsedByCluster :: "bool list option"
  c_DominantDirection :: string
  c_AzimuthSectors :: "(string \<times> nat) list"
  c_RegionCounts :: "(string \<times> nat) list"
  c_Trend :: string
  c_TrendDelta :: real
  c_Sparkline :: "real list"
  c_ActivityByBin :: "real list option"
  c_ActivityRatio :: real
  c_ActivityLevel :: activityLevel
  c_RegionalSpots :: int
  c_RegionalExpected :: real
  c_BaselineLocalScale :: real
  c_BaselineP90DistanceKm :: real
  c_ReachRatio :: real
  c_ReachLevel :: string

record dxConditionsResponse =
  r_QTH :: string
  r_Surroundings :: bool
  r_WindowMinutes :: int
  r_CwMinDb :: int
  r_CurrentSlotOfDay :: int
  r_GeneratedAt :: int
  r_OperatorCluster :: string
  r_Area :: "liveArea option"
  r_BaselineBuckets :: nat
  r_BaselineEventCnt :: nat
  r_BaselineHistoryM :: int
  r_ClusterBaselineHistoryM :: int
  r_OverallScore :: real
  r_Confidence :: real
  r_Status :: string
  r_Condition :: string
  r_BestBands :: "string list"
  r_RecommendedBands :: "string list"
  r_WorstBands :: "string list"
  r_AvoidBands :: "string list"
  r_Trend :: string
  r_TrendDelta :: real
  r_Bands :: "dxBandCondition list"
  r_liveSpanMin :: real

section \<open>The baseline of a band\<close>

record bandBaseline =
  bb_activity :: real
  bb_clusterUsed :: bool
  bb_support :: int
  bb_quantiles :: "(real \<times> real) option"
  bb_rates :: "real list option"
  bb_used :: "bool list option"
  bb_clusterPairs :: "int \<Rightarrow> baselinePair list"

definition memoryBaseline :: "DxBaselineEngine \<Rightarrow> string \<Rightarrow> string \<Rightarrow> int \<Rightarrow> int \<Rightarrow> int \<Rightarrow> bandBaseline" where
  "memoryBaseline e operatorCluster band slot historyM clusterHistoryM =
     (let (used, quantiles) = baselineScoreQuantilesForBand (buckets e) (clusterBuckets e) operatorCluster band slot;
          (rates, usedSlots) = baselineActivityForBandAllSlots (buckets e) (clusterBuckets e) operatorCluster band historyM clusterHistoryM
      in \<lparr>bb_activity = fst (baselineActivityForBand (buckets e) (clusterBuckets e) operatorCluster band slot historyM clusterHistoryM),
          bb_clusterUsed = used,
          bb_support = baselineSupportForBand (buckets e) (clusterBuckets e) operatorCluster band slot,
          bb_quantiles = quantiles, bb_rates = Some rates, bb_used = Some usedSlots,
          bb_clusterPairs = clusterPairsFromBuckets (clusterBuckets e) operatorCluster band\<rparr>)"

type_synonym pairsIndex = "string \<times> int \<rightharpoonup> baselinePair list"

definition storeBaseline :: "(pairsIndex option \<times> pairsIndex) option \<Rightarrow> string \<Rightarrow> int \<Rightarrow> int \<Rightarrow> int \<Rightarrow> bandBaseline" where
  \<comment> \<open>\<open>None\<close>: the fetch failed and both indexes are nil\<close>
  "storeBaseline fetched band slot historyM clusterHistoryM =
     (let (clusterIdx, globalIdx) = (case fetched of Some p \<Rightarrow> p | None \<Rightarrow> (None, \<lambda>_. None));
          historyFor = (\<lambda>usedCluster. if usedCluster then clusterHistoryM else historyM);
          rateOf = (\<lambda>slot. case pairsForBandSlot clusterIdx globalIdx band slot of
             (ps, uc) \<Rightarrow> (normalizeBaselineToSpotsPerMinute (of_int (sumPairs ps)) (historyFor uc), uc));
          (pairs, usedCluster) = pairsForBandSlot clusterIdx globalIdx band slot;
          slots = map rateOf [0..47]
      in \<lparr>bb_activity = normalizeBaselineToSpotsPerMinute (of_int (sumPairs pairs)) (historyFor usedCluster),
          bb_clusterUsed = usedCluster, bb_support = sumPairs pairs, bb_quantiles = quantilesFromPairs pairs,
          bb_rates = (if fetched = None then None else Some (map fst slots)),
          bb_used = (if fetched = None then None else Some (map snd slots)),
          bb_clusterPairs = (\<lambda>slot. case pairsForBandSlot clusterIdx (\<lambda>_. None) band slot of (ps, uc) \<Rightarrow> if uc then ps else [])\<rparr>)"

section \<open>The condition of a band\<close>

record bandInput =
  bi_area :: "liveArea option"
  bi_liveStart :: int
  bi_now :: int
  bi_liveSegs :: "(int \<times> int) list"
  bi_liveSpanMin :: real
  bi_cwMinDb :: int
  bi_clusterHistoryM :: int

definition expectedOver :: "bandBaseline \<Rightarrow> (int \<times> int) list \<Rightarrow> real \<times> bool" where
  \<comment> \<open>\<open>regionalExpected\<close> and \<open>expectedOK\<close>\<close>
  "expectedOver bb segs =
     foldl (\<lambda>(total, ok) (a, b).
       case expectedClusterCount (case bb_rates bb of Some r \<Rightarrow> r | None \<Rightarrow> []) (case bb_used bb of Some u \<Rightarrow> u | None \<Rightarrow> []) a b of
         Some n \<Rightarrow> (total + n, ok)
       | None \<Rightarrow> (total, False)) (0, segs \<noteq> []) segs"

definition bandActivity :: "bandInput \<Rightarrow> bandBaseline \<Rightarrow> int \<Rightarrow> real \<times> activityLevel \<times> real" where
  \<comment> \<open>the expectation, the level and the ratio\<close>
  "bandActivity inp bb regionalSpots =
     (let (regionalExpected, expectedOK) = expectedOver bb (bi_liveSegs inp)
      in if expectedOK \<and> regionalExpected > 0 \<and>
            baselineCountForRate (regionalExpected / bi_liveSpanMin inp) (bi_clusterHistoryM inp) \<ge> activityLevelMinSupport
         then (regionalExpected, classifyActivityLevel (of_int regionalSpots) regionalExpected, of_int regionalSpots / regionalExpected)
         else (regionalExpected, activityLevelNoBaseline, 0))"

definition bandReach :: "bandInput \<Rightarrow> bandBaseline \<Rightarrow> bandAccumulator \<Rightarrow> real \<times> real \<times> string" where
  \<comment> \<open>the baseline p90, the ratio and the level\<close>
  "bandReach inp bb acc =
     (case reachBaselineP90 (bb_clusterPairs bb) (bb_rates bb) (bi_liveStart inp) (bi_now inp) (bi_cwMinDb inp) of
        None \<Rightarrow> (0, 0, [])
      | Some (baselineP90, reachSupport) \<Rightarrow>
          if acc_total acc \<ge> reachMinLiveSpots \<and> reachSupport \<ge> reachMinBaselineSupport \<and> baselineP90 > 0
          then let reachRatio = tieredP90 (distancesKm acc) / baselineP90
               in (baselineP90, reachRatio, classifyReachLevel reachRatio)
          else (baselineP90, 0, []))"

definition bandRawScore :: "real \<Rightarrow> real \<Rightarrow> real \<Rightarrow> activityLevel \<Rightarrow> real \<Rightarrow> real" where
  "bandRawScore p90Distance dxRatio activityRatio level p90Snr =
     (let activityNorm = (if activityLevelHasRatio level then clamp01 (activityRatio / 2) else 1/2);
          distanceNorm = clamp01 (p90Distance / 7000 * (7/10) + dxRatio * (3/10));
          snrNorm = clamp01 ((p90Snr + 20) / 30)
      in (45/100 * distanceNorm + 35/100 * activityNorm + 20/100 * snrNorm) * 100)"

definition bandConfidenceFactor :: "nat \<Rightarrow> int \<Rightarrow> bool \<Rightarrow> real" where
  "bandConfidenceFactor links baselineSupport quantileOK =
     (let spotSupport = clamp01 (real links / 25);
          baselineSupportNorm = clamp01 (of_int baselineSupport / 2000);
          factor = spotSupport * (35/100 + 65/100 * baselineSupportNorm)
      in if \<not> quantileOK then factor * (75/100) else factor)"

record scoredBand =
  s_cond :: dxBandCondition
  s_score :: real
  s_confidence :: real
  s_trendDelta :: real

definition bandCondition ::
    "bandInput \<Rightarrow> bandBaseline \<Rightarrow> int \<Rightarrow> nat \<Rightarrow> real list \<Rightarrow> string \<Rightarrow> bandAccumulator \<Rightarrow> scoredBand option" where
  \<comment> \<open>\<open>None\<close> is the panic of a percentile pass\<close>
  "bandCondition inp bb regionalSpots localSpots activityByBin band acc =
     (case (medianAndP90Float (distancesKm acc), medianAndP90Int (acc_snrs acc)) of
        (Some (medianDistance, p90Distance), Some (medianSnr, p90Snr)) \<Rightarrow>
          let total = real (acc_total acc);
              (regionalExpected, activityLevel, activityRatio) = bandActivity inp bb regionalSpots;
              baselineLocalScale = (if regionalSpots > 0 then real localSpots / of_int regionalSpots else 0);
              (baselineP90, reachRatio, reachLevel) = bandReach inp bb acc;
              sparkline = normalizeSeriesTo100 activityByBin;
              (trend, trendDelta) = computeTrend sparkline;
              uniqueCount = card (uniqueLinks acc);
              repeatRatio = (if acc_total acc > 0 then clamp01 ((total - real uniqueCount) / total) else 0);
              spotsPerMin = total / bi_liveSpanMin inp;
              avgDistance = (if acc_total acc > 0 then totalDistance acc / total else 0);
              maxDistance = maxFloat (distancesKm acc);
              longHaulRatio = clamp01 (real (longHaulCount acc) / total);
              dxRatio = longHaulRatio;
              avgSnr = of_int (sumSnr acc) / max 1 total;
              rawScore = bandRawScore p90Distance dxRatio activityRatio activityLevel p90Snr;
              confidenceFactor = bandConfidenceFactor (acc_total acc) (bb_support bb) (bb_quantiles bb \<noteq> None);
              bandScore = clamp (rawScore * confidenceFactor) 0 100;
              bandConfidence = clamp (confidenceFactor * 100) 0 99;
              status = classifyBandStatus bandScore (bb_quantiles bb) (acc_total acc);
              condition = legacyConditionFromStatus status bandScore;
              mode = classifyMode (ssbCount acc) (cwCount acc) (acc_total acc);
              recommendation = classifyRecommendation status mode dxRatio spotsPerMin bandConfidence
          in Some \<lparr>s_cond = \<lparr>
               c_Band = band, c_AreaWidened = widenedBand (bi_area inp) band,
               c_Score = round1 bandScore, c_Confidence = round1 bandConfidence,
               c_Status = status, c_Condition = condition, c_Mode = mode, c_Recommendation = recommendation,
               c_CurrentLinks = acc_total acc, c_UniqueLinks = uniqueCount, c_RepeatRatio = round2 repeatRatio,
               c_SpotsPerMinute = round2 spotsPerMin, c_UniqueTxStations = card (uniqueTx acc),
               c_UniqueRxStations = card (uniqueRx acc), c_UniqueRemoteGrids = squareSet_count (uniqueRemote acc),
               c_AvgDistanceKm = round1 avgDistance, c_MaxDistanceKm = round1 maxDistance,
               c_MedianDistanceKm = round1 medianDistance, c_P90DistanceKm = round1 p90Distance,
               c_LongHaulRatio = round2 longHaulRatio, c_DxRatio = round2 dxRatio, c_AvgSnr = round1 avgSnr,
               c_PeakSnr = peakSnr acc, c_MedianSnr = round1 medianSnr, c_P90Snr = round1 p90Snr,
               c_BaselineActivity = round2 (bb_activity bb), c_baselineRate = bb_activity bb,
               c_ClusterBaselineUsed = bb_clusterUsed bb, c_BaselineActivityBySlot = roundFloats2 (bb_rates bb),
               c_BaselineSlotUsedByCluster = bb_used bb, c_DominantDirection = dominantDirection (directionBins acc),
               c_AzimuthSectors = directionBins acc, c_RegionCounts = regionBins acc, c_Trend = trend,
               c_TrendDelta = trendDelta, c_Sparkline = sparkline, c_ActivityByBin = roundFloats2 (Some activityByBin),
               c_ActivityRatio = round2 activityRatio, c_ActivityLevel = activityLevel, c_RegionalSpots = regionalSpots,
               c_RegionalExpected = round1 regionalExpected, c_BaselineLocalScale = round4 baselineLocalScale,
               c_BaselineP90DistanceKm = round1 baselineP90, c_ReachRatio = round2 reachRatio, c_ReachLevel = reachLevel\<rparr>,
             s_score = bandScore, s_confidence = bandConfidence, s_trendDelta = trendDelta\<rparr>
      | _ \<Rightarrow> None)"

section \<open>The evaluation\<close>

record storeView =
  sv_stats :: "int \<Rightarrow> (nat \<times> nat \<times> int) option"
  sv_coverage :: "int \<Rightarrow> real option"
  sv_pairs :: "string \<Rightarrow> (pairsIndex option \<times> pairsIndex) option"
  sv_activity :: "string list \<Rightarrow> int \<Rightarrow> int \<Rightarrow> int \<Rightarrow> (string \<times> real list) list option"

record evalEnv =
  env_retention :: int
  env_since :: int
  env_gapStart :: int
  env_gapEnd :: int
  env_indexEnabled :: bool
  env_h0 :: "string \<Rightarrow> 64 word"
  env_h1 :: "string \<Rightarrow> 64 word"
  env_sort :: "(dxBandCondition \<Rightarrow> dxBandCondition \<Rightarrow> bool) \<Rightarrow> dxBandCondition list \<Rightarrow> dxBandCondition list"

definition defaultDxWindowMinutes :: int where "defaultDxWindowMinutes = 20"

definition normalizeQTHToken :: "string \<Rightarrow> string" where
  "normalizeQTHToken t = ToUpper (TrimSpace t)"

definition emptyResponse :: "string \<Rightarrow> bool \<Rightarrow> int \<Rightarrow> int \<Rightarrow> int \<Rightarrow> dxConditionsResponse" where
  "emptyResponse qth surroundings minutes cwMin now = \<lparr>
     r_QTH = qth, r_Surroundings = surroundings, r_WindowMinutes = minutes, r_CwMinDb = cwMin,
     r_CurrentSlotOfDay = utcSlotOfDay now, r_GeneratedAt = now, r_OperatorCluster = [], r_Area = None,
     r_BaselineBuckets = 0, r_BaselineEventCnt = 0, r_BaselineHistoryM = 0, r_ClusterBaselineHistoryM = 0,
     r_OverallScore = 0, r_Confidence = 0, r_Status = ''grey'', r_Condition = ''Poor'', r_BestBands = [],
     r_RecommendedBands = [], r_WorstBands = [], r_AvoidBands = [], r_Trend = ''stable'', r_TrendDelta = 0,
     r_Bands = [], r_liveSpanMin = 0\<rparr>"

definition indexLookup ::
    "evalEnv \<Rightarrow> areaIndexCache \<Rightarrow> string \<Rightarrow> bool \<Rightarrow> liveArea option \<Rightarrow> string \<Rightarrow> historyWindow \<Rightarrow> int \<Rightarrow> int
      \<Rightarrow> areaIndexCache \<times> nat list option \<times> int list option" where
  \<comment> \<open>\<open>pos\<close> when \<open>usePos\<close>, and \<open>regionalIdx\<close> when \<open>regionalFromIndex\<close>\<close>
  "indexLookup env cache qth surroundings matchArea operatorCluster win startAt now =
     (if env_indexEnabled env \<and> firstSeq win \<noteq> 0
      then (case areaIndexKeyFor qth surroundings matchArea operatorCluster of
              None \<Rightarrow> (cache, None, None)
            | Some key \<Rightarrow>
                (case cacheLookup (env_retention env) cache key win startAt now of
                   (cache, r) \<Rightarrow> (cache, pos r, if pos r \<noteq> None \<and> regionalOK r then Some (regional r) else None)))
      else (cache, None, None))"

definition regionalFrom :: "int list option \<Rightarrow> (string \<times> int) list" where
  \<comment> \<open>the counts of the index, by band name\<close>
  "regionalFrom idx =
     (case idx of None \<Rightarrow> []
      | Some ns \<Rightarrow> map (\<lambda>i. (inScopeBandNames ! i, ns ! i)) (filter (\<lambda>i. ns ! i > 0) [0..<clusterBandSlots]))"

definition visitedBy :: "historyWindow \<Rightarrow> nat list option \<Rightarrow> int list option \<Rightarrow> MQTTMessage list" where
  \<comment> \<open>the positions only when the regional counts came from the index\<close>
  "visitedBy win ps idx =
     (case (ps, idx) of (Some ps, Some _) \<Rightarrow> map (\<lambda>i. msgs win ! i) ps | _ \<Rightarrow> msgs win)"

definition activityMap ::
    "evalEnv \<Rightarrow> storeView option \<Rightarrow> string \<Rightarrow> bool \<Rightarrow> string list \<Rightarrow> liveArea option \<Rightarrow> historyWindow \<Rightarrow> nat list option
      \<Rightarrow> int \<Rightarrow> int \<Rightarrow> int \<Rightarrow> (string \<times> real list) list" where
  \<comment> \<open>\<open>activityByBinMap\<close>; a nil map reads as the empty one\<close>
  "activityMap env st qth surroundings targets matchArea win ps cwMin minutes now =
     (case (matchArea, st) of
        (Some a, _) \<Rightarrow> buildActivityByBinFromHistoryAt (msgs win) ps (Some a) cwMin minutes now
      | (None, None) \<Rightarrow> []
      | (None, Some store) \<Rightarrow>
          (case hubActivityByBin (env_retention env) (env_since env) qth surroundings (msgs win) ps cwMin minutes now of
             Some m \<Rightarrow> m
           | None \<Rightarrow> (case sv_activity store targets cwMin minutes now of Some m \<Rightarrow> m | None \<Rightarrow> [])))"

definition bandSeries ::
    "DxBaselineEngine \<Rightarrow> (string \<times> real list) list \<Rightarrow> liveArea option \<Rightarrow> string list \<Rightarrow> string \<Rightarrow> int \<Rightarrow> int \<Rightarrow> int \<Rightarrow> real list" where
  "bandSeries e m matchArea targets band cwMin minutes now =
     (case map_of m band of
        Some s \<Rightarrow> s
      | None \<Rightarrow> if matchArea \<noteq> None then replicate activityBins 0
                else buildBandActivityByBin (snapshotEventsLocked e) targets band cwMin minutes now)"

definition betterBand :: "dxBandCondition \<Rightarrow> dxBandCondition \<Rightarrow> bool" where
  "betterBand a b = (if c_Score a = c_Score b then c_Confidence a > c_Confidence b else c_Score a > c_Score b)"

definition worseBand :: "dxBandCondition \<Rightarrow> dxBandCondition \<Rightarrow> bool" where
  "worseBand a b = (if c_Score a = c_Score b then c_Confidence a > c_Confidence b else c_Score a < c_Score b)"

definition summarize ::
    "((dxBandCondition \<Rightarrow> dxBandCondition \<Rightarrow> bool) \<Rightarrow> dxBandCondition list \<Rightarrow> dxBandCondition list) \<Rightarrow>
     scoredBand list \<Rightarrow> dxConditionsResponse \<Rightarrow> dxConditionsResponse" where
  \<comment> \<open>the part after the loop over the bands\<close>
  "summarize sortSlice scored resp =
     (let weight = (\<lambda>s. real (c_CurrentLinks (s_cond s)));
          totalWeight = sum_list (map weight scored);
          bands = sortSlice betterBand (map s_cond scored);
          resp = resp\<lparr>r_Bands := bands\<rparr>;
          resp = (if totalWeight > 0
                  then resp\<lparr>r_OverallScore := round1 (sum_list (map (\<lambda>s. s_score s * weight s) scored) / totalWeight),
                            r_Confidence := round1 (sum_list (map (\<lambda>s. s_confidence s * weight s) scored) / totalWeight),
                            r_TrendDelta := round2 (sum_list (map (\<lambda>s. s_trendDelta s * weight s) scored) / totalWeight)\<rparr>
                  else resp);
          status = classifyOverallStatus (r_OverallScore resp) (r_Confidence resp) (length bands);
          worst = take 3 (sortSlice worseBand bands)
      in resp\<lparr>r_Status := status,
              r_Condition := legacyConditionFromStatus status (r_OverallScore resp),
              r_Trend := (if r_TrendDelta resp > 2/10 then ''rising'' else if r_TrendDelta resp < -2/10 then ''falling'' else ''stable''),
              r_BestBands := map c_Band (take 3 bands),
              r_RecommendedBands := map c_Band (filter (\<lambda>b. c_Status b = ''green'' \<or> c_Status b = ''yellow'') (take 3 bands)),
              r_WorstBands := map c_Band worst,
              r_AvoidBands := map c_Band (filter (\<lambda>b. c_Confidence b \<ge> 30 \<and> (c_Status b = ''red'' \<or> c_Status b = ''grey'')) worst)\<rparr>)"

definition clampMinutes :: "int \<Rightarrow> int" where
  "clampMinutes minutes =
     (let minutes = (if minutes \<le> 0 then defaultDxWindowMinutes else minutes)
      in if minutes > maxDxWindowMinutes then maxDxWindowMinutes else minutes)"

definition clampCwMinDb :: "int \<Rightarrow> int" where
  "clampCwMinDb cwMin = (if cwMin < -40 \<or> cwMin > 20 then defaultDxCwViableMinDb else cwMin)"

definition liveStartOf :: "evalEnv \<Rightarrow> int \<Rightarrow> int \<Rightarrow> int" where
  "liveStartOf env minutes now =
     (let startAt = now - liveRateWindowMinutes (env_retention env) minutes * 60
      in if env_since env > startAt \<and> env_since env < now then env_since env else startAt)"

definition baselineHeader :: "DxBaselineEngine \<Rightarrow> storeView option \<Rightarrow> int \<Rightarrow> dxConditionsResponse \<Rightarrow> dxConditionsResponse" where
  \<comment> \<open>the baseline's size and spans\<close>
  "baselineHeader e st now resp =
     (let (nBuckets, nEvents, historyM) =
            (case st of
               None \<Rightarrow> let evs = snapshotEventsLocked e
                       in (length (buckets e) + length (clusterBuckets e), length evs,
                           baselineHistoryMinutes (firstEventAt e) (lastEventAt e) evs now)
             | Some store \<Rightarrow> (case sv_stats store now of Some r \<Rightarrow> r | None \<Rightarrow> (0, 0, 0)));
          coverage = (case st of
               None \<Rightarrow> clusterCoverageFromTotals (sumBucketCounts (clusterBuckets e)) (sumBucketCounts (buckets e))
             | Some store \<Rightarrow> (case sv_coverage store now of Some c \<Rightarrow> c | None \<Rightarrow> 1))
      in resp\<lparr>r_BaselineBuckets := nBuckets, r_BaselineEventCnt := nEvents, r_BaselineHistoryM := historyM,
              r_ClusterBaselineHistoryM := goRound (of_int historyM * coverage)\<rparr>)"

definition walkOf ::
    "evalEnv \<Rightarrow> string \<Rightarrow> bool \<Rightarrow> liveArea option \<Rightarrow> string \<Rightarrow> bool \<Rightarrow> int \<Rightarrow> int \<Rightarrow> int \<Rightarrow> bool \<Rightarrow> walkParams" where
  "walkOf env qth surroundings matchArea operatorCluster lite cwMin startAt now fromIndex = \<lparr>
     w_liveStart = startAt, w_now = now, w_cwMinDb = cwMin, w_targets = QTHSquares qth surroundings,
     w_area = (case matchArea of Some a \<Rightarrow> Some a | None \<Rightarrow> if IsLocator qth then ownSquareArea qth surroundings else None),
     w_cluster = SquareXY operatorCluster, w_regionalFromIndex = fromIndex, w_lite = lite,
     w_h0 = env_h0 env, w_h1 = env_h1 env\<rparr>"

definition foundBands :: "walkState \<Rightarrow> (nat \<times> bandAccumulator) list" where
  \<comment> \<open>\<open>bandAcc\<close>, by band slot\<close>
  "foundBands ws = concat (map (\<lambda>i. case accs ws ! i of None \<Rightarrow> [] | Some acc \<Rightarrow> [(i, acc)]) [0..<clusterBandSlots])"

definition liveInput :: "evalEnv \<Rightarrow> liveArea option \<Rightarrow> int \<Rightarrow> int \<Rightarrow> dxConditionsResponse \<Rightarrow> bandInput" where
  "liveInput env area startAt now resp =
     (let segs = liveSegments (env_gapStart env) (env_gapEnd env) startAt now
      in \<lparr>bi_area = area, bi_liveStart = startAt, bi_now = now, bi_liveSegs = segs,
          bi_liveSpanMin = max 1 (of_int (sum_list (map (\<lambda>(a, b). b - a) segs)) / 60),
          bi_cwMinDb = r_CwMinDb resp, bi_clusterHistoryM = r_ClusterBaselineHistoryM resp\<rparr>)"

definition bandBaselineOf ::
    "DxBaselineEngine \<Rightarrow> storeView option \<Rightarrow> (pairsIndex option \<times> pairsIndex) option \<Rightarrow> dxConditionsResponse \<Rightarrow> string \<Rightarrow> bandBaseline" where
  "bandBaselineOf e st fetched resp band =
     (case st of
        None \<Rightarrow> memoryBaseline e (r_OperatorCluster resp) band (r_CurrentSlotOfDay resp)
                  (r_BaselineHistoryM resp) (r_ClusterBaselineHistoryM resp)
      | Some _ \<Rightarrow> storeBaseline fetched band (r_CurrentSlotOfDay resp) (r_BaselineHistoryM resp) (r_ClusterBaselineHistoryM resp))"

definition scoreBand ::
    "bandInput \<Rightarrow> (string \<Rightarrow> bandBaseline) \<Rightarrow> (string \<Rightarrow> real list) \<Rightarrow> walkState \<Rightarrow> nat \<times> bandAccumulator \<Rightarrow> scoredBand option" where
  \<comment> \<open>the body of the loop over \<open>bandAcc\<close>\<close>
  "scoreBand inp baseline series ws p =
     (let band = inScopeBandNames ! fst p
      in bandCondition inp (baseline band) (case map_of (regionalCnt ws) band of Some n \<Rightarrow> n | None \<Rightarrow> 0)
           (localCnt ws ! fst p) (series band) band (snd p))"

definition conditionsOf ::
    "evalEnv \<Rightarrow> DxBaselineEngine \<Rightarrow> storeView option \<Rightarrow> liveArea option \<Rightarrow> liveArea option \<Rightarrow> string list \<Rightarrow>
     (string \<times> real list) list \<Rightarrow> int \<Rightarrow> int \<Rightarrow> dxConditionsResponse \<Rightarrow> walkState \<Rightarrow> dxConditionsResponse option" where
  \<comment> \<open>the loop over the bands that have an accumulator, and the summary\<close>
  "conditionsOf env e st area matchArea targets series startAt now resp ws =
     (let inp = liveInput env area startAt now resp;
          resp = resp\<lparr>r_liveSpanMin := bi_liveSpanMin inp\<rparr>;
          fetched = (case st of None \<Rightarrow> None | Some store \<Rightarrow> sv_pairs store (r_OperatorCluster resp))
      in if foundBands ws = [] then Some resp
         else map_option (\<lambda>scored. summarize (env_sort env) scored resp)
           (those (map
              (scoreBand inp (bandBaselineOf e st fetched resp)
                 (\<lambda>band. bandSeries e series matchArea targets band (r_CwMinDb resp) (r_WindowMinutes resp) now) ws)
              (filter (\<lambda>p. acc_total (snd p) \<noteq> 0) (foundBands ws)))))"

definition evaluateAreaWindow ::
    "evalEnv \<Rightarrow> DxBaselineEngine \<Rightarrow> storeView option \<Rightarrow> areaIndexCache \<Rightarrow> string \<Rightarrow> bool \<Rightarrow> int \<Rightarrow> int \<Rightarrow> historyWindow \<Rightarrow> int \<Rightarrow>
     liveArea option \<Rightarrow> bool \<Rightarrow> areaIndexCache \<times> dxConditionsResponse option" where
  \<comment> \<open>\<open>None\<close> is a panic\<close>
  "evaluateAreaWindow env e st cache qth surroundings minutes cwMin win now area lite =
     (let qth = normalizeQTHToken qth; minutes = clampMinutes minutes; cwMin = clampCwMinDb cwMin;
          resp = emptyResponse qth surroundings minutes cwMin now
      in if qth = [] then (cache, Some resp)
         else let operatorCluster = deriveOperatorCluster e qth;
                  matchArea = (case area of Some a \<Rightarrow> if Radius a > 1 then Some a else None | None \<Rightarrow> None);
                  surroundings = (case area of Some a \<Rightarrow> if matchArea = None then Radius a = 1 else surroundings | None \<Rightarrow> surroundings);
                  targets = QTHSquares qth surroundings;
                  startAt = liveStartOf env minutes now;
                  (cache, ps, idx) = indexLookup env cache qth surroundings matchArea operatorCluster win startAt now;
                  resp = baselineHeader e st now (resp\<lparr>r_OperatorCluster := operatorCluster, r_Area := area\<rparr>);
                  series = activityMap env st qth surroundings targets matchArea win ps cwMin minutes now;
                  ws = walk (walkOf env qth surroundings matchArea operatorCluster lite cwMin startAt now (idx \<noteq> None))
                         (regionalFrom idx) (visitedBy win ps idx)
              in (cache, conditionsOf env e st area matchArea targets series startAt now resp ws))"

definition EvaluateAreaWindow ::
    "evalEnv \<Rightarrow> DxBaselineEngine \<Rightarrow> storeView option \<Rightarrow> areaIndexCache \<Rightarrow> string \<Rightarrow> bool \<Rightarrow> int \<Rightarrow> int \<Rightarrow> historyWindow \<Rightarrow> int \<Rightarrow>
     liveArea option \<Rightarrow> areaIndexCache \<times> dxConditionsResponse option" where
  "EvaluateAreaWindow env e st cache qth surroundings minutes cwMin win now area =
     evaluateAreaWindow env e st cache qth surroundings minutes cwMin win now area False"

definition EvaluateArea ::
    "evalEnv \<Rightarrow> DxBaselineEngine \<Rightarrow> storeView option \<Rightarrow> areaIndexCache \<Rightarrow> string \<Rightarrow> bool \<Rightarrow> int \<Rightarrow> int \<Rightarrow> MQTTMessage list \<Rightarrow> int \<Rightarrow>
     liveArea option \<Rightarrow> areaIndexCache \<times> dxConditionsResponse option" where
  "EvaluateArea env e st cache qth surroundings minutes cwMin history now area =
     EvaluateAreaWindow env e st cache qth surroundings minutes cwMin \<lparr>msgs = history, firstSeq = 0, hubFirst = 0\<rparr> now area"

end
