(* ===== verification/WindowScan.thy ===== *)
theory WindowScan
  imports Evaluate
begin

text \<open>
  What the walk of \<open>evaluateAreaWindow\<close> computes. The part that fills the accumulators skips
  every message the area does not want (\<open>hits_positions\<close>), the part that counts the
  operator's cluster is a sum per band (\<open>regional_count\<close>), so an evaluation over the positions
  and counts of the area index is the evaluation over the whole window
  (\<open>index_changes_nothing\<close>).
\<close>

section \<open>The two halves of a step\<close>

definition inLive :: "walkParams \<Rightarrow> MQTTMessage \<Rightarrow> bool" where
  "inLive p m \<longleftrightarrow> w_liveStart p \<le> T m \<and> T m \<le> w_now p"

definition hitStep :: "walkParams \<Rightarrow> walkState \<Rightarrow> MQTTMessage \<Rightarrow> walkState" where
  "hitStep p st m =
     (if inLive p m then (case walkHit p m of None \<Rightarrow> st | Some (bi, band, ev) \<Rightarrow> countHit p m bi band ev st) else st)"

definition regStep :: "walkParams \<Rightarrow> (string \<times> int) list \<Rightarrow> MQTTMessage \<Rightarrow> (string \<times> int) list" where
  "regStep p reg m = (if inLive p m then countRegional p m reg else reg)"

lemma countHit_reg:
  "countHit p m bi band ev (st\<lparr>regionalCnt := r\<rparr>) = (countHit p m bi band ev st)\<lparr>regionalCnt := r\<rparr>"
  by (simp add: countHit_def Let_def split: prod.split cong: option.case_cong)

lemma countHit_regional [simp]: "regionalCnt (countHit p m bi band ev st) = regionalCnt st"
  by (simp add: countHit_def Let_def split: prod.split cong: option.case_cong)

lemma hitStep_reg: "hitStep p (st\<lparr>regionalCnt := r\<rparr>) m = (hitStep p st m)\<lparr>regionalCnt := r\<rparr>"
  by (simp add: hitStep_def countHit_reg split: option.split prod.split)

lemma walkStep_halves: "walkStep p st m = (hitStep p st m)\<lparr>regionalCnt := regStep p (regionalCnt st) m\<rparr>"
  by (auto simp: walkStep_def hitStep_def regStep_def inLive_def Let_def countHit_reg split: option.split prod.split)

lemma walk_halves:
  "foldl (walkStep p) st ms = (foldl (hitStep p) st ms)\<lparr>regionalCnt := foldl (regStep p) (regionalCnt st) ms\<rparr>"
proof (induction ms arbitrary: st)
  case (Cons m ms)
  have run: "foldl (hitStep p) (st\<lparr>regionalCnt := r\<rparr>) ms = (foldl (hitStep p) st ms)\<lparr>regionalCnt := r\<rparr>" for st r
    by (induction ms arbitrary: st) (simp_all add: hitStep_reg)
  have "foldl (walkStep p) st (m # ms) = foldl (walkStep p) (walkStep p st m) ms" by simp
  also note Cons
  finally show ?case unfolding walkStep_halves run by simp
qed simp

lemma walk_eq:
  "walk p reg ms = (foldl (hitStep p) (walkStart []) ms)\<lparr>regionalCnt := foldl (regStep p) reg ms\<rparr>"
proof -
  have "walkStart reg = (walkStart [])\<lparr>regionalCnt := reg\<rparr>" by (simp add: walkStart_def)
  moreover have "foldl (hitStep p) (st\<lparr>regionalCnt := r\<rparr>) ms = (foldl (hitStep p) st ms)\<lparr>regionalCnt := r\<rparr>" for st r
    by (induction ms arbitrary: st) (simp_all add: hitStep_reg)
  ultimately show ?thesis by (simp add: walk_def walk_halves)
qed

section \<open>Skipping what the area does not want\<close>

lemma foldl_skip:
  assumes "\<And>st m. \<not> W m \<Longrightarrow> f st m = st"
  shows "foldl f st (map (\<lambda>i. ms ! i) (filter (\<lambda>i. W (ms ! i)) [0..<length ms])) = foldl f st ms"
proof -
  have "foldl f st (map (\<lambda>i. ms ! i) (filter (\<lambda>i. W (ms ! i)) is)) = foldl f st (map (\<lambda>i. ms ! i) is)" for "is"
    using assms by (induction "is" arbitrary: st) simp_all
  from this [of "[0..<length ms]"] show ?thesis by (simp add: map_nth)
qed

lemma hits_positions:
  assumes "w_area p = Some a" "k_x k = area_x a" "k_y k = area_y a" "k_radius k = Radius a"
    and "ps = filter (\<lambda>i. wants k (ms ! i)) [0..<length ms]"
  shows "foldl (hitStep p) st (map (\<lambda>i. ms ! i) ps) = foldl (hitStep p) st ms"
  unfolding assms(5)
proof (rule foldl_skip)
  fix st m
  assume "\<not> wants k m"
  then have "matchBandEvent m qths (Some a) band lite kb = None" for qths band lite kb
    using match_wants [OF assms(2-4)] by blast
  then have "walkHit p m = None" by (simp add: walkHit_def Let_def assms(1))
  then show "hitStep p st m = st" by (simp add: hitStep_def)
qed

section \<open>The regional counts\<close>

definition countOf :: "(string \<times> int) list \<Rightarrow> string \<Rightarrow> int" where
  \<comment> \<open>reading a missing key of the map\<close>
  "countOf m band = (case map_of m band of Some n \<Rightarrow> n | None \<Rightarrow> 0)"

lemma countOf_Nil: "countOf [] band = 0"
  by (simp add: countOf_def)

lemma countOf_add: "countOf (addCount k n m) band = countOf m band + (if k = band then n else 0)"
  by (simp add: countOf_def addCount_def update_conv')

lemma inScope_name: "j < 13 \<Longrightarrow> inScopeBandIndex (inScopeBandNames ! j) = int j"
  by (cases j rule: nat.exhaust) (auto simp: inScopeBandNames_def inScopeBandIndex_def less_Suc_eq numeral_eq_Suc)

lemma feedBand_slot: "j < 13 \<Longrightarrow> feedBandIndex raw = int j \<longleftrightarrow> normalizeBand raw = inScopeBandNames ! j"
  using inScope_name inScopeBandIndex_names [of "normalizeBand raw"] by (fastforce simp: feedBandIndex_eq)

lemma InCluster_here: "InCluster s ax ay = end_in (\<lambda>x y. ClusterAnchorXY x y = (ax, ay)) s"
  by (auto simp: InCluster_def end_in_def split: option.split prod.split)

lemma endCount_here:
  "clusterEndCount m ax ay = (let here = (\<lambda>x y. ClusterAnchorXY x y = (ax, ay)); sl = TrimSpace (SL m); rl = TrimSpace (RL m)
     in if sl = [] \<or> rl = [] then 0 else (if end_in here sl then 1 else 0) + (if end_in here rl then 1 else 0))"
  by (simp add: clusterEndCount_def InCluster_here Let_def)

lemma countRegional_step:
  assumes k: "w_cluster p = (if clusterOK k then Some (k_cx k, k_cy k) else None)" and "\<not> w_regionalFromIndex p" "j < 13"
  shows "countOf (countRegional p m reg) (inScopeBandNames ! j) = countOf reg (inScopeBandNames ! j) + contrib k m j"
proof -
  have band: "normalizeBand (B m) \<noteq> []" if "feedBandIndex (B m) = int j"
    using that feedBand_slot [OF assms(3), of "B m"] assms(3) inScope_name [of j] by (auto simp: inScopeBandIndex_def)
  have n: "0 \<le> clusterEndCount m (k_cx k) (k_cy k)" by (simp add: clusterEndCount_def Let_def)
  show ?thesis
    using assms(2,3) feedBand_slot [OF assms(3), of "B m"] inScopeBandIndex_range [of "normalizeBand (B m)"] band
    by (auto simp: countRegional_def k contrib_def classify_def endCount_here Let_def countOf_add feedsClusterBaseline_def feedBandIndex_eq nat_eq_iff
        split: if_splits)
qed

lemma regional_count:
  assumes "w_cluster p = (if clusterOK k then Some (k_cx k, k_cy k) else None)" "\<not> w_regionalFromIndex p" "j < 13"
  shows "countOf (foldl (regStep p) reg ms) (inScopeBandNames ! j) = countOf reg (inScopeBandNames ! j)
    + sum_list (map (\<lambda>m. if inLive p m then contrib k m j else 0) ms)"
  by (induction ms arbitrary: reg) (simp_all add: regStep_def countRegional_step [OF assms])

lemma inScope_inj: "i < 13 \<Longrightarrow> j < 13 \<Longrightarrow> inScopeBandNames ! i = inScopeBandNames ! j \<longleftrightarrow> i = j"
  using inScope_name by (metis of_nat_eq_iff)

lemma countOf_regionalFrom:
  assumes "j < 13"
  shows "countOf (regionalFrom (Some ns)) (inScopeBandNames ! j) = max 0 (ns ! j)"
proof -
  let ?m = "map (\<lambda>i. (inScopeBandNames ! i, ns ! i)) (filter (\<lambda>i. ns ! i > 0) [0..<13])"
  have d: "distinct (map fst ?m)"
    by (auto simp: distinct_map comp_def inj_on_def inScope_inj)
  show ?thesis
  proof (cases "ns ! j > 0")
    case True
    then have "(inScopeBandNames ! j, ns ! j) \<in> set ?m" using assms by auto
    then have "map_of ?m (inScopeBandNames ! j) = Some (ns ! j)" using d by (simp add: map_of_is_SomeI)
    then show ?thesis using True by (simp add: countOf_def regionalFrom_def)
  next
    case False
    then have "inScopeBandNames ! j \<notin> fst ` set ?m" using assms inScope_inj by auto
    then have "map_of ?m (inScopeBandNames ! j) = None" by (simp add: map_of_eq_None_iff)
    then show ?thesis using False by (simp add: countOf_def regionalFrom_def)
  qed
qed

section \<open>The whole evaluation\<close>

definition window_complete :: "(nat \<Rightarrow> MQTTMessage) \<Rightarrow> historyWindow \<Rightarrow> int \<Rightarrow> int \<Rightarrow> bool" where
  \<comment> \<open>no message of the live range is outside the window\<close>
  "window_complete g win startAt now \<longleftrightarrow>
     (\<forall>s. startAt \<le> T (g s) \<and> T (g s) \<le> now \<longrightarrow> firstSeq win \<le> s \<and> s < firstSeq win + length (msgs win))"

lemma sum_window:
  fixes h :: "MQTTMessage \<Rightarrow> int"
  assumes "window_ok g win" "window_complete g win startAt now" "a \<le> firstSeq win" "firstSeq win + length (msgs win) - 1 \<le> b"
  shows "(\<Sum>s\<in>{a..b}. if startAt \<le> T (g s) \<and> T (g s) \<le> now then h (g s) else 0)
    = sum_list (map (\<lambda>m. if startAt \<le> T m \<and> T m \<le> now then h m else 0) (msgs win))"
proof -
  let ?f = "\<lambda>m. if startAt \<le> T m \<and> T m \<le> now then h m else 0" and ?F = "firstSeq win" and ?n = "length (msgs win)"
  have n: "0 < ?n" "\<And>i. i < ?n \<Longrightarrow> msgs win ! i = g (?F + i)" using assms(1) by (auto simp: window_ok_def)
  have "(\<Sum>s\<in>{a..b}. ?f (g s)) = (\<Sum>s\<in>{?F..<?F + ?n}. ?f (g s))"
    by (rule sum.mono_neutral_right) (use assms(2-4) n in \<open>auto simp: window_complete_def\<close>)
  also have "\<dots> = (\<Sum>i\<in>{0..<?n}. ?f (g (i + ?F)))"
    using sum.shift_bounds_nat_ivl [of "\<lambda>s. ?f (g s)" 0 ?F ?n] by (simp add: add.commute)
  also have "\<dots> = (\<Sum>i\<in>{0..<?n}. ?f (msgs win ! i))"
    by (rule sum.cong) (simp_all add: n(2) add.commute)
  also have "\<dots> = sum_list (map ?f (msgs win))"
    by (simp add: sum_list_sum_nth)
  finally show ?thesis .
qed

lemma key_area:
  assumes "areaIndexKeyFor qth s matchArea cl = Some k"
  obtains a where "(case matchArea of Some a \<Rightarrow> Some a | None \<Rightarrow> if IsLocator qth then ownSquareArea qth s else None) = Some a"
    "k_x k = area_x a" "k_y k = area_y a" "k_radius k = Radius a"
proof (rule areaIndexKeyFor_area [OF assms])
  fix a
  assume "(case matchArea of None \<Rightarrow> ownSquareArea qth s | Some b \<Rightarrow> Some b) = Some a"
    and "k_x k = area_x a" "k_y k = area_y a" "k_radius k = Radius a"
  moreover have "matchArea = None \<Longrightarrow> IsLocator qth"
    using assms by (auto simp: areaIndexKeyFor_def Let_def split: if_splits)
  ultimately show thesis using that [of a] by (auto split: option.splits)
qed

lemma key_cluster:
  "areaIndexKeyFor qth s matchArea cl = Some k \<Longrightarrow> SquareXY cl = (if clusterOK k then Some (k_cx k, k_cy k) else None)"
  by (auto simp: areaIndexKeyFor_def Let_def split: if_splits option.splits)

text \<open>Trimming a locator does not move it.\<close>

lemma SquareXY_trim:
  assumes "IsLocator s"
  shows "SquareXY (TrimSpace s) = SquareXY s"
  using assms
proof (cases rule: IsLocator_cases)
  case (1 a b c d r)
  have ns: "\<not> is_space a" "\<not> is_space d" using 1 by (auto simp: is_space_def)
  define r' where "r' = rev (dropWhile is_space (rev r))"
  have "rev (dropWhile is_space (rev r @ [d, c, b, a])) = a # b # c # d # r'"
    using ns by (cases "\<forall>x\<in>set r. is_space x") (auto simp: r'_def dropWhile_append)
  then have t: "TrimSpace s = a # b # c # d # r'" using ns by (simp add: TrimSpace_def 1(1))
  have "IsLocator (a # b # c # d # r')" using 1 by (simp add: IsLocator_def bt_def)
  then have "SquareXY (TrimSpace s) = SquareXY (a # b # c # d # r)"
    using assms SquareXY_Cons [of a b c d r'] SquareXY_Cons [of a b c d r] unfolding t by (simp add: 1(1))
  then show ?thesis by (simp add: 1(1))
qed

lemma area_contains_trim: "area_contains a s \<Longrightarrow> area_contains a (TrimSpace s)"
  using SquareXY_trim [of "ToUpper s"] SquareXY_IsLocator [of "ToUpper s"]
  by (auto simp: area_contains_def SquareXYFold_eq TrimSpace_ToUpper [symmetric] split: option.splits)

lemma series_wants:
  assumes "k_x k = area_x a" "k_y k = area_y a" "k_radius k = Radius a" "seriesBand a cwMin start now m \<noteq> None"
  shows "wants k m"
proof -
  have "area_contains a (SL m) \<or> area_contains a (RL m)"
    using assms(4) by (auto simp: seriesBand_def Let_def split: if_splits)
  then show ?thesis unfolding wants_iff end_in_area [OF assms(1-3)] using area_contains_trim by blast
qed

lemma activityMap_positions:
  assumes k: "areaIndexKeyFor qth s matchArea cl = Some k"
    and ps: "ps = filter (\<lambda>i. wants k (msgs win ! i)) [0..<length (msgs win)]"
  shows "activityMap env st qth s targets matchArea win (Some ps) cwMin minutes now
    = activityMap env st qth s targets matchArea win None cwMin minutes now"
proof -
  have built: "buildActivityByBinFromHistoryAt (msgs win) (Some ps) (Some a) cwMin minutes now
      = buildActivityByBinFromHistoryAt (msgs win) None (Some a) cwMin minutes now"
    if "k_x k = area_x a" "k_y k = area_y a" "k_radius k = Radius a" for a
    using series_positions [OF ps series_wants [OF that]] by (simp add: buildActivityByBinFromHistory_def)
  obtain a where a: "(case matchArea of Some a \<Rightarrow> Some a | None \<Rightarrow> if IsLocator qth then ownSquareArea qth s else None) = Some a"
    "k_x k = area_x a" "k_y k = area_y a" "k_radius k = Radius a" by (rule key_area [OF k])
  show ?thesis
    using a(1) built [OF a(2-4)]
    by (auto simp: activityMap_def hubActivityByBin_def split: option.splits if_splits)
qed

lemma foundBands_slot: "p \<in> set (foundBands ws) \<Longrightarrow> fst p < 13 \<and> accs ws ! fst p = Some (snd p)"
  by (auto simp: foundBands_def split: option.splits)

lemma scoreBand_cong:
  assumes "localCnt ws = localCnt ws'" "fst p < 13"
    "\<And>j. j < 13 \<Longrightarrow> countOf (regionalCnt ws) (inScopeBandNames ! j) = countOf (regionalCnt ws') (inScopeBandNames ! j)"
  shows "scoreBand inp bl series ws p = scoreBand inp bl series ws' p"
  using assms by (simp add: scoreBand_def Let_def flip: countOf_def)

lemma conditionsOf_cong:
  assumes "accs ws = accs ws'" "localCnt ws = localCnt ws'"
    "\<And>j. j < 13 \<Longrightarrow> countOf (regionalCnt ws) (inScopeBandNames ! j) = countOf (regionalCnt ws') (inScopeBandNames ! j)"
  shows "conditionsOf env e st area matchArea targets series startAt now resp ws
    = conditionsOf env e st area matchArea targets series startAt now resp ws'"
proof -
  have f: "foundBands ws = foundBands ws'" by (simp add: foundBands_def assms(1))
  have m: "map (scoreBand inp bl sr ws) (filter Q (foundBands ws')) = map (scoreBand inp bl sr ws') (filter Q (foundBands ws'))" for inp bl sr Q
    by (rule map_cong [OF refl], rule scoreBand_cong [OF assms(2) _ assms(3)]) (use foundBands_slot in auto)
  show ?thesis unfolding conditionsOf_def Let_def f m ..
qed

definition sameScan :: "walkState \<Rightarrow> walkState \<Rightarrow> bool" where
  \<comment> \<open>the states agree wherever the response reads them\<close>
  "sameScan ws ws' \<longleftrightarrow> accs ws = accs ws' \<and> localCnt ws = localCnt ws' \<and>
     (\<forall>j<13. countOf (regionalCnt ws) (inScopeBandNames ! j) = countOf (regionalCnt ws') (inScopeBandNames ! j))"

lemma index_flag:
  "inLive (p\<lparr>w_regionalFromIndex := b\<rparr>) m = inLive p m"
  "walkHit (p\<lparr>w_regionalFromIndex := b\<rparr>) m = walkHit p m"
  "countHit (p\<lparr>w_regionalFromIndex := b\<rparr>) m bi band ev st = countHit p m bi band ev st"
  by (simp_all add: inLive_def walkHit_def countHit_def Let_def split: prod.split cong: option.case_cong)

lemma hitStep_flag: "hitStep (p\<lparr>w_regionalFromIndex := b\<rparr>) = hitStep p"
  by (intro ext) (simp only: hitStep_def index_flag)

lemma conditionsOf_same:
  "sameScan ws ws' \<Longrightarrow> conditionsOf env e st area ma targets series startAt now resp ws = conditionsOf env e st area ma targets series startAt now resp ws'"
  by (rule conditionsOf_cong) (simp_all add: sameScan_def)

lemma hitStep_index: "hitStep (walkOf env qth s ma cl lite cw startAt now b) = hitStep (walkOf env qth s ma cl lite cw startAt now b')"
proof -
  have "walkOf env qth s ma cl lite cw startAt now b = (walkOf env qth s ma cl lite cw startAt now b')\<lparr>w_regionalFromIndex := b\<rparr>"
    by (simp add: walkOf_def)
  then show ?thesis by (simp only: hitStep_flag)
qed

lemma regStep_index: "foldl (regStep (walkOf env qth s ma cl lite cw startAt now True)) reg ms = reg"
proof -
  have "regStep (walkOf env qth s ma cl lite cw startAt now True) reg m = reg" for reg m
    by (simp add: regStep_def countRegional_def walkOf_def split: option.split prod.split)
  then show ?thesis by (induction ms) simp_all
qed

lemma walk_index:
  assumes ok: "cache_ok g hz cache" "tick cache < 2 ^ 64 - 2" "window_ok g win"
    and k: "areaIndexKeyFor qth s ma cl = Some k"
    and l: "cacheLookup retention cache k win startAt now = (cache', res)" "pos res = Some ps" "regionalOK res"
    and t: "now \<noteq> 0" "max hz (now - countSpan retention) \<le> startAt" "window_complete g win startAt now"
  shows "sameScan
    (walk (walkOf env qth s ma cl lite cw startAt now True) (regionalFrom (Some (regional res))) (map (\<lambda>i. msgs win ! i) ps))
    (walk (walkOf env qth s ma cl lite cw startAt now False) [] (msgs win))"
proof -
  define p where "p = walkOf env qth s ma cl lite cw startAt now False"
  obtain a where a: "w_area p = Some a" "k_x k = area_x a" "k_y k = area_y a" "k_radius k = Radius a"
    by (rule key_area [OF k]) (auto simp: p_def walkOf_def)
  note lk = cacheLookup_ok [OF ok l(1)]
  have hits: "foldl (hitStep p) st (map (\<lambda>i. msgs win ! i) ps) = foldl (hitStep p) st (msgs win)" for st
    by (rule hits_positions [OF a lk(2) [OF l(2)]])
  have cl: "w_cluster p = (if clusterOK k then Some (k_cx k, k_cy k) else None)" "\<not> w_regionalFromIndex p"
    using key_cluster [OF k] by (simp_all add: p_def walkOf_def)
  have reg: "countOf (regionalFrom (Some (regional res))) (inScopeBandNames ! j) = countOf (foldl (regStep p) [] (msgs win)) (inScopeBandNames ! j)"
    if j: "j < 13" for j
  proof -
    obtain a b where "a \<le> firstSeq win" "firstSeq win + length (msgs win) - 1 \<le> b"
      and r: "regional res ! j = (\<Sum>s\<in>{a..b}. if startAt \<le> T (g s) \<and> T (g s) \<le> now then contrib k (g s) j else 0)"
      using lk(3) [OF l(3) t(2,1)] j by blast
    then have "regional res ! j = sum_list (map (\<lambda>m. if inLive p m then contrib k m j else 0) (msgs win))"
      unfolding r using sum_window [OF ok(3) t(3)] by (simp add: inLive_def p_def walkOf_def)
    moreover have "0 \<le> sum_list (map (\<lambda>m. if inLive p m then contrib k m j else 0) (msgs win))"
      by (rule sum_list_nonneg) (auto simp: contrib_def split: prod.splits)
    ultimately show ?thesis
      using regional_count [OF cl j, of "[]"] by (simp add: countOf_regionalFrom [OF j] countOf_Nil)
  qed
  show ?thesis
    unfolding sameScan_def walk_eq regStep_index hitStep_index [of env qth s ma cl lite cw startAt now True False] p_def [symmetric]
    using hits reg by simp
qed

lemma startAt_span: "now - countSpan (env_retention env) \<le> liveStartOf env (clampMinutes minutes) now"
  by (simp add: liveStartOf_def countSpan_def secondCounts_setSpan_def liveRateWindowMinutes_def clampMinutes_def Let_def
      defaultDxWindowMinutes_def maxDxWindowMinutes_def)

lemma env_index_simps:
  "liveStartOf (env\<lparr>env_indexEnabled := b\<rparr>) = liveStartOf env"
  "activityMap (env\<lparr>env_indexEnabled := b\<rparr>) = activityMap env"
  "walkOf (env\<lparr>env_indexEnabled := b\<rparr>) = walkOf env"
  "conditionsOf (env\<lparr>env_indexEnabled := b\<rparr>) = conditionsOf env"
  by (intro ext; simp add: liveStartOf_def activityMap_def walkOf_def conditionsOf_def liveInput_def Let_def cong: option.case_cong)+

lemma indexLookup_off: "indexLookup (env\<lparr>env_indexEnabled := False\<rparr>) cache qth s ma cl win startAt now = (cache, None, None)"
  by (simp add: indexLookup_def)

lemma lookup_same:
  assumes "cache_ok g hz cache" "tick cache < 2 ^ 64 - 2" "window_ok g win" "now \<noteq> 0"
    and "hz \<le> startAt" "now - countSpan (env_retention env) \<le> startAt" "window_complete g win startAt now"
    and i: "indexLookup env cache qth s ma cl win startAt now = (cache', ps, idx)"
  shows "activityMap env st qth s targets ma win ps cw minutes now = activityMap env st qth s targets ma win None cw minutes now"
    "sameScan (walk (walkOf env qth s ma cl lite cw startAt now (idx \<noteq> None)) (regionalFrom idx) (visitedBy win ps idx))
       (walk (walkOf env qth s ma cl lite cw startAt now False) [] (msgs win))"
proof -
  have hz: "max hz (now - countSpan (env_retention env)) \<le> startAt" using assms(5,6) by simp
  consider "ps = None" "idx = None"
    | k c res where "areaIndexKeyFor qth s ma cl = Some k" "cacheLookup (env_retention env) cache k win startAt now = (c, res)"
        "ps = pos res" "idx = (if pos res \<noteq> None \<and> regionalOK res then Some (regional res) else None)"
  proof (cases "env_indexEnabled env \<and> firstSeq win \<noteq> 0 \<and> areaIndexKeyFor qth s ma cl \<noteq> None")
    case True
    then obtain k where k: "areaIndexKeyFor qth s ma cl = Some k" by blast
    obtain c res where r: "cacheLookup (env_retention env) cache k win startAt now = (c, res)" by fastforce
    show thesis using True i k r by (intro that(2) [OF k r]) (auto simp: indexLookup_def)
  next
    case False
    then show thesis using i by (intro that(1)) (auto simp: indexLookup_def split: option.splits if_splits)
  qed
  then have "activityMap env st qth s targets ma win ps cw minutes now = activityMap env st qth s targets ma win None cw minutes now \<and>
    sameScan (walk (walkOf env qth s ma cl lite cw startAt now (idx \<noteq> None)) (regionalFrom idx) (visitedBy win ps idx))
       (walk (walkOf env qth s ma cl lite cw startAt now False) [] (msgs win))"
  proof cases
    case 1
    then show ?thesis by (simp add: sameScan_def visitedBy_def regionalFrom_def)
  next
    case (2 k c res)
    show ?thesis
    proof (cases "pos res")
      case None
      then show ?thesis using 2 by (simp add: sameScan_def visitedBy_def regionalFrom_def)
    next
      case (Some ps')
      have "activityMap env st qth s targets ma win (Some ps') cw minutes now = activityMap env st qth s targets ma win None cw minutes now"
        by (rule activityMap_positions [OF 2(1) cacheLookup_ok(2) [OF assms(1-3) 2(2) Some]])
      moreover have "regionalOK res \<Longrightarrow> sameScan
          (walk (walkOf env qth s ma cl lite cw startAt now True) (regionalFrom (Some (regional res))) (map (\<lambda>i. msgs win ! i) ps'))
          (walk (walkOf env qth s ma cl lite cw startAt now False) [] (msgs win))"
        by (rule walk_index [OF assms(1-3) 2(1,2) Some _ assms(4) hz assms(7)])
      ultimately show ?thesis using 2(3,4) Some by (simp add: visitedBy_def sameScan_def regionalFrom_def)
    qed
  qed
  then show "activityMap env st qth s targets ma win ps cw minutes now = activityMap env st qth s targets ma win None cw minutes now"
    "sameScan (walk (walkOf env qth s ma cl lite cw startAt now (idx \<noteq> None)) (regionalFrom idx) (visitedBy win ps idx))
       (walk (walkOf env qth s ma cl lite cw startAt now False) [] (msgs win))" by blast+
qed

text \<open>The area index changes nothing in an evaluation.\<close>

lemma index_changes_nothing:
  assumes "cache_ok g hz cache" "tick cache < 2 ^ 64 - 2" "window_ok g win" "now \<noteq> 0"
    and "hz \<le> liveStartOf env (clampMinutes minutes) now"
    and "window_complete g win (liveStartOf env (clampMinutes minutes) now) now"
  shows "snd (evaluateAreaWindow env e st cache qth s minutes cw win now area lite)
    = snd (evaluateAreaWindow (env\<lparr>env_indexEnabled := False\<rparr>) e st cache qth s minutes cw win now area lite)"
proof -
  define q where "q = normalizeQTHToken qth"
  define mins where "mins = clampMinutes minutes"
  define startAt where "startAt = liveStartOf env mins now"
  define ma where "ma = (case area of None \<Rightarrow> None | Some a \<Rightarrow> if 1 < Radius a then Some a else None)"
  define sur where "sur = (case area of None \<Rightarrow> s | Some a \<Rightarrow> if ma = None then Radius a = 1 else s)"
  define cl where "cl = deriveOperatorCluster e q"
  obtain cache' ps idx where l: "indexLookup env cache q sur ma cl win startAt now = (cache', ps, idx)" by (metis prod_cases3)
  note same = lookup_same [OF assms(1-5) startAt_span assms(6) l [unfolded startAt_def mins_def], folded mins_def, folded startAt_def]
  have whole: "((None :: int list option) \<noteq> None) = False" "regionalFrom None = []" "visitedBy win None None = msgs win"
    by (simp_all add: regionalFrom_def visitedBy_def)
  show ?thesis
    unfolding evaluateAreaWindow_def Let_def env_index_simps indexLookup_off q_def [symmetric] mins_def [symmetric]
      startAt_def [symmetric] ma_def [symmetric] sur_def [symmetric] cl_def [symmetric] l prod.case
      snd_conv same(1) whole
    by (cases "q = []") (simp_all only: if_True if_False snd_conv simp_thms conditionsOf_same [OF same(2)])
qed

end
