(* ===== verification/Sorting.thy ===== *)
theory Sorting
  imports Prelude "HOL-Library.Multiset"
begin

text \<open>
  \<open>sort.Slice\<close> and \<open>sort.SliceStable\<close>. What the first promises is \<open>sort_ok\<close>: a permutation in
  which nothing precedes its predecessor. The second is determined by its comparison: \<open>sort_by\<close>
  computes it. The comparisons of the program are strict weak orders, often built from one key
  after the other; the facts about them are proved once in the locale \<open>weak_order\<close>. Strings
  compare byte by byte (\<open>strLess\<close>).
\<close>

section \<open>Sorting\<close>

definition sort_ok :: "('a \<Rightarrow> 'a \<Rightarrow> bool) \<Rightarrow> ('a list \<Rightarrow> 'a list) \<Rightarrow> bool" where
  \<comment> \<open>what \<open>sort.Slice\<close> promises\<close>
  "sort_ok lt srt \<longleftrightarrow> (\<forall>xs. mset (srt xs) = mset xs \<and> sorted_wrt (\<lambda>a b. \<not> lt b a) (srt xs))"

fun insert_by :: "('a \<Rightarrow> 'a \<Rightarrow> bool) \<Rightarrow> 'a \<Rightarrow> 'a list \<Rightarrow> 'a list" where
  "insert_by lt x [] = [x]"
| "insert_by lt x (y # ys) = (if lt y x then y # insert_by lt x ys else x # y # ys)"

definition sort_by :: "('a \<Rightarrow> 'a \<Rightarrow> bool) \<Rightarrow> 'a list \<Rightarrow> 'a list" where
  \<comment> \<open>\<open>sort.SliceStable\<close>\<close>
  "sort_by lt xs = foldr (insert_by lt) xs []"

lemma sort_by_simps [simp]: "sort_by lt [] = []" "sort_by lt (x # xs) = insert_by lt x (sort_by lt xs)"
  by (simp_all add: sort_by_def)

lemma mset_insert_by [simp]: "mset (insert_by lt x ys) = add_mset x (mset ys)"
  by (induction ys) auto

lemma set_insert_by [simp]: "set (insert_by lt x ys) = insert x (set ys)"
  by (metis mset_insert_by set_mset_add_mset_insert set_mset_mset)

lemma mset_sort_by [simp]: "mset (sort_by lt xs) = mset xs"
  by (induction xs) simp_all

lemma set_sort_by [simp]: "set (sort_by lt xs) = set xs"
  by (metis mset_sort_by set_mset_mset)

lemma length_sort_by [simp]: "length (sort_by lt xs) = length xs"
  by (metis mset_sort_by size_mset)

lemma insert_by_map: "(\<And>a b. lt (f a) (f b) = lt a b) \<Longrightarrow> insert_by lt (f x) (map f ys) = map f (insert_by lt x ys)"
  by (induction ys) auto

lemma sort_by_map: "(\<And>a b. lt (f a) (f b) = lt a b) \<Longrightarrow> sort_by lt (map f xs) = map f (sort_by lt xs)"
  by (induction xs) (simp_all add: insert_by_map)

section \<open>Comparisons\<close>

locale weak_order =
  fixes lt :: "'a \<Rightarrow> 'a \<Rightarrow> bool"
  assumes asym: "lt a b \<Longrightarrow> \<not> lt b a"
    and cotrans: "\<not> lt b a \<Longrightarrow> \<not> lt c b \<Longrightarrow> \<not> lt c a"
begin

lemma insert_sorted: "sorted_wrt (\<lambda>a b. \<not> lt b a) ys \<Longrightarrow> sorted_wrt (\<lambda>a b. \<not> lt b a) (insert_by lt x ys)"
proof (induction ys)
  case (Cons y ys)
  have "\<not> lt x y" if "lt y x" using asym [OF that] .
  moreover have "\<not> lt z x" if "\<not> lt y x" "z \<in> set ys" for z
    using cotrans [OF that(1), of z] Cons.prems that(2) by simp
  ultimately show ?case using Cons by (cases "lt y x") auto
qed simp

lemma sorted: "sorted_wrt (\<lambda>a b. \<not> lt b a) (sort_by lt xs)"
  by (induction xs) (simp_all add: insert_sorted)

lemma ok: "sort_ok lt (sort_by lt)"
  by (simp add: sort_ok_def sorted)

lemma insert_ties:
  "P x \<Longrightarrow> (\<And>y. P y \<Longrightarrow> \<not> lt y x) \<Longrightarrow> sorted_wrt (\<lambda>a b. \<not> lt b a) ys \<Longrightarrow>
     filter P (insert_by lt x ys) = x # filter P ys"
  "\<not> P x \<Longrightarrow> filter P (insert_by lt x ys) = filter P ys"
  by (induction ys) auto

lemma stable:
  \<comment> \<open>elements that tie with one another keep their order\<close>
  assumes "\<And>a b. P a \<Longrightarrow> P b \<Longrightarrow> \<not> lt a b"
  shows "filter P (sort_by lt xs) = filter P xs"
proof (induction xs)
  case (Cons x xs)
  then show ?case using assms sorted by (cases "P x") (simp_all add: insert_ties)
qed simp

lemma best:
  \<comment> \<open>what is cut off is not before what is kept\<close>
  assumes "a \<in> set (take n (sort_by lt xs))" "b \<in> set (drop n (sort_by lt xs))"
  shows "\<not> lt b a"
proof -
  have "sorted_wrt (\<lambda>a b. \<not> lt b a) (take n (sort_by lt xs) @ drop n (sort_by lt xs))"
    by (simp only: append_take_drop_id sorted)
  then show ?thesis unfolding sorted_wrt_append using assms by blast
qed

lemma sorted_unique:
  \<comment> \<open>lists of the same elements, sorted, without ties\<close>
  assumes "mset us = mset vs" "sorted_wrt (\<lambda>a b. \<not> lt b a) us" "sorted_wrt (\<lambda>a b. \<not> lt b a) vs"
    "\<And>a b. a \<in> set us \<Longrightarrow> b \<in> set us \<Longrightarrow> \<not> lt a b \<Longrightarrow> \<not> lt b a \<Longrightarrow> a = b"
  shows "us = vs"
  using assms
proof (induction us arbitrary: vs)
  case (Cons u us)
  then obtain v vs' where vs: "vs = v # vs'" by (cases vs) auto
  have "u \<in> set vs" "v \<in> set (u # us)"
    using Cons.prems(1) vs by (metis list.set_intros(1) mset_eq_setD)+
  then have "u = v" using Cons.prems(2,3) Cons.prems(4) [of u v] vs asym by auto
  moreover have "us = vs'" using Cons.IH [of vs'] Cons.prems vs \<open>u = v\<close> by simp
  ultimately show ?case using vs by simp
qed simp

lemma determined:
  \<comment> \<open>without ties the result does not depend on the order given\<close>
  assumes "mset xs = mset ys" "\<And>a b. a \<in> set xs \<Longrightarrow> b \<in> set xs \<Longrightarrow> \<not> lt a b \<Longrightarrow> \<not> lt b a \<Longrightarrow> a = b"
  shows "sort_by lt xs = sort_by lt ys"
  by (rule sorted_unique) (use assms sorted in simp_all)

end

lemma sort_by_ok:
  assumes "\<And>a b. lt a b \<Longrightarrow> \<not> lt b a" "\<And>a b c. \<not> lt b a \<Longrightarrow> \<not> lt c b \<Longrightarrow> \<not> lt c a"
  shows "sort_ok lt (sort_by lt)"
  using assms by (intro weak_order.ok) (unfold_locales, blast+)

lemma weak_order_key:
  \<comment> \<open>a key decides first, another order breaks its ties\<close>
  fixes f :: "'a \<Rightarrow> 'b::linorder"
  assumes "weak_order lt"
  shows "weak_order (\<lambda>a b. if f a \<noteq> f b then f a < f b else lt a b)"
    "weak_order (\<lambda>a b. if f a \<noteq> f b then f a > f b else lt a b)"
proof -
  note a = weak_order.asym [OF assms] and c = weak_order.cotrans [OF assms]
  show "weak_order (\<lambda>a b. if f a \<noteq> f b then f a < f b else lt a b)"
  proof
    show "\<not> (if f b \<noteq> f a then f b < f a else lt b a)" if "if f a \<noteq> f b then f a < f b else lt a b" for a b
      using that a by (cases "f a = f b") auto
    show "\<not> (if f c \<noteq> f a then f c < f a else lt c a)"
      if "\<not> (if f b \<noteq> f a then f b < f a else lt b a)" "\<not> (if f c \<noteq> f b then f c < f b else lt c b)" for a b c
      using that c [of b a c] by (cases "f a = f b"; cases "f b = f c") auto
  qed
  show "weak_order (\<lambda>a b. if f a \<noteq> f b then f a > f b else lt a b)"
  proof
    show "\<not> (if f b \<noteq> f a then f b > f a else lt b a)" if "if f a \<noteq> f b then f a > f b else lt a b" for a b
      using that a by (cases "f a = f b") auto
    show "\<not> (if f c \<noteq> f a then f c > f a else lt c a)"
      if "\<not> (if f b \<noteq> f a then f b > f a else lt b a)" "\<not> (if f c \<noteq> f b then f c > f b else lt c b)" for a b c
      using that c [of b a c] by (cases "f a = f b"; cases "f b = f c") auto
  qed
qed

section \<open>Strings\<close>

fun strLess :: "string \<Rightarrow> string \<Rightarrow> bool" where
  \<comment> \<open>\<open>a < b\<close> on strings\<close>
  "strLess s [] = False"
| "strLess [] (c # t) = True"
| "strLess (a # s) (b # t) = (if byte a \<noteq> byte b then byte a < byte b else strLess s t)"

lemma strLess_asym: "strLess s t \<Longrightarrow> \<not> strLess t s"
  by (induction s t rule: strLess.induct) (auto split: if_splits)

lemma strLess_total: "\<not> strLess s t \<Longrightarrow> \<not> strLess t s \<Longrightarrow> s = t"
proof (induction s t rule: strLess.induct)
  case (1 s)
  then show ?case by (cases s) simp_all
next
  case (3 a s b t)
  have "byte a = byte b" using 3(2,3) by (simp only: strLess.simps split: if_split_asm)
  with 3 show ?case by simp
qed simp

lemma strLess_trans: "strLess r s \<Longrightarrow> strLess s t \<Longrightarrow> strLess r t"
proof (induction r s arbitrary: t rule: strLess.induct)
  case (2 c s)
  then show ?case by (cases t) simp_all
next
  case (3 a s b u)
  then obtain c v where t: "t = c # v" by (cases t) simp_all
  consider "byte a < byte b" "byte b \<le> byte c" | "byte a = byte b" "byte b < byte c"
    | "byte a = byte b" "byte b = byte c" "strLess s u" "strLess u v"
    using 3(2,3) unfolding t strLess.simps by (fastforce simp only: split: if_split_asm)
  then show ?case
  proof cases
    case 3
    with "3.IH" show ?thesis by (simp add: t)
  qed (auto simp: t simp del: of_char_eq_iff)
qed simp

interpretation strings: weak_order strLess
  by unfold_locales (metis strLess_asym, metis strLess_total strLess_trans strLess_asym)

lemma weak_order_on: "weak_order lt \<Longrightarrow> weak_order (\<lambda>a b. lt (f a) (f b))"
  unfolding weak_order_def by blast

end
