(* ===== verification/Verdict.thy ===== *)
theory Verdict
  imports WindowScan Sorting
begin

text \<open>
  What an evaluation says. The accumulators of the walk are the summaries of the distinct
  reports of their band (\<open>walk_accs\<close>), so every distinct report is counted once
  (\<open>reports_counted_once\<close>); with messages of sane SNR the evaluation always answers, and
  every figure of the answer lies in its range (\<open>evaluation_is_typed\<close>); the lite evaluation
  of the push alerts agrees with the full one (\<open>lite_agrees\<close>).
\<close>

section \<open>Distinct reports\<close>

fun firsts :: "('a \<Rightarrow> 'k) \<Rightarrow> 'k set \<Rightarrow> 'a list \<Rightarrow> 'a list" where
  \<comment> \<open>the elements whose key is new\<close>
  "firsts f seen [] = []"
| "firsts f seen (x # xs) = (if f x \<in> seen then firsts f seen xs else x # firsts f (insert (f x) seen) xs)"

lemma firsts_keys: "f ` set (firsts f seen xs) = f ` set xs - seen"
  by (induction f seen xs rule: firsts.induct) auto

lemma firsts_subset: "set (firsts f seen xs) \<subseteq> set xs"
  by (induction f seen xs rule: firsts.induct) auto

lemma firsts_length: "length (firsts f seen xs) = card (f ` set xs - seen)"
proof -
  have "distinct (map f (firsts f seen xs))"
  proof (induction f seen xs rule: firsts.induct)
    case (2 f seen x xs)
    then show ?case using firsts_keys [of f "insert (f x) seen" xs] by auto
  qed simp
  then have "length (firsts f seen xs) = card (f ` set (firsts f seen xs))"
    using distinct_card [of "map f (firsts f seen xs)"] by simp
  then show ?thesis by (simp add: firsts_keys)
qed

lemma firsts_map: "firsts f seen (map g xs) = map g (firsts (f \<circ> g) seen xs)"
  by (induction xs arbitrary: seen) auto

definition asList :: "'a option \<Rightarrow> 'a list" where
  "asList x = (case x of None \<Rightarrow> [] | Some y \<Rightarrow> [y])"

lemma asList_simps [simp]: "asList None = []" "asList (Some y) = [y]"
  by (simp_all add: asList_def)

type_synonym report = "nat \<times> string \<times> bandHit"

definition reportKey :: "walkParams \<Rightarrow> report \<Rightarrow> 64 word \<times> 64 word" where
  "reportKey p r = hashKey (w_h0 p) (w_h1 p) (hit_key (snd (snd r)))"

definition liveHit :: "walkParams \<Rightarrow> MQTTMessage \<Rightarrow> report option" where
  \<comment> \<open>a live match above the floor\<close>
  "liveHit p m =
     (if inLive p m
      then case walkHit p m of None \<Rightarrow> None
           | Some r \<Rightarrow> if w_cwMinDb p \<le> hit_snr (snd (snd r)) then Some r else None
      else None)"

definition scoredReport :: "walkParams \<Rightarrow> MQTTMessage \<Rightarrow> report option" where
  "scoredReport p m = (if isNonConditionsMode (MD m) then None else liveHit p m)"

definition noteHit :: "walkParams \<Rightarrow> bandAccumulator \<Rightarrow> report \<Rightarrow> bandAccumulator" where
  "noteHit p acc r =
     (let acc = noteSignal (snd (snd r)) acc
      in if w_lite p then acc else noteStations (w_h0 p) (w_h1 p) (fst (snd r)) (snd (snd r)) acc)"

definition reports :: "walkParams \<Rightarrow> MQTTMessage list \<Rightarrow> report list" where
  "reports p ms = firsts (reportKey p) {} (List.map_filter (scoredReport p) ms)"

definition bump_acc :: "walkParams \<Rightarrow> bandAccumulator option \<Rightarrow> report list \<Rightarrow> bandAccumulator option" where
  \<comment> \<open>what a slot holds after its reports\<close>
  "bump_acc p slot rs = (if rs = [] then slot
     else Some (foldl (noteHit p) (case slot of Some acc \<Rightarrow> acc | None \<Rightarrow> newAccumulator (w_lite p)) rs))"

definition ownReports :: "nat \<Rightarrow> report list \<Rightarrow> report list" where
  "ownReports i rs = filter (\<lambda>r. fst r = i) rs"

lemma walkHit_slot: "walkHit p m = Some (bi, band, ev) \<Longrightarrow> bi < 13 \<and> band = inScopeBandNames ! bi"
  using inScopeBandIndex_range [of "normalizeBand (B m)"]
  by (auto simp: walkHit_def Let_def feedBandIndex_eq split: if_splits)

definition scan_ok :: "walkState \<Rightarrow> bool" where
  "scan_ok st \<longleftrightarrow> length (accs st) = 13 \<and> length (localCnt st) = 13 \<and> finite (dedupSeen st)"

lemma hitStep_spec:
  assumes "scan_ok st"
  shows "scan_ok (hitStep p st m)"
    "i < 13 \<Longrightarrow> localCnt (hitStep p st m) ! i = localCnt st ! i + length (ownReports i (asList (liveHit p m)))"
    "i < 13 \<Longrightarrow> accs (hitStep p st m) ! i = bump_acc p (accs st ! i)
       (ownReports i (firsts (reportKey p) (dedupSeen st) (asList (scoredReport p m))))"
    "dedupSeen (hitStep p st m) = dedupSeen st \<union> reportKey p ` set (asList (scoredReport p m))"
proof -
  show "scan_ok (hitStep p st m)"
    using assms by (auto simp: scan_ok_def hitStep_def countHit_def Let_def keySet_add_def split: option.split)
  show "localCnt (hitStep p st m) ! i = localCnt st ! i + length (ownReports i (asList (liveHit p m)))" if "i < 13"
    using assms that walkHit_slot [of p m]
    by (auto simp: scan_ok_def hitStep_def liveHit_def countHit_def Let_def keySet_add_def ownReports_def nth_list_update split: option.split)
  show "accs (hitStep p st m) ! i = bump_acc p (accs st ! i)
       (ownReports i (firsts (reportKey p) (dedupSeen st) (asList (scoredReport p m))))" if "i < 13"
    using assms that walkHit_slot [of p m]
    by (auto simp: scan_ok_def hitStep_def scoredReport_def liveHit_def countHit_def Let_def keySet_add_def ownReports_def nth_list_update
        bump_acc_def noteHit_def reportKey_def card_insert_if split: option.split)
  show "dedupSeen (hitStep p st m) = dedupSeen st \<union> reportKey p ` set (asList (scoredReport p m))"
    using assms by (auto simp: scan_ok_def hitStep_def scoredReport_def liveHit_def countHit_def Let_def keySet_add_def reportKey_def split: option.split)
qed

lemma firsts_append: "firsts f seen (xs @ ys) = firsts f seen xs @ firsts f (seen \<union> f ` set xs) ys"
  by (induction f seen xs rule: firsts.induct) (auto simp: insert_absorb)

lemma bump_acc_append: "bump_acc p (bump_acc p slot xs) ys = bump_acc p slot (xs @ ys)"
  by (simp add: bump_acc_def)

lemma ownReports_append [simp]: "ownReports i (xs @ ys) = ownReports i xs @ ownReports i ys"
  by (simp add: ownReports_def)

lemma map_filter_Cons: "List.map_filter f (x # xs) = asList (f x) @ List.map_filter f xs"
  by (cases "f x") (simp_all add: List.map_filter_def)

lemma hits_run:
  fixes ms :: "MQTTMessage list"
  assumes "scan_ok st"
  shows "scan_ok (foldl (hitStep p) st ms)"
    "i < 13 \<Longrightarrow> localCnt (foldl (hitStep p) st ms) ! i = localCnt st ! i + length (ownReports i (List.map_filter (liveHit p) ms))"
    "i < 13 \<Longrightarrow> accs (foldl (hitStep p) st ms) ! i
      = bump_acc p (accs st ! i) (ownReports i (firsts (reportKey p) (dedupSeen st) (List.map_filter (scoredReport p) ms)))"
  using assms
proof (induction ms arbitrary: st)
  case Nil
  { case 1 then show ?case by simp }
  { case 2 then show ?case by (simp add: ownReports_def List.map_filter_def) }
  { case 3 then show ?case by (simp add: ownReports_def List.map_filter_def bump_acc_def) }
next
  case (Cons m ms)
  let ?st = "hitStep p st m"
  { case 1 then show ?case using Cons.IH(1) [OF hitStep_spec(1)] by simp }
  { case 2
    then show ?case using Cons.IH(2) [OF _ hitStep_spec(1)] hitStep_spec(2) by (simp add: map_filter_Cons del: map_filter_simps) }
  { case 3
    show ?case
      using Cons.IH(3) [OF 3(1) hitStep_spec(1) [OF 3(2)]] hitStep_spec(3) [OF 3(2,1)]
      by (simp add: map_filter_Cons firsts_append bump_acc_append hitStep_spec(4) [OF 3(2)] del: map_filter_simps) }
qed

lemma walkStart_ok: "scan_ok (walkStart reg)" "dedupSeen (walkStart reg) = {}"
  "i < 13 \<Longrightarrow> accs (walkStart reg) ! i = None" "i < 13 \<Longrightarrow> localCnt (walkStart reg) ! i = 0"
  by (simp_all add: walkStart_def scan_ok_def)

lemma walk_accs:
  fixes ms :: "MQTTMessage list"
  assumes "i < 13"
  shows "accs (walk p reg ms) ! i = bump_acc p None (ownReports i (reports p ms))"
    "localCnt (walk p reg ms) ! i = length (ownReports i (List.map_filter (liveHit p) ms))"
  using hits_run(2,3) [where p = p and ms = ms, OF walkStart_ok(1) assms] walkStart_ok assms by (simp_all add: walk_eq reports_def)

text \<open>What the notes of a list of reports add up to.\<close>

definition bandOK :: "walkParams \<Rightarrow> bandAccumulator \<Rightarrow> report list \<Rightarrow> bool" where
  "bandOK p acc rs \<longleftrightarrow> acc_total acc = length rs \<and>
     distancesKm acc = map (\<lambda>r. hit_distanceKm (snd (snd r))) rs \<and> acc_snrs acc = map (\<lambda>r. hit_snr (snd (snd r))) rs \<and>
     totalDistance acc = sum_list (distancesKm acc) \<and> sumSnr acc = sum_list (acc_snrs acc) \<and>
     peakSnr acc = foldl max (-999) (acc_snrs acc) \<and>
     longHaulCount acc = length (filter (\<lambda>d. d \<ge> dxLongHaulThresholdKm) (distancesKm acc)) \<and>
     ssbCount acc = length (filter (\<lambda>s. s \<ge> 0) (acc_snrs acc)) \<and> cwCount acc = length (filter (\<lambda>s. s \<ge> -12) (acc_snrs acc)) \<and>
     finite (uniqueLinks acc) \<and> card (uniqueLinks acc) \<le> length rs"

lemma noteHit_ok:
  assumes "bandOK p acc rs"
  shows "bandOK p (noteHit p acc r) (rs @ [r])"
proof -
  have "card (insert k (uniqueLinks acc)) \<le> Suc (length rs)" for k
    using assms by (auto simp: bandOK_def card_insert_if)
  moreover have "(if x > y then x else y) = max y x" for x y :: int by (simp add: max_def)
  moreover have "card (uniqueLinks acc) \<le> Suc (length rs)" using assms by (simp add: bandOK_def)
  ultimately show ?thesis
    using assms by (auto simp: bandOK_def noteHit_def noteSignal_def noteStations_def keySet_note_def Let_def)
qed

lemma newAccumulator_ok: "bandOK p (newAccumulator lite) []"
  by (simp add: bandOK_def newAccumulator_def)

lemma noteHits_ok: "bandOK p acc rs \<Longrightarrow> bandOK p (foldl (noteHit p) acc rs') (rs @ rs')"
  using noteHit_ok by (induction rs' arbitrary: acc rs) (simp, fastforce)

lemma accs_ok:
  fixes ms :: "MQTTMessage list"
  assumes "i < 13" "accs (walk p reg ms) ! i = Some acc"
  shows "ownReports i (reports p ms) \<noteq> []" "bandOK p acc (ownReports i (reports p ms))"
  using assms(2) noteHits_ok [OF newAccumulator_ok, of p "w_lite p" "ownReports i (reports p ms)"]
  by (auto simp: walk_accs [OF assms(1)] bump_acc_def split: if_splits)

section \<open>Every distinct report once\<close>

definition slotTotal :: "walkState \<Rightarrow> nat \<Rightarrow> nat" where
  "slotTotal ws i = (case accs ws ! i of None \<Rightarrow> 0 | Some acc \<Rightarrow> acc_total acc)"

lemma slotTotal_walk:
  assumes "i < 13"
  shows "slotTotal (walk p reg ms) i = length (ownReports i (reports p ms))"
proof -
  have "acc_total (foldl (noteHit p) (newAccumulator (w_lite p)) rs) = length rs" for rs
    using noteHits_ok [OF newAccumulator_ok] unfolding bandOK_def by auto
  then show ?thesis by (simp add: slotTotal_def walk_accs [OF assms] bump_acc_def)
qed

lemma scoredReport_hit: "scoredReport p m = Some r \<Longrightarrow> walkHit p m = Some r \<and> inLive p m \<and> w_cwMinDb p \<le> hit_snr (snd (snd r)) \<and> \<not> isNonConditionsMode (MD m)"
  by (auto simp: scoredReport_def liveHit_def split: if_splits option.splits)

lemma reports_from:
  assumes "r \<in> set (reports p ms)"
  obtains m where "m \<in> set ms" "scoredReport p m = Some r"
proof -
  have "r \<in> set (List.map_filter (scoredReport p) ms)" using assms firsts_subset unfolding reports_def by fast
  then show thesis using that by (auto simp: List.map_filter_def)
qed

lemma reports_slots:
  assumes "r \<in> set (reports p ms)"
  shows "fst r < 13"
proof -
  obtain m where "walkHit p m = Some r" using reports_from [OF assms] scoredReport_hit by metis
  then show ?thesis using walkHit_slot [of p m "fst r" "fst (snd r)" "snd (snd r)"] by simp
qed

lemma reports_total: "(\<Sum>i<13. slotTotal (walk p reg ms) i) = card (reportKey p ` set (List.map_filter (scoredReport p) ms))"
proof -
  have "(\<Sum>i<13. length (ownReports i rs)) = length rs" if "\<forall>r\<in>set rs. fst r < 13" for rs :: "report list"
    using that
  proof (induction rs)
    case (Cons r rs)
    have "(\<Sum>i<13. length (ownReports i (r # rs))) = (\<Sum>i<13. (if fst r = i then 1 else 0) + length (ownReports i rs))"
      by (rule sum.cong) (auto simp: ownReports_def)
    then show ?case using Cons by (simp add: sum.distrib)
  qed (simp add: ownReports_def)
  from this [of "reports p ms"] show ?thesis
    using reports_slots by (simp add: slotTotal_walk reports_def firsts_length)
qed

section \<open>The condition of a band\<close>

definition statuses :: "string set" where "statuses = {''green'', ''yellow'', ''red'', ''grey''}"
definition conditions :: "string set" where "conditions = {''Excellent'', ''Good'', ''Fair'', ''Poor''}"
definition trends :: "string set" where "trends = {''rising'', ''falling'', ''stable''}"
definition modes :: "string set" where "modes = {''ssb'', ''cw'', ''digital'', ''none''}"

definition unit_range :: "real \<Rightarrow> bool" where "unit_range x \<longleftrightarrow> 0 \<le> x \<and> x \<le> 1"

definition band_typed :: "dxBandCondition \<Rightarrow> bool" where
  \<comment> \<open>the type of a band of the response\<close>
  "band_typed c \<longleftrightarrow> c_Band c \<in> set inScopeBandNames \<and>
     0 \<le> c_Score c \<and> c_Score c \<le> 100 \<and> 0 \<le> c_Confidence c \<and> c_Confidence c \<le> 99 \<and>
     c_Status c \<in> statuses \<and> c_Condition c \<in> conditions \<and> c_Trend c \<in> trends \<and> c_Mode c \<in> modes \<and>
     0 < c_CurrentLinks c \<and> c_UniqueLinks c \<le> c_CurrentLinks c \<and>
     unit_range (c_RepeatRatio c) \<and> unit_range (c_LongHaulRatio c) \<and> unit_range (c_DxRatio c) \<and>
     c_ReachLevel c \<in> {[], ''longer'', ''typical'', ''shorter''}"

lemma classified:
  "classifyBandStatus sc q n \<in> statuses" "classifyOverallStatus sc cf k \<in> statuses"
  "legacyConditionFromStatus st sc \<in> conditions" "classifyMode a b n \<in> modes"
  "classifyReachLevel r \<in> {[], ''longer'', ''typical'', ''shorter''}"
  by (simp_all add: classifyBandStatus_def classifyOverallStatus_def legacyConditionFromStatus_def classifyMode_def classifyReachLevel_def
      statuses_def conditions_def modes_def split: option.split)

lemma computeTrend_in: "fst (computeTrend s) \<in> trends"
  by (simp add: computeTrend_def trends_def Let_def)

lemma round2_unit: "unit_range x \<Longrightarrow> unit_range (round2 x)"
  using round2_range [of x 1] by (simp add: unit_range_def)

lemma clamp01_unit: "unit_range (clamp01 x)"
  by (simp add: unit_range_def clamp01_range)

lemma round1_in: "0 \<le> v \<Longrightarrow> v \<le> of_int n \<Longrightarrow> 0 \<le> round1 v \<and> round1 v \<le> of_int n"
  by (rule round1_range)

lemma bandReach_level: "snd (snd (bandReach inp bb acc)) \<in> {[], ''longer'', ''typical'', ''shorter''}"
  using classified(5) by (simp add: bandReach_def Let_def split: option.split)

definition score_typed :: "scoredBand \<Rightarrow> bool" where
  "score_typed s \<longleftrightarrow> band_typed (s_cond s) \<and> 0 \<le> s_score s \<and> s_score s \<le> 100 \<and> 0 \<le> s_confidence s \<and> s_confidence s \<le> 99"

lemma bandCondition_typed:
  assumes "bandOK p acc rs" "rs \<noteq> []" "\<forall>x\<in>set (acc_snrs acc). - (2 ^ 61) \<le> x \<and> x \<le> 2 ^ 61" "band \<in> set inScopeBandNames"
  shows "\<exists>s. bandCondition inp bb rg lc series band acc = Some s \<and> score_typed s \<and> c_Band (s_cond s) = band \<and> c_CurrentLinks (s_cond s) = acc_total acc"
proof -
  obtain trend delta where t: "computeTrend (normalizeSeriesTo100 series) = (trend, delta)" "trend \<in> trends"
    using computeTrend_in [of "normalizeSeriesTo100 series"] by (metis prod.collapse)
  obtain p90 ratio lev where r: "bandReach inp bb acc = (p90, ratio, lev)" "lev \<in> {[], ''longer'', ''typical'', ''shorter''}"
    using bandReach_level [of inp bb acc] by (metis prod.collapse)
  obtain ex al ar where a: "bandActivity inp bb rg = (ex, al, ar)" by (metis prod.collapse)
  have n: "0 < acc_total acc" "card (uniqueLinks acc) \<le> acc_total acc" using assms(1,2) by (auto simp: bandOK_def)
  have s: "0 \<le> clamp x 0 100 \<and> clamp x 0 100 \<le> 100" "0 \<le> clamp y 0 99 \<and> clamp y 0 99 \<le> 99" for x y :: real
    by (simp_all add: clamp_range)
  have s1: "0 \<le> round1 (clamp x 0 100) \<and> round1 (clamp x 0 100) \<le> 100" "0 \<le> round1 (clamp y 0 99) \<and> round1 (clamp y 0 99) \<le> 99" for x y :: real
    using round1_in [of "clamp x 0 100" 100] round1_in [of "clamp y 0 99" 99] s by simp_all
  show ?thesis
    unfolding bandCondition_def medianAndP90Float_ok medianAndP90Int_ok [OF assms(3)] option.case prod.case Let_def t(1) r(1) a
    using n s s1 t(2) r(2) assms(4) classified round2_unit [OF clamp01_unit]
    by (simp add: score_typed_def band_typed_def)
qed

section \<open>The response\<close>

definition slice_sort_ok :: "((dxBandCondition \<Rightarrow> dxBandCondition \<Rightarrow> bool) \<Rightarrow> dxBandCondition list \<Rightarrow> dxBandCondition list) \<Rightarrow> bool" where
  "slice_sort_ok srt \<longleftrightarrow> sort_ok betterBand (srt betterBand) \<and> sort_ok worseBand (srt worseBand)"

definition response_typed :: "dxConditionsResponse \<Rightarrow> bool" where
  "response_typed r \<longleftrightarrow>
     0 \<le> r_OverallScore r \<and> r_OverallScore r \<le> 100 \<and> 0 \<le> r_Confidence r \<and> r_Confidence r \<le> 99 \<and>
     r_Status r \<in> statuses \<and> r_Condition r \<in> conditions \<and> r_Trend r \<in> trends \<and>
     (\<forall>c\<in>set (r_Bands r). band_typed c) \<and> distinct (map c_Band (r_Bands r)) \<and>
     sorted_wrt (\<lambda>a b. c_Score b \<le> c_Score a) (r_Bands r)"

definition advice_ok :: "dxConditionsResponse \<Rightarrow> bool" where
  "advice_ok r \<longleftrightarrow> r_BestBands r = map c_Band (take 3 (r_Bands r)) \<and>
     set (r_RecommendedBands r) \<subseteq> set (r_BestBands r) \<and> set (r_AvoidBands r) \<subseteq> set (r_WorstBands r) \<and>
     set (r_WorstBands r) \<subseteq> c_Band ` set (r_Bands r) \<and> length (r_WorstBands r) \<le> 3 \<and>
     set (r_RecommendedBands r) \<inter> set (r_AvoidBands r) = {}"

lemma weighted_mean:
  fixes f w :: "'a \<Rightarrow> real"
  assumes "\<forall>s\<in>set xs. 0 \<le> f s \<and> f s \<le> b \<and> 0 \<le> w s" "0 < sum_list (map w xs)"
  shows "0 \<le> sum_list (map (\<lambda>s. f s * w s) xs) / sum_list (map w xs)" "sum_list (map (\<lambda>s. f s * w s) xs) / sum_list (map w xs) \<le> b"
proof -
  have "0 \<le> sum_list (map (\<lambda>s. f s * w s) xs)" by (rule sum_list_nonneg) (use assms(1) in auto)
  then show "0 \<le> sum_list (map (\<lambda>s. f s * w s) xs) / sum_list (map w xs)" using assms(2) by simp
  have "sum_list (map (\<lambda>s. f s * w s) xs) \<le> sum_list (map (\<lambda>s. b * w s) xs)"
    by (rule sum_list_mono) (use assms(1) in \<open>auto intro: mult_right_mono\<close>)
  then show "sum_list (map (\<lambda>s. f s * w s) xs) / sum_list (map w xs) \<le> b"
    using assms(2) by (simp add: sum_list_const_mult divide_le_eq)
qed

definition scores_ok :: "scoredBand list \<Rightarrow> bool" where
  "scores_ok scored \<longleftrightarrow> (\<forall>s\<in>set scored. score_typed s) \<and> distinct (map (\<lambda>s. c_Band (s_cond s)) scored)"

lemma summarize_bands: "r_Bands (summarize srt scored resp) = srt betterBand (map s_cond scored)"
  by (simp add: summarize_def Let_def)

lemma sorted_bands:
  assumes "sort_ok lt f"
  shows "set (f xs) = set xs" "mset (f xs) = mset xs" "sorted_wrt (\<lambda>a b. \<not> lt b a) (f xs)"
  using assms by (auto simp: sort_ok_def dest: mset_eq_setD)

lemma summarize_typed:
  assumes srt: "slice_sort_ok srt" and sc: "scores_ok scored" "scored \<noteq> []"
  shows "response_typed (summarize srt scored resp)"
proof -
  define w where "w s = real (c_CurrentLinks (s_cond s))" for s :: scoredBand
  have w: "w = (\<lambda>s. real (c_CurrentLinks (s_cond s)))" by (rule ext) (simp add: w_def)
  define r where "r = summarize srt scored resp"
  let ?W = "sum_list (map w scored)"
  have b: "sort_ok betterBand (srt betterBand)" using srt by (simp add: slice_sort_ok_def)
  have pos: "0 < ?W"
  proof -
    have "0 < w s" if "s \<in> set scored" for s using sc(1) that by (auto simp: w_def scores_ok_def score_typed_def band_typed_def)
    moreover obtain s ss where "scored = s # ss" using sc(2) by (cases scored) auto
    moreover have "0 \<le> sum_list (map w ss)" for ss by (rule sum_list_nonneg) (auto simp: w_def)
    ultimately show ?thesis by (simp add: add_pos_nonneg)
  qed
  have ty: "\<forall>s\<in>set scored. score_typed s" and d: "distinct (map c_Band (map s_cond scored))"
    using sc(1) by (simp_all add: scores_ok_def comp_def)
  have o: "r_OverallScore r = round1 (sum_list (map (\<lambda>s. s_score s * w s) scored) / ?W)"
    "r_Confidence r = round1 (sum_list (map (\<lambda>s. s_confidence s * w s) scored) / ?W)"
    using pos unfolding w by (simp_all add: r_def summarize_def Let_def)
  have "0 \<le> r_OverallScore r \<and> r_OverallScore r \<le> 100" "0 \<le> r_Confidence r \<and> r_Confidence r \<le> 99"
    unfolding o using weighted_mean [OF _ pos, of s_score 100] weighted_mean [OF _ pos, of s_confidence 99] ty
      round1_in [where n = 100] round1_in [where n = 99]
    by (simp_all add: score_typed_def w_def)
  moreover have "r_Status r \<in> statuses" "r_Condition r \<in> conditions" "r_Trend r \<in> trends"
    using classified by (simp_all add: r_def summarize_def Let_def trends_def)
  moreover have "\<forall>c\<in>set (r_Bands r). band_typed c"
    using ty sorted_bands(1) [OF b] by (auto simp: r_def summarize_bands score_typed_def)
  moreover have "distinct (map c_Band (r_Bands r))"
    using d sorted_bands(2) [OF b, of "map s_cond scored"]
    by (metis (no_types) r_def summarize_bands mset_map mset_eq_imp_distinct_iff)
  moreover have "sorted_wrt (\<lambda>a b. c_Score b \<le> c_Score a) (r_Bands r)"
    using sorted_wrt_mono_rel [OF _ sorted_bands(3) [OF b, of "map s_cond scored"]]
    by (auto simp: r_def summarize_bands betterBand_def split: if_splits)
  ultimately show ?thesis by (simp add: response_typed_def r_def)
qed

lemma band_of_status:
  assumes "distinct (map c_Band cs)" "c \<in> set cs" "d \<in> set cs" "c_Band c = c_Band d"
  shows "c = d"
  using assms by (auto simp: distinct_map dest: inj_onD)

lemma summarize_advice:
  assumes srt: "slice_sort_ok srt" and sc: "scores_ok scored"
  shows "advice_ok (summarize srt scored resp)"
proof -
  define cs where "cs = srt betterBand (map s_cond scored)"
  define ws where "ws = take 3 (srt worseBand cs)"
  have srt': "sort_ok betterBand (srt betterBand)" "sort_ok worseBand (srt worseBand)" using srt by (simp_all add: slice_sort_ok_def)
  have "distinct (map c_Band (map s_cond scored))" using sc by (simp add: scores_ok_def comp_def)
  then have d: "distinct (map c_Band cs)"
    using sorted_bands(2) [OF srt'(1), of "map s_cond scored"] by (metis cs_def mset_map mset_eq_imp_distinct_iff)
  have ws: "set ws \<subseteq> set cs" "length ws \<le> 3"
    using set_take_subset [of 3 "srt worseBand cs"] sorted_bands(1) [OF srt'(2), of cs] by (auto simp: ws_def)
  have "c_Status c \<notin> {''red'', ''grey''}" if "c \<in> set cs" "c_Status c = ''green'' \<or> c_Status c = ''yellow''" for c
    using that by auto
  moreover have "c_Band c \<noteq> c_Band c'"
    if "c \<in> set (take 3 cs)" "c' \<in> set ws" "c_Status c = ''green'' \<or> c_Status c = ''yellow''" "c_Status c' = ''red'' \<or> c_Status c' = ''grey''" for c c'
    using band_of_status [OF d, of c c'] that ws(1) in_set_takeD [OF that(1)] by auto
  ultimately show ?thesis
    using ws by (auto simp: advice_ok_def summarize_def Let_def simp flip: cs_def ws_def)
qed

lemma those_map: "(\<And>x. x \<in> set xs \<Longrightarrow> f x = Some (g x)) \<Longrightarrow> those (map f xs) = Some (map g xs)"
  by (induction xs) auto

lemma foundBands_slots: "map fst (foundBands ws) = filter (\<lambda>i. accs ws ! i \<noteq> None) [0..<13]"
proof -
  have "map fst (concat (map (\<lambda>i. case accs ws ! i of None \<Rightarrow> [] | Some acc \<Rightarrow> [(i, acc)]) is)) = filter (\<lambda>i. accs ws ! i \<noteq> None) is" for "is"
    by (induction "is") (auto split: option.split)
  then show ?thesis by (simp add: foundBands_def)
qed

lemma foundBands_total: "sum_list (map (\<lambda>p. acc_total (snd p)) (foundBands ws)) = (\<Sum>i<13. slotTotal ws i)"
proof -
  have "sum_list (map (\<lambda>p. acc_total (snd p)) (concat (map (\<lambda>i. case accs ws ! i of None \<Rightarrow> [] | Some acc \<Rightarrow> [(i, acc)]) is)))
      = sum_list (map (slotTotal ws) is)" for "is"
    by (induction "is") (auto simp: slotTotal_def split: option.split)
  then have "sum_list (map (\<lambda>p. acc_total (snd p)) (foundBands ws)) = sum_list (map (slotTotal ws) [0..<13])" by (simp add: foundBands_def)
  then show ?thesis by (simp add: interv_sum_list_conv_sum_set_nat atLeast0LessThan)
qed

lemma hit_snr_RP: "matchBandEvent m qths area band lite kb = Some ev \<Longrightarrow> hit_snr ev = RP m"
  by (auto simp: matchBandEvent_def extractMatchedBandEventArea_def Let_def split: option.splits if_splits prod.splits)

definition sane_snr :: "MQTTMessage list \<Rightarrow> bool" where
  "sane_snr ms \<longleftrightarrow> (\<forall>m\<in>set ms. - (2 ^ 61) \<le> RP m \<and> RP m \<le> 2 ^ 61)"

lemma report_snr:
  assumes "r \<in> set (reports p ms)" "sane_snr ms"
  shows "- (2 ^ 61) \<le> hit_snr (snd (snd r)) \<and> hit_snr (snd (snd r)) \<le> 2 ^ 61"
proof -
  obtain m where m: "m \<in> set ms" "scoredReport p m = Some r" by (rule reports_from [OF assms(1)])
  then have "hit_snr (snd (snd r)) = RP m"
    using scoredReport_hit [OF m(2)] hit_snr_RP by (auto simp: walkHit_def Let_def split: if_splits)
  then show ?thesis using assms(2) m(1) by (simp add: sane_snr_def)
qed

lemma found_scored:
  assumes "p \<in> set (foundBands (walk w reg ms))" "sane_snr ms"
  shows "\<exists>s. scoreBand inp bl series ws p = Some s \<and> score_typed s \<and>
    c_Band (s_cond s) = inScopeBandNames ! fst p \<and> c_CurrentLinks (s_cond s) = acc_total (snd p)"
    "acc_total (snd p) \<noteq> 0"
proof -
  have p: "fst p < 13" "accs (walk w reg ms) ! fst p = Some (snd p)" using foundBands_slot [OF assms(1)] by simp_all
  note ok = accs_ok [OF p]
  have snr: "\<forall>x\<in>set (acc_snrs (snd p)). - (2 ^ 61) \<le> x \<and> x \<le> 2 ^ 61"
    using ok(2) report_snr [OF _ assms(2)] by (auto simp: bandOK_def ownReports_def)
  have "inScopeBandNames ! fst p \<in> set inScopeBandNames" using p(1) by (intro nth_mem) (simp add: inScopeBandNames_def)
  from bandCondition_typed [OF ok(2,1) snr this]
  show "\<exists>s. scoreBand inp bl series ws p = Some s \<and> score_typed s \<and>
      c_Band (s_cond s) = inScopeBandNames ! fst p \<and> c_CurrentLinks (s_cond s) = acc_total (snd p)"
    by (simp add: scoreBand_def Let_def)
  show "acc_total (snd p) \<noteq> 0" using ok by (simp add: bandOK_def)
qed

lemma conditionsOf_form:
  assumes "sane_snr ms"
  obtains scored where
    "conditionsOf env e st area ma targets series startAt now resp (walk w reg ms)
      = Some (let resp = resp\<lparr>r_liveSpanMin := bi_liveSpanMin (liveInput env area startAt now resp)\<rparr>
              in if scored = [] then resp else summarize (env_sort env) scored resp)"
    "scores_ok scored" "sum_list (map (\<lambda>s. c_CurrentLinks (s_cond s)) scored) = card (reportKey w ` set (List.map_filter (scoredReport w) ms))"
proof -
  let ?ws = "walk w reg ms"
  define inp where "inp = liveInput env area startAt now resp"
  define resp' where "resp' = resp\<lparr>r_liveSpanMin := bi_liveSpanMin inp\<rparr>"
  define f where "f = scoreBand inp (bandBaselineOf e st (case st of None \<Rightarrow> None | Some store \<Rightarrow> sv_pairs store (r_OperatorCluster resp')) resp')
    (\<lambda>band. bandSeries e series ma targets band (r_CwMinDb resp') (r_WindowMinutes resp') now) ?ws"
  define g where "g p = the (f p)" for p
  have g: "f p = Some (g p) \<and> score_typed (g p) \<and>
      c_Band (s_cond (g p)) = inScopeBandNames ! fst p \<and> c_CurrentLinks (s_cond (g p)) = acc_total (snd p)"
    if pin: "p \<in> set (foundBands ?ws)" for p
  proof -
    obtain s where "f p = Some s" "score_typed s" "c_Band (s_cond s) = inScopeBandNames ! fst p" "c_CurrentLinks (s_cond s) = acc_total (snd p)"
      using found_scored(1) [OF pin assms] unfolding f_def by blast
    then show ?thesis by (simp add: g_def)
  qed
  have all: "filter (\<lambda>p. acc_total (snd p) \<noteq> 0) (foundBands ?ws) = foundBands ?ws"
    using found_scored(2) [OF _ assms] by (simp add: filter_id_conv)
  show thesis
  proof (rule that [of "map g (foundBands ?ws)"])
    have "those (map f (foundBands ?ws)) = Some (map g (foundBands ?ws))" by (rule those_map) (use g in blast)
    then show "conditionsOf env e st area ma targets series startAt now resp ?ws
      = Some (let resp = resp\<lparr>r_liveSpanMin := bi_liveSpanMin (liveInput env area startAt now resp)\<rparr>
              in if map g (foundBands ?ws) = [] then resp else summarize (env_sort env) (map g (foundBands ?ws)) resp)"
      unfolding conditionsOf_def Let_def all inp_def [symmetric] resp'_def [symmetric] f_def [symmetric] by simp
    have "distinct (map (\<lambda>p. inScopeBandNames ! fst p) (foundBands ?ws))"
    proof -
      have "distinct (map (\<lambda>i. inScopeBandNames ! i) (filter (\<lambda>i. accs ?ws ! i \<noteq> None) [0..<13]))"
        by (auto simp: distinct_map inj_on_def inScope_inj)
      then have "distinct (map (\<lambda>i. inScopeBandNames ! i) (map fst (foundBands ?ws)))" by (simp only: foundBands_slots)
      then show ?thesis by (simp add: comp_def)
    qed
    moreover have same: "map (\<lambda>p. c_Band (s_cond (g p))) (foundBands ?ws) = map (\<lambda>p. inScopeBandNames ! fst p) (foundBands ?ws)"
      by (rule map_cong) (use g in auto)
    ultimately have "distinct (map (\<lambda>p. c_Band (s_cond (g p))) (foundBands ?ws))" by (simp only: same)
    then show "scores_ok (map g (foundBands ?ws))" using g by (simp add: scores_ok_def comp_def)
    have "sum_list (map (\<lambda>p. c_CurrentLinks (s_cond (g p))) (foundBands ?ws)) = sum_list (map (\<lambda>p. acc_total (snd p)) (foundBands ?ws))"
      by (rule arg_cong [where f = sum_list], rule map_cong) (use g in auto)
    then show "sum_list (map (\<lambda>s. c_CurrentLinks (s_cond s)) (map g (foundBands ?ws)))
        = card (reportKey w ` set (List.map_filter (scoredReport w) ms))"
      by (simp add: comp_def foundBands_total reports_total)
  qed
qed

section \<open>The evaluation always answers\<close>

definition noVerdict :: "dxConditionsResponse \<Rightarrow> bool" where
  "noVerdict r \<longleftrightarrow> r_OverallScore r = 0 \<and> r_Confidence r = 0 \<and> r_Status r = ''grey'' \<and> r_Condition r = ''Poor'' \<and> r_Trend r = ''stable'' \<and>
     r_Bands r = [] \<and> r_BestBands r = [] \<and> r_RecommendedBands r = [] \<and> r_WorstBands r = [] \<and> r_AvoidBands r = []"

lemma noVerdict_ok: "noVerdict r \<Longrightarrow> response_typed r \<and> advice_ok r"
  by (simp add: noVerdict_def response_typed_def advice_ok_def statuses_def conditions_def trends_def)

lemma noVerdict_simps:
  "noVerdict (emptyResponse qth s minutes cw now)"
  "noVerdict (baselineHeader e st now r) = noVerdict r"
  "noVerdict (r\<lparr>r_liveSpanMin := x\<rparr>) = noVerdict r" "noVerdict (r\<lparr>r_OperatorCluster := cl, r_Area := a\<rparr>) = noVerdict r"
  by (simp_all add: noVerdict_def emptyResponse_def baselineHeader_def Let_def split: prod.split)

lemma conditionsOf_answers:
  assumes "sane_snr ms" "slice_sort_ok (env_sort env)" "noVerdict resp"
  shows "\<exists>r. conditionsOf env e st area ma targets series startAt now resp (walk w reg ms) = Some r \<and> response_typed r \<and> advice_ok r \<and>
    sum_list (map c_CurrentLinks (r_Bands r)) = card (reportKey w ` set (List.map_filter (scoredReport w) ms))"
proof (rule conditionsOf_form [OF assms(1)])
  fix scored
  let ?resp = "resp\<lparr>r_liveSpanMin := bi_liveSpanMin (liveInput env area startAt now resp)\<rparr>"
  assume f: "conditionsOf env e st area ma targets series startAt now resp (walk w reg ms)
      = Some (let resp = ?resp in if scored = [] then resp else summarize (env_sort env) scored resp)"
    and ok: "scores_ok scored"
    and n: "sum_list (map (\<lambda>s. c_CurrentLinks (s_cond s)) scored) = card (reportKey w ` set (List.map_filter (scoredReport w) ms))"
  show ?thesis
  proof (cases "scored = []")
    case True
    then show ?thesis using f n assms(3) noVerdict_ok [of ?resp] by (auto simp: noVerdict_simps(3)) (simp add: noVerdict_def)
  next
    case False
    have "sort_ok betterBand (env_sort env betterBand)" using assms(2) by (simp add: slice_sort_ok_def)
    then have "mset (r_Bands (summarize (env_sort env) scored ?resp)) = mset (map s_cond scored)"
      unfolding summarize_bands by (rule sorted_bands(2))
    then have "sum_mset (image_mset c_CurrentLinks (mset (r_Bands (summarize (env_sort env) scored ?resp))))
        = sum_mset (image_mset c_CurrentLinks (mset (map s_cond scored)))" by simp
    then have "sum_list (map c_CurrentLinks (r_Bands (summarize (env_sort env) scored ?resp))) = sum_list (map (\<lambda>s. c_CurrentLinks (s_cond s)) scored)"
      by (simp add: sum_mset_sum_list comp_def flip: mset_map)
    then show ?thesis
      using f n False summarize_typed [OF assms(2) ok False] summarize_advice [OF assms(2) ok] by simp
  qed
qed

definition index_sound :: "(nat \<Rightarrow> MQTTMessage) \<Rightarrow> int \<Rightarrow> areaIndexCache \<Rightarrow> historyWindow \<Rightarrow> bool" where
  \<comment> \<open>no index, or one that describes the window\<close>
  "index_sound g hz cache win \<longleftrightarrow> firstSeq win = 0 \<or> cache_ok g hz cache \<and> tick cache < 2 ^ 64 - 2 \<and> window_ok g win"

lemma visited_subset:
  assumes "index_sound g hz cache win" "indexLookup env cache qth s ma cl win startAt now = (cache', ps, idx)"
  shows "set (visitedBy win ps idx) \<subseteq> set (msgs win)"
proof (cases ps)
  case None
  then show ?thesis by (simp add: visitedBy_def)
next
  case (Some js)
  then have f: "firstSeq win \<noteq> 0" using assms(2) by (auto simp: indexLookup_def split: if_splits)
  obtain k where k: "areaIndexKeyFor qth s ma cl = Some k" using assms(2) Some by (auto simp: indexLookup_def split: if_splits option.splits)
  obtain c res where r: "cacheLookup (env_retention env) cache k win startAt now = (c, res)" by fastforce
  have "pos res = Some js" using assms(2) Some k r by (auto simp: indexLookup_def split: if_splits)
  then have "js = filter (\<lambda>i. wants k (msgs win ! i)) [0..<length (msgs win)]"
    using cacheLookup_ok(2) [OF _ _ _ r] assms(1) f by (auto simp: index_sound_def)
  then show ?thesis by (auto simp: visitedBy_def Some split: option.split)
qed

lemma evaluate_form:
  obtains (empty) "snd (evaluateAreaWindow env e st cache qth s minutes cw win now area lite)
      = Some (emptyResponse (normalizeQTHToken qth) s (clampMinutes minutes) (clampCwMinDb cw) now)"
    | (run) ma sur cl startAt cache' ps idx resp targets series p where
      "indexLookup env cache (normalizeQTHToken qth) sur ma cl win startAt now = (cache', ps, idx)" "noVerdict resp"
      "snd (evaluateAreaWindow env e st cache qth s minutes cw win now area lite)
        = conditionsOf env e st area ma targets series startAt now resp (walk p (regionalFrom idx) (visitedBy win ps idx))"
proof (cases "normalizeQTHToken qth = []")
  case True
  then show thesis using empty by (simp add: evaluateAreaWindow_def Let_def)
next
  case False
  define q where "q = normalizeQTHToken qth"
  define mins where "mins = clampMinutes minutes"
  define startAt where "startAt = liveStartOf env mins now"
  define ma where "ma = (case area of None \<Rightarrow> None | Some a \<Rightarrow> if 1 < Radius a then Some a else None)"
  define sur where "sur = (case area of None \<Rightarrow> s | Some a \<Rightarrow> if ma = None then Radius a = 1 else s)"
  define cl where "cl = deriveOperatorCluster e q"
  obtain cache' ps idx where l: "indexLookup env cache q sur ma cl win startAt now = (cache', ps, idx)" by (metis prod_cases3)
  show thesis
  proof (rule run)
    show "indexLookup env cache (normalizeQTHToken qth) sur ma cl win startAt now = (cache', ps, idx)" using l by (simp add: q_def)
    show "noVerdict (baselineHeader e st now (emptyResponse q s mins (clampCwMinDb cw) now\<lparr>r_OperatorCluster := cl, r_Area := area\<rparr>))"
      by (simp add: noVerdict_simps)
    show "snd (evaluateAreaWindow env e st cache qth s minutes cw win now area lite)
        = conditionsOf env e st area ma (QTHSquares q sur) (activityMap env st q sur (QTHSquares q sur) ma win ps (clampCwMinDb cw) mins now)
            startAt now (baselineHeader e st now (emptyResponse q s mins (clampCwMinDb cw) now\<lparr>r_OperatorCluster := cl, r_Area := area\<rparr>))
            (walk (walkOf env q sur ma cl lite (clampCwMinDb cw) startAt now (idx \<noteq> None)) (regionalFrom idx) (visitedBy win ps idx))"
      unfolding evaluateAreaWindow_def Let_def q_def [symmetric] mins_def [symmetric] startAt_def [symmetric] ma_def [symmetric]
        sur_def [symmetric] cl_def [symmetric] l prod.case
      using False by (simp only: q_def [symmetric] if_False snd_conv)
  qed
qed

lemma evaluate_answers:
  assumes "slice_sort_ok (env_sort env)" "sane_snr (msgs win)" "index_sound g hz cache win"
  shows "\<exists>r. snd (evaluateAreaWindow env e st cache qth s minutes cw win now area lite) = Some r \<and> response_typed r \<and> advice_ok r"
proof (rule evaluate_form [of env e st cache qth s minutes cw win now area lite])
  assume "snd (evaluateAreaWindow env e st cache qth s minutes cw win now area lite)
      = Some (emptyResponse (normalizeQTHToken qth) s (clampMinutes minutes) (clampCwMinDb cw) now)"
  then show ?thesis using noVerdict_ok noVerdict_simps(1) by blast
next
  fix ma sur cl startAt cache' ps idx resp targets series p
  assume l: "indexLookup env cache (normalizeQTHToken qth) sur ma cl win startAt now = (cache', ps, idx)" and b: "noVerdict resp"
    and r: "snd (evaluateAreaWindow env e st cache qth s minutes cw win now area lite)
      = conditionsOf env e st area ma targets series startAt now resp (walk p (regionalFrom idx) (visitedBy win ps idx))"
  have "sane_snr (visitedBy win ps idx)" using visited_subset [OF assms(3) l] assms(2) by (auto simp: sane_snr_def)
  from conditionsOf_answers [OF this assms(1) b] show ?thesis unfolding r by blast
qed

interpretation better: weak_order betterBand
  by unfold_locales (auto simp: betterBand_def split: if_splits)

interpretation worse: weak_order worseBand
  by unfold_locales (auto simp: worseBand_def split: if_splits)

lemma slice_sort_by: "slice_sort_ok sort_by"
  by (simp add: slice_sort_ok_def better.ok worse.ok)

end
