(* ===== verification/Lite.thy ===== *)
theory Lite
  imports Verdict
begin

text \<open>
  The lite evaluation of the push alerts: \<open>evaluateAreaWindow\<close> with \<open>lite\<close> set keeps no
  station sets, directions or regions. Everything else it says is what the full evaluation
  says (\<open>lite_evaluation\<close>), up to the order of bands that tie on both score and confidence,
  which \<open>sort.Slice\<close> leaves open.
\<close>

section \<open>What lite leaves out\<close>

definition alertReport :: "report \<Rightarrow> report" where
  "alertReport r = (fst r, fst (snd r), (snd (snd r))\<lparr>hit_direction := [], hit_tx := [], hit_rx := [], hit_remote := []\<rparr>)"

definition alertAcc :: "bandAccumulator \<Rightarrow> bandAccumulator" where
  "alertAcc acc = acc\<lparr>uniqueLinks := {}, uniqueTx := {}, uniqueRx := {}, uniqueRemote := None, directionBins := [], regionBins := []\<rparr>"

definition alertCond :: "dxBandCondition \<Rightarrow> dxBandCondition" where
  "alertCond c = c\<lparr>c_UniqueLinks := 0, c_RepeatRatio := 0, c_UniqueTxStations := 0, c_UniqueRxStations := 0, c_UniqueRemoteGrids := 0,
     c_DominantDirection := [], c_AzimuthSectors := [], c_RegionCounts := []\<rparr>"

definition alertScored :: "scoredBand \<Rightarrow> scoredBand" where
  "alertScored s = s\<lparr>s_cond := alertCond (s_cond s)\<rparr>"

definition alertResponse :: "dxConditionsResponse \<Rightarrow> dxConditionsResponse" where
  "alertResponse r = r\<lparr>r_Bands := map alertCond (r_Bands r)\<rparr>"

definition bandKey :: "dxBandCondition \<Rightarrow> real \<times> real" where
  \<comment> \<open>what the two comparisons look at\<close>
  "bandKey c = (c_Score c, c_Confidence c)"

definition alertCore :: "dxConditionsResponse \<Rightarrow> dxConditionsResponse \<times> dxBandCondition multiset \<times> (real \<times> real) list" where
  \<comment> \<open>everything but the order of bands that tie\<close>
  "alertCore r = (r\<lparr>r_Bands := [], r_BestBands := [], r_RecommendedBands := [], r_WorstBands := [], r_AvoidBands := []\<rparr>,
     mset (map alertCond (r_Bands r)), map bandKey (r_Bands r))"

definition liteAgrees :: "dxConditionsResponse \<Rightarrow> dxConditionsResponse \<Rightarrow> bool" where
  "liteAgrees r' r \<longleftrightarrow> alertCore r' = alertCore r \<and> (distinct (map bandKey (r_Bands r)) \<longrightarrow> alertResponse r' = alertResponse r)"

lemma liteAgrees_refl: "liteAgrees r r"
  by (simp add: liteAgrees_def)

section \<open>The accumulators\<close>

lemma alertReport_simps [simp]:
  "fst (alertReport r) = fst r" "hit_key (snd (snd (alertReport r))) = hit_key (snd (snd r))"
  "hit_snr (snd (snd (alertReport r))) = hit_snr (snd (snd r))"
  by (simp_all add: alertReport_def)

lemma match_lite:
  "map_option (\<lambda>ev. ev\<lparr>hit_direction := [], hit_tx := [], hit_rx := [], hit_remote := []\<rparr>) (matchBandEvent m qths area band b kb)
    = map_option (\<lambda>ev. ev\<lparr>hit_direction := [], hit_tx := [], hit_rx := [], hit_remote := []\<rparr>) (matchBandEvent m qths area band b' kb)"
  by (simp add: matchBandEvent_def Let_def split: option.split prod.split)

lemma walkHit_lite: "map_option alertReport (walkHit (p\<lparr>w_lite := b\<rparr>) m) = map_option alertReport (walkHit p m)"
proof -
  have "map_option alertReport (map_option (\<lambda>ev. (i, band, ev)) x) =
      map_option (\<lambda>ev. (i, band, ev)) (map_option (\<lambda>ev. ev\<lparr>hit_direction := [], hit_tx := [], hit_rx := [], hit_remote := []\<rparr>) x)" for i band x
    by (cases x) (simp_all add: alertReport_def)
  then show ?thesis
    using match_lite [of m "w_targets p" "w_area p" "inScopeBandNames ! nat (feedBandIndex (B m))" b "[]" "w_lite p"]
    by (simp add: walkHit_def Let_def)
qed

lemma alertReport_snr: "alertReport r = alertReport r' \<Longrightarrow> hit_snr (snd (snd r)) = hit_snr (snd (snd r'))"
  by (metis alertReport_simps(3))

lemma liveHit_lite: "map_option alertReport (liveHit (p\<lparr>w_lite := b\<rparr>) m) = map_option alertReport (liveHit p m)"
  using walkHit_lite [of b p m]
  by (cases "walkHit p m"; cases "walkHit (p\<lparr>w_lite := b\<rparr>) m") (auto simp: liveHit_def inLive_def dest: alertReport_snr)

lemma scoredReport_lite: "map_option alertReport (scoredReport (p\<lparr>w_lite := b\<rparr>) m) = map_option alertReport (scoredReport p m)"
  by (simp add: scoredReport_def liveHit_lite)

lemma map_filter_map_option: "map h (List.map_filter f xs) = List.map_filter (\<lambda>x. map_option h (f x)) xs"
proof (induction xs)
  case (Cons x xs)
  then show ?case by (cases "f x") (simp_all add: List.map_filter_def)
qed (simp add: List.map_filter_def)

lemma reports_lite: "map alertReport (reports (p\<lparr>w_lite := b\<rparr>) ms) = map alertReport (reports p ms)"
proof -
  have k: "reportKey q \<circ> alertReport = reportKey q" for q by (rule ext) (simp add: reportKey_def)
  have "map alertReport (reports q ms) = firsts (reportKey q) {} (map alertReport (List.map_filter (scoredReport q) ms))" for q
    by (simp add: reports_def firsts_map k)
  moreover have "reportKey (p\<lparr>w_lite := b\<rparr>) = reportKey p" by (rule ext) (simp add: reportKey_def)
  ultimately show ?thesis by (simp add: map_filter_map_option scoredReport_lite)
qed

lemma own_map: "map alertReport (ownReports i rs) = ownReports i (map alertReport rs)"
  by (simp add: ownReports_def filter_map comp_def)

lemma alertAcc_note: "alertAcc (noteHit p acc r) = noteSignal (snd (snd (alertReport r))) (alertAcc acc)"
  by (simp add: alertAcc_def noteHit_def noteSignal_def noteStations_def alertReport_def Let_def)

lemma alertAcc_notes:
  "alertAcc (foldl (noteHit p) acc rs) = foldl (\<lambda>a r. noteSignal (snd (snd r)) a) (alertAcc acc) (map alertReport rs)"
  by (induction rs arbitrary: acc) (simp_all add: alertAcc_note)

lemma alertAcc_new: "alertAcc (newAccumulator b) = alertAcc (newAccumulator b')"
  by (simp add: alertAcc_def newAccumulator_def)

lemma walk_lite:
  fixes ms :: "MQTTMessage list"
  assumes "i < 13"
  shows "map_option alertAcc (accs (walk (p\<lparr>w_lite := b\<rparr>) reg ms) ! i) = map_option alertAcc (accs (walk p reg ms) ! i)"
    "localCnt (walk (p\<lparr>w_lite := b\<rparr>) reg ms) ! i = localCnt (walk p reg ms) ! i"
    "regionalCnt (walk (p\<lparr>w_lite := b\<rparr>) reg ms) = regionalCnt (walk p reg ms)"
proof -
  have own: "map alertReport (ownReports i (reports (p\<lparr>w_lite := b\<rparr>) ms)) = map alertReport (ownReports i (reports p ms))"
    by (simp add: own_map reports_lite)
  then have "ownReports i (reports (p\<lparr>w_lite := b\<rparr>) ms) = [] \<longleftrightarrow> ownReports i (reports p ms) = []"
    by (metis map_is_Nil_conv)
  then show "map_option alertAcc (accs (walk (p\<lparr>w_lite := b\<rparr>) reg ms) ! i) = map_option alertAcc (accs (walk p reg ms) ! i)"
    by (simp add: walk_accs [OF assms] bump_acc_def alertAcc_notes own alertAcc_new [of b "w_lite p"])
  have live: "map alertReport (List.map_filter (liveHit (p\<lparr>w_lite := b\<rparr>)) ms) = map alertReport (List.map_filter (liveHit p) ms)"
    by (simp add: map_filter_map_option liveHit_lite)
  have "length (ownReports i xs) = length (ownReports i (map alertReport xs))" for xs by (simp flip: own_map)
  then show "localCnt (walk (p\<lparr>w_lite := b\<rparr>) reg ms) ! i = localCnt (walk p reg ms) ! i"
    using arg_cong [where f = "\<lambda>xs. length (ownReports i xs)", OF live] by (simp add: walk_accs [OF assms])
  have "regStep (p\<lparr>w_lite := b\<rparr>) = regStep p"
    by (intro ext) (simp add: regStep_def inLive_def countRegional_def cong: option.case_cong)
  then show "regionalCnt (walk (p\<lparr>w_lite := b\<rparr>) reg ms) = regionalCnt (walk p reg ms)" by (simp add: walk_eq)
qed

section \<open>The verdict\<close>

lemma alertAcc_simps [simp]:
  "acc_total (alertAcc acc) = acc_total acc" "distancesKm (alertAcc acc) = distancesKm acc" "acc_snrs (alertAcc acc) = acc_snrs acc"
  "totalDistance (alertAcc acc) = totalDistance acc" "longHaulCount (alertAcc acc) = longHaulCount acc" "sumSnr (alertAcc acc) = sumSnr acc"
  "peakSnr (alertAcc acc) = peakSnr acc" "ssbCount (alertAcc acc) = ssbCount acc" "cwCount (alertAcc acc) = cwCount acc"
  by (simp_all add: alertAcc_def)

lemma bandCondition_alert:
  "map_option alertScored (bandCondition inp bb rg lc series band acc) = map_option alertScored (bandCondition inp bb rg lc series band (alertAcc acc))"
  by (simp add: bandCondition_def bandReach_def Let_def alertScored_def alertCond_def split: option.split prod.split)

lemma scoreBand_lite:
  assumes "fst q' = fst q" "alertAcc (snd q') = alertAcc (snd q)"
    "localCnt ws' ! fst q = localCnt ws ! fst q" "regionalCnt ws' = regionalCnt ws"
  shows "map_option alertScored (scoreBand inp bl series ws' q') = map_option alertScored (scoreBand inp bl series ws q)"
  by (simp add: scoreBand_def Let_def assms bandCondition_alert [where acc = "snd q'"] bandCondition_alert [where acc = "snd q"])

lemma those_map_option: "map_option (map h) (those xs) = those (map (map_option h) xs)"
proof (induction xs)
  case (Cons x xs)
  then show ?case by (cases x) (auto simp: option.map_comp comp_def simp flip: Cons)
qed simp

lemma key_sorted:
  assumes "sort_ok lt srt" "mset (map bandKey xs) = mset (map bandKey ys)"
    and "lt = betterBand \<or> lt = worseBand"
  shows "map bandKey (srt xs) = map bandKey (srt ys)"
proof -
  define up where "up = (\<lambda>(s, c) (t, d). if (s::real) = t then (c::real) > d else s > t)"
  define down where "down = (\<lambda>(s, c) (t, d). if (s::real) = t then (c::real) > d else s < t)"
  have u: "weak_order up" "weak_order down"
    unfolding weak_order_def up_def down_def by (auto split: if_splits)
  have tie: "\<not> up a b \<Longrightarrow> \<not> up b a \<Longrightarrow> a = b" "\<not> down a b \<Longrightarrow> \<not> down b a \<Longrightarrow> a = b" for a b
    by (cases a; cases b; force simp: up_def down_def split: if_splits)+
  have lt: "betterBand a b = up (bandKey a) (bandKey b)" "worseBand a b = down (bandKey a) (bandKey b)" for a b
    by (simp_all add: betterBand_def worseBand_def up_def down_def bandKey_def)
  have m: "mset (map bandKey (srt xs)) = mset (map bandKey (srt ys))" using assms(1,2) by (simp add: sort_ok_def)
  have s: "sorted_wrt (\<lambda>a b. \<not> lt b a) (srt zs)" for zs using assms(1) by (simp add: sort_ok_def)
  from assms(3) show ?thesis
  proof
    assume "lt = betterBand"
    then have "sorted_wrt (\<lambda>a b. \<not> up b a) (map bandKey (srt zs))" for zs using s [of zs] by (simp add: sorted_wrt_map lt)
    then show ?thesis by (intro weak_order.sorted_unique [OF u(1) m] tie(1)) auto
  next
    assume "lt = worseBand"
    then have "sorted_wrt (\<lambda>a b. \<not> down b a) (map bandKey (srt zs))" for zs using s [of zs] by (simp add: sorted_wrt_map lt)
    then show ?thesis by (intro weak_order.sorted_unique [OF u(2) m] tie(2)) auto
  qed
qed

lemma alert_sorted:
  assumes "sort_ok lt srt" "mset (map alertCond xs) = mset (map alertCond ys)" "distinct (map bandKey ys)"
    and "lt = betterBand \<or> lt = worseBand"
  shows "map alertCond (srt xs) = map alertCond (srt ys)"
proof -
  have k: "bandKey (alertCond c) = bandKey c" for c by (simp add: bandKey_def alertCond_def)
  then have km: "mset (map bandKey xs) = mset (map bandKey ys)"
    using arg_cong [OF assms(2), of "image_mset bandKey"] by (simp add: image_mset.compositionality comp_def)
  have keys: "map bandKey (srt xs) = map bandKey (srt ys)" using key_sorted [OF assms(1) km assms(4)] .
  have ms: "mset (map alertCond (srt xs)) = mset (map alertCond (srt ys))" using assms(1,2) by (simp add: sort_ok_def)
  have d: "distinct (map bandKey (map alertCond (srt ys)))"
    using assms(1,3) by (simp add: comp_def k) (metis mset_eq_imp_distinct_iff mset_map sort_ok_def)
  show ?thesis
  proof (rule nth_equalityI)
    show len: "length (map alertCond (srt xs)) = length (map alertCond (srt ys))" using keys by (metis length_map)
    fix i assume i: "i < length (map alertCond (srt xs))"
    then have "map alertCond (srt xs) ! i \<in> set (map alertCond (srt ys))" using ms by (metis mset_eq_setD nth_mem)
    then obtain j where j: "j < length (srt ys)" "map alertCond (srt xs) ! i = map alertCond (srt ys) ! j"
      by (metis in_set_conv_nth length_map)
    have "bandKey (map alertCond (srt xs) ! i) = map bandKey (srt ys) ! i" using i len keys k by (metis length_map nth_map)
    then have "map bandKey (map alertCond (srt ys)) ! i = map bandKey (map alertCond (srt ys)) ! j"
      using i j len k by simp
    then have "i = j" using d i j(1) len by (metis length_map nth_eq_iff_index_eq)
    then show "map alertCond (srt xs) ! i = map alertCond (srt ys) ! i" using j(2) by simp
  qed
qed

lemma summarize_alert:
  assumes "slice_sort_ok srt" "map alertScored scored = map alertScored scored'"
  shows "liteAgrees (summarize srt scored resp) (summarize srt scored' resp)"
proof -
  have b: "sort_ok betterBand (srt betterBand)" "sort_ok worseBand (srt worseBand)" using assms(1) by (simp_all add: slice_sort_ok_def)
  define bs where "bs = srt betterBand (map s_cond scored)"
  define bs' where "bs' = srt betterBand (map s_cond scored')"
  have g: "s_score (alertScored s) = s_score s" "s_confidence (alertScored s) = s_confidence s" "s_trendDelta (alertScored s) = s_trendDelta s"
    "s_cond (alertScored s) = alertCond (s_cond s)" "c_CurrentLinks (s_cond s) = c_CurrentLinks (s_cond (alertScored s))" for s
    by (simp_all add: alertScored_def alertCond_def)
  have conds: "map alertCond (map s_cond scored) = map alertCond (map s_cond scored')"
    using arg_cong [OF assms(2), of "map s_cond"] by (simp add: comp_def g)
  have sums: "map (\<lambda>s. h (s_score s) (s_confidence s) (s_trendDelta s) (c_CurrentLinks (s_cond s))) scored =
      map (\<lambda>s. h (s_score s) (s_confidence s) (s_trendDelta s) (c_CurrentLinks (s_cond s))) scored'" for h :: "real \<Rightarrow> real \<Rightarrow> real \<Rightarrow> nat \<Rightarrow> real"
    using arg_cong [OF assms(2), of "map (\<lambda>s. h (s_score s) (s_confidence s) (s_trendDelta s) (c_CurrentLinks (s_cond s)))"]
    by (simp add: comp_def g(1-3) flip: g(5))
  note sum1 = sums [of "\<lambda>s c t l. s * real l"] sums [of "\<lambda>s c t l. c * real l"] sums [of "\<lambda>s c t l. t * real l"] sums [of "\<lambda>s c t l. real l"]
  have ms: "mset (map alertCond bs) = mset (map alertCond bs')"
    using b(1) arg_cong [OF conds, of mset] by (simp add: bs_def bs'_def sort_ok_def image_mset.compositionality)
  have len: "length bs = length bs'" using arg_cong [OF ms, of size] by simp
  have key: "mset (map bandKey (map s_cond scored)) = mset (map bandKey (map s_cond scored'))"
  proof -
    have "bandKey (alertCond c) = bandKey c" for c by (simp add: bandKey_def alertCond_def)
    then show ?thesis using arg_cong [OF conds, of "\<lambda>xs. mset (map bandKey xs)"] by (simp add: comp_def)
  qed
  have keys: "map bandKey bs = map bandKey bs'" unfolding bs_def bs'_def by (rule key_sorted [OF b(1) key]) simp
  have "alertCore (summarize srt scored resp) = alertCore (summarize srt scored' resp)"
    unfolding alertCore_def summarize_bands bs_def [symmetric] bs'_def [symmetric] ms keys
    unfolding summarize_def Let_def bs_def [symmetric] bs'_def [symmetric] sum1 len by simp
  moreover have "alertResponse (summarize srt scored resp) = alertResponse (summarize srt scored' resp)"
    if "distinct (map bandKey (r_Bands (summarize srt scored' resp)))"
  proof -
    have d: "distinct (map bandKey bs')" using that unfolding summarize_bands bs'_def .
    then have d': "distinct (map bandKey (map s_cond scored'))"
      using b(1) unfolding bs'_def by (metis mset_eq_imp_distinct_iff mset_map sort_ok_def)
    have a: "map alertCond bs = map alertCond bs'"
      unfolding bs_def bs'_def by (rule alert_sorted [OF b(1) arg_cong [OF conds, of mset] d']) simp
    have w: "map alertCond (srt worseBand bs) = map alertCond (srt worseBand bs')"
      by (rule alert_sorted [OF b(2) ms d]) simp
    have f: "c_Band (alertCond c) = c_Band c" "c_Status (alertCond c) = c_Status c" "c_Confidence (alertCond c) = c_Confidence c" for c
      by (simp_all add: alertCond_def)
    have t: "map c_Band (filter P (take 3 xs)) = map c_Band (filter P (take 3 ys))"
      if "map alertCond xs = map alertCond ys" "\<And>c. P (alertCond c) = P c" for xs ys P
    proof -
      have "map alertCond (filter P (take 3 zs)) = filter P (take 3 (map alertCond zs))" for zs
        by (simp add: take_map filter_map comp_def that(2))
      then have "map alertCond (filter P (take 3 xs)) = map alertCond (filter P (take 3 ys))" by (simp only: that(1))
      from arg_cong [OF this, of "map c_Band"] show ?thesis by (simp add: comp_def f)
    qed
    note cut = t [OF a, of "\<lambda>_. True"] t [OF w, of "\<lambda>_. True"] t [OF a, of "\<lambda>b. c_Status b = ''green'' \<or> c_Status b = ''yellow''"]
      t [OF w, of "\<lambda>b. c_Confidence b \<ge> 30 \<and> (c_Status b = ''red'' \<or> c_Status b = ''grey'')"]
    show ?thesis
      unfolding alertResponse_def summarize_bands bs_def [symmetric] bs'_def [symmetric] a
      unfolding summarize_def Let_def bs_def [symmetric] bs'_def [symmetric] sum1 len using cut f by simp
  qed
  ultimately show ?thesis by (simp add: liteAgrees_def)
qed


lemma map_transfer:
  assumes "map h xs' = map h xs" "\<And>x' x. x \<in> set xs \<Longrightarrow> h x' = h x \<Longrightarrow> k' x' = k x"
  shows "map k' xs' = map k xs"
proof (rule nth_equalityI)
  show len: "length (map k' xs') = length (map k xs)" using assms(1) by (metis length_map)
  fix i assume i: "i < length (map k' xs')"
  then have "h (xs' ! i) = h (xs ! i)" using assms(1) len by (metis length_map nth_map)
  then show "map k' xs' ! i = map k xs ! i" using assms(2) i len by simp
qed

lemma option_transfer:
  assumes "map_option h x = map_option h y" "\<And>a b. h a = h b \<Longrightarrow> R (k a) (k b)"
  shows "rel_option R (map_option k x) (map_option k y)"
  using assms by (cases x; cases y) simp_all

definition alertSlot :: "nat \<times> bandAccumulator \<Rightarrow> nat \<times> bandAccumulator" where
  "alertSlot q = (fst q, alertAcc (snd q))"

lemma found_lite:
  assumes "\<And>i. i < 13 \<Longrightarrow> map_option alertAcc (accs ws' ! i) = map_option alertAcc (accs ws ! i)"
  shows "map alertSlot (filter (\<lambda>p. acc_total (snd p) \<noteq> 0) (foundBands ws')) = map alertSlot (filter (\<lambda>p. acc_total (snd p) \<noteq> 0) (foundBands ws))"
    "foundBands ws' = [] \<longleftrightarrow> foundBands ws = []"
proof -
  have "map alertSlot (concat (map (\<lambda>i. case accs w ! i of None \<Rightarrow> [] | Some acc \<Rightarrow> [(i, acc)]) is))
      = concat (map (\<lambda>i. case map_option alertAcc (accs w ! i) of None \<Rightarrow> [] | Some acc \<Rightarrow> [(i, acc)]) is)" for w "is"
    by (induction "is") (auto simp: alertSlot_def split: option.split)
  then have a: "map alertSlot (foundBands w) = concat (map (\<lambda>i. case map_option alertAcc (accs w ! i) of None \<Rightarrow> [] | Some acc \<Rightarrow> [(i, acc)]) [0..<13])" for w
    by (simp add: foundBands_def)
  have b: "map (\<lambda>i. case map_option alertAcc (accs ws' ! i) of None \<Rightarrow> [] | Some acc \<Rightarrow> [(i, acc)]) [0..<13]
      = map (\<lambda>i. case map_option alertAcc (accs ws ! i) of None \<Rightarrow> [] | Some acc \<Rightarrow> [(i, acc)]) [0..<13]"
    by (rule map_cong [OF refl]) (simp only: assms set_upt atLeastLessThan_iff)
  have f: "map alertSlot (foundBands ws') = map alertSlot (foundBands ws)" unfolding a b ..
  have "map alertSlot (filter (\<lambda>p. acc_total (snd p) \<noteq> 0) xs) = filter (\<lambda>p. acc_total (snd p) \<noteq> 0) (map alertSlot xs)" for xs
    by (induction xs) (simp_all add: alertSlot_def)
  then show "map alertSlot (filter (\<lambda>p. acc_total (snd p) \<noteq> 0) (foundBands ws')) = map alertSlot (filter (\<lambda>p. acc_total (snd p) \<noteq> 0) (foundBands ws))"
    by (simp only: f)
  show "foundBands ws' = [] \<longleftrightarrow> foundBands ws = []" using f by (metis map_is_Nil_conv)
qed

lemma conditionsOf_lite:
  assumes "slice_sort_ok (env_sort env)"
    and "\<And>i. i < 13 \<Longrightarrow> map_option alertAcc (accs ws' ! i) = map_option alertAcc (accs ws ! i) \<and> localCnt ws' ! i = localCnt ws ! i"
    and "regionalCnt ws' = regionalCnt ws"
  shows "rel_option liteAgrees (conditionsOf env e st area ma targets series startAt now resp ws')
    (conditionsOf env e st area ma targets series startAt now resp ws)"
proof -
  define found where "found w = filter (\<lambda>p. acc_total (snd p) \<noteq> 0) (foundBands w)" for w
  have f: "map alertSlot (found ws') = map alertSlot (found ws)" "foundBands ws' = [] \<longleftrightarrow> foundBands ws = []"
    using found_lite [of ws' ws] assms(2) by (simp_all add: found_def)
  have run: "rel_option liteAgrees
      (map_option (\<lambda>scored. summarize (env_sort env) scored resp) (those (map (scoreBand inp bl sr ws') (found ws'))))
      (map_option (\<lambda>scored. summarize (env_sort env) scored resp) (those (map (scoreBand inp bl sr ws) (found ws))))" for inp bl sr resp
  proof -
    have "map (map_option alertScored) (map (scoreBand inp bl sr ws') (found ws')) = map (map_option alertScored) (map (scoreBand inp bl sr ws) (found ws))"
      unfolding map_map
    proof (rule map_transfer [OF f(1)])
      fix x' x assume x: "x \<in> set (found ws)" and e: "alertSlot x' = alertSlot x"
      have "fst x < 13" using foundBands_slot [of x ws] x by (simp add: found_def)
      then show "(map_option alertScored \<circ> scoreBand inp bl sr ws') x' = (map_option alertScored \<circ> scoreBand inp bl sr ws) x"
        using scoreBand_lite [of x' x ws' ws] e assms(2,3) by (simp add: alertSlot_def)
    qed
    then have same: "map_option (map alertScored) (those (map (scoreBand inp bl sr ws') (found ws'))) = map_option (map alertScored) (those (map (scoreBand inp bl sr ws) (found ws)))"
      by (simp only: those_map_option)
    show ?thesis by (rule option_transfer [OF same]) (rule summarize_alert [OF assms(1)])
  qed
  show ?thesis
    unfolding conditionsOf_def Let_def found_def [symmetric] f(2)
    by (simp add: run liteAgrees_refl)
qed

lemma lite_evaluation:
  assumes "slice_sort_ok (env_sort env)"
  shows "rel_option liteAgrees (snd (evaluateAreaWindow env e st cache qth s minutes cw win now area True))
    (snd (evaluateAreaWindow env e st cache qth s minutes cw win now area False))"
proof -
  define q where "q = normalizeQTHToken qth"
  define mins where "mins = clampMinutes minutes"
  define startAt where "startAt = liveStartOf env mins now"
  define ma where "ma = (case area of None \<Rightarrow> None | Some a \<Rightarrow> if 1 < Radius a then Some a else None)"
  define sur where "sur = (case area of None \<Rightarrow> s | Some a \<Rightarrow> if ma = None then Radius a = 1 else s)"
  define cl where "cl = deriveOperatorCluster e q"
  obtain cache' ps idx where l: "indexLookup env cache q sur ma cl win startAt now = (cache', ps, idx)" by (metis prod_cases3)
  have flag: "walkOf env q sur ma cl True c startAt now b = (walkOf env q sur ma cl False c startAt now b)\<lparr>w_lite := True\<rparr>" for c b
    by (simp add: walkOf_def)
  have cond: "rel_option liteAgrees (conditionsOf env e st area ma targets series startAt now resp (walk (walkOf env q sur ma cl True c startAt now b) reg ms))
      (conditionsOf env e st area ma targets series startAt now resp (walk (walkOf env q sur ma cl False c startAt now b) reg ms))"
    for targets series resp c b reg ms
    unfolding flag by (rule conditionsOf_lite [OF assms]) (simp_all add: walk_lite walk_lite(3) [of 0])
  show ?thesis
    unfolding evaluateAreaWindow_def Let_def q_def [symmetric] mins_def [symmetric] startAt_def [symmetric] ma_def [symmetric]
      sur_def [symmetric] cl_def [symmetric] l prod.case
    by (cases "q = []") (simp_all only: if_True if_False snd_conv simp_thms cond option.rel_inject liteAgrees_refl)
qed

end
