(* ===== verification/Demo.thy ===== *)
theory Demo
  imports Stream AreaIndex Ingest
begin

text \<open>The messages, clients, hub and index on which the witnesses evaluate the properties.\<close>

definition demoMessage :: "string \<Rightarrow> string \<Rightarrow> int \<Rightarrow> MQTTMessage" where
  \<comment> \<open>a message of the witnesses\<close>
  "demoMessage sl rl t = emptyMessage\<lparr>T := t, RP := -5, SC := ''DL1ABC'', RC := ''OE3XYZ'',
     SL := sl, RL := rl, B := ''20m'', MD := ''FT8''\<rparr>"

definition demoClient :: Client where
  "demoClient = \<lparr>qthSet = [''JO31''], areaActive = False, areaX = 0, areaY = 0, areaRings = 0\<rparr>"

definition demoHub :: Hub where
  "demoHub = \<lparr>hub_clients = [], hub_history = [demoMessage ''JO31lk'' ''JN58'' 1000, demoMessage ''FN42'' ''jo31'' 1005], baseSeq = 7\<rparr>"

definition demoRequest :: streamRequest where
  "demoRequest = \<lparr>sr_qth = ''JO31'', sr_surroundings = False, sr_minutes = 15, v2 = True, sr_filter = emptyFilter,
     sinceRaw = ''e-8'', prev = False, prevFilter = emptyFilter, prevRadius = 0, hasPrevRad = False\<rparr>"

definition demoWindow :: historyWindow where
  "demoWindow = \<lparr>msgs = [demoMessage ''FN42'' ''PM95'' 1000], firstSeq = 3, hubFirst = 3\<rparr>"

definition demoCache :: areaIndexCache where
  "demoCache = \<lparr>ac_m = [], tick = 0\<rparr>"

definition demoKey :: areaIndexKey where
  "demoKey = \<lparr>k_x = 93, k_y = 141, k_radius = 0, clusterOK = False, k_cx = 0, k_cy = 0\<rparr>"

definition lateHub :: Hub where
  \<comment> \<open>a hub whose last message was ingested late\<close>
  "lateHub = \<lparr>hub_clients = [], hub_history = [demoMessage ''FN42'' ''jo31'' 996, demoMessage ''FN42'' ''jo31'' 1010,
     demoMessage ''JO31lk'' ''JN58'' 1005], baseSeq = 7\<rparr>"

definition demoSpot :: "int \<Rightarrow> Spot" where
  "demoSpot n = \<lparr>Lat = 0, Lng = 0, SNR = -5, AgeSeconds = 0, Locator = ''FN42'', ReporterLocator = ''JO31'',
     SourceType = ''mqtt'', Band = ''20m'', Sender = ''DL1ABC'', Receiver = ''OE3XYZ'', spotT = 1000, Seq = n\<rparr>"

end
