(* ===== verification/HotBands.thy ===== *)
theory HotBands
  imports Lite Stream
begin

text \<open>
  hot_bands.go: the bands worth a recommendation in an evaluation. \<open>classifyHotBand\<close> decides
  one band, \<open>hotBandsFromConditions\<close> filters, sorts (\<open>sort.SliceStable\<close>) and caps, and reports
  the bands a client holds. \<open>math.Lgamma(i + 1)\<close> is \<open>ln (fact i)\<close>. The facts: the answer is the
  best of the qualified bands (\<open>recommendations_best\<close>) and does not depend on the order in which
  the evaluation lists them (\<open>recommendations_determined\<close>), the lite evaluation is enough
  (\<open>hot_bands_lite\<close>), and the Poisson tail is bounded on both sides (\<open>poisson_tail\<close>).
\<close>

section \<open>The Poisson tail\<close>

fun lowerSum :: "nat \<Rightarrow> nat \<Rightarrow> real \<Rightarrow> real \<Rightarrow> real \<Rightarrow> real" where
  \<comment> \<open>\<open>for i := 1; i < k\<close>: \<open>n\<close> turns left, then the sum\<close>
  "lowerSum 0 i lambda term acc = acc"
| "lowerSum (Suc n) i lambda term acc =
     (let term = term * (lambda / real i) in lowerSum n (i + 1) lambda term (acc + term))"

fun upperSum :: "nat \<Rightarrow> nat \<Rightarrow> real \<Rightarrow> real \<Rightarrow> real \<Rightarrow> real" where
  \<comment> \<open>\<open>for i := k + 1; term > sum*1e-15 && i < k+10000\<close>\<close>
  "upperSum 0 i lambda term acc = acc"
| "upperSum (Suc n) i lambda term acc =
     (if term > acc * (1 / 10 ^ 15)
      then let term = term * (lambda / real i) in upperSum n (i + 1) lambda term (acc + term)
      else acc)"

definition logTerm :: "real \<Rightarrow> nat \<Rightarrow> real" where
  "logTerm lambda i = - lambda + real i * ln lambda - ln (fact i)"

definition poissonUpperTail :: "int \<Rightarrow> real \<Rightarrow> real" where
  "poissonUpperTail k lambda =
     (if k \<le> 0 then 1
      else if lambda \<le> 0 then 0
      else if of_int k \<le> lambda
      then let term = exp (- lambda) in clamp01 (1 - lowerSum (nat k - 1) 1 lambda term term)
      else let term = exp (logTerm lambda (nat k)) in clamp01 (upperSum 9999 (nat k + 1) lambda term term))"

section \<open>One band\<close>

definition hotBandsMinHistoryMinutes :: int where "hotBandsMinHistoryMinutes = 24 * 60"
definition hotBandsMinSustainedBins :: nat where "hotBandsMinSustainedBins = 2"
definition hotBandsSparklineFloor :: real where "hotBandsSparklineFloor = 30"
definition hotBandsMinLiveRate :: real where "hotBandsMinLiveRate = 1/2"
definition hotBandsSurpriseBaselineMx :: real where "hotBandsSurpriseBaselineMx = 1/10"
definition hotBandsSurpriseRatio :: real where "hotBandsSurpriseRatio = 5"
definition hotBandsSurpriseMinP90Km :: real where "hotBandsSurpriseMinP90Km = 800"
definition hotBandsSurprisePoissonP :: real where "hotBandsSurprisePoissonP = 1/100"
definition hotBandsDxSurgeRatio :: real where "hotBandsDxSurgeRatio = 3/2"
definition hotBandsDxSurgeMinDistKm :: real where "hotBandsDxSurgeMinDistKm = 5000"
definition hotBandsMinTrendDelta :: real where "hotBandsMinTrendDelta = 3/2"
definition hotBandsRisingRatioMin :: real where "hotBandsRisingRatioMin = 3/2"
definition hotBandsRisingMinBins :: nat where "hotBandsRisingMinBins = 3"
definition hotBandsRisingMinLiveRate :: real where "hotBandsRisingMinLiveRate = 1"
definition hotBandsMaxResults :: nat where "hotBandsMaxResults = 3"
definition hotBandsMaxResultsLimit :: int where "hotBandsMaxResultsLimit = 12"

record hotBandRecommendation =
  hb_Band :: string
  hb_Kind :: string
  hb_Priority :: string
  hb_Reason :: string
  hb_RankScore :: real
  hb_SpotsPerMinute :: real
  hb_BaselineActivity :: real
  hb_ActivityRatio :: real
  hb_ActivityLevel :: "activityLevel option"
  hb_SustainedBins :: nat
  hb_P90DistanceKm :: real
  hb_BaselineP90Distance :: real
  hb_DistanceRatio :: real
  hb_Trend :: string
  hb_TrendDelta :: real
  hb_Status :: string

definition sustainedRecentBins :: "real list \<Rightarrow> real \<Rightarrow> nat" where
  \<comment> \<open>the loop from the right stops at the first dip\<close>
  "sustainedRecentBins sparkline lo = length (takeWhile (\<lambda>v. v \<ge> lo) (rev sparkline))"

definition activityRatioOf :: "real \<Rightarrow> real \<Rightarrow> real" where
  "activityRatioOf live baseline = (if baseline \<le> 0 then 0 else live / baseline)"

definition hotBaselineRate :: "dxBandCondition \<Rightarrow> real" where
  "hotBaselineRate b = (if c_baselineRate b \<le> 0 then c_BaselineActivity b else c_baselineRate b)"

definition hotRatio :: "dxBandCondition \<Rightarrow> real" where
  "hotRatio b = (if activityLevelHasRatio (c_ActivityLevel b) then c_ActivityRatio b
     else activityRatioOf (c_SpotsPerMinute b) (hotBaselineRate b))"

definition unusualOpening :: "dxBandCondition \<Rightarrow> real \<Rightarrow> bool" where
  \<comment> \<open>the gate of a surprise\<close>
  "unusualOpening b liveSpanMin \<longleftrightarrow>
     c_BaselineActivity b > 0 \<and> c_BaselineActivity b \<le> hotBandsSurpriseBaselineMx \<and>
     hotRatio b \<ge> hotBandsSurpriseRatio \<and> c_P90DistanceKm b \<ge> hotBandsSurpriseMinP90Km \<and>
     (activityLevelHasRatio (c_ActivityLevel b) \<or>
      poissonUpperTail (int (c_CurrentLinks b)) (hotBaselineRate b * liveSpanMin) < hotBandsSurprisePoissonP)"

definition dxSurge :: "dxBandCondition \<Rightarrow> bool" where
  "dxSurge b \<longleftrightarrow> c_ReachLevel b = ''longer'' \<and> c_ReachRatio b \<ge> hotBandsDxSurgeRatio \<and>
     c_P90DistanceKm b \<ge> hotBandsDxSurgeMinDistKm"

definition risingBand :: "dxBandCondition \<Rightarrow> bool" where
  "risingBand b \<longleftrightarrow> c_Trend b = ''rising'' \<and> c_TrendDelta b \<ge> hotBandsMinTrendDelta \<and>
     (c_Status b = ''yellow'' \<or> c_Status b = ''green'') \<and> hotRatio b \<ge> hotBandsRisingRatioMin \<and>
     sustainedRecentBins (c_Sparkline b) hotBandsSparklineFloor \<ge> hotBandsRisingMinBins \<and>
     c_SpotsPerMinute b \<ge> hotBandsRisingMinLiveRate"

definition hotRecord :: "dxBandCondition \<Rightarrow> string \<Rightarrow> string \<Rightarrow> string \<Rightarrow> real \<Rightarrow> hotBandRecommendation" where
  "hotRecord b kind priority reason rank = \<lparr>
     hb_Band = c_Band b, hb_Kind = kind, hb_Priority = priority, hb_Reason = reason, hb_RankScore = rank,
     hb_SpotsPerMinute = c_SpotsPerMinute b, hb_BaselineActivity = c_BaselineActivity b,
     hb_ActivityRatio = round2 (hotRatio b),
     hb_ActivityLevel = (if activityLevelHasRatio (c_ActivityLevel b) then Some (c_ActivityLevel b) else None),
     hb_SustainedBins = sustainedRecentBins (c_Sparkline b) hotBandsSparklineFloor,
     hb_P90DistanceKm = c_P90DistanceKm b, hb_BaselineP90Distance = round1 (c_BaselineP90DistanceKm b),
     hb_DistanceRatio = round2 (c_ReachRatio b), hb_Trend = c_Trend b, hb_TrendDelta = c_TrendDelta b,
     hb_Status = c_Status b\<rparr>"

definition classifyHotBand :: "dxBandCondition \<Rightarrow> bool \<Rightarrow> real \<Rightarrow> hotBandRecommendation option" where
  "classifyHotBand b trustedBaseline liveSpanMin =
     (if c_Band b = [] \<or> \<not> bandInScope (c_Band b) then None
      else if sustainedRecentBins (c_Sparkline b) hotBandsSparklineFloor < hotBandsMinSustainedBins then None
      else if c_SpotsPerMinute b < hotBandsMinLiveRate then None
      else if c_ClusterBaselineUsed b \<and> trustedBaseline \<and> unusualOpening b liveSpanMin
        then Some (hotRecord b ''surprise'' ''high'' ''rare opening'' (hotRatio b))
      else if c_ClusterBaselineUsed b \<and> trustedBaseline \<and> dxSurge b
        then Some (hotRecord b ''dx_surge'' ''normal'' ''DX surge'' (c_ReachRatio b))
      else if risingBand b then Some (hotRecord b ''rising'' ''normal'' ''rising'' (c_Score b))
      else None)"

section \<open>The order\<close>

definition priorityRank :: "string \<Rightarrow> nat" where
  "priorityRank p = (if p = ''high'' then 0 else 1)"

definition kindRank :: "string \<Rightarrow> nat" where
  "kindRank k = (if k = ''surprise'' then 0 else if k = ''dx_surge'' then 1 else if k = ''rising'' then 2 else 3)"

definition hotBefore :: "hotBandRecommendation \<Rightarrow> hotBandRecommendation \<Rightarrow> bool" where
  "hotBefore a b =
     (if priorityRank (hb_Priority a) \<noteq> priorityRank (hb_Priority b)
      then priorityRank (hb_Priority a) < priorityRank (hb_Priority b)
      else if kindRank (hb_Kind a) \<noteq> kindRank (hb_Kind b) then kindRank (hb_Kind a) < kindRank (hb_Kind b)
      else if hb_RankScore a \<noteq> hb_RankScore b then hb_RankScore a > hb_RankScore b
      else strLess (hb_Band a) (hb_Band b))"

definition sortHotBandRecommendations :: "hotBandRecommendation list \<Rightarrow> hotBandRecommendation list" where
  "sortHotBandRecommendations recs = sort_by hotBefore recs"

section \<open>The options\<close>

record hotBandsOptions =
  ho_Bands :: "string list"
  ho_Max :: int
  ho_Include :: "string list"

definition parseHotBandsList :: "string \<Rightarrow> string list" where
  \<comment> \<open>\<open>seen\<close> holds the bands of \<open>out\<close>\<close>
  "parseHotBandsList raw =
     foldl (\<lambda>out part. let band = normalizeBand part
              in if band = [] \<or> \<not> bandInScope band \<or> band \<in> set out then out else out @ [band])
       [] (Split raw (CHR '',''))"

definition clampHotBandsMax :: "int \<Rightarrow> int" where
  "clampHotBandsMax n = (if n < 1 then 1 else if n > hotBandsMaxResultsLimit then hotBandsMaxResultsLimit else n)"

definition parseHotBandsOptions :: "query \<Rightarrow> hotBandsOptions" where
  "parseHotBandsOptions q =
     (let raw = TrimSpace (q ''max'')
      in \<lparr>ho_Bands = parseHotBandsList (q ''bands''),
          ho_Max = (if raw \<noteq> [] then (case Atoi raw of Some n \<Rightarrow> clampHotBandsMax n | None \<Rightarrow> 0) else 0),
          ho_Include = parseHotBandsList (q ''include'')\<rparr>)"

section \<open>The response\<close>

record hotBandHolding =
  hold_Band :: string
  hold_SpotsPerMinute :: real
  hold_Status :: string
  hold_ActivityLevel :: activityLevel

record hotBandsResponse =
  h_QTH :: string
  h_Surroundings :: bool
  h_CurrentBand :: string
  h_CurrentSlotOfDay :: int
  h_GeneratedAt :: int
  h_BaselineHistoryM :: int
  h_Area :: "liveArea option"
  h_Recommendations :: "hotBandRecommendation list"
  h_Holding :: "hotBandHolding list"

definition hotWanted :: "string \<Rightarrow> hotBandsOptions \<Rightarrow> dxBandCondition \<Rightarrow> bool" where
  \<comment> \<open>neither \<open>continue\<close> of the loop\<close>
  "hotWanted currentBand opts b \<longleftrightarrow>
     \<not> (currentBand \<noteq> [] \<and> currentBand \<noteq> ''all'' \<and> c_Band b = currentBand) \<and>
     \<not> (ho_Bands opts \<noteq> [] \<and> c_Band b \<notin> set (ho_Bands opts))"

definition hotCandidates :: "dxConditionsResponse \<Rightarrow> string \<Rightarrow> hotBandsOptions \<Rightarrow> hotBandRecommendation list" where
  \<comment> \<open>\<open>recs\<close> after the loop\<close>
  "hotCandidates cond currentBand opts =
     List.map_filter (\<lambda>b. if hotWanted currentBand opts b
         then classifyHotBand b (r_BaselineHistoryM cond \<ge> hotBandsMinHistoryMinutes) (max 1 (r_liveSpanMin cond)) else None)
       (r_Bands cond)"

definition hotLimit :: "hotBandsOptions \<Rightarrow> nat" where
  "hotLimit opts = (if ho_Max opts > 0 then nat (clampHotBandsMax (ho_Max opts)) else hotBandsMaxResults)"

definition holdingOf :: "dxBandCondition list \<Rightarrow> string \<Rightarrow> hotBandHolding option" where
  \<comment> \<open>the last entry of a band is the one \<open>byBand\<close> keeps\<close>
  "holdingOf bands band =
     (case find (\<lambda>b. c_Band b = band) (rev bands) of
        None \<Rightarrow> None
      | Some b \<Rightarrow> if \<not> bandInScope band then None
          else Some \<lparr>hold_Band = c_Band b, hold_SpotsPerMinute = c_SpotsPerMinute b, hold_Status = c_Status b,
                     hold_ActivityLevel = c_ActivityLevel b\<rparr>)"

definition hotBandsFromConditions :: "dxConditionsResponse \<Rightarrow> string \<Rightarrow> hotBandsOptions \<Rightarrow> hotBandsResponse" where
  "hotBandsFromConditions cond currentBand opts =
     (let currentBand = normalizeBand currentBand;
          resp = \<lparr>h_QTH = r_QTH cond, h_Surroundings = r_Surroundings cond, h_CurrentBand = currentBand,
                  h_CurrentSlotOfDay = r_CurrentSlotOfDay cond, h_GeneratedAt = r_GeneratedAt cond,
                  h_BaselineHistoryM = r_BaselineHistoryM cond, h_Area = r_Area cond,
                  h_Recommendations = [], h_Holding = []\<rparr>
      in if r_QTH cond = [] \<or> r_Bands cond = [] then resp
         else resp\<lparr>h_Recommendations := take (hotLimit opts) (sortHotBandRecommendations (hotCandidates cond currentBand opts)),
                   h_Holding := List.map_filter (holdingOf (r_Bands cond)) (ho_Include opts)\<rparr>)"

definition HotBandsAreaWindow ::
    "evalEnv \<Rightarrow> DxBaselineEngine \<Rightarrow> storeView option \<Rightarrow> areaIndexCache \<Rightarrow> string \<Rightarrow> bool \<Rightarrow> int \<Rightarrow> int \<Rightarrow> string \<Rightarrow>
     historyWindow \<Rightarrow> int \<Rightarrow> liveArea option \<Rightarrow> hotBandsOptions \<Rightarrow> areaIndexCache \<times> hotBandsResponse option" where
  "HotBandsAreaWindow env e st cache qth surroundings minutes cwMin currentBand win now area opts =
     (case evaluateAreaWindow env e st cache qth surroundings minutes cwMin win now area True of
        (cache, cond) \<Rightarrow> (cache, map_option (\<lambda>cond. hotBandsFromConditions cond currentBand opts) cond))"

definition HotBandsAreaWith ::
    "evalEnv \<Rightarrow> DxBaselineEngine \<Rightarrow> storeView option \<Rightarrow> areaIndexCache \<Rightarrow> string \<Rightarrow> bool \<Rightarrow> int \<Rightarrow> int \<Rightarrow> string \<Rightarrow>
     MQTTMessage list \<Rightarrow> int \<Rightarrow> liveArea option \<Rightarrow> hotBandsOptions \<Rightarrow> areaIndexCache \<times> hotBandsResponse option" where
  "HotBandsAreaWith env e st cache qth surroundings minutes cwMin currentBand history now area opts =
     HotBandsAreaWindow env e st cache qth surroundings minutes cwMin currentBand
       \<lparr>msgs = history, firstSeq = 0, hubFirst = 0\<rparr> now area opts"

section \<open>Facts about the recommendations\<close>

interpretation hot: weak_order hotBefore
  using weak_order_key(1) [OF weak_order_key(1) [OF weak_order_key(2) [OF weak_order_on [OF strings.weak_order_axioms]]],
      of "\<lambda>a. priorityRank (hb_Priority a)" "\<lambda>a. kindRank (hb_Kind a)" hb_RankScore hb_Band]
  by (simp add: hotBefore_def [abs_def])

lemma classify_band: "classifyHotBand b tr sp = Some rec \<Longrightarrow> hb_Band rec = c_Band b \<and> bandInScope (hb_Band rec)"
  by (auto simp: classifyHotBand_def hotRecord_def split: if_splits)

lemma candidate_bands:
  "distinct (map c_Band (r_Bands cond)) \<Longrightarrow> distinct (map hb_Band (hotCandidates cond cb opts))"
proof -
  let ?f = "\<lambda>b. if hotWanted cb opts b
     then classifyHotBand b (r_BaselineHistoryM cond \<ge> hotBandsMinHistoryMinutes) (max 1 (r_liveSpanMin cond)) else None"
  have "set (map hb_Band (List.map_filter ?f bs)) \<subseteq> c_Band ` set bs \<and>
      (distinct (map c_Band bs) \<longrightarrow> distinct (map hb_Band (List.map_filter ?f bs)))" for bs
  proof (induction bs)
    case (Cons b bs)
    have "List.map_filter ?f (b # bs) = asList (?f b) @ List.map_filter ?f bs" by (rule map_filter_Cons)
    moreover have "\<forall>r\<in>set (asList (?f b)). hb_Band r = c_Band b" "distinct (asList (?f b))"
      using classify_band by (auto simp: asList_def split: option.split if_splits)
    moreover have "length (asList (?f b)) \<le> 1" by (simp add: asList_def split: option.split)
    ultimately show ?case using Cons by (cases "asList (?f b)") auto
  qed (simp add: List.map_filter_def)
  then show "distinct (map c_Band (r_Bands cond)) \<Longrightarrow> ?thesis" by (simp add: hotCandidates_def)
qed

lemma hotBefore_total: "\<not> hotBefore b a \<Longrightarrow> hb_Band a \<noteq> hb_Band b \<Longrightarrow> hotBefore a b"
  using strLess_total [of "hb_Band a" "hb_Band b"] by (auto simp: hotBefore_def split: if_splits)

definition hotRanking :: "dxConditionsResponse \<Rightarrow> string \<Rightarrow> hotBandsOptions \<Rightarrow> hotBandRecommendation list" where
  \<comment> \<open>every qualified band, best first\<close>
  "hotRanking cond currentBand opts = sort_by hotBefore (hotCandidates cond (normalizeBand currentBand) opts)"

lemma ranking_strict:
  assumes "distinct (map c_Band (r_Bands cond))"
  shows "sorted_wrt hotBefore (hotRanking cond cb opts)" "distinct (map hb_Band (hotRanking cond cb opts))"
proof -
  let ?s = "hotRanking cond cb opts"
  have "mset (map hb_Band ?s) = mset (map hb_Band (hotCandidates cond (normalizeBand cb) opts))"
    by (simp add: hotRanking_def)
  with candidate_bands [OF assms] show d: "distinct (map hb_Band ?s)" by (metis mset_eq_imp_distinct_iff)
  have "sorted_wrt hotBefore xs" if "sorted_wrt (\<lambda>a b. \<not> hotBefore b a) xs" "distinct (map hb_Band xs)" for xs
    using that
  proof (induction xs)
    case (Cons x xs)
    then show ?case by (auto intro!: hotBefore_total)
  qed simp
  then show "sorted_wrt hotBefore ?s" using d hot.sorted by (simp add: hotRanking_def)
qed

lemma recommendations_are_top:
  assumes "r_QTH cond \<noteq> []"
  shows "h_Recommendations (hotBandsFromConditions cond cb opts) = take (hotLimit opts) (hotRanking cond cb opts)"
  using assms
  by (auto simp: hotBandsFromConditions_def hotRanking_def sortHotBandRecommendations_def hotCandidates_def Let_def List.map_filter_def)

lemma mset_map_filter: "mset xs = mset ys \<Longrightarrow> mset (List.map_filter f xs) = mset (List.map_filter f ys)"
  unfolding List.map_filter_def by (metis mset_filter mset_map)

lemma ranking_determined:
  \<comment> \<open>the order of the bands in the evaluation plays no role\<close>
  assumes "distinct (map c_Band (r_Bands cond))" "mset (r_Bands cond') = mset (r_Bands cond)"
    "r_BaselineHistoryM cond' = r_BaselineHistoryM cond" "r_liveSpanMin cond' = r_liveSpanMin cond"
  shows "hotRanking cond' cb opts = hotRanking cond cb opts"
  unfolding hotRanking_def
proof (rule hot.determined [symmetric])
  show "mset (hotCandidates cond (normalizeBand cb) opts) = mset (hotCandidates cond' (normalizeBand cb) opts)"
    unfolding hotCandidates_def assms(3,4) by (rule mset_map_filter [OF assms(2) [symmetric]])
  show "a = b" if "a \<in> set (hotCandidates cond (normalizeBand cb) opts)" "b \<in> set (hotCandidates cond (normalizeBand cb) opts)"
    "\<not> hotBefore a b" "\<not> hotBefore b a" for a b
    using that candidate_bands [OF assms(1), of "normalizeBand cb" opts] hotBefore_total [of b a]
    by (metis distinct_map inj_onD)
qed

section \<open>The tail is a tail\<close>

definition poissonMass :: "real \<Rightarrow> nat \<Rightarrow> real" where
  "poissonMass lambda i = exp (- lambda) * (lambda ^ i / fact i)"

definition poissonTail :: "real \<Rightarrow> nat \<Rightarrow> real" where
  "poissonTail lambda k = (\<Sum>i. poissonMass lambda (k + i))"

lemma mass_nonneg: "0 \<le> lambda \<Longrightarrow> 0 \<le> poissonMass lambda i"
  by (simp add: poissonMass_def)

lemma mass_Suc: "poissonMass lambda (Suc i) = poissonMass lambda i * (lambda / real (Suc i))"
  by (simp add: poissonMass_def field_simps)

lemma mass_sums: "poissonMass lambda sums 1"
proof -
  have "(\<lambda>i. exp (- lambda) * (lambda ^ i /\<^sub>R fact i)) sums (exp (- lambda) * exp lambda)"
    by (intro sums_mult exp_converges)
  then show ?thesis by (simp add: poissonMass_def [abs_def] scaleR_conv_of_real field_simps flip: exp_add)
qed

lemma tail_head: "poissonTail lambda k = 1 - (\<Sum>i<k. poissonMass lambda i)"
  using suminf_split_initial_segment [OF sums_summable [OF mass_sums [of lambda]], of k] sums_unique [OF mass_sums [of lambda]]
  by (simp add: poissonTail_def add.commute)

lemma lowerSum_mass:
  "lowerSum n (Suc i) lambda (poissonMass lambda i) acc = acc + (\<Sum>j=Suc i..<Suc i + n. poissonMass lambda j)"
proof (induction n arbitrary: i acc)
  case (Suc n)
  have "(\<Sum>j=Suc i..<Suc i + Suc n. poissonMass lambda j) = poissonMass lambda (Suc i) + (\<Sum>j=Suc (Suc i)..<Suc (Suc i) + n. poissonMass lambda j)"
    by (simp add: sum.atLeast_Suc_lessThan del: sum.op_ivl_Suc)
  moreover have "poissonMass lambda i * (lambda / real (Suc i)) = poissonMass lambda (Suc i)" by (rule mass_Suc [symmetric])
  ultimately show ?case using Suc.IH [of "Suc i"] by (simp only: lowerSum.simps Let_def add.assoc Suc_eq_plus1 [symmetric])
qed simp

lemma upperSum_mass:
  assumes "0 \<le> lambda"
  shows "acc \<le> upperSum n (Suc i) lambda (poissonMass lambda i) acc"
    "upperSum n (Suc i) lambda (poissonMass lambda i) acc \<le> acc + (\<Sum>j=Suc i..<Suc i + n. poissonMass lambda j)"
proof (induction n arbitrary: i acc)
  case (Suc n)
  have m: "0 \<le> poissonMass lambda j" for j using assms by (rule mass_nonneg)
  have t: "poissonMass lambda i * (lambda / real (Suc i)) = poissonMass lambda (Suc i)" for i by (rule mass_Suc [symmetric])
  have e: "(\<Sum>j=Suc i..<Suc i + Suc n. poissonMass lambda j) = poissonMass lambda (Suc i) + (\<Sum>j=Suc (Suc i)..<Suc (Suc i) + n. poissonMass lambda j)" for i
    by (simp add: sum.atLeast_Suc_lessThan del: sum.op_ivl_Suc)
  { case 1
    show ?case
      using Suc.IH(1) [of "acc + poissonMass lambda (Suc i)" "Suc i"] m [of "Suc i"]
      unfolding upperSum.simps Let_def Suc_eq_plus1 [symmetric] t by (simp only: split: if_split) linarith }
  { case 2
    have "0 \<le> (\<Sum>j=Suc i..<Suc i + Suc n. poissonMass lambda j)" by (intro sum_nonneg m)
    with Suc.IH(2) [of "Suc i" "acc + poissonMass lambda (Suc i)"] show ?case
      unfolding upperSum.simps Let_def Suc_eq_plus1 [symmetric] t e by (simp only: split: if_split) linarith }
qed simp_all

lemma logTerm_mass: "0 < lambda \<Longrightarrow> exp (logTerm lambda k) = poissonMass lambda k"
  by (simp add: logTerm_def poissonMass_def exp_diff exp_add exp_minus exp_of_nat_mult field_simps)

lemma mass_geometric:
  assumes "0 \<le> lambda"
  shows "poissonMass lambda (k + j) \<le> poissonMass lambda k * (lambda / real (Suc k)) ^ j"
proof (induction j)
  case (Suc j)
  have "lambda / real (Suc (k + j)) \<le> lambda / real (Suc k)" using assms by (simp add: frac_le)
  then have "poissonMass lambda (k + j) * (lambda / real (Suc (k + j))) \<le> (poissonMass lambda k * (lambda / real (Suc k)) ^ j) * (lambda / real (Suc k))"
    using Suc assms by (intro mult_mono) (auto simp: mass_nonneg)
  then show ?case by (simp add: mass_Suc ac_simps)
qed simp

lemma tail_bounds:
  assumes "0 < lambda"
  shows "poissonMass lambda k \<le> poissonTail lambda k" "poissonTail lambda k \<le> 1"
    "(\<Sum>j<n. poissonMass lambda (k + j)) \<le> poissonTail lambda k"
    "lambda < real k \<Longrightarrow> poissonTail lambda k \<le> poissonMass lambda k * (real (Suc k) / (real (Suc k) - lambda))"
proof -
  have s: "summable (\<lambda>j. poissonMass lambda (k + j))"
    using summable_ignore_initial_segment [OF sums_summable [OF mass_sums [of lambda]], of k] by (simp add: add.commute)
  have m: "0 \<le> poissonMass lambda j" for j using assms by (simp add: mass_nonneg)
  show p: "(\<Sum>j<n. poissonMass lambda (k + j)) \<le> poissonTail lambda k" for n
    unfolding poissonTail_def by (rule sum_le_suminf [OF s]) (simp_all add: m)
  show "poissonMass lambda k \<le> poissonTail lambda k" using p [of 1] by simp
  show "poissonTail lambda k \<le> 1" by (simp add: tail_head sum_nonneg m)
  show "poissonTail lambda k \<le> poissonMass lambda k * (real (Suc k) / (real (Suc k) - lambda))" if "lambda < real k"
  proof -
    let ?r = "lambda / real (Suc k)"
    have r: "norm ?r < 1" using assms that by simp
    have "poissonTail lambda k \<le> (\<Sum>j. poissonMass lambda k * ?r ^ j)"
      unfolding poissonTail_def
      by (rule suminf_le [OF _ s]) (use assms mass_geometric [of lambda k] summable_mult [OF summable_geometric [OF r]] in auto)
    also have "\<dots> = poissonMass lambda k * (1 / (1 - ?r))"
      using suminf_mult [OF summable_geometric [OF r]] suminf_geometric [OF r] by simp
    also have "1 / (1 - ?r) = real (Suc k) / (real (Suc k) - lambda)" using that by (simp add: field_simps)
    finally show ?thesis .
  qed
qed

lemma clamp01_id: "0 \<le> v \<Longrightarrow> v \<le> 1 \<Longrightarrow> clamp01 v = v"
  by (simp add: clamp01_def)

lemma poisson_tail:
  assumes "0 < lambda" "0 < k"
  shows "real k \<le> lambda \<Longrightarrow> poissonUpperTail (int k) lambda = poissonTail lambda k"
    "lambda < real k \<Longrightarrow> poissonUpperTail (int k) lambda \<le> poissonTail lambda k \<and>
       poissonTail lambda k \<le> poissonUpperTail (int k) lambda * (real (Suc k) / (real (Suc k) - lambda))"
proof -
  have m: "0 \<le> poissonMass lambda j" for j using assms by (simp add: mass_nonneg)
  obtain n where n: "k = Suc n" using assms(2) by (cases k) auto
  then have nk: "k - Suc 0 = n" by simp
  have "lowerSum n 1 lambda (exp (- lambda)) (exp (- lambda)) = (\<Sum>i<k. poissonMass lambda i)"
    using lowerSum_mass [of n 0 lambda "poissonMass lambda 0"]
    by (simp add: n poissonMass_def [of lambda 0] lessThan_atLeast0 sum.atLeast_Suc_lessThan del: sum.op_ivl_Suc)
  then have "1 - lowerSum n 1 lambda (exp (- lambda)) (exp (- lambda)) = poissonTail lambda k" by (simp add: tail_head)
  moreover have "0 \<le> poissonTail lambda k" using tail_bounds(1) [OF assms(1), of k] m [of k] by linarith
  ultimately show "poissonUpperTail (int k) lambda = poissonTail lambda k" if "real k \<le> lambda"
    using that assms tail_bounds(2) [OF assms(1), of k] by (simp add: poissonUpperTail_def nk Let_def clamp01_id)
  show "poissonUpperTail (int k) lambda \<le> poissonTail lambda k \<and>
       poissonTail lambda k \<le> poissonUpperTail (int k) lambda * (real (Suc k) / (real (Suc k) - lambda))" if l: "lambda < real k"
  proof -
    define u where "u = upperSum 9999 (Suc k) lambda (poissonMass lambda k) (poissonMass lambda k)"
    have u: "poissonMass lambda k \<le> u" "u \<le> poissonMass lambda k + (\<Sum>j=Suc k..<Suc k + 9999. poissonMass lambda j)"
      unfolding u_def by (rule upperSum_mass, use assms(1) in simp)+
    have "poissonMass lambda k + (\<Sum>j=Suc k..<Suc k + 9999. poissonMass lambda j) = (\<Sum>j<10000. poissonMass lambda (k + j))"
    proof -
      have "poissonMass lambda k + (\<Sum>j=Suc k..<Suc k + 9999. poissonMass lambda j) = (\<Sum>j=k..<k + 10000. poissonMass lambda j)"
        by (subst sum.atLeast_Suc_lessThan [of k]) (simp_all add: add.commute)
      also have "\<dots> = (\<Sum>j<10000. poissonMass lambda (k + j))"
        using sum.shift_bounds_nat_ivl [of "poissonMass lambda" 0 k 10000] by (simp add: lessThan_atLeast0 add.commute)
      finally show ?thesis .
    qed
    with u(2) tail_bounds(3) [OF assms(1), of k 10000] have ut: "u \<le> poissonTail lambda k" by linarith
    have grow: "poissonMass lambda k * (real (Suc k) / (real (Suc k) - lambda)) \<le> u * (real (Suc k) / (real (Suc k) - lambda))"
      using u(1) l by (intro mult_right_mono) auto
    have "poissonUpperTail (int k) lambda = u"
      using l assms ut u(1) m [of k] tail_bounds(2) [OF assms(1), of k] logTerm_mass [OF assms(1), of k]
      by (simp add: poissonUpperTail_def Let_def u_def [symmetric] clamp01_id)
    then show ?thesis using ut order_trans [OF tail_bounds(4) [OF assms(1) l] grow] by metis
  qed
qed

section \<open>The lite evaluation is enough\<close>

lemma alertCond_keeps [simp]:
  "c_Band (alertCond b) = c_Band b" "hotRatio (alertCond b) = hotRatio b" "hotBaselineRate (alertCond b) = hotBaselineRate b"
  "hotRecord (alertCond b) = hotRecord b" "hotWanted x opts (alertCond b) = hotWanted x opts b"
  "unusualOpening (alertCond b) sp = unusualOpening b sp" "dxSurge (alertCond b) = dxSurge b" "risingBand (alertCond b) = risingBand b"
proof -
  show r: "hotBaselineRate (alertCond b) = hotBaselineRate b" by (simp add: alertCond_def hotBaselineRate_def)
  then show t: "hotRatio (alertCond b) = hotRatio b" by (simp add: hotRatio_def) (simp add: alertCond_def)
  show "unusualOpening (alertCond b) sp = unusualOpening b sp" by (simp add: unusualOpening_def r t) (simp add: alertCond_def)
  show "dxSurge (alertCond b) = dxSurge b" by (simp add: dxSurge_def alertCond_def)
  show "risingBand (alertCond b) = risingBand b" by (simp add: risingBand_def t) (simp add: alertCond_def)
  show "hotRecord (alertCond b) = hotRecord b" by (intro ext) (simp add: hotRecord_def t, simp add: alertCond_def)
qed (simp_all add: alertCond_def hotWanted_def)

lemma classify_lite [simp]: "classifyHotBand (alertCond b) tr sp = classifyHotBand b tr sp"
  by (simp add: classifyHotBand_def) (simp add: alertCond_def)

lemma holding_lite: "holdingOf (map alertCond bs) band = holdingOf bs band"
proof -
  have "find (\<lambda>b. c_Band b = band) (map alertCond bs) = map_option alertCond (find (\<lambda>b. c_Band b = band) bs)" for bs
    by (induction bs) simp_all
  from this [of "rev bs"] show ?thesis
    by (cases "find (\<lambda>b. c_Band b = band) (rev bs)") (simp_all add: holdingOf_def rev_map alertCond_def)
qed

lemma holding_perm:
  assumes "distinct (map c_Band bs)" "mset bs' = mset bs"
  shows "holdingOf bs' band = holdingOf bs band"
proof -
  have f: "find (\<lambda>b. c_Band b = band) (rev xs) = Some x \<longleftrightarrow> x \<in> set xs \<and> c_Band x = band" if "distinct (map c_Band xs)" for xs x
  proof -
    have 1: "find (\<lambda>b. c_Band b = band) (rev xs) = Some y \<Longrightarrow> y \<in> set xs \<and> c_Band y = band" for y
      by (metis (mono_tags, lifting) find_Some_iff length_rev nth_mem set_rev)
    have 2: "find (\<lambda>b. c_Band b = band) (rev xs) = None \<Longrightarrow> y \<in> set xs \<Longrightarrow> c_Band y \<noteq> band" for y
      by (simp add: find_None_iff)
    show ?thesis
    proof
      assume x: "x \<in> set xs \<and> c_Band x = band"
      then obtain y where y: "find (\<lambda>b. c_Band b = band) (rev xs) = Some y" using 2 by blast
      then have "y = x" using 1 [OF y] x that by (metis distinct_map inj_onD)
      then show "find (\<lambda>b. c_Band b = band) (rev xs) = Some x" using y by simp
    qed (rule 1)
  qed
  have d: "distinct (map c_Band bs')" using assms by (metis mset_eq_imp_distinct_iff mset_map)
  have "find (\<lambda>b. c_Band b = band) (rev bs') = find (\<lambda>b. c_Band b = band) (rev bs)"
    using f [OF d] f [OF assms(1)] mset_eq_setD [OF assms(2)]
    by (cases "find (\<lambda>b. c_Band b = band) (rev bs')"; cases "find (\<lambda>b. c_Band b = band) (rev bs)") fastforce+
  then show ?thesis by (simp add: holdingOf_def)
qed

lemma hot_bands_perm:
  assumes "distinct (map c_Band (r_Bands cond))" "mset (r_Bands cond') = mset (r_Bands cond)"
    "r_BaselineHistoryM cond' = r_BaselineHistoryM cond" "r_liveSpanMin cond' = r_liveSpanMin cond"
    "r_QTH cond' = r_QTH cond" "r_Surroundings cond' = r_Surroundings cond" "r_CurrentSlotOfDay cond' = r_CurrentSlotOfDay cond"
    "r_GeneratedAt cond' = r_GeneratedAt cond" "r_Area cond' = r_Area cond"
  shows "hotBandsFromConditions cond' cb opts = hotBandsFromConditions cond cb opts"
proof -
  have "r_Bands cond' = [] \<longleftrightarrow> r_Bands cond = []" using assms(2) by (metis mset_zero_iff)
  moreover have "holdingOf (r_Bands cond') = holdingOf (r_Bands cond)"
    by (rule ext) (rule holding_perm [OF assms(1,2)])
  moreover have "sortHotBandRecommendations (hotCandidates cond' (normalizeBand cb) opts) = sortHotBandRecommendations (hotCandidates cond (normalizeBand cb) opts)"
    using ranking_determined [OF assms(1-4), of cb opts] by (simp add: hotRanking_def sortHotBandRecommendations_def)
  ultimately show ?thesis by (simp add: hotBandsFromConditions_def Let_def assms(3-))
qed

lemma lite_conditions:
  assumes "alertCore r' = alertCore r" "distinct (map c_Band (r_Bands r))"
  shows "hotBandsFromConditions r' cb opts = hotBandsFromConditions r cb opts"
proof -
  have "List.map_filter g (map alertCond bs) = List.map_filter (\<lambda>b. g (alertCond b)) bs" for g :: "dxBandCondition \<Rightarrow> hotBandRecommendation option" and bs
    by (simp add: List.map_filter_def filter_map comp_def)
  then have "hotCandidates (alertResponse r) x opts = hotCandidates r x opts" for r x
    by (simp add: hotCandidates_def alertResponse_def cong: if_cong)
  moreover have same: "r_QTH (alertResponse r) = r_QTH r" "r_Bands (alertResponse r) = map alertCond (r_Bands r)"
    "r_Surroundings (alertResponse r) = r_Surroundings r" "r_CurrentSlotOfDay (alertResponse r) = r_CurrentSlotOfDay r"
    "r_GeneratedAt (alertResponse r) = r_GeneratedAt r" "r_BaselineHistoryM (alertResponse r) = r_BaselineHistoryM r"
    "r_Area (alertResponse r) = r_Area r" "r_liveSpanMin (alertResponse r) = r_liveSpanMin r" for r
    by (simp_all add: alertResponse_def)
  ultimately have lite: "hotBandsFromConditions (alertResponse r) cb opts = hotBandsFromConditions r cb opts" for r
    by (simp add: hotBandsFromConditions_def Let_def holding_lite [abs_def] cong: if_cong)
  have core: "mset (map alertCond (r_Bands r')) = mset (map alertCond (r_Bands r))"
    "r'\<lparr>r_Bands := [], r_BestBands := [], r_RecommendedBands := [], r_WorstBands := [], r_AvoidBands := []\<rparr> =
     r\<lparr>r_Bands := [], r_BestBands := [], r_RecommendedBands := [], r_WorstBands := [], r_AvoidBands := []\<rparr>"
    using assms(1) by (simp_all add: alertCore_def)
  have keep: "g r' = g r" if "\<And>x a b c d e. g (x\<lparr>r_Bands := a, r_BestBands := b, r_RecommendedBands := c, r_WorstBands := d, r_AvoidBands := e\<rparr>) = g x"
    for g :: "dxConditionsResponse \<Rightarrow> 'z" using arg_cong [OF core(2), of g] that by simp
  have d: "distinct (map c_Band (r_Bands (alertResponse r)))" using assms(2) by (simp add: same comp_def)
  have "hotBandsFromConditions (alertResponse r') cb opts = hotBandsFromConditions (alertResponse r) cb opts"
  proof (rule hot_bands_perm [OF d])
    show "mset (r_Bands (alertResponse r')) = mset (r_Bands (alertResponse r))" using core(1) by (simp only: same)
  qed (simp_all only: same, rule keep, simp_all, (rule keep, simp)+)
  then show ?thesis by (simp only: lite)
qed

lemma hot_bands_lite:
  assumes "slice_sort_ok (env_sort env)"
    and "snd (EvaluateAreaWindow env e st cache qth s minutes cw win now area) = Some cond" "distinct (map c_Band (r_Bands cond))"
  shows "snd (HotBandsAreaWindow env e st cache qth s minutes cw cb win now area opts) = Some (hotBandsFromConditions cond cb opts)"
proof -
  obtain r where r: "snd (evaluateAreaWindow env e st cache qth s minutes cw win now area True) = Some r" "liteAgrees r cond"
    using lite_evaluation [OF assms(1), of e st cache qth s minutes cw win now area] assms(2)
    by (auto simp: EvaluateAreaWindow_def option_rel_Some2)
  then have "hotBandsFromConditions r cb opts = hotBandsFromConditions cond cb opts"
    by (intro lite_conditions assms(3)) (simp add: liteAgrees_def)
  then show ?thesis using r(1) by (simp add: HotBandsAreaWindow_def case_prod_unfold)
qed

end
