(* ===== verification/HorstStore.thy ===== *)
theory HorstStore
  imports Assoc Maidenhead Messages
begin

text \<open>
  cmd/horstprop: the geometry (internal/geo/geo.go) and the rolling store of reception reports
  (internal/store/store.go). Times and durations are integers (nanoseconds), the store's map an
  association list. The store is refined by the log of all reports it accepted: with a clock that
  does not go back, a lookup finds exactly the fresh ones of the squares around the DX, whatever
  was pruned before (\<open>lookup_is_log\<close>).
\<close>

section \<open>Geometry\<close>

record LatLon =
  ll_Lat :: real
  ll_Lon :: real

definition MaidenheadCenter :: "string \<Rightarrow> LatLon option" where
  "MaidenheadCenter grid =
     (let g = TrimSpace (ToUpper grid)
      in if length g \<noteq> 4 \<and> length g \<noteq> 6 then None
         else if bt g 0 < 65 \<or> bt g 0 > 82 \<or> bt g 1 < 65 \<or> bt g 1 > 82 then None
         else if bt g 2 < 48 \<or> bt g 2 > 57 \<or> bt g 3 < 48 \<or> bt g 3 > 57 then None
         else let lon = real_of_int (bt g 0 - 65) * 20 - 180; lat = real_of_int (bt g 1 - 65) * 10 - 90;
                  lon = lon + real_of_int (bt g 2 - 48) * 2; lat = lat + real_of_int (bt g 3 - 48)
              in if length g = 6
                 then if bt g 4 < 65 \<or> bt g 4 > 88 \<or> bt g 5 < 65 \<or> bt g 5 > 88 then None
                      else Some \<lparr>ll_Lat = lat + real_of_int (bt g 5 - 65) * (1 / 24) + (1 / 24) / 2,
                                 ll_Lon = lon + real_of_int (bt g 4 - 65) * (2 / 24) + (2 / 24) / 2\<rparr>
                 else Some \<lparr>ll_Lat = lat + 1/2, ll_Lon = lon + 1\<rparr>)"

definition rad :: "real \<Rightarrow> real" where "rad d = d * pi / 180"
definition deg :: "real \<Rightarrow> real" where "deg r = r * 180 / pi"

definition geo_HaversineKm :: "LatLon \<Rightarrow> LatLon \<Rightarrow> real" where
  "geo_HaversineKm a b =
     (let r = 6371; dLat = rad (ll_Lat b - ll_Lat a); dLon = rad (ll_Lon b - ll_Lon a);
          h = sin (dLat/2) * sin (dLat/2) + cos (rad (ll_Lat a)) * cos (rad (ll_Lat b)) * sin (dLon/2) * sin (dLon/2)
      in r * 2 * atan2 (sqrt h) (sqrt (1 - h)))"

definition fmod :: "real \<Rightarrow> real \<Rightarrow> real" where
  \<comment> \<open>\<open>math.Mod\<close>\<close>
  "fmod x y = x - y * real_of_int (trunc (x / y))"

definition BearingDeg :: "LatLon \<Rightarrow> LatLon \<Rightarrow> real" where
  "BearingDeg src dst =
     (let y = sin (rad (ll_Lon dst - ll_Lon src)) * cos (rad (ll_Lat dst));
          x = cos (rad (ll_Lat src)) * sin (rad (ll_Lat dst))
              - sin (rad (ll_Lat src)) * cos (rad (ll_Lat dst)) * cos (rad (ll_Lon dst - ll_Lon src))
      in fmod (atan2 y x * 180 / pi + 360) 360)"

definition hypot :: "real \<Rightarrow> real \<Rightarrow> real" where "hypot x y = sqrt (x * x + y * y)"

definition IntermediatePoint :: "LatLon \<Rightarrow> LatLon \<Rightarrow> real \<Rightarrow> LatLon" where
  "IntermediatePoint a b f =
     (let p1 = rad (ll_Lat a); l1 = rad (ll_Lon a); p2 = rad (ll_Lat b); l2 = rad (ll_Lon b);
          sLat = sin ((p2 - p1) / 2); sLon = sin ((l2 - l1) / 2);
          d = 2 * arcsin (sqrt (sLat * sLat + cos p1 * cos p2 * sLon * sLon))
      in if d = 0 then a
         else let A = sin ((1 - f) * d) / sin d; B = sin (f * d) / sin d;
                  x = A * cos p1 * cos l1 + B * cos p2 * cos l2;
                  y = A * cos p1 * sin l1 + B * cos p2 * sin l2;
                  z = A * sin p1 + B * sin p2
              in \<lparr>ll_Lat = deg (atan2 z (hypot x y)), ll_Lon = deg (atan2 y x)\<rparr>)"

definition geo_SquareXY :: "string \<Rightarrow> (int \<times> int) option" where
  "geo_SquareXY locator =
     (let g = TrimSpace (ToUpper locator)
      in if length g < 4 \<or> bt g 0 < 65 \<or> bt g 0 > 82 \<or> bt g 1 < 65 \<or> bt g 1 > 82 \<or>
            bt g 2 < 48 \<or> bt g 2 > 57 \<or> bt g 3 < 48 \<or> bt g 3 > 57 then None
         else Some ((bt g 0 - 65) * 10 + (bt g 2 - 48), (bt g 1 - 65) * 10 + (bt g 3 - 48)))"

definition clampSquare :: "int \<Rightarrow> int" where
  "clampSquare v = (if v < 0 then 0 else if v > 179 then 179 else v)"

definition SquareXYFromLatLon :: "LatLon \<Rightarrow> int \<times> int" where
  "SquareXYFromLatLon ll = (clampSquare \<lfloor>(ll_Lon ll + 180) / 2\<rfloor>, clampSquare \<lfloor>ll_Lat ll + 90\<rfloor>)"

definition FreqToBand :: "int \<Rightarrow> string" where
  "FreqToBand freqHz =
     (let khz = quot freqHz 1000
      in if khz \<ge> 1800 \<and> khz \<le> 2000 then ''160m''
         else if khz \<ge> 3500 \<and> khz \<le> 4000 then ''80m''
         else if khz \<ge> 5250 \<and> khz \<le> 5450 then ''60m''
         else if khz \<ge> 7000 \<and> khz \<le> 7300 then ''40m''
         else if khz \<ge> 10100 \<and> khz \<le> 10150 then ''30m''
         else if khz \<ge> 14000 \<and> khz \<le> 14350 then ''20m''
         else if khz \<ge> 18068 \<and> khz \<le> 18168 then ''17m''
         else if khz \<ge> 21000 \<and> khz \<le> 21450 then ''15m''
         else if khz \<ge> 24890 \<and> khz \<le> 24990 then ''12m''
         else if khz \<ge> 28000 \<and> khz \<le> 29700 then ''10m''
         else if khz \<ge> 50000 \<and> khz \<le> 54000 then ''6m''
         else [])"

lemma geo_SquareXY_eq: "geo_SquareXY l = SquareXY (TrimSpace (ToUpper l))"
  by (simp add: geo_SquareXY_def SquareXY_def IsLocator_def Let_def)

lemma centre_square:
  \<comment> \<open>the centre of a locator lies in the square of the locator\<close>
  assumes "MaidenheadCenter grid = Some ll"
  shows "geo_SquareXY grid = Some (SquareXYFromLatLon ll)"
proof -
  define g where "g = TrimSpace (ToUpper grid)"
  have fl: "\<lfloor>real_of_int n + v\<rfloor> = n" if "0 \<le> v" "v < 1" for n v using that by linarith
  have cl: "clampSquare ((b - 65) * 10 + (d - 48)) = (b - 65) * 10 + (d - 48)" if "65 \<le> b" "b \<le> 82" "48 \<le> d" "d \<le> 57" for b d
    using that by (simp add: clampSquare_def)
  have lon: "(real_of_int (b - 65) * 20 - 180 + real_of_int (d - 48) * 2 + v + 180) / 2 = real_of_int ((b - 65) * 10 + (d - 48)) + v / 2" for b d v
    by (simp add: field_simps)
  have lat: "real_of_int (b - 65) * 10 - 90 + real_of_int (d - 48) + v + 90 = real_of_int ((b - 65) * 10 + (d - 48)) + v" for b d v
    by simp
  consider (short) "length g = 4" "ll = \<lparr>ll_Lat = real_of_int (bt g 1 - 65) * 10 - 90 + real_of_int (bt g 3 - 48) + 1/2,
        ll_Lon = real_of_int (bt g 0 - 65) * 20 - 180 + real_of_int (bt g 2 - 48) * 2 + 1\<rparr>"
    | (long) "length g = 6" "65 \<le> bt g 4" "bt g 4 \<le> 88" "65 \<le> bt g 5" "bt g 5 \<le> 88"
      "ll = \<lparr>ll_Lat = real_of_int (bt g 1 - 65) * 10 - 90 + real_of_int (bt g 3 - 48) + (real_of_int (bt g 5 - 65) / 24 + 1/48),
        ll_Lon = real_of_int (bt g 0 - 65) * 20 - 180 + real_of_int (bt g 2 - 48) * 2 + (real_of_int (bt g 4 - 65) / 12 + 1/24)\<rparr>"
    using assms unfolding MaidenheadCenter_def Let_def g_def [symmetric]
    by (auto split: if_splits simp: field_simps)
  moreover have r: "65 \<le> bt g 0" "bt g 0 \<le> 82" "65 \<le> bt g 1" "bt g 1 \<le> 82" "48 \<le> bt g 2" "bt g 2 \<le> 57" "48 \<le> bt g 3" "bt g 3 \<le> 57" "4 \<le> length g"
    using assms unfolding MaidenheadCenter_def Let_def g_def [symmetric] by (auto split: if_splits)
  moreover have s: "geo_SquareXY grid = Some ((bt g 0 - 65) * 10 + (bt g 2 - 48), (bt g 1 - 65) * 10 + (bt g 3 - 48))"
    using r unfolding geo_SquareXY_def Let_def g_def [symmetric] by simp
  ultimately show ?thesis
  proof cases
    case short
    then show ?thesis unfolding s SquareXYFromLatLon_def short(2) LatLon.select_convs lon lat by (simp only: fl cl r)
  next
    case long
    have "0 \<le> real_of_int (bt g 5 - 65) / 24 + 1/48" "real_of_int (bt g 5 - 65) / 24 + 1/48 < 1"
      "0 \<le> (real_of_int (bt g 4 - 65) / 12 + 1/24) / 2" "(real_of_int (bt g 4 - 65) / 12 + 1/24) / 2 < 1"
      using long(2-5) by (simp_all add: field_simps)
    then show ?thesis unfolding s SquareXYFromLatLon_def long(6) LatLon.select_convs lon lat by (simp only: fl cl r)
  qed
qed

section \<open>The store\<close>

record propReport =
  pr_TxLocator :: string
  pr_RxLocator :: string
  pr_SNRDb :: int
  pr_Band :: string
  pr_Source :: string
  pr_ObservedAt :: int

record reception =
  rep_SNRDb :: int
  rep_At :: int

type_synonym storeKey = "string \<times> int \<times> int"

record rollingStore =
  st_window :: int
  st_homeX :: int
  st_homeY :: int
  st_homeRings :: int
  st_buckets :: "(storeKey \<times> reception list) list"

definition newStore :: "int \<Rightarrow> int \<Rightarrow> int \<Rightarrow> int \<Rightarrow> rollingStore" where
  "newStore window homeX homeY homeRings =
     \<lparr>st_window = window, st_homeX = homeX, st_homeY = homeY, st_homeRings = homeRings, st_buckets = []\<rparr>"

definition forwardPath :: "rollingStore \<Rightarrow> propReport \<Rightarrow> (storeKey \<times> reception) option" where
  \<comment> \<open>the tests of \<open>Add\<close>: the bucket and the report kept in it\<close>
  "forwardPath s pr =
     (case geo_SquareXY (pr_RxLocator pr) of None \<Rightarrow> None
      | Some (rx, ry) \<Rightarrow>
          if \<bar>rx - st_homeX s\<bar> > st_homeRings s \<or> \<bar>ry - st_homeY s\<bar> > st_homeRings s then None
          else case geo_SquareXY (pr_TxLocator pr) of None \<Rightarrow> None
               | Some (tx, ty) \<Rightarrow>
                   if pr_Band pr = [] then None
                   else Some ((pr_Band pr, tx, ty), \<lparr>rep_SNRDb = pr_SNRDb pr, rep_At = pr_ObservedAt pr\<rparr>))"

definition bucketOf :: "rollingStore \<Rightarrow> storeKey \<Rightarrow> reception list" where
  \<comment> \<open>\<open>s.buckets[k]\<close>, nil when absent\<close>
  "bucketOf s k = (case map_of (st_buckets s) k of Some reps \<Rightarrow> reps | None \<Rightarrow> [])"

definition store_Add :: "rollingStore \<Rightarrow> propReport \<Rightarrow> rollingStore" where
  "store_Add s pr =
     (case forwardPath s pr of None \<Rightarrow> s
      | Some (k, r) \<Rightarrow> s\<lparr>st_buckets := AList.update k (bucketOf s k @ [r]) (st_buckets s)\<rparr>)"

definition fresh :: "int \<Rightarrow> reception list \<Rightarrow> reception list" where
  "fresh cutoff reps = filter (\<lambda>r. rep_At r > cutoff) reps"

definition lookupStep :: "string \<Rightarrow> int \<Rightarrow> rollingStore \<times> reception list \<Rightarrow> int \<times> int \<Rightarrow> rollingStore \<times> reception list" where
  \<comment> \<open>the body of the two loops of \<open>Lookup\<close>\<close>
  "lookupStep band cutoff so p =
     (case so of (s, out) \<Rightarrow>
        let k = (band, fst p, snd p)
        in case map_of (st_buckets s) k of
             None \<Rightarrow> (s, out)
           | Some reps \<Rightarrow>
               let kept = fresh cutoff reps
               in (s\<lparr>st_buckets := (if kept = [] then AList.delete k (st_buckets s) else AList.update k kept (st_buckets s))\<rparr>,
                   out @ kept))"

definition squaresAround :: "int \<Rightarrow> int \<Rightarrow> int \<Rightarrow> (int \<times> int) list" where
  "squaresAround dxX dxY rings = concat (map (\<lambda>dx. map (\<lambda>dy. (dxX + dx, dxY + dy)) [- rings..rings]) [- rings..rings])"

definition store_Lookup :: "rollingStore \<Rightarrow> int \<Rightarrow> string \<Rightarrow> int \<Rightarrow> int \<Rightarrow> int \<Rightarrow> rollingStore \<times> reception list" where
  "store_Lookup s now band dxX dxY matchRings =
     foldl (lookupStep band (now - st_window s)) (s, []) (squaresAround dxX dxY matchRings)"

definition store_Prune :: "rollingStore \<Rightarrow> int \<Rightarrow> rollingStore" where
  "store_Prune s now =
     s\<lparr>st_buckets := filter (\<lambda>(k, kept). kept \<noteq> [])
         (map (\<lambda>(k, reps). (k, fresh (now - st_window s) reps)) (st_buckets s))\<rparr>"

definition store_Len :: "rollingStore \<Rightarrow> nat" where
  "store_Len s = sum_list (map (\<lambda>(k, reps). length reps) (st_buckets s))"

section \<open>Refinement by the log\<close>

datatype storeCall = AddReport propReport | LookupAround string int int int | PruneExpired

fun storeCall_run :: "rollingStore \<Rightarrow> int \<times> storeCall \<Rightarrow> rollingStore" where
  \<comment> \<open>a call at a time of the clock\<close>
  "storeCall_run s (now, AddReport pr) = store_Add s pr"
| "storeCall_run s (now, LookupAround band x y rings) = fst (store_Lookup s now band x y rings)"
| "storeCall_run s (now, PruneExpired) = store_Prune s now"

fun logged :: "rollingStore \<Rightarrow> int \<times> storeCall \<Rightarrow> (storeKey \<times> reception) list" where
  "logged s (now, AddReport pr) = (case forwardPath s pr of None \<Rightarrow> [] | Some e \<Rightarrow> [e])"
| "logged s (now, LookupAround band x y rings) = []"
| "logged s (now, PruneExpired) = []"

definition loggedAt :: "storeKey \<Rightarrow> (storeKey \<times> reception) list \<Rightarrow> reception list" where
  "loggedAt k es = map snd (filter (\<lambda>e. fst e = k) es)"

definition holds :: "rollingStore \<Rightarrow> (storeKey \<times> reception) list \<Rightarrow> int \<Rightarrow> bool" where
  \<comment> \<open>past the cutoff the store holds the log\<close>
  "holds s es c0 \<longleftrightarrow> distinct (map fst (st_buckets s)) \<and>
     (\<forall>k c. c0 \<le> c \<longrightarrow> fresh c (bucketOf s k) = fresh c (loggedAt k es))"

lemma fresh_simps [simp]: "fresh c [] = []" "fresh c (xs @ ys) = fresh c xs @ fresh c ys"
  by (simp_all add: fresh_def)

lemma fresh_fresh: "c \<le> d \<Longrightarrow> fresh d (fresh c xs) = fresh d xs"
  by (auto simp: fresh_def intro: filter_cong)

lemma holds_later: "holds s es c \<Longrightarrow> c \<le> d \<Longrightarrow> holds s es d"
  by (auto simp: holds_def)

lemma add_bucket:
  "forwardPath s pr = Some (k, r) \<Longrightarrow> bucketOf (store_Add s pr) k' = bucketOf s k' @ (if k' = k then [r] else [])"
  by (simp add: store_Add_def bucketOf_def assoc)

lemma add_holds:
  assumes "holds s es c"
  shows "holds (store_Add s pr) (es @ logged s (now, AddReport pr)) c"
proof (cases "forwardPath s pr")
  case None
  then show ?thesis using assms by (simp add: store_Add_def)
next
  case (Some e)
  then obtain k r where e: "forwardPath s pr = Some (k, r)" by (cases e) auto
  have "distinct (map fst (st_buckets (store_Add s pr)))" using assms by (simp add: store_Add_def e holds_def assoc)
  moreover have "loggedAt k' (es @ [(k, r)]) = loggedAt k' es @ (if k' = k then [r] else [])" for k' by (auto simp: loggedAt_def)
  ultimately show ?thesis using assms add_bucket [OF e] unfolding holds_def by (simp add: e)
qed

lemma lookup_step:
  assumes "holds s es c0" "c0 \<le> c"
  shows "lookupStep band c (s, out) p = (s', out') \<Longrightarrow>
     holds s' es c \<and> out' = out @ fresh c (loggedAt (band, p) es) \<and> st_window s' = st_window s \<and>
     st_homeX s' = st_homeX s \<and> st_homeY s' = st_homeY s \<and> st_homeRings s' = st_homeRings s"
proof -
  assume e: "lookupStep band c (s, out) p = (s', out')"
  have u: "fresh c (bucketOf s k) = fresh c (loggedAt k es)" for k using assms unfolding holds_def by blast
  have d: "distinct (map fst (st_buckets s))" using assms(1) by (simp add: holds_def)
  have "fresh d (bucketOf s' k) = fresh d (bucketOf s k)" if "c \<le> d" for d k
    using e that fresh_fresh [OF that]
    by (auto simp: lookupStep_def bucketOf_def Let_def assoc split: option.splits if_splits) (metis fresh_fresh fresh_simps(1))
  moreover have "distinct (map fst (st_buckets s'))"
    using e d by (auto simp: lookupStep_def Let_def assoc split: option.splits if_splits)
  ultimately have "holds s' es c" using holds_later [OF assms] by (simp add: holds_def)
  moreover have "out' = out @ fresh c (bucketOf s (band, p))"
    using e by (auto simp: lookupStep_def bucketOf_def Let_def split: option.splits)
  moreover have "st_window s' = st_window s \<and> st_homeX s' = st_homeX s \<and> st_homeY s' = st_homeY s \<and> st_homeRings s' = st_homeRings s"
    using e by (auto simp: lookupStep_def Let_def split: option.splits)
  ultimately show ?thesis using u by simp
qed

lemma lookup_steps:
  assumes "holds s es c0" "c0 \<le> c" "foldl (lookupStep band c) (s, out) ps = (s', out')"
  shows "holds s' es (if ps = [] then c0 else c) \<and> out' = out @ concat (map (\<lambda>p. fresh c (loggedAt (band, p) es)) ps) \<and>
    st_window s' = st_window s \<and> st_homeX s' = st_homeX s \<and> st_homeY s' = st_homeY s \<and> st_homeRings s' = st_homeRings s"
  using assms
proof (induction ps arbitrary: s out c0)
  case (Cons p ps)
  obtain s1 out1 where e: "lookupStep band c (s, out) p = (s1, out1)" by (cases "lookupStep band c (s, out) p")
  from lookup_step [OF Cons.prems(1,2) e] Cons.IH [of s1 c out1] Cons.prems(3) e show ?case
    by (cases "ps = []") auto
qed simp

definition sameStation :: "rollingStore \<Rightarrow> rollingStore \<Rightarrow> bool" where
  "sameStation s s' \<longleftrightarrow> st_window s' = st_window s \<and> st_homeX s' = st_homeX s \<and> st_homeY s' = st_homeY s \<and> st_homeRings s' = st_homeRings s"

lemma lookup_holds:
  assumes "holds s es c0" "c0 \<le> now - st_window s" "store_Lookup s now band x y rings = (s', out)"
  shows "holds s' es (now - st_window s)" "out = concat (map (\<lambda>p. fresh (now - st_window s) (loggedAt (band, p) es)) (squaresAround x y rings))"
    "sameStation s s'"
proof -
  from lookup_steps [OF assms(1,2) assms(3) [unfolded store_Lookup_def]]
  show "out = concat (map (\<lambda>p. fresh (now - st_window s) (loggedAt (band, p) es)) (squaresAround x y rings))" "sameStation s s'"
    "holds s' es (now - st_window s)"
    using holds_later [OF _ assms(2)] by (auto simp: sameStation_def split: if_splits)
qed

lemma prune_bucket:
  assumes "distinct (map fst (st_buckets s))"
  shows "bucketOf (store_Prune s now) k = fresh (now - st_window s) (bucketOf s k)"
    "distinct (map fst (st_buckets (store_Prune s now)))"
proof -
  let ?m = "map (\<lambda>(k, reps). (k, fresh (now - st_window s) reps)) (st_buckets s)"
  have k: "map fst ?m = map fst (st_buckets s)" by (simp add: case_prod_unfold comp_def)
  with assms have dm: "distinct (map fst ?m)" by metis
  then show "distinct (map fst (st_buckets (store_Prune s now)))" by (simp add: store_Prune_def distinct_keys_filter)
  have m: "map_of ?m k = map_option (fresh (now - st_window s)) (map_of (st_buckets s) k)" by (simp add: map_of_map)
  from map_of_filter [OF dm, of "\<lambda>(k, kept). kept \<noteq> []" k]
  show "bucketOf (store_Prune s now) k = fresh (now - st_window s) (bucketOf s k)"
    by (simp add: store_Prune_def bucketOf_def m split: option.split)
qed

lemma prune_holds:
  assumes "holds s es c0" "c0 \<le> now - st_window s"
  shows "holds (store_Prune s now) es (now - st_window s)" "sameStation s (store_Prune s now)"
proof -
  let ?c = "now - st_window s"
  have d: "distinct (map fst (st_buckets s))" using assms(1) by (simp add: holds_def)
  have "fresh c (bucketOf s k) = fresh c (loggedAt k es)" if "?c \<le> c" for c k
    using assms that unfolding holds_def by (meson order_trans)
  then show "holds (store_Prune s now) es ?c"
    using prune_bucket [OF d] unfolding holds_def by (metis fresh_fresh)
  show "sameStation s (store_Prune s now)" by (simp add: sameStation_def store_Prune_def)
qed

lemma same_forward: "sameStation s s' \<Longrightarrow> forwardPath s' pr = forwardPath s pr"
  by (auto simp: forwardPath_def sameStation_def split: option.split)

lemma run_holds:
  assumes "sorted (map fst calls)" "holds s es c0" "\<forall>t\<in>fst ` set calls. c0 \<le> t - st_window s"
  shows "\<exists>c. holds (foldl storeCall_run s calls) (es @ concat (map (logged s) calls)) c \<and>
    (\<forall>now. (\<forall>t\<in>fst ` set calls. t \<le> now) \<longrightarrow> c0 \<le> now - st_window s \<longrightarrow> c \<le> now - st_window s) \<and>
    sameStation s (foldl storeCall_run s calls)"
  using assms
proof (induction calls arbitrary: s es c0)
  case Nil
  then show ?case by (auto simp: sameStation_def)
next
  case (Cons call calls)
  obtain now op where c: "call = (now, op)" by (cases call)
  let ?s = "storeCall_run s call"
  obtain c1 where c1: "holds ?s (es @ logged s call) c1" "c1 = c0 \<or> c1 = now - st_window s" "sameStation s ?s"
  proof (cases op)
    case (AddReport pr)
    have "sameStation s ?s" by (simp add: c AddReport store_Add_def sameStation_def split: option.split)
    then show ?thesis using that [of c0] add_holds [OF Cons.prems(2), of pr now] by (simp add: c AddReport)
  next
    case (LookupAround band x y rings)
    have "c0 \<le> now - st_window s" using Cons.prems(3) c by simp
    from lookup_holds(1,3) [OF Cons.prems(2) this, of band x y rings] show ?thesis
      using that [of "now - st_window s"] by (cases "store_Lookup s now band x y rings") (simp add: c LookupAround)
  next
    case PruneExpired
    have "c0 \<le> now - st_window s" using Cons.prems(3) c by simp
    from prune_holds [OF Cons.prems(2) this] show ?thesis
      using that [of "now - st_window s"] by (simp add: c PruneExpired)
  qed
  have w: "st_window ?s = st_window s" using c1(3) by (simp add: sameStation_def)
  have "\<forall>t\<in>fst ` set calls. c1 \<le> t - st_window ?s"
    using c1(2) Cons.prems(1,3) w c by auto
  from Cons.IH [OF _ c1(1) this] Cons.prems(1) obtain c2 where c2:
    "holds (foldl storeCall_run ?s calls) ((es @ logged s call) @ concat (map (logged ?s) calls)) c2"
    "\<forall>now. (\<forall>t\<in>fst ` set calls. t \<le> now) \<longrightarrow> c1 \<le> now - st_window ?s \<longrightarrow> c2 \<le> now - st_window ?s"
    "sameStation ?s (foldl storeCall_run ?s calls)" by auto
  have "logged ?s = logged s"
  proof
    show "logged ?s x = logged s x" for x using same_forward [OF c1(3)] by (cases "(s, x)" rule: logged.cases) auto
  qed
  moreover have "c2 \<le> now' - st_window s" if "\<forall>t\<in>fst ` set (call # calls). t \<le> now'" "c0 \<le> now' - st_window s" for now'
    using c2(2) that c1(2) w c by auto
  moreover have "sameStation s (foldl storeCall_run ?s calls)" using c1(3) c2(3) by (simp add: sameStation_def)
  ultimately show ?case using c2(1) by auto
qed

definition acceptedLog :: "rollingStore \<Rightarrow> (int \<times> storeCall) list \<Rightarrow> (storeKey \<times> reception) list" where
  \<comment> \<open>every report the station accepted, in order\<close>
  "acceptedLog s calls = concat (map (logged s) calls)"

lemma lookup_is_log:
  fixes window homeX homeY homeRings :: int
  assumes "sorted (map fst calls @ [now])"
  defines "s0 \<equiv> newStore window homeX homeY homeRings"
  shows "snd (store_Lookup (foldl storeCall_run s0 calls) now band x y rings) =
    concat (map (\<lambda>p. fresh (now - window) (loggedAt (band, p) (acceptedLog s0 calls))) (squaresAround x y rings))"
proof -
  define c0 where "c0 = (if calls = [] then now - window else fst (hd calls) - window)"
  have w: "st_window s0 = window" by (simp add: s0_def newStore_def)
  have "holds s0 [] c0" by (simp add: holds_def s0_def newStore_def bucketOf_def loggedAt_def)
  moreover have "\<forall>t\<in>fst ` set calls. c0 \<le> t - st_window s0"
    using assms(1) by (cases calls) (auto simp: c0_def w)
  moreover have "c0 \<le> now - st_window s0" "\<forall>t\<in>fst ` set calls. t \<le> now" "sorted (map fst calls)"
    using assms(1) by (cases calls; auto simp: c0_def w sorted_append)+
  ultimately obtain c where "holds (foldl storeCall_run s0 calls) (acceptedLog s0 calls) c" "c \<le> now - window"
    "st_window (foldl storeCall_run s0 calls) = window"
    using run_holds [of calls s0 "[]" c0] by (auto simp: acceptedLog_def sameStation_def w)
  then show ?thesis
    using lookup_holds(2) [of "foldl storeCall_run s0 calls" "acceptedLog s0 calls" c now band x y rings]
    by (metis surjective_pairing)
qed

end
