(* ===== verification/HorstEngine.thy ===== *)
theory HorstEngine
  imports HorstStore Activity
begin

text \<open>
  cmd/horstprop: the scoring engine (internal/engine/engine.go), the interpolation of the MUF
  (internal/kc2g/client.go) and the grades (internal/propcontract/score.go). The resolver, the
  MUF provider and the model are fields of the engine, functions or absent; a time is an integer
  of nanoseconds, \<open>%.1f\<close> and \<open>%.3f\<close> are \<open>fixedText\<close>. The facts: every score and confidence is in
  its range and carries its grade (\<open>Score_typed\<close>), the MUF gate only lowers a score and reports
  limit how far (\<open>gate_floor\<close>), an interpolated MUF lies between the stations it is taken from
  (\<open>MUFAt_between\<close>).
\<close>

section \<open>Grades\<close>

definition Grade :: "int option \<Rightarrow> real \<Rightarrow> string" where
  "Grade score confidence =
     (case score of
        None \<Rightarrow> ''?''
      | Some s \<Rightarrow> if confidence < 1/5 then ''?''
          else if s \<ge> 75 then ''A'' else if s \<ge> 55 then ''B'' else if s \<ge> 35 then ''C'' else ''D'')"

section \<open>The MUF at a point\<close>

record station =
  stn_loc :: LatLon
  stn_muf :: real
  stn_at :: int

record kc2gClient =
  kc_maxAge :: int
  kc_idwRadiusKm :: real
  kc_stations :: "station list"

definition second :: int where "second = 10 ^ 9"

definition newKc2g :: kc2gClient where
  "newKc2g = \<lparr>kc_maxAge = 3 * 3600 * second, kc_idwRadiusKm = 3000, kc_stations = []\<rparr>"

definition freshStation :: "kc2gClient \<Rightarrow> int \<Rightarrow> station \<Rightarrow> bool" where
  "freshStation c now s \<longleftrightarrow> \<not> (now - stn_at s > kc_maxAge c \<or> now - stn_at s < - 5 * 60 * second)"

definition idwWeight :: "LatLon \<Rightarrow> station \<Rightarrow> real" where
  "idwWeight pt s = (let d = geo_HaversineKm pt (stn_loc s) in 1 / (d * d + 1))"

definition MUFStep :: "kc2gClient \<Rightarrow> int \<Rightarrow> LatLon \<Rightarrow> real \<times> real \<times> int option \<Rightarrow> station \<Rightarrow> real \<times> real \<times> int option" where
  \<comment> \<open>the loop body; \<open>bestAge\<close> starts at the largest duration, here \<open>None\<close>\<close>
  "MUFStep c now pt acc s =
     (case acc of (sumW, sumWM, bestAge) \<Rightarrow>
        let age = now - stn_at s in
        if age > kc_maxAge c \<or> age < - 5 * 60 * second then acc
        else if geo_HaversineKm pt (stn_loc s) > kc_idwRadiusKm c then acc
        else let w = idwWeight pt s
             in (sumW + w, sumWM + w * stn_muf s,
                 case bestAge of None \<Rightarrow> Some age | Some b \<Rightarrow> if age < b then Some age else Some b))"

definition minutesOf :: "int \<Rightarrow> real" where
  "minutesOf d = real_of_int d / (60 * real_of_int second)"

definition MUFAt :: "kc2gClient \<Rightarrow> int \<Rightarrow> real \<Rightarrow> real \<Rightarrow> (real \<times> real) option" where
  "MUFAt c now lat lon =
     (case foldl (MUFStep c now \<lparr>ll_Lat = lat, ll_Lon = lon\<rparr>) (0, 0, None) (kc_stations c) of
        (sumW, sumWM, bestAge) \<Rightarrow>
          if sumW = 0 then None
          else Some (sumWM / sumW, minutesOf (case bestAge of Some b \<Rightarrow> b | None \<Rightarrow> 2 ^ 63 - 1)))"

definition FreshStations :: "kc2gClient \<Rightarrow> int \<Rightarrow> nat" where
  "FreshStations c now = length (filter (\<lambda>s. now - stn_at s \<le> kc_maxAge c \<and> now - stn_at s \<ge> - 5 * 60 * second) (kc_stations c))"

section \<open>The layers\<close>

record propSpot =
  sp_DXCall :: string
  sp_FreqHz :: int
  sp_Timestamp :: string
  sp_Mode :: string
  sp_Grid :: string

record layer1 =
  l1_Score :: int
  l1_Confidence :: real
  l1_n_reports :: nat
  l1_best_snr_db :: int
  l1_window_min :: int

record layer2 =
  l2_Gate :: real
  l2_Confidence :: real
  l2_muf_mhz :: real
  l2_freq_mhz :: real
  l2_state :: string
  l2_age_min :: int

record layer3 =
  l3_Score :: int
  l3_Confidence :: real

record modelRequest =
  mr_Home :: LatLon
  mr_DX :: LatLon
  mr_Band :: string
  mr_FreqMHz :: real
  mr_UTCHour :: int
  mr_Month :: int

record horstEngine =
  e_home :: "LatLon option"
  e_resolver :: "(string \<Rightarrow> LatLon option) option"
  e_store :: "rollingStore option"
  e_muf :: "(real \<Rightarrow> real \<Rightarrow> (real \<times> real) option) option"
  e_model :: "(modelRequest \<Rightarrow> layer3 option) option"
  e_matchRings :: int

record clockReading =
  ck_now :: int
  ck_hour :: int
  ck_month :: int

definition newHorstEngine where
  "newHorstEngine homeGrid resolver st muf mdl matchRings =
     \<lparr>e_home = MaidenheadCenter homeGrid, e_resolver = resolver, e_store = st, e_muf = muf, e_model = mdl, e_matchRings = matchRings\<rparr>"

definition clampF :: "real \<Rightarrow> real \<Rightarrow> real \<Rightarrow> real" where
  "clampF v lo hi = (if v < lo then lo else if v > hi then hi else v)"

definition clampI :: "int \<Rightarrow> int \<Rightarrow> int \<Rightarrow> int" where
  "clampI v lo hi = (if v < lo then lo else if v > hi then hi else v)"

definition resolveLocation :: "horstEngine \<Rightarrow> propSpot \<Rightarrow> (LatLon \<times> string) option" where
  \<comment> \<open>\<open>None\<close> is \<open>"unresolved"\<close>\<close>
  "resolveLocation e spot =
     (case MaidenheadCenter (sp_Grid spot) of
        Some ll \<Rightarrow> Some (ll, ''grid'')
      | None \<Rightarrow> (case e_resolver e of
                   None \<Rightarrow> None
                 | Some r \<Rightarrow> map_option (\<lambda>ll. (ll, ''centroid'')) (r (sp_DXCall spot))))"

fun interpolate :: "real \<Rightarrow> (real \<times> real) list \<Rightarrow> real" where
  \<comment> \<open>the loop over the anchors\<close>
  "interpolate s ((a, sa) # (b, sb) # pts) =
     (if s \<le> b then sa + (sb - sa) * (s - a) / (b - a) else interpolate s ((b, sb) # pts))"
| "interpolate s [(a, sa)] = sa"
| "interpolate s [] = 0"

definition ft8Anchors :: "(real \<times> real) list" where
  "ft8Anchors = [(-25, 8), (-18, 25), (-5, 55), (5, 85), (15, 96)]"

definition ft8SnrToScore :: "int \<Rightarrow> real" where
  "ft8SnrToScore db =
     (let s = real_of_int db
      in if s \<le> fst (hd ft8Anchors) then snd (hd ft8Anchors)
         else if s \<ge> fst (last ft8Anchors) then snd (last ft8Anchors)
         else interpolate s ft8Anchors)"

definition empiricalConfidence :: "nat \<Rightarrow> real \<Rightarrow> real" where
  "empiricalConfidence n ageFrac =
     (let conf = 1/2 + 1/20 * (real n - 1); conf = conf * clampF (1 - 3/10 * ageFrac) (7/10) 1
      in clampF conf (1/2) (92/100))"

definition newestOf :: "reception list \<Rightarrow> int" where
  "newestOf reps = foldl (\<lambda>newest r. if rep_At r > newest then rep_At r else newest) (rep_At (hd reps)) reps"

definition empiricalScore :: "int list \<Rightarrow> real \<Rightarrow> int" where
  \<comment> \<open>from the sorted levels and the age fraction\<close>
  "empiricalScore snrs ageFrac =
     (let snrScore = 6/10 * ft8SnrToScore (last snrs) + 4/10 * ft8SnrToScore (snrs ! (length snrs div 2))
      in clampI (goRound (snrScore * clampF (1 - 4/10 * ageFrac) (6/10) 1)) 0 100)"

definition empirical :: "horstEngine \<Rightarrow> int \<Rightarrow> LatLon \<Rightarrow> string \<Rightarrow> horstEngine \<times> layer1 option" where
  "empirical e now loc band =
     (case e_store e of
        None \<Rightarrow> (e, None)
      | Some st \<Rightarrow>
          if band = [] then (e, None)
          else let (dxX, dxY) = SquareXYFromLatLon loc;
                   (st', reps) = store_Lookup st now band dxX dxY (e_matchRings e);
                   e = e\<lparr>e_store := Some st'\<rparr>
               in if reps = [] then (e, None)
                  else let snrs = sort (map rep_SNRDb reps);
                           ageFrac = real_of_int (now - newestOf reps) / real_of_int (st_window st);
                           ageFrac = (if ageFrac < 0 then 0 else ageFrac)
                       in (e, Some \<lparr>l1_Score = empiricalScore snrs ageFrac,
                                    l1_Confidence = empiricalConfidence (length reps) ageFrac,
                                    l1_n_reports = length reps, l1_best_snr_db = last snrs,
                                    l1_window_min = trunc (minutesOf (st_window st))\<rparr>))"

definition gateForRatio :: "real \<Rightarrow> real \<times> string" where
  "gateForRatio r =
     (if r \<le> 85/100 then (1, ''open'')
      else if r \<le> 1 then (1 - (r - 85/100) / (15/100) * (6/10), ''marginal'')
      else let g = 4/10 - (r - 1) / (3/10) * (4/10) in (if g < 0 then 0 else g, ''above_muf''))"

definition controlPoints :: "LatLon \<Rightarrow> LatLon \<Rightarrow> LatLon list" where
  "controlPoints home dx =
     (let D = geo_HaversineKm home dx
      in if D < 1 then [home]
         else map (IntermediatePoint home dx)
                ((1/2) # filter (\<lambda>f. f > 1/20 \<and> f < 95/100) (map (\<lambda>d. d / D) [1500, D - 1500])))"

definition pathMUF :: "(real \<Rightarrow> real \<Rightarrow> (real \<times> real) option) \<Rightarrow> LatLon list \<Rightarrow> (real \<times> real) option" where
  \<comment> \<open>the loop over the control points: the lowest MUF and the worst age\<close>
  "pathMUF muf pts =
     foldl (\<lambda>acc p. case muf (ll_Lat p) (ll_Lon p) of
         None \<Rightarrow> acc
       | Some (m, age) \<Rightarrow>
           if m \<le> 0 then acc
           else (case acc of
                   None \<Rightarrow> Some (m, if age > 0 then age else 0)
                 | Some (mufMin, ageMin) \<Rightarrow> Some (if m < mufMin then m else mufMin, if age > ageMin then age else ageMin)))
       None pts"

definition mufGate :: "horstEngine \<Rightarrow> LatLon \<Rightarrow> int \<Rightarrow> layer2 option" where
  "mufGate e dx freqHz =
     (case (e_muf e, e_home e) of
        (Some muf, Some home) \<Rightarrow>
          if real_of_int freqHz / 10 ^ 6 \<ge> 50 then None
          else (case pathMUF muf (controlPoints home dx) of
                  None \<Rightarrow> None
                | Some (mufMin, ageMin) \<Rightarrow>
                    let freqMHz = real_of_int freqHz / 10 ^ 6; (gate, state) = gateForRatio (freqMHz / mufMin)
                    in Some \<lparr>l2_Gate = gate, l2_Confidence = clampF (6/10 - ageMin / 240 * (1/4)) (35/100) (6/10),
                             l2_muf_mhz = of_int (goRound (mufMin * 10)) / 10, l2_freq_mhz = of_int (goRound (freqMHz * 100)) / 100,
                             l2_state = state, l2_age_min = goRound ageMin\<rparr>)
      | _ \<Rightarrow> None)"

definition modelPredict :: "horstEngine \<Rightarrow> clockReading \<Rightarrow> LatLon \<Rightarrow> string \<Rightarrow> real \<Rightarrow> layer3 option" where
  "modelPredict e ck dx band freqMHz =
     (case (e_model e, e_home e) of
        (Some predict, Some home) \<Rightarrow>
          if band = [] then None
          else predict \<lparr>mr_Home = home, mr_DX = dx, mr_Band = band, mr_FreqMHz = freqMHz, mr_UTCHour = ck_hour ck, mr_Month = ck_month ck\<rparr>
      | _ \<Rightarrow> None)"

section \<open>The reason\<close>

definition roundEven :: "real \<Rightarrow> int" where
  "roundEven x = (let n = \<lfloor>x\<rfloor>; f = x - of_int n
     in if f < 1/2 \<or> f = 1/2 \<and> even n then n else n + 1)"

definition fixedText :: "nat \<Rightarrow> real \<Rightarrow> string" where
  \<comment> \<open>\<open>%.pf\<close>\<close>
  "fixedText p v =
     (let n = nat (roundEven (\<bar>v\<bar> * 10 ^ p)); frac = digits (n mod 10 ^ p)
      in (if v < 0 then ''-'' else []) @ digits (n div 10 ^ p) @ ''.'' @ replicate (p - length frac) CHR ''0'' @ frac)"

definition buildReason :: "layer1 option \<Rightarrow> layer2 option \<Rightarrow> string" where
  "buildReason l1 l2 =
     (let heard = (case l1 of None \<Rightarrow> [] | Some l \<Rightarrow>
            [''Heard by '' @ digits (l1_n_reports l) @ '' receiver(s) near home in last '' @ itoa (l1_window_min l) @
             '' min (best '' @ (if l1_best_snr_db l \<ge> 0 then ''+'' else []) @ itoa (l1_best_snr_db l) @ '' dB FT8)'']);
          path = (case l2 of None \<Rightarrow> [] | Some l \<Rightarrow>
            [''path MUF ~'' @ fixedText 1 (l2_muf_mhz l) @ '' MHz vs '' @ fixedText 3 (l2_freq_mhz l) @ '' MHz '' @
             [CHR 0xE2, CHR 0x80, CHR 0x94] @ '' '' @ l2_state l])
      in case heard @ path of
           [] \<Rightarrow> ''no empirical or MUF data for this path '' @ [CHR 0xE2, CHR 0x80, CHR 0x94] @ '' neutral pending more layers''
         | p # ps \<Rightarrow> foldl (\<lambda>out p. out @ ''; '' @ p) p ps)"

section \<open>The blend\<close>

definition empiricalTrustMax :: real where "empiricalTrustMax = 85/100"

definition blendBase :: "layer1 option \<Rightarrow> layer3 option \<Rightarrow> int \<times> real" where
  "blendBase l1 l3 =
     (case (l1, l3) of
        (Some a, Some b) \<Rightarrow>
          (l1_Score a, if \<bar>l1_Score a - l3_Score b\<bar> \<le> 15
                       then (if 95/100 < l1_Confidence a + 1/10 then 95/100 else l1_Confidence a + 1/10)
                       else l1_Confidence a * (8/10))
      | (Some a, None) \<Rightarrow> (l1_Score a, l1_Confidence a)
      | (None, Some b) \<Rightarrow> (l3_Score b, l3_Confidence b)
      | (None, None) \<Rightarrow> (50, 15/100))"

definition gateTrust :: "layer1 option \<Rightarrow> real" where
  "gateTrust l1 = (case l1 of None \<Rightarrow> 0 | Some a \<Rightarrow> clampF ((l1_Confidence a - 1/2) / (42/100)) 0 1 * empiricalTrustMax)"

definition effectiveGate :: "layer1 option \<Rightarrow> real \<Rightarrow> real" where
  "effectiveGate l1 gate = (case l1 of None \<Rightarrow> gate | Some _ \<Rightarrow> gate + (1 - gate) * gateTrust l1)"

definition gateOf :: "layer2 option \<Rightarrow> real" where
  "gateOf l2 = (case l2 of None \<Rightarrow> 1 | Some l \<Rightarrow> l2_Gate l)"

definition blendScore :: "layer1 option \<Rightarrow> layer3 option \<Rightarrow> real \<Rightarrow> int" where
  "blendScore l1 l3 gate = clampI (goRound (real_of_int (fst (blendBase l1 l3)) * effectiveGate l1 gate)) 0 100"

definition blendConfidence :: "layer1 option \<Rightarrow> layer2 option \<Rightarrow> layer3 option \<Rightarrow> real" where
  "blendConfidence l1 l2 l3 =
     (let baseConf = snd (blendBase l1 l3)
      in case l2 of None \<Rightarrow> baseConf
         | Some l \<Rightarrow> if l2_Gate l \<le> 4/10 then (if baseConf > l2_Confidence l then baseConf else l2_Confidence l)
                     else if l1 = None \<and> l3 = None then l2_Confidence l
                     else baseConf)"

record propScore =
  ps_DXCall :: string
  ps_FreqHz :: int
  ps_Band :: string
  ps_Timestamp :: string
  ps_BearingDeg :: real
  ps_DistanceKm :: real
  ps_Score :: int
  ps_Grade :: string
  ps_Confidence :: real
  ps_Empirical :: "layer1 option"
  ps_MUFGate :: "layer2 option"
  ps_Model :: "layer3 option"
  ps_Reason :: string

definition scoreLayers ::
    "horstEngine \<Rightarrow> clockReading \<Rightarrow> propSpot \<Rightarrow> LatLon \<Rightarrow> horstEngine \<times> layer1 option \<times> layer2 option \<times> layer3 option" where
  "scoreLayers e ck spot loc =
     (let band = FreqToBand (sp_FreqHz spot); (e', l1) = empirical e (ck_now ck) loc band
      in (e', l1, mufGate e' loc (sp_FreqHz spot), modelPredict e' ck loc band (real_of_int (sp_FreqHz spot) / 10 ^ 6)))"

definition Score :: "horstEngine \<Rightarrow> clockReading \<Rightarrow> propSpot \<Rightarrow> horstEngine \<times> propScore" where
  "Score e ck spot =
     (let sc = \<lparr>ps_DXCall = sp_DXCall spot, ps_FreqHz = sp_FreqHz spot, ps_Band = FreqToBand (sp_FreqHz spot),
                ps_Timestamp = sp_Timestamp spot, ps_BearingDeg = 0, ps_DistanceKm = 0, ps_Score = 0, ps_Grade = [],
                ps_Confidence = 0, ps_Empirical = None, ps_MUFGate = None, ps_Model = None, ps_Reason = []\<rparr>
      in case resolveLocation e spot of
           None \<Rightarrow> (e, sc\<lparr>ps_Score := 50, ps_Confidence := 15/100, ps_Grade := Grade (Some 50) (15/100),
                ps_Reason := ''DX location unresolved (no grid; callsign not in cty.dat) '' @ [CHR 0xE2, CHR 0x80, CHR 0x94] @
                  '' neutral, cannot assess path''\<rparr>)
         | Some (loc, _) \<Rightarrow>
             (let sc = (case e_home e of None \<Rightarrow> sc
                        | Some home \<Rightarrow> sc\<lparr>ps_DistanceKm := geo_HaversineKm home loc, ps_BearingDeg := BearingDeg home loc\<rparr>)
              in case scoreLayers e ck spot loc of (e', l1, l2, l3) \<Rightarrow>
                let gate = gateOf l2; score = blendScore l1 l3 gate; conf = blendConfidence l1 l2 l3;
                    overridden = (l1 \<noteq> None \<and> l2 \<noteq> None \<and> gate < 85/100 \<and> effectiveGate l1 gate > gate + 1/20)
                in (e', sc\<lparr>ps_Score := score, ps_Confidence := conf, ps_Grade := Grade (Some score) conf,
                     ps_Empirical := l1, ps_MUFGate := l2, ps_Model := l3,
                     ps_Reason := buildReason l1 l2 @ (if overridden then '' (empirical observations override the model gate)'' else [])\<rparr>)))"

section \<open>Facts: the parts\<close>

lemma clampI_range: "lo \<le> hi \<Longrightarrow> lo \<le> clampI v lo hi \<and> clampI v lo hi \<le> hi"
  by (simp add: clampI_def)

lemma clampF_range: "lo \<le> hi \<Longrightarrow> lo \<le> clampF v lo hi \<and> clampF v lo hi \<le> hi"
  by (simp add: clampF_def)

lemma clampI_mono: "v \<le> w \<Longrightarrow> lo \<le> hi \<Longrightarrow> clampI v lo hi \<le> clampI w lo hi"
  by (simp add: clampI_def)

lemma goRound_mono: "x \<le> y \<Longrightarrow> goRound x \<le> goRound y"
proof -
  assume xy: "x \<le> y"
  have "0 \<le> \<lfloor>1/2 - v\<rfloor>" if "v < 0" for v :: real using that by linarith
  moreover have "0 \<le> \<lfloor>v + 1/2\<rfloor>" if "0 \<le> v" for v :: real using that by linarith
  moreover have "\<lfloor>x + 1/2\<rfloor> \<le> \<lfloor>y + 1/2\<rfloor>" "\<lfloor>1/2 - y\<rfloor> \<le> \<lfloor>1/2 - x\<rfloor>" using xy by (simp_all add: floor_mono)
  ultimately show ?thesis using xy unfolding goRound_def
    by (smt (verit))
qed

lemma gate_range: "0 \<le> fst (gateForRatio r) \<and> fst (gateForRatio r) \<le> 1"
  by (auto simp: gateForRatio_def Let_def field_simps)

lemma gate_antitone: "r \<le> s \<Longrightarrow> fst (gateForRatio s) \<le> fst (gateForRatio r)"
  by (auto simp: gateForRatio_def Let_def field_simps)

lemma ft8_mono:
  assumes "a \<le> b"
  shows "ft8SnrToScore a \<le> ft8SnrToScore b" "8 \<le> ft8SnrToScore a" "ft8SnrToScore b \<le> 96"
proof -
  have r: "real_of_int a \<le> real_of_int b" using assms by simp
  then show "ft8SnrToScore a \<le> ft8SnrToScore b"
    by (auto simp: ft8SnrToScore_def ft8Anchors_def Let_def field_simps)
  show "8 \<le> ft8SnrToScore a" "ft8SnrToScore b \<le> 96"
    by (auto simp: ft8SnrToScore_def ft8Anchors_def Let_def field_simps)
qed

lemma empirical_typed:
  assumes "empirical e now loc band = (e', Some l)"
  shows "0 \<le> l1_Score l \<and> l1_Score l \<le> 100 \<and> 1/2 \<le> l1_Confidence l \<and> l1_Confidence l \<le> 92/100"
proof -
  obtain snrs n a where "l1_Score l = empiricalScore snrs a" "l1_Confidence l = empiricalConfidence n a"
    using assms by (auto simp: empirical_def Let_def split: option.splits prod.splits if_splits)
  moreover have "0 \<le> empiricalScore snrs a \<and> empiricalScore snrs a \<le> 100" unfolding empiricalScore_def Let_def by (rule clampI_range) simp
  moreover have "1/2 \<le> empiricalConfidence n a \<and> empiricalConfidence n a \<le> 92/100"
    unfolding empiricalConfidence_def Let_def by (rule clampF_range) simp
  ultimately show ?thesis by simp
qed

lemma empirical_keeps: "empirical e now loc band = (e', l) \<Longrightarrow>
  e_home e' = e_home e \<and> e_muf e' = e_muf e \<and> e_model e' = e_model e \<and> e_resolver e' = e_resolver e \<and> e_matchRings e' = e_matchRings e"
  by (auto simp: empirical_def Let_def split: option.splits prod.splits if_splits)

lemma mufGate_typed:
  assumes "mufGate e dx f = Some l"
  shows "0 \<le> l2_Gate l \<and> l2_Gate l \<le> 1 \<and> 35/100 \<le> l2_Confidence l \<and> l2_Confidence l \<le> 6/10"
proof -
  obtain m a where "l2_Gate l = fst (gateForRatio m)" "l2_Confidence l = clampF (6/10 - a / 240 * (1/4)) (35/100) (6/10)"
    using assms by (auto simp: mufGate_def Let_def case_prod_unfold split: option.splits if_splits)
  then show ?thesis using gate_range [of m] clampF_range [of "35/100" "6/10" "6/10 - a / 240 * (1/4)"] by simp
qed

section \<open>Facts: the blend\<close>

definition l1_ok :: "layer1 option \<Rightarrow> bool" where
  "l1_ok l1 \<longleftrightarrow> (\<forall>l. l1 = Some l \<longrightarrow> 0 \<le> l1_Score l \<and> l1_Score l \<le> 100 \<and> 1/2 \<le> l1_Confidence l \<and> l1_Confidence l \<le> 92/100)"

definition l3_ok :: "layer3 option \<Rightarrow> bool" where
  "l3_ok l3 \<longleftrightarrow> (\<forall>l. l3 = Some l \<longrightarrow> 0 \<le> l3_Score l \<and> l3_Score l \<le> 100 \<and> 0 \<le> l3_Confidence l \<and> l3_Confidence l \<le> 1)"

lemma base_typed: "l1_ok l1 \<Longrightarrow> l3_ok l3 \<Longrightarrow>
  0 \<le> fst (blendBase l1 l3) \<and> fst (blendBase l1 l3) \<le> 100 \<and> 0 \<le> snd (blendBase l1 l3) \<and> snd (blendBase l1 l3) \<le> 1"
  by (auto simp: blendBase_def l1_ok_def l3_ok_def split: option.split)

lemma trust_range: "0 \<le> gateTrust l1 \<and> gateTrust l1 \<le> 85/100"
proof -
  have "0 \<le> clampF v 0 1 \<and> clampF v 0 1 \<le> 1" for v by (rule clampF_range) simp
  then show ?thesis by (auto simp: gateTrust_def empiricalTrustMax_def split: option.split)
qed

lemma effective_gate:
  assumes "g \<le> 1"
  shows "g \<le> effectiveGate l1 g" "effectiveGate l1 g \<le> 1" "0 \<le> g \<Longrightarrow> gateTrust l1 \<le> effectiveGate l1 g"
    "h \<le> g \<Longrightarrow> effectiveGate l1 h \<le> effectiveGate l1 g"
proof -
  have t: "0 \<le> gateTrust l1" "gateTrust l1 \<le> 1" using trust_range [of l1] by simp_all
  have m: "0 \<le> (1 - g) * gateTrust l1" "(1 - g) * gateTrust l1 \<le> 1 - g"
    using assms t mult_left_le [of "gateTrust l1" "1 - g"] by simp_all
  show "g \<le> effectiveGate l1 g" "effectiveGate l1 g \<le> 1" using m assms by (auto simp: effectiveGate_def split: option.split)
  have e: "effectiveGate l1 x = x * (1 - gateTrust l1) + gateTrust l1" for x
    by (auto simp: effectiveGate_def gateTrust_def algebra_simps split: option.split)
  show "gateTrust l1 \<le> effectiveGate l1 g" if "0 \<le> g" using that t by (simp add: e)
  show "effectiveGate l1 h \<le> effectiveGate l1 g" if "h \<le> g" using that t by (simp add: e mult_right_mono)
qed

lemma blend_mono:
  assumes "l1_ok l1" "l3_ok l3" "h \<le> g" "g \<le> 1"
  shows "blendScore l1 l3 h \<le> blendScore l1 l3 g"
proof -
  have "0 \<le> fst (blendBase l1 l3)" using base_typed [OF assms(1,2)] by simp
  then have "real_of_int (fst (blendBase l1 l3)) * effectiveGate l1 h \<le> real_of_int (fst (blendBase l1 l3)) * effectiveGate l1 g"
    using effective_gate(4) [OF assms(4,3)] by (simp add: mult_left_mono)
  then show ?thesis unfolding blendScore_def by (intro clampI_mono goRound_mono) simp_all
qed

lemma goRound_of_int [simp]: "goRound (real_of_int n) = n"
  unfolding goRound_def by (auto simp: floor_eq_iff)

lemma blend_open:
  assumes "l1_ok l1" "l3_ok l3"
  shows "blendScore l1 l3 1 = fst (blendBase l1 l3)"
  using base_typed [OF assms] by (auto simp: blendScore_def effectiveGate_def clampI_def split: option.split)

lemma blend_floor:
  assumes "l1_ok l1" "l3_ok l3" "0 \<le> g" "g \<le> 1"
  shows "goRound (real_of_int (fst (blendBase l1 l3)) * gateTrust l1) \<le> blendScore l1 l3 g"
proof -
  let ?b = "real_of_int (fst (blendBase l1 l3))"
  have b: "0 \<le> ?b" "?b \<le> 100" using base_typed [OF assms(1,2)] by simp_all
  have "?b * gateTrust l1 \<le> ?b * effectiveGate l1 g" "?b * gateTrust l1 \<le> ?b * 1"
    using b effective_gate(3) [OF assms(4,3), of l1] trust_range [of l1] by (intro mult_left_mono; simp)+
  then have "goRound (?b * gateTrust l1) \<le> goRound (?b * effectiveGate l1 g)" "goRound (?b * gateTrust l1) \<le> goRound (real_of_int 100)"
    using b by (auto intro!: goRound_mono)
  moreover have "0 \<le> goRound (?b * gateTrust l1)" using b trust_range [of l1] by (intro goRound_nonneg) simp
  ultimately show ?thesis unfolding blendScore_def clampI_def goRound_of_int by auto
qed

lemma confidence_typed:
  assumes "l1_ok l1" "l3_ok l3" "\<forall>l. l2 = Some l \<longrightarrow> 0 \<le> l2_Confidence l \<and> l2_Confidence l \<le> 1"
  shows "0 \<le> blendConfidence l1 l2 l3 \<and> blendConfidence l1 l2 l3 \<le> 1"
  using base_typed [OF assms(1,2)] assms(3) by (auto simp: blendConfidence_def Let_def split: option.split)

section \<open>Facts: the interpolation\<close>

definition contributes :: "kc2gClient \<Rightarrow> int \<Rightarrow> LatLon \<Rightarrow> station \<Rightarrow> bool" where
  "contributes c now pt s \<longleftrightarrow> freshStation c now s \<and> geo_HaversineKm pt (stn_loc s) \<le> kc_idwRadiusKm c"

lemma idwWeight_pos: "0 < idwWeight pt s"
  by (simp add: idwWeight_def Let_def add_nonneg_pos)

lemma MUFStep_eq: "MUFStep c now pt acc s =
  (if contributes c now pt s
   then (fst acc + idwWeight pt s, fst (snd acc) + idwWeight pt s * stn_muf s,
         Some (case snd (snd acc) of None \<Rightarrow> now - stn_at s | Some b \<Rightarrow> min (now - stn_at s) b))
   else acc)"
  by (cases acc) (auto simp: MUFStep_def contributes_def freshStation_def Let_def not_less min_def split: option.split)

lemma MUFSteps:
  assumes "foldl (MUFStep c now pt) (W, M, A) ss = (W', M', A')"
    "\<forall>s\<in>set ss. contributes c now pt s \<longrightarrow> lo \<le> stn_muf s \<and> stn_muf s \<le> hi"
    "0 \<le> W" "W * lo \<le> M" "M \<le> W * hi" "W = 0 \<longleftrightarrow> A = None"
  shows "0 \<le> W' \<and> W' * lo \<le> M' \<and> M' \<le> W' * hi \<and> (W' = 0 \<longleftrightarrow> A' = None) \<and>
    (W' = 0 \<longleftrightarrow> W = 0 \<and> (\<forall>s\<in>set ss. \<not> contributes c now pt s)) \<and>
    (\<forall>a. A' = Some a \<longrightarrow> (A = Some a \<or> (\<exists>s\<in>set ss. contributes c now pt s \<and> a = now - stn_at s)) \<and>
       (\<forall>s\<in>set ss. contributes c now pt s \<longrightarrow> a \<le> now - stn_at s) \<and> (\<forall>b. A = Some b \<longrightarrow> a \<le> b))"
  using assms
proof (induction ss arbitrary: W M A)
  case (Cons s ss)
  show ?case
  proof (cases "contributes c now pt s")
    case False
    then show ?thesis using Cons.IH [of W M A] Cons.prems by (auto simp: MUFStep_eq)
  next
    case True
    let ?w = "idwWeight pt s" and ?A = "Some (case A of None \<Rightarrow> now - stn_at s | Some b \<Rightarrow> min (now - stn_at s) b)"
    have w: "0 < ?w" by (rule idwWeight_pos)
    have b: "lo \<le> stn_muf s" "stn_muf s \<le> hi" using Cons.prems(2) True by auto
    have "(W + ?w) * lo \<le> M + ?w * stn_muf s" "M + ?w * stn_muf s \<le> (W + ?w) * hi"
      using Cons.prems(4,5) mult_left_mono [OF b(1), of ?w] mult_left_mono [OF b(2), of ?w] w by (simp_all only: distrib_right) linarith+
    with Cons.IH [of "W + ?w" "M + ?w * stn_muf s" ?A] Cons.prems True w show ?thesis
      by (auto simp: MUFStep_eq split: option.splits)
  qed
qed simp

lemma MUFAt_between:
  assumes "MUFAt c now lat lon = Some (m, age)"
  defines "near \<equiv> filter (contributes c now \<lparr>ll_Lat = lat, ll_Lon = lon\<rparr>) (kc_stations c)"
  shows "near \<noteq> []" "Min (stn_muf ` set near) \<le> m" "m \<le> Max (stn_muf ` set near)"
    "age = minutesOf (Min ((\<lambda>s. now - stn_at s) ` set near))"
proof -
  let ?pt = "\<lparr>ll_Lat = lat, ll_Lon = lon\<rparr>"
  obtain W M A where f: "foldl (MUFStep c now ?pt) (0, 0, None) (kc_stations c) = (W, M, A)" by (metis prod_cases3)
  have W: "W \<noteq> 0" "m = M / W" "age = minutesOf (case A of Some b \<Rightarrow> b | None \<Rightarrow> 2 ^ 63 - 1)"
    using assms(1) f by (auto simp: MUFAt_def split: if_splits)
  let ?lo = "Min (stn_muf ` set near)" and ?hi = "Max (stn_muf ` set near)"
  have "\<forall>s\<in>set (kc_stations c). contributes c now ?pt s \<longrightarrow> ?lo \<le> stn_muf s \<and> stn_muf s \<le> ?hi"
    by (auto simp: near_def intro!: Min_le Max_ge)
  from MUFSteps [OF f this] have s: "0 \<le> W" "W * ?lo \<le> M" "M \<le> W * ?hi" "A \<noteq> None" "near \<noteq> []"
    "\<forall>a. A = Some a \<longrightarrow> (\<exists>s\<in>set near. a = now - stn_at s) \<and> (\<forall>s\<in>set near. a \<le> now - stn_at s)"
    using W(1) by (auto simp: near_def filter_empty_conv)
  show "near \<noteq> []" by (rule s(5))
  show "?lo \<le> m" "m \<le> ?hi" using s(1-3) W(1,2) by (simp_all add: divide_le_eq le_divide_eq mult.commute)
  obtain a where a: "A = Some a" using s(4) by auto
  then have "Min ((\<lambda>s. now - stn_at s) ` set near) = a" using s(6) by (intro Min_eqI) auto
  then show "age = minutesOf (Min ((\<lambda>s. now - stn_at s) ` set near))" using W(3) a by simp
qed

section \<open>Facts: the score\<close>

definition model_ok :: "horstEngine \<Rightarrow> bool" where
  \<comment> \<open>the model keeps its contract: scores from 0 to 100, confidences from 0 to 1\<close>
  "model_ok e \<longleftrightarrow> (\<forall>predict r. e_model e = Some predict \<longrightarrow> l3_ok (predict r))"

lemma layers_ok:
  assumes "model_ok e" "scoreLayers e ck spot loc = (e', l1, l2, l3)"
  shows "l1_ok l1" "l3_ok l3" "\<forall>l. l2 = Some l \<longrightarrow> 0 \<le> l2_Gate l \<and> l2_Gate l \<le> 1 \<and> 0 \<le> l2_Confidence l \<and> l2_Confidence l \<le> 1"
proof -
  let ?band = "FreqToBand (sp_FreqHz spot)"
  have e: "empirical e (ck_now ck) loc ?band = (e', l1)" and l2: "l2 = mufGate e' loc (sp_FreqHz spot)"
    and l3: "l3 = modelPredict e' ck loc ?band (real_of_int (sp_FreqHz spot) / 10 ^ 6)"
    using assms(2) by (auto simp: scoreLayers_def Let_def split: prod.splits)
  show "l1_ok l1" using empirical_typed e by (auto simp: l1_ok_def)
  have "model_ok e'" using assms(1) empirical_keeps [OF e] by (simp add: model_ok_def)
  then show "l3_ok l3" unfolding l3 by (auto simp: modelPredict_def model_ok_def l3_ok_def split: option.splits)
  show "\<forall>l. l2 = Some l \<longrightarrow> 0 \<le> l2_Gate l \<and> l2_Gate l \<le> 1 \<and> 0 \<le> l2_Confidence l \<and> l2_Confidence l \<le> 1"
    using mufGate_typed [of e' loc "sp_FreqHz spot"] unfolding l2 by fastforce
qed

lemma Score_layers:
  assumes "resolveLocation e spot = Some (loc, src)" "scoreLayers e ck spot loc = (e', l1, l2, l3)"
  shows "fst (Score e ck spot) = e'" "ps_Score (snd (Score e ck spot)) = blendScore l1 l3 (gateOf l2)"
    "ps_Confidence (snd (Score e ck spot)) = blendConfidence l1 l2 l3"
    "ps_Grade (snd (Score e ck spot)) = Grade (Some (blendScore l1 l3 (gateOf l2))) (blendConfidence l1 l2 l3)"
    "ps_Empirical (snd (Score e ck spot)) = l1" "ps_MUFGate (snd (Score e ck spot)) = l2" "ps_Model (snd (Score e ck spot)) = l3"
  using assms by (simp_all add: Score_def Let_def split: option.split)

lemma Score_typed:
  assumes "model_ok e" "Score e ck spot = (e', sc)"
  shows "0 \<le> ps_Score sc \<and> ps_Score sc \<le> 100 \<and> 0 \<le> ps_Confidence sc \<and> ps_Confidence sc \<le> 1 \<and>
    ps_Grade sc = Grade (Some (ps_Score sc)) (ps_Confidence sc)"
proof (cases "resolveLocation e spot")
  case None
  then show ?thesis using assms(2) by (auto simp: Score_def Let_def)
next
  case (Some p)
  then obtain loc src where p: "resolveLocation e spot = Some (loc, src)" by (cases p) auto
  obtain e1 l1 l2 l3 where l: "scoreLayers e ck spot loc = (e1, l1, l2, l3)" by (metis prod_cases4)
  from confidence_typed [OF layers_ok(1,2) [OF assms(1) l], of l2] layers_ok(3) [OF assms(1) l]
  have "0 \<le> blendConfidence l1 l2 l3 \<and> blendConfidence l1 l2 l3 \<le> 1" by blast
  moreover have "0 \<le> blendScore l1 l3 (gateOf l2) \<and> blendScore l1 l3 (gateOf l2) \<le> 100"
    unfolding blendScore_def by (rule clampI_range) simp
  ultimately show ?thesis using Score_layers [OF p l] assms(2) by simp
qed

end
