(* ===== verification/HorstFeed.thy ===== *)
theory HorstFeed
  imports HorstEngine Stream Cty
begin

text \<open>
  cmd/horstprop: the configuration and the URL of the feed (internal/config/config.go), the
  reader of the stream (internal/feed/feed.go), the request of the scoring API
  (internal/api/api.go) and the country file (internal/geo/cty.go). \<open>json.Unmarshal\<close> and
  \<open>strconv.ParseFloat\<close> are parameters (a number out of float range is not considered), the
  environment is a function, empty for an unset variable. \<open>net/url\<close> is modelled as far as it is
  used: escaping, and \<open>URL.Query().Get\<close>. The facts: the server reads from the URL what the
  configuration wrote (\<open>StreamURL_query\<close>), which names no location the stream endpoint knows
  (\<open>feed_is_refused\<close>), and the country file is read as internal/cty reads it (\<open>same_entities\<close>).
\<close>

section \<open>URLs\<close>

definition is_unreserved :: "char \<Rightarrow> bool" where
  "is_unreserved c \<longleftrightarrow> is_digit c \<or> 65 \<le> byte c \<and> byte c \<le> 90 \<or> 97 \<le> byte c \<and> byte c \<le> 122 \<or> c \<in> set ''-_.~''"

definition hexDigit :: "int \<Rightarrow> char" where
  "hexDigit n = (if n < 10 then char_of (48 + n) else char_of (55 + n))"

definition escapeChar :: "char \<Rightarrow> string" where
  "escapeChar c =
     (if is_unreserved c then [c] else if c = CHR '' '' then ''+''
      else [CHR ''%'', hexDigit (byte c div 16), hexDigit (byte c mod 16)])"

definition QueryEscape :: "string \<Rightarrow> string" where
  "QueryEscape s = concat (map escapeChar s)"

definition unhex :: "char \<Rightarrow> int option" where
  "unhex c = (if is_digit c then Some (byte c - 48)
     else if 65 \<le> byte c \<and> byte c \<le> 70 then Some (byte c - 55)
     else if 97 \<le> byte c \<and> byte c \<le> 102 then Some (byte c - 87) else None)"

fun QueryUnescape :: "string \<Rightarrow> string option" where
  "QueryUnescape [] = Some []"
| "QueryUnescape (c # s) =
     (if c = CHR ''%'' then
        (case s of
           a # b # r \<Rightarrow> (case (unhex a, unhex b) of
              (Some x, Some y) \<Rightarrow> map_option (\<lambda>t. char_of (16 * x + y) # t) (QueryUnescape r)
            | _ \<Rightarrow> None)
         | _ \<Rightarrow> None)
      else map_option (\<lambda>t. (if c = CHR ''+'' then CHR '' '' else c) # t) (QueryUnescape s))"

definition cutAt :: "char \<Rightarrow> string \<Rightarrow> string \<times> string" where
  \<comment> \<open>\<open>strings.Cut\<close>\<close>
  "cutAt sep s = (case IndexByte s sep of None \<Rightarrow> (s, []) | Some i \<Rightarrow> (take i s, drop (i + 1) s))"

definition queryPairs :: "string \<Rightarrow> (string \<times> string) list" where
  \<comment> \<open>\<open>url.ParseQuery\<close>\<close>
  "queryPairs raw = List.map_filter (\<lambda>part.
     if CHR '';'' \<in> set part \<or> part = [] then None
     else case cutAt CHR ''='' part of (k, v) \<Rightarrow>
       (case (QueryUnescape k, QueryUnescape v) of (Some k, Some v) \<Rightarrow> Some (k, v) | _ \<Rightarrow> None))
     (Split raw CHR ''&'')"

definition urlQuery :: "string \<Rightarrow> query" where
  "urlQuery url name = (case map_of (queryPairs (snd (cutAt CHR ''?'' url))) name of Some v \<Rightarrow> v | None \<Rightarrow> [])"

section \<open>Configuration\<close>

record horstConfig =
  cfg_Listen :: string
  cfg_HomeGrid :: string
  cfg_StationCall :: string
  cfg_CtyPath :: string
  cfg_HorstBaseURL :: string
  cfg_AreaRings :: int
  cfg_MatchRings :: int
  cfg_WindowMinutes :: int
  cfg_KC2GEnable :: bool
  cfg_KC2GURL :: string
  cfg_ModelEnable :: bool

definition Defaults :: horstConfig where
  "Defaults = \<lparr>cfg_Listen = ''127.0.0.1:9970'', cfg_HomeGrid = ''JO32we'', cfg_StationCall = ''DL9ET'', cfg_CtyPath = [],
     cfg_HorstBaseURL = [], cfg_AreaRings = 3, cfg_MatchRings = 3, cfg_WindowMinutes = 30, cfg_KC2GEnable = True,
     cfg_KC2GURL = ''https://prop.kc2g.com/api/stations.json'', cfg_ModelEnable = False\<rparr>"

definition ParseBool :: "string \<Rightarrow> bool option" where
  "ParseBool s =
     (if s \<in> {''1'', ''t'', ''T'', ''true'', ''TRUE'', ''True''} then Some True
      else if s \<in> {''0'', ''f'', ''F'', ''false'', ''FALSE'', ''False''} then Some False else None)"

definition envString :: "(string \<Rightarrow> string) \<Rightarrow> string \<Rightarrow> string \<Rightarrow> string" where
  "envString env name old = (if env name \<noteq> [] then env name else old)"

definition envInt :: "(string \<Rightarrow> string) \<Rightarrow> string \<Rightarrow> (int \<Rightarrow> bool) \<Rightarrow> int \<Rightarrow> int" where
  "envInt env name ok old =
     (if env name \<noteq> [] then (case Atoi (TrimSpace (env name)) of Some n \<Rightarrow> if ok n then n else old | None \<Rightarrow> old) else old)"

definition FromEnv :: "(string \<Rightarrow> string) \<Rightarrow> horstConfig \<Rightarrow> horstConfig" where
  "FromEnv env cfg = cfg\<lparr>
     cfg_Listen := envString env ''HORSTPROP_LISTEN'' (cfg_Listen cfg),
     cfg_HomeGrid := envString env ''HORSTPROP_HOME_GRID'' (cfg_HomeGrid cfg),
     cfg_StationCall := envString env ''HORSTPROP_STATION_CALL'' (cfg_StationCall cfg),
     cfg_CtyPath := envString env ''HORSTPROP_CTY_PATH'' (cfg_CtyPath cfg),
     cfg_HorstBaseURL := envString env ''HORSTPROP_HORST_URL'' (cfg_HorstBaseURL cfg),
     cfg_AreaRings := envInt env ''HORSTPROP_AREA_RINGS'' (\<lambda>n. n \<ge> 0) (cfg_AreaRings cfg),
     cfg_MatchRings := envInt env ''HORSTPROP_MATCH_RINGS'' (\<lambda>n. n \<ge> 0) (cfg_MatchRings cfg),
     cfg_WindowMinutes := envInt env ''HORSTPROP_WINDOW_MINUTES'' (\<lambda>n. n > 0) (cfg_WindowMinutes cfg),
     cfg_KC2GURL := envString env ''HORSTPROP_KC2G_URL'' (cfg_KC2GURL cfg),
     cfg_KC2GEnable := (if env ''HORSTPROP_KC2G_ENABLE'' \<noteq> []
        then (case ParseBool (TrimSpace (env ''HORSTPROP_KC2G_ENABLE'')) of Some b \<Rightarrow> b | None \<Rightarrow> cfg_KC2GEnable cfg)
        else cfg_KC2GEnable cfg)\<rparr>"

definition FeedEnabled :: "horstConfig \<Rightarrow> bool" where
  "FeedEnabled c \<longleftrightarrow> TrimSpace (cfg_HorstBaseURL c) \<noteq> []"

definition feedTarget :: "horstConfig \<Rightarrow> string" where
  "feedTarget c = (let target = ToUpper (TrimSpace (cfg_HomeGrid c)) in if length target > 4 then take 4 target else target)"

definition feedMinutes :: "horstConfig \<Rightarrow> int" where
  "feedMinutes c = (let mins = (if cfg_WindowMinutes c \<le> 0 then 15 else cfg_WindowMinutes c) in if mins > 60 then 60 else mins)"

definition StreamURL :: "horstConfig \<Rightarrow> string" where
  \<comment> \<open>\<open>Values.Encode\<close> orders the keys\<close>
  "StreamURL c =
     (if \<not> FeedEnabled c then []
      else rev (dropWhile (\<lambda>ch. ch = CHR ''/'') (rev (cfg_HorstBaseURL c))) @ ''/api/stream?'' @
        ''minutes='' @ QueryEscape (itoa (feedMinutes c)) @ ''&rings='' @ QueryEscape (itoa (cfg_AreaRings c)) @
        ''&target='' @ QueryEscape (feedTarget c))"

section \<open>The feed\<close>

record feedSpot =
  fs_SNR :: int
  fs_AgeSeconds :: int
  fs_Locator :: string
  fs_ReporterLocator :: string
  fs_SourceType :: string
  fs_Band :: string

definition mapSpot :: "feedSpot \<Rightarrow> int \<Rightarrow> propReport option" where
  "mapSpot s now =
     (if EqualFold (fs_SourceType s) ''dxcluster'' then None
      else if fs_Band s = [] \<or> fs_Locator s = [] then None
      else Some \<lparr>pr_TxLocator = ToUpper (fs_Locator s), pr_RxLocator = ToUpper (fs_ReporterLocator s), pr_SNRDb = fs_SNR s,
                 pr_Band = fs_Band s, pr_Source = (if fs_SourceType s = [] then ''mqtt'' else fs_SourceType s),
                 pr_ObservedAt = now - fs_AgeSeconds s * second\<rparr>)"

definition feedLine :: "(string \<Rightarrow> feedSpot option) \<Rightarrow> int \<Rightarrow> string \<Rightarrow> propReport option" where
  \<comment> \<open>the report of a line of the event stream, if it carries one\<close>
  "feedLine decode now line =
     (if \<not> HasPrefix line ''data: '' then None
      else let data = TrimSpace (drop 6 line)
           in if data = [] \<or> data = ''{}'' then None
              else case decode data of None \<Rightarrow> None | Some sp \<Rightarrow> mapSpot sp now)"

definition consume :: "(string \<Rightarrow> feedSpot option) \<Rightarrow> (int \<times> string) list \<Rightarrow> rollingStore \<Rightarrow> rollingStore" where
  \<comment> \<open>the lines with the time they are read at; \<open>handle\<close> is \<open>Store.Add\<close>, as main.go passes it\<close>
  "consume decode ls st = foldl (\<lambda>st (now, line). case feedLine decode now line of None \<Rightarrow> st | Some pr \<Rightarrow> store_Add st pr) st ls"

section \<open>The request\<close>

datatype apiError = invalidJSON | methodNotAllowed | missingParams

definition spotFromRequest :: "string \<Rightarrow> query \<Rightarrow> propSpot option \<Rightarrow> apiError + propSpot" where
  \<comment> \<open>\<open>body\<close>: the decoded JSON of a POST; \<open>ParseInt\<close> saturates out of range\<close>
  "spotFromRequest verb q body =
     (let spot = (if verb = ''POST'' then (case body of None \<Rightarrow> Inl invalidJSON | Some s \<Rightarrow> Inr s)
                  else if verb = ''GET''
                  then Inr \<lparr>sp_DXCall = q ''dx_call'',
                            sp_FreqHz = (let raw = TrimSpace (q ''freq_hz'') in
                               case Atoi raw of Some n \<Rightarrow> n
                               | None \<Rightarrow> (case ParseDigits (if raw \<noteq> [] \<and> hd raw = CHR ''+'' then tl raw else raw) of
                                            Some _ \<Rightarrow> 2 ^ 63 - 1
                                          | None \<Rightarrow> if raw \<noteq> [] \<and> hd raw = CHR ''-'' \<and> ParseDigits (tl raw) \<noteq> None then - (2 ^ 63) else 0)),
                            sp_Timestamp = [], sp_Mode = q ''mode'', sp_Grid = q ''grid''\<rparr>
                  else Inl methodNotAllowed)
      in case spot of Inl err \<Rightarrow> Inl err
         | Inr s \<Rightarrow> if TrimSpace (sp_DXCall s) = [] \<or> sp_FreqHz s \<le> 0 then Inl missingParams else Inr s)"

section \<open>The country file\<close>

record geoEntity =
  ge_Name :: string
  ge_PrimaryPrefix :: string
  ge_Continent :: string
  ge_CQ :: int
  ge_ITU :: int
  ge_Loc :: LatLon

record CtyResolver =
  gr_exact :: "(string \<times> geoEntity) list"
  gr_prefixes :: "(string \<times> geoEntity) list"
  gr_maxPfx :: nat

fun geo_longestPrefix :: "(string \<times> geoEntity) list \<Rightarrow> string \<Rightarrow> nat \<Rightarrow> geoEntity option" where
  "geo_longestPrefix m cs 0 = None"
| "geo_longestPrefix m cs (Suc i) =
     (case map_of m (take (Suc i) cs) of Some e \<Rightarrow> Some e | None \<Rightarrow> geo_longestPrefix m cs i)"

definition geo_Resolve :: "CtyResolver option \<Rightarrow> string \<Rightarrow> geoEntity option" where
  "geo_Resolve c call =
     (case c of None \<Rightarrow> None
      | Some c \<Rightarrow>
          let cs = ToUpper (TrimSpace call)
          in if cs = [] then None
             else case map_of (gr_exact c) cs of
                    Some e \<Rightarrow> Some e
                  | None \<Rightarrow> geo_longestPrefix (gr_prefixes c) cs (min (gr_maxPfx c) (length cs)))"

record geoParse =
  gp_res :: CtyResolver
  gp_header :: "string list"
  gp_prefixBuf :: string
  gp_inPrefixes :: bool

definition geoStart :: geoParse where
  "geoStart = \<lparr>gp_res = \<lparr>gr_exact = [], gr_prefixes = [], gr_maxPfx = 0\<rparr>, gp_header = [], gp_prefixBuf = [], gp_inPrefixes = False\<rparr>"

definition geoEntityOf :: "(string \<Rightarrow> real option) \<Rightarrow> (string \<Rightarrow> int) \<Rightarrow> string list \<Rightarrow> geoEntity" where
  \<comment> \<open>the value of \<open>Atoi\<close> is kept even with an error: a parameter here\<close>
  "geoEntityOf parseFloat atoi hdr = \<lparr>
     ge_Name = TrimSpace (hdr ! 0), ge_PrimaryPrefix = TrimSpace (hdr ! 7), ge_Continent = TrimSpace (hdr ! 3),
     ge_CQ = atoi (TrimSpace (hdr ! 1)), ge_ITU = atoi (TrimSpace (hdr ! 2)),
     ge_Loc = (let lat = (case parseFloat (TrimSpace (hdr ! 4)) of Some v \<Rightarrow> v | None \<Rightarrow> 0);
                   lonWest = (case parseFloat (TrimSpace (hdr ! 5)) of Some v \<Rightarrow> v | None \<Rightarrow> 0)
               in \<lparr>ll_Lat = lat, ll_Lon = - lonWest\<rparr>)\<rparr>"

definition geo_stripOverrides :: "string \<Rightarrow> string" where
  "geo_stripOverrides tok =
     (let tok = TrimSuffix (TrimSpace tok) '';''
      in TrimSpace (takeWhile (\<lambda>c. c \<notin> set ''([<{~'') tok))"

definition geo_addToken :: "geoEntity \<Rightarrow> string \<Rightarrow> CtyResolver \<Rightarrow> CtyResolver" where
  "geo_addToken ent raw r =
     (let tok = TrimSpace raw
      in if tok = [] then r
         else let isExact = HasPrefix tok ''='';
                  tok = geo_stripOverrides (if isExact then drop 1 tok else tok)
              in if tok = [] then r
                 else let tok = ToUpper tok
                      in if isExact then r\<lparr>gr_exact := (tok, ent) # gr_exact r\<rparr>
                         else r\<lparr>gr_prefixes := (tok, ent) # gr_prefixes r, gr_maxPfx := max (gr_maxPfx r) (length tok)\<rparr>)"

definition geo_flush :: "(string \<Rightarrow> real option) \<Rightarrow> (string \<Rightarrow> int) \<Rightarrow> geoParse \<Rightarrow> geoParse" where
  "geo_flush parseFloat atoi st =
     (if length (gp_header st) < 8 then st
      else st\<lparr>gp_res := fold (geo_addToken (geoEntityOf parseFloat atoi (gp_header st))) (Split (gp_prefixBuf st) CHR '','') (gp_res st),
              gp_header := [], gp_prefixBuf := [], gp_inPrefixes := False\<rparr>)"

definition geo_parseLine :: "(string \<Rightarrow> real option) \<Rightarrow> (string \<Rightarrow> int) \<Rightarrow> string \<Rightarrow> geoParse \<Rightarrow> geoParse" where
  "geo_parseLine parseFloat atoi line st =
     (let trimmed = TrimSpace line
      in if trimmed = [] \<or> HasPrefix trimmed ''#'' then st
         else let st = (if \<not> gp_inPrefixes st \<and> line \<noteq> [] \<and> hd line \<noteq> CHR '' '' \<and> hd line \<noteq> CHR 0x09 \<and> CHR '':'' \<in> set line
                        then let st = geo_flush parseFloat atoi st; hdr = SplitN 9 line CHR '':''
                             in st\<lparr>gp_header := hdr,
                                   gp_prefixBuf := (if length hdr \<ge> 9 then gp_prefixBuf st @ hdr ! 8 else gp_prefixBuf st),
                                   gp_inPrefixes := True\<rparr>
                        else if gp_inPrefixes st then st\<lparr>gp_prefixBuf := gp_prefixBuf st @ line\<rparr>
                        else st)
              in if CHR '';'' \<in> set trimmed then geo_flush parseFloat atoi st else st)"

definition ParseCty :: "(string \<Rightarrow> real option) \<Rightarrow> (string \<Rightarrow> int) \<Rightarrow> string list \<Rightarrow> bool \<Rightarrow> CtyResolver option" where
  "ParseCty parseFloat atoi ls scanErr =
     (let st = geo_flush parseFloat atoi (fold (geo_parseLine parseFloat atoi) ls geoStart)
      in if scanErr then None else Some (gp_res st))"

section \<open>Facts: the country file\<close>

definition absEntity :: "geoEntity \<Rightarrow> Entity" where
  "absEntity e = \<lparr>ent_Name = ge_Name e, PrimaryPrefix = TrimPrefix (ge_PrimaryPrefix e) ''*'', Continent = ge_Continent e,
     ent_Lat = ll_Lat (ge_Loc e), ent_Lon = ll_Lon (ge_Loc e)\<rparr>"

definition absMap :: "(string \<times> geoEntity) list \<Rightarrow> (string \<times> Entity) list" where
  "absMap m = map (\<lambda>(k, e). (k, absEntity e)) m"

definition absRes :: "CtyResolver \<Rightarrow> Resolver" where
  "absRes r = \<lparr>cty_exact = absMap (gr_exact r), cty_prefixes = absMap (gr_prefixes r), maxPfx = gr_maxPfx r\<rparr>"

definition absParse :: "geoParse \<Rightarrow> parseState" where
  "absParse st = \<lparr>cty_res = absRes (gp_res st), cty_header = gp_header st, prefixBuf = gp_prefixBuf st, inPrefixes = gp_inPrefixes st\<rparr>"

lemma abs_entity: "absEntity (geoEntityOf pf ai hdr) = entityOf pf hdr"
  by (simp add: absEntity_def geoEntityOf_def entityOf_def Let_def split: option.split)

lemma abs_addToken: "absRes (geo_addToken e raw r) = addToken (absEntity e) raw (absRes r)"
proof -
  have s: "geo_stripOverrides = stripOverrides" by (rule ext) (simp add: geo_stripOverrides_def stripOverrides_def)
  show ?thesis by (simp add: geo_addToken_def addToken_def absRes_def absMap_def s Let_def)
qed

lemma abs_addTokens: "absRes (fold (geo_addToken e) toks r) = fold (addToken (absEntity e)) toks (absRes r)"
  by (induction toks arbitrary: r) (simp_all add: abs_addToken)

lemma abs_flush: "absParse (geo_flush pf ai st) = flush pf (absParse st)"
  by (simp add: geo_flush_def flush_def absParse_def abs_addTokens abs_entity)

lemma abs_parseLine: "absParse (geo_parseLine pf ai line st) = parseLine pf line (absParse st)"
proof -
  have p [simp]: "inPrefixes (absParse st) = gp_inPrefixes st" "prefixBuf (absParse st) = gp_prefixBuf st" for st
    by (simp_all add: absParse_def)
  have u: "absParse (st\<lparr>gp_header := h, gp_prefixBuf := b, gp_inPrefixes := i\<rparr>) = (absParse st)\<lparr>cty_header := h, prefixBuf := b, inPrefixes := i\<rparr>"
    "absParse (st\<lparr>gp_prefixBuf := b\<rparr>) = (absParse st)\<lparr>prefixBuf := b\<rparr>" for st h b i
    by (simp_all add: absParse_def)
  have "gp_prefixBuf (geo_flush pf ai st) = prefixBuf (flush pf (absParse st))" for st
    by (metis abs_flush p(2))
  then show ?thesis
    by (simp add: geo_parseLine_def parseLine_def headerLine_def Let_def abs_flush u)
qed

lemma abs_parse: "map_option absRes (ParseCty pf ai ls err) = Parse pf ls err"
proof -
  have "absParse (fold (geo_parseLine pf ai) ls st) = fold (parseLine pf) ls (absParse st)" for st
    by (induction ls arbitrary: st) (simp_all add: abs_parseLine)
  moreover have "absParse geoStart = parseStart" by (simp add: absParse_def geoStart_def parseStart_def absRes_def absMap_def)
  moreover have "absRes (gp_res st) = cty_res (absParse st)" for st by (simp add: absParse_def)
  ultimately show ?thesis by (simp add: ParseCty_def Parse_def Let_def abs_flush)
qed

lemma abs_longest: "map_option absEntity (geo_longestPrefix m cs n) = longestPrefix (absMap m) cs n"
  by (induction n) (auto simp: absMap_def map_of_map split: option.split)

lemma same_entities:
  "map_option absEntity (geo_Resolve (ParseCty pf ai ls err) call) = map_option fst (Resolve (Parse pf ls err) call)"
proof (cases "ParseCty pf ai ls err")
  case None
  then show ?thesis using abs_parse [of pf ai ls err] by (simp add: geo_Resolve_def Resolve_def)
next
  case (Some r)
  then have p: "Parse pf ls err = Some (absRes r)" using abs_parse [of pf ai ls err] by simp
  have e: "map_of (absMap m) k = map_option absEntity (map_of m k)" for m k by (simp add: absMap_def map_of_map)
  show ?thesis
    by (simp add: Some p geo_Resolve_def Resolve_def Let_def e option.map_comp comp_def abs_longest [symmetric] absRes_def
        del: map_of_map split: option.split)
qed

section \<open>Facts: the URL\<close>

lemma nibbles: "0 \<le> byte c div 16" "byte c div 16 < 16" "0 \<le> byte c mod 16" "byte c mod 16 < 16"
  using byte_bounds [of c] by linarith+

lemma unhex_hexDigit: "0 \<le> n \<Longrightarrow> n < 16 \<Longrightarrow> unhex (hexDigit n) = Some n"
  by (auto simp: unhex_def hexDigit_def is_digit_def)

lemma unreserved_plain: "is_unreserved c \<Longrightarrow> c \<noteq> CHR ''%'' \<and> c \<noteq> CHR ''+'' \<and> c \<noteq> CHR ''&'' \<and> c \<noteq> CHR ''='' \<and> c \<noteq> CHR '';'' \<and> c \<noteq> CHR ''?''"
  by (auto simp: is_unreserved_def is_digit_def)

lemma unescape_char: "QueryUnescape (escapeChar c @ t) = map_option ((#) c) (QueryUnescape t)"
proof (cases "is_unreserved c")
  case True
  with unreserved_plain [OF True] show ?thesis by (simp add: escapeChar_def)
next
  case False
  have "byte c = 16 * (byte c div 16) + byte c mod 16" by simp
  then have "char_of (16 * (byte c div 16) + byte c mod 16) = c" by (metis char_of_char)
  then show ?thesis using False nibbles [of c] by (simp add: escapeChar_def unhex_hexDigit)
qed

lemma unescape_escape [simp]: "QueryUnescape (QueryEscape s) = Some s"
  by (induction s) (simp_all add: QueryEscape_def unescape_char)

lemma hexDigit_plain: "0 \<le> n \<Longrightarrow> n < 16 \<Longrightarrow> is_unreserved (hexDigit n)"
  by (auto simp: hexDigit_def is_unreserved_def is_digit_def)

lemma escape_plain: "c \<in> set (QueryEscape s) \<Longrightarrow> is_unreserved c \<or> c = CHR ''%'' \<or> c = CHR ''+''"
proof (induction s)
  case (Cons d s)
  have "\<forall>c\<in>set (escapeChar d). is_unreserved c \<or> c = CHR ''%'' \<or> c = CHR ''+''"
    using nibbles [of d] by (auto simp: escapeChar_def hexDigit_plain)
  with Cons show ?case by (auto simp: QueryEscape_def)
qed (simp add: QueryEscape_def)

lemma escape_free [simp]:
  "CHR ''&'' \<notin> set (QueryEscape s)" "CHR ''='' \<notin> set (QueryEscape s)" "CHR '';'' \<notin> set (QueryEscape s)" "CHR ''?'' \<notin> set (QueryEscape s)"
  using escape_plain unreserved_plain by fastforce+

lemma cut_found: "sep \<notin> set u \<Longrightarrow> cutAt sep (u @ sep # v) = (u, v)"
  by (simp add: cutAt_def IndexByte_append)

lemma feed_pairs:
  "queryPairs (''minutes='' @ QueryEscape m @ ''&rings='' @ QueryEscape r @ ''&target='' @ QueryEscape t) =
    [(''minutes'', m), (''rings'', r), (''target'', t)]"
proof -
  have "Split (''minutes='' @ QueryEscape m @ ''&rings='' @ QueryEscape r @ ''&target='' @ QueryEscape t) CHR ''&'' =
      [''minutes='' @ QueryEscape m, ''rings='' @ QueryEscape r, ''target='' @ QueryEscape t]"
    using Split_Cons [of "CHR ''&''" "''minutes='' @ QueryEscape m" "''rings='' @ QueryEscape r @ ''&target='' @ QueryEscape t"]
      Split_Cons [of "CHR ''&''" "''rings='' @ QueryEscape r" "''target='' @ QueryEscape t"]
      Split_single [of "CHR ''&''" "''target='' @ QueryEscape t"] by simp
  moreover have "cutAt CHR ''='' (''minutes='' @ QueryEscape m) = (''minutes'', QueryEscape m)"
    "cutAt CHR ''='' (''rings='' @ QueryEscape r) = (''rings'', QueryEscape r)"
    "cutAt CHR ''='' (''target='' @ QueryEscape t) = (''target'', QueryEscape t)"
    using cut_found [of "CHR ''=''" "''minutes''"] cut_found [of "CHR ''=''" "''rings''"] cut_found [of "CHR ''=''" "''target''"] by simp_all
  ultimately show ?thesis by (simp add: queryPairs_def List.map_filter_simps)
qed

lemma StreamURL_query:
  assumes "FeedEnabled c" "CHR ''?'' \<notin> set (cfg_HorstBaseURL c)"
  shows "urlQuery (StreamURL c) = (\<lambda>name. if name = ''minutes'' then itoa (feedMinutes c)
     else if name = ''rings'' then itoa (cfg_AreaRings c) else if name = ''target'' then feedTarget c else [])"
proof -
  define base where "base = rev (dropWhile (\<lambda>ch. ch = CHR ''/'') (rev (cfg_HorstBaseURL c)))"
  define q where "q = ''minutes='' @ QueryEscape (itoa (feedMinutes c)) @ ''&rings='' @ QueryEscape (itoa (cfg_AreaRings c)) @
     ''&target='' @ QueryEscape (feedTarget c)"
  have b: "CHR ''?'' \<notin> set (base @ ''/api/stream'')" using assms(2) set_dropWhileD by (fastforce simp: base_def)
  have "StreamURL c = (base @ ''/api/stream'') @ CHR ''?'' # q" using assms(1) by (simp add: StreamURL_def base_def q_def)
  from cut_found [OF b, of q] this have "snd (cutAt CHR ''?'' (StreamURL c)) = q" by (metis snd_conv)
  then show ?thesis
    using feed_pairs [of "itoa (feedMinutes c)" "itoa (cfg_AreaRings c)" "feedTarget c"]
    by (intro ext) (simp add: urlQuery_def q_def)
qed

lemma feed_is_refused:
  assumes "FeedEnabled c" "CHR ''?'' \<notin> set (cfg_HorstBaseURL c)"
  shows "parseStreamRequest (urlQuery (StreamURL c)) lastEventID = None"
  using StreamURL_query [OF assms] by (simp add: parseStreamRequest_def resolveQTHQuery_def)

end
