(* ===== verification/PathScore.thy ===== *)
theory PathScore
  imports Activity Sorting Regions
begin

text \<open>
  internal/pathscope/score.go: the rate-anomaly score of a (band, region) cell. A mode is its
  wire string, a Go map of rates or levels an association list, absent entries read as zero. The
  clock and the probability curve are fields of the engine. The facts: every figure of a cell is
  in its range and the breakdown lists each mode once, strongest first (\<open>ScoreCell_typed\<close>), and
  more spots never lower the score or the probability (\<open>ScoreCell_mono\<close>).
\<close>

section \<open>The data\<close>

definition AllModes :: "string list" where
  "AllModes = [''FT8'', ''FT4'', ''CW'', ''RTTY'', ''SSB'']"

definition ModeAny :: string where "ModeAny = ''ANY''"

definition ModeSNRThresholdDB :: "(string \<times> real) list" where
  "ModeSNRThresholdDB = [(''FT8'', -24), (''FT4'', -18), (''CW'', -15), (''RTTY'', -10), (''SSB'', 6)]"

definition ModeConfidenceScale :: real where "ModeConfidenceScale = 6"

record SNRStats =
  P50 :: real
  P10 :: real
  snr_Dist :: real

record rateBaseline =
  bl_Band :: string
  bl_Region :: Region
  bl_Mode :: string
  bl_RateMean :: real
  bl_RateStdDev :: real
  bl_SNRMedian :: real
  bl_SNRStdDev :: real
  bl_SampleCount :: int

definition noBaseline :: rateBaseline where
  \<comment> \<open>\<open>Baseline{}\<close>\<close>
  "noBaseline = \<lparr>bl_Band = [], bl_Region = Unknown, bl_Mode = [], bl_RateMean = 0, bl_RateStdDev = 0,
     bl_SNRMedian = 0, bl_SNRStdDev = 0, bl_SampleCount = 0\<rparr>"

record SolarContext =
  KP :: real
  SFI :: real

record ModeCellContribution =
  mc_Mode :: string
  mc_Score :: real
  mc_Confidence :: real
  mc_Workable :: bool

record CellScore =
  cs_Band :: string
  cs_Region :: Region
  cs_ObservedAt :: int
  cs_Score :: real
  cs_Probability :: real
  cs_Confidence :: real
  cs_ModeBreakdown :: "ModeCellContribution list"
  cs_BaselineSamples :: int
  cs_SolarModifier :: real

record ScoringEngine =
  se_Now :: int
  se_ZLow :: real
  se_ZHigh :: real
  se_ProbabilityCurve :: "real \<Rightarrow> real \<Rightarrow> real"

definition defaultCurve :: "real \<Rightarrow> real \<Rightarrow> real" where
  "defaultCurve score confidence = (let raw = 1 / (1 + exp (- score)) in 1/2 + (raw - 1/2) * confidence)"

definition NewScoringEngine :: "int \<Rightarrow> ScoringEngine" where
  "NewScoringEngine now = \<lparr>se_Now = now, se_ZLow = -3, se_ZHigh = 6, se_ProbabilityCurve = defaultCurve\<rparr>"

section \<open>The parts of the score\<close>

definition baseline_IsValid :: "rateBaseline \<Rightarrow> bool" where
  "baseline_IsValid b \<longleftrightarrow> bl_SampleCount b > 0"

definition findBaseline :: "string \<Rightarrow> Region \<Rightarrow> string \<Rightarrow> rateBaseline list \<Rightarrow> rateBaseline" where
  "findBaseline band reg mode bls =
     (case find (\<lambda>b. bl_Band b = band \<and> bl_Region b = reg \<and> bl_Mode b = mode) bls of
        Some b \<Rightarrow> b | None \<Rightarrow> noBaseline)"

definition pickBestBaseline :: "string \<Rightarrow> Region \<Rightarrow> rateBaseline list \<Rightarrow> rateBaseline" where
  "pickBestBaseline band reg bls =
     (let b = findBaseline band reg ModeAny bls
      in if baseline_IsValid b then b
         else let own = filter (\<lambda>b. bl_Band b = band \<and> bl_Region b = reg \<and> bl_Mode b \<noteq> ModeAny) bls; n = real (length own)
              in if own = [] then noBaseline
                 else noBaseline\<lparr>bl_Band := band, bl_Region := reg, bl_Mode := ModeAny,
                        bl_RateMean := sum_list (map bl_RateMean own) / n,
                        bl_RateStdDev := sum_list (map bl_RateStdDev own) / n,
                        bl_SampleCount := foldl (\<lambda>m b. if bl_SampleCount b > m then bl_SampleCount b else m) 0 own\<rparr>)"

definition zScore :: "real \<Rightarrow> real \<Rightarrow> real \<Rightarrow> real" where
  "zScore live mean stddev = (if stddev \<le> 0 \<or> live \<le> 0 \<and> mean \<le> 0 then 0 else (live - mean) / stddev)"

definition modeConfidence :: "SNRStats \<Rightarrow> string \<Rightarrow> real" where
  "modeConfidence s m =
     (case map_of ModeSNRThresholdDB m of
        None \<Rightarrow> 1/2
      | Some thresh \<Rightarrow> if P50 s = 0 \<and> P10 s = 0 then 1/2
          else let x = (P50 s - thresh) / ModeConfidenceScale in 1 / (1 + exp (- x)))"

definition isWorkable :: "SNRStats \<Rightarrow> string \<Rightarrow> bool" where
  "isWorkable s m = (case map_of ModeSNRThresholdDB m of None \<Rightarrow> False | Some thresh \<Rightarrow> P50 s \<ge> thresh)"

definition cBandLift :: "string \<Rightarrow> real \<Rightarrow> real" where
  "cBandLift band sfi =
     (let b = ToUpper band; f = clamp ((sfi - 70) / 130) 0 1
      in if b \<in> {''10M'', ''12M'', ''15M''} then 85/100 + f * (40/100)
         else if b \<in> {''17M'', ''20M''} then 95/100 + f * (15/100)
         else if b \<in> {''30M'', ''40M'', ''60M'', ''80M'', ''160M''} then 1 + f * (5/100)
         else 1)"

definition stormPenalty :: "real \<Rightarrow> real" where
  "stormPenalty kp = (if kp \<le> 5 then 1 else clamp (1 - (kp - 5) / 8) (1/2) 1)"

definition solarModifier :: "string \<Rightarrow> SolarContext \<Rightarrow> real" where
  "solarModifier band s = 1 * cBandLift band (SFI s) * stormPenalty (KP s)"

section \<open>The cell\<close>

definition rateOf :: "(string \<times> int) list \<Rightarrow> string \<Rightarrow> int" where
  "rateOf rates m = (case map_of rates m of Some n \<Rightarrow> n | None \<Rightarrow> 0)"

definition statsOf :: "(string \<times> SNRStats) list \<Rightarrow> string \<Rightarrow> SNRStats" where
  "statsOf lev m = (case map_of lev m of Some s \<Rightarrow> s | None \<Rightarrow> \<lparr>P50 = 0, P10 = 0, snr_Dist = 0\<rparr>)"

definition liveAll :: "(string \<times> int) list \<Rightarrow> int" where
  "liveAll rates = sum_list (map snd rates)"

definition modeRow ::
    "ScoringEngine \<Rightarrow> string \<Rightarrow> Region \<Rightarrow> (string \<times> int) list \<Rightarrow> rateBaseline list \<Rightarrow> (string \<times> SNRStats) list \<Rightarrow> string \<Rightarrow> ModeCellContribution" where
  \<comment> \<open>the body of the loop over the modes\<close>
  "modeRow e band reg liveRates baselines liveSNR m =
     (let base = findBaseline band reg m baselines;
          base = (if \<not> baseline_IsValid base then pickBestBaseline band reg baselines else base);
          mz = zScore (of_int (rateOf liveRates m)) (bl_RateMean base) (bl_RateStdDev base);
          stats = statsOf liveSNR m
      in \<lparr>mc_Mode = m, mc_Score = clamp mz (se_ZLow e) (se_ZHigh e), mc_Confidence = modeConfidence stats m,
          mc_Workable = isWorkable stats m\<rparr>)"

definition strongerMode :: "ModeCellContribution \<Rightarrow> ModeCellContribution \<Rightarrow> bool" where
  "strongerMode a b \<longleftrightarrow> mc_Score a > mc_Score b"

definition ScoreCell ::
    "ScoringEngine \<Rightarrow> string \<Rightarrow> Region \<Rightarrow> (string \<times> int) list \<Rightarrow> rateBaseline list \<Rightarrow> (string \<times> SNRStats) list \<Rightarrow> SolarContext \<Rightarrow> CellScore" where
  "ScoreCell e band reg liveRates baselines liveSNR solar =
     (let bestBase = pickBestBaseline band reg baselines;
          z = zScore (of_int (liveAll liveRates)) (bl_RateMean bestBase) (bl_RateStdDev bestBase);
          score = clamp z (se_ZLow e) (se_ZHigh e);
          solarMod = solarModifier band solar;
          rows = map (modeRow e band reg liveRates baselines liveSNR) AllModes;
          totalConfidence = sum_list (map mc_Confidence rows);
          confidence = (if length rows > 0 then of_int (goRound (totalConfidence / real (length rows) * 100)) / 100 else 0)
      in \<lparr>cs_Band = band, cs_Region = reg, cs_ObservedAt = se_Now e, cs_Score = score,
          cs_Probability = clamp (se_ProbabilityCurve e score confidence * solarMod) 0 1,
          cs_Confidence = confidence, cs_ModeBreakdown = sort_by strongerMode rows,
          cs_BaselineSamples = bl_SampleCount bestBase, cs_SolarModifier = solarMod\<rparr>)"

section \<open>Facts\<close>

interpretation modes: weak_order strongerMode
  by unfold_locales (auto simp: strongerMode_def)

lemma clamp_mono: "v \<le> w \<Longrightarrow> clamp v lo hi \<le> clamp w lo hi" if "lo \<le> hi"
  using that by (simp add: clamp_def)

lemma logistic_range: "0 < 1 / (1 + exp (- x)) \<and> 1 / (1 + exp (- x)) < (1::real)"
  by (simp add: add_pos_pos)

lemma modeConfidence_range: "0 < modeConfidence s m \<and> modeConfidence s m < 1"
  using logistic_range by (auto simp: modeConfidence_def Let_def split: option.split)

lemma stormPenalty_range: "1/2 \<le> stormPenalty kp \<and> stormPenalty kp \<le> 1"
  using clamp_range [of "1/2" 1 "1 - (kp - 5) / 8"] by (simp add: stormPenalty_def)

lemma cBandLift_range: "85/100 \<le> cBandLift band sfi \<and> cBandLift band sfi \<le> 125/100"
  using clamp_range [of 0 1 "(sfi - 70) / 130"] by (auto simp: cBandLift_def Let_def)

lemma solarModifier_range: "425/1000 \<le> solarModifier band s \<and> solarModifier band s \<le> 125/100"
proof -
  have "85/100 * (1/2) \<le> cBandLift band (SFI s) * stormPenalty (KP s)"
    using cBandLift_range [of band "SFI s"] stormPenalty_range [of "KP s"] by (intro mult_mono) auto
  moreover have "cBandLift band (SFI s) * stormPenalty (KP s) \<le> 125/100 * 1"
    using cBandLift_range [of band "SFI s"] stormPenalty_range [of "KP s"] by (intro mult_mono) auto
  ultimately show ?thesis by (simp add: solarModifier_def)
qed

lemma zScore_mono: "live \<le> live' \<Longrightarrow> zScore live mean stddev \<le> zScore live' mean stddev"
  by (auto simp: zScore_def divide_right_mono divide_nonneg_pos)

lemma curve_mono: "s \<le> s' \<Longrightarrow> 0 \<le> c \<Longrightarrow> defaultCurve s c \<le> defaultCurve s' c"
  unfolding defaultCurve_def Let_def
  by (intro add_left_mono mult_right_mono diff_right_mono divide_left_mono add_left_mono mult_pos_pos) (auto simp: add_pos_pos)

lemma mean_range:
  fixes xs :: "real list"
  assumes "xs \<noteq> []" "\<forall>x\<in>set xs. 0 \<le> x \<and> x \<le> 1"
  shows "0 \<le> sum_list xs / real (length xs) \<and> sum_list xs / real (length xs) \<le> 1"
proof -
  have "0 \<le> sum_list xs" using assms(2) by (intro sum_list_nonneg) auto
  moreover have "sum_list xs \<le> real (length xs)" using assms(2) by (induction xs) auto
  ultimately show ?thesis using assms(1) by (simp add: divide_le_eq)
qed

lemma cell_confidence: "0 \<le> cs_Confidence (ScoreCell e band reg r bl lev solar) \<and> cs_Confidence (ScoreCell e band reg r bl lev solar) \<le> 1"
proof -
  let ?xs = "map mc_Confidence (map (modeRow e band reg r bl lev) AllModes)"
  have "\<forall>x\<in>set ?xs. 0 \<le> x \<and> x \<le> 1"
    using modeConfidence_range by (auto simp: modeRow_def Let_def intro: less_imp_le)
  from mean_range [OF _ this] have m: "0 \<le> sum_list ?xs / real (length ?xs)" "sum_list ?xs / real (length ?xs) \<le> 1"
    by (simp_all add: AllModes_def)
  have "cs_Confidence (ScoreCell e band reg r bl lev solar) = round2 (sum_list ?xs / real (length ?xs))"
    by (simp add: ScoreCell_def Let_def round2_def AllModes_def)
  then show ?thesis using round2_range [of _ 1] m by simp
qed

lemma ScoreCell_typed:
  fixes band reg r bl lev solar now
  defines "cell \<equiv> ScoreCell (NewScoringEngine now) band reg r bl lev solar"
  shows "-3 \<le> cs_Score cell \<and> cs_Score cell \<le> 6" "0 \<le> cs_Probability cell \<and> cs_Probability cell \<le> 1"
    "0 \<le> cs_Confidence cell \<and> cs_Confidence cell \<le> 1"
    "mset (map mc_Mode (cs_ModeBreakdown cell)) = mset AllModes"
    "sorted_wrt (\<lambda>a b. mc_Score b \<le> mc_Score a) (cs_ModeBreakdown cell)"
proof -
  show "-3 \<le> cs_Score cell \<and> cs_Score cell \<le> 6" "0 \<le> cs_Probability cell \<and> cs_Probability cell \<le> 1"
    unfolding cell_def ScoreCell_def NewScoringEngine_def Let_def by (simp_all add: clamp_range)
  show "0 \<le> cs_Confidence cell \<and> cs_Confidence cell \<le> 1" unfolding cell_def by (rule cell_confidence)
  let ?rows = "map (modeRow (NewScoringEngine now) band reg r bl lev) AllModes"
  have b: "cs_ModeBreakdown cell = sort_by strongerMode ?rows" by (simp add: cell_def ScoreCell_def Let_def)
  have "map mc_Mode ?rows = AllModes" by (simp add: modeRow_def comp_def Let_def)
  then show "mset (map mc_Mode (cs_ModeBreakdown cell)) = mset AllModes" unfolding b by (metis mset_map mset_sort_by)
  show "sorted_wrt (\<lambda>a b. mc_Score b \<le> mc_Score a) (cs_ModeBreakdown cell)"
    using modes.sorted [of ?rows] unfolding b by (simp add: strongerMode_def not_less)
qed

lemma ScoreCell_mono:
  assumes "liveAll r \<le> liveAll r'"
  shows "cs_Score (ScoreCell (NewScoringEngine now) band reg r bl lev solar) \<le> cs_Score (ScoreCell (NewScoringEngine now) band reg r' bl lev solar)"
    "cs_Probability (ScoreCell (NewScoringEngine now) band reg r bl lev solar) \<le> cs_Probability (ScoreCell (NewScoringEngine now) band reg r' bl lev solar)"
proof -
  let ?c = "\<lambda>r. ScoreCell (NewScoringEngine now) band reg r bl lev solar"
  show s: "cs_Score (?c r) \<le> cs_Score (?c r')"
    using assms by (simp add: ScoreCell_def Let_def NewScoringEngine_def clamp_mono zScore_mono)
  have k: "cs_Confidence (?c r) = cs_Confidence (?c r')"
    by (simp add: ScoreCell_def Let_def modeRow_def comp_def)
  have p: "cs_Probability (?c r) = clamp (defaultCurve (cs_Score (?c r)) (cs_Confidence (?c r)) * solarModifier band solar) 0 1" for r
    by (simp add: ScoreCell_def Let_def NewScoringEngine_def)
  have "0 \<le> solarModifier band solar" using solarModifier_range [of band solar] by simp
  then show "cs_Probability (?c r) \<le> cs_Probability (?c r')"
    unfolding p k using curve_mono [OF s, of "cs_Confidence (?c r')"] cell_confidence [of "NewScoringEngine now" band reg r' bl lev solar]
    by (intro clamp_mono mult_right_mono) auto
qed

end
