(* ===== verification/PropRemote.thy ===== *)
theory PropRemote
  imports Matching Regions
begin

text \<open>
  The source profiles of prop_intel_sources.go and the question both propagation engines ask of
  a spot: which end is the remote one (prop_intel_v2.go). The reference resolution upper-cases
  both ends (\<open>resolvePropIntelRemoteEndArea\<close>), the scan compares in place (\<open>propIntelRemote\<close>), the
  hoisted matcher works on integer squares behind a bounding box (\<open>propRemoteMatcher\<close>). All three
  name the same end (\<open>remote_is_reference\<close>, \<open>matcher_is_remote\<close>), the last one as long as no
  callsign reads as a square.
\<close>

section \<open>Source profiles\<close>

record propProfile =
  pf_PublicName :: string
  pf_InternalTag :: string
  pf_ReceiverSide :: string
  pf_HasTXPower :: bool
  pf_SSBFloorDb :: "real option"
  pf_CWFloorDb :: "real option"
  pf_DigitalFloorDb :: "real option"
  pf_PresenceMinSpots :: nat

definition propIntelSourceProfiles :: "propProfile list" where
  "propIntelSourceProfiles = [
     \<lparr>pf_PublicName = ''wspr'', pf_InternalTag = ''wspr'', pf_ReceiverSide = ''sc'', pf_HasTXPower = True,
      pf_SSBFloorDb = Some 10, pf_CWFloorDb = Some (-5), pf_DigitalFloorDb = None, pf_PresenceMinSpots = 0\<rparr>,
     \<lparr>pf_PublicName = ''pskr'', pf_InternalTag = ''mqtt'', pf_ReceiverSide = ''rc'', pf_HasTXPower = False,
      pf_SSBFloorDb = Some (-5), pf_CWFloorDb = Some (-18), pf_DigitalFloorDb = Some (-24), pf_PresenceMinSpots = 0\<rparr>,
     \<lparr>pf_PublicName = ''rbn'', pf_InternalTag = ''rbn'', pf_ReceiverSide = ''sc'', pf_HasTXPower = False,
      pf_SSBFloorDb = None, pf_CWFloorDb = Some 8, pf_DigitalFloorDb = None, pf_PresenceMinSpots = 0\<rparr>,
     \<lparr>pf_PublicName = ''dxcluster'', pf_InternalTag = ''dxcluster'', pf_ReceiverSide = ''sc'', pf_HasTXPower = False,
      pf_SSBFloorDb = None, pf_CWFloorDb = None, pf_DigitalFloorDb = None, pf_PresenceMinSpots = 2\<rparr>]"

definition propIntelProfilesByTag :: "string \<Rightarrow> propProfile option" where
  "propIntelProfilesByTag tag = find (\<lambda>p. pf_InternalTag p = tag) propIntelSourceProfiles"

definition propIntelProfilesByName :: "string \<Rightarrow> propProfile option" where
  "propIntelProfilesByName name = find (\<lambda>p. pf_PublicName p = name) propIntelSourceProfiles"

definition parseSourcesParam :: "string list option \<Rightarrow> propProfile list" where
  \<comment> \<open>the values of the repeated query key, \<open>None\<close> when it is absent\<close>
  "parseSourcesParam vals =
     (let wanted = (case vals of None \<Rightarrow> []
            | Some vs \<Rightarrow> filter (\<lambda>name. propIntelProfilesByName name \<noteq> None)
                (map (\<lambda>name. ToLower (TrimSpace name)) (concat (map (\<lambda>v. Split v CHR '','') vs))))
      in if wanted = [] then propIntelSourceProfiles
         else filter (\<lambda>p. pf_PublicName p \<in> set wanted) propIntelSourceProfiles)"

definition receiverEnds :: "propProfile \<Rightarrow> MQTTMessage \<Rightarrow> string \<times> string \<times> string \<times> string" where
  "receiverEnds p m =
     (let sl = ToUpper (TrimSpace (SL m)); rl = ToUpper (TrimSpace (RL m));
          sc = ToUpper (TrimSpace (SC m)); rc = ToUpper (TrimSpace (RC m))
      in if pf_ReceiverSide p = ''rc'' then (rl, rc, sl, sc) else (sl, sc, rl, rc))"

definition sourceOrderIndex :: "string \<Rightarrow> nat" where
  "sourceOrderIndex name = length (takeWhile (\<lambda>p. pf_PublicName p \<noteq> name) propIntelSourceProfiles)"

definition openBasisForProfile :: "propProfile \<Rightarrow> string" where
  "openBasisForProfile p = (if pf_HasTXPower p then ''budget'' else if pf_PresenceMinSpots p > 0 then ''presence'' else ''snr_floor'')"

section \<open>The remote end\<close>

fun remoteByTokens :: "string \<Rightarrow> string \<Rightarrow> string \<Rightarrow> string \<Rightarrow> string list \<Rightarrow> bool option" where
  \<comment> \<open>the loop over the tokens: \<open>Some b\<close> when an end matched, \<open>b\<close> when the remote is the receiver\<close>
  "remoteByTokens recvLoc recvCall otherLoc otherCall [] = None"
| "remoteByTokens recvLoc recvCall otherLoc otherCall (t # ts) =
     (if matchCall recvCall t \<or> IsLocator t \<and> recvLoc \<noteq> [] \<and> HasPrefix recvLoc t then Some False
      else if matchCall otherCall t \<or> IsLocator t \<and> otherLoc \<noteq> [] \<and> HasPrefix otherLoc t then Some True
      else remoteByTokens recvLoc recvCall otherLoc otherCall ts)"

definition resolvePropIntelRemoteEndArea ::
    "MQTTMessage \<Rightarrow> string list \<Rightarrow> liveArea option \<Rightarrow> string \<Rightarrow> string \<times> string \<times> bool" where
  "resolvePropIntelRemoteEndArea m tokens area receiverSide =
     (let sl = ToUpper (TrimSpace (SL m)); rl = ToUpper (TrimSpace (RL m));
          sc = ToUpper (TrimSpace (SC m)); rc = ToUpper (TrimSpace (RC m));
          (recvLoc, recvCall, otherLoc, otherCall) = (if receiverSide = ''rc'' then (rl, rc, sl, sc) else (sl, sc, rl, rc))
      in case area of
           Some a \<Rightarrow> if area_contains a recvLoc then (otherLoc, otherCall, True)
                     else if area_contains a otherLoc then (recvLoc, recvCall, True)
                     else (recvLoc, recvCall, False)
         | None \<Rightarrow> (case remoteByTokens recvLoc recvCall otherLoc otherCall tokens of
                      Some False \<Rightarrow> (otherLoc, otherCall, True)
                    | Some True \<Rightarrow> (recvLoc, recvCall, True)
                    | None \<Rightarrow> (recvLoc, recvCall, False)))"

definition resolvePropIntelRemoteEnd :: "MQTTMessage \<Rightarrow> string list \<Rightarrow> string \<Rightarrow> string \<times> string \<times> bool" where
  "resolvePropIntelRemoteEnd m tokens receiverSide = resolvePropIntelRemoteEndArea m tokens None receiverSide"

fun remoteByTokensFold :: "string \<Rightarrow> string \<Rightarrow> string \<Rightarrow> string \<Rightarrow> string list \<Rightarrow> bool option" where
  "remoteByTokensFold recvLoc recvCall otherLoc otherCall [] = None"
| "remoteByTokensFold recvLoc recvCall otherLoc otherCall (t # ts) =
     (if matchCall recvCall t \<or> IsLocator t \<and> hasPrefixFold recvLoc t then Some False
      else if matchCall otherCall t \<or> IsLocator t \<and> hasPrefixFold otherLoc t then Some True
      else remoteByTokensFold recvLoc recvCall otherLoc otherCall ts)"

definition propIntelRemote :: "MQTTMessage \<Rightarrow> string list \<Rightarrow> liveArea option \<Rightarrow> string \<Rightarrow> string \<times> bool \<times> bool" where
  \<comment> \<open>the locator, whether the remote is the receiver, whether an end matched\<close>
  "propIntelRemote m tokens area receiverSide =
     (let sl = TrimSpace (SL m); rl = TrimSpace (RL m);
          (recvLoc, otherLoc) = (if receiverSide = ''rc'' then (rl, sl) else (sl, rl))
      in case area of
           Some a \<Rightarrow> if area_contains a recvLoc then (otherLoc, False, True)
                     else if area_contains a otherLoc then (recvLoc, True, True)
                     else (recvLoc, True, False)
         | None \<Rightarrow>
             let recvCall = (if tokens = [] then [] else ToUpper (TrimSpace (SC m)));
                 otherCall = (if tokens = [] then [] else ToUpper (TrimSpace (RC m)));
                 (recvCall, otherCall) = (if receiverSide = ''rc'' then (otherCall, recvCall) else (recvCall, otherCall))
             in case remoteByTokensFold recvLoc recvCall otherLoc otherCall tokens of
                  Some False \<Rightarrow> (otherLoc, False, True)
                | Some True \<Rightarrow> (recvLoc, True, True)
                | None \<Rightarrow> (recvLoc, True, False))"

definition propIntelRemoteCall :: "MQTTMessage \<Rightarrow> string \<Rightarrow> bool \<Rightarrow> string" where
  "propIntelRemoteCall m receiverSide remoteIsRecv =
     (let (recvCall, otherCall) = (if receiverSide = ''rc'' then (RC m, SC m) else (SC m, RC m))
      in if remoteIsRecv then ToUpper (TrimSpace recvCall) else ToUpper (TrimSpace otherCall))"

section \<open>The matcher\<close>

record propRemoteMatcher =
  pm_area :: "liveArea option"
  pm_qthSet :: "string list"
  pm_sq :: "(int \<times> int) list"
  pm_exact :: bool

definition newPropRemoteMatcher :: "string list \<Rightarrow> liveArea option \<Rightarrow> propRemoteMatcher" where
  \<comment> \<open>the box is read off the squares (\<open>inBox\<close>); a token that is not a plain square stops the loop\<close>
  "newPropRemoteMatcher tokens area =
     (let pm = \<lparr>pm_area = area, pm_qthSet = tokens, pm_sq = [], pm_exact = False\<rparr>
      in if area \<noteq> None \<or> tokens = [] then pm
         else if list_ex (\<lambda>t. length t \<noteq> 4 \<or> \<not> IsLocator t) tokens then pm
         else pm\<lparr>pm_sq := map (\<lambda>t. case SquareXY t of Some p \<Rightarrow> p | None \<Rightarrow> (0, 0)) tokens, pm_exact := True\<rparr>)"

definition inBox :: "propRemoteMatcher \<Rightarrow> int \<times> int \<Rightarrow> bool" where
  \<comment> \<open>\<open>minX\<close>, \<open>maxX\<close>, \<open>minY\<close>, \<open>maxY\<close> are folded over the squares\<close>
  "inBox pm p =
     (case pm_sq pm of [] \<Rightarrow> False
      | q # qs \<Rightarrow>
          fst p \<ge> foldl (\<lambda>a t. min a (fst t)) (fst q) qs \<and> fst p \<le> foldl (\<lambda>a t. max a (fst t)) (fst q) qs \<and>
          snd p \<ge> foldl (\<lambda>a t. min a (snd t)) (snd q) qs \<and> snd p \<le> foldl (\<lambda>a t. max a (snd t)) (snd q) qs)"

fun remoteBySquares :: "(int \<times> int) option \<Rightarrow> (int \<times> int) option \<Rightarrow> (int \<times> int) list \<Rightarrow> bool option" where
  "remoteBySquares r oth [] = None"
| "remoteBySquares r oth (t # ts) =
     (if r = Some t then Some False else if oth = Some t then Some True else remoteBySquares r oth ts)"

definition pm_resolve :: "propRemoteMatcher \<Rightarrow> MQTTMessage \<Rightarrow> string \<Rightarrow> string \<times> bool \<times> bool" where
  "pm_resolve pm m receiverSide =
     (if \<not> pm_exact pm then propIntelRemote m (pm_qthSet pm) (pm_area pm) receiverSide
      else let sl = TrimSpace (SL m); rl = TrimSpace (RL m);
               (recvLoc, otherLoc) = (if receiverSide = ''rc'' then (rl, sl) else (sl, rl));
               boxed = (\<lambda>loc. case SquareXYFold loc of None \<Rightarrow> None | Some p \<Rightarrow> if inBox pm p then Some p else None);
               r = boxed recvLoc; oth = boxed otherLoc
           in if r = None \<and> oth = None then (recvLoc, True, False)
              else case remoteBySquares r oth (pm_sq pm) of
                     Some False \<Rightarrow> (otherLoc, False, True)
                   | Some True \<Rightarrow> (recvLoc, True, True)
                   | None \<Rightarrow> (recvLoc, True, False))"

section \<open>They agree\<close>

lemma fold_tokens:
  "remoteByTokens (ToUpper recvLoc) recvCall (ToUpper otherLoc) otherCall ts = remoteByTokensFold recvLoc recvCall otherLoc otherCall ts"
proof (induction ts)
  case (Cons t ts)
  have h: "IsLocator t \<and> ToUpper l \<noteq> [] \<and> HasPrefix (ToUpper l) t \<longleftrightarrow> IsLocator t \<and> hasPrefixFold l t" for l
    by (auto simp: hasPrefixFold_eq IsLocator_def HasPrefix_def split: if_splits)
  show ?case by (simp only: remoteByTokens.simps remoteByTokensFold.simps h Cons)
qed simp

lemma remote_is_reference:
  assumes "propIntelRemote m tokens area side = (loc, isRecv, matched)"
  shows "resolvePropIntelRemoteEndArea m tokens area side = (ToUpper loc, propIntelRemoteCall m side isRecv, matched)"
proof -
  define rl where "rl = TrimSpace (if side = ''rc'' then RL m else SL m)"
  define ol where "ol = TrimSpace (if side = ''rc'' then SL m else RL m)"
  define rc where "rc = ToUpper (TrimSpace (if side = ''rc'' then RC m else SC m))"
  define oc where "oc = ToUpper (TrimSpace (if side = ''rc'' then SC m else RC m))"
  have ref: "resolvePropIntelRemoteEndArea m tokens area side =
      (case area of
         Some a \<Rightarrow> if area_contains a (ToUpper rl) then (ToUpper ol, oc, True)
                   else if area_contains a (ToUpper ol) then (ToUpper rl, rc, True) else (ToUpper rl, rc, False)
       | None \<Rightarrow> (case remoteByTokens (ToUpper rl) rc (ToUpper ol) oc tokens of
            Some False \<Rightarrow> (ToUpper ol, oc, True) | Some True \<Rightarrow> (ToUpper rl, rc, True) | None \<Rightarrow> (ToUpper rl, rc, False)))"
    by (cases "side = ''rc''"; cases area)
      (simp_all add: resolvePropIntelRemoteEndArea_def Let_def rl_def ol_def rc_def oc_def split: option.split bool.split)
  have scan: "propIntelRemote m tokens area side =
      (case area of
         Some a \<Rightarrow> if area_contains a rl then (ol, False, True)
                   else if area_contains a ol then (rl, True, True) else (rl, True, False)
       | None \<Rightarrow> (case remoteByTokensFold rl rc ol oc tokens of
            Some False \<Rightarrow> (ol, False, True) | Some True \<Rightarrow> (rl, True, True) | None \<Rightarrow> (rl, True, False)))"
    by (cases "side = ''rc''"; cases area; cases "tokens = []")
      (simp_all add: propIntelRemote_def Let_def rl_def ol_def rc_def oc_def split: option.split bool.split)
  have call: "propIntelRemoteCall m side b = (if b then rc else oc)" for b
    by (simp add: propIntelRemoteCall_def rc_def oc_def)
  show ?thesis
    using assms unfolding ref scan area_contains_upper fold_tokens
    by (auto simp: call split: option.splits bool.splits if_splits)
qed

lemma foldl_bounds:
  fixes f :: "'a \<Rightarrow> int"
  shows "foldl (\<lambda>a t. min a (f t)) b ts \<le> b" "\<forall>t\<in>set ts. foldl (\<lambda>a t. min a (f t)) b ts \<le> f t"
    "b \<le> foldl (\<lambda>a t. max a (f t)) b ts" "\<forall>t\<in>set ts. f t \<le> foldl (\<lambda>a t. max a (f t)) b ts"
proof (induction ts arbitrary: b)
  case (Cons t ts)
  { case 1 show ?case using Cons.IH(1) [of "min b (f t)"] by simp }
  { case 2 show ?case using Cons.IH(1,2) [of "min b (f t)"] by auto }
  { case 3 show ?case using Cons.IH(3) [of "max b (f t)"] by simp }
  { case 4 show ?case using Cons.IH(3,4) [of "max b (f t)"] by auto }
qed simp_all

lemma squares_in_box: "p \<in> set (pm_sq pm) \<Longrightarrow> inBox pm p"
  using foldl_bounds [where f = fst and ts = "tl (pm_sq pm)"] foldl_bounds [where f = snd and ts = "tl (pm_sq pm)"]
  by (cases "pm_sq pm") (auto simp: inBox_def)

definition callsign_tokens :: "MQTTMessage \<Rightarrow> string list \<Rightarrow> bool" where
  \<comment> \<open>a callsign of the message matches one of the tokens\<close>
  "callsign_tokens m ts \<longleftrightarrow> (\<exists>t\<in>set ts. matchCall (ToUpper (TrimSpace (SC m))) t \<or> matchCall (ToUpper (TrimSpace (RC m))) t)"

lemma token_square:
  assumes "length t = 4" "IsLocator t"
  shows "hasPrefixFold l t \<longleftrightarrow> SquareXYFold l = SquareXY t" "SquareXY t \<noteq> None"
proof -
  obtain x y where xy: "SquareXY t = Some (x, y)" using assms(2) by (auto simp: SquareXY_def)
  then have "on_grid x y" "t = SquareXYToLocator x y"
    using SquareXYToLocator_SquareXY [OF xy] assms(1) by (simp_all add: SquareXY_on_grid)
  with HasPrefix_name_iff [of x y l] xy show "hasPrefixFold l t \<longleftrightarrow> SquareXYFold l = SquareXY t" by (simp add: hasPrefixFold_eq)
  show "SquareXY t \<noteq> None" using xy by simp
qed

lemma by_squares:
  assumes "\<forall>t\<in>set ts. length t = 4 \<and> IsLocator t \<and> \<not> matchCall rc t \<and> \<not> matchCall oc t"
    "\<forall>p\<in>set (map (\<lambda>t. case SquareXY t of Some p \<Rightarrow> p | None \<Rightarrow> (0, 0)) ts). bx p"
  shows "remoteByTokensFold rl rc ol oc ts =
    remoteBySquares (case SquareXYFold rl of None \<Rightarrow> None | Some p \<Rightarrow> if bx p then Some p else None)
      (case SquareXYFold ol of None \<Rightarrow> None | Some p \<Rightarrow> if bx p then Some p else None)
      (map (\<lambda>t. case SquareXY t of Some p \<Rightarrow> p | None \<Rightarrow> (0, 0)) ts)"
  using assms
proof (induction ts)
  case (Cons t ts)
  obtain p where p: "SquareXY t = Some p" "bx p" using token_square(2) [of t] Cons.prems by auto
  have "hasPrefixFold l t \<longleftrightarrow> (case SquareXYFold l of None \<Rightarrow> None | Some p \<Rightarrow> if bx p then Some p else None) = Some p" for l
    using token_square(1) [of t l] Cons.prems(1) p by (auto split: option.split)
  with Cons p show ?case by (simp del: remoteBySquares.simps(1))
qed simp

lemma no_squares: "remoteBySquares None None ts = None"
  by (induction ts) simp_all

lemma matcher_is_remote:
  assumes "pm_exact (newPropRemoteMatcher tokens area) \<Longrightarrow> \<not> callsign_tokens m tokens"
  shows "pm_resolve (newPropRemoteMatcher tokens area) m side = propIntelRemote m tokens area side"
proof (cases "pm_exact (newPropRemoteMatcher tokens area)")
  case False
  then show ?thesis by (auto simp: pm_resolve_def newPropRemoteMatcher_def Let_def split: if_splits)
next
  case True
  let ?pm = "newPropRemoteMatcher tokens area"
  let ?boxed = "\<lambda>loc. case SquareXYFold loc of None \<Rightarrow> None | Some p \<Rightarrow> if inBox ?pm p then Some p else None"
  have pm: "area = None" "tokens \<noteq> []" "\<forall>t\<in>set tokens. length t = 4 \<and> IsLocator t"
    "pm_sq ?pm = map (\<lambda>t. case SquareXY t of Some p \<Rightarrow> p | None \<Rightarrow> (0, 0)) tokens"
    using True by (auto simp: newPropRemoteMatcher_def list_ex_iff Let_def split: if_splits)
  define rl where "rl = TrimSpace (if side = ''rc'' then RL m else SL m)"
  define ol where "ol = TrimSpace (if side = ''rc'' then SL m else RL m)"
  define rc where "rc = ToUpper (TrimSpace (if side = ''rc'' then RC m else SC m))"
  define oc where "oc = ToUpper (TrimSpace (if side = ''rc'' then SC m else RC m))"
  have calls: "\<forall>t\<in>set tokens. length t = 4 \<and> IsLocator t \<and> \<not> matchCall rc t \<and> \<not> matchCall oc t"
    using assms [OF True] pm(3) by (auto simp: callsign_tokens_def rc_def oc_def)
  have box: "\<forall>p\<in>set (pm_sq ?pm). inBox ?pm p" using squares_in_box by blast
  have sq: "remoteByTokensFold rl rc ol oc tokens = remoteBySquares (?boxed rl) (?boxed ol) (pm_sq ?pm)"
    using by_squares [OF calls box [unfolded pm(4)], of rl ol] by (simp add: pm(4))
  have scan: "propIntelRemote m tokens area side = (case remoteByTokensFold rl rc ol oc tokens of
      Some False \<Rightarrow> (ol, False, True) | Some True \<Rightarrow> (rl, True, True) | None \<Rightarrow> (rl, True, False))"
    using pm(1,2) by (cases "side = ''rc''") (simp_all add: propIntelRemote_def Let_def rl_def ol_def rc_def oc_def split: option.split bool.split)
  have res: "pm_resolve ?pm m side =
      (if ?boxed rl = None \<and> ?boxed ol = None then (rl, True, False)
       else case remoteBySquares (?boxed rl) (?boxed ol) (pm_sq ?pm) of
          Some False \<Rightarrow> (ol, False, True) | Some True \<Rightarrow> (rl, True, True) | None \<Rightarrow> (rl, True, False))"
    using True unfolding rl_def ol_def pm_resolve_def Let_def
    by (cases "side = ''rc''") (simp_all only: if_True if_False prod.case simp_thms)
  show ?thesis
  proof (cases "?boxed rl = None \<and> ?boxed ol = None")
    case True
    then show ?thesis unfolding res scan sq by (simp only: no_squares) simp
  next
    case False
    then show ?thesis unfolding res scan sq by (simp only: if_not_P [OF False] if_False)
  qed
qed

section \<open>Regions of raw locators\<close>

definition regionIndex :: "Region \<Rightarrow> nat option" where
  "regionIndex r = (if r \<in> set AllRegions then Some (length (takeWhile (\<lambda>s. s \<noteq> r) AllRegions)) else None)"

definition rawRegionOf :: "string \<Rightarrow> nat option" where
  \<comment> \<open>what \<open>rawRegionMemo.get\<close> computes on a miss; \<open>None\<close> is -1\<close>
  "rawRegionOf raw =
     (let up = ToUpper raw
      in if up \<noteq> [] \<and> IsLocator up
         then (let reg = region_FromLocator up in if reg \<noteq> Unknown then regionIndex reg else None)
         else None)"

definition memoGet :: "(string \<times> nat option) list \<Rightarrow> string \<Rightarrow> (string \<times> nat option) list \<times> nat option" where
  "memoGet memo raw = (case map_of memo raw of Some i \<Rightarrow> (memo, i) | None \<Rightarrow> ((raw, rawRegionOf raw) # memo, rawRegionOf raw))"

definition memo_ok :: "(string \<times> nat option) list \<Rightarrow> bool" where
  "memo_ok memo \<longleftrightarrow> (\<forall>(raw, i)\<in>set memo. i = rawRegionOf raw)"

lemma memoGet_ok: "memo_ok memo \<Longrightarrow> memo_ok (fst (memoGet memo raw)) \<and> snd (memoGet memo raw) = rawRegionOf raw"
  by (auto simp: memoGet_def memo_ok_def split: option.split dest: map_of_SomeD)

lemma regionIndex_nth: "regionIndex r = Some i \<longleftrightarrow> i < 11 \<and> AllRegions ! i = r"
proof -
  have "i < 11 \<Longrightarrow> i = 0 \<or> i = 1 \<or> i = 2 \<or> i = 3 \<or> i = 4 \<or> i = 5 \<or> i = 6 \<or> i = 7 \<or> i = 8 \<or> i = 9 \<or> i = 10" by arith
  then show ?thesis by (cases r) (auto simp: regionIndex_def AllRegions_def)
qed

end
