(* ===== verification/FromHere.thy ===== *)
theory FromHere
  imports PropRemote Assoc Activity
begin

text \<open>
  The from-here view of prop_intel_fromhere.go: the window split into slot segments, the normal of
  a cell over the reference days, which ends of a spot lie in the operator's area, the stations
  behind a surge, and the shared background fetches. The store's rows and its coverage are
  arguments. The facts: a segment weighs the seconds of the window that fall in its slot
  (\<open>window_segments\<close>), a normal is the mean and the sample deviation of the window totals of the
  covered days (\<open>normal_is_mean\<close>), the live counter counts a spot in exactly the cells the region
  baseline of dx_postgres.go counts it in (\<open>ends_are_baseline_keys\<close>), concurrent callers share
  one fetch and no fetch in flight is dropped (\<open>one_fetch\<close>).
\<close>

section \<open>Window segments\<close>

record windowSegment =
  seg_Slot :: int
  seg_DayOffset :: int
  seg_Weight :: real

function segmentLoop :: "int \<Rightarrow> int \<Rightarrow> int \<Rightarrow> windowSegment list" where
  \<comment> \<open>\<open>for t := start; t < now;\<close>\<close>
  "segmentLoop now endDay t =
     (if t < now
      then let slotStart = t - rem (rem t 1800 + 1800) 1800;
               stop = slotStart + 1800; stop = (if stop > now then now else stop)
           in \<lparr>seg_Slot = utcSlotOfDay t, seg_DayOffset = utcDayIndex t - endDay, seg_Weight = of_int (stop - t) / 1800\<rparr>
              # segmentLoop now endDay stop
      else [])"
  by pat_completeness auto

termination
proof (relation "measure (\<lambda>(now, _, t). nat (now - t))")
  fix now t slotStart nxt nxt' :: int
  assume "t < now" "slotStart = t - rem (rem t 1800 + 1800) 1800" "nxt = slotStart + 1800" "nxt' = (if nxt > now then now else nxt)"
  moreover have "t mod 1800 < 1800" by simp
  ultimately show "((now, endDay, nxt'), (now, endDay, t)) \<in> measure (\<lambda>(now, _, t). nat (now - t))" for endDay
    by (simp add: rem_shift)
qed simp

declare segmentLoop.simps [simp del]

definition fromHereWindowSegments :: "int \<Rightarrow> int \<Rightarrow> windowSegment list" where
  "fromHereWindowSegments now minutes =
     (if minutes \<le> 0 then [] else segmentLoop now (utcDayIndex now) (now - minutes * 60))"

lemma slot_day: "utcSlotOfDay u = u div 1800 mod 48" "utcDayIndex u = u div 1800 div 48"
  by (simp_all add: utcSlotOfDay_eq utcDayIndex_floor div_mult2_eq zmod_zmult2_eq [of 48 u 1800, simplified] flip: zdiv_zmult2_eq)

lemma same_slot: "utcSlotOfDay u = utcSlotOfDay v \<and> utcDayIndex u = utcDayIndex v \<longleftrightarrow> u div 1800 = v div 1800"
  unfolding slot_day by (metis mult_div_mod_eq)

lemma slot_inj: "a mod 48 = b mod 48 \<Longrightarrow> a div 48 = b div 48 \<Longrightarrow> a = (b::int)"
  by (metis mult_div_mod_eq)

definition overlap :: "int \<Rightarrow> int \<Rightarrow> int \<Rightarrow> nat" where
  \<comment> \<open>the seconds from \<open>t\<close> up to \<open>now\<close> in the \<open>k\<close>-th slot since the epoch\<close>
  "overlap now t k = card {u. t \<le> u \<and> u < now \<and> u div 1800 = k}"

lemma segmentLoop_step:
  assumes "t < now"
  defines "stop \<equiv> min now (1800 * (t div 1800) + 1800)"
  shows "segmentLoop now endDay t =
      \<lparr>seg_Slot = utcSlotOfDay t, seg_DayOffset = utcDayIndex t - endDay, seg_Weight = of_int (stop - t) / 1800\<rparr>
      # segmentLoop now endDay stop"
    "t < stop" "stop \<le> now" "t \<le> u \<Longrightarrow> u < now \<Longrightarrow> u div 1800 = t div 1800 \<longleftrightarrow> u < stop"
proof -
  have m: "t mod 1800 = t - 1800 * (t div 1800)" by (simp add: minus_mult_div_eq_mod)
  then have "(if t - rem (rem t 1800 + 1800) 1800 + 1800 > now then now else t - rem (rem t 1800 + 1800) 1800 + 1800) = stop"
    by (simp add: rem_shift stop_def)
  with assms(1) show "segmentLoop now endDay t =
      \<lparr>seg_Slot = utcSlotOfDay t, seg_DayOffset = utcDayIndex t - endDay, seg_Weight = of_int (stop - t) / 1800\<rparr>
      # segmentLoop now endDay stop"
    by (subst segmentLoop.simps) (simp add: Let_def)
  have "t < 1800 * (t div 1800) + 1800" using pos_mod_bound [of 1800 t] m by simp
  with assms(1) show "t < stop" "stop \<le> now" by (simp_all add: stop_def)
  show "u div 1800 = t div 1800 \<longleftrightarrow> u < stop" if "t \<le> u" "u < now"
    using that zdiv_mono1 [of t u 1800] unfolding stop_def by (auto simp: min_def)
qed

definition fills :: "int \<Rightarrow> int \<Rightarrow> int \<Rightarrow> windowSegment \<Rightarrow> int \<Rightarrow> bool" where
  \<comment> \<open>the segment is the part of that slot from \<open>t\<close> up to \<open>now\<close>\<close>
  "fills now endDay t s k \<longleftrightarrow> seg_Slot s = k mod 48 \<and> seg_DayOffset s = k div 48 - endDay \<and>
     0 < overlap now t k \<and> seg_Weight s = overlap now t k / 1800"

lemma segments_spec:
  "(\<forall>s\<in>set (segmentLoop now endDay t). \<exists>k. t div 1800 \<le> k \<and> fills now endDay t s k) \<and>
   distinct (map (\<lambda>s. (seg_Slot s, seg_DayOffset s)) (segmentLoop now endDay t)) \<and>
   (\<forall>u. t \<le> u \<and> u < now \<longrightarrow> (\<exists>s\<in>set (segmentLoop now endDay t). seg_Slot s = utcSlotOfDay u \<and> seg_DayOffset s = utcDayIndex u - endDay)) \<and>
   (t \<le> now \<longrightarrow> sum_list (map seg_Weight (segmentLoop now endDay t)) = of_int (now - t) / 1800)"
proof (induction now endDay t rule: segmentLoop.induct)
  case (1 now endDay t)
  show ?case
  proof (cases "t < now")
    case False
    then show ?thesis by (simp add: segmentLoop.simps)
  next
    case True
    define nxt where "nxt = min now (1800 * (t div 1800) + 1800)"
    note st = segmentLoop_step [OF True, folded nxt_def]
    let ?rest = "segmentLoop now endDay nxt"
    have nxt: "(if t - rem (rem t 1800 + 1800) 1800 + 1800 > now then now else t - rem (rem t 1800 + 1800) 1800 + 1800) = nxt"
      by (simp add: rem_shift nxt_def minus_mult_div_eq_mod [symmetric])
    note IH = 1 [OF True refl refl refl, unfolded nxt]
    note IHw = conjunct1 [OF IH, THEN bspec] and IHd = conjunct1 [OF conjunct2 [OF IH]]
    note IHc = conjunct1 [OF conjunct2 [OF conjunct2 [OF IH]], rule_format] and IHs = conjunct2 [OF conjunct2 [OF conjunct2 [OF IH]], rule_format]
    have ov: "overlap now nxt k = overlap now t k" if "t div 1800 < k" for k
    proof -
      have "nxt \<le> u \<longleftrightarrow> t \<le> u" if "u < now" "u div 1800 = k" for u
        using that \<open>t div 1800 < k\<close> st(2) st(4) [of u] by linarith
      then have "{u. nxt \<le> u \<and> u < now \<and> u div 1800 = k} = {u. t \<le> u \<and> u < now \<and> u div 1800 = k}" by blast
      then show ?thesis by (simp add: overlap_def)
    qed
    have "{u. t \<le> u \<and> u < now \<and> u div 1800 = t div 1800} = {t..<nxt}" using st(2-4) by auto
    then have h: "overlap now t (t div 1800) = nat (nxt - t)" by (simp add: overlap_def)
    have later: "\<exists>k. t div 1800 < k \<and> fills now endDay t s k" if s: "s \<in> set ?rest" for s
    proof -
      obtain k where k: "nxt div 1800 \<le> k" "fills now endDay nxt s k" using IHw [OF s] by blast
      have "nxt < now" using that by (cases "nxt < now") (simp_all add: segmentLoop.simps)
      then have "nxt div 1800 \<noteq> t div 1800" using st(2) st(4) [of nxt] by simp
      moreover have "t div 1800 \<le> nxt div 1800" using st(2) by (simp add: zdiv_mono1)
      ultimately have "t div 1800 < k" using k(1) by simp
      then show ?thesis using k(2) ov [of k] unfolding fills_def by metis
    qed
    have eq: "segmentLoop now endDay t =
        \<lparr>seg_Slot = t div 1800 mod 48, seg_DayOffset = t div 1800 div 48 - endDay, seg_Weight = of_int (nxt - t) / 1800\<rparr> # ?rest"
      using st(1) by (simp add: slot_day)
    have "\<forall>s\<in>set ?rest. (seg_Slot s, seg_DayOffset s) \<noteq> (t div 1800 mod 48, t div 1800 div 48 - endDay)"
    proof
      fix s assume "s \<in> set ?rest"
      from later [OF this] obtain k where k: "t div 1800 < k" "seg_Slot s = k mod 48" "seg_DayOffset s = k div 48 - endDay" unfolding fills_def by metis
      show "(seg_Slot s, seg_DayOffset s) \<noteq> (t div 1800 mod 48, t div 1800 div 48 - endDay)"
        using k slot_inj [of k "t div 1800"] by auto
    qed
    then have d: "distinct (map (\<lambda>s. (seg_Slot s, seg_DayOffset s)) (segmentLoop now endDay t))"
      using IHd unfolding eq by auto
    have c: "\<exists>s\<in>set (segmentLoop now endDay t). seg_Slot s = utcSlotOfDay u \<and> seg_DayOffset s = utcDayIndex u - endDay"
      if "t \<le> u" "u < now" for u
    proof (cases "u < nxt")
      case True
      then have "u div 1800 = t div 1800" using st(4) [OF that] by simp
      then show ?thesis unfolding eq by (simp add: slot_day)
    next
      case False
      then show ?thesis using IHc [of u] that(2) unfolding eq by auto
    qed
    have s: "sum_list (map seg_Weight (segmentLoop now endDay t)) = of_int (now - t) / 1800"
      using IHs st(3) unfolding eq by (simp add: field_simps)
    have w: "\<exists>k. t div 1800 \<le> k \<and> fills now endDay t s k" if "s \<in> set (segmentLoop now endDay t)" for s
    proof (cases "s \<in> set ?rest")
      case True
      then show ?thesis using later by (meson less_imp_le)
    next
      case False
      with that show ?thesis using h st(2) unfolding eq fills_def by (intro exI [of _ "t div 1800"]) auto
    qed
    show ?thesis using w d c s by blast
  qed
qed

lemma overlap_by_slot: "overlap now t k = card {u. t \<le> u \<and> u < now \<and> utcSlotOfDay u = k mod 48 \<and> utcDayIndex u = k div 48}"
proof -
  have "u div 1800 = k \<longleftrightarrow> utcSlotOfDay u = k mod 48 \<and> utcDayIndex u = k div 48" for u
    unfolding slot_day using slot_inj by blast
  then show ?thesis by (simp add: overlap_def)
qed

lemma window_segments:
  fixes now minutes :: int
  assumes "0 < minutes"
  defines "segs \<equiv> fromHereWindowSegments now minutes" and "start \<equiv> now - minutes * 60"
  shows "distinct (map (\<lambda>s. (seg_Slot s, seg_DayOffset s)) segs)"
    "start \<le> u \<Longrightarrow> u < now \<Longrightarrow> \<exists>s\<in>set segs. seg_Slot s = utcSlotOfDay u \<and> seg_DayOffset s = utcDayIndex u - utcDayIndex now"
    "s \<in> set segs \<Longrightarrow> 0 < seg_Weight s \<and> seg_Weight s = card {u. start \<le> u \<and> u < now \<and>
        utcSlotOfDay u = seg_Slot s \<and> utcDayIndex u = utcDayIndex now + seg_DayOffset s} / 1800"
    "sum_list (map seg_Weight segs) = of_int minutes / 30"
proof -
  have e: "segs = segmentLoop now (utcDayIndex now) start" using assms(1) by (simp add: segs_def start_def fromHereWindowSegments_def)
  note sp = segments_spec [of now "utcDayIndex now" start, folded e]
  show "distinct (map (\<lambda>s. (seg_Slot s, seg_DayOffset s)) segs)" using sp by blast
  show "\<exists>s\<in>set segs. seg_Slot s = utcSlotOfDay u \<and> seg_DayOffset s = utcDayIndex u - utcDayIndex now"
    if "start \<le> u" "u < now" using sp that by blast
  show "sum_list (map seg_Weight segs) = of_int minutes / 30" using sp assms(1) by (simp add: start_def)
  show "0 < seg_Weight s \<and> seg_Weight s = card {u. start \<le> u \<and> u < now \<and>
        utcSlotOfDay u = seg_Slot s \<and> utcDayIndex u = utcDayIndex now + seg_DayOffset s} / 1800" if s: "s \<in> set segs"
  proof -
    obtain k where "fills now (utcDayIndex now) start s k" using bspec [OF conjunct1 [OF sp] s] by blast
    then show ?thesis by (simp add: fills_def overlap_by_slot)
  qed
qed

section \<open>Normals\<close>

type_synonym cellKey = "string \<times> string"

record fromHereCountRow =
  fr_Band :: string
  fr_Region :: string
  fr_Slot :: int
  fr_Day :: int
  fr_Count :: int

record fromHereNormal =
  nm_Expected :: real
  nm_StdDev :: real
  nm_SampleDays :: nat

record fromHereNormals =
  ns_ByCell :: "(cellKey \<times> fromHereNormal) list"
  ns_SampleDays :: nat

definition fromHereNormalDays :: int where "fromHereNormalDays = 28"

definition referenceDays :: "(int \<Rightarrow> int \<Rightarrow> bool) \<Rightarrow> windowSegment list \<Rightarrow> int \<Rightarrow> int list" where
  \<comment> \<open>\<open>coverage\<close> maps a day and a slot\<close>
  "referenceDays coverage segs today =
     filter (\<lambda>d. list_all (\<lambda>s. coverage (d + seg_DayOffset s) (seg_Slot s)) segs) [today - fromHereNormalDays..today - 1]"

definition dayPos :: "int list \<Rightarrow> int \<Rightarrow> nat option" where
  "dayPos days d = map_of (zip days [0..<length days]) d"

definition addCount :: "int list \<Rightarrow> (cellKey \<times> real list) list \<Rightarrow> fromHereCountRow \<times> windowSegment \<Rightarrow> (cellKey \<times> real list) list" where
  \<comment> \<open>the body of the two loops\<close>
  "addCount days totals rs =
     (let (r, s) = rs in
      if fr_Slot r \<noteq> seg_Slot s then totals
      else case dayPos days (fr_Day r - seg_DayOffset s) of
             None \<Rightarrow> totals
           | Some i \<Rightarrow>
               let key = (fr_Band r, fr_Region r);
                   t = (case map_of totals key of Some t \<Rightarrow> t | None \<Rightarrow> replicate (length days) 0)
               in AList.update key (t[i := t ! i + of_int (fr_Count r) * seg_Weight s]) totals)"

definition windowTotals :: "int list \<Rightarrow> fromHereCountRow list \<Rightarrow> windowSegment list \<Rightarrow> (cellKey \<times> real list) list" where
  "windowTotals days rows segs = foldl (addCount days) [] (List.product rows segs)"

definition cellNormal :: "real list \<Rightarrow> fromHereNormal" where
  \<comment> \<open>the mean and the sample standard deviation of the days' totals\<close>
  "cellNormal t =
     (let n = real (length t); mean = sum_list t / n;
          sd = (if length t > 1 then sqrt (sum_list (map (\<lambda>v. (v - mean) * (v - mean)) t) / (n - 1)) else 0)
      in \<lparr>nm_Expected = mean, nm_StdDev = sd, nm_SampleDays = length t\<rparr>)"

definition computeFromHereNormals :: "fromHereCountRow list \<Rightarrow> (int \<Rightarrow> int \<Rightarrow> bool) \<Rightarrow> int \<Rightarrow> int \<Rightarrow> fromHereNormals" where
  "computeFromHereNormals rows coverage now minutes =
     (let segs = fromHereWindowSegments now minutes
      in if segs = [] then \<lparr>ns_ByCell = [], ns_SampleDays = 0\<rparr>
         else let days = referenceDays coverage segs (utcDayIndex now)
              in if days = [] then \<lparr>ns_ByCell = [], ns_SampleDays = 0\<rparr>
                 else \<lparr>ns_ByCell = map (\<lambda>(key, t). (key, cellNormal t)) (windowTotals days rows segs),
                       ns_SampleDays = length days\<rparr>)"

definition normalOf :: "fromHereNormals \<Rightarrow> cellKey \<Rightarrow> fromHereNormal" where
  \<comment> \<open>a missing key reads as the zero value\<close>
  "normalOf ns key = (case map_of (ns_ByCell ns) key of Some n \<Rightarrow> n
     | None \<Rightarrow> \<lparr>nm_Expected = 0, nm_StdDev = 0, nm_SampleDays = 0\<rparr>)"

definition falls :: "cellKey \<Rightarrow> int \<Rightarrow> fromHereCountRow \<times> windowSegment \<Rightarrow> bool" where
  \<comment> \<open>the row counts for the window of that day\<close>
  "falls key d rs \<longleftrightarrow> (fr_Band (fst rs), fr_Region (fst rs)) = key \<and> fr_Slot (fst rs) = seg_Slot (snd rs) \<and>
     fr_Day (fst rs) = d + seg_DayOffset (snd rs)"

definition windowTotal :: "(fromHereCountRow \<times> windowSegment) list \<Rightarrow> cellKey \<Rightarrow> int \<Rightarrow> real" where
  \<comment> \<open>the cell's count over the same clock window on day \<open>d\<close>\<close>
  "windowTotal xs key d = (\<Sum>rs\<leftarrow>filter (falls key d) xs. of_int (fr_Count (fst rs)) * seg_Weight (snd rs))"

lemma dayPos_Some:
  assumes "distinct days"
  shows "dayPos days d = Some i \<longleftrightarrow> i < length days \<and> days ! i = d"
proof -
  have "distinct (map fst (zip days [0..<length days]))" using assms by simp
  then show ?thesis
    unfolding dayPos_def by (auto simp: map_of_eq_Some_iff in_set_zip)
qed

lemma dayPos_None: "dayPos days d = None \<longleftrightarrow> d \<notin> set days"
  by (simp add: dayPos_def map_of_zip_is_None)

lemma windowTotal_snoc: "windowTotal (xs @ [x]) key d =
    windowTotal xs key d + (if falls key d x then of_int (fr_Count (fst x)) * seg_Weight (snd x) else 0)"
  by (simp add: windowTotal_def)

lemma totals_fold:
  assumes "distinct days"
  shows "map_of (foldl (addCount days) [] xs) key =
    (if \<exists>x\<in>set xs. \<exists>d\<in>set days. falls key d x then Some (map (windowTotal xs key) days) else None)"
proof (induction xs rule: rev_induct)
  case (snoc x xs)
  obtain r s where x: "x = (r, s)" by (cases x)
  let ?d = "fr_Day r - seg_DayOffset s"
  have f: "falls key d x \<longleftrightarrow> (fr_Band r, fr_Region r) = key \<and> fr_Slot r = seg_Slot s \<and> d = ?d" for d
    by (auto simp: falls_def x)
  show ?case
  proof (cases "\<exists>d\<in>set days. falls key d x")
    case False
    have "map_of (addCount days tot x) key = map_of tot key" for tot
      using False unfolding f
      by (auto simp: addCount_def x Let_def map_of_update dayPos_None [symmetric] split: option.split)
    moreover have "map (windowTotal (xs @ [x]) key) days = map (windowTotal xs key) days"
      using False by (simp add: windowTotal_snoc)
    ultimately show ?thesis using snoc False by auto
  next
    case True
    then have k: "(fr_Band r, fr_Region r) = key" "fr_Slot r = seg_Slot s" "?d \<in> set days" unfolding f by auto
    then obtain i where i: "dayPos days ?d = Some i" using dayPos_None by fastforce
    then have id: "i < length days" "days ! i = ?d" using dayPos_Some [OF assms] by blast+
    let ?tot = "foldl (addCount days) [] xs"
    let ?t = "case map_of ?tot key of Some t \<Rightarrow> t | None \<Rightarrow> replicate (length days) 0"
    have z: "replicate (length days) 0 = map (windowTotal xs key) days" if "\<not> (\<exists>x\<in>set xs. \<exists>d\<in>set days. falls key d x)"
    proof (intro nth_equalityI)
      fix j assume "j < length (replicate (length days) (0::real))"
      then have "filter (falls key (days ! j)) xs = []" using that by (auto simp: filter_empty_conv)
      then show "replicate (length days) 0 ! j = map (windowTotal xs key) days ! j"
        using \<open>j < _\<close> by (simp add: windowTotal_def)
    qed simp
    have t: "?t = map (windowTotal xs key) days" using snoc z by auto
    have "map_of (addCount days ?tot x) key = Some (?t[i := ?t ! i + of_int (fr_Count r) * seg_Weight s])"
      using k(1,2) i by (simp add: addCount_def x Let_def map_of_update)
    also have "?t[i := ?t ! i + of_int (fr_Count r) * seg_Weight s] = map (windowTotal (xs @ [x]) key) days"
    proof (rule nth_equalityI)
      fix j assume "j < length (?t[i := ?t ! i + of_int (fr_Count r) * seg_Weight s])"
      then have j: "j < length days" by (simp add: t)
      have "falls key (days ! j) x \<longleftrightarrow> j = i"
        unfolding f using k(1,2) id j assms by (auto simp: nth_eq_iff_index_eq [symmetric])
      then show "?t[i := ?t ! i + of_int (fr_Count r) * seg_Weight s] ! j = map (windowTotal (xs @ [x]) key) days ! j"
        using j id by (cases "j = i") (simp_all add: t windowTotal_snoc x)
    qed (simp add: t)
    finally show ?thesis using True by auto
  qed
qed simp

lemma no_total: "\<not> (\<exists>x\<in>set xs. falls key d x) \<Longrightarrow> windowTotal xs key d = 0"
  by (auto simp: windowTotal_def filter_empty_conv cong: filter_cong)

lemma normal_is_mean:
  fixes now minutes :: int and coverage :: "int \<Rightarrow> int \<Rightarrow> bool" and rows :: "fromHereCountRow list"
  assumes "0 < minutes"
  defines "segs \<equiv> fromHereWindowSegments now minutes"
  defines "days \<equiv> referenceDays coverage segs (utcDayIndex now)"
    and "tot \<equiv> windowTotal (List.product rows segs)"
  assumes "days \<noteq> []"
  shows "nm_Expected (normalOf (computeFromHereNormals rows coverage now minutes) key) = nm_Expected (cellNormal (map (tot key) days))"
    "nm_StdDev (normalOf (computeFromHereNormals rows coverage now minutes) key) = nm_StdDev (cellNormal (map (tot key) days))"
    "ns_SampleDays (computeFromHereNormals rows coverage now minutes) = length days"
proof -
  have sne: "segs \<noteq> []" using window_segments(4) [OF assms(1), of now] assms(1) by (auto simp: segs_def)
  have dd: "distinct days" by (simp add: days_def referenceDays_def)
  have c: "computeFromHereNormals rows coverage now minutes =
      \<lparr>ns_ByCell = map (\<lambda>(key, t). (key, cellNormal t)) (windowTotals days rows segs), ns_SampleDays = length days\<rparr>"
    using sne assms(5) by (simp add: computeFromHereNormals_def Let_def segs_def days_def)
  show "ns_SampleDays (computeFromHereNormals rows coverage now minutes) = length days" by (simp add: c)
  have m: "map_of (map (\<lambda>(key, t). (key, cellNormal t)) xs) k = map_option cellNormal (map_of xs k)" for xs :: "(cellKey \<times> real list) list" and k
    by (induction xs) auto
  have "nm_Expected (normalOf (computeFromHereNormals rows coverage now minutes) key) = nm_Expected (cellNormal (map (tot key) days)) \<and>
    nm_StdDev (normalOf (computeFromHereNormals rows coverage now minutes) key) = nm_StdDev (cellNormal (map (tot key) days))"
  proof (cases "\<exists>x\<in>set (List.product rows segs). \<exists>d\<in>set days. falls key d x")
    case True
    then show ?thesis
      unfolding c normalOf_def windowTotals_def tot_def fromHereNormals.simps m totals_fold [OF dd] if_P [OF True] by simp
  next
    case False
    then have "map (tot key) days = replicate (length days) 0"
      unfolding tot_def by (intro replicate_eqI) (auto intro: no_total)
    moreover have "map (\<lambda>v. (v - 0) * (v - 0)) (replicate n (0::real)) = replicate n 0" for n by simp
    ultimately show ?thesis
      unfolding c normalOf_def windowTotals_def fromHereNormals.simps m totals_fold [OF dd] if_not_P [OF False]
      by (simp add: cellNormal_def sum_list_replicate Let_def)
  qed
  then show "nm_Expected (normalOf (computeFromHereNormals rows coverage now minutes) key) = nm_Expected (cellNormal (map (tot key) days))"
    "nm_StdDev (normalOf (computeFromHereNormals rows coverage now minutes) key) = nm_StdDev (cellNormal (map (tot key) days))" by blast+
qed

section \<open>The area and the ends of a spot\<close>

definition fromHereMaxRadius :: int where "fromHereMaxRadius = 3"

definition fromHereAreaGrids :: "string \<Rightarrow> bool \<Rightarrow> liveArea option \<Rightarrow> string list" where
  \<comment> \<open>\<open>[]\<close> is \<open>nil\<close>\<close>
  "fromHereAreaGrids qth surroundings area =
     (let qth = ToUpper (TrimSpace qth)
      in if \<not> IsLocator qth then []
         else case area of
                Some a \<Rightarrow> if Radius a > 1
                          then (if Radius a > fromHereMaxRadius then [] else SquaresWithinRings (Centre a) (Radius a))
                          else QTHSquares qth (Radius a = 1)
              | None \<Rightarrow> QTHSquares qth surroundings)"

record fromHereMatcher =
  fm_area :: "liveArea option"
  fm_squares :: "string list"
  fm_calls :: "string list"

definition newFromHereMatcher :: "string list \<Rightarrow> liveArea option \<Rightarrow> fromHereMatcher" where
  "newFromHereMatcher tokens area =
     (if area \<noteq> None then \<lparr>fm_area = area, fm_squares = [], fm_calls = []\<rparr>
      else \<lparr>fm_area = None, fm_squares = filter IsLocator tokens, fm_calls = filter (\<lambda>t. \<not> IsLocator t) tokens\<rparr>)"

definition fm_inArea :: "fromHereMatcher \<Rightarrow> string \<Rightarrow> string \<Rightarrow> bool" where
  "fm_inArea f loc call =
     (case fm_area f of
        Some a \<Rightarrow> area_contains a loc
      | None \<Rightarrow> list_ex (\<lambda>sq. hasPrefixFold loc sq) (fm_squares f) \<or> list_ex (\<lambda>c. matchCall call c) (fm_calls f))"

definition fm_ends :: "fromHereMatcher \<Rightarrow> MQTTMessage \<Rightarrow> string \<Rightarrow> string \<times> string" where
  "fm_ends f m receiverSide =
     (let recvLoc = TrimSpace (SL m); otherLoc = TrimSpace (RL m);
          recvCall = (if fm_calls f \<noteq> [] then ToUpper (TrimSpace (SC m)) else []);
          otherCall = (if fm_calls f \<noteq> [] then ToUpper (TrimSpace (RC m)) else []);
          (recvLoc, otherLoc, recvCall, otherCall) =
            (if receiverSide = ''rc'' then (otherLoc, recvLoc, otherCall, recvCall) else (recvLoc, otherLoc, recvCall, otherCall));
          recvIn = fm_inArea f recvLoc recvCall; otherIn = fm_inArea f otherLoc otherCall;
          a = (if recvIn then otherLoc else []); b = (if otherIn then recvLoc else [])
      in if recvIn \<and> otherIn \<and> length recvLoc \<ge> 4 \<and> length otherLoc \<ge> 4 \<and> ToUpper (take 4 recvLoc) = ToUpper (take 4 otherLoc)
         then (a, []) else (a, b))"

definition fromHereRemoteCalls :: "MQTTMessage \<Rightarrow> string \<Rightarrow> string \<times> string" where
  "fromHereRemoteCalls m receiverSide =
     (let (recvCall, otherCall) = (if receiverSide = ''rc'' then (RC m, SC m) else (SC m, RC m))
      in (TrimSpace otherCall, TrimSpace recvCall))"

definition fromHereRemoteEnds :: "MQTTMessage \<Rightarrow> string list \<Rightarrow> liveArea option \<Rightarrow> string \<Rightarrow> string \<times> string" where
  "fromHereRemoteEnds m tokens area receiverSide = fm_ends (newFromHereMatcher tokens area) m receiverSide"

definition fromHereSurgeMinSpots :: nat where "fromHereSurgeMinSpots = 5"
definition fromHereSurgeMinStations :: nat where "fromHereSurgeMinStations = 3"

definition stations_add :: "string list \<Rightarrow> string \<Rightarrow> string list" where
  \<comment> \<open>\<open>calls[:n]\<close>\<close>
  "stations_add calls call =
     (if call = [] \<or> length calls = fromHereSurgeMinStations then calls
      else if list_ex (\<lambda>c. ToUpper c = ToUpper call) calls then calls
      else calls @ [call])"

lemma stations_count:
  "length (foldl stations_add [] cs) = min fromHereSurgeMinStations (card (ToUpper ` (set cs - {[]})))"
  "distinct (map ToUpper (foldl stations_add [] cs))"
  "length (foldl stations_add [] cs) < fromHereSurgeMinStations \<Longrightarrow> ToUpper ` set (foldl stations_add [] cs) = ToUpper ` (set cs - {[]})"
proof -
  let ?s = "\<lambda>cs. foldl stations_add [] cs"
  have "length (?s cs) = min fromHereSurgeMinStations (card (ToUpper ` (set cs - {[]}))) \<and> distinct (map ToUpper (?s cs)) \<and>
      (length (?s cs) < fromHereSurgeMinStations \<longrightarrow> ToUpper ` set (?s cs) = ToUpper ` (set cs - {[]})) \<and>
      ToUpper ` set (?s cs) \<subseteq> ToUpper ` (set cs - {[]})"
  proof (induction cs rule: rev_induct)
    case (snoc c cs)
    define xs where "xs = ?s cs"
    let ?U = "ToUpper ` (set cs - {[]})"
    note IH = snoc [folded xs_def]
    have step: "?s (cs @ [c]) = stations_add xs c" by (simp add: xs_def)
    have fin: "finite ?U" by simp
    show ?case
    proof (cases "c = []")
      case True
      then show ?thesis unfolding step using IH by (simp add: stations_add_def)
    next
      case False
      then have U: "ToUpper ` (set (cs @ [c]) - {[]}) = insert (ToUpper c) ?U" by auto
      show ?thesis
      proof (cases "length xs = fromHereSurgeMinStations")
        case True
        then have "fromHereSurgeMinStations \<le> card ?U" using IH by simp
        moreover have "card ?U \<le> card (insert (ToUpper c) ?U)" by (simp add: card_insert_le)
        ultimately show ?thesis unfolding U step using IH True by (auto simp: stations_add_def)
      next
        case full: False
        then have l: "length xs < fromHereSurgeMinStations" using IH by simp
        with IH have e: "ToUpper ` set xs = ?U" "length xs = card ?U" "distinct (map ToUpper xs)" by auto
        have m: "list_ex (\<lambda>d. ToUpper d = ToUpper c) xs \<longleftrightarrow> ToUpper c \<in> ?U"
          unfolding e(1) [symmetric] by (simp add: list_ex_iff image_iff) metis
        show ?thesis
        proof (cases "ToUpper c \<in> ?U")
          case True
          then have "stations_add xs c = xs" using full False m by (simp add: stations_add_def)
          then show ?thesis unfolding U step insert_absorb [OF True] using IH by simp
        next
          case new: False
          then have a: "stations_add xs c = xs @ [c]" using full False m by (simp add: stations_add_def)
          have "card (insert (ToUpper c) ?U) = Suc (length xs)" using new fin e(2) by simp
          then show ?thesis unfolding U step a using l new e by auto
        qed
      qed
    qed
  qed simp
  then show "length (?s cs) = min fromHereSurgeMinStations (card (ToUpper ` (set cs - {[]})))"
    "distinct (map ToUpper (?s cs))"
    "length (?s cs) < fromHereSurgeMinStations \<Longrightarrow> ToUpper ` set (?s cs) = ToUpper ` (set cs - {[]})" by blast+
qed

section \<open>The keys of the region baseline\<close>

definition unknownSource4 :: string where "unknownSource4 = ''----''"

definition normalizeSource4 :: "string \<Rightarrow> string" where
  "normalizeSource4 loc = (let l = ToUpper (TrimSpace loc) in if length l < 4 then unknownSource4 else take 4 l)"

record regionDailyKey =
  dk_TargetGrid4 :: string
  dk_Band :: string
  dk_SlotOfDay :: int
  dk_Region :: string
  dk_DayIndex :: int

definition appendRegionKey :: "int \<Rightarrow> string \<Rightarrow> string \<Rightarrow> Region \<Rightarrow> regionDailyKey list \<Rightarrow> regionDailyKey list" where
  "appendRegionKey ts band target4 reg ks =
     (let key = \<lparr>dk_TargetGrid4 = target4, dk_Band = band, dk_SlotOfDay = utcSlotOfDay ts,
                 dk_Region = Region_String reg, dk_DayIndex = utcDayIndex ts\<rparr>
      in if target4 = unknownSource4 \<or> Region_String reg = [] \<or> reg = Unknown then ks
         else if key \<in> set ks then ks else ks @ [key])"

definition dxPulseRegionBaselineKeysForSpot :: "int \<Rightarrow> string \<Rightarrow> string \<Rightarrow> string \<Rightarrow> regionDailyKey list" where
  "dxPulseRegionBaselineKeysForSpot ts band senderLoc receiverLoc =
     (let band = normalizeBand band;
          sender4 = normalizeSource4 senderLoc; receiver4 = normalizeSource4 receiverLoc
      in if band = [] then []
         else if sender4 = unknownSource4 \<and> receiver4 = unknownSource4 then []
         else appendRegionKey ts band receiver4 (dxPulseRegionForLocator senderLoc)
                (appendRegionKey ts band sender4 (dxPulseRegionForLocator receiverLoc) []))"

definition canonicalLoc :: "string \<Rightarrow> bool" where
  \<comment> \<open>how the feed writes a locator: no padding, the square in upper case\<close>
  "canonicalLoc l \<longleftrightarrow> TrimSpace l = l \<and> ToUpper (take 4 l) = take 4 l"

definition cellRegions :: "string \<Rightarrow> string list" where
  \<comment> \<open>the region a live scan counts a far end in, if any\<close>
  "cellRegions loc = (case rawRegionOf loc of None \<Rightarrow> [] | Some i \<Rightarrow> [Region_String (AllRegions ! i)])"

lemma locator_square: "IsLocator l \<longleftrightarrow> 4 \<le> length l \<and> IsLocator (take 4 l)"
proof (cases "4 \<le> length l")
  case True
  then obtain a b c d r where "l = a # b # c # d # r"
    by (auto simp: numeral_eq_Suc Suc_le_length_iff)
  then show ?thesis by (simp add: IsLocator_def)
qed (simp add: IsLocator_def)

lemma canonical_region:
  assumes "canonicalLoc l"
  shows "cellRegions l = (if dxPulseRegionForLocator l = Unknown then [] else [Region_String (dxPulseRegionForLocator l)])"
proof -
  have L: "IsLocator (ToUpper l) = IsLocator l"
    using assms locator_square [of l] locator_square [of "ToUpper l"] by (simp add: canonicalLoc_def ToUpper_take)
  have "ToLatLng (ToUpper l) = ToLatLng l" by (simp add: ToLatLng_def)
  then have r: "region_FromLocator (ToUpper l) = dxPulseRegionForLocator l"
    unfolding FromLocator_legacy by (simp add: dxPulseRegionForLocator_def L)
  have u: "\<not> IsLocator l \<Longrightarrow> dxPulseRegionForLocator l = Unknown" by (simp add: dxPulseRegionForLocator_def)
  have i: "reg \<noteq> Unknown \<Longrightarrow> \<exists>i. regionIndex reg = Some i \<and> AllRegions ! i = reg" for reg
    proof -
    assume "reg \<noteq> Unknown"
    then have "reg \<in> set AllRegions" by (cases reg) (simp_all add: AllRegions_def)
    then obtain i where "regionIndex reg = Some i" by (simp add: regionIndex_def)
    then show ?thesis using regionIndex_nth by blast
  qed
  show ?thesis
  proof (cases "IsLocator l")
    case True
    then have "ToUpper l \<noteq> []" by (auto simp: IsLocator_def)
    with True L r i [of "dxPulseRegionForLocator l"] show ?thesis
      by (auto simp: cellRegions_def rawRegionOf_def Let_def)
  qed (simp add: cellRegions_def rawRegionOf_def L u Let_def)
qed

lemma in_area_square:
  assumes "\<forall>t\<in>set tokens. length t = 4 \<and> IsLocator t" "canonicalLoc l"
  shows "fm_inArea (newFromHereMatcher tokens None) l call \<longleftrightarrow> normalizeSource4 l \<in> set tokens"
proof -
  have f: "newFromHereMatcher tokens None = \<lparr>fm_area = None, fm_squares = tokens, fm_calls = []\<rparr>"
    using assms(1) by (simp add: newFromHereMatcher_def filter_empty_conv filter_id_conv)
  have "hasPrefixFold l t \<longleftrightarrow> normalizeSource4 l = t" if "t \<in> set tokens" for t
  proof -
    have t: "length t = 4" "t \<noteq> unknownSource4"
      using assms(1) that by (auto simp: unknownSource4_def IsLocator_def)
    have "TrimSpace l = l" using assms(2) by (simp add: canonicalLoc_def)
    then show ?thesis using t by (auto simp: hasPrefixFold_eq HasPrefix_def normalizeSource4_def Let_def)
  qed
  then show ?thesis by (auto simp: f fm_inArea_def list_ex_iff)
qed

definition straddles :: "string list \<Rightarrow> MQTTMessage \<Rightarrow> bool" where
  \<comment> \<open>both ends lie in one of the squares, on different sides of a region's border\<close>
  "straddles tokens m \<longleftrightarrow> normalizeSource4 (SL m) = normalizeSource4 (RL m) \<and> normalizeSource4 (SL m) \<in> set tokens \<and>
     dxPulseRegionForLocator (SL m) \<noteq> dxPulseRegionForLocator (RL m)"

lemma ends_are_baseline_keys:
  assumes "\<forall>t\<in>set tokens. length t = 4 \<and> IsLocator t" "canonicalLoc (SL m)" "canonicalLoc (RL m)" "normalizeBand band \<noteq> []"
  shows "mset (cellRegions (fst (fromHereRemoteEnds m tokens None side)) @ cellRegions (snd (fromHereRemoteEnds m tokens None side)) @
      (if straddles tokens m then cellRegions (if side = ''rc'' then RL m else SL m) else [])) =
    mset (map dk_Region (filter (\<lambda>k. dk_TargetGrid4 k \<in> set tokens) (dxPulseRegionBaselineKeysForSpot (T m) band (SL m) (RL m))))"
proof -
  let ?f = "newFromHereMatcher tokens None"
  let ?S = "dxPulseRegionForLocator (SL m)" and ?R = "dxPulseRegionForLocator (RL m)"
  define s4 where "s4 = normalizeSource4 (SL m)"
  define r4 where "r4 = normalizeSource4 (RL m)"
  have c: "fm_calls ?f = []" using assms(1) by (simp add: newFromHereMatcher_def filter_empty_conv)
  have tr: "TrimSpace (SL m) = SL m" "TrimSpace (RL m) = RL m" using assms(2,3) by (simp_all add: canonicalLoc_def)
  note ia = in_area_square [OF assms(1,2), folded s4_def] in_area_square [OF assms(1,3), folded r4_def]
  have unk: "unknownSource4 \<notin> set tokens" using assms(1) by (auto simp: unknownSource4_def IsLocator_def)
  have sq: "length (SL m) \<ge> 4 \<and> length (RL m) \<ge> 4 \<and> ToUpper (take 4 (SL m)) = ToUpper (take 4 (RL m)) \<longleftrightarrow> s4 = r4"
    if "s4 \<in> set tokens" "r4 \<in> set tokens"
    using that unk by (auto simp: s4_def r4_def normalizeSource4_def tr ToUpper_take Let_def split: if_splits)
  have nil: "cellRegions [] = []" by (simp add: cellRegions_def rawRegionOf_def)
  have str: "Region_String r \<noteq> []" for r by (cases r) (simp_all add: Region_String_def)
  have st: "straddles tokens m \<longleftrightarrow> s4 = r4 \<and> s4 \<in> set tokens \<and> ?S \<noteq> ?R" by (simp add: straddles_def s4_def r4_def)
  have live: "mset (cellRegions (fst (fromHereRemoteEnds m tokens None side)) @ cellRegions (snd (fromHereRemoteEnds m tokens None side))) =
      mset ((if s4 \<in> set tokens \<and> \<not> (s4 = r4 \<and> side = ''rc'') then cellRegions (RL m) else []) @
            (if r4 \<in> set tokens \<and> \<not> (s4 = r4 \<and> side \<noteq> ''rc'') then cellRegions (SL m) else []))"
  proof (cases "side = ''rc''")
    case True
    show ?thesis
      unfolding fromHereRemoteEnds_def fm_ends_def Let_def tr c using True sq
      by (cases "s4 \<in> set tokens"; cases "r4 \<in> set tokens"; cases "s4 = r4") (auto simp: ia nil)
  next
    case False
    show ?thesis
      unfolding fromHereRemoteEnds_def fm_ends_def Let_def tr c using False sq
      by (cases "s4 \<in> set tokens"; cases "r4 \<in> set tokens"; cases "s4 = r4") (auto simp: ia nil)
  qed
  have keys: "map dk_Region (filter (\<lambda>k. dk_TargetGrid4 k \<in> set tokens) (dxPulseRegionBaselineKeysForSpot (T m) band (SL m) (RL m))) =
      (if s4 \<in> set tokens \<and> ?R \<noteq> Unknown then [Region_String ?R] else []) @
      (if r4 \<in> set tokens \<and> ?S \<noteq> Unknown \<and> \<not> (s4 = r4 \<and> ?S = ?R) then [Region_String ?S] else [])"
  proof -
    define K where "K t r = \<lparr>dk_TargetGrid4 = t, dk_Band = normalizeBand band, dk_SlotOfDay = utcSlotOfDay (T m),
        dk_Region = Region_String r, dk_DayIndex = utcDayIndex (T m)\<rparr>" for t r
    have a: "appendRegionKey (T m) (normalizeBand band) t r ks =
        (if t = unknownSource4 \<or> r = Unknown then ks else if K t r \<in> set ks then ks else ks @ [K t r])" for t r ks
      by (simp add: appendRegionKey_def K_def str Let_def)
    have K: "dk_TargetGrid4 (K t r) = t" "dk_Region (K t r) = Region_String r" "K t r = K t' r' \<longleftrightarrow> t = t' \<and> r = r'" for t r t' r'
      by (auto simp: K_def Region_String_inj)
    have ks: "dxPulseRegionBaselineKeysForSpot (T m) band (SL m) (RL m) =
        (if s4 = unknownSource4 \<and> r4 = unknownSource4 then []
         else appendRegionKey (T m) (normalizeBand band) r4 ?S (appendRegionKey (T m) (normalizeBand band) s4 ?R []))"
      using assms(4) by (simp add: dxPulseRegionBaselineKeysForSpot_def s4_def r4_def Let_def)
    show ?thesis
      unfolding ks a using unk
      by (cases "s4 = unknownSource4"; cases "r4 = unknownSource4"; cases "?R = Unknown"; cases "?S = Unknown"; cases "s4 \<in> set tokens"; cases "r4 \<in> set tokens"; cases "s4 = r4") (simp_all add: K)
  qed
  show ?thesis
    unfolding append_assoc [symmetric] mset_append [of _ "if straddles tokens m then _ else _"]
    unfolding live keys st canonical_region [OF assms(2)] canonical_region [OF assms(3)] if_distrib [of cellRegions]
    by (cases "s4 \<in> set tokens"; cases "r4 \<in> set tokens"; cases "s4 = r4"; cases "side = ''rc''"; cases "?S = ?R") simp_all
qed

section \<open>Shared background fetches\<close>

datatype 'a fetchState = InFlight | Fetched "'a option" int
  \<comment> \<open>an outcome (\<open>None\<close>: an error) and the time it was finished\<close>

record 'a asyncCache =
  ac_entries :: "(string \<times> 'a fetchState) list"
  ac_cap :: nat

definition fromHereErrorTTL :: int where "fromHereErrorTTL = 60"

fun inFlight :: "'a fetchState \<Rightarrow> bool" where
  "inFlight InFlight = True"
| "inFlight (Fetched r t) = False"

fun answers :: "int \<Rightarrow> 'a fetchState \<Rightarrow> bool" where
  \<comment> \<open>an entry that \<open>get\<close> hands out again\<close>
  "answers now InFlight = True"
| "answers now (Fetched (Some v) t) = True"
| "answers now (Fetched None t) = (now - t < fromHereErrorTTL)"

definition olderEntry :: "(string \<times> int) option \<Rightarrow> string \<times> 'a fetchState \<Rightarrow> (string \<times> int) option" where
  "olderEntry acc e =
     (case snd e of
        InFlight \<Rightarrow> acc
      | Fetched r t \<Rightarrow> (case acc of None \<Rightarrow> Some (fst e, t) | Some (k, t') \<Rightarrow> if t < t' then Some (fst e, t) else acc))"

definition evictOldestLocked :: "'a asyncCache \<Rightarrow> 'a asyncCache" where
  "evictOldestLocked c =
     (case foldl olderEntry None (ac_entries c) of
        None \<Rightarrow> c
      | Some (k, _) \<Rightarrow> c\<lparr>ac_entries := AList.delete k (ac_entries c)\<rparr>)"

definition asyncCache_get :: "'a asyncCache \<Rightarrow> int \<Rightarrow> string \<Rightarrow> 'a asyncCache \<times> bool" where
  \<comment> \<open>the flag: a fetch is started\<close>
  "asyncCache_get c now key =
     (let start = (let c = (if length (ac_entries c) \<ge> ac_cap c then evictOldestLocked c else c)
                   in (c\<lparr>ac_entries := AList.update key InFlight (ac_entries c)\<rparr>, True))
      in case map_of (ac_entries c) key of
           None \<Rightarrow> start
         | Some e \<Rightarrow> if answers now e then (c, False) else start)"

definition asyncCache_finish :: "'a asyncCache \<Rightarrow> string \<Rightarrow> 'a option \<Rightarrow> int \<Rightarrow> 'a asyncCache" where
  \<comment> \<open>the goroutine closes the entry it was started for\<close>
  "asyncCache_finish c key result now = c\<lparr>ac_entries := AList.update key (Fetched result now) (ac_entries c)\<rparr>"

datatype 'a cacheStep = Get int string | Finish string "'a option" int

fun running :: "'a asyncCache \<times> (string \<Rightarrow> nat) \<Rightarrow> 'a cacheStep \<Rightarrow> 'a asyncCache \<times> (string \<Rightarrow> nat)" where
  \<comment> \<open>the goroutines at work per key, beside the cache\<close>
  "running (c, n) (Get now key) =
     (case asyncCache_get c now key of (c', started) \<Rightarrow> (c', if started then n(key := Suc (n key)) else n))"
| "running (c, n) (Finish key result now) =
     (if n key = 0 then (c, n) else (asyncCache_finish c key result now, n(key := n key - 1)))"

lemma olderEntry_cases: "olderEntry acc e = acc \<or> (\<exists>k r t. e = (k, Fetched r t) \<and> olderEntry acc e = Some (k, t))"
  by (cases e; cases "snd e") (auto simp: olderEntry_def split: option.split)

lemma older_finished:
  "foldl olderEntry acc es = Some (k, t) \<Longrightarrow> (\<exists>r. (k, Fetched r t) \<in> set es) \<or> acc = Some (k, t)"
proof (induction es arbitrary: acc)
  case (Cons e es)
  from Cons.IH [of "olderEntry acc e"] Cons.prems olderEntry_cases [of acc e] show ?case by auto
qed simp

lemma evict_finished:
  assumes "distinct (map fst (ac_entries c))" "map_of (ac_entries c) k = Some InFlight"
  shows "map_of (ac_entries (evictOldestLocked c)) k = Some InFlight"
proof (cases "foldl olderEntry None (ac_entries c)")
  case (Some p)
  then obtain k' t r where p: "p = (k', t)" "(k', Fetched r t) \<in> set (ac_entries c)"
    using older_finished [of None "ac_entries c"] by (cases p) auto
  then have "map_of (ac_entries c) k' = Some (Fetched r t)" using assms(1) by simp
  with assms(2) have "k' \<noteq> k" by auto
  then show ?thesis using Some p assms(2) by (simp add: evictOldestLocked_def assoc)
qed (simp add: evictOldestLocked_def assms(2))

lemma evict_map: "map_of (ac_entries (evictOldestLocked c)) k = Some v \<Longrightarrow> map_of (ac_entries c) k = Some v"
  by (auto simp: evictOldestLocked_def assoc split: option.splits prod.splits if_splits)

lemma evict_distinct: "distinct (map fst (ac_entries c)) \<Longrightarrow> distinct (map fst (ac_entries (evictOldestLocked c)))"
  by (auto simp: evictOldestLocked_def assoc split: option.split)

definition shared :: "'a asyncCache \<times> (string \<Rightarrow> nat) \<Rightarrow> bool" where
  \<comment> \<open>one goroutine per entry in flight, none for any other key\<close>
  "shared s \<longleftrightarrow> distinct (map fst (ac_entries (fst s))) \<and>
     (\<forall>k. snd s k = (if map_of (ac_entries (fst s)) k = Some InFlight then 1 else 0))"

lemma shared_step: "shared s \<Longrightarrow> shared (running s op)"
proof -
  assume "shared s"
  then obtain c n where s: "s = (c, n)" "distinct (map fst (ac_entries c))"
    "\<And>k. n k = (if map_of (ac_entries c) k = Some InFlight then 1 else 0)"
    by (cases s) (auto simp: shared_def)
  show "shared (running s op)"
  proof (cases op)
    case (Finish key result now)
    then show ?thesis using s by (auto simp: shared_def asyncCache_finish_def assoc simp del: map_of_eq_Some_iff)
  next
    case (Get now key)
    show ?thesis
    proof (cases "\<exists>e. map_of (ac_entries c) key = Some e \<and> answers now e")
      case True
      then show ?thesis using s Get by (auto simp: shared_def asyncCache_get_def simp del: map_of_eq_Some_iff)
    next
      case False
      define c1 where "c1 = (if length (ac_entries c) \<ge> ac_cap c then evictOldestLocked c else c)"
      have g: "asyncCache_get c now key = (c1\<lparr>ac_entries := AList.update key InFlight (ac_entries c1)\<rparr>, True)"
        using False by (auto simp: asyncCache_get_def c1_def Let_def split: option.split)
      have "map_of (ac_entries c) key \<noteq> Some InFlight" using False by auto
      moreover have "map_of (ac_entries c1) k = Some InFlight \<longleftrightarrow> map_of (ac_entries c) k = Some InFlight" for k
        using evict_finished [OF s(2)] evict_map unfolding c1_def by (cases "length (ac_entries c) \<ge> ac_cap c") (auto simp del: map_of_eq_Some_iff)
      moreover have "distinct (map fst (ac_entries c1))" using s(2) evict_distinct [OF s(2)] by (simp add: c1_def)
      ultimately show ?thesis using s Get g by (auto simp: shared_def assoc simp del: map_of_eq_Some_iff)
    qed
  qed
qed

lemma one_fetch:
  \<comment> \<open>however calls and completions interleave\<close>
  assumes "foldl running (\<lparr>ac_entries = [], ac_cap = n\<rparr>, \<lambda>_. 0) ops = (c, working)"
  shows "working k \<le> 1" "working k = 1 \<longleftrightarrow> map_of (ac_entries c) k = Some InFlight"
proof -
  have "shared s \<Longrightarrow> shared (foldl running s ops)" for s :: "'a asyncCache \<times> (string \<Rightarrow> nat)"
    by (induction ops arbitrary: s) (simp_all add: shared_step)
  from this [of "(\<lparr>ac_entries = [], ac_cap = n\<rparr>, \<lambda>_. 0)"] have "shared (c, working)" unfolding assms by (simp add: shared_def)
  then show "working k \<le> 1" "working k = 1 \<longleftrightarrow> map_of (ac_entries c) k = Some InFlight"
    by (auto simp: shared_def simp del: map_of_eq_Some_iff)
qed

end
