(* ===== verification/PropScan.thy ===== *)
theory PropScan
  imports FromHere
begin

text \<open>
  The window scans of the propagation engines: \<open>scanPropIntelWindow\<close> (prop_intel.go) and
  \<open>scanPropIntelV2WindowMode\<close> (prop_intel_v2.go). Both walk the history once and update flat arrays
  indexed by band, region and source; the arrays are lists here, an update of an element is
  \<open>updAt\<close>, and the memo of the regions is carried along. The facts: an element of such an array
  is the fold of the updates that hit it (\<open>scatter\<close>), so a cell holds the figures of the spots
  counted for it and nothing else (\<open>scan_is_exact\<close>, \<open>scan1_is_exact\<close>), and on WSPR spots the two
  scans count the same (\<open>scans_agree\<close>).
\<close>

section \<open>Arrays updated by index\<close>

definition updAt :: "nat \<Rightarrow> ('a \<Rightarrow> 'a) \<Rightarrow> 'a list \<Rightarrow> 'a list" where
  "updAt i f xs = xs[i := f (xs ! i)]"

lemma length_updAt [simp]: "length (updAt i f xs) = length xs"
  by (simp add: updAt_def)

lemma updAt_nth: "j < length xs \<Longrightarrow> updAt i f xs ! j = (if i = j then f (xs ! j) else xs ! j)"
  by (simp add: updAt_def nth_list_update)

lemma length_scatter [simp]: "length (foldl (\<lambda>xs e. if p e then updAt (ix e) (up e) xs else xs) xs es) = length xs"
  by (induction es arbitrary: xs) auto

lemma scatter:
  \<comment> \<open>an element collects the updates aimed at it\<close>
  assumes "j < length xs"
  shows "foldl (\<lambda>xs e. if p e then updAt (ix e) (up e) xs else xs) xs es ! j =
    foldl (\<lambda>a e. up e a) (xs ! j) (filter (\<lambda>e. p e \<and> ix e = j) es)"
  using assms
proof (induction es arbitrary: xs)
  case (Cons e es)
  then show ?case by (cases "p e") (simp_all add: updAt_nth)
qed simp

definition nRegions :: nat where "nRegions = length AllRegions"
definition nBands :: nat where "nBands = length inScopeBandNames"

lemma sizes [simp]: "nRegions = 11" "nBands = 13"
  by (simp_all add: nRegions_def nBands_def AllRegions_def inScopeBandNames_def)

definition cellName :: "nat \<Rightarrow> nat \<Rightarrow> cellKey" where
  "cellName bi ri = (inScopeBandNames ! bi, Region_String (AllRegions ! ri))"

lemma flat_index: "r < n \<Longrightarrow> r' < n \<Longrightarrow> b * n + r = b' * n + r' \<longleftrightarrow> b = b' \<and> r = (r'::nat)"
  by (metis add.commute div_mult_self1 div_less add_0 mod_mult_self1 mod_less mult.commute not_less0)

lemma cellName_inj:
  assumes "bi < nBands" "ri < nRegions" "bi' < nBands" "ri' < nRegions"
  shows "cellName bi ri = cellName bi' ri' \<longleftrightarrow> bi = bi' \<and> ri = ri'"
proof -
  have "distinct inScopeBandNames" by (simp add: inScopeBandNames_def)
  then have "inScopeBandNames ! bi = inScopeBandNames ! bi' \<longleftrightarrow> bi = bi'"
    using assms(1,3) unfolding nBands_def by (rule nth_eq_iff_index_eq)
  moreover have "AllRegions ! ri = AllRegions ! ri' \<longleftrightarrow> ri = ri'"
    using AllRegions_valid(2) assms(2,4) unfolding nRegions_def by (rule nth_eq_iff_index_eq)
  ultimately show ?thesis by (simp add: cellName_def Region_String_inj)
qed

lemma feedBand_range: "0 \<le> feedBandIndex raw \<Longrightarrow> nat (feedBandIndex raw) < 13"
  using inScopeBandIndex_range [of "normalizeBand raw"] by (simp add: feedBandIndex_eq)

lemma region_range: "rawRegionOf loc = Some ri \<Longrightarrow> ri < 11"
  using regionIndex_nth by (auto simp: rawRegionOf_def Let_def split: if_splits)

section \<open>The scan of the second version\<close>

definition propIntelReferencePowerDbm :: real where "propIntelReferencePowerDbm = 50"

record propIntelV2Acc =
  pa_spotCount :: nat
  pa_firstHalfSpots :: nat
  pa_secondHalfSpots :: nat
  pa_bestBudgetSNR :: real
  pa_hasPower :: bool
  pa_bestReportSNR :: int
  pa_hasReport :: bool

definition zeroAcc :: propIntelV2Acc where
  "zeroAcc = \<lparr>pa_spotCount = 0, pa_firstHalfSpots = 0, pa_secondHalfSpots = 0, pa_bestBudgetSNR = 0, pa_hasPower = False,
     pa_bestReportSNR = 0, pa_hasReport = False\<rparr>"

definition effectiveSNR :: "MQTTMessage \<Rightarrow> real" where
  "effectiveSNR m = of_int (RP m) + propIntelReferencePowerDbm - of_int (TXPower m)"

definition tallySpot :: "propProfile \<Rightarrow> int \<Rightarrow> MQTTMessage \<Rightarrow> propIntelV2Acc \<Rightarrow> propIntelV2Acc" where
  "tallySpot prof midpoint m cell =
     (let cell = cell\<lparr>pa_spotCount := pa_spotCount cell + 1\<rparr>;
          cell = (if pf_HasTXPower prof \<and> TXPower m > 0
                  then cell\<lparr>pa_bestBudgetSNR := (if \<not> pa_hasPower cell \<or> effectiveSNR m > pa_bestBudgetSNR cell
                                                 then effectiveSNR m else pa_bestBudgetSNR cell), pa_hasPower := True\<rparr>
                  else cell);
          cell = (if pf_InternalTag prof = ''mqtt'' \<or> pf_InternalTag prof = ''rbn''
                  then cell\<lparr>pa_bestReportSNR := (if \<not> pa_hasReport cell \<or> RP m > pa_bestReportSNR cell
                                                 then RP m else pa_bestReportSNR cell), pa_hasReport := True\<rparr>
                  else cell)
      in if T m < midpoint then cell\<lparr>pa_firstHalfSpots := pa_firstHalfSpots cell + 1\<rparr>
         else cell\<lparr>pa_secondHalfSpots := pa_secondHalfSpots cell + 1\<rparr>)"

record v2Scan =
  v2_accs :: "propIntelV2Acc option list"
  v2_bandSeen :: "bool list"
  v2_fromHere :: "bool list"
  v2_normal :: "nat list"
  v2_stations :: "string list list"
  v2_memo :: "(string \<times> nat option) list"

record scanParams =
  sp_profiles :: "propProfile list"
  sp_qthSet :: "string list"
  sp_matchArea :: "liveArea option"
  sp_now :: int
  sp_cutoff :: int
  sp_midpoint :: int
  sp_fromHereOnly :: bool

definition sourceTag :: "MQTTMessage \<Rightarrow> string" where
  "sourceTag m = (if Source m = [] then ''mqtt'' else Source m)"

fun profileIndex :: "propProfile list \<Rightarrow> string \<Rightarrow> nat option" where
  \<comment> \<open>the first profile of the tag\<close>
  "profileIndex [] src = None"
| "profileIndex (p # ps) src = (if pf_InternalTag p = src then Some 0 else map_option Suc (profileIndex ps src))"

definition accepted :: "scanParams \<Rightarrow> MQTTMessage \<Rightarrow> (nat \<times> nat) option" where
  \<comment> \<open>the source and the band, when no \<open>continue\<close> is taken\<close>
  "accepted p m =
     (if T m > sp_now p \<or> T m < sp_cutoff p then None
      else case profileIndex (sp_profiles p) (sourceTag m) of
             None \<Rightarrow> None
           | Some si \<Rightarrow> let bi = feedBandIndex (B m) in if bi < 0 then None else Some (si, nat bi))"

definition scanEnds :: "scanParams \<Rightarrow> propProfile \<Rightarrow> MQTTMessage \<Rightarrow> (string \<times> string) list \<times> bool" where
  \<comment> \<open>\<open>ends\<close> with \<open>endCalls\<close>, and \<open>matchedEnd\<close>\<close>
  "scanEnds p prof m =
     (if sp_fromHereOnly p
      then let (a, b) = fm_ends (newFromHereMatcher (sp_qthSet p) (sp_matchArea p)) m (pf_ReceiverSide prof);
               (callA, callB) = fromHereRemoteCalls m (pf_ReceiverSide prof)
           in (filter (\<lambda>e. fst e \<noteq> []) [(a, callA), (b, callB)], True)
      else let (loc, isRecv, matchedEnd) = pm_resolve (newPropRemoteMatcher (sp_qthSet p) (sp_matchArea p)) m (pf_ReceiverSide prof)
           in ([(loc, [])], matchedEnd))"

record spotHit =
  sh_msg :: MQTTMessage
  sh_si :: nat
  sh_bi :: nat
  sh_ri :: nat
  sh_call :: string
  sh_matched :: bool

definition accIndex :: "scanParams \<Rightarrow> spotHit \<Rightarrow> nat" where
  "accIndex p h = (sh_bi h * nRegions + sh_ri h) * length (sp_profiles p) + sh_si h"

definition cellIndex :: "spotHit \<Rightarrow> nat" where
  "cellIndex h = sh_bi h * nRegions + sh_ri h"

definition tallyHit :: "scanParams \<Rightarrow> spotHit \<Rightarrow> propIntelV2Acc option \<Rightarrow> propIntelV2Acc option" where
  "tallyHit p h cell =
     Some (tallySpot (sp_profiles p ! sh_si h) (sp_midpoint p) (sh_msg h) (case cell of Some a \<Rightarrow> a | None \<Rightarrow> zeroAcc))"

definition feedsNormal :: "scanParams \<Rightarrow> spotHit \<Rightarrow> bool" where
  "feedsNormal p h \<longleftrightarrow> sp_fromHereOnly p \<and> (sourceTag (sh_msg h) = ''mqtt'' \<or> sourceTag (sh_msg h) = ''dxcluster'')"

definition countHit2 :: "scanParams \<Rightarrow> v2Scan \<Rightarrow> spotHit \<Rightarrow> v2Scan" where
  \<comment> \<open>the rest of the loop over the ends, once the region is known\<close>
  "countHit2 p st h = st\<lparr>
     v2_accs := updAt (accIndex p h) (tallyHit p h) (v2_accs st),
     v2_bandSeen := updAt (sh_bi h) (\<lambda>_. True) (v2_bandSeen st),
     v2_fromHere := (if sh_matched h then updAt (cellIndex h) (\<lambda>_. True) (v2_fromHere st) else v2_fromHere st),
     v2_normal := (if feedsNormal p h then updAt (cellIndex h) Suc (v2_normal st) else v2_normal st),
     v2_stations := (if feedsNormal p h then updAt (cellIndex h) (\<lambda>s. stations_add s (sh_call h)) (v2_stations st)
                     else v2_stations st)\<rparr>"

definition scanEnd :: "scanParams \<Rightarrow> MQTTMessage \<Rightarrow> nat \<Rightarrow> nat \<Rightarrow> bool \<Rightarrow> v2Scan \<Rightarrow> string \<times> string \<Rightarrow> v2Scan" where
  "scanEnd p m si bi matchedEnd st e =
     (let (memo, ri) = memoGet (v2_memo st) (fst e); st = st\<lparr>v2_memo := memo\<rparr>
      in case ri of
           None \<Rightarrow> st
         | Some ri \<Rightarrow> countHit2 p st \<lparr>sh_msg = m, sh_si = si, sh_bi = bi, sh_ri = ri, sh_call = snd e, sh_matched = matchedEnd\<rparr>)"

definition scanMessage :: "scanParams \<Rightarrow> v2Scan \<Rightarrow> MQTTMessage \<Rightarrow> v2Scan" where
  "scanMessage p st m =
     (case accepted p m of
        None \<Rightarrow> st
      | Some (si, bi) \<Rightarrow>
          let (ends, matchedEnd) = scanEnds p (sp_profiles p ! si) m
          in foldl (scanEnd p m si bi matchedEnd) st ends)"

definition scanStart :: "scanParams \<Rightarrow> v2Scan" where
  "scanStart p = \<lparr>
     v2_accs = replicate (nBands * nRegions * length (sp_profiles p)) None,
     v2_bandSeen = replicate nBands False, v2_fromHere = replicate (nBands * nRegions) False,
     v2_normal = replicate (nBands * nRegions) 0, v2_stations = replicate (nBands * nRegions) [], v2_memo = []\<rparr>"

definition allCells :: "(nat \<times> nat) list" where
  "allCells = List.product [0..<nBands] [0..<nRegions]"

record v2Counts =
  vc_accs :: "((cellKey \<times> string) \<times> propIntelV2Acc) list"
  vc_fromHere :: "cellKey list"
  vc_bands :: "string list"
  vc_normalSpots :: "(cellKey \<times> nat) list"
  vc_normalStations :: "(cellKey \<times> nat) list"

definition sourcesOfCell :: "scanParams \<Rightarrow> v2Scan \<Rightarrow> nat \<times> nat \<Rightarrow> ((cellKey \<times> string) \<times> propIntelV2Acc) list" where
  \<comment> \<open>\<open>for si\<close> over one cell\<close>
  "sourcesOfCell p st c = List.map_filter (\<lambda>si.
     map_option (\<lambda>acc. ((cellName (fst c) (snd c), pf_PublicName (sp_profiles p ! si)), acc))
       (v2_accs st ! ((fst c * nRegions + snd c) * length (sp_profiles p) + si))) [0..<length (sp_profiles p)]"

definition scanPropIntelV2WindowMode :: "scanParams \<Rightarrow> MQTTMessage list \<Rightarrow> v2Counts" where
  "scanPropIntelV2WindowMode p history =
     (let st = foldl (scanMessage p) (scanStart p) history;
          cell = (\<lambda>c. fst c * nRegions + snd c); name = (\<lambda>c. cellName (fst c) (snd c));
          withNormal = filter (\<lambda>c. sp_fromHereOnly p \<and> v2_normal st ! cell c > 0) allCells
      in \<lparr>vc_accs = concat (map (sourcesOfCell p st) allCells),
          vc_fromHere = map name (filter (\<lambda>c. v2_fromHere st ! cell c) allCells),
          vc_bands = map (\<lambda>bi. inScopeBandNames ! bi) (filter (\<lambda>bi. v2_bandSeen st ! bi) [0..<nBands]),
          vc_normalSpots = map (\<lambda>c. (name c, v2_normal st ! cell c)) withNormal,
          vc_normalStations = map (\<lambda>c. (name c, length (v2_stations st ! cell c))) withNormal\<rparr>)"

section \<open>Facts: what a scan counts\<close>

definition hitsOf :: "scanParams \<Rightarrow> MQTTMessage \<Rightarrow> spotHit list" where
  \<comment> \<open>the cells a message counts in, each with its far end\<close>
  "hitsOf p m =
     (case accepted p m of
        None \<Rightarrow> []
      | Some (si, bi) \<Rightarrow>
          let (ends, matchedEnd) = scanEnds p (sp_profiles p ! si) m
          in List.map_filter (\<lambda>e. map_option (\<lambda>ri. \<lparr>sh_msg = m, sh_si = si, sh_bi = bi, sh_ri = ri, sh_call = snd e,
                 sh_matched = matchedEnd\<rparr>) (rawRegionOf (fst e))) ends)"

definition allHits :: "scanParams \<Rightarrow> MQTTMessage list \<Rightarrow> spotHit list" where
  "allHits p history = concat (map (hitsOf p) history)"

lemma countHit2_memo: "countHit2 p (st\<lparr>v2_memo := x\<rparr>) h = (countHit2 p st h)\<lparr>v2_memo := x\<rparr>"
  by (simp add: countHit2_def)

lemma scanEnd_hit:
  assumes "memo_ok (v2_memo st)"
  shows "memo_ok (v2_memo (scanEnd p m si bi mt st e)) \<and>
    (scanEnd p m si bi mt st e)\<lparr>v2_memo := []\<rparr> =
    foldl (countHit2 p) (st\<lparr>v2_memo := []\<rparr>)
      (case rawRegionOf (fst e) of None \<Rightarrow> []
       | Some ri \<Rightarrow> [\<lparr>sh_msg = m, sh_si = si, sh_bi = bi, sh_ri = ri, sh_call = snd e, sh_matched = mt\<rparr>])"
proof -
  obtain memo ri where g: "memoGet (v2_memo st) (fst e) = (memo, ri)" by (cases "memoGet (v2_memo st) (fst e)")
  with memoGet_ok [OF assms, of "fst e"] have "memo_ok memo" "ri = rawRegionOf (fst e)" by simp_all
  then show ?thesis
    by (cases "rawRegionOf (fst e)") (simp_all add: scanEnd_def g Let_def countHit2_def)
qed

lemma scanEnds_hits:
  "memo_ok (v2_memo st) \<Longrightarrow> memo_ok (v2_memo (foldl (scanEnd p m si bi mt) st es)) \<and>
    (foldl (scanEnd p m si bi mt) st es)\<lparr>v2_memo := []\<rparr> =
    foldl (countHit2 p) (st\<lparr>v2_memo := []\<rparr>) (List.map_filter (\<lambda>e. map_option (\<lambda>ri. \<lparr>sh_msg = m, sh_si = si, sh_bi = bi,
      sh_ri = ri, sh_call = snd e, sh_matched = mt\<rparr>) (rawRegionOf (fst e))) es)"
proof (induction es arbitrary: st)
  case (Cons e es)
  show ?case
    using Cons.IH [of "scanEnd p m si bi mt st e"] scanEnd_hit [OF Cons.prems, of p m si bi mt e]
    by (cases "rawRegionOf (fst e)") simp_all
qed simp

lemma scanMessage_hits:
  "memo_ok (v2_memo st) \<Longrightarrow> memo_ok (v2_memo (scanMessage p st m)) \<and>
    (scanMessage p st m)\<lparr>v2_memo := []\<rparr> = foldl (countHit2 p) (st\<lparr>v2_memo := []\<rparr>) (hitsOf p m)"
  using scanEnds_hits [of st p m]
  by (auto simp: scanMessage_def hitsOf_def Let_def split: option.split prod.split)

lemma scan_hits:
  "memo_ok (v2_memo st) \<Longrightarrow> (foldl (scanMessage p) st ms)\<lparr>v2_memo := []\<rparr> = foldl (countHit2 p) (st\<lparr>v2_memo := []\<rparr>) (allHits p ms)"
proof (induction ms arbitrary: st)
  case (Cons m ms)
  show ?case
    using Cons.IH [of "scanMessage p st m"] scanMessage_hits [OF Cons.prems, of p m] by (simp add: allHits_def)
qed (simp add: allHits_def)

lemma countHit2_fields:
  "v2_accs (foldl (countHit2 p) st hs) = foldl (\<lambda>xs h. if True then updAt (accIndex p h) (tallyHit p h) xs else xs) (v2_accs st) hs"
  "v2_bandSeen (foldl (countHit2 p) st hs) = foldl (\<lambda>xs h. if True then updAt (sh_bi h) (\<lambda>_. True) xs else xs) (v2_bandSeen st) hs"
  "v2_fromHere (foldl (countHit2 p) st hs) = foldl (\<lambda>xs h. if sh_matched h then updAt (cellIndex h) (\<lambda>_. True) xs else xs) (v2_fromHere st) hs"
  "v2_normal (foldl (countHit2 p) st hs) = foldl (\<lambda>xs h. if feedsNormal p h then updAt (cellIndex h) Suc xs else xs) (v2_normal st) hs"
  "v2_stations (foldl (countHit2 p) st hs) =
     foldl (\<lambda>xs h. if feedsNormal p h then updAt (cellIndex h) (\<lambda>s. stations_add s (sh_call h)) xs else xs) (v2_stations st) hs"
  by (induction hs arbitrary: st) (simp_all add: countHit2_def)

lemma profileIndex_range: "profileIndex ps src = Some i \<Longrightarrow> i < length ps \<and> pf_InternalTag (ps ! i) = src"
  by (induction ps arbitrary: i) (auto split: if_splits)

lemma hit_range:
  assumes "h \<in> set (allHits p ms)"
  shows "sh_bi h < 13 \<and> sh_ri h < 11 \<and> sh_si h < length (sp_profiles p) \<and> sh_msg h \<in> set ms \<and>
    sp_cutoff p \<le> T (sh_msg h) \<and> T (sh_msg h) \<le> sp_now p \<and> pf_InternalTag (sp_profiles p ! sh_si h) = sourceTag (sh_msg h) \<and>
    feedBandIndex (B (sh_msg h)) = int (sh_bi h)"
proof -
  obtain m where m: "m \<in> set ms" "h \<in> set (hitsOf p m)" using assms by (auto simp: allHits_def)
  then show ?thesis
    using feedBand_range region_range profileIndex_range
    by (auto simp: hitsOf_def accepted_def Let_def List.map_filter_def split: option.splits if_splits prod.splits)
qed

definition cellHits :: "scanParams \<Rightarrow> MQTTMessage list \<Rightarrow> nat \<Rightarrow> nat \<Rightarrow> spotHit list" where
  "cellHits p ms bi ri = filter (\<lambda>h. sh_bi h = bi \<and> sh_ri h = ri) (allHits p ms)"

definition sourceHits :: "scanParams \<Rightarrow> MQTTMessage list \<Rightarrow> nat \<Rightarrow> nat \<Rightarrow> nat \<Rightarrow> spotHit list" where
  "sourceHits p ms bi ri si = filter (\<lambda>h. sh_si h = si) (cellHits p ms bi ri)"

lemma tally_fold: "foldl (\<lambda>a h. tallyHit p h a) (Some a) hs =
    Some (foldl (\<lambda>a h. tallySpot (sp_profiles p ! sh_si h) (sp_midpoint p) (sh_msg h) a) a hs)"
  by (induction hs arbitrary: a) (simp_all add: tallyHit_def)

lemma scan_arrays:
  fixes p ms
  defines "st \<equiv> foldl (scanMessage p) (scanStart p) ms"
  assumes "bi < 13" "ri < 11"
  shows "si < length (sp_profiles p) \<Longrightarrow> v2_accs st ! ((bi * 11 + ri) * length (sp_profiles p) + si) =
      (case sourceHits p ms bi ri si of [] \<Rightarrow> None
       | _ \<Rightarrow> Some (foldl (\<lambda>a m. tallySpot (sp_profiles p ! si) (sp_midpoint p) m a) zeroAcc (map sh_msg (sourceHits p ms bi ri si))))"
    "v2_bandSeen st ! bi \<longleftrightarrow> (\<exists>h\<in>set (allHits p ms). sh_bi h = bi)"
    "v2_fromHere st ! (bi * 11 + ri) \<longleftrightarrow> (\<exists>h\<in>set (cellHits p ms bi ri). sh_matched h)"
    "v2_normal st ! (bi * 11 + ri) = length (filter (feedsNormal p) (cellHits p ms bi ri))"
    "v2_stations st ! (bi * 11 + ri) = foldl stations_add [] (map sh_call (filter (feedsNormal p) (cellHits p ms bi ri)))"
proof -
  have "memo_ok (v2_memo (scanStart p))" by (simp add: scanStart_def memo_ok_def)
  from scan_hits [OF this, of p ms, folded st_def]
  have e: "st\<lparr>v2_memo := []\<rparr> = foldl (countHit2 p) (scanStart p) (allHits p ms)" by (simp add: scanStart_def)
  have proj: "v2_accs st = v2_accs (st\<lparr>v2_memo := []\<rparr>)" "v2_bandSeen st = v2_bandSeen (st\<lparr>v2_memo := []\<rparr>)"
    "v2_fromHere st = v2_fromHere (st\<lparr>v2_memo := []\<rparr>)" "v2_normal st = v2_normal (st\<lparr>v2_memo := []\<rparr>)"
    "v2_stations st = v2_stations (st\<lparr>v2_memo := []\<rparr>)" by simp_all
  have ci: "filter (\<lambda>h. q h \<and> cellIndex h = bi * 11 + ri) (allHits p ms) = filter q (cellHits p ms bi ri)" for q
    unfolding cellHits_def filter_filter
    by (rule filter_cong) (use hit_range flat_index [OF _ assms(3)] in \<open>auto simp: cellIndex_def\<close>)
  have len: "bi * 11 + ri < 143" using assms(2,3) by linarith
  have inc: "foldl (\<lambda>a h. Suc a) (n::nat) hs = n + length hs" for n and hs :: "spotHit list" by (induction hs arbitrary: n) simp_all
  have tr: "foldl (\<lambda>a h. True) b hs \<longleftrightarrow> b \<or> hs \<noteq> []" for b and hs :: "spotHit list" by (induction hs arbitrary: b) simp_all
  have sa: "foldl (\<lambda>a h. stations_add a (sh_call h)) s hs = foldl stations_add s (map sh_call hs)" for s hs by (induction hs arbitrary: s) simp_all
  show "v2_fromHere st ! (bi * 11 + ri) \<longleftrightarrow> (\<exists>h\<in>set (cellHits p ms bi ri). sh_matched h)"
    unfolding proj(3) e countHit2_fields
    by (subst scatter) (simp_all add: scanStart_def len ci tr filter_empty_conv)
  show "v2_normal st ! (bi * 11 + ri) = length (filter (feedsNormal p) (cellHits p ms bi ri))"
    unfolding proj(4) e countHit2_fields by (subst scatter) (simp_all add: scanStart_def len ci inc)
  show "v2_stations st ! (bi * 11 + ri) = foldl stations_add [] (map sh_call (filter (feedsNormal p) (cellHits p ms bi ri)))"
    unfolding proj(5) e countHit2_fields by (subst scatter) (simp_all add: scanStart_def len ci sa)
  show "v2_bandSeen st ! bi \<longleftrightarrow> (\<exists>h\<in>set (allHits p ms). sh_bi h = bi)"
    unfolding proj(2) e countHit2_fields by (subst scatter) (use assms(2) in \<open>auto simp: scanStart_def tr filter_empty_conv\<close>)
  show "v2_accs st ! ((bi * 11 + ri) * length (sp_profiles p) + si) =
      (case sourceHits p ms bi ri si of [] \<Rightarrow> None
       | _ \<Rightarrow> Some (foldl (\<lambda>a m. tallySpot (sp_profiles p ! si) (sp_midpoint p) m a) zeroAcc (map sh_msg (sourceHits p ms bi ri si))))"
    if si: "si < length (sp_profiles p)"
  proof -
    let ?n = "length (sp_profiles p)"
    have l: "(bi * 11 + ri) * ?n + si < 143 * ?n"
    proof -
      have "(bi * 11 + ri) * ?n + si < Suc (bi * 11 + ri) * ?n" using si by simp
      also have "\<dots> \<le> 143 * ?n" using len by (intro mult_le_mono1) simp
      finally show ?thesis .
    qed
    have ai: "filter (\<lambda>h. True \<and> accIndex p h = (bi * 11 + ri) * ?n + si) (allHits p ms) = sourceHits p ms bi ri si"
      unfolding sourceHits_def cellHits_def filter_filter
    proof (rule filter_cong [OF refl])
      fix h assume "h \<in> set (allHits p ms)"
      note r = hit_range [OF this]
      show "(True \<and> accIndex p h = (bi * 11 + ri) * ?n + si) \<longleftrightarrow> (sh_bi h = bi \<and> sh_ri h = ri) \<and> sh_si h = si"
        using r flat_index [OF _ si, of "sh_si h" "sh_bi h * 11 + sh_ri h" "bi * 11 + ri"] flat_index [of "sh_ri h" 11 ri "sh_bi h" bi] assms(3)
        by (auto simp: accIndex_def)
    qed
    have s: "\<forall>h\<in>set (sourceHits p ms bi ri si). sh_si h = si" by (simp add: sourceHits_def)
    have t: "foldl (\<lambda>a h. tallySpot (sp_profiles p ! sh_si h) (sp_midpoint p) (sh_msg h) a) a hs =
        foldl (\<lambda>a m. tallySpot (sp_profiles p ! si) (sp_midpoint p) m a) a (map sh_msg hs)" if "\<forall>h\<in>set hs. sh_si h = si" for a hs
      using that by (induction hs arbitrary: a) simp_all
    show ?thesis
      unfolding proj(1) e countHit2_fields
    proof (subst scatter)
      show "(bi * 11 + ri) * ?n + si < length (v2_accs (scanStart p))" using l by (simp add: scanStart_def)
      show "foldl (\<lambda>a e. tallyHit p e a) (v2_accs (scanStart p) ! ((bi * 11 + ri) * ?n + si))
          (filter (\<lambda>e. True \<and> accIndex p e = (bi * 11 + ri) * ?n + si) (allHits p ms)) =
        (case sourceHits p ms bi ri si of [] \<Rightarrow> None
         | _ \<Rightarrow> Some (foldl (\<lambda>a m. tallySpot (sp_profiles p ! si) (sp_midpoint p) m a) zeroAcc (map sh_msg (sourceHits p ms bi ri si))))"
        unfolding ai using l s t [of "sourceHits p ms bi ri si" zeroAcc]
        by (cases "sourceHits p ms bi ri si") (simp_all add: scanStart_def tallyHit_def [of _ _ None] tally_fold)
    qed
  qed
qed

lemma tallySpot_fields:
  "pa_spotCount (tallySpot prof mid m c) = Suc (pa_spotCount c)"
  "pa_firstHalfSpots (tallySpot prof mid m c) = (if T m < mid then Suc (pa_firstHalfSpots c) else pa_firstHalfSpots c)"
  "pa_secondHalfSpots (tallySpot prof mid m c) = (if T m < mid then pa_secondHalfSpots c else Suc (pa_secondHalfSpots c))"
  "pa_hasPower (tallySpot prof mid m c) \<longleftrightarrow> pa_hasPower c \<or> pf_HasTXPower prof \<and> TXPower m > 0"
  "pa_bestBudgetSNR (tallySpot prof mid m c) = (if pf_HasTXPower prof \<and> TXPower m > 0 \<and>
     (\<not> pa_hasPower c \<or> effectiveSNR m > pa_bestBudgetSNR c) then effectiveSNR m else pa_bestBudgetSNR c)"
  "pa_hasReport (tallySpot prof mid m c) \<longleftrightarrow> pa_hasReport c \<or> pf_InternalTag prof \<in> {''mqtt'', ''rbn''}"
  "pa_bestReportSNR (tallySpot prof mid m c) = (if pf_InternalTag prof \<in> {''mqtt'', ''rbn''} \<and>
     (\<not> pa_hasReport c \<or> RP m > pa_bestReportSNR c) then RP m else pa_bestReportSNR c)"
  by (auto simp: tallySpot_def Let_def)

lemma tallied:
  fixes prof midpoint ms
  defines "acc \<equiv> foldl (\<lambda>a m. tallySpot prof midpoint m a) zeroAcc ms"
  shows "pa_spotCount acc = length ms" "pa_firstHalfSpots acc = length (filter (\<lambda>m. T m < midpoint) ms)"
    "pa_secondHalfSpots acc = length (filter (\<lambda>m. \<not> T m < midpoint) ms)"
    "pa_hasPower acc \<longleftrightarrow> pf_HasTXPower prof \<and> (\<exists>m\<in>set ms. TXPower m > 0)"
    "pa_bestBudgetSNR acc = (if pa_hasPower acc then Max (effectiveSNR ` {m \<in> set ms. TXPower m > 0}) else 0)"
    "pa_hasReport acc \<longleftrightarrow> pf_InternalTag prof \<in> {''mqtt'', ''rbn''} \<and> ms \<noteq> []"
    "pa_bestReportSNR acc = (if pa_hasReport acc then Max (RP ` set ms) else 0)"
proof -
  let ?acc = "\<lambda>ms. foldl (\<lambda>a m. tallySpot prof midpoint m a) zeroAcc ms"
  have mx: "Max (insert x (f ` A)) = (if A = {} then x else max x (Max (f ` A)))" if "finite A"
    for x :: "'b::linorder" and f :: "MQTTMessage \<Rightarrow> 'b" and A using that by auto
  have "pa_spotCount (?acc ms) = length ms \<and> pa_firstHalfSpots (?acc ms) = length (filter (\<lambda>m. T m < midpoint) ms) \<and>
    pa_secondHalfSpots (?acc ms) = length (filter (\<lambda>m. \<not> T m < midpoint) ms)"
    by (induction ms rule: rev_induct) (simp_all add: zeroAcc_def tallySpot_fields)
  then show "pa_spotCount acc = length ms" "pa_firstHalfSpots acc = length (filter (\<lambda>m. T m < midpoint) ms)"
    "pa_secondHalfSpots acc = length (filter (\<lambda>m. \<not> T m < midpoint) ms)" unfolding acc_def by blast+
  have power: "(pa_hasPower (?acc ms) \<longleftrightarrow> pf_HasTXPower prof \<and> (\<exists>m\<in>set ms. TXPower m > 0)) \<and>
    pa_bestBudgetSNR (?acc ms) = (if pa_hasPower (?acc ms) then Max (effectiveSNR ` {m \<in> set ms. TXPower m > 0}) else 0)"
  proof (induction ms rule: rev_induct)
    case (snoc m ms)
    define A where "A = {x \<in> set ms. TXPower x > 0}"
    define M where "M = Max (effectiveSNR ` A)"
    have S: "{x \<in> set (ms @ [m]). TXPower x > 0} = (if TXPower m > 0 then insert m A else A)" by (auto simp: A_def)
    have E: "(\<exists>m\<in>set ms. TXPower m > 0) \<longleftrightarrow> A \<noteq> {}" "(\<exists>x\<in>set (ms @ [m]). TXPower x > 0) \<longleftrightarrow> TXPower m > 0 \<or> A \<noteq> {}"
      by (auto simp: A_def)
    have fin: "finite A" by (simp add: A_def)
    have e: "pa_hasPower (?acc (ms @ [m])) = (pa_hasPower (?acc ms) \<or> pf_HasTXPower prof \<and> TXPower m > 0)"
      "pa_bestBudgetSNR (?acc (ms @ [m])) = (if pf_HasTXPower prof \<and> TXPower m > 0 \<and>
          (\<not> pa_hasPower (?acc ms) \<or> effectiveSNR m > pa_bestBudgetSNR (?acc ms)) then effectiveSNR m else pa_bestBudgetSNR (?acc ms))"
      by (simp_all only: foldl_append foldl.simps tallySpot_fields)
    show ?case
      unfolding e S E using snoc [unfolded E, folded A_def, folded M_def] mx [OF fin, of "effectiveSNR m" effectiveSNR, folded M_def]
      by (cases "pf_HasTXPower prof"; cases "TXPower m > 0"; cases "A = {}") (simp_all add: M_def [symmetric])
  qed (simp add: zeroAcc_def)
  then show "pa_hasPower acc \<longleftrightarrow> pf_HasTXPower prof \<and> (\<exists>m\<in>set ms. TXPower m > 0)"
    "pa_bestBudgetSNR acc = (if pa_hasPower acc then Max (effectiveSNR ` {m \<in> set ms. TXPower m > 0}) else 0)"
    unfolding acc_def by blast+
  have report: "(pa_hasReport (?acc ms) \<longleftrightarrow> pf_InternalTag prof \<in> {''mqtt'', ''rbn''} \<and> ms \<noteq> []) \<and>
    pa_bestReportSNR (?acc ms) = (if pa_hasReport (?acc ms) then Max (RP ` set ms) else 0)"
  proof (induction ms rule: rev_induct)
    case (snoc m ms)
    have e: "pa_hasReport (?acc (ms @ [m])) = (pa_hasReport (?acc ms) \<or> pf_InternalTag prof \<in> {''mqtt'', ''rbn''})"
      "pa_bestReportSNR (?acc (ms @ [m])) = (if pf_InternalTag prof \<in> {''mqtt'', ''rbn''} \<and>
          (\<not> pa_hasReport (?acc ms) \<or> RP m > pa_bestReportSNR (?acc ms)) then RP m else pa_bestReportSNR (?acc ms))"
      by (simp_all only: foldl_append foldl.simps tallySpot_fields)
    define M where "M = Max (RP ` set ms)"
    have S: "set (ms @ [m]) = insert m (set ms)" by simp
    show ?case
      unfolding e S using snoc [folded M_def] mx [of "set ms" "RP m" RP, folded M_def]
      by (cases "pf_InternalTag prof \<in> {''mqtt'', ''rbn''}"; cases "ms = []") (simp_all add: M_def [symmetric])
  qed (simp add: zeroAcc_def)
  then show "pa_hasReport acc \<longleftrightarrow> pf_InternalTag prof \<in> {''mqtt'', ''rbn''} \<and> ms \<noteq> []"
    "pa_bestReportSNR acc = (if pa_hasReport acc then Max (RP ` set ms) else 0)" unfolding acc_def by blast+
qed

section \<open>Facts: the maps\<close>

lemma allCells_set: "c \<in> set allCells \<longleftrightarrow> fst c < 13 \<and> snd c < 11"
  by (cases c) (auto simp: allCells_def)

lemma allCells_distinct: "distinct allCells"
  by (simp add: allCells_def distinct_product)

lemma cells_inj: "inj_on (\<lambda>c. cellName (fst c) (snd c)) (set allCells)"
  by (rule inj_onI) (metis allCells_set cellName_inj prod_eqI sizes)

lemma cell_map:
  assumes "bi < 13" "ri < 11"
  shows "map_of (map (\<lambda>c. (cellName (fst c) (snd c), f c)) (filter P allCells)) (cellName bi ri) =
    (if P (bi, ri) then Some (f (bi, ri)) else None)"
proof -
  have d: "distinct (map fst (map (\<lambda>c. (cellName (fst c) (snd c), f c)) (filter P allCells)))"
    using allCells_distinct inj_on_subset [OF cells_inj, of "set (filter P allCells)"] by (simp add: distinct_map comp_def)
  have m: "(bi, ri) \<in> set allCells" using assms by (simp add: allCells_set)
  show ?thesis
  proof (cases "P (bi, ri)")
    case True
    then have "(cellName bi ri, f (bi, ri)) \<in> set (map (\<lambda>c. (cellName (fst c) (snd c), f c)) (filter P allCells))"
      using m by force
    then show ?thesis using d True by simp
  next
    case False
    have "cellName bi ri \<notin> fst ` set (map (\<lambda>c. (cellName (fst c) (snd c), f c)) (filter P allCells))"
    proof
      assume "cellName bi ri \<in> fst ` set (map (\<lambda>c. (cellName (fst c) (snd c), f c)) (filter P allCells))"
      then obtain c where c: "c \<in> set allCells" "P c" "cellName bi ri = cellName (fst c) (snd c)" by auto
      with inj_onD [OF cells_inj, of "(bi, ri)" c] m have "(bi, ri) = c" by simp
      with c(2) False show False by simp
    qed
    then have "map_of (map (\<lambda>c. (cellName (fst c) (snd c), f c)) (filter P allCells)) (cellName bi ri) = None"
      unfolding map_of_eq_None_iff .
    with False show ?thesis by simp
  qed
qed

lemma mem_map_filter: "y \<in> set (List.map_filter f xs) \<longleftrightarrow> (\<exists>x\<in>set xs. f x = Some y)"
  by (induction xs) (auto split: option.split)

definition accOf :: "scanParams \<Rightarrow> MQTTMessage list \<Rightarrow> nat \<Rightarrow> nat \<Rightarrow> nat \<Rightarrow> propIntelV2Acc" where
  \<comment> \<open>the figures of the spots counted for one source of a cell\<close>
  "accOf p ms bi ri si =
     foldl (\<lambda>a m. tallySpot (sp_profiles p ! si) (sp_midpoint p) m a) zeroAcc (map sh_msg (sourceHits p ms bi ri si))"

lemma accs_mem:
  "(key, acc) \<in> set (vc_accs (scanPropIntelV2WindowMode p ms)) \<longleftrightarrow>
    (\<exists>bi ri si. bi < 13 \<and> ri < 11 \<and> si < length (sp_profiles p) \<and> key = (cellName bi ri, pf_PublicName (sp_profiles p ! si)) \<and>
       sourceHits p ms bi ri si \<noteq> [] \<and> acc = accOf p ms bi ri si)"
proof -
  let ?st = "foldl (scanMessage p) (scanStart p) ms"
  have one: "(key, acc) \<in> set (sourcesOfCell p ?st (bi, ri)) \<longleftrightarrow> (\<exists>si<length (sp_profiles p).
      key = (cellName bi ri, pf_PublicName (sp_profiles p ! si)) \<and> sourceHits p ms bi ri si \<noteq> [] \<and> acc = accOf p ms bi ri si)"
    if "bi < 13" "ri < 11" for bi ri
  proof -
    have a: "v2_accs ?st ! ((bi * 11 + ri) * length (sp_profiles p) + si) =
        (if sourceHits p ms bi ri si = [] then None else Some (accOf p ms bi ri si))" if "si < length (sp_profiles p)" for si
      using scan_arrays(1) [OF \<open>bi < 13\<close> \<open>ri < 11\<close> that, of ms] by (cases "sourceHits p ms bi ri si") (simp_all add: accOf_def)
    have "(key, acc) \<in> set (sourcesOfCell p ?st (bi, ri)) \<longleftrightarrow> (\<exists>si<length (sp_profiles p).
        map_option (\<lambda>acc. ((cellName bi ri, pf_PublicName (sp_profiles p ! si)), acc))
          (v2_accs ?st ! ((bi * 11 + ri) * length (sp_profiles p) + si)) = Some (key, acc))"
      unfolding sourcesOfCell_def mem_map_filter by (simp add: Bex_def)
    also have "\<dots> \<longleftrightarrow> (\<exists>si<length (sp_profiles p). key = (cellName bi ri, pf_PublicName (sp_profiles p ! si)) \<and>
        sourceHits p ms bi ri si \<noteq> [] \<and> acc = accOf p ms bi ri si)"
    proof -
      have "map_option (\<lambda>acc. ((cellName bi ri, pf_PublicName (sp_profiles p ! si)), acc))
          (v2_accs ?st ! ((bi * 11 + ri) * length (sp_profiles p) + si)) = Some (key, acc) \<longleftrightarrow>
        key = (cellName bi ri, pf_PublicName (sp_profiles p ! si)) \<and> sourceHits p ms bi ri si \<noteq> [] \<and> acc = accOf p ms bi ri si"
        if "si < length (sp_profiles p)" for si
        unfolding a [OF that] by auto
      then show ?thesis by blast
    qed
    finally show ?thesis .
  qed
  have "(key, acc) \<in> set (vc_accs (scanPropIntelV2WindowMode p ms)) \<longleftrightarrow> (\<exists>c\<in>set allCells. (key, acc) \<in> set (sourcesOfCell p ?st c))"
    by (simp add: scanPropIntelV2WindowMode_def Let_def)
  also have "\<dots> \<longleftrightarrow> (\<exists>bi ri. bi < 13 \<and> ri < 11 \<and> (key, acc) \<in> set (sourcesOfCell p ?st (bi, ri)))"
    by (metis allCells_set fst_conv snd_conv surjective_pairing)
  finally show ?thesis using one by blast
qed

lemma accs_distinct:
  assumes "distinct (map pf_PublicName (sp_profiles p))"
  shows "distinct (map fst (vc_accs (scanPropIntelV2WindowMode p ms)))"
proof -
  let ?st = "foldl (scanMessage p) (scanStart p) ms"
  have one: "distinct (map fst (sourcesOfCell p ?st c))" for c
  proof -
    have inj: "pf_PublicName (sp_profiles p ! x) = pf_PublicName (sp_profiles p ! y) \<longleftrightarrow> x = y"
      if "x < length (sp_profiles p)" "y < length (sp_profiles p)" for x y
      using nth_eq_iff_index_eq [OF assms, of x y] that by simp
    have "distinct (map (\<lambda>si. pf_PublicName (sp_profiles p ! si)) (filter P [0..<length (sp_profiles p)]))" for P
      by (auto simp: distinct_map inj_on_def inj)
    from distinct_map [THEN iffD1, OF this] show ?thesis
      by (auto simp: sourcesOfCell_def List.map_filter_def comp_def distinct_map inj_on_def split: option.splits)
  qed
  have key: "x \<in> set (sourcesOfCell p ?st c) \<Longrightarrow> fst (fst x) = cellName (fst c) (snd c)" for x c
    by (auto simp: sourcesOfCell_def List.map_filter_def)
  have "set cs \<subseteq> set allCells \<Longrightarrow> distinct cs \<Longrightarrow> distinct (map fst (concat (map (sourcesOfCell p ?st) cs)))" for cs
  proof (induction cs)
    case (Cons c cs)
    have ne: "fst x \<noteq> fst y" if "x \<in> set (sourcesOfCell p ?st c)" "d \<in> set cs" "y \<in> set (sourcesOfCell p ?st d)" for x y d
    proof -
      have "c \<noteq> d" "c \<in> set allCells" "d \<in> set allCells" using Cons.prems that(2) by auto
      then show ?thesis using key [OF that(1)] key [OF that(3)] inj_onD [OF cells_inj] by metis
    qed
    have "k \<notin> fst ` set (concat (map (sourcesOfCell p ?st) cs))" if k: "k \<in> fst ` set (sourcesOfCell p ?st c)" for k
    proof
      assume "k \<in> fst ` set (concat (map (sourcesOfCell p ?st) cs))"
      then obtain y where y: "y \<in> set (concat (map (sourcesOfCell p ?st) cs))" "k = fst y" by blast
      then obtain d where "d \<in> set cs" "y \<in> set (sourcesOfCell p ?st d)" by auto
      moreover obtain x where "x \<in> set (sourcesOfCell p ?st c)" "k = fst x" using k by blast
      ultimately show False using y(2) ne by blast
    qed
    then have "fst ` set (sourcesOfCell p ?st c) \<inter> fst ` set (concat (map (sourcesOfCell p ?st) cs)) = {}" by blast
    with Cons one [of c] show ?case by (simp only: list.map concat.simps map_append distinct_append set_map) simp
  qed simp
  from this [of allCells] show ?thesis by (simp add: scanPropIntelV2WindowMode_def Let_def allCells_distinct)
qed

lemma scan_is_exact:
  assumes "distinct (map pf_PublicName (sp_profiles p))" "bi < 13" "ri < 11"
  shows "si < length (sp_profiles p) \<Longrightarrow>
      map_of (vc_accs (scanPropIntelV2WindowMode p ms)) (cellName bi ri, pf_PublicName (sp_profiles p ! si)) =
      (if sourceHits p ms bi ri si = [] then None else Some (accOf p ms bi ri si))"
    "cellName bi ri \<in> set (vc_fromHere (scanPropIntelV2WindowMode p ms)) \<longleftrightarrow> (\<exists>h\<in>set (cellHits p ms bi ri). sh_matched h)"
    "map_of (vc_normalSpots (scanPropIntelV2WindowMode p ms)) (cellName bi ri) =
      (let n = length (filter (feedsNormal p) (cellHits p ms bi ri)) in if sp_fromHereOnly p \<and> n > 0 then Some n else None)"
    "map_of (vc_normalStations (scanPropIntelV2WindowMode p ms)) (cellName bi ri) =
      (let hs = filter (feedsNormal p) (cellHits p ms bi ri)
       in if sp_fromHereOnly p \<and> hs \<noteq> [] then Some (length (foldl stations_add [] (map sh_call hs))) else None)"
proof -
  let ?st = "foldl (scanMessage p) (scanStart p) ms" and ?r = "scanPropIntelV2WindowMode p ms"
  note arr = scan_arrays [OF assms(2,3), where p = p and ms = ms]
  show "map_of (vc_accs ?r) (cellName bi ri, pf_PublicName (sp_profiles p ! si)) =
      (if sourceHits p ms bi ri si = [] then None else Some (accOf p ms bi ri si))" if si: "si < length (sp_profiles p)"
  proof -
    have mem: "((cellName bi ri, pf_PublicName (sp_profiles p ! si)), acc) \<in> set (vc_accs ?r) \<longleftrightarrow>
        sourceHits p ms bi ri si \<noteq> [] \<and> acc = accOf p ms bi ri si" for acc
    proof -
      have same: "cellName bi ri = cellName b r \<longleftrightarrow> b = bi \<and> r = ri" if "b < 13" "r < 11" for b r
        using cellName_inj [of bi ri b r] assms(2,3) that by auto
      have name: "pf_PublicName (sp_profiles p ! si) = pf_PublicName (sp_profiles p ! s) \<longleftrightarrow> s = si" if "s < length (sp_profiles p)" for s
        using nth_eq_iff_index_eq [OF assms(1), of s si] that si by auto
      show ?thesis
      proof
        assume "((cellName bi ri, pf_PublicName (sp_profiles p ! si)), acc) \<in> set (vc_accs ?r)"
        then obtain b r s where k: "b < 13" "r < 11" "s < length (sp_profiles p)"
            "cellName bi ri = cellName b r" "pf_PublicName (sp_profiles p ! si) = pf_PublicName (sp_profiles p ! s)"
          and "sourceHits p ms b r s \<noteq> []" "acc = accOf p ms b r s" unfolding accs_mem by auto
        moreover from k same name have "b = bi" "r = ri" "s = si" by blast+
        ultimately show "sourceHits p ms bi ri si \<noteq> [] \<and> acc = accOf p ms bi ri si" by simp
      next
        assume "sourceHits p ms bi ri si \<noteq> [] \<and> acc = accOf p ms bi ri si"
        then show "((cellName bi ri, pf_PublicName (sp_profiles p ! si)), acc) \<in> set (vc_accs ?r)"
          unfolding accs_mem using assms(2,3) si by blast
      qed
    qed
    show ?thesis
    proof (cases "sourceHits p ms bi ri si = []")
      case True
      then have "(cellName bi ri, pf_PublicName (sp_profiles p ! si)) \<notin> fst ` set (vc_accs ?r)" using mem by force
      then have "map_of (vc_accs ?r) (cellName bi ri, pf_PublicName (sp_profiles p ! si)) = None" unfolding map_of_eq_None_iff .
      with True show ?thesis by simp
    next
      case False
      then show ?thesis using mem map_of_is_SomeI [OF accs_distinct [OF assms(1)]] by simp
    qed
  qed
  show "cellName bi ri \<in> set (vc_fromHere ?r) \<longleftrightarrow> (\<exists>h\<in>set (cellHits p ms bi ri). sh_matched h)"
  proof -
    have m: "(bi, ri) \<in> set allCells" using assms(2,3) by (simp add: allCells_set)
    have "cellName bi ri \<in> set (vc_fromHere ?r) \<longleftrightarrow> (\<exists>c\<in>set allCells. v2_fromHere ?st ! (fst c * 11 + snd c) \<and> cellName bi ri = cellName (fst c) (snd c))"
      by (auto simp: scanPropIntelV2WindowMode_def Let_def)
    also have "\<dots> \<longleftrightarrow> v2_fromHere ?st ! (bi * 11 + ri)"
      using inj_onD [OF cells_inj, of "(bi, ri)"] m by (metis fst_conv snd_conv)
    finally show ?thesis using arr(3) by simp
  qed
  show "map_of (vc_normalSpots ?r) (cellName bi ri) =
      (let n = length (filter (feedsNormal p) (cellHits p ms bi ri)) in if sp_fromHereOnly p \<and> n > 0 then Some n else None)"
    using cell_map [OF assms(2,3), of "\<lambda>c. v2_normal ?st ! (fst c * 11 + snd c)" "\<lambda>c. sp_fromHereOnly p \<and> v2_normal ?st ! (fst c * 11 + snd c) > 0"]
    by (simp add: scanPropIntelV2WindowMode_def Let_def arr(4))
  show "map_of (vc_normalStations ?r) (cellName bi ri) =
      (let hs = filter (feedsNormal p) (cellHits p ms bi ri)
       in if sp_fromHereOnly p \<and> hs \<noteq> [] then Some (length (foldl stations_add [] (map sh_call hs))) else None)"
    using cell_map [OF assms(2,3), of "\<lambda>c. length (v2_stations ?st ! (fst c * 11 + snd c))" "\<lambda>c. sp_fromHereOnly p \<and> v2_normal ?st ! (fst c * 11 + snd c) > 0"]
    by (simp add: scanPropIntelV2WindowMode_def Let_def arr(4,5))
qed

section \<open>The scan of the first version\<close>

record propIntelCellAcc =
  ca_uniqueSenders :: "string list"
  ca_sources :: "string list"
  ca_bestBudgetSNR :: real
  ca_hasPower :: bool
  ca_fromHere :: bool
  ca_spotCount :: nat
  ca_firstHalfSpots :: nat
  ca_secondHalfSpots :: nat

definition zeroCell :: propIntelCellAcc where
  "zeroCell = \<lparr>ca_uniqueSenders = [], ca_sources = [''wspr''], ca_bestBudgetSNR = 0, ca_hasPower = False, ca_fromHere = False,
     ca_spotCount = 0, ca_firstHalfSpots = 0, ca_secondHalfSpots = 0\<rparr>"

definition tallyCell :: "int \<Rightarrow> MQTTMessage \<times> bool \<times> bool \<Rightarrow> propIntelCellAcc \<Rightarrow> propIntelCellAcc" where
  \<comment> \<open>the message, whether the remote end is the receiver, whether an end matched\<close>
  "tallyCell midpoint x cell =
     (let (m, isRecv, matchedEnd) = x;
          call = propIntelRemoteCall m ''sc'' isRecv;
          cell = (if call \<noteq> [] then cell\<lparr>ca_uniqueSenders := List.insert call (ca_uniqueSenders cell)\<rparr> else cell);
          cell = cell\<lparr>ca_spotCount := ca_spotCount cell + 1\<rparr>;
          cell = (if TXPower m > 0
                  then cell\<lparr>ca_hasPower := True,
                            ca_bestBudgetSNR := (if effectiveSNR m > ca_bestBudgetSNR cell then effectiveSNR m else ca_bestBudgetSNR cell)\<rparr>
                  else cell);
          cell = (if \<not> ca_fromHere cell \<and> matchedEnd then cell\<lparr>ca_fromHere := True\<rparr> else cell)
      in if T m < midpoint then cell\<lparr>ca_firstHalfSpots := ca_firstHalfSpots cell + 1\<rparr>
         else cell\<lparr>ca_secondHalfSpots := ca_secondHalfSpots cell + 1\<rparr>)"

record v1Scan =
  v1_cells :: "propIntelCellAcc option list"
  v1_memo :: "(string \<times> nat option) list"

definition scan1Message :: "string list \<Rightarrow> int \<Rightarrow> int \<Rightarrow> int \<Rightarrow> v1Scan \<Rightarrow> MQTTMessage \<Rightarrow> v1Scan" where
  "scan1Message tokens now cutoff midpoint st m =
     (if T m > now \<or> T m < cutoff then st
      else if Source m \<noteq> ''wspr'' then st
      else let bi = feedBandIndex (B m)
           in if bi < 0 then st
              else let (remoteLoc, isRecv, matchedEnd) = pm_resolve (newPropRemoteMatcher tokens None) m ''sc'';
                       (memo, ri) = memoGet (v1_memo st) remoteLoc; st = st\<lparr>v1_memo := memo\<rparr>
                   in case ri of
                        None \<Rightarrow> st
                      | Some ri \<Rightarrow> st\<lparr>v1_cells := updAt (nat bi * nRegions + ri)
                            (\<lambda>cell. Some (tallyCell midpoint (m, isRecv, matchedEnd) (case cell of Some a \<Rightarrow> a | None \<Rightarrow> zeroCell)))
                            (v1_cells st)\<rparr>)"

definition scanPropIntelWindow ::
    "MQTTMessage list \<Rightarrow> string list \<Rightarrow> int \<Rightarrow> int \<Rightarrow> int \<Rightarrow> (cellKey \<times> propIntelCellAcc) list \<times> string list" where
  \<comment> \<open>the cells and the bands seen\<close>
  "scanPropIntelWindow history tokens now cutoff midpoint =
     (let st = foldl (scan1Message tokens now cutoff midpoint)
                 \<lparr>v1_cells = replicate (nBands * nRegions) None, v1_memo = []\<rparr> history;
          acc = List.map_filter (\<lambda>c. map_option (\<lambda>a. (cellName (fst c) (snd c), a)) (v1_cells st ! (fst c * nRegions + snd c))) allCells
      in (acc, remdups (map (fst \<circ> fst) acc)))"

definition hits1 :: "string list \<Rightarrow> int \<Rightarrow> int \<Rightarrow> MQTTMessage \<Rightarrow> (nat \<times> nat \<times> MQTTMessage \<times> bool \<times> bool) list" where
  \<comment> \<open>the cell a message counts in, with what is tallied\<close>
  "hits1 tokens now cutoff m =
     (if T m > now \<or> T m < cutoff \<or> Source m \<noteq> ''wspr'' \<or> feedBandIndex (B m) < 0 then []
      else let (remoteLoc, isRecv, matchedEnd) = pm_resolve (newPropRemoteMatcher tokens None) m ''sc''
           in case rawRegionOf remoteLoc of None \<Rightarrow> []
              | Some ri \<Rightarrow> [(nat (feedBandIndex (B m)), ri, m, isRecv, matchedEnd)])"

definition cellHits1 :: "string list \<Rightarrow> int \<Rightarrow> int \<Rightarrow> MQTTMessage list \<Rightarrow> nat \<Rightarrow> nat \<Rightarrow> (MQTTMessage \<times> bool \<times> bool) list" where
  "cellHits1 tokens now cutoff ms bi ri =
     map (snd \<circ> snd) (filter (\<lambda>(b, r, x). b = bi \<and> r = ri) (concat (map (hits1 tokens now cutoff) ms)))"

lemma scan1_hit:
  assumes "memo_ok (v1_memo st)"
  shows "memo_ok (v1_memo (scan1Message tokens now cutoff mid st m)) \<and>
    v1_cells (scan1Message tokens now cutoff mid st m) =
    foldl (\<lambda>xs h. if True then updAt (fst h * 11 + fst (snd h))
        (\<lambda>cell. Some (tallyCell mid (snd (snd h)) (case cell of Some a \<Rightarrow> a | None \<Rightarrow> zeroCell))) xs else xs)
      (v1_cells st) (hits1 tokens now cutoff m)"
proof -
  obtain loc isRecv matched where r: "pm_resolve (newPropRemoteMatcher tokens None) m ''sc'' = (loc, isRecv, matched)"
    by (metis prod_cases3)
  obtain memo ri where g: "memoGet (v1_memo st) loc = (memo, ri)" by (cases "memoGet (v1_memo st) loc")
  with memoGet_ok [OF assms, of loc] have "memo_ok memo" "ri = rawRegionOf loc" by simp_all
  with assms show ?thesis
    by (cases "rawRegionOf loc") (simp_all add: scan1Message_def hits1_def r g Let_def)
qed

lemma scan1_hits:
  "memo_ok (v1_memo st) \<Longrightarrow> v1_cells (foldl (scan1Message tokens now cutoff mid) st ms) =
    foldl (\<lambda>xs h. if True then updAt (fst h * 11 + fst (snd h))
        (\<lambda>cell. Some (tallyCell mid (snd (snd h)) (case cell of Some a \<Rightarrow> a | None \<Rightarrow> zeroCell))) xs else xs)
      (v1_cells st) (concat (map (hits1 tokens now cutoff) ms))"
proof (induction ms arbitrary: st)
  case (Cons m ms)
  show ?case
    using Cons.IH [of "scan1Message tokens now cutoff mid st m"] scan1_hit [OF Cons.prems, of tokens now cutoff mid m] by simp
qed simp

lemma scan1_cell:
  assumes "bi < 13" "ri < 11"
  shows "v1_cells (foldl (scan1Message tokens now cutoff mid) \<lparr>v1_cells = replicate (nBands * nRegions) None, v1_memo = []\<rparr> ms)
      ! (bi * 11 + ri) =
    (case cellHits1 tokens now cutoff ms bi ri of [] \<Rightarrow> None
     | xs \<Rightarrow> Some (foldl (\<lambda>a x. tallyCell mid x a) zeroCell xs))"
proof -
  define F where "F = filter (\<lambda>(b, r, x). b = bi \<and> r = ri) (concat (map (hits1 tokens now cutoff) ms))"
  have f: "filter (\<lambda>h. fst h * 11 + fst (snd h) = bi * 11 + ri) (concat (map (hits1 tokens now cutoff) ms)) = F"
    unfolding F_def
  proof (rule filter_cong [OF refl])
    fix h assume "h \<in> set (concat (map (hits1 tokens now cutoff) ms))"
    then have "fst (snd h) < 11" using region_range by (auto simp: hits1_def split: if_splits prod.splits option.splits)
    then show "(fst h * 11 + fst (snd h) = bi * 11 + ri) = (case h of (b, r, x) \<Rightarrow> b = bi \<and> r = ri)"
      using flat_index [of "fst (snd h)" 11 ri "fst h" bi] assms(2) by (auto split: prod.split)
  qed
  have some: "foldl (\<lambda>a h. Some (tallyCell mid (snd (snd h)) (case a of Some a \<Rightarrow> a | None \<Rightarrow> zeroCell))) (Some a) hs =
      Some (foldl (\<lambda>a x. tallyCell mid x a) a (map (snd \<circ> snd) hs))" for a and hs :: "(nat \<times> nat \<times> MQTTMessage \<times> bool \<times> bool) list"
    by (induction hs arbitrary: a) simp_all
  have "bi * 11 + ri < 143" using assms by linarith
  moreover have "memo_ok []" by (simp add: memo_ok_def)
  ultimately show ?thesis
    unfolding cellHits1_def F_def [symmetric]
    by (subst scan1_hits, simp, subst scatter) (simp_all add: f some, cases F, simp_all add: some)
qed

lemma tallyCell_fields:
  "ca_spotCount (tallyCell mid (m, r, b) c) = Suc (ca_spotCount c)"
  "ca_firstHalfSpots (tallyCell mid (m, r, b) c) = (if T m < mid then Suc (ca_firstHalfSpots c) else ca_firstHalfSpots c)"
  "ca_secondHalfSpots (tallyCell mid (m, r, b) c) = (if T m < mid then ca_secondHalfSpots c else Suc (ca_secondHalfSpots c))"
  "ca_hasPower (tallyCell mid (m, r, b) c) \<longleftrightarrow> ca_hasPower c \<or> TXPower m > 0"
  "ca_bestBudgetSNR (tallyCell mid (m, r, b) c) = (if TXPower m > 0 then max (ca_bestBudgetSNR c) (effectiveSNR m) else ca_bestBudgetSNR c)"
  "ca_fromHere (tallyCell mid (m, r, b) c) \<longleftrightarrow> ca_fromHere c \<or> b"
  "ca_sources (tallyCell mid (m, r, b) c) = ca_sources c"
  by (auto simp: tallyCell_def Let_def)

lemma tallied_together:
  \<comment> \<open>the same spots, tallied by either version\<close>
  fixes xs :: "(MQTTMessage \<times> bool \<times> bool) list" and mid :: int
  assumes "pf_HasTXPower prof"
  defines "c \<equiv> foldl (\<lambda>a x. tallyCell mid x a) zeroCell xs" and "a \<equiv> foldl (\<lambda>a m. tallySpot prof mid m a) zeroAcc (map fst xs)"
  shows "ca_spotCount c = pa_spotCount a" "ca_firstHalfSpots c = pa_firstHalfSpots a" "ca_secondHalfSpots c = pa_secondHalfSpots a"
    "ca_hasPower c = pa_hasPower a" "ca_bestBudgetSNR c = max 0 (pa_bestBudgetSNR a)"
    "ca_fromHere c \<longleftrightarrow> (\<exists>x\<in>set xs. snd (snd x))" "ca_sources c = [''wspr'']"
proof -
  have "ca_spotCount c = pa_spotCount a \<and> ca_firstHalfSpots c = pa_firstHalfSpots a \<and> ca_secondHalfSpots c = pa_secondHalfSpots a \<and>
    ca_hasPower c = pa_hasPower a \<and> ca_bestBudgetSNR c = max 0 (pa_bestBudgetSNR a) \<and>
    (ca_fromHere c \<longleftrightarrow> (\<exists>x\<in>set xs. snd (snd x))) \<and> ca_sources c = [''wspr''] \<and> (\<not> pa_hasPower a \<longrightarrow> pa_bestBudgetSNR a = 0)"
    unfolding c_def a_def
  proof (induction xs rule: rev_induct)
    case (snoc x xs)
    obtain m r b where x: "x = (m, r, b)" by (cases x)
    show ?case using snoc assms(1) by (auto simp: x tallyCell_fields tallySpot_fields)
  qed (simp add: zeroCell_def zeroAcc_def)
  then show "ca_spotCount c = pa_spotCount a" "ca_firstHalfSpots c = pa_firstHalfSpots a" "ca_secondHalfSpots c = pa_secondHalfSpots a"
    "ca_hasPower c = pa_hasPower a" "ca_bestBudgetSNR c = max 0 (pa_bestBudgetSNR a)"
    "ca_fromHere c \<longleftrightarrow> (\<exists>x\<in>set xs. snd (snd x))" "ca_sources c = [''wspr'']" by blast+
qed

lemma profileIndex_tag: "profileIndex ps a = Some i \<Longrightarrow> profileIndex ps b = Some i \<longleftrightarrow> a = b"
  by (metis profileIndex_range)

lemma message_agrees:
  assumes "\<not> sp_fromHereOnly p" "sp_matchArea p = None" "profileIndex (sp_profiles p) ''wspr'' = Some si"
    "pf_ReceiverSide (sp_profiles p ! si) = ''sc''"
  shows "map (\<lambda>h. (sh_msg h, sh_matched h)) (filter (\<lambda>h. sh_bi h = bi \<and> sh_ri h = ri \<and> sh_si h = si) (hitsOf p m)) =
    map (\<lambda>(b, r, m, isRecv, matched). (m, matched)) (filter (\<lambda>(b, r, x). b = bi \<and> r = ri) (hits1 (sp_qthSet p) (sp_now p) (sp_cutoff p) m))"
proof (cases "T m > sp_now p \<or> T m < sp_cutoff p \<or> feedBandIndex (B m) < 0")
  case True
  then show ?thesis by (auto simp: hitsOf_def accepted_def hits1_def Let_def split: option.split)
next
  case False
  obtain loc isRecv matched where r: "pm_resolve (newPropRemoteMatcher (sp_qthSet p) None) m ''sc'' = (loc, isRecv, matched)"
    by (metis prod_cases3)
  have w: "profileIndex (sp_profiles p) (sourceTag m) = Some si \<longleftrightarrow> Source m = ''wspr''"
    unfolding profileIndex_tag [OF assms(3), of "sourceTag m"] by (auto simp: sourceTag_def)
  show ?thesis
  proof (cases "Source m = ''wspr''")
    case True
    then have "accepted p m = Some (si, nat (feedBandIndex (B m)))" using False w by (simp add: accepted_def Let_def)
    then show ?thesis
      using True False assms r by (simp add: hitsOf_def hits1_def scanEnds_def split: option.split)
  next
    case no: False
    have "\<forall>h\<in>set (hitsOf p m). sh_si h \<noteq> si"
      using no w by (auto simp: hitsOf_def accepted_def List.map_filter_def Let_def split: option.splits if_splits prod.splits)
    then show ?thesis using no by (simp add: hits1_def filter_empty_conv)
  qed
qed

lemma scans_agree:
  assumes "\<not> sp_fromHereOnly p" "sp_matchArea p = None" "profileIndex (sp_profiles p) ''wspr'' = Some si"
    "pf_ReceiverSide (sp_profiles p ! si) = ''sc''"
  shows "map (\<lambda>h. (sh_msg h, sh_matched h)) (sourceHits p ms bi ri si) =
    map (\<lambda>(m, isRecv, matched). (m, matched)) (cellHits1 (sp_qthSet p) (sp_now p) (sp_cutoff p) ms bi ri)"
proof -
  have "map (\<lambda>h. (sh_msg h, sh_matched h)) (filter (\<lambda>h. sh_bi h = bi \<and> sh_ri h = ri \<and> sh_si h = si) (concat (map (hitsOf p) ms))) =
    map (\<lambda>(b, r, m, isRecv, matched). (m, matched))
      (filter (\<lambda>(b, r, x). b = bi \<and> r = ri) (concat (map (hits1 (sp_qthSet p) (sp_now p) (sp_cutoff p)) ms)))"
    by (induction ms) (simp_all only: message_agrees [OF assms, of bi ri] list.map concat.simps filter_append map_append filter.simps)
  moreover have "(\<lambda>(b, r, m, isRecv, matched). (m, matched)) = (\<lambda>(m, isRecv, matched). (m, matched)) \<circ> (snd \<circ> snd)"
    by (auto simp: fun_eq_iff)
  ultimately show ?thesis
    unfolding sourceHits_def cellHits_def cellHits1_def allHits_def filter_filter map_map conj_assoc by simp
qed

end
