(* ===== verification/PropEval.thy ===== *)
theory PropEval
  imports PropScan Sorting Evaluate
begin

text \<open>
  The two evaluations of the propagation engine over the counts of \<open>PropScan\<close>: \<open>Evaluate\<close> of
  prop_intel.go with its flavors, \<open>evaluateV2\<close> of prop_intel_v2.go with the from-here normal, the
  silent cells, the day curves and the trend of prop_intel_fromhere_detail.go, and the query
  parameters both read. The climatologies are maps and an argument. A Go map that is iterated to
  build cells is walked in the order its keys were added; the cells are sorted afterwards.
\<close>

section \<open>Shared figures\<close>

definition round3 :: "real \<Rightarrow> real" where "round3 v = of_int (goRound (v * 1000)) / 1000"

definition propIntelMinSampleDays :: int where "propIntelMinSampleDays = 3"
definition propIntelMatureSampleDays :: int where "propIntelMatureSampleDays = 30"
definition propIntelAtypicalZThreshold :: real where "propIntelAtypicalZThreshold = 2"
definition propIntelRisingSlopeThreshold :: real where "propIntelRisingSlopeThreshold = 3/2"
definition propIntelNowcastWindowMin :: int where "propIntelNowcastWindowMin = 15"
definition propIntelSSBFloorDb :: real where "propIntelSSBFloorDb = 10"
definition propIntelCWFloorDb :: real where "propIntelCWFloorDb = -5"

definition atypicalConfidence :: "int \<Rightarrow> real" where
  "atypicalConfidence sampleDays =
     (if sampleDays \<ge> propIntelMatureSampleDays then 1
      else if sampleDays \<le> 0 then 3/10
      else 3/10 + 7/10 * of_int sampleDays / of_int propIntelMatureSampleDays)"

definition isRising :: "nat \<Rightarrow> nat \<Rightarrow> bool" where
  "isRising firstHalf secondHalf =
     (if firstHalf > 0 then real secondHalf / real firstHalf \<ge> propIntelRisingSlopeThreshold else secondHalf > 0)"

record calendarStat =
  cl_Mean :: real
  cl_StdDev :: real
  cl_Today :: int
  cl_SampleDays :: int

type_synonym climatology = "string \<Rightarrow> string \<Rightarrow> int \<Rightarrow> calendarStat option"
  \<comment> \<open>by band, region and slot of the day\<close>

definition zAgainst :: "calendarStat \<Rightarrow> nat \<Rightarrow> int \<Rightarrow> real option" where
  \<comment> \<open>the z-score of a count extrapolated to a slot, when the climatology supports one\<close>
  "zAgainst base spotCount minutes =
     (if cl_StdDev base > 0 \<and> cl_SampleDays base \<ge> propIntelMinSampleDays
      then Some ((real spotCount * (30 / of_int minutes) - cl_Mean base) / cl_StdDev base) else None)"

definition propIntelBandOrder :: "string list" where
  "propIntelBandOrder = [''160m'', ''80m'', ''60m'', ''40m'', ''30m'', ''20m'', ''17m'', ''15m'', ''12m'', ''10m'', ''6m'', ''4m'', ''2m'']"

definition inScopeBandsOrdered :: "string list \<Rightarrow> string list" where
  "inScopeBandsOrdered seen = filter (\<lambda>b. b \<in> set seen) propIntelBandOrder"

definition allRegionStrings :: "string list" where
  "allRegionStrings = map Region_String AllRegions"

definition propIntelRegionDisplayNames :: "(string \<times> string) list" where
  "propIntelRegionDisplayNames = [(''EU'', ''Europe''), (''NA'', ''North America''), (''SA'', ''South America''),
     (''AF'', ''Africa''), (''AS'', ''Asia''), (''OC'', ''Oceania''), (''AN'', ''Antarctica''), (''JA'', ''Japan''),
     (''VK'', ''Australia''), (''KH6'', ''Hawaii''), (''CAR'', ''Caribbean'')]"

definition regionDisplayName :: "string \<Rightarrow> string" where
  "regionDisplayName code = (case map_of propIntelRegionDisplayNames code of Some n \<Rightarrow> n | None \<Rightarrow> code)"

definition keyBefore :: "cellKey \<Rightarrow> cellKey \<Rightarrow> bool" where
  \<comment> \<open>the comparison both versions sort their cells with\<close>
  "keyBefore a b = (if fst a \<noteq> fst b then strLess (fst a) (fst b) else strLess (snd a) (snd b))"

section \<open>The first version\<close>

record atypicalInfo =
  at_ZScore :: real
  at_Confidence :: real
  at_Flavor :: string
  at_FT8CrossRef :: string

record propIntelCell =
  pc_Band :: string
  pc_Region :: string
  pc_SSBOpen :: bool
  pc_CWOpen :: bool
  pc_Rising :: bool
  pc_Atypical :: "atypicalInfo option"
  pc_FromHere :: bool
  pc_Sources :: "string list"
  pc_SpotCount :: nat

record propIntelResponse =
  pr_QTH :: string
  pr_Minutes :: int
  pr_Now :: int
  pr_FromHere :: bool
  pr_Bands :: "string list"
  pr_BandOrder :: "string list"
  pr_Regions :: "string list"
  pr_RegionNames :: "(string \<times> string) list"
  pr_Cells :: "propIntelCell list"

definition assignFlavor :: "string \<Rightarrow> string \<Rightarrow> int \<Rightarrow> climatology \<Rightarrow> string \<times> string" where
  "assignFlavor band regionCode slot ft8Clim =
     (case ft8Clim band regionCode slot of
        None \<Rightarrow> (''atypical-wspr-only'', ''unavailable'')
      | Some base \<Rightarrow>
          if cl_SampleDays base < propIntelMinSampleDays \<or> cl_StdDev base \<le> 0 then (''atypical-wspr-only'', ''unavailable'')
          else if cl_Today base > 0 \<and> cl_StdDev base > 0 \<and>
                  (of_int (cl_Today base) - cl_Mean base) / cl_StdDev base \<ge> propIntelAtypicalZThreshold
          then (''atypical-both'', ''available'')
          else if cl_Today base = 0 \<or> cl_Mean base > 0 \<and> of_int (cl_Today base) < cl_Mean base * (1/10)
          then (''atypical-wspr-silent-ft8'', ''available'')
          else (''atypical-wspr-only'', ''available''))"

definition sortedSources :: "string list \<Rightarrow> string list" where
  "sortedSources ss = sort_by strLess ss"

definition v1Cell :: "real \<Rightarrow> int \<Rightarrow> int \<Rightarrow> real \<Rightarrow> climatology \<Rightarrow> climatology \<Rightarrow> cellKey \<times> propIntelCellAcc \<Rightarrow> propIntelCell" where
  \<comment> \<open>the body of the loop over \<open>acc\<close>\<close>
  "v1Cell cwFloor minutes slot threshold wsprClim ft8Clim kc =
     (let (key, ac) = kc; (band, reg) = key
      in \<lparr>pc_Band = band, pc_Region = reg,
          pc_SSBOpen = (ca_hasPower ac \<and> ca_bestBudgetSNR ac \<ge> propIntelSSBFloorDb),
          pc_CWOpen = (ca_hasPower ac \<and> ca_bestBudgetSNR ac \<ge> cwFloor),
          pc_Rising = isRising (ca_firstHalfSpots ac) (ca_secondHalfSpots ac),
          pc_Atypical = (case wsprClim band reg slot of
               None \<Rightarrow> None
             | Some base \<Rightarrow> (case zAgainst base (ca_spotCount ac) minutes of
                  None \<Rightarrow> None
                | Some z \<Rightarrow> if z \<ge> threshold
                            then (let (flavor, ft8Ref) = assignFlavor band reg slot ft8Clim
                                  in Some \<lparr>at_ZScore = round3 z, at_Confidence = round3 (atypicalConfidence (cl_SampleDays base)),
                                           at_Flavor = flavor, at_FT8CrossRef = ft8Ref\<rparr>)
                            else None)),
          pc_FromHere = ca_fromHere ac, pc_Sources = sortedSources (ca_sources ac), pc_SpotCount = ca_spotCount ac\<rparr>)"

definition cwFloorOf :: "int \<Rightarrow> real" where
  "cwFloorOf cwMin = (if cwMin \<ge> -40 \<and> cwMin \<le> 20 then of_int cwMin else propIntelCWFloorDb)"

definition clampNowcast :: "int \<Rightarrow> int" where
  "clampNowcast minutes =
     (let minutes = (if minutes \<le> 0 then propIntelNowcastWindowMin else minutes)
      in if minutes > maxDxWindowMinutes then maxDxWindowMinutes else minutes)"

definition propIntel_Evaluate ::
    "string \<Rightarrow> bool \<Rightarrow> int \<Rightarrow> int \<Rightarrow> MQTTMessage list \<Rightarrow> int \<Rightarrow> real \<Rightarrow> climatology \<Rightarrow> climatology \<Rightarrow> propIntelResponse" where
  "propIntel_Evaluate qth surroundings minutes cwMin history now threshold wsprClim ft8Clim =
     (let qth = normalizeQTHToken qth; minutes = clampNowcast minutes;
          resp = \<lparr>pr_QTH = qth, pr_Minutes = minutes, pr_Now = now, pr_FromHere = False, pr_Bands = [],
                  pr_BandOrder = propIntelBandOrder, pr_Regions = allRegionStrings,
                  pr_RegionNames = propIntelRegionDisplayNames, pr_Cells = []\<rparr>
      in if qth = [] then resp
         else let tokens = QTHSquares qth surroundings; cutoff = now - minutes * 60;
                  midpoint = cutoff + quot (now - cutoff) 2;
                  (acc, bandsSeen) = scanPropIntelWindow history tokens now cutoff midpoint
              in resp\<lparr>pr_Bands := inScopeBandsOrdered bandsSeen,
                      pr_Cells := sort_by (\<lambda>a b. keyBefore (pc_Band a, pc_Region a) (pc_Band b, pc_Region b))
                        (map (v1Cell (cwFloorOf cwMin) minutes (utcSlotOfDay now) threshold wsprClim ft8Clim) acc)\<rparr>)"

definition v1_applyFromHere :: "propIntelResponse \<Rightarrow> bool \<Rightarrow> propIntelResponse" where
  "v1_applyFromHere resp fromHere =
     (let resp = resp\<lparr>pr_FromHere := fromHere\<rparr>
      in if \<not> fromHere then resp else resp\<lparr>pr_Cells := filter pc_FromHere (pr_Cells resp)\<rparr>)"

section \<open>The second version: one source of a cell\<close>

record v2Atypical =
  va_ZScore :: real
  va_Confidence :: real

record v2SourceCell =
  sc_Source :: string
  sc_SpotCount :: nat
  sc_Open :: bool
  sc_SSBOpen :: "bool option"
  sc_CWOpen :: "bool option"
  sc_OpenBasis :: string
  sc_UnknownPower :: bool
  sc_Rising :: bool
  sc_Atypical :: "v2Atypical option"
  sc_SampleDays :: int

definition overrideFloor :: "real option \<Rightarrow> int option \<Rightarrow> real option" where
  "overrideFloor lo ov = (case (lo, ov) of (Some f, Some v) \<Rightarrow> Some (of_int v) | _ \<Rightarrow> lo)"

definition reaches :: "bool \<Rightarrow> real \<Rightarrow> real option \<Rightarrow> bool" where
  \<comment> \<open>\<open>has && v >= *floor\<close>; the floors of a profile with power are never \<open>nil\<close>\<close>
  "reaches has v lo \<longleftrightarrow> has \<and> (case lo of Some f \<Rightarrow> v \<ge> f | None \<Rightarrow> False)"

definition openFlags :: "propProfile \<Rightarrow> int option \<Rightarrow> int option \<Rightarrow> propIntelV2Acc \<Rightarrow> bool \<times> bool option \<times> bool option \<times> bool" where
  \<comment> \<open>\<open>Open\<close>, \<open>SSBOpen\<close>, \<open>CWOpen\<close>, \<open>UnknownPower\<close>\<close>
  "openFlags prof ssbOverride cwOverride acc =
     (let ssbFloor = overrideFloor (pf_SSBFloorDb prof) ssbOverride; cwFloor = overrideFloor (pf_CWFloorDb prof) cwOverride
      in if pf_HasTXPower prof
         then let ssb = reaches (pa_hasPower acc) (pa_bestBudgetSNR acc) ssbFloor;
                  cw = reaches (pa_hasPower acc) (pa_bestBudgetSNR acc) cwFloor
              in (ssb \<or> cw, Some ssb, Some cw, False)
         else if pf_PresenceMinSpots prof > 0 then (pa_spotCount acc \<ge> pf_PresenceMinSpots prof, None, None, False)
         else let report = reaches (pa_hasReport acc) (of_int (pa_bestReportSNR acc));
                  ssb = (case ssbFloor of None \<Rightarrow> None | Some f \<Rightarrow> Some (report ssbFloor));
                  cw = (case cwFloor of None \<Rightarrow> None | Some f \<Rightarrow> Some (report cwFloor))
              in (ssb = Some True \<or> cw = Some True \<or> report (pf_DigitalFloorDb prof), ssb, cw, True))"

definition v2SourceCellOf ::
    "int option \<Rightarrow> int option \<Rightarrow> int \<Rightarrow> int \<Rightarrow> real \<Rightarrow> bool \<Rightarrow> (string \<Rightarrow> climatology) \<Rightarrow> (cellKey \<times> string) \<times> propIntelV2Acc \<Rightarrow> v2SourceCell" where
  \<comment> \<open>the body of the loop over \<open>cellAccs\<close>; the climatology is keyed by the source first\<close>
  "v2SourceCellOf ssbOverride cwOverride minutes slot threshold widened clim ka =
     (let (key, acc) = ka; ((band, reg), source) = key;
          prof = (case propIntelProfilesByName source of Some p \<Rightarrow> p
            | None \<Rightarrow> \<lparr>pf_PublicName = [], pf_InternalTag = [], pf_ReceiverSide = [], pf_HasTXPower = False, pf_SSBFloorDb = None,
                       pf_CWFloorDb = None, pf_DigitalFloorDb = None, pf_PresenceMinSpots = 0\<rparr>);
          (isOpen, ssb, cw, unknown) = openFlags prof ssbOverride cwOverride acc;
          base = (if widened then None else clim source band reg slot)
      in \<lparr>sc_Source = source, sc_SpotCount = pa_spotCount acc, sc_Open = isOpen, sc_SSBOpen = ssb, sc_CWOpen = cw,
          sc_OpenBasis = openBasisForProfile prof, sc_UnknownPower = unknown,
          sc_Rising = isRising (pa_firstHalfSpots acc) (pa_secondHalfSpots acc),
          sc_Atypical = (case base of None \<Rightarrow> None
             | Some b \<Rightarrow> (case zAgainst b (pa_spotCount acc) minutes of None \<Rightarrow> None
                | Some z \<Rightarrow> if z \<ge> threshold
                            then Some \<lparr>va_ZScore = round3 z, va_Confidence = round3 (atypicalConfidence (cl_SampleDays b))\<rparr> else None)),
          sc_SampleDays = (case base of None \<Rightarrow> 0 | Some b \<Rightarrow> cl_SampleDays b)\<rparr>)"

section \<open>The second version: a cell\<close>

record v2Cell =
  vx_Band :: string
  vx_Region :: string
  vx_FromHere :: bool
  vx_SpotCount :: nat
  vx_Open :: bool
  vx_SSBOpen :: bool
  vx_CWOpen :: bool
  vx_Rising :: bool
  vx_Atypical :: "v2Atypical option"
  vx_ActiveSources :: "string list"
  vx_OpenAgreement :: real
  vx_AtypicalAgreement :: real
  vx_PerSource :: "v2SourceCell list"
  vx_Expected :: "real option"
  vx_ExpectedSpots :: "nat option"
  vx_Silent :: bool
  vx_NormalDay :: "real list"
  vx_Trend :: "nat list"

definition strongerAtypical :: "v2Atypical option \<Rightarrow> v2SourceCell \<Rightarrow> v2Atypical option" where
  "strongerAtypical best sc =
     (case sc_Atypical sc of
        None \<Rightarrow> best
      | Some a \<Rightarrow> (case best of
            None \<Rightarrow> Some a
          | Some b \<Rightarrow> if va_Confidence a > va_Confidence b \<or> va_Confidence a = va_Confidence b \<and> va_ZScore a > va_ZScore b
                      then Some a else best))"

definition rollUp :: "cellKey \<Rightarrow> bool \<Rightarrow> v2SourceCell list \<Rightarrow> v2Cell" where
  \<comment> \<open>the body of the loop over \<open>byCell\<close>, before the from-here part\<close>
  "rollUp key fromHere srcs =
     (let srcs = sort_by (\<lambda>a b. sourceOrderIndex (sc_Source a) < sourceOrderIndex (sc_Source b)) srcs;
          openCount = length (filter sc_Open srcs); atypicalCount = length (filter (\<lambda>s. sc_Atypical s \<noteq> None) srcs)
      in \<lparr>vx_Band = fst key, vx_Region = snd key, vx_FromHere = fromHere, vx_SpotCount = sum_list (map sc_SpotCount srcs),
          vx_Open = list_ex sc_Open srcs, vx_SSBOpen = list_ex (\<lambda>s. sc_SSBOpen s = Some True) srcs,
          vx_CWOpen = list_ex (\<lambda>s. sc_CWOpen s = Some True) srcs, vx_Rising = list_ex sc_Rising srcs,
          vx_Atypical = foldl strongerAtypical None srcs, vx_ActiveSources = map sc_Source srcs,
          vx_OpenAgreement = (if srcs = [] then 0 else round2 (real openCount / real (length srcs))),
          vx_AtypicalAgreement = (if srcs \<noteq> [] \<and> atypicalCount > 0 then round2 (real atypicalCount / real (length srcs)) else 0),
          vx_PerSource = srcs, vx_Expected = None, vx_ExpectedSpots = None, vx_Silent = False, vx_NormalDay = [], vx_Trend = []\<rparr>)"

definition applyFromHereNormal :: "v2Cell \<Rightarrow> fromHereNormals option \<Rightarrow> nat \<Rightarrow> nat \<Rightarrow> real \<Rightarrow> v2Cell" where
  "applyFromHereNormal cl normals live stations threshold =
     (case normals of
        None \<Rightarrow> cl
      | Some ns \<Rightarrow>
          if int (ns_SampleDays ns) < propIntelMinSampleDays then cl
          else let nrm = normalOf ns (vx_Band cl, vx_Region cl);
                   cl = cl\<lparr>vx_Expected := Some (round1 (nm_Expected nrm)), vx_ExpectedSpots := Some live,
                       vx_PerSource := map (\<lambda>s. if sc_Source s = ''pskr'' then s\<lparr>sc_SampleDays := int (ns_SampleDays ns)\<rparr> else s) (vx_PerSource cl)\<rparr>
               in if nm_StdDev nrm \<le> 0 \<or> live < fromHereSurgeMinSpots \<or> stations < fromHereSurgeMinStations then cl
                  else let z = (real live - nm_Expected nrm) / nm_StdDev nrm
                       in if z < threshold then cl
                          else let a = \<lparr>va_ZScore = round3 z, va_Confidence = round3 (atypicalConfidence (int (ns_SampleDays ns)))\<rparr>;
                                   marked = length (filter (\<lambda>s. sc_Source s = ''pskr'') (vx_PerSource cl));
                                   n = length (vx_PerSource cl);
                                   cl = cl\<lparr>vx_Atypical := Some a,
                                       vx_PerSource := map (\<lambda>s. if sc_Source s = ''pskr'' then s\<lparr>sc_Atypical := Some a\<rparr> else s) (vx_PerSource cl)\<rparr>
                               in if n > 0 \<and> marked > 0 then cl\<lparr>vx_AtypicalAgreement := round2 (real marked / real n)\<rparr> else cl)"

section \<open>Silent cells, day curves and the trend\<close>

definition fromHereSilentMinExpected :: real where "fromHereSilentMinExpected = 5"
definition fromHereTrendBins :: nat where "fromHereTrendBins = 12"
definition fromHereTrendBinSec :: int where "fromHereTrendBinSec = 300"

record fromHereSlotSum =
  fs_Band :: string
  fs_Region :: string
  fs_Slot :: int
  fs_Sum :: int

type_synonym dayCurves = "(cellKey \<times> real list) list"

definition addSlotSum :: "(int \<Rightarrow> int) \<Rightarrow> dayCurves \<Rightarrow> fromHereSlotSum \<Rightarrow> dayCurves" where
  \<comment> \<open>the body of the loop; \<open>covered\<close> reads 0 for a slot it does not hold\<close>
  "addSlotSum covered out s =
     (if fs_Slot s < 0 \<or> fs_Slot s \<ge> 48 \<or> \<not> bandInScope (fs_Band s) then out
      else let n = covered (fs_Slot s)
           in if n \<le> 0 then out
              else let key = (fs_Band s, fs_Region s);
                       c = (case map_of out key of Some c \<Rightarrow> c | None \<Rightarrow> replicate 48 0)
                   in AList.update key (c[nat (fs_Slot s) := round1 (of_int (fs_Sum s) / of_int n)]) out)"

definition computeFromHereDayCurves :: "fromHereSlotSum list \<Rightarrow> (int \<Rightarrow> int) \<Rightarrow> dayCurves" where
  "computeFromHereDayCurves rows covered = foldl (addSlotSum covered) [] rows"

record trendScan =
  ts_counts :: "nat list"
  ts_memo :: "(string \<times> nat option) list"

definition trendSide :: "propProfile list \<Rightarrow> MQTTMessage \<Rightarrow> string option" where
  \<comment> \<open>\<open>side\<close>, when the source is wanted; a later profile of the tag overwrites an earlier one\<close>
  "trendSide profiles m =
     (if sourceTag m = ''mqtt'' \<or> sourceTag m = ''dxcluster''
      then foldl (\<lambda>s p. if pf_InternalTag p = sourceTag m then Some (pf_ReceiverSide p) else s) None profiles
      else None)"

definition trendBin :: "int \<Rightarrow> MQTTMessage \<Rightarrow> nat" where
  "trendBin start m = (let b = nat (quot (T m - start) fromHereTrendBinSec)
     in if b \<ge> fromHereTrendBins then fromHereTrendBins - 1 else b)"

definition trendEnd :: "nat \<Rightarrow> nat \<Rightarrow> trendScan \<Rightarrow> string \<Rightarrow> trendScan" where
  "trendEnd bi bin st loc =
     (if loc = [] then st
      else let (memo, ri) = memoGet (ts_memo st) loc; st = st\<lparr>ts_memo := memo\<rparr>
           in case ri of None \<Rightarrow> st
              | Some ri \<Rightarrow> st\<lparr>ts_counts := updAt ((bi * nRegions + ri) * fromHereTrendBins + bin) Suc (ts_counts st)\<rparr>)"

definition trendMessage :: "propProfile list \<Rightarrow> fromHereMatcher \<Rightarrow> int \<Rightarrow> trendScan \<Rightarrow> MQTTMessage \<Rightarrow> trendScan" where
  "trendMessage profiles fhm now st m =
     (let start = now - int fromHereTrendBins * fromHereTrendBinSec
      in if T m > now \<or> T m < start then st
         else case trendSide profiles m of
                None \<Rightarrow> st
              | Some side \<Rightarrow>
                  let bi = feedBandIndex (B m)
                  in if bi < 0 then st
                     else let (a, b) = fm_ends fhm m side
                          in foldl (trendEnd (nat bi) (trendBin start m)) st [a, b])"

definition trendOfCell :: "nat list \<Rightarrow> nat \<Rightarrow> nat \<Rightarrow> nat list" where
  \<comment> \<open>the slice of \<open>counts\<close>\<close>
  "trendOfCell counts bi ri = map (\<lambda>k. counts ! ((bi * nRegions + ri) * fromHereTrendBins + k)) [0..<fromHereTrendBins]"

definition fromHereTrend :: "MQTTMessage list \<Rightarrow> propProfile list \<Rightarrow> string list \<Rightarrow> liveArea option \<Rightarrow> int \<Rightarrow> (cellKey \<times> nat list) list" where
  "fromHereTrend history profiles tokens area now =
     (if \<not> list_ex (\<lambda>p. pf_InternalTag p = ''mqtt'' \<or> pf_InternalTag p = ''dxcluster'') profiles then []
      else let st = foldl (trendMessage profiles (newFromHereMatcher tokens area) now)
                      \<lparr>ts_counts = replicate (nBands * nRegions * fromHereTrendBins) 0, ts_memo = []\<rparr> history
           in map (\<lambda>c. (cellName (fst c) (snd c), trendOfCell (ts_counts st) (fst c) (snd c)))
                (filter (\<lambda>c. list_ex (\<lambda>v. v > 0) (trendOfCell (ts_counts st) (fst c) (snd c))) allCells))"

definition fromHereSilentCells :: "fromHereNormals option \<Rightarrow> cellKey list \<Rightarrow> v2Cell list" where
  \<comment> \<open>\<open>live\<close> by its keys\<close>
  "fromHereSilentCells normals live =
     (case normals of
        None \<Rightarrow> []
      | Some ns \<Rightarrow>
          if int (ns_SampleDays ns) < propIntelMinSampleDays then []
          else List.map_filter (\<lambda>(key, nrm).
                 if key \<in> set live \<or> nm_Expected nrm < fromHereSilentMinExpected then None
                 else if \<not> bandInScope (fst key) \<or> snd key \<notin> set allRegionStrings then None
                 else Some \<lparr>vx_Band = fst key, vx_Region = snd key, vx_FromHere = True, vx_SpotCount = 0, vx_Open = False,
                        vx_SSBOpen = False, vx_CWOpen = False, vx_Rising = False, vx_Atypical = None, vx_ActiveSources = [],
                        vx_OpenAgreement = 0, vx_AtypicalAgreement = 0, vx_PerSource = [],
                        vx_Expected = Some (round1 (nm_Expected nrm)), vx_ExpectedSpots = Some 0, vx_Silent = True,
                        vx_NormalDay = [], vx_Trend = []\<rparr>) (ns_ByCell ns))"

record propIntelV2FromHere =
  fh_normals :: "fromHereNormals option"
  fh_withSilent :: bool
  fh_dayCurves :: "dayCurves option"
  fh_trend :: bool
  fh_trendHistory :: "MQTTMessage list"

definition applyFromHereDetail :: "propIntelV2FromHere \<Rightarrow> (cellKey \<times> nat list) list \<Rightarrow> v2Cell \<Rightarrow> v2Cell" where
  "applyFromHereDetail fh trend cl =
     (let key = (vx_Band cl, vx_Region cl);
          cl = (case fh_dayCurves fh of None \<Rightarrow> cl
                | Some dc \<Rightarrow> cl\<lparr>vx_NormalDay := (case map_of dc key of Some c \<Rightarrow> c | None \<Rightarrow> [])\<rparr>)
      in if fh_trend fh
         then cl\<lparr>vx_Trend := (case map_of trend key of Some t \<Rightarrow> t | None \<Rightarrow> replicate fromHereTrendBins 0)\<rparr>
         else cl)"

section \<open>The second version: the response\<close>

record propIntelV2Response =
  vr_Area :: "liveArea option"
  vr_QTH :: string
  vr_Minutes :: int
  vr_Now :: int
  vr_FromHere :: bool
  vr_SourcesRequested :: "string list"
  vr_Bands :: "string list"
  vr_BandOrder :: "string list"
  vr_Regions :: "string list"
  vr_RegionNames :: "(string \<times> string) list"
  vr_Cells :: "v2Cell list"
  vr_TrendBinMinutes :: int

definition v2Request :: "string \<Rightarrow> bool \<Rightarrow> int \<Rightarrow> propProfile list \<Rightarrow> int \<Rightarrow> liveArea option \<Rightarrow> bool \<Rightarrow> scanParams" where
  \<comment> \<open>what \<open>evaluateV2\<close> hands to the scan\<close>
  "v2Request qth surroundings minutes profiles now area fromHereOnly =
     (let matchArea = (case area of Some a \<Rightarrow> if Radius a > 1 then Some a else None | None \<Rightarrow> None);
          surroundings = (case area of Some a \<Rightarrow> if matchArea = None then Radius a = 1 else surroundings | None \<Rightarrow> surroundings);
          cutoff = now - minutes * 60
      in \<lparr>sp_profiles = profiles, sp_qthSet = QTHSquares qth surroundings, sp_matchArea = matchArea, sp_now = now,
          sp_cutoff = cutoff, sp_midpoint = cutoff + quot (now - cutoff) 2, sp_fromHereOnly = fromHereOnly\<rparr>)"

definition spotsOf :: "(cellKey \<times> nat) list \<Rightarrow> cellKey \<Rightarrow> nat" where
  "spotsOf counts key = (case map_of counts key of Some n \<Rightarrow> n | None \<Rightarrow> 0)"

definition liveCells :: "v2Counts \<Rightarrow> cellKey list" where
  \<comment> \<open>the keys of \<open>byCell\<close>\<close>
  "liveCells counts = remdups (map (fst \<circ> fst) (vc_accs counts))"

definition v2Cells ::
    "int option \<Rightarrow> int option \<Rightarrow> int \<Rightarrow> int \<Rightarrow> real \<Rightarrow> bool \<Rightarrow> (string \<Rightarrow> climatology) \<Rightarrow> v2Counts \<Rightarrow>
     propIntelV2FromHere option \<Rightarrow> bool \<Rightarrow> (cellKey \<times> nat list) list \<Rightarrow> v2Cell list" where
  \<comment> \<open>the cells with live spots, before the sort\<close>
  "v2Cells ssbOverride cwOverride minutes slot threshold widened clim counts fh pskrSelected trend =
     map (\<lambda>key.
        let cl = rollUp key (key \<in> set (vc_fromHere counts))
                   (map (v2SourceCellOf ssbOverride cwOverride minutes slot threshold widened clim)
                      (filter (\<lambda>ka. fst (fst ka) = key) (vc_accs counts)))
        in case fh of
             None \<Rightarrow> cl
           | Some f \<Rightarrow> if pskrSelected
                       then applyFromHereDetail f trend (applyFromHereNormal cl (fh_normals f)
                              (spotsOf (vc_normalSpots counts) key) (spotsOf (vc_normalStations counts) key) threshold)
                       else cl) (liveCells counts)"

definition evaluateV2 ::
    "string \<Rightarrow> bool \<Rightarrow> int \<Rightarrow> propProfile list \<Rightarrow> int option \<Rightarrow> int option \<Rightarrow> MQTTMessage list \<Rightarrow> int \<Rightarrow> real \<Rightarrow>
     liveArea option \<Rightarrow> (string \<Rightarrow> climatology) \<Rightarrow> propIntelV2FromHere option \<Rightarrow> propIntelV2Response" where
  "evaluateV2 qth surroundings minutes profiles ssbOverride cwOverride history now threshold area baseline fh =
     (let qth = normalizeQTHToken qth; profiles = (if profiles = [] then propIntelSourceProfiles else profiles);
          resp = \<lparr>vr_Area = area, vr_QTH = qth, vr_Minutes = minutes, vr_Now = now, vr_FromHere = False,
                  vr_SourcesRequested = map pf_PublicName profiles, vr_Bands = [], vr_BandOrder = propIntelBandOrder,
                  vr_Regions = allRegionStrings, vr_RegionNames = propIntelRegionDisplayNames, vr_Cells = [],
                  vr_TrendBinMinutes = 0\<rparr>
      in if qth = [] then resp
         else let p = v2Request qth surroundings minutes profiles now area (fh \<noteq> None);
                  counts = scanPropIntelV2WindowMode p history;
                  clim = (if fh = None then baseline else (\<lambda>_ _ _ _. None));
                  widened = (case area of Some a \<Rightarrow> Widened a | None \<Rightarrow> False);
                  pskrSelected = list_ex (\<lambda>p. pf_InternalTag p = ''mqtt'') profiles;
                  trend = (case fh of Some f \<Rightarrow>
                             if fh_trend f \<and> pskrSelected
                             then fromHereTrend (fh_trendHistory f) profiles (sp_qthSet p) (sp_matchArea p) now else []
                           | None \<Rightarrow> []);
                  cells = v2Cells ssbOverride cwOverride minutes (utcSlotOfDay now) threshold widened clim counts fh pskrSelected trend;
                  silent = (case fh of Some f \<Rightarrow>
                              if fh_withSilent f \<and> pskrSelected
                              then map (applyFromHereDetail f trend) (fromHereSilentCells (fh_normals f) (liveCells counts)) else []
                            | None \<Rightarrow> [])
              in resp\<lparr>vr_Bands := inScopeBandsOrdered (vc_bands counts),
                      vr_Cells := sort_by (\<lambda>a b. keyBefore (vx_Band a, vx_Region a) (vx_Band b, vx_Region b)) (cells @ silent)\<rparr>)"

definition EvaluateV2FromHereDetail ::
    "string \<Rightarrow> bool \<Rightarrow> int \<Rightarrow> propProfile list \<Rightarrow> int option \<Rightarrow> int option \<Rightarrow> MQTTMessage list \<Rightarrow> int \<Rightarrow> real \<Rightarrow>
     liveArea option \<Rightarrow> propIntelV2FromHere \<Rightarrow> propIntelV2Response" where
  "EvaluateV2FromHereDetail qth surroundings minutes profiles ssbOverride cwOverride history now threshold area fh =
     (let resp = evaluateV2 qth surroundings minutes profiles ssbOverride cwOverride history now threshold area (\<lambda>_ _ _ _. None) (Some fh);
          resp = resp\<lparr>vr_FromHere := True\<rparr>
      in if fh_trend fh then resp\<lparr>vr_TrendBinMinutes := quot fromHereTrendBinSec 60\<rparr> else resp)"

definition EvaluateV2Area ::
    "string \<Rightarrow> bool \<Rightarrow> int \<Rightarrow> propProfile list \<Rightarrow> int option \<Rightarrow> int option \<Rightarrow> MQTTMessage list \<Rightarrow> int \<Rightarrow> real \<Rightarrow>
     liveArea option \<Rightarrow> (string \<Rightarrow> climatology) \<Rightarrow> propIntelV2Response" where
  "EvaluateV2Area qth surroundings minutes profiles ssbOverride cwOverride history now threshold area baseline =
     evaluateV2 qth surroundings minutes profiles ssbOverride cwOverride history now threshold area baseline None"

definition v2_applyFromHere :: "propIntelV2Response \<Rightarrow> bool \<Rightarrow> propIntelV2Response" where
  "v2_applyFromHere resp fromHere =
     (let resp = resp\<lparr>vr_FromHere := fromHere\<rparr>
      in if \<not> fromHere then resp else resp\<lparr>vr_Cells := filter vx_FromHere (vr_Cells resp)\<rparr>)"

section \<open>The query parameters\<close>

record propIntelParams =
  pp_qth :: string
  pp_surroundings :: bool
  pp_minutes :: int
  pp_cwMinDb :: int
  pp_atypicalThreshold :: real
  pp_fromHere :: bool
  pp_cwOverride :: "int option"
  pp_ssbOverride :: "int option"

definition parsePropIntelParams :: "(string \<Rightarrow> real option) \<Rightarrow> query \<Rightarrow> propIntelParams option" where
  \<comment> \<open>\<open>strconv.ParseFloat\<close> of a finite value is an argument\<close>
  "parsePropIntelParams ParseFloat q =
     (let (qth, surroundings) = resolveQTHQuery q
      in if qth = [] then None
         else let minutes = (case Atoi (TrimSpace (q ''minutes'')) of Some m \<Rightarrow> if m > 0 then m else propIntelNowcastWindowMin
                             | None \<Rightarrow> propIntelNowcastWindowMin);
                  minutes = (if minutes > maxDxWindowMinutes then maxDxWindowMinutes else minutes);
                  cw = Atoi (TrimSpace (q ''cw_min_db'')); ssb = Atoi (TrimSpace (q ''ssb_min_db''));
                  th = TrimSpace (q ''surge_threshold'')
              in Some \<lparr>pp_qth = qth, pp_surroundings = surroundings, pp_minutes = minutes,
                   pp_cwMinDb = (case cw of Some v \<Rightarrow> v | None \<Rightarrow> defaultDxCwViableMinDb),
                   pp_atypicalThreshold = (if th = [] then propIntelAtypicalZThreshold
                      else case ParseFloat th of Some v \<Rightarrow> if v > 0 then v else propIntelAtypicalZThreshold | None \<Rightarrow> propIntelAtypicalZThreshold),
                   pp_fromHere = (TrimSpace (q ''from_here'') = ''true''),
                   pp_cwOverride = (case cw of Some v \<Rightarrow> if v \<ge> -40 \<and> v \<le> 20 then Some v else None | None \<Rightarrow> None),
                   pp_ssbOverride = (case ssb of Some v \<Rightarrow> if v \<ge> -10 \<and> v \<le> 30 then Some v else None | None \<Rightarrow> None)\<rparr>)"

end
