(* ===== verification/PropFacts.thy ===== *)
theory PropFacts
  imports PropEval
begin

text \<open>
  Facts about the propagation evaluations of \<open>PropEval\<close>: the two versions agree on what the
  beacons say of a cell, the trend counts the spots the normal is built from, and every cell of
  a response is typed and appears once.
\<close>

section \<open>The two versions on one source\<close>

definition wsprProfile :: propProfile where
  "wsprProfile = \<lparr>pf_PublicName = ''wspr'', pf_InternalTag = ''wspr'', pf_ReceiverSide = ''sc'', pf_HasTXPower = True,
      pf_SSBFloorDb = Some 10, pf_CWFloorDb = Some (-5), pf_DigitalFloorDb = None, pf_PresenceMinSpots = 0\<rparr>"

lemma wspr_by_name: "propIntelProfilesByName ''wspr'' = Some wsprProfile"
  by (simp add: propIntelProfilesByName_def propIntelSourceProfiles_def wsprProfile_def)

lemma wspr_in_table: "p \<in> set propIntelSourceProfiles \<Longrightarrow> pf_InternalTag p = ''wspr'' \<longleftrightarrow> p = wsprProfile"
  by (auto simp: propIntelSourceProfiles_def wsprProfile_def)

lemma wspr_name_in_table: "p \<in> set propIntelSourceProfiles \<Longrightarrow> pf_PublicName p = ''wspr'' \<longleftrightarrow> p = wsprProfile"
  by (auto simp: propIntelSourceProfiles_def wsprProfile_def)

lemma profileIndex_ex: "(\<exists>p\<in>set ps. pf_InternalTag p = src) \<longleftrightarrow> profileIndex ps src \<noteq> None"
  by (induction ps) auto

lemma wspr_index:
  assumes "set ps \<subseteq> set propIntelSourceProfiles" "''wspr'' \<in> set (map pf_PublicName ps)"
  obtains si where "profileIndex ps ''wspr'' = Some si" "si < length ps" "ps ! si = wsprProfile"
proof -
  from assms(2) obtain q where q: "q \<in> set ps" "pf_PublicName q = ''wspr''" by (metis imageE list.set_map)
  then have "q = wsprProfile" using assms(1) wspr_name_in_table by blast
  then have "pf_InternalTag q = ''wspr''" by (simp add: wsprProfile_def)
  with q(1) have "profileIndex ps ''wspr'' \<noteq> None" unfolding profileIndex_ex [symmetric] by blast
  then obtain si where si: "profileIndex ps ''wspr'' = Some si" by blast
  note r = profileIndex_range [OF si]
  then have "ps ! si \<in> set propIntelSourceProfiles" using assms(1) nth_mem by blast
  with wspr_in_table r have "ps ! si = wsprProfile" by blast
  with si r that show thesis by blast
qed

lemma v1_accs:
  assumes "bi < 13" "ri < 11"
  shows "map_of (fst (scanPropIntelWindow ms tokens now cutoff mid)) (cellName bi ri) =
    (case cellHits1 tokens now cutoff ms bi ri of [] \<Rightarrow> None
     | xs \<Rightarrow> Some (foldl (\<lambda>a x. tallyCell mid x a) zeroCell xs))"
proof -
  let ?v = "v1_cells (foldl (scan1Message tokens now cutoff mid) \<lparr>v1_cells = replicate (nBands * nRegions) None, v1_memo = []\<rparr> ms)"
  have "fst (scanPropIntelWindow ms tokens now cutoff mid) =
      map (\<lambda>c. (cellName (fst c) (snd c), the (?v ! (fst c * 11 + snd c)))) (filter (\<lambda>c. ?v ! (fst c * 11 + snd c) \<noteq> None) allCells)"
    unfolding scanPropIntelWindow_def Let_def List.map_filter_def by (auto simp: option.map_sel)
  then show ?thesis
    using cell_map [OF assms, of "\<lambda>c. the (?v ! (fst c * 11 + snd c))" "\<lambda>c. ?v ! (fst c * 11 + snd c) \<noteq> None"]
      scan1_cell [OF assms, of tokens now cutoff mid ms] by (auto split: list.split)
qed

lemma v1Cell_fields:
  "pc_SpotCount (v1Cell f minutes slot th wc fc (key, c)) = ca_spotCount c"
  "pc_Rising (v1Cell f minutes slot th wc fc (key, c)) = isRising (ca_firstHalfSpots c) (ca_secondHalfSpots c)"
  "pc_SSBOpen (v1Cell f minutes slot th wc fc (key, c)) \<longleftrightarrow> ca_hasPower c \<and> ca_bestBudgetSNR c \<ge> 10"
  "pc_CWOpen (v1Cell f minutes slot th wc fc (key, c)) \<longleftrightarrow> ca_hasPower c \<and> ca_bestBudgetSNR c \<ge> f"
  "map_option (\<lambda>a. (at_ZScore a, at_Confidence a)) (pc_Atypical (v1Cell f minutes slot th wc fc (key, c))) =
     (case wc (fst key) (snd key) slot of None \<Rightarrow> None
      | Some b \<Rightarrow> (case zAgainst b (ca_spotCount c) minutes of None \<Rightarrow> None
          | Some z \<Rightarrow> if z \<ge> th then Some (round3 z, round3 (atypicalConfidence (cl_SampleDays b))) else None))"
  by (auto simp: v1Cell_def propIntelSSBFloorDb_def Let_def split: prod.split option.split)

lemma v2Cell_fields:
  fixes ssb cw :: "int option" and f :: "int option \<Rightarrow> real"
  defines "f \<equiv> (\<lambda>cw. case cw of Some v \<Rightarrow> of_int v | None \<Rightarrow> -5)"
  shows "sc_SpotCount (v2SourceCellOf ssb cw minutes slot th w clim ((key, ''wspr''), a)) = pa_spotCount a"
    "sc_Rising (v2SourceCellOf ssb cw minutes slot th w clim ((key, ''wspr''), a)) = isRising (pa_firstHalfSpots a) (pa_secondHalfSpots a)"
    "sc_SSBOpen (v2SourceCellOf None cw minutes slot th w clim ((key, ''wspr''), a)) = Some (pa_hasPower a \<and> pa_bestBudgetSNR a \<ge> 10)"
    "sc_CWOpen (v2SourceCellOf ssb cw minutes slot th w clim ((key, ''wspr''), a)) = Some (pa_hasPower a \<and> pa_bestBudgetSNR a \<ge> f cw)"
    "map_option (\<lambda>a. (va_ZScore a, va_Confidence a)) (sc_Atypical (v2SourceCellOf ssb cw minutes slot th False clim ((key, ''wspr''), a))) =
     (case clim ''wspr'' (fst key) (snd key) slot of None \<Rightarrow> None
      | Some b \<Rightarrow> (case zAgainst b (pa_spotCount a) minutes of None \<Rightarrow> None
          | Some z \<Rightarrow> if z \<ge> th then Some (round3 z, round3 (atypicalConfidence (cl_SampleDays b))) else None))"
  by (auto simp: v2SourceCellOf_def wspr_by_name openFlags_def reaches_def overrideFloor_def wsprProfile_def f_def Let_def
      split: prod.split option.split)

definition same_reading :: "propIntelCell \<Rightarrow> v2SourceCell \<Rightarrow> bool" where
  \<comment> \<open>the count, the slope and the SSB flag\<close>
  "same_reading one two \<longleftrightarrow> pc_SpotCount one = sc_SpotCount two \<and> pc_Rising one = sc_Rising two \<and>
     Some (pc_SSBOpen one) = sc_SSBOpen two"

definition same_surge :: "propIntelCell \<Rightarrow> v2SourceCell \<Rightarrow> bool" where
  "same_surge one two \<longleftrightarrow> map_option (\<lambda>a. (at_ZScore a, at_Confidence a)) (pc_Atypical one) = map_option (\<lambda>a. (va_ZScore a, va_Confidence a)) (sc_Atypical two)"

lemma versions_agree:
  fixes qth surroundings minutes ps now ms
  defines "p \<equiv> v2Request qth surroundings minutes ps now None False"
  defines "cells1 \<equiv> fst (scanPropIntelWindow ms (sp_qthSet p) now (sp_cutoff p) (sp_midpoint p))"
    and "cells2 \<equiv> vc_accs (scanPropIntelV2WindowMode p ms)"
  assumes "set ps \<subseteq> set propIntelSourceProfiles" "distinct (map pf_PublicName ps)" "''wspr'' \<in> set (map pf_PublicName ps)"
    and "bi < 13" "ri < 11"
  shows "map_of cells1 (cellName bi ri) = None \<longleftrightarrow> map_of cells2 (cellName bi ri, ''wspr'') = None"
    "map_of cells1 (cellName bi ri) = Some c \<Longrightarrow> map_of cells2 (cellName bi ri, ''wspr'') = Some a \<Longrightarrow>
      same_reading (v1Cell floor1 minutes slot th wc ft8 (cellName bi ri, c))
        (v2SourceCellOf None cw minutes slot th w clim ((cellName bi ri, ''wspr''), a)) \<and>
      (\<not> w \<and> wc (fst (cellName bi ri)) (snd (cellName bi ri)) slot = clim ''wspr'' (fst (cellName bi ri)) (snd (cellName bi ri)) slot \<longrightarrow>
        same_surge (v1Cell floor1 minutes slot th wc ft8 (cellName bi ri, c))
          (v2SourceCellOf None cw minutes slot th w clim ((cellName bi ri, ''wspr''), a)))"
    "map_of cells1 (cellName bi ri) = Some c \<Longrightarrow> map_of cells2 (cellName bi ri, ''wspr'') = Some a \<Longrightarrow>
      pc_CWOpen (v1Cell (of_int floor2) minutes slot th wc ft8 (cellName bi ri, c)) \<longleftrightarrow>
        sc_CWOpen (v2SourceCellOf None (Some floor2) minutes slot th w clim ((cellName bi ri, ''wspr''), a)) = Some True \<or>
        floor2 \<le> 0 \<and> (\<exists>h \<in> set (cellHits1 (sp_qthSet p) now (sp_cutoff p) ms bi ri). TXPower (fst h) > 0)"
proof -
  have fields: "sp_profiles p = ps" "\<not> sp_fromHereOnly p" "sp_matchArea p = None" "sp_now p = now"
    by (simp_all add: p_def v2Request_def Let_def)
  obtain si where si: "profileIndex ps ''wspr'' = Some si" "si < length ps" "ps ! si = wsprProfile"
    using wspr_index [OF assms(4,6)] .
  then have name: "pf_PublicName (sp_profiles p ! si) = ''wspr''" and power: "pf_HasTXPower (sp_profiles p ! si)"
    by (simp_all add: fields wsprProfile_def)
  let ?h1 = "cellHits1 (sp_qthSet p) now (sp_cutoff p) ms bi ri"
  have "map (\<lambda>h. (sh_msg h, sh_matched h)) (sourceHits p ms bi ri si) = map (\<lambda>(m, isRecv, matched). (m, matched)) ?h1"
    using scans_agree [of p si ms bi ri] si fields by (simp add: wsprProfile_def)
  from arg_cong [OF this, of "map fst"] have msgs: "map sh_msg (sourceHits p ms bi ri si) = map fst ?h1"
    by (simp add: comp_def case_prod_unfold)
  then have empty: "sourceHits p ms bi ri si = [] \<longleftrightarrow> ?h1 = []" by (metis map_is_Nil_conv)
  have one: "map_of cells1 (cellName bi ri) = (if ?h1 = [] then None else Some (foldl (\<lambda>a x. tallyCell (sp_midpoint p) x a) zeroCell ?h1))"
    unfolding cells1_def v1_accs [OF assms(7,8)] by (auto split: list.split)
  have two: "map_of cells2 (cellName bi ri, ''wspr'') =
      (if ?h1 = [] then None else Some (foldl (\<lambda>a m. tallySpot (sp_profiles p ! si) (sp_midpoint p) m a) zeroAcc (map fst ?h1)))"
    using scan_is_exact(1) [of p bi ri si ms] assms(5,7,8) si(2) name
    unfolding cells2_def fields accOf_def msgs empty by (simp only: if_True)
  show "map_of cells1 (cellName bi ri) = None \<longleftrightarrow> map_of cells2 (cellName bi ri, ''wspr'') = None" by (simp add: one two)
  note together = tallied_together [OF power, of "sp_midpoint p" ?h1]
  {
    assume "map_of cells1 (cellName bi ri) = Some c" "map_of cells2 (cellName bi ri, ''wspr'') = Some a"
    then have ca: "c = foldl (\<lambda>a x. tallyCell (sp_midpoint p) x a) zeroCell ?h1"
      "a = foldl (\<lambda>a m. tallySpot (sp_profiles p ! si) (sp_midpoint p) m a) zeroAcc (map fst ?h1)"
      by (simp_all add: one two split: if_splits)
    note figures = together [folded ca]
    have "same_surge (v1Cell floor1 minutes slot th wc ft8 (cellName bi ri, c))
        (v2SourceCellOf None cw minutes slot th False clim ((cellName bi ri, ''wspr''), a))"
      if "wc (fst (cellName bi ri)) (snd (cellName bi ri)) slot = clim ''wspr'' (fst (cellName bi ri)) (snd (cellName bi ri)) slot"
      unfolding same_surge_def v1Cell_fields v2Cell_fields figures that ..
    then show "same_reading (v1Cell floor1 minutes slot th wc ft8 (cellName bi ri, c))
        (v2SourceCellOf None cw minutes slot th w clim ((cellName bi ri, ''wspr''), a)) \<and>
      (\<not> w \<and> wc (fst (cellName bi ri)) (snd (cellName bi ri)) slot = clim ''wspr'' (fst (cellName bi ri)) (snd (cellName bi ri)) slot \<longrightarrow>
        same_surge (v1Cell floor1 minutes slot th wc ft8 (cellName bi ri, c))
          (v2SourceCellOf None cw minutes slot th w clim ((cellName bi ri, ''wspr''), a)))"
      unfolding same_reading_def v1Cell_fields v2Cell_fields figures by (cases w) auto
    have "pa_hasPower a \<longleftrightarrow> (\<exists>h \<in> set ?h1. TXPower (fst h) > 0)"
      unfolding ca(2) tallied(4) using power by auto
    then show "pc_CWOpen (v1Cell (of_int floor2) minutes slot th wc ft8 (cellName bi ri, c)) \<longleftrightarrow>
        sc_CWOpen (v2SourceCellOf None (Some floor2) minutes slot th w clim ((cellName bi ri, ''wspr''), a)) = Some True \<or>
        floor2 \<le> 0 \<and> (\<exists>h \<in> set ?h1. TXPower (fst h) > 0)"
      unfolding v1Cell_fields v2Cell_fields figures by (auto simp: le_max_iff_disj)
  }
qed

section \<open>The trend\<close>

definition trendHits :: "propProfile list \<Rightarrow> fromHereMatcher \<Rightarrow> int \<Rightarrow> MQTTMessage \<Rightarrow> (nat \<times> nat \<times> nat) list" where
  \<comment> \<open>the cells and bins a message counts in\<close>
  "trendHits ps fhm now m =
     (if T m > now \<or> T m < now - 3600 \<or> feedBandIndex (B m) < 0 then []
      else case trendSide ps m of None \<Rightarrow> []
           | Some side \<Rightarrow> let (a, b) = fm_ends fhm m side
               in List.map_filter (\<lambda>loc. map_option (\<lambda>ri. (nat (feedBandIndex (B m)), ri, trendBin (now - 3600) m)) (rawRegionOf loc))
                    (filter (\<lambda>l. l \<noteq> []) [a, b]))"

definition trendIndex :: "nat \<times> nat \<times> nat \<Rightarrow> nat" where
  "trendIndex h = (fst h * 11 + fst (snd h)) * 12 + snd (snd h)"

lemma trend_consts [simp]: "fromHereTrendBins = 12" "fromHereTrendBinSec = 300"
  by (simp_all add: fromHereTrendBins_def fromHereTrendBinSec_def)

lemma trendBin_range: "trendBin start m < 12"
  by (simp add: trendBin_def Let_def)

lemma trendEnd_hit:
  assumes "memo_ok (ts_memo st)"
  shows "memo_ok (ts_memo (trendEnd bi bin st loc)) \<and> ts_counts (trendEnd bi bin st loc) =
    foldl (\<lambda>xs h. if True then updAt (trendIndex h) Suc xs else xs) (ts_counts st)
      (List.map_filter (\<lambda>loc. map_option (\<lambda>ri. (bi, ri, bin)) (rawRegionOf loc)) (filter (\<lambda>l. l \<noteq> []) [loc]))"
proof -
  obtain memo ri where g: "memoGet (ts_memo st) loc = (memo, ri)" by (cases "memoGet (ts_memo st) loc")
  with memoGet_ok [OF assms, of loc] have "memo_ok memo" "ri = rawRegionOf loc" by simp_all
  with assms g show ?thesis by (cases "rawRegionOf loc") (simp_all add: trendEnd_def trendIndex_def Let_def)
qed

lemma trendMessage_hits:
  assumes "memo_ok (ts_memo st)"
  shows "memo_ok (ts_memo (trendMessage ps fhm now st m)) \<and> ts_counts (trendMessage ps fhm now st m) =
    foldl (\<lambda>xs h. if True then updAt (trendIndex h) Suc xs else xs) (ts_counts st) (trendHits ps fhm now m)"
proof (cases "trendSide ps m")
  case (Some side)
  obtain a b where e: "fm_ends fhm m side = (a, b)" by (cases "fm_ends fhm m side")
  let ?bi = "nat (feedBandIndex (B m))" and ?bin = "trendBin (now - 3600) m"
  note one = trendEnd_hit [OF assms, of ?bi ?bin a]
  note two = trendEnd_hit [OF one [THEN conjunct1], of ?bi ?bin b]
  show ?thesis
    using assms one two Some e
    by (cases "a = []"; cases "b = []"; cases "rawRegionOf a"; cases "rawRegionOf b")
      (simp_all add: trendMessage_def trendHits_def Let_def)
qed (simp_all add: trendMessage_def trendHits_def assms Let_def)

lemma trend_hits:
  "memo_ok (ts_memo st) \<Longrightarrow> ts_counts (foldl (trendMessage ps fhm now) st ms) =
    foldl (\<lambda>xs h. if True then updAt (trendIndex h) Suc xs else xs) (ts_counts st) (concat (map (trendHits ps fhm now) ms))"
proof (induction ms arbitrary: st)
  case (Cons m ms)
  show ?case
    using Cons.IH [of "trendMessage ps fhm now st m"] trendMessage_hits [OF Cons.prems, of ps fhm now m] by simp
qed simp

lemma suc_fold: "foldl (\<lambda>a h. Suc a) n hs = n + length hs"
  by (induction hs arbitrary: n) simp_all

lemma trendHits_range: "h \<in> set (trendHits ps fhm now m) \<Longrightarrow> fst h < 13 \<and> fst (snd h) < 11 \<and> snd (snd h) < 12"
  using feedBand_range region_range trendBin_range
  by (auto simp: trendHits_def List.map_filter_def split: if_splits option.splits prod.splits)

lemma trendIndex_inj:
  assumes "fst (snd h) < 11" "snd (snd h) < 12" "ri < 11" "k < 12"
  shows "trendIndex h = (bi * 11 + ri) * 12 + k \<longleftrightarrow> fst h = bi \<and> fst (snd h) = ri \<and> snd (snd h) = k"
  unfolding trendIndex_def flat_index [OF assms(2,4)] using flat_index [OF assms(1,3), of "fst h" bi] by blast

lemma trend_counts:
  assumes "bi < 13" "ri < 11" "k < 12"
  shows "ts_counts (foldl (trendMessage ps fhm now) \<lparr>ts_counts = replicate (nBands * nRegions * fromHereTrendBins) 0, ts_memo = []\<rparr> ms)
      ! ((bi * 11 + ri) * 12 + k) =
    length (filter (\<lambda>h. fst h = bi \<and> fst (snd h) = ri \<and> snd (snd h) = k) (concat (map (trendHits ps fhm now) ms)))"
proof -
  have f: "filter (\<lambda>h. trendIndex h = (bi * 11 + ri) * 12 + k) (concat (map (trendHits ps fhm now) ms)) =
    filter (\<lambda>h. fst h = bi \<and> fst (snd h) = ri \<and> snd (snd h) = k) (concat (map (trendHits ps fhm now) ms))"
    by (rule filter_cong [OF refl]) (use trendIndex_inj assms trendHits_range in auto)
  have "bi * 11 + ri < 143" using assms by linarith
  then have "(bi * 11 + ri) * 12 + k < 1716" using assms(3) by presburger
  moreover have "memo_ok []" by (simp add: memo_ok_def)
  ultimately show ?thesis
    unfolding f [symmetric] by (subst trend_hits, simp, subst scatter) (simp_all add: suc_fold)
qed

lemma count_tail:
  \<comment> \<open>the last \<open>k\<close> bins hold the hits of those bins\<close>
  assumes "\<forall>h\<in>set hs. g h < n"
  shows "sum_list (drop d (map (\<lambda>j. length (filter (\<lambda>h. g h = j) hs)) [0..<n])) = length (filter (\<lambda>h. d \<le> g h) hs)"
  using assms
proof (induction hs)
  case (Cons h hs)
  have one: "sum_list (map (\<lambda>j. if g h = j then 1 else 0) [d..<n]) = (if d \<le> g h then 1 else 0 :: nat)"
    using Cons.prems by (simp add: sum_list_distinct_conv_sum_set sum.delta')
  have "sum_list (map (\<lambda>j. length (filter (\<lambda>h. g h = j) (h # hs))) [d..<n]) =
    sum_list (map (\<lambda>j. (if g h = j then 1 else 0) + length (filter (\<lambda>h. g h = j) hs)) [d..<n])"
    by (rule arg_cong [where f = sum_list], rule map_cong) auto
  also have "\<dots> = (if d \<le> g h then 1 else 0) + length (filter (\<lambda>h. d \<le> g h) hs)"
    unfolding sum_list_addf one using Cons by (simp add: drop_map)
  finally show ?case by (simp add: drop_map)
qed (simp add: drop_map)

lemma trend_side:
  assumes "distinct (map pf_InternalTag ps)"
  shows "trendSide ps m = (if sourceTag m = ''mqtt'' \<or> sourceTag m = ''dxcluster''
    then map_option (\<lambda>si. pf_ReceiverSide (ps ! si)) (profileIndex ps (sourceTag m)) else None)"
proof -
  have "foldl (\<lambda>s p. if pf_InternalTag p = tag then Some (pf_ReceiverSide p) else s) s ps =
      (case profileIndex ps tag of Some si \<Rightarrow> Some (pf_ReceiverSide (ps ! si)) | None \<Rightarrow> s)" for tag s
    using assms
  proof (induction ps arbitrary: s)
    case (Cons p ps)
    have "profileIndex ps tag = None" if "pf_InternalTag p = tag"
      using that Cons.prems profileIndex_ex [of ps tag] by (metis distinct.simps(2) image_eqI list.set_map list.simps(9))
    with Cons show ?case by (auto split: option.split)
  qed simp
  then show ?thesis by (auto simp: trendSide_def split: option.split)
qed

lemma trend_message_agrees:
  assumes "sp_fromHereOnly p" "distinct (map pf_InternalTag (sp_profiles p))" "1 \<le> k" "k \<le> 12" "sp_cutoff p = sp_now p - 300 * int k"
  shows "length (filter (\<lambda>h. fst h = bi \<and> fst (snd h) = ri \<and> 12 - k \<le> snd (snd h))
      (trendHits (sp_profiles p) (newFromHereMatcher (sp_qthSet p) (sp_matchArea p)) (sp_now p) m)) =
    length (filter (feedsNormal p) (filter (\<lambda>h. sh_bi h = bi \<and> sh_ri h = ri) (hitsOf p m)))"
proof -
  let ?fhm = "newFromHereMatcher (sp_qthSet p) (sp_matchArea p)"
  consider (out) "T m > sp_now p \<or> T m < sp_now p - 3600 \<or> feedBandIndex (B m) < 0 \<or> trendSide (sp_profiles p) m = None"
    | (old) "T m < sp_cutoff p" "T m \<ge> sp_now p - 3600"
    | (inside) side where "T m \<le> sp_now p" "T m \<ge> sp_cutoff p" "feedBandIndex (B m) \<ge> 0" "trendSide (sp_profiles p) m = Some side"
    by fastforce
  then show ?thesis
  proof cases
    case out
    have cut: "sp_now p - 3600 \<le> sp_cutoff p" using assms(4,5) by linarith
    have "\<not> feedsNormal p h" if h: "h \<in> set (hitsOf p m)" for h
    proof
      assume f: "feedsNormal p h"
      have "sh_msg h = m" using h by (auto simp: hitsOf_def List.map_filter_def split: option.splits prod.splits)
      moreover have "accepted p m \<noteq> None" using h by (cases "accepted p m") (simp_all add: hitsOf_def)
      ultimately have "sh_msg h = m" "accepted p m \<noteq> None" .
      with f out cut show False
        unfolding trend_side [OF assms(2)] by (auto simp: feedsNormal_def accepted_def Let_def split: if_splits option.splits)
    qed
    then have "filter (feedsNormal p) (filter (\<lambda>h. sh_bi h = bi \<and> sh_ri h = ri) (hitsOf p m)) = []" by (auto simp: filter_empty_conv)
    moreover have "trendHits (sp_profiles p) ?fhm (sp_now p) m = []" using out by (auto simp: trendHits_def split: option.split)
    ultimately show ?thesis by simp
  next
    case old
    then have "hitsOf p m = []" by (simp add: hitsOf_def accepted_def)
    moreover have "\<not> 12 - k \<le> trendBin (sp_now p - 3600) m"
    proof -
      have q: "quot (T m - (sp_now p - 3600)) 300 = (T m - (sp_now p - 3600)) div 300" using old by (intro quot_nonneg) simp_all
      have "(T m - (sp_now p - 3600)) div 300 < 12 - int k" using old assms(5) by linarith
      then show ?thesis using old assms(3) by (auto simp: trendBin_def q Let_def)
    qed
    ultimately show ?thesis
      by (auto simp: trendHits_def List.map_filter_def filter_empty_conv split: option.splits prod.splits)
  next
    case inside
    then obtain si where si: "profileIndex (sp_profiles p) (sourceTag m) = Some si" "side = pf_ReceiverSide (sp_profiles p ! si)"
      "sourceTag m = ''mqtt'' \<or> sourceTag m = ''dxcluster''"
      unfolding trend_side [OF assms(2)] by (auto split: if_splits)
    obtain a b where e: "fm_ends ?fhm m side = (a, b)" by (cases "fm_ends ?fhm m side")
    obtain ca cb where c: "fromHereRemoteCalls m side = (ca, cb)" by (cases "fromHereRemoteCalls m side")
    have bin: "12 - k \<le> trendBin (sp_now p - 3600) m"
    proof -
      have q: "quot (T m - (sp_now p - 3600)) 300 = (T m - (sp_now p - 3600)) div 300"
        using inside assms(4,5) by (intro quot_nonneg) simp_all
      have "12 - int k \<le> (T m - (sp_now p - 3600)) div 300" using inside assms(5) by linarith
      then show ?thesis using assms(3) by (auto simp: trendBin_def q Let_def)
    qed
    have "\<not> T m < sp_now p - 3600" using inside(2) assms(4,5) by linarith
    then have th: "trendHits (sp_profiles p) ?fhm (sp_now p) m =
      List.map_filter (\<lambda>loc. map_option (\<lambda>ri. (nat (feedBandIndex (B m)), ri, trendBin (sp_now p - 3600) m)) (rawRegionOf loc))
        (filter (\<lambda>l. l \<noteq> []) [a, b])"
      using inside e by (simp add: trendHits_def)
    have acc: "accepted p m = Some (si, nat (feedBandIndex (B m)))" using inside si(1) by (simp add: accepted_def Let_def)
    show ?thesis
      unfolding th using bin e c si(2,3) assms(1)
      by (cases "a = []"; cases "b = []"; cases "rawRegionOf a"; cases "rawRegionOf b")
        (simp_all add: hitsOf_def acc scanEnds_def feedsNormal_def)
  qed
qed

lemma trend_is_live_count:
  assumes "sp_fromHereOnly p" "distinct (map pf_PublicName (sp_profiles p))" "distinct (map pf_InternalTag (sp_profiles p))"
    and "1 \<le> k" "k \<le> 12" "sp_cutoff p = sp_now p - 300 * int k" "bi < 13" "ri < 11"
  shows "sum_list (drop (12 - k) (case map_of (fromHereTrend ms (sp_profiles p) (sp_qthSet p) (sp_matchArea p) (sp_now p)) (cellName bi ri) of
        Some t \<Rightarrow> t | None \<Rightarrow> replicate 12 0)) =
    spotsOf (vc_normalSpots (scanPropIntelV2WindowMode p ms)) (cellName bi ri)"
proof -
  define fhm where "fhm = newFromHereMatcher (sp_qthSet p) (sp_matchArea p)"
  define hs where "hs = concat (map (trendHits (sp_profiles p) fhm (sp_now p)) ms)"
  define mine where "mine = filter (\<lambda>h. fst h = bi \<and> fst (snd h) = ri) hs"
  define st where "st = foldl (trendMessage (sp_profiles p) fhm (sp_now p))
    \<lparr>ts_counts = replicate (nBands * nRegions * fromHereTrendBins) 0, ts_memo = []\<rparr> ms"
  define row where "row = map (\<lambda>j. length (filter (\<lambda>h. snd (snd h) = j) mine)) [0..<12]"
  have row: "trendOfCell (ts_counts st) bi ri = row"
    unfolding trendOfCell_def row_def trend_consts
  proof (rule map_cong [OF refl])
    fix j assume "j \<in> set [0..<12]"
    then show "ts_counts st ! ((bi * nRegions + ri) * 12 + j) = length (filter (\<lambda>h. snd (snd h) = j) mine)"
      using trend_counts [OF assms(7,8), of j "sp_profiles p" fhm "sp_now p" ms]
      unfolding st_def mine_def hs_def filter_filter by (simp add: conj_ac)
  qed
  have range: "\<forall>h\<in>set mine. snd (snd h) < 12" using trendHits_range by (auto simp: mine_def hs_def)
  have live: "sum_list (drop (12 - k) row) = length (filter (feedsNormal p) (cellHits p ms bi ri))"
  proof -
    have "length (filter (\<lambda>h. 12 - k \<le> snd (snd h)) mine) = length (filter (feedsNormal p) (cellHits p ms bi ri))"
      unfolding mine_def hs_def cellHits_def allHits_def fhm_def filter_filter
    proof (induction ms)
      case (Cons m ms)
      then show ?case
        using trend_message_agrees [OF assms(1,3,4,5,6), of bi ri m] by (simp add: conj_ac)
    qed simp
    then show ?thesis unfolding row_def count_tail [OF range] .
  qed
  have spots: "spotsOf (vc_normalSpots (scanPropIntelV2WindowMode p ms)) (cellName bi ri) = length (filter (feedsNormal p) (cellHits p ms bi ri))"
    using scan_is_exact(3) [OF assms(2,7,8), of ms] assms(1) by (auto simp: spotsOf_def Let_def)
  show ?thesis
  proof (cases "list_ex (\<lambda>p. pf_InternalTag p = ''mqtt'' \<or> pf_InternalTag p = ''dxcluster'') (sp_profiles p)")
    case False
    have "trendSide (sp_profiles p) m = None" for m
      unfolding trend_side [OF assms(3)] using False profileIndex_ex [of "sp_profiles p" "sourceTag m"] by (auto simp: list_ex_iff)
    then have "mine = []" by (simp add: mine_def hs_def trendHits_def cong: if_cong)
    then have "sum_list (drop (12 - k) row) = 0" by (auto simp: row_def sum_list_eq_0_iff dest: in_set_dropD)
    with False live spots show ?thesis by (simp add: fromHereTrend_def sum_list_eq_0_iff)
  next
    case True
    have "map_of (fromHereTrend ms (sp_profiles p) (sp_qthSet p) (sp_matchArea p) (sp_now p)) (cellName bi ri) =
      (if list_ex (\<lambda>v. v > 0) row then Some row else None)"
      using True cell_map [OF assms(7,8), of "\<lambda>c. trendOfCell (ts_counts st) (fst c) (snd c)"
          "\<lambda>c. list_ex (\<lambda>v. v > 0) (trendOfCell (ts_counts st) (fst c) (snd c))"]
      unfolding fromHereTrend_def Let_def fhm_def [symmetric] st_def [symmetric] by (simp add: row)
    moreover have "sum_list (drop (12 - k) row) = 0" if "\<not> list_ex (\<lambda>v. v > 0) row"
      using that by (auto simp: list_ex_iff sum_list_eq_0_iff dest: in_set_dropD)
    ultimately show ?thesis using live spots by (auto simp: sum_list_eq_0_iff dest: in_set_dropD)
  qed
qed

section \<open>Typed cells\<close>

definition cellTyped :: "v2Cell \<Rightarrow> bool" where
  \<comment> \<open>the rollup is that of the sources listed, and a cell without sources is a silent one\<close>
  "cellTyped c \<longleftrightarrow>
     vx_SpotCount c = sum_list (map sc_SpotCount (vx_PerSource c)) \<and> vx_ActiveSources c = map sc_Source (vx_PerSource c) \<and>
     (vx_Open c \<longleftrightarrow> (\<exists>s\<in>set (vx_PerSource c). sc_Open s)) \<and>
     (vx_SSBOpen c \<longleftrightarrow> (\<exists>s\<in>set (vx_PerSource c). sc_SSBOpen s = Some True)) \<and>
     (vx_CWOpen c \<longleftrightarrow> (\<exists>s\<in>set (vx_PerSource c). sc_CWOpen s = Some True)) \<and>
     0 \<le> vx_OpenAgreement c \<and> vx_OpenAgreement c \<le> 1 \<and> 0 \<le> vx_AtypicalAgreement c \<and> vx_AtypicalAgreement c \<le> 1 \<and>
     (vx_Silent c \<longleftrightarrow> vx_PerSource c = [])"

lemma ratio_range: "0 \<le> round2 (real (length (filter P xs)) / real (length xs))" "round2 (real (length (filter P xs)) / real (length xs)) \<le> 1"
proof -
  have "real (length (filter P xs)) / real (length xs) \<le> 1" by (simp add: divide_le_eq_1)
  then show "0 \<le> round2 (real (length (filter P xs)) / real (length xs))" "round2 (real (length (filter P xs)) / real (length xs)) \<le> 1"
    using round2_range [of "real (length (filter P xs)) / real (length xs)" 1] by simp_all
qed

lemma rollUp_typed:
  assumes "srcs \<noteq> []"
  shows "cellTyped (rollUp key here srcs)"
proof -
  let ?s = "sort_by (\<lambda>a b. sourceOrderIndex (sc_Source a) < sourceOrderIndex (sc_Source b)) srcs"
  have ne: "?s \<noteq> []" using assms by (metis length_0_conv length_sort_by)
  show ?thesis
    unfolding cellTyped_def rollUp_def Let_def
    by (simp add: ne list_ex_iff ratio_range del: set_sort_by length_sort_by)
qed

lemma map_same [simp]: "(\<And>x. x \<in> set xs \<Longrightarrow> f (g x) = f x) \<Longrightarrow> map f (map g xs) = map f xs"
  by simp

lemma typed_marked:
  \<comment> \<open>marking sources leaves the rollup alone\<close>
  fixes c :: v2Cell and g :: "v2SourceCell \<Rightarrow> v2SourceCell"
  assumes "cellTyped c" "\<And>s. sc_Source (g s) = sc_Source s" "\<And>s. sc_SpotCount (g s) = sc_SpotCount s" "\<And>s. sc_Open (g s) = sc_Open s"
    "\<And>s. sc_SSBOpen (g s) = sc_SSBOpen s" "\<And>s. sc_CWOpen (g s) = sc_CWOpen s"
  shows "cellTyped (c\<lparr>vx_PerSource := map g (vx_PerSource c)\<rparr>)"
  using assms by (simp add: cellTyped_def comp_def)

lemma typed_updates [simp]:
  "cellTyped (c\<lparr>vx_Expected := e\<rparr>) = cellTyped c" "cellTyped (c\<lparr>vx_ExpectedSpots := n\<rparr>) = cellTyped c"
  "cellTyped (c\<lparr>vx_Atypical := a\<rparr>) = cellTyped c" "cellTyped (c\<lparr>vx_NormalDay := d\<rparr>) = cellTyped c"
  "cellTyped (c\<lparr>vx_Trend := t\<rparr>) = cellTyped c"
  by (simp_all add: cellTyped_def)

lemma normal_typed:
  assumes "cellTyped c"
  shows "cellTyped (applyFromHereNormal c normals live stations th)"
proof -
  define mark where "mark = (\<lambda>(f :: v2SourceCell \<Rightarrow> v2SourceCell) s. if sc_Source s = ''pskr'' then f s else s)"
  define expected where "expected e n f (c :: v2Cell) =
    c\<lparr>vx_Expected := e, vx_ExpectedSpots := n, vx_PerSource := map (mark f) (vx_PerSource c)\<rparr>" for e n f c
  define surge where "surge a f (c :: v2Cell) = c\<lparr>vx_Atypical := a, vx_PerSource := map (mark f) (vx_PerSource c)\<rparr>" for a f c
  have mark: "cellTyped (c\<lparr>vx_PerSource := map (mark f) (vx_PerSource c)\<rparr>)"
    if "cellTyped c" "\<And>s. sc_Source (f s) = sc_Source s \<and> sc_SpotCount (f s) = sc_SpotCount s \<and> sc_Open (f s) = sc_Open s \<and>
      sc_SSBOpen (f s) = sc_SSBOpen s \<and> sc_CWOpen (f s) = sc_CWOpen s" for f c
    using that by (intro typed_marked) (simp_all add: mark_def)
  have e: "cellTyped (expected a n (\<lambda>s. s\<lparr>sc_SampleDays := d\<rparr>) c)" for a n d
    unfolding expected_def using mark [of "c\<lparr>vx_Expected := a, vx_ExpectedSpots := n\<rparr>" "\<lambda>s. s\<lparr>sc_SampleDays := d\<rparr>"] assms by simp
  have s: "cellTyped (surge a (\<lambda>s. s\<lparr>sc_Atypical := b\<rparr>) x)" if "cellTyped x" for a b x
    unfolding surge_def using mark [of "x\<lparr>vx_Atypical := a\<rparr>" "\<lambda>s. s\<lparr>sc_Atypical := b\<rparr>"] that by simp
  have ag: "cellTyped (x\<lparr>vx_AtypicalAgreement := round2 (real (length (filter P l)) / real (length l))\<rparr>)" if "cellTyped x" for x P and l :: "v2SourceCell list"
    using that by (simp add: cellTyped_def ratio_range)
  show ?thesis
    unfolding applyFromHereNormal_def Let_def
    using e s [OF e] ag [OF s [OF e]] assms
    by (auto simp: expected_def surge_def mark_def split: option.split)
qed

lemma detail_typed: "cellTyped c \<Longrightarrow> cellTyped (applyFromHereDetail fh trend c)"
  by (simp add: applyFromHereDetail_def Let_def split: option.split)

definition cellKeyOf :: "v2Cell \<Rightarrow> cellKey" where "cellKeyOf c = (vx_Band c, vx_Region c)"

lemma keys_kept [simp]:
  "cellKeyOf (rollUp key here srcs) = key" "cellKeyOf (applyFromHereNormal c normals live stations th) = cellKeyOf c"
  "cellKeyOf (applyFromHereDetail fh trend c) = cellKeyOf c"
  by (simp_all add: cellKeyOf_def rollUp_def applyFromHereNormal_def applyFromHereDetail_def Let_def split: option.split)

lemma silent_cells:
  assumes "case normals of Some ns \<Rightarrow> distinct (map fst (ns_ByCell ns)) | None \<Rightarrow> True"
  shows "\<forall>c\<in>set (fromHereSilentCells normals live). cellTyped c \<and> cellKeyOf c \<notin> set live"
    "distinct (map cellKeyOf (fromHereSilentCells normals live))"
proof -
  show "\<forall>c\<in>set (fromHereSilentCells normals live). cellTyped c \<and> cellKeyOf c \<notin> set live"
    by (auto simp: fromHereSilentCells_def List.map_filter_def cellTyped_def cellKeyOf_def split: option.splits if_splits)
  show "distinct (map cellKeyOf (fromHereSilentCells normals live))"
  proof (cases normals)
    case (Some ns)
    have keys: "map cellKeyOf (List.map_filter f xs) = map fst (filter (\<lambda>x. f x \<noteq> None) xs)"
      if "\<And>x c. f x = Some c \<Longrightarrow> cellKeyOf c = fst x" for f and xs :: "(cellKey \<times> fromHereNormal) list"
      using that by (induction xs) (auto split: option.split)
    have "distinct (map fst (filter P (ns_ByCell ns)))" for P using assms Some by (simp add: distinct_map_filter)
    then show ?thesis
      unfolding fromHereSilentCells_def Some option.case
      by (cases "int (ns_SampleDays ns) < propIntelMinSampleDays")
        (simp, simp only: if_False, subst keys, auto simp: cellKeyOf_def split: if_splits prod.splits)
  qed (simp add: fromHereSilentCells_def)
qed

lemma keyBefore_iff: "keyBefore a b \<longleftrightarrow> strLess (fst a) (fst b) \<or> fst a = fst b \<and> strLess (snd a) (snd b)"
  by (auto simp: keyBefore_def dest: strLess_asym)

lemma keys_total: "\<not> keyBefore a b \<Longrightarrow> \<not> keyBefore b a \<Longrightarrow> a = b"
  unfolding keyBefore_iff by (metis prod_eqI strLess_total)

lemma keys_asym: "keyBefore a b \<Longrightarrow> \<not> keyBefore b a"
  unfolding keyBefore_iff by (metis strLess_asym)

lemma keys_trans: "keyBefore a b \<Longrightarrow> keyBefore b c \<Longrightarrow> keyBefore a c"
  unfolding keyBefore_iff using strLess_trans [of "fst a" "fst b" "fst c"] strLess_trans [of "snd a" "snd b" "snd c"] by auto

interpretation keys: weak_order keyBefore
proof unfold_locales
  show "\<not> keyBefore c a" if "\<not> keyBefore b a" "\<not> keyBefore c b" for a b c
    using that keys_total [of b a] keys_total [of c b] keys_trans [of c a b] keys_asym [of c b] by blast
qed (rule keys_asym)

lemma insert_by_on: "insert_by lt (f x) (map f ys) = map f (insert_by (\<lambda>a b. lt (f a) (f b)) x ys)"
  by (induction ys) simp_all

lemma sort_by_on: "sort_by lt (map f xs) = map f (sort_by (\<lambda>a b. lt (f a) (f b)) xs)"
  by (induction xs) (simp_all add: insert_by_on)

lemma strictly_sorted: "distinct xs \<Longrightarrow> sorted_wrt (\<lambda>a b. \<not> keyBefore b a) xs \<Longrightarrow> sorted_wrt keyBefore xs"
  by (induction xs) (auto dest: keys_total)

lemma sorted_once:
  \<comment> \<open>sorting cells with different keys gives a strictly increasing list\<close>
  assumes "distinct (map cellKeyOf cs)"
  shows "sorted_wrt keyBefore (map cellKeyOf (sort_by (\<lambda>a b. keyBefore (vx_Band a, vx_Region a) (vx_Band b, vx_Region b)) cs))"
proof -
  have e: "map cellKeyOf (sort_by (\<lambda>a b. keyBefore (vx_Band a, vx_Region a) (vx_Band b, vx_Region b)) cs) =
      sort_by keyBefore (map cellKeyOf cs)"
    unfolding sort_by_on by (simp add: cellKeyOf_def)
  have "distinct (sort_by keyBefore (map cellKeyOf cs))" using assms by (metis mset_eq_imp_distinct_iff mset_sort_by)
  then show ?thesis unfolding e using keys.sorted by (rule strictly_sorted)
qed

lemma v2Cells_typed:
  "\<forall>c\<in>set (v2Cells ssb cw minutes slot th w clim counts fh sel trend). cellTyped c"
  "map cellKeyOf (v2Cells ssb cw minutes slot th w clim counts fh sel trend) = liveCells counts"
proof -
  have "filter (\<lambda>ka. fst (fst ka) = key) (vc_accs counts) \<noteq> []" if "key \<in> set (liveCells counts)" for key
    using that by (auto simp: liveCells_def filter_empty_conv)
  then have "cellTyped (rollUp key here (map f (filter (\<lambda>ka. fst (fst ka) = key) (vc_accs counts))))"
    if "key \<in> set (liveCells counts)" for key here f using that by (simp add: rollUp_typed)
  then show "\<forall>c\<in>set (v2Cells ssb cw minutes slot th w clim counts fh sel trend). cellTyped c"
    by (auto simp: v2Cells_def Let_def normal_typed detail_typed split: option.split)
  have "map cellKeyOf (v2Cells ssb cw minutes slot th w clim counts fh sel trend) = map (\<lambda>key. key) (liveCells counts)"
    unfolding v2Cells_def map_map by (rule map_cong) (auto simp: Let_def split: option.split)
  then show "map cellKeyOf (v2Cells ssb cw minutes slot th w clim counts fh sel trend) = liveCells counts" by simp
qed

lemma response_typed:
  fixes qth surroundings minutes ps ssb cw ms now th area baseline fh
  assumes "\<And>f ns. fh = Some f \<Longrightarrow> fh_normals f = Some ns \<Longrightarrow> distinct (map fst (ns_ByCell ns))"
  defines "cells \<equiv> vr_Cells (evaluateV2 qth surroundings minutes ps ssb cw ms now th area baseline fh)"
  shows "\<forall>c\<in>set cells. cellTyped c" "sorted_wrt keyBefore (map cellKeyOf cells)"
proof -
  define silent where "silent counts sel trend = (case fh of Some f \<Rightarrow>
      if fh_withSilent f \<and> sel then map (applyFromHereDetail f trend) (fromHereSilentCells (fh_normals f) (liveCells counts)) else []
    | None \<Rightarrow> [])" for counts :: v2Counts and sel trend
  have silent: "\<forall>c\<in>set (silent counts sel trend). cellTyped c \<and> cellKeyOf c \<notin> set (liveCells counts)"
    "distinct (map cellKeyOf (silent counts sel trend))" for counts sel trend
  proof -
    have n: "case fh_normals f of Some ns \<Rightarrow> distinct (map fst (ns_ByCell ns)) | None \<Rightarrow> True" if "fh = Some f" for f
      using assms(1) [OF that] by (auto split: option.split)
    show "\<forall>c\<in>set (silent counts sel trend). cellTyped c \<and> cellKeyOf c \<notin> set (liveCells counts)"
      using silent_cells(1) [OF n] by (auto simp: silent_def detail_typed split: option.splits)
    show "distinct (map cellKeyOf (silent counts sel trend))"
      using silent_cells(2) [OF n] by (auto simp: silent_def comp_def split: option.splits)
  qed
  have "cells = [] \<or> (\<exists>ssb cw minutes slot th w clim counts sel trend. cells =
      sort_by (\<lambda>a b. keyBefore (vx_Band a, vx_Region a) (vx_Band b, vx_Region b))
        (v2Cells ssb cw minutes slot th w clim counts fh sel trend @ silent counts sel trend))"
  proof (cases "normalizeQTHToken qth = []")
    case False
    show ?thesis
      unfolding cells_def evaluateV2_def Let_def silent_def if_not_P [OF False] propIntelV2Response.simps
      by (rule disjI2, (rule exI)+, rule refl)
  qed (simp add: cells_def evaluateV2_def Let_def)
  then have "(\<forall>c\<in>set cells. cellTyped c) \<and> sorted_wrt keyBefore (map cellKeyOf cells)"
  proof (elim disjE exE)
    fix ssb cw minutes slot th w clim counts sel trend
    let ?cs = "v2Cells ssb cw minutes slot th w clim counts fh sel trend @ silent counts sel trend"
    assume e: "cells = sort_by (\<lambda>a b. keyBefore (vx_Band a, vx_Region a) (vx_Band b, vx_Region b)) ?cs"
    have typed: "\<forall>c\<in>set cells. cellTyped c" unfolding e set_sort_by using v2Cells_typed(1) silent(1) by auto
    have "distinct (liveCells counts)" by (simp add: liveCells_def)
    moreover have "set (liveCells counts) \<inter> cellKeyOf ` set (silent counts sel trend) = {}"
      using silent(1) [of counts sel trend] by blast
    ultimately have "distinct (map cellKeyOf ?cs)"
      using silent(2) [of counts sel trend] by (simp only: map_append v2Cells_typed(2) distinct_append set_map)
    then have "sorted_wrt keyBefore (map cellKeyOf cells)" unfolding e by (rule sorted_once)
    with typed show ?thesis ..
  qed simp_all
  then show "\<forall>c\<in>set cells. cellTyped c" "sorted_wrt keyBefore (map cellKeyOf cells)" by simp_all
qed

end
