(* ===== verification/Calendar.thy ===== *)
theory Calendar
  imports Prelude Baseline
begin

text \<open>
  Civil dates in UTC, as the almanac uses Go's \<open>time\<close> package: the year, month and day of a day
  index (days since 1970-01-01), \<open>time.Date\<close> with its normalisation of months and days, and the
  helpers of almanac_season.go and almanac_fold.go on year-month numbers such as 202609.
\<close>

section \<open>The proleptic Gregorian calendar\<close>

definition leapYear :: "int \<Rightarrow> bool" where
  "leapYear y \<longleftrightarrow> y mod 4 = 0 \<and> (y mod 100 \<noteq> 0 \<or> y mod 400 = 0)"

definition yearDays :: "int \<Rightarrow> int" where
  "yearDays y = (if leapYear y then 366 else 365)"

definition monthLens :: "int \<Rightarrow> int list" where
  "monthLens y = [31, if leapYear y then 29 else 28, 31, 30, 31, 30, 31, 31, 30, 31, 30, 31]"

function yearOf :: "int \<Rightarrow> int \<Rightarrow> int \<times> int" where
  \<comment> \<open>the year that is \<open>d\<close> days after the start of year \<open>y\<close>, and the days left in it\<close>
  "yearOf y d = (if d < 0 then yearOf (y - 1) (d + yearDays (y - 1))
     else if d < yearDays y then (y, d) else yearOf (y + 1) (d - yearDays y))"
  by auto

termination
  by (relation "measure (\<lambda>(y, d). nat (if d < 0 then 400 - d else d))") (auto simp: yearDays_def split: if_splits)

declare yearOf.simps [simp del]

fun monthOf :: "int \<Rightarrow> int \<Rightarrow> int list \<Rightarrow> int \<times> int" where
  \<comment> \<open>the month and its day, counting from month \<open>m\<close>\<close>
  "monthOf m d [] = (m, d + 1)"
| "monthOf m d (l # ls) = (if d < l then (m, d + 1) else monthOf (m + 1) (d - l) ls)"

definition civil :: "int \<Rightarrow> int \<times> int \<times> int" where
  \<comment> \<open>\<open>Year()\<close>, \<open>Month()\<close>, \<open>Day()\<close> of a day index\<close>
  "civil day = (let (y, r) = yearOf 1970 day in (y, monthOf 1 r (monthLens y)))"

definition leapsTo :: "int \<Rightarrow> int" where
  "leapsTo y = y div 4 - y div 100 + y div 400"

definition yearStart :: "int \<Rightarrow> int" where
  "yearStart y = 365 * (y - 1970) + leapsTo (y - 1) - leapsTo 1969"

definition dateIndex :: "int \<Rightarrow> int \<Rightarrow> int \<Rightarrow> int" where
  \<comment> \<open>the day index of \<open>time.Date(y, m, d, ...)\<close>, months and days normalised\<close>
  "dateIndex y m d =
     (let y' = y + (m - 1) div 12; k = nat ((m - 1) mod 12)
      in yearStart y' + sum_list (take k (monthLens y')) + d - 1)"

section \<open>Year-month numbers\<close>

definition almanacYearMonthDOM :: "int \<Rightarrow> int \<times> nat" where
  "almanacYearMonthDOM day = (let (y, m, d) = civil day in (y * 100 + m, nat d))"

definition almanacYMAdd :: "int \<Rightarrow> int \<Rightarrow> int" where
  "almanacYMAdd ym delta =
     (let idx = quot ym 100 * 12 + (rem ym 100 - 1) + delta in quot idx 12 * 100 + rem idx 12 + 1)"

definition almanacYMFirstDay :: "int \<Rightarrow> int" where
  "almanacYMFirstDay ym = dateIndex (quot ym 100) (rem ym 100) 1"

definition almanacYMDays :: "int \<Rightarrow> int" where
  "almanacYMDays ym = snd (snd (civil (dateIndex (quot ym 100) (rem ym 100 + 1) 0)))"

section \<open>Facts\<close>

lemma div_step: "0 < n \<Longrightarrow> y div n = (y - 1) div n + (if y mod n = 0 then 1 else 0)" for y n :: int
proof -
  assume n: "0 < n"
  define q r where "q = y div n" and "r = y mod n"
  have y: "y = n * q + r" and r: "0 \<le> r" "r < n" using n by (simp_all add: q_def r_def)
  have "(y - 1) div n = (if r = 0 then q - 1 else q)"
  proof (cases "r = 0")
    case True
    then have "y - 1 = n * (q - 1) + (n - 1)" using y by (simp add: algebra_simps)
    then show ?thesis using True n by (simp add: int_div_pos_eq)
  next
    case False
    then show ?thesis using y r by (intro trans [OF int_div_pos_eq [of "y - 1" n q "r - 1"]]) simp_all
  qed
  then show ?thesis by (simp add: q_def r_def)
qed

lemma leapsTo_step: "leapsTo y = leapsTo (y - 1) + (if leapYear y then 1 else 0)"
proof -
  have "100 dvd y \<Longrightarrow> 4 dvd y" "400 dvd y \<Longrightarrow> 100 dvd y"
    by (erule dvd_trans [rotated], simp)+
  then have m: "y mod 100 = 0 \<Longrightarrow> y mod 4 = 0" "y mod 400 = 0 \<Longrightarrow> y mod 100 = 0"
    by (simp_all only: dvd_eq_mod_eq_0)
  have count: "(A + (if P then 1 else 0)) - (B + (if Q then 1 else 0)) + (C + (if R then 1 else 0)) =
      A - B + C + (if P \<and> (\<not> Q \<or> R) then 1 else (0::int))" if "Q \<Longrightarrow> P" "R \<Longrightarrow> Q" for A B C P Q R
    using that by (cases P; cases Q; cases R) simp_all
  show ?thesis
    unfolding leapsTo_def leapYear_def
    by (subst div_step [of 4 y], simp, subst div_step [of 100 y], simp, subst div_step [of 400 y], simp, rule count)
      (erule m)+
qed

lemma yearStart_Suc: "yearStart (y + 1) = yearStart y + yearDays y"
  unfolding yearStart_def yearDays_def using leapsTo_step [of y] by simp

lemma yearDays_pos: "365 \<le> yearDays y"
  by (simp add: yearDays_def)

lemma yearOf_spec: "yearOf y d = (y', r) \<Longrightarrow> yearStart y + d = yearStart y' + r \<and> 0 \<le> r \<and> r < yearDays y'"
proof (induction y d rule: yearOf.induct)
  case (1 y d)
  have "yearStart (y - 1 + 1) = yearStart (y - 1) + yearDays (y - 1)" by (rule yearStart_Suc)
  then show ?case
    using 1 yearStart_Suc [of y] by (subst (asm) yearOf.simps) (auto split: if_splits)
qed

lemma monthLens_facts: "length (monthLens y) = 12" "sum_list (monthLens y) = yearDays y" "\<forall>l\<in>set (monthLens y). 28 \<le> l \<and> l \<le> 31"
  by (simp_all add: monthLens_def yearDays_def)

lemma monthOf_spec:
  "0 \<le> d \<Longrightarrow> d < sum_list ls \<Longrightarrow> monthOf m d ls = (m', d') \<Longrightarrow>
     \<exists>k. k < length ls \<and> m' = m + int k \<and> d = sum_list (take k ls) + d' - 1 \<and> 1 \<le> d' \<and> d' \<le> ls ! k"
proof (induction ls arbitrary: m d)
  case (Cons l ls)
  show ?case
  proof (cases "d < l")
    case True
    with Cons.prems show ?thesis by (intro exI [of _ 0]) auto
  next
    case False
    with Cons.IH [of "d - l" "m + 1"] Cons.prems
    obtain k where "k < length ls" "m' = m + 1 + int k" "d - l = sum_list (take k ls) + d' - 1" "1 \<le> d'" "d' \<le> ls ! k"
      by auto
    then show ?thesis by (intro exI [of _ "Suc k"]) auto
  qed
qed simp

lemma civil_spec:
  assumes "civil day = (y, m, d)"
  shows "1 \<le> m" "m \<le> 12" "1 \<le> d" "d \<le> monthLens y ! nat (m - 1)" "d \<le> 31" "dateIndex y m d = day"
proof -
  obtain r where r: "yearOf 1970 day = (y, r)" "monthOf 1 r (monthLens y) = (m, d)"
    using assms by (auto simp: civil_def Let_def split: prod.splits)
  note ys = yearOf_spec [OF r(1)]
  obtain k where k: "k < 12" "m = 1 + int k" "r = sum_list (take k (monthLens y)) + d - 1" "1 \<le> d" "d \<le> monthLens y ! k"
    using monthOf_spec [OF _ _ r(2)] ys monthLens_facts by auto
  then show "1 \<le> m" "m \<le> 12" "1 \<le> d" "d \<le> monthLens y ! nat (m - 1)" by simp_all
  show "d \<le> 31" using k monthLens_facts(1,3) [of y] by (metis nth_mem order_trans)
  have "yearStart 1970 = 0" by (simp add: yearStart_def)
  then show "dateIndex y m d = day" using ys k by (simp add: dateIndex_def Let_def)
qed

lemma ym_parts: "1 \<le> m \<Longrightarrow> m \<le> 12 \<Longrightarrow> (y * 100 + m) div 100 = y \<and> (y * 100 + m) mod 100 = m" for y m :: int
  by simp

lemma YearMonthDOM_range: "almanacYearMonthDOM day = (ym, d) \<Longrightarrow> 1 \<le> d \<and> d \<le> 31"
proof -
  assume a: "almanacYearMonthDOM day = (ym, d)"
  obtain y m k where c: "civil day = (y, m, k)" using prod_cases3 by metis
  with a have "d = nat k" by (simp add: almanacYearMonthDOM_def)
  then show ?thesis using civil_spec(3,5) [OF c] by linarith
qed

lemma YearMonthDOM_inj:
  assumes "almanacYearMonthDOM a = almanacYearMonthDOM b"
  shows "a = b"
proof -
  obtain y m d y' m' d' where c: "civil a = (y, m, d)" "civil b = (y', m', d')" using prod_cases3 by metis
  note A = civil_spec [OF c(1)] and B = civil_spec [OF c(2)]
  have "y * 100 + m = y' * 100 + m'" "nat d = nat d'" using assms c by (simp_all add: almanacYearMonthDOM_def)
  moreover from this have "y = y'" "m = m'" using ym_parts [OF A(1,2), of y] ym_parts [OF B(1,2), of y'] by metis+
  moreover have "d = d'" using calculation(2) A(3) B(3) by (simp add: eq_nat_nat_iff)
  ultimately show ?thesis using A(6) B(6) by simp
qed

lemma first_day_of_month:
  \<comment> \<open>the first day of a day's month, and the day's place in it\<close>
  assumes "0 \<le> day" "almanacYearMonthDOM day = (ym, d)"
  shows "almanacYMFirstDay ym + int d - 1 = day"
proof -
  obtain y m k where c: "civil day = (y, m, k)" using prod_cases3 by metis
  note A = civil_spec [OF c]
  have "1970 \<le> y"
  proof (rule ccontr)
    assume "\<not> 1970 \<le> y"
    have mono: "yearStart y + 365 * int n \<le> yearStart (y + int n)" for n y
    proof (induction n)
      case (Suc n)
      then show ?case using yearStart_Suc [of "y + int n"] yearDays_pos [of "y + int n"] by (simp add: algebra_simps)
    qed simp
    obtain r where r: "yearOf 1970 day = (y, r)" using c by (auto simp: civil_def Let_def split: prod.splits)
    have "yearStart (y + 1) \<le> yearStart 1970"
      using mono [of "y + 1" "nat (1969 - y)"] \<open>\<not> 1970 \<le> y\<close> by simp
    moreover have "yearStart 1970 = 0" by (simp add: yearStart_def)
    ultimately show False using yearOf_spec [OF r] yearStart_Suc [of y] assms(1) by linarith
  qed
  then have "quot (y * 100 + m) 100 = y" "rem (y * 100 + m) 100 = m"
    using A(1,2) ym_parts [OF A(1,2), of y] by (simp_all add: quot_nonneg rem_nonneg)
  moreover have "ym = y * 100 + m" "d = nat k" using assms(2) c by (simp_all add: almanacYearMonthDOM_def)
  ultimately show ?thesis using A(3,6) by (simp add: almanacYMFirstDay_def dateIndex_def Let_def)
qed

lemma year_ends: "almanacYMAdd 202612 1 = 202701" "almanacYMAdd 202601 (-1) = 202512"
  by code_simp+

end
