(* ===== verification/PgStore.thy ===== *)
theory PgStore
  imports FromHere Assoc Stream AlmanacSparse
begin

text \<open>
  The write side of the baseline store (dx_postgres.go): the queue of deltas \<open>observe\<close> fills, the
  flush that swaps it out, commits it or merges it back, and the raw spots with their retry
  buffer. The tables are association lists keyed as their primary keys; a statement batch commits
  or leaves them alone, and which of the two happens is an argument.
\<close>

section \<open>Counters in a map\<close>

definition valueOf :: "'v \<Rightarrow> ('k \<times> 'v) list \<Rightarrow> 'k \<Rightarrow> 'v" where
  \<comment> \<open>a missing key reads as the zero value\<close>
  "valueOf z al k = (case map_of al k of Some v \<Rightarrow> v | None \<Rightarrow> z)"

definition bumpAt :: "'v \<Rightarrow> 'k \<Rightarrow> ('v \<Rightarrow> 'v) \<Rightarrow> ('k \<times> 'v) list \<Rightarrow> ('k \<times> 'v) list" where
  "bumpAt z k f al = AList.update k (f (valueOf z al k)) al"

definition mergeInto :: "('v \<Rightarrow> 'v \<Rightarrow> 'v) \<Rightarrow> 'v \<Rightarrow> ('k \<times> 'v) list \<Rightarrow> ('k \<times> 'v) list \<Rightarrow> ('k \<times> 'v) list" where
  \<comment> \<open>\<open>batch\<close> added to \<open>al\<close>, key by key\<close>
  "mergeInto add z al batch = foldl (\<lambda>al (k, v). bumpAt z k (\<lambda>e. add e v) al) al batch"

lemma valueOf_Nil [simp]: "valueOf z [] k = z"
  by (simp add: valueOf_def)

lemma valueOf_bump [simp]: "valueOf z (bumpAt z k f al) k' = (if k' = k then f (valueOf z al k) else valueOf z al k')"
  by (simp add: valueOf_def bumpAt_def map_of_update)

lemma keys_bump [simp]: "fst ` set (bumpAt z k f al) = insert k (fst ` set al)"
  by (simp add: bumpAt_def dom_update)

lemma distinct_bump [simp]: "distinct (map fst (bumpAt z k f al)) = distinct (map fst al)"
  by (simp add: bumpAt_def distinct_keys_update)

lemma valueOf_absent: "k \<notin> fst ` set al \<Longrightarrow> valueOf z al k = z"
  using map_of_eq_None_iff [of al k] by (simp add: valueOf_def)

lemma mergeInto_simps [simp]: "mergeInto add z al [] = al"
  "mergeInto add z al ((k, v) # batch) = mergeInto add z (bumpAt z k (\<lambda>e. add e v) al) batch"
  by (simp_all add: mergeInto_def)

lemma keys_merge [simp]: "fst ` set (mergeInto add z al batch) = fst ` set al \<union> fst ` set batch"
proof (induction batch arbitrary: al)
  case (Cons p batch)
  obtain k v where p: "p = (k, v)" by (cases p)
  show ?case unfolding p mergeInto_simps Cons.IH keys_bump by simp
qed simp

lemma distinct_merge [simp]: "distinct (map fst (mergeInto add z al batch)) = distinct (map fst al)"
proof (induction batch arbitrary: al)
  case (Cons p batch)
  obtain k v where p: "p = (k, v)" by (cases p)
  show ?case unfolding p mergeInto_simps Cons.IH distinct_bump ..
qed simp

lemma valueOf_merge:
  assumes "distinct (map fst batch)"
  shows "valueOf z (mergeInto add z al batch) k = (if k \<in> fst ` set batch then add (valueOf z al k) (valueOf z batch k) else valueOf z al k)"
  using assms
proof (induction batch arbitrary: al)
  case (Cons p batch)
  obtain j v where p: "p = (j, v)" by (cases p)
  have "valueOf z (p # batch) k = (if k = j then v else valueOf z batch k)" by (simp add: valueOf_def p)
  with Cons p show ?case by auto
qed simp

section \<open>Deltas\<close>

definition almanacSNRTierFloors :: "int list" where "almanacSNRTierFloors = [-20, -15, -10, -5, 0]"

record regionDelta =
  rd_Count :: int
  rd_SNR :: int
  rd_GE :: "int list"

definition zeroDelta :: regionDelta where
  "zeroDelta = \<lparr>rd_Count = 0, rd_SNR = 0, rd_GE = replicate 5 0\<rparr>"

definition regionDelta_add :: "regionDelta \<Rightarrow> regionDelta \<Rightarrow> regionDelta" where
  "regionDelta_add d e = \<lparr>rd_Count = rd_Count d + rd_Count e, rd_SNR = rd_SNR d + rd_SNR e, rd_GE = map2 (+) (rd_GE d) (rd_GE e)\<rparr>"

definition spotCarriesRealSNR :: "MQTTMessage \<Rightarrow> bool" where
  "spotCarriesRealSNR m \<longleftrightarrow> \<not> EqualFold (TrimSpace (MD m)) ''DXCLUSTER''"

definition observeSpot :: "int \<Rightarrow> bool \<Rightarrow> regionDelta \<Rightarrow> regionDelta" where
  "observeSpot rp hasSNR d =
     (let d = d\<lparr>rd_Count := rd_Count d + 1\<rparr>
      in if \<not> hasSNR then d
         else d\<lparr>rd_SNR := rd_SNR d + 1,
                rd_GE := map2 (\<lambda>lo n. if rp \<ge> lo then n + 1 else n) almanacSNRTierFloors (rd_GE d)\<rparr>)"

record baselineGlobalKey =
  gk_Band :: string
  gk_SlotOfDay :: int
  gk_DistanceTier :: int
  gk_SnrTier :: int

record clusterBaselineKey =
  ck_ClusterAnchor :: string
  ck_Band :: string
  ck_SlotOfDay :: int
  ck_DistanceTier :: int
  ck_SnrTier :: int

record rawSpotRow =
  rr_m :: MQTTMessage
  rr_band :: string
  rr_source4 :: string
  rr_sc :: string
  rr_rc :: string
  rr_sl :: string
  rr_rl :: string
  rr_md :: string

section \<open>The queue\<close>

record pgStore =
  pg_pendingGlobal :: "(baselineGlobalKey \<times> int) list"
  pg_pendingRegion :: "(regionDailyKey \<times> regionDelta) list"
  pg_pendingCluster :: "(clusterBaselineKey \<times> int) list"
  pg_pendingCount :: nat
  pg_pendingRawSpots :: "rawSpotRow list"
  pg_inflightRegion :: "(regionDailyKey \<times> regionDelta) list"
  pg_regionLateDrops :: nat
  pg_baselineFlushLastOK :: int
  pg_baselineFlushFailStreak :: nat
  pg_rawFlushLastOK :: int
  pg_rawFlushFailStreak :: nat
  pg_snrColumns :: bool

definition almanacLateSpotMaxAgeSeconds :: int where "almanacLateSpotMaxAgeSeconds = 24 * 3600"
definition almanacFutureSpotSkewSeconds :: int where "almanacFutureSpotSkewSeconds = 10 * 60"

definition almanacRegionTimestampAccepted :: "int \<Rightarrow> int \<Rightarrow> bool" where
  "almanacRegionTimestampAccepted ts now \<longleftrightarrow> ts \<ge> now - almanacLateSpotMaxAgeSeconds \<and> ts \<le> now + almanacFutureSpotSkewSeconds"

definition rawSpotMaxPendingRows :: nat where "rawSpotMaxPendingRows = 200000"
definition dxBaselineFlushMaxPending :: nat where "dxBaselineFlushMaxPending = 2048"

definition trimRawSpotRows :: "rawSpotRow list \<Rightarrow> nat \<Rightarrow> rawSpotRow list \<times> nat" where
  "trimRawSpotRows rows limit = (if length rows \<le> limit then (rows, 0) else (drop (length rows - limit) rows, length rows - limit))"

definition trimPendingRawSpotsLocked :: "pgStore \<Rightarrow> pgStore" where
  "trimPendingRawSpotsLocked s =
     (let (trimmed, excess) = trimRawSpotRows (pg_pendingRawSpots s) rawSpotMaxPendingRows
      in if excess > 0 then s\<lparr>pg_pendingRawSpots := trimmed\<rparr> else s)"

definition mergeRawSpotRows :: "rawSpotRow list \<Rightarrow> rawSpotRow list \<Rightarrow> rawSpotRow list" where
  "mergeRawSpotRows requeued waiting = requeued @ waiting"

definition mergeRawSpotsBack :: "rawSpotRow list \<Rightarrow> pgStore \<Rightarrow> pgStore" where
  "mergeRawSpotsBack rows s =
     (if rows = [] then s
      else trimPendingRawSpotsLocked (s\<lparr>pg_pendingRawSpots := mergeRawSpotRows rows (pg_pendingRawSpots s)\<rparr>))"

definition queueRegion :: "MQTTMessage \<Rightarrow> pgStore \<Rightarrow> regionDailyKey \<Rightarrow> pgStore" where
  "queueRegion m s key = s\<lparr>pg_pendingRegion := bumpAt zeroDelta key (observeSpot (RP m) (spotCarriesRealSNR m)) (pg_pendingRegion s),
     pg_pendingCount := pg_pendingCount s + 1\<rparr>"

definition acceptedKeys :: "MQTTMessage \<Rightarrow> string \<Rightarrow> int \<Rightarrow> regionDailyKey list" where
  \<comment> \<open>\<open>regionKeys\<close>, when \<open>regionAccepted\<close>\<close>
  "acceptedKeys m band now =
     (if almanacRegionTimestampAccepted (T m) now then dxPulseRegionBaselineKeysForSpot (T m) band (SL m) (RL m) else [])"

definition queueCluster :: "string \<Rightarrow> int \<Rightarrow> int \<Rightarrow> int \<Rightarrow> pgStore \<Rightarrow> string \<Rightarrow> pgStore" where
  "queueCluster band slot distTier snrTier s loc =
     (case ClusterAnchor loc of
        None \<Rightarrow> s
      | Some anchor \<Rightarrow>
          s\<lparr>pg_pendingCluster := bumpAt 0 \<lparr>ck_ClusterAnchor = anchor, ck_Band = band, ck_SlotOfDay = slot,
               ck_DistanceTier = distTier, ck_SnrTier = snrTier\<rparr> (\<lambda>c. c + 1) (pg_pendingCluster s),
            pg_pendingCount := pg_pendingCount s + 1\<rparr>)"

definition rawRowOf :: "MQTTMessage \<Rightarrow> string \<Rightarrow> rawSpotRow" where
  "rawRowOf m band = \<lparr>rr_m = m, rr_band = band, rr_source4 = normalizeSource4 (SL m), rr_sc = ToUpper (TrimSpace (SC m)),
     rr_rc = ToUpper (TrimSpace (RC m)), rr_sl = ToUpper (TrimSpace (SL m)), rr_rl = ToUpper (TrimSpace (RL m)),
     rr_md = ToUpper (TrimSpace (MD m))\<rparr>"

definition pg_observe :: "MQTTMessage \<Rightarrow> string \<Rightarrow> int \<Rightarrow> int \<Rightarrow> int \<Rightarrow> int \<Rightarrow> pgStore \<Rightarrow> pgStore \<times> bool" where
  \<comment> \<open>\<open>observe\<close> at time \<open>now\<close>, and whether it signals the flusher\<close>
  "pg_observe m band slot distTier snrTier now s =
     (let regionKeys = dxPulseRegionBaselineKeysForSpot (T m) band (SL m) (RL m);
          s = s\<lparr>pg_pendingGlobal := bumpAt 0 \<lparr>gk_Band = band, gk_SlotOfDay = slot, gk_DistanceTier = distTier, gk_SnrTier = snrTier\<rparr>
                  (\<lambda>c. c + 1) (pg_pendingGlobal s), pg_pendingCount := pg_pendingCount s + 1\<rparr>;
          s = foldl (queueRegion m) s (acceptedKeys m band now);
          s = (if regionKeys \<noteq> [] \<and> acceptedKeys m band now = [] then s\<lparr>pg_regionLateDrops := pg_regionLateDrops s + 1\<rparr> else s);
          s = foldl (queueCluster band slot distTier snrTier) s [SL m, RL m];
          s = (if spotCarriesRealSNR m
               then trimPendingRawSpotsLocked (s\<lparr>pg_pendingRawSpots := pg_pendingRawSpots s @ [rawRowOf m band]\<rparr>) else s)
      in (s, pg_pendingCount s \<ge> dxBaselineFlushMaxPending))"

section \<open>The tables\<close>

type_synonym segKey = "string \<times> string \<times> string"
  \<comment> \<open>square, band, region\<close>

record pgTables =
  tb_global :: "(baselineGlobalKey \<times> int) list"
  tb_region :: "(regionDailyKey \<times> regionDelta) list"
  tb_cluster :: "(clusterBaselineKey \<times> int) list"
  tb_raw :: "rawSpotRow list"
  tb_firstObserved :: "int option"
  tb_ingest :: "((int \<times> int) \<times> int) list"
  tb_watermark :: "int option"
  tb_snrSince :: "int option"
  tb_lost :: "int list"
  tb_season :: "((segKey \<times> int) \<times> nat list) list"
  tb_activity :: "((string \<times> string \<times> int) \<times> nat) list"

definition almanacIngestSlotTotalsFromRegion :: "(regionDailyKey \<times> regionDelta) list \<Rightarrow> ((int \<times> int) \<times> int) list" where
  "almanacIngestSlotTotalsFromRegion region =
     foldl (\<lambda>out (k, v). bumpAt 0 (dk_DayIndex k, dk_SlotOfDay k) (\<lambda>n. n + rd_Count v) out) [] region"

record flushBatch =
  fb_global :: "(baselineGlobalKey \<times> int) list"
  fb_region :: "(regionDailyKey \<times> regionDelta) list"
  fb_cluster :: "(clusterBaselineKey \<times> int) list"

definition regionUpsert :: "bool \<Rightarrow> regionDelta \<Rightarrow> regionDelta" where
  \<comment> \<open>the columns a region upsert writes\<close>
  "regionUpsert withSNR v = (if withSNR then v else zeroDelta\<lparr>rd_Count := rd_Count v\<rparr>)"

definition baselineFlushStmts :: "bool \<Rightarrow> flushBatch \<Rightarrow> pgTables \<Rightarrow> pgTables" where
  \<comment> \<open>the statements of one flush transaction, run: each adds to the row of its key\<close>
  "baselineFlushStmts withSNR b tb = tb\<lparr>
     tb_global := mergeInto (+) 0 (tb_global tb) (fb_global b),
     tb_region := mergeInto regionDelta_add zeroDelta (tb_region tb) (map (\<lambda>(k, v). (k, regionUpsert withSNR v)) (fb_region b)),
     tb_cluster := mergeInto (+) 0 (tb_cluster tb) (fb_cluster b),
     tb_ingest := mergeInto (+) 0 (tb_ingest tb) (almanacIngestSlotTotalsFromRegion (fb_region b))\<rparr>"

section \<open>Flushing the deltas\<close>

definition flushBegin :: "pgStore \<Rightarrow> pgStore \<times> flushBatch option" where
  \<comment> \<open>the swap under the lock; \<open>None\<close> when nothing is pending\<close>
  "flushBegin s =
     (if pg_pendingGlobal s = [] \<and> pg_pendingCluster s = [] \<and> pg_pendingRegion s = [] then (s, None)
      else (s\<lparr>pg_pendingGlobal := [], pg_pendingRegion := [], pg_pendingCluster := [], pg_pendingCount := 0,
              pg_inflightRegion := pg_pendingRegion s\<rparr>,
            Some \<lparr>fb_global = pg_pendingGlobal s, fb_region = pg_pendingRegion s, fb_cluster = pg_pendingCluster s\<rparr>))"

definition mergePendingBack :: "flushBatch \<Rightarrow> pgStore \<Rightarrow> pgStore" where
  "mergePendingBack b s = s\<lparr>
     pg_pendingGlobal := mergeInto (+) 0 (pg_pendingGlobal s) (fb_global b),
     pg_pendingCluster := mergeInto (+) 0 (pg_pendingCluster s) (fb_cluster b),
     pg_pendingRegion := mergeInto regionDelta_add zeroDelta (pg_pendingRegion s) (fb_region b),
     pg_pendingCount := pg_pendingCount s + length (fb_global b) + length (fb_cluster b) + length (fb_region b)\<rparr>"

definition setInflightRegion :: "(regionDailyKey \<times> regionDelta) list \<Rightarrow> pgStore \<Rightarrow> pgStore" where
  "setInflightRegion region s = s\<lparr>pg_inflightRegion := region\<rparr>"

definition flushPending :: "bool \<Rightarrow> pgStore \<Rightarrow> pgTables \<Rightarrow> pgStore \<times> pgTables \<times> bool" where
  \<comment> \<open>\<open>ok\<close>: the transaction commits; the last component is whether the error is \<open>nil\<close>\<close>
  "flushPending ok s tb =
     (case flushBegin s of
        (s, None) \<Rightarrow> (s, tb, True)
      | (s, Some b) \<Rightarrow>
          if ok then (setInflightRegion [] s, baselineFlushStmts (pg_snrColumns s) b tb, True)
          else (setInflightRegion [] (mergePendingBack b s), tb, False))"

definition pendingRegionMinDay :: "pgStore \<Rightarrow> int option" where
  "pendingRegionMinDay s =
     foldl (\<lambda>m (k, v). case m of None \<Rightarrow> Some (dk_DayIndex k) | Some d \<Rightarrow> if dk_DayIndex k < d then Some (dk_DayIndex k) else m)
       None (pg_pendingRegion s @ pg_inflightRegion s)"

definition flushEscalates :: "nat \<Rightarrow> bool" where
  "flushEscalates n \<longleftrightarrow> n = 15 \<or> n = 450 \<or> n > 450 \<and> n mod 1800 = 0"

section \<open>Flushing the raw spots\<close>

definition rawSpotInsertChunkSize :: nat where "rawSpotInsertChunkSize = 1000"

definition touchBaselineFirstObserved :: "int \<Rightarrow> pgTables \<Rightarrow> pgTables" where
  "touchBaselineFirstObserved spotTime tb =
     (if spotTime \<le> 0 then tb
      else tb\<lparr>tb_firstObserved := Some (case tb_firstObserved tb of None \<Rightarrow> spotTime | Some v \<Rightarrow> min v spotTime)\<rparr>)"

definition minSpot :: "int \<Rightarrow> rawSpotRow \<Rightarrow> int" where
  "minSpot lo row = (if T (rr_m row) > 0 \<and> (lo = 0 \<or> T (rr_m row) < lo) then T (rr_m row) else lo)"

function rawChunks :: "bool list \<Rightarrow> rawSpotRow list \<Rightarrow> int \<Rightarrow> pgStore \<Rightarrow> pgTables \<Rightarrow> pgStore \<times> pgTables \<times> bool" where
  \<comment> \<open>the loop over the chunks; \<open>oks\<close> says which inserts succeed, and those beyond it do\<close>
  "rawChunks oks rows lo s tb =
     (if rows = [] then (s, touchBaselineFirstObserved lo tb, True)
      else let chunk = take rawSpotInsertChunkSize rows; lo = foldl minSpot lo chunk
           in if oks \<noteq> [] \<and> \<not> hd oks then (mergeRawSpotsBack rows s, tb, False)
              else rawChunks (tl oks) (drop rawSpotInsertChunkSize rows) lo s (tb\<lparr>tb_raw := tb_raw tb @ chunk\<rparr>))"
  by pat_completeness auto

termination
  by (relation "measure (\<lambda>(oks, rows, _). length rows)") (auto simp: rawSpotInsertChunkSize_def)

declare rawChunks.simps [simp del]

definition flushRawSpots :: "bool list \<Rightarrow> pgStore \<Rightarrow> pgTables \<Rightarrow> pgStore \<times> pgTables \<times> bool" where
  "flushRawSpots oks s tb =
     (if pg_pendingRawSpots s = [] then (s, tb, True)
      else rawChunks oks (pg_pendingRawSpots s) 0 (s\<lparr>pg_pendingRawSpots := []\<rparr>) tb)"

definition flushPendingWithTimeout :: "bool \<Rightarrow> bool list \<Rightarrow> int \<Rightarrow> pgStore \<Rightarrow> pgTables \<Rightarrow> pgStore \<times> pgTables" where
  "flushPendingWithTimeout ok oks now s tb =
     (let (s, tb, fine) = flushPending ok s tb;
          s = (if fine then s\<lparr>pg_baselineFlushLastOK := now, pg_baselineFlushFailStreak := 0\<rparr>
               else s\<lparr>pg_baselineFlushFailStreak := pg_baselineFlushFailStreak s + 1\<rparr>);
          (s, tb, fine) = flushRawSpots oks s tb
      in (if fine then s\<lparr>pg_rawFlushLastOK := now, pg_rawFlushFailStreak := 0\<rparr>
          else s\<lparr>pg_rawFlushFailStreak := pg_rawFlushFailStreak s + 1\<rparr>, tb))"

lemma committed_minimum_lost:
  \<comment> \<open>the first chunk is stored, the second fails: the minimum of the first is not recorded\<close>
  assumes "rawSpotInsertChunkSize < length rows" "rawChunks [True, False] rows lo s tb = (s', tb', fine)"
  shows "\<not> fine \<and> tb_raw tb' = tb_raw tb @ take rawSpotInsertChunkSize rows \<and> tb_firstObserved tb' = tb_firstObserved tb"
proof -
  have n: "rows \<noteq> []" "drop rawSpotInsertChunkSize rows \<noteq> []" using assms(1) by auto
  then have "rawChunks [True, False] rows lo s tb =
      (mergeRawSpotsBack (drop rawSpotInsertChunkSize rows) s, tb\<lparr>tb_raw := tb_raw tb @ take rawSpotInsertChunkSize rows\<rparr>, False)"
    by (subst rawChunks.simps, subst rawChunks.simps) (simp add: Let_def)
  then show ?thesis using assms(2) by auto
qed

end
