(* ===== verification/AlmanacFold.thy ===== *)
theory AlmanacFold
  imports PgStore Calendar
begin

text \<open>
  The almanac fold (almanac_fold.go, almanac_season_store.go): the finality rule, the accumulation
  of a final day, the fold transaction that rewrites the day's segment of every seasonal row, the
  watermark and the lost days, the driver that folds one day after the other, and the gate that
  keeps the retention prune behind the watermark. The tables are those of \<open>PgStore\<close>.
\<close>

section \<open>The finality rule\<close>

definition almanacFoldFlushLag :: int where "almanacFoldFlushLag = 3600"
definition almanacFoldMaxDaysPerRun :: nat where "almanacFoldMaxDaysPerRun = 64"
definition almanacFoldGraceDays :: int where "almanacFoldGraceDays = 7"
definition almanacDiskFullThreshold :: real where "almanacDiskFullThreshold = 80 / 100"

definition almanacDayFinal :: "int \<Rightarrow> int \<Rightarrow> int \<Rightarrow> int option \<Rightarrow> bool" where
  "almanacDayFinal d now lastFlushOK pendingMinDay \<longleftrightarrow>
     \<not> d > utcDayIndex now - 2 \<and> \<not> lastFlushOK \<le> (d + 1) * 86400 + almanacFoldFlushLag \<and>
     \<not> (case pendingMinDay of Some m \<Rightarrow> m \<le> d | None \<Rightarrow> False)"

section \<open>Folding a day\<close>

record almanacDailyRow =
  ar_Key :: segKey
  ar_Slot :: int
  ar_Count :: int
  ar_SNR :: int
  ar_GE :: "int list"

record almanacDayFold =
  df_Day :: int
  df_YearMonth :: int
  df_DayOfMonth :: nat
  df_Segments :: "(segKey \<times> nat list) list"
  df_Hist :: "(segKey \<times> snrHist list) list"
  df_SlotTotals :: "int list"

definition newAlmanacDayFold :: "int \<Rightarrow> almanacDayFold" where
  "newAlmanacDayFold day =
     (let (ym, d) = almanacYearMonthDOM day
      in \<lparr>df_Day = day, df_YearMonth = ym, df_DayOfMonth = d, df_Segments = [], df_Hist = [], df_SlotTotals = replicate 48 0\<rparr>)"

definition fold_add :: "almanacDayFold \<Rightarrow> almanacDailyRow \<Rightarrow> almanacDayFold" where
  "fold_add f r =
     (if ar_Slot r < 0 \<or> ar_Slot r \<ge> 48 \<or> ar_Count r \<le> 0 then f
      else let k = ar_Key r; i = nat (ar_Slot r);
               f = f\<lparr>df_Segments := bumpAt (replicate 48 0) k (\<lambda>seg. seg[i := satAdd8 (seg ! i) (ar_Count r)]) (df_Segments f),
                     df_SlotTotals := (df_SlotTotals f)[i := df_SlotTotals f ! i + ar_Count r]\<rparr>
           in if ar_SNR r > 0
              then f\<lparr>df_Hist := bumpAt (replicate 48 zeroHist) k
                       (\<lambda>hs. hs[i := almanacSNRHist_add (hs ! i) (almanacSNRHistFromCounts (ar_SNR r) (ar_GE r))]) (df_Hist f)\<rparr>
              else f)"

definition almanacFoldUsesSNR :: "int \<Rightarrow> int option \<Rightarrow> bool" where
  "almanacFoldUsesSNR day since \<longleftrightarrow> (case since of Some s \<Rightarrow> day \<ge> s | None \<Rightarrow> False)"

definition dayMaskBit :: "almanacDayFold \<Rightarrow> nat" where
  "dayMaskBit f = push_bit (df_DayOfMonth f - 1) 1"

definition nonZeroSlotTotals :: "almanacDayFold \<Rightarrow> (int \<times> int) list" where
  "nonZeroSlotTotals f = List.map_filter (\<lambda>s. if df_SlotTotals f ! s > 0 then Some (int s, df_SlotTotals f ! s) else None) [0..<48]"

definition almanacInitialWatermark :: "int option \<Rightarrow> int \<Rightarrow> int \<times> int option" where
  \<comment> \<open>the watermark, and the day recorded lost\<close>
  "almanacInitialWatermark minDay today = (case minDay of None \<Rightarrow> (today - 1, None) | Some d \<Rightarrow> (d, Some d))"

section \<open>The transactions\<close>

definition setWatermark :: "int \<Rightarrow> pgTables \<Rightarrow> pgTables" where
  \<comment> \<open>\<open>GREATEST\<close>: it never moves backwards\<close>
  "setWatermark w tb = tb\<lparr>tb_watermark := Some (case tb_watermark tb of None \<Rightarrow> w | Some v \<Rightarrow> max v w)\<rparr>"

definition recordLost :: "int list \<Rightarrow> pgTables \<Rightarrow> pgTables" where
  "recordLost days tb = tb\<lparr>tb_lost := foldl (\<lambda>l d. List.insert d l) (tb_lost tb) days\<rparr>"

definition minDayOf :: "pgTables \<Rightarrow> int option" where
  "minDayOf tb = (if tb_region tb = [] then None else Some (Min (set (map (dk_DayIndex \<circ> fst) (tb_region tb)))))"

definition ensureWatermark :: "int \<Rightarrow> pgTables \<Rightarrow> pgTables \<times> int" where
  "ensureWatermark today tb =
     (case tb_watermark tb of
        Some w \<Rightarrow> (tb, w)
      | None \<Rightarrow>
          let (w, lost) = almanacInitialWatermark (minDayOf tb) today;
              tb = (case lost of Some d \<Rightarrow> recordLost [d] tb | None \<Rightarrow> tb)
          in (setWatermark w tb, w))"

definition dailyRow :: "bool \<Rightarrow> regionDailyKey \<times> regionDelta \<Rightarrow> almanacDailyRow" where
  "dailyRow withSNR kv =
     (let (k, v) = kv
      in \<lparr>ar_Key = (dk_TargetGrid4 k, dk_Band k, dk_Region k), ar_Slot = dk_SlotOfDay k, ar_Count = rd_Count v,
          ar_SNR = (if withSNR then rd_SNR v else 0), ar_GE = (if withSNR then rd_GE v else replicate 5 0)\<rparr>)"

definition foldOf :: "int \<Rightarrow> bool \<Rightarrow> pgTables \<Rightarrow> almanacDayFold" where
  \<comment> \<open>the day's rows, streamed into the accumulator\<close>
  "foldOf day withSNR tb =
     foldl fold_add (newAlmanacDayFold day) (map (dailyRow withSNR) (filter (\<lambda>kv. dk_DayIndex (fst kv) = day) (tb_region tb)))"

definition foldSeasonRows :: "almanacDayFold \<Rightarrow> ((segKey \<times> int) \<times> nat list) list \<Rightarrow> ((segKey \<times> int) \<times> nat list) list" where
  \<comment> \<open>the row of every key, its day replaced; a key without a row gets a fresh one\<close>
  "foldSeasonRows f season =
     foldl (\<lambda>t (k, seg). AList.update (k, df_YearMonth f)
        (fst (almanacSparseReplaceDay (map_of t (k, df_YearMonth f)) (df_DayOfMonth f) seg (map_of (df_Hist f) k))) t)
       season (df_Segments f)"

definition foldActivity :: "almanacDayFold \<Rightarrow> ((string \<times> string \<times> int) \<times> nat) list \<Rightarrow> ((string \<times> string \<times> int) \<times> nat) list" where
  "foldActivity f act =
     foldl (\<lambda>t (k, seg). bumpAt 0 (fst k, fst (snd k), df_YearMonth f) (\<lambda>m. m OR dayMaskBit f) t) act (df_Segments f)"

definition foldDayInTx :: "int \<Rightarrow> bool \<Rightarrow> pgTables \<Rightarrow> pgTables" where
  "foldDayInTx day withSNR tb =
     (let f = foldOf day withSNR tb;
          tb = (if df_Segments f = [] then tb
                else tb\<lparr>tb_season := foldSeasonRows f (tb_season tb), tb_activity := foldActivity f (tb_activity tb)\<rparr>)
      in tb\<lparr>tb_ingest := foldl (\<lambda>t (s, n). AList.update (day, s) (case map_of t (day, s) of Some v \<Rightarrow> max v n | None \<Rightarrow> n) t)
               (tb_ingest tb) (nonZeroSlotTotals f)\<rparr>)"

datatype foldError =
    WatermarkMissing
  | StoreFailed

definition foldDay :: "bool \<Rightarrow> int \<Rightarrow> pgTables \<Rightarrow> foldError + pgTables \<times> int" where
  \<comment> \<open>\<open>ok\<close>: the transaction commits\<close>
  "foldDay ok day tb =
     (if \<not> ok then Inl StoreFailed
      else case tb_watermark tb of
             None \<Rightarrow> Inl WatermarkMissing
           | Some w \<Rightarrow>
               if w \<ge> day then Inr (tb, w)
               else Inr (setWatermark day (foldDayInTx day (almanacFoldUsesSNR day (tb_snrSince tb)) tb), day))"

definition refoldDay :: "bool \<Rightarrow> int \<Rightarrow> bool \<Rightarrow> pgTables \<Rightarrow> foldError + pgTables" where
  "refoldDay ok day withSNR tb =
     (if \<not> ok then Inl StoreFailed
      else if tb_watermark tb = None then Inl WatermarkMissing else Inr (foldDayInTx day withSNR tb))"

definition almanacLostDayRange :: "int \<Rightarrow> int \<Rightarrow> int list" where
  "almanacLostDayRange a b = (if b \<le> a then [] else [a + 1..b])"

definition forceAdvance :: "bool \<Rightarrow> int \<Rightarrow> pgTables \<Rightarrow> foldError + pgTables \<times> nat" where
  "forceAdvance ok newWatermark tb =
     (if \<not> ok then Inl StoreFailed
      else case tb_watermark tb of
             None \<Rightarrow> Inl WatermarkMissing
           | Some w \<Rightarrow>
               let days = almanacLostDayRange w newWatermark
               in if days = [] then Inr (tb, 0) else Inr (setWatermark newWatermark (recordLost days tb), length days))"

section \<open>The prune gate\<close>

record almanacPruneDecision =
  pd_DeleteBelow :: int
  pd_Force :: bool
  pd_NewWatermark :: int

definition almanacPruneDecide :: "int \<Rightarrow> int \<Rightarrow> int \<Rightarrow> bool \<Rightarrow> almanacPruneDecision" where
  "almanacPruneDecide cutoff watermark graceDays diskOver =
     (if watermark + 1 \<ge> cutoff then \<lparr>pd_DeleteBelow = cutoff, pd_Force = False, pd_NewWatermark = 0\<rparr>
      else let forced = (if diskOver then cutoff else cutoff - graceDays)
           in if watermark + 1 < forced then \<lparr>pd_DeleteBelow = forced, pd_Force = True, pd_NewWatermark = forced - 1\<rparr>
              else \<lparr>pd_DeleteBelow = watermark + 1, pd_Force = False, pd_NewWatermark = 0\<rparr>)"

definition almanacUsedFraction :: "nat \<Rightarrow> nat \<Rightarrow> nat \<Rightarrow> real" where
  "almanacUsedFraction blocks free avail =
     (let free = (if free > blocks then blocks else free); used = blocks - free; denom = used + avail
      in if denom = 0 then 1 else real used / real denom)"

definition almanacDiskOverThreshold :: "real option \<Rightarrow> bool" where
  \<comment> \<open>\<open>None\<close>: the probe failed\<close>
  "almanacDiskOverThreshold probe = (case probe of None \<Rightarrow> True | Some f \<Rightarrow> f > almanacDiskFullThreshold)"

section \<open>The driver\<close>

record almanacFolder =
  fo_watermark :: int
  fo_failStreak :: nat
  fo_lastOKUnix :: int
  fo_lostDays :: nat

definition newAlmanacFolder :: almanacFolder where
  "newAlmanacFolder = \<lparr>fo_watermark = -1, fo_failStreak = 0, fo_lastOKUnix = 0, fo_lostDays = 0\<rparr>"

definition recordFailure :: "almanacFolder \<Rightarrow> almanacFolder" where
  "recordFailure f = f\<lparr>fo_failStreak := fo_failStreak f + 1\<rparr>"

definition foldEscalates :: "nat \<Rightarrow> bool" where
  \<comment> \<open>the streaks logged as errors\<close>
  "foldEscalates n \<longleftrightarrow> n = 4 \<or> n > 4 \<and> n mod 96 = 0"

definition refreshLostDays :: "pgTables \<Rightarrow> almanacFolder \<Rightarrow> almanacFolder" where
  "refreshLostDays tb f = f\<lparr>fo_lostDays := length (tb_lost tb)\<rparr>"

fun foldDays :: "nat \<Rightarrow> bool list \<Rightarrow> int \<Rightarrow> pgStore \<Rightarrow> int \<Rightarrow> almanacFolder \<Rightarrow> pgTables \<Rightarrow> almanacFolder \<times> pgTables \<times> bool" where
  \<comment> \<open>the loop of \<open>runOnce\<close>, at most \<open>n\<close> more days; the flag is whether it ended without an error\<close>
  "foldDays 0 oks now s w f tb = (f, tb, True)"
| "foldDays (Suc n) oks now s w f tb =
     (if \<not> almanacDayFinal (w + 1) now (pg_baselineFlushLastOK s) (pendingRegionMinDay s) then (f, tb, True)
      else case foldDay (oks = [] \<or> hd oks) (w + 1) tb of
             Inl _ \<Rightarrow> (recordFailure f, tb, False)
           | Inr (tb, nw) \<Rightarrow> foldDays n (tl oks) now s nw (f\<lparr>fo_watermark := nw\<rparr>) tb)"

definition runOnce :: "bool \<Rightarrow> bool list \<Rightarrow> int \<Rightarrow> pgStore \<Rightarrow> almanacFolder \<Rightarrow> pgTables \<Rightarrow> almanacFolder \<times> pgTables \<times> bool" where
  \<comment> \<open>the flush state read during the run is that of \<open>s\<close>\<close>
  "runOnce ok oks now s f tb =
     (if \<not> ok then (recordFailure f, tb, False)
      else let (tb, w) = ensureWatermark (utcDayIndex now) tb;
               (f, tb, fine) = foldDays almanacFoldMaxDaysPerRun oks now s w (f\<lparr>fo_watermark := w\<rparr>) tb
           in if \<not> fine then (f, tb, False)
              else (refreshLostDays tb (f\<lparr>fo_failStreak := 0, fo_lastOKUnix := now\<rparr>), tb, True))"

definition pruneCutoff :: "bool \<Rightarrow> bool \<Rightarrow> int \<Rightarrow> real option \<Rightarrow> int \<Rightarrow> almanacFolder \<Rightarrow> pgTables \<Rightarrow> almanacFolder \<times> pgTables \<times> int option" where
  \<comment> \<open>\<open>None\<close>: an error; \<open>ok\<close> and \<open>okForce\<close> are the fates of the two transactions\<close>
  "pruneCutoff ok okForce now probe cutoff f tb =
     (if \<not> ok then (f, tb, None)
      else let (tb, w) = ensureWatermark (utcDayIndex now) tb;
               dec = almanacPruneDecide cutoff w almanacFoldGraceDays (almanacDiskOverThreshold probe)
           in if \<not> pd_Force dec then (f, tb, Some (pd_DeleteBelow dec))
              else case forceAdvance okForce (pd_NewWatermark dec) tb of
                     Inl _ \<Rightarrow> (f, tb, None)
                   | Inr (tb, n) \<Rightarrow>
                       let f = (if pd_NewWatermark dec > fo_watermark f then f\<lparr>fo_watermark := pd_NewWatermark dec\<rparr> else f)
                       in (refreshLostDays tb f, tb, Some (pd_DeleteBelow dec)))"

definition pruneRegionDaily :: "int \<Rightarrow> pgTables \<Rightarrow> pgTables" where
  \<comment> \<open>the batches of \<open>pruneDayIndexedBaselineOlderThan\<close> on the region table, when all succeed\<close>
  "pruneRegionDaily below tb = tb\<lparr>tb_region := filter (\<lambda>kv. \<not> dk_DayIndex (fst kv) < below) (tb_region tb)\<rparr>"

definition pruneGateEscalate :: "nat \<Rightarrow> bool" where
  "pruneGateEscalate n \<longleftrightarrow> n = 3 \<or> n > 3 \<and> (n - 3) mod 24 = 0"

definition pruneRegionBaselinesGated :: "int option \<Rightarrow> nat \<Rightarrow> pgTables \<Rightarrow> nat \<times> pgTables" where
  \<comment> \<open>the gate's answer and the failure streak; the two other tables are not modelled\<close>
  "pruneRegionBaselinesGated gate streak tb =
     (case gate of None \<Rightarrow> (streak + 1, tb) | Some below \<Rightarrow> (0, pruneRegionDaily below tb))"

end
