(* ===== verification/Archive.thy ===== *)
theory Archive
  imports AlmanacFold
begin

text \<open>
  The seasonal record as a whole: spots observed at any time, the flusher, the fold run and the
  retention prune as the steps of one system, interleaved in any order, with failing flushes,
  failing folds and forced prunes. The ledger counts, beside the system, the spots the baseline
  accepted for each key. Its claim is that the record keeps them: the cell of a folded day that is
  not recorded lost holds the number of spots ever accepted for it, whatever was pruned since.
  A restart that drops the queue is not a step.
\<close>

section \<open>The system\<close>

record archSys =
  ay_store :: pgStore
  ay_tables :: pgTables
  ay_now :: int
  ay_batch :: "flushBatch option" \<comment> \<open>the flush that has swapped the queue out\<close>
  ay_run :: "(int \<times> int) option" \<comment> \<open>the fold run: its \<open>now\<close> and its watermark\<close>
  ay_gate :: "(int \<times> int \<times> bool) option" \<comment> \<open>the prune gate: cutoff, watermark read, disk full\<close>
  ay_below :: "int option" \<comment> \<open>what the running prune deletes below\<close>
  ay_first :: "int option" \<comment> \<open>the watermark of the first deploy\<close>

type_synonym ledger = "regionDailyKey \<Rightarrow> nat"

definition credit :: "MQTTMessage \<Rightarrow> string \<Rightarrow> int \<Rightarrow> ledger \<Rightarrow> ledger" where
  "credit m band now L = (\<lambda>k. if k \<in> set (acceptedKeys m band now) then L k + 1 else L k)"

definition withWatermark :: "archSys \<Rightarrow> archSys \<times> int" where
  \<comment> \<open>\<open>ensureWatermark\<close> at the current time\<close>
  "withWatermark s =
     (let (tb, w) = ensureWatermark (utcDayIndex (ay_now s)) (ay_tables s)
      in (s\<lparr>ay_tables := tb, ay_first := (if tb_watermark (ay_tables s) = None then Some w else ay_first s)\<rparr>, w))"

inductive archStep :: "archSys \<times> ledger \<Rightarrow> archSys \<times> ledger \<Rightarrow> bool" where
  clock: "ay_now s \<le> t \<Longrightarrow> archStep (s, L) (s\<lparr>ay_now := t\<rparr>, L)"
| observe: "archStep (s, L) (s\<lparr>ay_store := fst (pg_observe m band sl dt ti (ay_now s) (ay_store s))\<rparr>, credit m band (ay_now s) L)"
| flush_begin: "ay_batch s = None \<Longrightarrow> flushBegin (ay_store s) = (st, Some b) \<Longrightarrow>
    archStep (s, L) (s\<lparr>ay_store := st, ay_batch := Some b\<rparr>, L)"
| flush_idle: "ay_batch s = None \<Longrightarrow> flushBegin (ay_store s) = (st, None) \<Longrightarrow>
    archStep (s, L) (s\<lparr>ay_store := st\<lparr>pg_baselineFlushLastOK := ay_now s\<rparr>\<rparr>, L)"
| flush_commit: "ay_batch s = Some b \<Longrightarrow>
    archStep (s, L) (s\<lparr>ay_store := (setInflightRegion [] (ay_store s))\<lparr>pg_baselineFlushLastOK := ay_now s\<rparr>,
      ay_tables := baselineFlushStmts (pg_snrColumns (ay_store s)) b (ay_tables s), ay_batch := None\<rparr>, L)"
| flush_fail: "ay_batch s = Some b \<Longrightarrow>
    archStep (s, L) (s\<lparr>ay_store := setInflightRegion [] (mergePendingBack b (ay_store s)), ay_batch := None\<rparr>, L)"
| run_begin: "ay_run s = None \<Longrightarrow> withWatermark s = (s', w) \<Longrightarrow> archStep (s, L) (s'\<lparr>ay_run := Some (ay_now s, w)\<rparr>, L)"
| run_day: "ay_run s = Some (t, w) \<Longrightarrow>
    almanacDayFinal (w + 1) t (pg_baselineFlushLastOK (ay_store s)) (pendingRegionMinDay (ay_store s)) \<Longrightarrow>
    foldDay True (w + 1) (ay_tables s) = Inr (tb, nw) \<Longrightarrow>
    archStep (s, L) (s\<lparr>ay_tables := tb, ay_run := Some (t, nw)\<rparr>, L)"
| run_end: "archStep (s, L) (s\<lparr>ay_run := None\<rparr>, L)"
| gate: "ay_gate s = None \<Longrightarrow> cutoff \<le> utcDayIndex (ay_now s) - 1 \<Longrightarrow> withWatermark s = (s', w) \<Longrightarrow>
    archStep (s, L) (s'\<lparr>ay_gate := Some (cutoff, w, diskOver)\<rparr>, L)"
| gate_keep: "ay_gate s = Some (cutoff, w, diskOver) \<Longrightarrow> dec = almanacPruneDecide cutoff w almanacFoldGraceDays diskOver \<Longrightarrow>
    \<not> pd_Force dec \<Longrightarrow> archStep (s, L) (s\<lparr>ay_gate := None, ay_below := Some (pd_DeleteBelow dec)\<rparr>, L)"
| gate_force: "ay_gate s = Some (cutoff, w, diskOver) \<Longrightarrow> dec = almanacPruneDecide cutoff w almanacFoldGraceDays diskOver \<Longrightarrow>
    pd_Force dec \<Longrightarrow> forceAdvance True (pd_NewWatermark dec) (ay_tables s) = Inr (tb, n) \<Longrightarrow>
    archStep (s, L) (s\<lparr>ay_tables := tb, ay_gate := None, ay_below := Some (pd_DeleteBelow dec)\<rparr>, L)"
| gate_fail: "archStep (s, L) (s\<lparr>ay_gate := None\<rparr>, L)"
| prune: "ay_below s = Some d \<Longrightarrow>
    archStep (s, L) (s\<lparr>ay_tables := (ay_tables s)\<lparr>tb_region :=
      filter (\<lambda>kv. \<not> (dk_DayIndex (fst kv) < d \<and> fst kv \<in> batch)) (tb_region (ay_tables s))\<rparr>\<rparr>, L)"
| prune_end: "archStep (s, L) (s\<lparr>ay_below := None\<rparr>, L)"

definition deltas_ok :: "(regionDailyKey \<times> regionDelta) list \<Rightarrow> bool" where
  "deltas_ok al \<longleftrightarrow> distinct (map fst al) \<and> (\<forall>kv\<in>set al. 0 \<le> rd_Count (snd kv) \<and> length (rd_GE (snd kv)) = 5)"

definition deltaCount :: "(regionDailyKey \<times> regionDelta) list \<Rightarrow> regionDailyKey \<Rightarrow> int" where
  "deltaCount al k = rd_Count (valueOf zeroDelta al k)"

definition archStart :: "archSys \<Rightarrow> ledger \<Rightarrow> bool" where
  \<comment> \<open>the first deploy: a daily table that may hold days already, an empty queue, no seasonal record\<close>
  "archStart s L \<longleftrightarrow> pg_pendingRegion (ay_store s) = [] \<and> pg_inflightRegion (ay_store s) = [] \<and> ay_batch s = None \<and> ay_run s = None \<and>
     ay_gate s = None \<and> ay_below s = None \<and> ay_first s = None \<and> tb_watermark (ay_tables s) = None \<and>
     tb_season (ay_tables s) = [] \<and> deltas_ok (tb_region (ay_tables s)) \<and> L = (\<lambda>k. nat (deltaCount (tb_region (ay_tables s)) k))"

inductive archReach :: "archSys \<times> ledger \<Rightarrow> bool" where
  init: "archStart s L \<Longrightarrow> archReach (s, L)"
| step: "archReach x \<Longrightarrow> archStep x y \<Longrightarrow> archReach y"

definition cellAt :: "((segKey \<times> int) \<times> nat list) list \<Rightarrow> segKey \<Rightarrow> int \<Rightarrow> nat \<Rightarrow> nat" where
  \<comment> \<open>the decoded count of a day's slot\<close>
  "cellAt season sk day i =
     (let (ym, d) = almanacYearMonthDOM day in fst (rowOf (map_of season (sk, ym))) ! (almanacSegmentOffset d + i))"

definition segOf :: "regionDailyKey \<Rightarrow> segKey" where
  "segOf k = (dk_TargetGrid4 k, dk_Band k, dk_Region k)"

section \<open>Facts: deltas\<close>

lemma deltas_Nil [simp]: "deltas_ok []"
  by (simp add: deltas_ok_def)

lemma deltaCount_Nil [simp]: "deltaCount [] k = 0"
  by (simp add: deltaCount_def zeroDelta_def)

lemma valueOf_mem: "valueOf z al k = z \<or> (k, valueOf z al k) \<in> set al"
  by (auto simp: valueOf_def split: option.split dest: map_of_SomeD)

lemma deltas_value: "deltas_ok al \<Longrightarrow> 0 \<le> rd_Count (valueOf zeroDelta al k) \<and> length (rd_GE (valueOf zeroDelta al k)) = 5"
  using valueOf_mem [of zeroDelta al k] by (auto simp: deltas_ok_def zeroDelta_def)

lemma bump_mem: "kv \<in> set (bumpAt z k f al) \<Longrightarrow> kv = (k, f (valueOf z al k)) \<or> kv \<in> set al"
  using alist_update_mem by (fastforce simp: bumpAt_def)

lemma deltas_bump:
  assumes "deltas_ok al" "\<And>d. 0 \<le> rd_Count d \<Longrightarrow> length (rd_GE d) = 5 \<Longrightarrow> 0 \<le> rd_Count (f d) \<and> length (rd_GE (f d)) = 5"
  shows "deltas_ok (bumpAt zeroDelta k f al)"
  using assms(1) assms(2) [of "valueOf zeroDelta al k"] deltas_value [OF assms(1), of k]
  unfolding deltas_ok_def by (auto dest!: bump_mem)

lemma observeSpot_ok: "0 \<le> rd_Count d \<Longrightarrow> length (rd_GE d) = 5 \<Longrightarrow> 0 \<le> rd_Count (observeSpot rp h d) \<and> length (rd_GE (observeSpot rp h d)) = 5"
  by (simp add: observeSpot_def almanacSNRTierFloors_def Let_def)

lemma observeSpot_count: "rd_Count (observeSpot rp h d) = rd_Count d + 1"
  by (simp add: observeSpot_def Let_def)

lemma deltas_merge:
  assumes "deltas_ok al" "\<forall>kv\<in>set batch. 0 \<le> rd_Count (snd kv) \<and> length (rd_GE (snd kv)) = 5"
  shows "deltas_ok (mergeInto regionDelta_add zeroDelta al batch)"
  using assms
proof (induction batch arbitrary: al)
  case (Cons p batch)
  obtain k v where p: "p = (k, v)" by (cases p)
  have "deltas_ok (bumpAt zeroDelta k (\<lambda>e. regionDelta_add e v) al)"
    using Cons.prems p by (intro deltas_bump) (auto simp: regionDelta_add_def)
  then show ?case using Cons p by simp
qed simp

lemma deltaCount_merge:
  "distinct (map fst batch) \<Longrightarrow> deltaCount (mergeInto regionDelta_add zeroDelta al batch) k = deltaCount al k + deltaCount batch k"
  by (simp add: deltaCount_def valueOf_merge valueOf_absent regionDelta_add_def zeroDelta_def)

lemma deltaCount_upsert:
  "deltaCount (map (\<lambda>(k, v). (k, regionUpsert withSNR v)) al) k = deltaCount al k"
  by (induction al) (auto simp: deltaCount_def valueOf_def regionUpsert_def)

lemma deltas_upsert: "deltas_ok al \<Longrightarrow> \<forall>kv\<in>set (map (\<lambda>(k, v). (k, regionUpsert withSNR v)) al). 0 \<le> rd_Count (snd kv) \<and> length (rd_GE (snd kv)) = 5"
  by (auto simp: deltas_ok_def regionUpsert_def zeroDelta_def)

lemma keys_upsert: "map fst (map (\<lambda>(k, v). (k, regionUpsert withSNR v)) al) = map fst al"
  by (induction al) auto

lemma flush_region:
  assumes "deltas_ok (tb_region tb)" "deltas_ok (fb_region b)"
  shows "deltas_ok (tb_region (baselineFlushStmts withSNR b tb))"
    "deltaCount (tb_region (baselineFlushStmts withSNR b tb)) k = deltaCount (tb_region tb) k + deltaCount (fb_region b) k"
proof -
  have d: "distinct (map fst (map (\<lambda>(k, v). (k, regionUpsert withSNR v)) (fb_region b)))"
    using assms(2) unfolding keys_upsert by (simp add: deltas_ok_def)
  show "deltas_ok (tb_region (baselineFlushStmts withSNR b tb))"
    unfolding baselineFlushStmts_def using deltas_merge [OF assms(1) deltas_upsert [OF assms(2)]] by simp
  show "deltaCount (tb_region (baselineFlushStmts withSNR b tb)) k = deltaCount (tb_region tb) k + deltaCount (fb_region b) k"
    using deltaCount_merge [OF d, of "tb_region tb" k] by (simp add: baselineFlushStmts_def deltaCount_upsert)
qed

section \<open>Facts: observing\<close>

lemma accepted_distinct: "distinct (acceptedKeys m band now)"
  by (auto simp: acceptedKeys_def dxPulseRegionBaselineKeysForSpot_def appendRegionKey_def Let_def)

lemma accepted_days: "k \<in> set (acceptedKeys m band now) \<Longrightarrow> dk_DayIndex k = utcDayIndex (T m) \<and> T m \<ge> now - 86400"
  by (auto simp: acceptedKeys_def dxPulseRegionBaselineKeysForSpot_def appendRegionKey_def almanacRegionTimestampAccepted_def
      almanacLateSpotMaxAgeSeconds_def Let_def split: if_splits)

lemma queueRegion_fold:
  "distinct ks \<Longrightarrow> deltaCount (pg_pendingRegion (foldl (queueRegion m) s ks)) k =
     deltaCount (pg_pendingRegion s) k + (if k \<in> set ks then 1 else 0)"
  "deltas_ok (pg_pendingRegion s) \<Longrightarrow> deltas_ok (pg_pendingRegion (foldl (queueRegion m) s ks))"
  "pg_inflightRegion (foldl (queueRegion m) s ks) = pg_inflightRegion s"
proof (induction ks arbitrary: s)
  case (Cons j ks)
  { case 1
    then show ?case using Cons.IH(1) [of "queueRegion m s j"] by (auto simp: queueRegion_def deltaCount_def observeSpot_count) }
  { case 2
    then have "deltas_ok (pg_pendingRegion (queueRegion m s j))" by (simp add: queueRegion_def deltas_bump observeSpot_ok)
    then show ?case using Cons.IH(2) by simp }
  { case 3 show ?case using Cons.IH(3) [of "queueRegion m s j"] by (simp add: queueRegion_def) }
qed simp_all

lemma trim_kept: "pg_pendingRegion (trimPendingRawSpotsLocked s) = pg_pendingRegion s"
  "pg_inflightRegion (trimPendingRawSpotsLocked s) = pg_inflightRegion s"
  by (simp_all add: trimPendingRawSpotsLocked_def split: prod.split)

lemma cluster_kept: "pg_pendingRegion (queueCluster b sl d t s loc) = pg_pendingRegion s"
  "pg_inflightRegion (queueCluster b sl d t s loc) = pg_inflightRegion s"
  by (simp_all add: queueCluster_def split: option.split)

lemma observe_region:
  fixes m band sl dt ti now s
  defines "s' \<equiv> fst (pg_observe m band sl dt ti now s)"
  shows "deltaCount (pg_pendingRegion s') k = deltaCount (pg_pendingRegion s) k + (if k \<in> set (acceptedKeys m band now) then 1 else 0)"
    "deltas_ok (pg_pendingRegion s) \<Longrightarrow> deltas_ok (pg_pendingRegion s')"
    "pg_inflightRegion s' = pg_inflightRegion s"
proof -
  define s0 where "s0 = s\<lparr>pg_pendingGlobal := bumpAt 0 \<lparr>gk_Band = band, gk_SlotOfDay = sl, gk_DistanceTier = dt, gk_SnrTier = ti\<rparr>
      (\<lambda>c. c + 1) (pg_pendingGlobal s), pg_pendingCount := pg_pendingCount s + 1\<rparr>"
  have p: "pg_pendingRegion s' = pg_pendingRegion (foldl (queueRegion m) s0 (acceptedKeys m band now))"
    and i: "pg_inflightRegion s' = pg_inflightRegion (foldl (queueRegion m) s0 (acceptedKeys m band now))"
    unfolding s'_def pg_observe_def Let_def fst_conv s0_def by (simp_all add: trim_kept cluster_kept)
  have s0: "pg_pendingRegion s0 = pg_pendingRegion s" "pg_inflightRegion s0 = pg_inflightRegion s" by (simp_all add: s0_def)
  show "deltaCount (pg_pendingRegion s') k = deltaCount (pg_pendingRegion s) k + (if k \<in> set (acceptedKeys m band now) then 1 else 0)"
    unfolding p queueRegion_fold(1) [OF accepted_distinct] s0 ..
  show "deltas_ok (pg_pendingRegion s) \<Longrightarrow> deltas_ok (pg_pendingRegion s')" unfolding p using queueRegion_fold(2) s0(1) by metis
  show "pg_inflightRegion s' = pg_inflightRegion s" unfolding i queueRegion_fold(3) s0 ..
qed

section \<open>Facts: the fold of a day\<close>

definition keyAt :: "segKey \<Rightarrow> int \<Rightarrow> nat \<Rightarrow> regionDailyKey" where
  "keyAt sk day i = \<lparr>dk_TargetGrid4 = fst sk, dk_Band = fst (snd sk), dk_SlotOfDay = int i,
     dk_Region = snd (snd sk), dk_DayIndex = day\<rparr>"

lemma keyAt_self: "0 \<le> dk_SlotOfDay k \<Longrightarrow> keyAt (segOf k) (dk_DayIndex k) (nat (dk_SlotOfDay k)) = k"
  by (cases k) (simp add: keyAt_def segOf_def)

lemma keyAt_iff: "k = keyAt sk day i \<longleftrightarrow> segOf k = sk \<and> dk_DayIndex k = day \<and> dk_SlotOfDay k = int i"
  by (cases k; cases sk) (auto simp: keyAt_def segOf_def)

lemma zeroHist_length [simp]: "length zeroHist = 6"
  by (simp add: zeroHist_def almanacSNRBins_def)

lemma histFromCounts_length: "length ge = 5 \<Longrightarrow> length (almanacSNRHistFromCounts n ge) = 6"
proof -
  have "length (histFromCounts_loop n ge) = Suc (length ge)" for n ge by (induction ge arbitrary: n) simp_all
  then show "length ge = 5 \<Longrightarrow> ?thesis" by (simp add: almanacSNRHistFromCounts_def)
qed

lemma satAdd8_0: "satAdd8 0 (max v 0) = satAdd8 0 v" "v \<le> 0 \<Longrightarrow> satAdd8 p v = p"
  by (simp_all add: satAdd8_def)

definition segAt :: "almanacDayFold \<Rightarrow> segKey \<Rightarrow> nat list" where
  "segAt f sk = valueOf (replicate 48 0) (df_Segments f) sk"

definition fold_ok :: "almanacDayFold \<Rightarrow> bool" where
  "fold_ok f \<longleftrightarrow> distinct (map fst (df_Segments f)) \<and> (\<forall>kv\<in>set (df_Segments f). length (snd kv) = 48) \<and>
     (\<forall>kv\<in>set (df_Hist f). length (snd kv) = 48 \<and> (\<forall>h\<in>set (snd kv). length h = 6))"

lemma fold_ok_seg: "fold_ok f \<Longrightarrow> length (segAt f sk) = 48"
  using valueOf_mem [of "replicate 48 0" "df_Segments f" sk] by (auto simp: fold_ok_def segAt_def)

lemma fold_ok_hist:
  assumes "fold_ok f"
  shows "length (valueOf (replicate 48 zeroHist) (df_Hist f) sk) = 48 \<and>
    (\<forall>h\<in>set (valueOf (replicate 48 zeroHist) (df_Hist f) sk). length h = 6)"
  using valueOf_mem [of "replicate 48 zeroHist" "df_Hist f" sk] assms by (auto simp: fold_ok_def)

lemma fold_add_segAt:
  assumes "fold_ok f"
  shows "segAt (fold_add f r) sk =
    (if sk = ar_Key r \<and> 0 \<le> ar_Slot r \<and> ar_Slot r < 48
     then (segAt f sk)[nat (ar_Slot r) := satAdd8 (segAt f sk ! nat (ar_Slot r)) (ar_Count r)] else segAt f sk)"
  by (auto simp: fold_add_def Let_def segAt_def satAdd8_0)

lemma fold_add_ok:
  assumes "fold_ok f" "length (ar_GE r) = 5"
  shows "fold_ok (fold_add f r)"
proof -
  define i where "i = nat (ar_Slot r)"
  define hs where "hs = valueOf (replicate 48 zeroHist) (df_Hist f) (ar_Key r)"
  define nw where "nw = hs[i := almanacSNRHist_add (hs ! i) (almanacSNRHistFromCounts (ar_SNR r) (ar_GE r))]"
  have hs: "length hs = 48" "\<forall>h\<in>set hs. length h = 6" using fold_ok_hist [OF assms(1)] by (simp_all add: hs_def)
  have nw: "length nw = 48 \<and> (\<forall>h\<in>set nw. length h = 6)" if "i < 48"
    using hs that histFromCounts_length [OF assms(2), of "ar_SNR r"] nth_mem [of i hs]
    by (auto simp: nw_def almanacSNRHist_add_def dest!: set_update_subset_insert [THEN subsetD])
  have seg: "length (valueOf (replicate 48 0) (df_Segments f) k) = 48" for k using fold_ok_seg [OF assms(1)] by (simp add: segAt_def)
  show ?thesis
  proof (cases "ar_Slot r < 0 \<or> ar_Slot r \<ge> 48 \<or> ar_Count r \<le> 0")
    case True
    then show ?thesis using assms(1) by (simp add: fold_add_def)
  next
    case False
    then have "i < 48" by (simp add: i_def nat_less_iff)
    have parts: "df_Segments (fold_add f r) = bumpAt (replicate 48 0) (ar_Key r) (\<lambda>seg. seg[i := satAdd8 (seg ! i) (ar_Count r)]) (df_Segments f)"
      "df_Hist (fold_add f r) = (if ar_SNR r > 0 then bumpAt (replicate 48 zeroHist) (ar_Key r)
         (\<lambda>hs. hs[i := almanacSNRHist_add (hs ! i) (almanacSNRHistFromCounts (ar_SNR r) (ar_GE r))]) (df_Hist f) else df_Hist f)"
      using False by (simp_all add: fold_add_def Let_def i_def)
    have "length (snd kv) = 48" if "kv \<in> set (df_Segments (fold_add f r))" for kv
      using bump_mem [OF that [unfolded parts]] assms(1) seg [of "ar_Key r"] by (auto simp: fold_ok_def)
    moreover have "length (snd kv) = 48 \<and> (\<forall>h\<in>set (snd kv). length h = 6)" if "kv \<in> set (df_Hist (fold_add f r))" for kv
    proof (cases "ar_SNR r > 0")
      case True
      then have "kv \<in> set (bumpAt (replicate 48 zeroHist) (ar_Key r)
         (\<lambda>hs. hs[i := almanacSNRHist_add (hs ! i) (almanacSNRHistFromCounts (ar_SNR r) (ar_GE r))]) (df_Hist f))"
        using that parts(2) by simp
      from bump_mem [OF this] have "kv = (ar_Key r, nw) \<or> kv \<in> set (df_Hist f)" by (simp add: nw_def hs_def)
      then show ?thesis using nw [OF \<open>i < 48\<close>] assms(1) by (auto simp: fold_ok_def)
    next
      case False
      then show ?thesis using that parts(2) assms(1) by (auto simp: fold_ok_def)
    qed
    moreover have "distinct (map fst (df_Segments (fold_add f r)))" using assms(1) by (simp add: parts fold_ok_def)
    ultimately show ?thesis unfolding fold_ok_def by blast
  qed
qed

lemma dailyRow_facts: "segOf (fst kv) = ar_Key (dailyRow w kv)" "ar_Slot (dailyRow w kv) = dk_SlotOfDay (fst kv)"
  "ar_Count (dailyRow w kv) = rd_Count (snd kv)" "length (rd_GE (snd kv)) = 5 \<Longrightarrow> length (ar_GE (dailyRow w kv)) = 5"
  by (cases kv; simp add: dailyRow_def segOf_def)+

lemma rows_fold:
  fixes w
  assumes "distinct (map fst rows)" "\<forall>kv\<in>set rows. dk_DayIndex (fst kv) = day \<and> length (rd_GE (snd kv)) = 5"
  defines "f \<equiv> foldl fold_add (newAlmanacDayFold day) (map (dailyRow w) rows)"
  shows "fold_ok f \<and> (\<forall>sk i. i < 48 \<longrightarrow> segAt f sk ! i = satAdd8 0 (deltaCount rows (keyAt sk day i)))"
  using assms(1,2) unfolding f_def
proof (induction rows rule: rev_induct)
  case Nil
  show ?case by (simp add: newAlmanacDayFold_def fold_ok_def segAt_def satAdd8_0 split: prod.split)
next
  case (snoc kv rows)
  define f where "f = foldl fold_add (newAlmanacDayFold day) (map (dailyRow w) rows)"
  have f: "fold_ok f" "\<And>sk i. i < 48 \<Longrightarrow> segAt f sk ! i = satAdd8 0 (deltaCount rows (keyAt sk day i))"
    using snoc unfolding f_def by (simp, metis (no_types, lifting) Un_iff distinct_append map_append set_append snoc.IH snoc.prems)
  obtain k v where kv: "kv = (k, v)" by (cases kv)
  have k: "k \<notin> fst ` set rows" "dk_DayIndex k = day" "length (rd_GE v) = 5" using snoc.prems kv by auto
  have count: "deltaCount (rows @ [kv]) j = (if j = k then rd_Count v else deltaCount rows j)" for j
    using k(1) map_of_eq_None_iff [of rows k] by (auto simp: deltaCount_def valueOf_def map_add_def kv split: option.split)
  have none: "deltaCount rows k = 0" using valueOf_absent [OF k(1)] by (simp add: deltaCount_def zeroDelta_def)
  have "fold_ok (fold_add f (dailyRow w kv))" using f(1) k(3) by (intro fold_add_ok dailyRow_facts(4)) (simp_all add: kv)
  moreover have "segAt (fold_add f (dailyRow w kv)) sk ! i = satAdd8 0 (deltaCount (rows @ [kv]) (keyAt sk day i))" if i: "i < 48" for sk i
  proof (cases "keyAt sk day i = k")
    case True
    then have "segOf k = sk" "dk_SlotOfDay k = int i" by (metis keyAt_iff)+
    then show ?thesis
      using i f(2) [OF i, of sk] none fold_ok_seg [OF f(1), of sk] True count [of k]
      by (simp add: fold_add_segAt [OF f(1)] dailyRow_facts(1) [symmetric] dailyRow_facts(2,3) kv satAdd8_0(2))
  next
    case False
    then have "segOf k \<noteq> sk \<or> dk_SlotOfDay k \<noteq> int i" using k(2) keyAt_iff [of k sk day i] by metis
    then have "segOf k \<noteq> sk \<or> nat (dk_SlotOfDay k) \<noteq> i \<or> dk_SlotOfDay k < 0" by linarith
    then show ?thesis
      using i f(2) [OF i, of sk] False count [of "keyAt sk day i"]
      by (auto simp: fold_add_segAt [OF f(1)] dailyRow_facts(1) [symmetric] dailyRow_facts(2,3) kv)
  qed
  ultimately show ?case by (simp add: f_def)
qed

lemma deltaCount_filter:
  assumes "distinct (map fst al)"
  shows "deltaCount (filter (\<lambda>kv. P (fst kv)) al) k = (if P k then deltaCount al k else 0)"
proof -
  have "map_of (filter (\<lambda>kv. P (fst kv)) al) k = (if P k then map_of al k else None)"
    by (induction al) auto
  then show ?thesis by (simp add: deltaCount_def valueOf_def zeroDelta_def)
qed

lemma foldOf_seg:
  assumes "deltas_ok (tb_region tb)"
  shows "fold_ok (foldOf day w tb)" "i < 48 \<Longrightarrow> segAt (foldOf day w tb) sk ! i = satAdd8 0 (deltaCount (tb_region tb) (keyAt sk day i))"
proof -
  define rows where "rows = filter (\<lambda>kv. dk_DayIndex (fst kv) = day) (tb_region tb)"
  have r: "distinct (map fst rows)" "\<forall>kv\<in>set rows. dk_DayIndex (fst kv) = day \<and> length (rd_GE (snd kv)) = 5"
    using assms by (auto simp: rows_def deltas_ok_def intro: distinct_keys_filter)
  have "deltaCount rows (keyAt sk day i) = deltaCount (tb_region tb) (keyAt sk day i)"
    using assms deltaCount_filter [of "tb_region tb" "\<lambda>k. dk_DayIndex k = day"] by (simp add: rows_def deltas_ok_def keyAt_def)
  then show "fold_ok (foldOf day w tb)" "i < 48 \<Longrightarrow> segAt (foldOf day w tb) sk ! i = satAdd8 0 (deltaCount (tb_region tb) (keyAt sk day i))"
    unfolding foldOf_def rows_def [symmetric] using rows_fold [OF r, of w] by (blast, metis)
qed

lemma fold_add_day: "df_YearMonth (fold_add f r) = df_YearMonth f" "df_DayOfMonth (fold_add f r) = df_DayOfMonth f"
  by (simp_all add: fold_add_def Let_def)

lemma foldOf_day: "(df_YearMonth (foldOf day w tb), df_DayOfMonth (foldOf day w tb)) = almanacYearMonthDOM day"
proof -
  have "(df_YearMonth (foldl fold_add f rs), df_DayOfMonth (foldl fold_add f rs)) = (df_YearMonth f, df_DayOfMonth f)" for f rs
    by (induction rs arbitrary: f) (simp_all add: fold_add_day)
  then show ?thesis by (simp add: foldOf_def newAlmanacDayFold_def split: prod.split)
qed

lemma fold_update:
  assumes "distinct (map fst kvs)"
  shows "map_of (foldl (\<lambda>t (k, v). AList.update (k, ym) (g k v (map_of t (k, ym))) t) t kvs) (k, ym') =
    (if ym' = ym then (case map_of kvs k of Some v \<Rightarrow> Some (g k v (map_of t (k, ym))) | None \<Rightarrow> map_of t (k, ym)) else map_of t (k, ym'))"
  using assms
proof (induction kvs arbitrary: t)
  case (Cons p kvs)
  obtain j v where p: "p = (j, v)" by (cases p)
  define t' where "t' = AList.update (j, ym) (g j v (map_of t (j, ym))) t"
  have t': "map_of t' (k', y) = (if k' = j \<and> y = ym then Some (g j v (map_of t (j, ym))) else map_of t (k', y))" for k' y
    by (simp add: t'_def map_of_update)
  have e: "foldl (\<lambda>t (k, v). AList.update (k, ym) (g k v (map_of t (k, ym))) t) t (p # kvs) =
      foldl (\<lambda>t (k, v). AList.update (k, ym) (g k v (map_of t (k, ym))) t) t' kvs"
    by (simp add: p t'_def)
  have j: "map_of kvs j = None" "distinct (map fst kvs)" using Cons.prems p by (simp_all add: map_of_eq_None_iff)
  show ?case
    unfolding e Cons.IH [OF j(2), of t'] t' using j(1) by (cases "k = j") (simp_all add: p split: option.split)
qed simp

lemma copyAt_nth:
  "off + length seg \<le> length xs \<Longrightarrow> n < length xs \<Longrightarrow> copyAt off seg xs ! n = (if off \<le> n \<and> n < off + length seg then seg ! (n - off) else xs ! n)"
  by (auto simp: copyAt_def nth_append)

lemma fold_day_ok:
  assumes "fold_ok f" "map_of (df_Segments f) k = Some seg" "1 \<le> df_DayOfMonth f" "df_DayOfMonth f \<le> 31"
  shows "day_ok (df_DayOfMonth f) seg (case map_of (df_Hist f) k of Some hs \<Rightarrow> hs | None \<Rightarrow> replicate 48 zeroHist)"
proof -
  have "(k, seg) \<in> set (df_Segments f)" using assms(2) by (rule map_of_SomeD)
  then have "length seg = 48" using assms(1) by (fastforce simp: fold_ok_def)
  then show ?thesis using fold_ok_hist [OF assms(1), of k] assms(3,4) by (simp add: day_ok_def valueOf_def)
qed

lemma replace_none: "almanacSparseReplaceDay e d seg h = almanacSparseReplaceDay e d seg (Some (case h of Some hs \<Rightarrow> hs | None \<Rightarrow> replicate 48 zeroHist))"
  by (simp add: almanacSparseReplaceDay_def almanacSeasonSlotsPerDay_def split: option.split)

definition rowCell :: "nat list option \<Rightarrow> nat \<Rightarrow> nat \<Rightarrow> nat" where
  "rowCell e d i = fst (rowOf e) ! (almanacSegmentOffset d + i)"

lemma replaced_cell:
  assumes "day_ok d seg hs" "1 \<le> d'" "d' \<le> 31" "i < 48"
  shows "rowCell (Some (fst (almanacSparseReplaceDay e d seg (Some hs)))) d' i = (if d' = d then seg ! i else rowCell e d' i)"
proof -
  have l: "length (fst (rowOf e)) = almanacSeasonCountsLen" using rowOf_ok [of e] by (simp add: grid_ok_def)
  have d: "1 \<le> d" "d \<le> 31" "length seg = 48" using assms(1) by (simp_all add: day_ok_def)
  obtain n n' where n: "d = Suc n" "d' = Suc n'" using d(1) assms(2) by (metis One_nat_def Suc_le_D)
  have "d' \<noteq> d \<Longrightarrow> \<not> (n * 48 \<le> n' * 48 + i \<and> n' * 48 + i < n * 48 + 48)" using n assms(4) by linarith
  then show ?thesis
    unfolding rowCell_def replace_day_row(1) [OF assms(1)] fst_conv almanacSegmentOffset_def almanacSeasonSlotsPerDay_def
    using n d l assms(2-4) by (subst copyAt_nth) (auto simp: almanacSeasonCountsLen_def)
qed

lemma cellAt_row: "almanacYearMonthDOM day = (ym, d) \<Longrightarrow> cellAt season sk day i = rowCell (map_of season (sk, ym)) d i"
  by (simp add: cellAt_def rowCell_def)

lemma season_cell:
  assumes "fold_ok f" "(df_YearMonth f, df_DayOfMonth f) = almanacYearMonthDOM day" "i < 48"
  shows "cellAt (foldSeasonRows f season) sk day' i =
    (if day' = day \<and> sk \<in> fst ` set (df_Segments f) then segAt f sk ! i else cellAt season sk day' i)"
proof -
  define g where "g k seg e = fst (almanacSparseReplaceDay e (df_DayOfMonth f) seg (map_of (df_Hist f) k))" for k seg e
  have rows: "map_of (foldSeasonRows f season) (sk, ym) =
      (if ym = df_YearMonth f then (case map_of (df_Segments f) sk of Some v \<Rightarrow> Some (g sk v (map_of season (sk, ym))) | None \<Rightarrow> map_of season (sk, ym))
       else map_of season (sk, ym))" for ym
    using fold_update [of "df_Segments f" "df_YearMonth f" g season sk ym] assms(1)
    by (cases "ym = df_YearMonth f") (simp_all add: foldSeasonRows_def g_def fold_ok_def cong: option.case_cong)
  obtain ym d where ymd: "almanacYearMonthDOM day' = (ym, d)" by (cases "almanacYearMonthDOM day'")
  note d = YearMonthDOM_range [OF ymd]
  have D: "1 \<le> df_DayOfMonth f" "df_DayOfMonth f \<le> 31" using YearMonthDOM_range [OF assms(2) [symmetric]] by simp_all
  show ?thesis
  proof (cases "ym = df_YearMonth f \<and> map_of (df_Segments f) sk \<noteq> None")
    case True
    then obtain seg where seg: "map_of (df_Segments f) sk = Some seg" by blast
    then have mem: "sk \<in> fst ` set (df_Segments f)" and s: "segAt f sk = seg"
      by (force dest: map_of_SomeD simp: segAt_def valueOf_def)+
    have same: "day' = day \<longleftrightarrow> d = df_DayOfMonth f" using True ymd assms(2) YearMonthDOM_inj [of day' day] by (metis prod.inject)
    have "cellAt (foldSeasonRows f season) sk day' i = rowCell (Some (g sk seg (map_of season (sk, ym)))) d i"
      using True by (simp add: cellAt_row [OF ymd] rows seg)
    also have "\<dots> = (if d = df_DayOfMonth f then seg ! i else rowCell (map_of season (sk, ym)) d i)"
      unfolding g_def by (subst replace_none, rule replaced_cell [OF fold_day_ok [OF assms(1) seg D]]) (use d assms(3) in simp_all)
    finally show ?thesis using same mem s by (simp add: cellAt_row [OF ymd])
  next
    case False
    then have "map_of (foldSeasonRows f season) (sk, ym) = map_of season (sk, ym)" by (auto simp: rows)
    moreover have "\<not> (day' = day \<and> sk \<in> fst ` set (df_Segments f))"
      using False ymd assms(2) map_of_eq_None_iff [of "df_Segments f" sk] by auto
    ultimately show ?thesis by (auto simp: cellAt_row [OF ymd])
  qed
qed

lemma fold_cell:
  assumes "deltas_ok (tb_region tb)" "i < 48" "cellAt (tb_season tb) sk day i = 0"
  shows "cellAt (tb_season (foldDayInTx day w tb)) sk day i = satAdd8 0 (deltaCount (tb_region tb) (keyAt sk day i))"
    "day' \<noteq> day \<Longrightarrow> j < 48 \<Longrightarrow> cellAt (tb_season (foldDayInTx day w tb)) sk day' j = cellAt (tb_season tb) sk day' j"
proof -
  define f where "f = foldOf day w tb"
  have f: "fold_ok f" "segAt f sk ! i = satAdd8 0 (deltaCount (tb_region tb) (keyAt sk day i))"
    "(df_YearMonth f, df_DayOfMonth f) = almanacYearMonthDOM day"
    using foldOf_seg [OF assms(1)] assms(2) foldOf_day by (simp_all add: f_def)
  have s: "tb_season (foldDayInTx day w tb) = (if df_Segments f = [] then tb_season tb else foldSeasonRows f (tb_season tb))"
    by (simp add: foldDayInTx_def Let_def f_def)
  have "segAt f sk ! i = 0" if "sk \<notin> fst ` set (df_Segments f)"
    using that assms(2) valueOf_absent [of sk "df_Segments f" "replicate 48 0"] by (simp add: segAt_def)
  then show "cellAt (tb_season (foldDayInTx day w tb)) sk day i = satAdd8 0 (deltaCount (tb_region tb) (keyAt sk day i))"
    using season_cell [OF f(1,3) assms(2), of "tb_season tb" sk day] assms(3) f(2) by (auto simp: s)
  show "day' \<noteq> day \<Longrightarrow> j < 48 \<Longrightarrow> cellAt (tb_season (foldDayInTx day w tb)) sk day' j = cellAt (tb_season tb) sk day' j"
    using season_cell [OF f(1,3), of j "tb_season tb" sk day'] by (simp add: s)
qed

lemma fold_keeps: "tb_region (foldDayInTx day w tb) = tb_region tb" "tb_lost (foldDayInTx day w tb) = tb_lost tb"
  "tb_watermark (foldDayInTx day w tb) = tb_watermark tb"
  by (simp_all add: foldDayInTx_def Let_def)

section \<open>The invariant\<close>

definition waiting :: "archSys \<Rightarrow> regionDailyKey \<Rightarrow> int" where
  \<comment> \<open>the spots of a key that no table holds yet\<close>
  "waiting s k = deltaCount (pg_pendingRegion (ay_store s)) k + deltaCount (pg_inflightRegion (ay_store s)) k"

definition queued_ok :: "archSys \<Rightarrow> bool" where
  "queued_ok s \<longleftrightarrow> deltas_ok (pg_pendingRegion (ay_store s)) \<and> deltas_ok (pg_inflightRegion (ay_store s)) \<and> deltas_ok (tb_region (ay_tables s)) \<and>
     (case ay_batch s of None \<Rightarrow> [] | Some b \<Rightarrow> fb_region b) = pg_inflightRegion (ay_store s)"

definition marks_ok :: "archSys \<Rightarrow> bool" where
  "marks_ok s \<longleftrightarrow> (case tb_watermark (ay_tables s) of
     None \<Rightarrow> ay_first s = None \<and> ay_run s = None \<and> ay_gate s = None \<and> ay_below s = None
   | Some w \<Rightarrow> (\<exists>w0. ay_first s = Some w0 \<and> w0 \<le> w \<and> (w0 < w \<longrightarrow> w \<le> utcDayIndex (ay_now s) - 2)) \<and>
       (\<forall>t w'. ay_run s = Some (t, w') \<longrightarrow> t \<le> ay_now s \<and> w' \<le> w) \<and>
       (\<forall>c w' full. ay_gate s = Some (c, w', full) \<longrightarrow> w' \<le> w \<and> c \<le> utcDayIndex (ay_now s) - 1) \<and>
       (\<forall>d. ay_below s = Some d \<longrightarrow> d \<le> w + 1))"

definition unfolded :: "archSys \<Rightarrow> int \<Rightarrow> bool" where
  \<comment> \<open>the watermark has not reached the day\<close>
  "unfolded s day \<longleftrightarrow> (\<forall>w. tb_watermark (ay_tables s) = Some w \<longrightarrow> w < day)"

definition foldedDay :: "archSys \<Rightarrow> int \<Rightarrow> bool" where
  \<comment> \<open>passed by the watermark since the first deploy, and not recorded lost\<close>
  "foldedDay s day \<longleftrightarrow> (\<exists>w0 w. ay_first s = Some w0 \<and> tb_watermark (ay_tables s) = Some w \<and> w0 < day \<and> day \<le> w) \<and>
     day \<notin> set (tb_lost (ay_tables s))"

definition recorded :: "archSys \<Rightarrow> ledger \<Rightarrow> bool" where
  "recorded s L \<longleftrightarrow>
     (\<forall>k. unfolded s (dk_DayIndex k) \<longrightarrow> int (L k) = waiting s k + deltaCount (tb_region (ay_tables s)) k) \<and>
     (\<forall>sk day i. i < 48 \<longrightarrow> unfolded s day \<longrightarrow> cellAt (tb_season (ay_tables s)) sk day i = 0) \<and>
     (\<forall>k. foldedDay s (dk_DayIndex k) \<longrightarrow> waiting s k = 0 \<and>
        (0 \<le> dk_SlotOfDay k \<and> dk_SlotOfDay k < 48 \<longrightarrow>
         cellAt (tb_season (ay_tables s)) (segOf k) (dk_DayIndex k) (nat (dk_SlotOfDay k)) = satAdd8 0 (int (L k))))"

lemma utcDayIndex_mono: "a \<le> b \<Longrightarrow> utcDayIndex a \<le> utcDayIndex b"
  by (simp add: utcDayIndex_floor zdiv_mono1)

lemma utcDayIndex_back: "now - 86400 \<le> ts \<Longrightarrow> utcDayIndex now - 1 \<le> utcDayIndex ts"
  using utcDayIndex_mono [of "now - 86400" ts] by (simp add: utcDayIndex_floor div_diff)

lemma deltaCount_pos: "deltas_ok al \<Longrightarrow> 0 \<le> deltaCount al k"
  using deltas_value by (simp add: deltaCount_def)

lemma withWatermark_facts:
  assumes "withWatermark s = (s', w)"
  shows "ay_store s' = ay_store s" "ay_batch s' = ay_batch s" "ay_now s' = ay_now s" "ay_run s' = ay_run s" "ay_gate s' = ay_gate s"
    "ay_below s' = ay_below s" "tb_region (ay_tables s') = tb_region (ay_tables s)" "tb_season (ay_tables s') = tb_season (ay_tables s)"
    "tb_watermark (ay_tables s') = Some w"
    "if tb_watermark (ay_tables s) = None then ay_first s' = Some w
     else s' = s"
  using assms
  by (auto simp: withWatermark_def ensureWatermark_def setWatermark_def recordLost_def Let_def split: option.splits prod.splits)

lemma setInflight_simps: "pg_pendingRegion (setInflightRegion r s) = pg_pendingRegion s" "pg_inflightRegion (setInflightRegion r s) = r"
  by (simp_all add: setInflightRegion_def)

lemma mergeBack_simps: "pg_pendingRegion (mergePendingBack b s) = mergeInto regionDelta_add zeroDelta (pg_pendingRegion s) (fb_region b)"
  by (simp add: mergePendingBack_def)

lemma flushBegin_some: "flushBegin s = (s', Some b) \<Longrightarrow> pg_pendingRegion s' = [] \<and> pg_inflightRegion s' = pg_pendingRegion s \<and> fb_region b = pg_pendingRegion s"
  by (auto simp: flushBegin_def split: if_splits)

lemma flushBegin_none: "flushBegin s = (s', None) \<Longrightarrow> s' = s"
  by (auto simp: flushBegin_def split: if_splits)

lemma flush_tables: "tb_season (baselineFlushStmts w b tb) = tb_season tb" "tb_watermark (baselineFlushStmts w b tb) = tb_watermark tb"
  "tb_lost (baselineFlushStmts w b tb) = tb_lost tb"
  by (simp_all add: baselineFlushStmts_def)

lemma foldDay_cases:
  assumes "foldDay True day tb = Inr (tb', nw)"
  obtains v where "tb_watermark tb = Some v" "day \<le> v" "tb' = tb" "nw = v"
  | v u where "tb_watermark tb = Some v" "v < day" "nw = day" "tb' = setWatermark day (foldDayInTx day u tb)"
  using assms by (auto simp: foldDay_def split: option.splits if_splits)

lemma forceAdvance_cases:
  assumes "forceAdvance True nw tb = Inr (tb', n)"
  obtains v where "tb_watermark tb = Some v" "nw \<le> v" "tb' = tb"
  | v where "tb_watermark tb = Some v" "v < nw" "tb' = setWatermark nw (recordLost [v + 1..nw] tb)"
  using assms by (auto simp: forceAdvance_def almanacLostDayRange_def Let_def split: option.splits if_splits)

lemma foldDay_region: "foldDay True day tb = Inr (tb', nw) \<Longrightarrow> tb_region tb' = tb_region tb"
  by (erule foldDay_cases) (simp_all add: setWatermark_def fold_keeps)

lemma forceAdvance_region: "forceAdvance True nw tb = Inr (tb', n) \<Longrightarrow> tb_region tb' = tb_region tb \<and> tb_season tb' = tb_season tb"
  by (erule forceAdvance_cases) (simp_all add: setWatermark_def recordLost_def)

lemma deltas_filter: "deltas_ok al \<Longrightarrow> deltas_ok (filter P al)"
  by (auto simp: deltas_ok_def intro: distinct_keys_filter)

lemma queued_parts:
  assumes "queued_ok s"
  shows "deltas_ok (pg_pendingRegion (ay_store s))" "deltas_ok (pg_inflightRegion (ay_store s))" "deltas_ok (tb_region (ay_tables s))"
    "ay_batch s = Some b \<Longrightarrow> fb_region b = pg_inflightRegion (ay_store s)" "ay_batch s = None \<Longrightarrow> pg_inflightRegion (ay_store s) = []"
  using assms unfolding queued_ok_def by (blast, blast, blast, simp, simp)

lemma queued_watermark: "withWatermark s = (s', w) \<Longrightarrow> queued_ok s \<Longrightarrow> queued_ok s'"
  using withWatermark_facts [of s s' w] by (simp add: queued_ok_def)

lemma queued_step:
  assumes "archStep (s, L) (s', L')" "queued_ok s"
  shows "queued_ok s'"
  using assms(1)
proof cases
  case (observe m band sl dt ti)
  then show ?thesis using assms(2) observe_region(2,3) by (cases "ay_batch s") (auto simp: queued_ok_def)
next
  case (flush_begin st b)
  then show ?thesis using assms(2) flushBegin_some [OF flush_begin(4)] by (simp add: queued_ok_def)
next
  case (flush_idle st)
  then show ?thesis using assms(2) flushBegin_none [OF flush_idle(4)] by (simp add: queued_ok_def)
next
  case (flush_commit b)
  have "deltas_ok (fb_region b)" using queued_parts(2,4) [OF assms(2)] flush_commit(3) by metis
  then show ?thesis
    using flush_commit(1) queued_parts(1) [OF assms(2)] flush_region(1) [OF queued_parts(3) [OF assms(2)]]
    by (simp add: queued_ok_def setInflight_simps)
next
  case (flush_fail b)
  have "deltas_ok (fb_region b)" using queued_parts(2,4) [OF assms(2)] flush_fail(3) by metis
  then have "deltas_ok (mergeInto regionDelta_add zeroDelta (pg_pendingRegion (ay_store s)) (fb_region b))"
    by (intro deltas_merge queued_parts(1) [OF assms(2)]) (simp add: deltas_ok_def)
  then show ?thesis using flush_fail(1) queued_parts(3) [OF assms(2)] by (simp add: queued_ok_def setInflight_simps mergeBack_simps)
next
  case (run_begin s1 w)
  have "queued_ok s1" using queued_watermark [OF run_begin(4) assms(2)] .
  then show ?thesis unfolding run_begin(1) queued_ok_def by simp
next
  case (run_day t w tb nw)
  then show ?thesis using assms(2) foldDay_region [OF run_day(5)] by (simp add: queued_ok_def)
next
  case (gate cutoff s1 w diskOver)
  have "queued_ok s1" using queued_watermark [OF gate(5) assms(2)] .
  then show ?thesis unfolding gate(1) queued_ok_def by simp
next
  case (gate_force cutoff w diskOver dec tb n)
  then show ?thesis using assms(2) forceAdvance_region [OF gate_force(6)] by (simp add: queued_ok_def)
next
  case (prune d batch)
  then show ?thesis using assms(2) by (simp add: queued_ok_def deltas_filter)
qed (use assms(2) in \<open>simp_all add: queued_ok_def\<close>)

lemma final_day: "almanacDayFinal d now lastOK m \<Longrightarrow> d \<le> utcDayIndex now - 2 \<and> (\<forall>p. m = Some p \<longrightarrow> d < p)"
  by (auto simp: almanacDayFinal_def split: option.splits)

lemma prune_decides:
  assumes "dec = almanacPruneDecide cutoff w grace full" "0 \<le> grace"
  shows "\<not> pd_Force dec \<Longrightarrow> pd_DeleteBelow dec \<le> w + 1"
    "pd_Force dec \<Longrightarrow> pd_DeleteBelow dec = pd_NewWatermark dec + 1 \<and> pd_NewWatermark dec < cutoff"
  using assms by (auto simp: almanacPruneDecide_def Let_def split: if_splits)

lemma grace_pos: "0 \<le> almanacFoldGraceDays"
  by (simp add: almanacFoldGraceDays_def)

lemma marks_step:
  assumes "archStep (s, L) (s', L')" "marks_ok s"
  shows "marks_ok s'"
  using assms(1)
proof cases
  case (clock t)
  then show ?thesis using assms(2) utcDayIndex_mono [of "ay_now s" t] by (fastforce simp: marks_ok_def split: option.splits)
next
  case (run_begin s1 w)
  note f = withWatermark_facts [OF run_begin(4)]
  show ?thesis
  proof (cases "tb_watermark (ay_tables s)")
    case None
    then show ?thesis using assms(2) run_begin f by (simp add: marks_ok_def)
  next
    case (Some v)
    then show ?thesis using assms(2) run_begin f by (auto simp: marks_ok_def)
  qed
next
  case (gate cutoff s1 w diskOver)
  note f = withWatermark_facts [OF gate(5)]
  show ?thesis
  proof (cases "tb_watermark (ay_tables s)")
    case None
    then show ?thesis using assms(2) gate f by (simp add: marks_ok_def)
  next
    case (Some v)
    then show ?thesis using assms(2) gate f by (auto simp: marks_ok_def)
  qed
next
  case (run_day t w tb nw)
  obtain v where v: "tb_watermark (ay_tables s) = Some v" "w \<le> v" "t \<le> ay_now s"
    using assms(2) run_day(3) by (auto simp: marks_ok_def split: option.splits)
  have d: "w + 1 \<le> utcDayIndex (ay_now s) - 2" using final_day [OF run_day(4)] utcDayIndex_mono [OF v(3)] by simp
  show ?thesis
    using run_day(5)
  proof (rule foldDay_cases)
    fix u assume "tb_watermark (ay_tables s) = Some u" "w + 1 \<le> u" "tb = ay_tables s" "nw = u"
    then show ?thesis using assms(2) run_day(1,2) v by (auto simp: marks_ok_def)
  next
    fix u x assume "tb_watermark (ay_tables s) = Some u" "u < w + 1" "nw = w + 1" "tb = setWatermark (w + 1) (foldDayInTx (w + 1) x (ay_tables s))"
    then show ?thesis using assms(2) run_day(1,2) v d by (fastforce simp: marks_ok_def setWatermark_def fold_keeps)
  qed
next
  case (gate_keep cutoff w diskOver dec)
  then show ?thesis using assms(2) prune_decides(1) [OF gate_keep(4) grace_pos] by (fastforce simp: marks_ok_def split: option.splits)
next
  case (gate_force cutoff w diskOver dec tb n)
  note p = prune_decides(2) [OF gate_force(4) grace_pos gate_force(5)]
  have c: "cutoff \<le> utcDayIndex (ay_now s) - 1" using assms(2) gate_force(3) by (auto simp: marks_ok_def split: option.splits)
  show ?thesis
    using gate_force(6)
  proof (rule forceAdvance_cases)
    fix v assume "tb_watermark (ay_tables s) = Some v" "pd_NewWatermark dec \<le> v" "tb = ay_tables s"
    then show ?thesis using assms(2) gate_force(1,2) p c by (auto simp: marks_ok_def)
  next
    fix v assume "tb_watermark (ay_tables s) = Some v" "v < pd_NewWatermark dec"
      "tb = setWatermark (pd_NewWatermark dec) (recordLost [v + 1..pd_NewWatermark dec] (ay_tables s))"
    then show ?thesis using assms(2) gate_force(1,2) p c by (fastforce simp: marks_ok_def setWatermark_def recordLost_def)
  qed
qed (use assms(2) in \<open>auto simp: marks_ok_def flush_tables split: option.splits\<close>)

definition minDay :: "int option \<Rightarrow> (regionDailyKey \<times> regionDelta) list \<Rightarrow> int option" where
  "minDay m al = foldl (\<lambda>m (k, v). case m of None \<Rightarrow> Some (dk_DayIndex k) | Some d \<Rightarrow> if dk_DayIndex k < d then Some (dk_DayIndex k) else m) m al"

lemma minDay_below: "\<exists>d. minDay (Some m) al = Some d \<and> d \<le> m" "kv \<in> set al \<Longrightarrow> \<exists>d. minDay m' al = Some d \<and> d \<le> dk_DayIndex (fst kv)"
proof -
  show low: "\<exists>d. minDay (Some m) al = Some d \<and> d \<le> m" for m al
  proof (induction al arbitrary: m)
    case (Cons p al)
    obtain k v where p: "p = (k, v)" by (cases p)
    define n where "n = (if dk_DayIndex k < m then dk_DayIndex k else m)"
    have "minDay (Some m) (p # al) = minDay (Some n) al" "n \<le> m" by (simp_all add: minDay_def p n_def)
    then show ?case using Cons.IH [of n] by force
  qed (simp add: minDay_def)
  show "kv \<in> set al \<Longrightarrow> \<exists>d. minDay m' al = Some d \<and> d \<le> dk_DayIndex (fst kv)"
  proof (induction al arbitrary: m')
    case (Cons p al)
    obtain k v where p: "p = (k, v)" by (cases p)
    define n where "n = (case m' of None \<Rightarrow> dk_DayIndex k | Some d \<Rightarrow> if dk_DayIndex k < d then dk_DayIndex k else d)"
    have e: "minDay m' (p # al) = minDay (Some n) al" "n \<le> dk_DayIndex k" by (auto simp: minDay_def p n_def split: option.split)
    show ?case
    proof (cases "kv = p")
      case True
      then show ?thesis using e low [of n al] by (force simp: p)
    next
      case False
      then show ?thesis using Cons e by simp
    qed
  qed simp
qed

lemma none_waiting:
  assumes "\<forall>p. pendingRegionMinDay (ay_store s) = Some p \<longrightarrow> dk_DayIndex k < p"
  shows "waiting s k = 0"
proof -
  have "k \<notin> fst ` set (pg_pendingRegion (ay_store s) @ pg_inflightRegion (ay_store s))"
  proof
    assume "k \<in> fst ` set (pg_pendingRegion (ay_store s) @ pg_inflightRegion (ay_store s))"
    then obtain kv where kv: "kv \<in> set (pg_pendingRegion (ay_store s) @ pg_inflightRegion (ay_store s))" "k = fst kv" by blast
    have "pendingRegionMinDay (ay_store s) = minDay None (pg_pendingRegion (ay_store s) @ pg_inflightRegion (ay_store s))"
      by (simp add: pendingRegionMinDay_def minDay_def)
    then show False using minDay_below(2) [OF kv(1), of None] assms kv(2) by force
  qed
  then show ?thesis by (simp add: waiting_def deltaCount_def valueOf_absent image_Un zeroDelta_def)
qed

lemma waiting_zero:
  assumes "queued_ok s" "waiting s k = 0"
  shows "deltaCount (pg_pendingRegion (ay_store s)) k = 0" "deltaCount (pg_inflightRegion (ay_store s)) k = 0"
  using deltaCount_pos [OF queued_parts(1) [OF assms(1)], of k] deltaCount_pos [OF queued_parts(2) [OF assms(1)], of k] assms(2)
  by (simp_all add: waiting_def)

lemma recorded_same:
  assumes "recorded s L" "\<And>k. waiting s' k = waiting s k" "tb_season (ay_tables s') = tb_season (ay_tables s)"
    "tb_lost (ay_tables s') = tb_lost (ay_tables s)" "tb_watermark (ay_tables s') = tb_watermark (ay_tables s)" "ay_first s' = ay_first s"
    "\<And>k. unfolded s (dk_DayIndex k) \<Longrightarrow> deltaCount (tb_region (ay_tables s')) k = deltaCount (tb_region (ay_tables s)) k"
  shows "recorded s' L"
  using assms unfolding recorded_def unfolded_def foldedDay_def by simp

lemma folded_old:
  assumes "marks_ok s" "foldedDay s day"
  shows "day \<le> utcDayIndex (ay_now s) - 2"
  using assms by (auto simp: marks_ok_def foldedDay_def)

lemma recorded_observe:
  assumes "recorded s L" "marks_ok s"
  shows "recorded (s\<lparr>ay_store := fst (pg_observe m band sl dt ti (ay_now s) (ay_store s))\<rparr>) (credit m band (ay_now s) L)"
    (is "recorded ?s ?L")
proof -
  have w: "waiting ?s k = waiting s k + (if k \<in> set (acceptedKeys m band (ay_now s)) then 1 else 0)" for k
    by (simp add: waiting_def observe_region(1,3))
  have old: "k \<notin> set (acceptedKeys m band (ay_now s))" if "foldedDay s (dk_DayIndex k)" for k
  proof
    assume "k \<in> set (acceptedKeys m band (ay_now s))"
    then have "utcDayIndex (ay_now s) - 1 \<le> dk_DayIndex k" using accepted_days utcDayIndex_back by metis
    then show False using folded_old [OF assms(2) that] by simp
  qed
  have e: "unfolded ?s = unfolded s" "foldedDay ?s = foldedDay s" by (simp_all add: unfolded_def foldedDay_def fun_eq_iff)
  show ?thesis
    unfolding recorded_def e w credit_def using assms(1) old unfolding recorded_def by auto
qed

lemma recorded_watermark:
  assumes "withWatermark s = (s', w)" "recorded s L"
  shows "recorded s' L"
proof (cases "tb_watermark (ay_tables s) = None")
  case True
  note f = withWatermark_facts [OF assms(1)]
  have "unfolded s day" for day using True by (simp add: unfolded_def)
  moreover have "\<not> foldedDay s' day" for day using f(9,10) True by (simp add: foldedDay_def)
  ultimately show ?thesis
    using assms(2) f(1,7,8) by (simp add: recorded_def waiting_def)
next
  case False
  then show ?thesis using withWatermark_facts(10) [OF assms(1)] assms(2) by simp
qed

lemma recorded_flush:
  assumes "recorded s L" "queued_ok s" "ay_batch s = Some b"
    "s' = s\<lparr>ay_store := (setInflightRegion [] (ay_store s))\<lparr>pg_baselineFlushLastOK := n\<rparr>,
      ay_tables := baselineFlushStmts x b (ay_tables s), ay_batch := None\<rparr>"
  shows "recorded s' L"
proof -
  note q = queued_parts [OF assms(2)]
  note b = q(4) [OF assms(3)]
  have t: "deltaCount (tb_region (ay_tables s')) k = deltaCount (tb_region (ay_tables s)) k + deltaCount (pg_inflightRegion (ay_store s)) k" for k
    using flush_region(2) [of "ay_tables s" b x k] q(2,3) b by (simp add: assms(4))
  have w: "waiting s' k = waiting s k - deltaCount (pg_inflightRegion (ay_store s)) k" for k
    by (simp add: waiting_def assms(4) setInflight_simps)
  have e: "unfolded s' = unfolded s" "foldedDay s' = foldedDay s"
    by (simp_all add: unfolded_def foldedDay_def fun_eq_iff assms(4) flush_tables)
  have season: "tb_season (ay_tables s') = tb_season (ay_tables s)" by (simp add: assms(4) flush_tables)
  have "waiting s' k = 0" if "waiting s k = 0" for k using waiting_zero(2) [OF assms(2) that] that by (simp add: w)
  then show ?thesis
    using assms(1) unfolding recorded_def e season by (simp add: t w)
qed

lemma recorded_fold:
  assumes "recorded s L" "queued_ok s" "marks_ok s" "ay_run s = Some (t, w)"
    "almanacDayFinal (w + 1) t lastOK (pendingRegionMinDay (ay_store s))" "foldDay True (w + 1) (ay_tables s) = Inr (tb, nw)"
  shows "recorded (s\<lparr>ay_tables := tb, ay_run := Some (t, nw)\<rparr>) L"
  using assms(6)
proof (rule foldDay_cases)
  assume "tb = ay_tables s"
  then show ?thesis by (intro recorded_same [OF assms(1)]) (simp_all add: waiting_def)
next
  fix v u
  assume v: "tb_watermark (ay_tables s) = Some v" "v < w + 1" and tb: "tb = setWatermark (w + 1) (foldDayInTx (w + 1) u (ay_tables s))"
  let ?s = "s\<lparr>ay_tables := tb, ay_run := Some (t, nw)\<rparr>" and ?f = "foldDayInTx (w + 1) u (ay_tables s)"
  have vw: "v = w" using v assms(3,4) by (fastforce simp: marks_ok_def)
  have wm: "tb_watermark tb = Some (w + 1)" "tb_region tb = tb_region (ay_tables s)" "tb_season tb = tb_season ?f" "tb_lost tb = tb_lost (ay_tables s)"
    using v by (simp_all add: tb setWatermark_def fold_keeps)
  have fin: "\<forall>p. pendingRegionMinDay (ay_store s) = Some p \<longrightarrow> w + 1 < p" using final_day [OF assms(5)] by simp
  have un: "unfolded s day \<longleftrightarrow> w < day" "unfolded ?s day \<longleftrightarrow> w + 1 < day" for day using v(1) vw wm(1) by (simp_all add: unfolded_def)
  have fd: "foldedDay ?s day \<Longrightarrow> foldedDay s day \<or> day = w + 1" for day using v(1) vw wm by (auto simp: foldedDay_def)
  have zero: "cellAt (tb_season (ay_tables s)) sk day i = 0" if "i < 48" "w < day" for sk day i
    using assms(1) that un(1) unfolding recorded_def by blast
  note fold = fold_cell [where day = "w + 1" and w = u, OF queued_parts(3) [OF assms(2)] _ zero]
  have other: "cellAt (tb_season ?f) sk day i = cellAt (tb_season (ay_tables s)) sk day i" if "i < 48" "day \<noteq> w + 1" for sk day i
    using fold(2) [where i = i and j = i and sk = sk and day' = day] that by simp
  have wait: "waiting ?s = waiting s" by (simp add: waiting_def fun_eq_iff)
  show ?thesis
    unfolding recorded_def wait
  proof (intro conjI allI impI)
    fix k :: regionDailyKey assume "unfolded ?s (dk_DayIndex k)"
    then show "int (L k) = waiting s k + deltaCount (tb_region (ay_tables ?s)) k"
      using assms(1) un unfolding recorded_def by (simp add: wm(2))
  next
    fix sk day i assume "(i :: nat) < 48" "unfolded ?s day"
    then show "cellAt (tb_season (ay_tables ?s)) sk day i = 0" using other [of i day sk] zero [of i day sk] un by (simp add: wm(3))
  next
    fix k :: regionDailyKey assume k: "foldedDay ?s (dk_DayIndex k)"
    show "waiting s k = 0"
      using fd [OF k] assms(1) none_waiting [of s k] fin unfolding recorded_def by auto
  next
    fix k :: regionDailyKey assume k: "foldedDay ?s (dk_DayIndex k)" and sl: "0 \<le> dk_SlotOfDay k \<and> dk_SlotOfDay k < 48"
    define i where "i = nat (dk_SlotOfDay k)"
    have i: "i < 48" using sl by (simp add: i_def nat_less_iff)
    show "cellAt (tb_season (ay_tables ?s)) (segOf k) (dk_DayIndex k) (nat (dk_SlotOfDay k)) = satAdd8 0 (int (L k))"
    proof (cases "dk_DayIndex k = w + 1")
      case True
      have "int (L k) = waiting s k + deltaCount (tb_region (ay_tables s)) k"
        using assms(1) un(1) True unfolding recorded_def by simp
      moreover have "waiting s k = 0" using none_waiting [of s k] fin True by simp
      moreover have "keyAt (segOf k) (w + 1) i = k" using keyAt_self [of k] sl True by (simp add: i_def)
      ultimately show ?thesis using fold(1) [where i = i and sk = "segOf k"] i True by (simp add: wm(3) flip: i_def)
    next
      case False
      then have "foldedDay s (dk_DayIndex k)" using fd [OF k] by simp
      then have "cellAt (tb_season (ay_tables s)) (segOf k) (dk_DayIndex k) i = satAdd8 0 (int (L k))"
        using assms(1) sl unfolding recorded_def i_def by blast
      then show ?thesis using other [OF i False, of "segOf k"] by (simp add: wm(3) flip: i_def)
    qed
  qed
qed

lemma recorded_force:
  assumes "recorded s L" "forceAdvance True nw (ay_tables s) = Inr (tb, n)"
  shows "recorded (s\<lparr>ay_tables := tb, ay_gate := None, ay_below := d\<rparr>) L"
  using assms(2)
proof (rule forceAdvance_cases)
  assume "tb = ay_tables s"
  then show ?thesis by (intro recorded_same [OF assms(1)]) (simp_all add: waiting_def)
next
  fix v assume v: "tb_watermark (ay_tables s) = Some v" "v < nw" and tb: "tb = setWatermark nw (recordLost [v + 1..nw] (ay_tables s))"
  let ?s = "s\<lparr>ay_tables := tb, ay_gate := None, ay_below := d\<rparr>"
  have lost: "set (foldl (\<lambda>l d. List.insert d l) ds days) = set ds \<union> set days" for ds days :: "int list"
    by (induction days arbitrary: ds) auto
  have wm: "tb_watermark tb = Some nw" "tb_region tb = tb_region (ay_tables s)" "tb_season tb = tb_season (ay_tables s)"
    "set (tb_lost tb) = set (tb_lost (ay_tables s)) \<union> {v + 1..nw}"
    using v by (simp_all add: tb setWatermark_def recordLost_def lost)
  have "unfolded ?s day \<Longrightarrow> unfolded s day" for day using v wm(1) by (simp add: unfolded_def)
  moreover have "foldedDay ?s day \<Longrightarrow> foldedDay s day" for day using v wm(1,4) by (force simp: foldedDay_def)
  moreover have "waiting ?s = waiting s" by (simp add: waiting_def fun_eq_iff)
  ultimately show ?thesis using assms(1) unfolding recorded_def by (simp add: wm(2,3))
qed

lemma recorded_step:
  assumes "archStep (s, L) (s', L')" "queued_ok s" "marks_ok s" "recorded s L"
  shows "recorded s' L'"
  using assms(1)
proof cases
  case (observe m band sl dt ti)
  then show ?thesis using recorded_observe [OF assms(4,3)] by simp
next
  case (flush_begin st b)
  note f = flushBegin_some [OF flush_begin(4)]
  show ?thesis
    unfolding flush_begin(2)
    by (rule recorded_same [OF assms(4)]) (use f queued_parts(5) [OF assms(2) flush_begin(3)] in \<open>simp_all add: flush_begin(1) waiting_def\<close>)
next
  case (flush_idle st)
  then show ?thesis
    using flushBegin_none [OF flush_idle(4)] by (auto intro!: recorded_same [OF assms(4)] simp: waiting_def)
next
  case (flush_commit b)
  then show ?thesis using recorded_flush [OF assms(4,2)] by simp
next
  case (flush_fail b)
  have b: "fb_region b = pg_inflightRegion (ay_store s)" using queued_parts(4) [OF assms(2) flush_fail(3)] .
  have "distinct (map fst (fb_region b))" using queued_parts(2) [OF assms(2)] b by (simp add: deltas_ok_def)
  then show ?thesis
    unfolding flush_fail(2)
    by (intro recorded_same [OF assms(4)]) (simp_all add: flush_fail(1) waiting_def setInflight_simps mergeBack_simps deltaCount_merge b)
next
  case (run_begin s1 w)
  have "recorded s1 L" using recorded_watermark [OF run_begin(4) assms(4)] .
  then show ?thesis unfolding run_begin(1,2) by (rule recorded_same) (simp_all add: waiting_def)
next
  case (run_day t w tb nw)
  then show ?thesis using recorded_fold [OF assms(4,2,3)] by simp
next
  case (gate cutoff s1 w diskOver)
  have "recorded s1 L" using recorded_watermark [OF gate(5) assms(4)] .
  then show ?thesis unfolding gate(1,2) by (rule recorded_same) (simp_all add: waiting_def)
next
  case (gate_force cutoff w diskOver dec tb n)
  then show ?thesis using recorded_force [OF assms(4)] by simp
next
  case (prune d batch)
  obtain w where w: "tb_watermark (ay_tables s) = Some w" "d \<le> w + 1"
    using assms(3) prune(3) by (auto simp: marks_ok_def split: option.splits)
  have "distinct (map fst (tb_region (ay_tables s)))" using queued_parts(3) [OF assms(2)] by (simp add: deltas_ok_def)
  then have c: "deltaCount (filter (\<lambda>kv. \<not> (dk_DayIndex (fst kv) < d \<and> fst kv \<in> batch)) (tb_region (ay_tables s))) k = deltaCount (tb_region (ay_tables s)) k"
    if "w < dk_DayIndex k" for k
    using that w(2) deltaCount_filter [of "tb_region (ay_tables s)" "\<lambda>k. \<not> (dk_DayIndex k < d \<and> k \<in> batch)" k] by simp
  show ?thesis
    unfolding prune(2) by (rule recorded_same [OF assms(4)]) (use w(1) c in \<open>simp_all add: prune(1) waiting_def unfolded_def\<close>)
qed (use assms(4) in \<open>auto intro!: recorded_same [OF assms(4)] simp: waiting_def\<close>)

lemma cellAt_Nil: "i < 48 \<Longrightarrow> cellAt [] sk day i = 0"
proof -
  assume i: "i < 48"
  obtain ym d where ymd: "almanacYearMonthDOM day = (ym, d)" by fastforce
  have "almanacSegmentOffset d + i < almanacSeasonCountsLen"
    using YearMonthDOM_range [OF ymd] i by (auto simp: almanacSegmentOffset_def almanacSeasonCountsLen_def almanacSeasonSlotsPerDay_def)
  then show ?thesis by (simp add: cellAt_def rowOf_def zeroDense_def ymd)
qed

lemma archReach_ok: "archReach (s, L) \<Longrightarrow> queued_ok s \<and> marks_ok s \<and> recorded s L"
proof (induction "(s, L)" arbitrary: s L rule: archReach.induct)
  case (init s L)
  have "unfolded s day" "\<not> foldedDay s day" for day using init by (simp_all add: archStart_def unfolded_def foldedDay_def)
  moreover have "0 \<le> deltaCount (tb_region (ay_tables s)) k" for k using init by (intro deltaCount_pos) (simp add: archStart_def)
  ultimately show ?case
    using init by (simp add: archStart_def queued_ok_def marks_ok_def recorded_def waiting_def cellAt_Nil)
next
  case (step x s' L')
  obtain s L where x: "x = (s, L)" by (cases x)
  then have "queued_ok s" "marks_ok s" "recorded s L" using step(2) by blast+
  then show ?case
    using step(3) queued_step marks_step recorded_step unfolding x by metis
qed

lemma archive_cell:
  assumes "archReach (s, L)" "foldedDay s (dk_DayIndex k)" "0 \<le> dk_SlotOfDay k" "dk_SlotOfDay k < 48" "int (L k) < 2 ^ 62"
  shows "cellAt (tb_season (ay_tables s)) (segOf k) (dk_DayIndex k) (nat (dk_SlotOfDay k)) = min 255 (L k)"
proof -
  have "cellAt (tb_season (ay_tables s)) (segOf k) (dk_DayIndex k) (nat (dk_SlotOfDay k)) = satAdd8 0 (int (L k))"
    using archReach_ok [OF assms(1)] assms(2-4) unfolding recorded_def by blast
  then show ?thesis using satAdd8_min [of 0 "int (L k)"] assms(5) by (simp add: byte_ok_def)
qed

lemma archive_waiting:
  assumes "archReach (s, L)" "unfolded s (dk_DayIndex k)"
  shows "int (L k) = waiting s k + deltaCount (tb_region (ay_tables s)) k"
  using archReach_ok [OF assms(1)] assms(2) unfolding recorded_def by blast

section \<open>A run\<close>

definition runMessage :: MQTTMessage where
  "runMessage = \<lparr>RP = -7, T = 259300, SC = ''DL1AB'', SL = ''JO31'', RC = ''K1ABC'', RL = ''FN42'', B = ''20m'', MD = ''FT8'',
     F = 14074000, Source = ''pskr'', TXPower = 0\<rparr>"

definition runKey :: regionDailyKey where
  "runKey = \<lparr>dk_TargetGrid4 = ''JO31'', dk_Band = ''20m'', dk_SlotOfDay = 0, dk_Region = ''NA'', dk_DayIndex = 3\<rparr>"

definition runStart :: archSys where
  "runStart = \<lparr>
     ay_store = \<lparr>pg_pendingGlobal = [], pg_pendingRegion = [], pg_pendingCluster = [], pg_pendingCount = 0, pg_pendingRawSpots = [],
       pg_inflightRegion = [], pg_regionLateDrops = 0, pg_baselineFlushLastOK = 0, pg_baselineFlushFailStreak = 0,
       pg_rawFlushLastOK = 0, pg_rawFlushFailStreak = 0, pg_snrColumns = True\<rparr>,
     ay_tables = \<lparr>tb_global = [], tb_region = [], tb_cluster = [], tb_raw = [], tb_firstObserved = None, tb_ingest = [],
       tb_watermark = None, tb_snrSince = Some 0, tb_lost = [], tb_season = [], tb_activity = []\<rparr>,
     ay_now = 259300, ay_batch = None, ay_run = None, ay_gate = None, ay_below = None, ay_first = None\<rparr>"

lemma run_accepts: "runKey \<in> set (acceptedKeys runMessage ''20m'' 259300)"
  by code_simp

lemma stepped: "archReach (s, L) \<Longrightarrow> archStep (s, L) (s', L') \<Longrightarrow> archReach (s', L')"
  by (rule archReach.step)

lemma a_run: "\<exists>s L. archReach (s, L) \<and> foldedDay s 3 \<and> L runKey = 1"
proof -
  define s1 where "s1 = runStart\<lparr>ay_tables := (ay_tables runStart)\<lparr>tb_watermark := Some 2\<rparr>, ay_first := Some 2\<rparr>"
  define st where "st = fst (pg_observe runMessage ''20m'' 0 0 0 259300 (ay_store s1))"
  define L where "L = credit runMessage ''20m'' 259300 (\<lambda>k. 0)"
  have days: "utcDayIndex 259300 = 3" "utcDayIndex 432000 = 5" by (simp_all add: utcDayIndex_floor)
  have "archReach (runStart, \<lambda>k. 0)" by (rule archReach.init) (simp add: archStart_def runStart_def)
  moreover have "withWatermark runStart = (s1, 2)"
    by (simp add: withWatermark_def ensureWatermark_def minDayOf_def almanacInitialWatermark_def setWatermark_def runStart_def s1_def days)
  ultimately have "archReach (s1\<lparr>ay_run := Some (259300, 2)\<rparr>, \<lambda>k. 0)"
    using archStep.run_begin [of runStart s1 2 "\<lambda>k. 0"] stepped by (simp add: runStart_def)
  then have "archReach (s1, \<lambda>k. 0)"
    using archStep.run_end [of "s1\<lparr>ay_run := Some (259300, 2)\<rparr>" "\<lambda>k. 0"] stepped by (fastforce simp: s1_def runStart_def)
  then have r1: "archReach (s1\<lparr>ay_store := st\<rparr>, L)"
    using archStep.observe [of s1 "\<lambda>k. 0" runMessage "''20m''" 0 0 0] stepped by (fastforce simp: s1_def runStart_def st_def L_def)
  have pend: "deltaCount (pg_pendingRegion st) runKey = 1" and infl: "pg_inflightRegion st = []"
    using observe_region(1,3) [of runMessage "''20m''" 0 0 0 259300 "ay_store s1"] run_accepts by (simp_all add: st_def s1_def runStart_def)
  then have "pg_pendingRegion st \<noteq> []" by auto
  then obtain st' b where st': "flushBegin st = (st', Some b)" by (simp add: flushBegin_def)
  define s2 where "s2 = s1\<lparr>ay_store := st', ay_batch := Some b, ay_now := 432000\<rparr>"
  have "archReach (s1\<lparr>ay_store := st', ay_batch := Some b\<rparr>, L)"
    using archStep.flush_begin [of "s1\<lparr>ay_store := st\<rparr>" st' b L] r1 st' stepped by (fastforce simp: s1_def runStart_def)
  then have r2: "archReach (s2, L)"
    using archStep.clock [of "s1\<lparr>ay_store := st', ay_batch := Some b\<rparr>" 432000 L] stepped by (fastforce simp: s1_def s2_def runStart_def)
  define tb where "tb = baselineFlushStmts (pg_snrColumns st') b (ay_tables s2)"
  define sn where "sn = (setInflightRegion [] st')\<lparr>pg_baselineFlushLastOK := 432000\<rparr>"
  define s3 where "s3 = s2\<lparr>ay_store := sn, ay_tables := tb, ay_batch := None\<rparr>"
  have r3: "archReach (s3, L)"
    using archStep.flush_commit [of s2 b L] r2 stepped by (fastforce simp: s2_def s3_def tb_def sn_def)
  have wm: "tb_watermark tb = Some 2" by (simp add: tb_def flush_tables s2_def s1_def)
  have "withWatermark s3 = (s3, 2)" using wm by (simp add: withWatermark_def ensureWatermark_def s3_def s2_def s1_def)
  then have r4: "archReach (s3\<lparr>ay_run := Some (432000, 2)\<rparr>, L)"
    using archStep.run_begin [of s3 s3 2 L] r3 stepped by (fastforce simp: s3_def s2_def s1_def runStart_def)
  have "pendingRegionMinDay sn = None"
    using flushBegin_some [OF st'] by (simp add: pendingRegionMinDay_def sn_def setInflightRegion_def)
  then have final: "almanacDayFinal (2 + 1) 432000 (pg_baselineFlushLastOK sn) (pendingRegionMinDay sn)"
    by (simp add: almanacDayFinal_def days sn_def almanacFoldFlushLag_def)
  define tb' where "tb' = setWatermark 3 (foldDayInTx 3 (almanacFoldUsesSNR 3 (tb_snrSince tb)) tb)"
  have fold: "foldDay True (2 + 1) tb = Inr (tb', 3)" by (simp add: foldDay_def wm tb'_def)
  have "archReach (s3\<lparr>ay_tables := tb', ay_run := Some (432000, 3)\<rparr>, L)"
    using archStep.run_day [of "s3\<lparr>ay_run := Some (432000, 2)\<rparr>" 432000 2 tb' 3 L] r4 final fold stepped by (fastforce simp: s3_def)
  moreover have "foldedDay (s3\<lparr>ay_tables := tb', ay_run := Some (432000, 3)\<rparr>) 3"
    using wm by (simp add: foldedDay_def tb'_def setWatermark_def fold_keeps s3_def s2_def s1_def tb_def flush_tables runStart_def)
  moreover have "L runKey = 1" using run_accepts by (simp add: L_def credit_def)
  ultimately show ?thesis by blast
qed

end
