(* ===== verification/Guarantees.thy ===== *)
theory Guarantees
  imports Lite Demo CellFeed LiveArea RateLimit AlmanacSparse Gzip Cty
begin

text \<open>
  The properties of the conditions engine and of the services around it, each with a witness
  on concrete data: the evaluation of a request, the baseline it compares with, the cell
  feed, the live area, the almanac's codec, the compressor, the country file and the limits.
\<close>

section \<open>The evaluation\<close>

definition demoHash :: "64 word \<Rightarrow> string \<Rightarrow> 64 word" where
  \<comment> \<open>a polynomial hash, in the place of \<open>maphash\<close> with one seed\<close>
  "demoHash seed s = foldl (\<lambda>h c. h * 31 + of_nat (of_char c)) seed s"

definition demoEnv :: evalEnv where
  "demoEnv = \<lparr>env_retention = 60, env_since = 0, env_gapStart = 0, env_gapEnd = 0, env_indexEnabled = True,
     env_h0 = demoHash 7, env_h1 = demoHash 11, env_sort = sort_by\<rparr>"

definition demoHistory :: historyWindow where
  \<comment> \<open>a window without sequence numbers\<close>
  "demoHistory = \<lparr>msgs = [demoMessage ''JO31lk'' ''JN58'' 1000, demoMessage ''FN42'' ''jo31'' 1005], firstSeq = 0, hubFirst = 0\<rparr>"

lemma demo_sane: "sane_snr (msgs demoHistory)"
  by (simp add: sane_snr_def demoHistory_def demoMessage_def)

text \<open>
  C2: An evaluation always answers, and its answer is well typed. Whatever the QTH, window,
  baseline, store and area, the percentile selections of every band return and there is a
  response. Its scores are percentages and its confidences at most 99; its statuses,
  conditions, trends, modes and reach levels are of their fixed sets; the repeat, long-haul and
  DX ratios lie in [0, 1] (the activity, reach and local-scale ratios compare with a baseline
  and may exceed 1); its bands are distinct and
  sorted by score; the best bands are the first three, what it recommends is among the best,
  what it advises against is among the worst, and no band is both. This is for any
  \<open>sort.Slice\<close> that sorts (\<open>slice_sort_ok\<close>), SNRs whose spread does not overflow (\<open>sane_snr\<close>),
  and a window that the area index may not use or whose sequence numbers name its messages, as
  the hub hands it over (\<open>index_sound\<close>). Indexing other than in the selections is total in the
  model.
\<close>

theorem evaluation_is_typed:
  assumes "slice_sort_ok (env_sort env)" "sane_snr (msgs win)" "index_sound g hz cache win"
  shows "\<exists>r. snd (evaluateAreaWindow env e st cache qth surr minutes cw win now area lite) = Some r \<and>
    response_typed r \<and> advice_ok r"
  using assms by (rule evaluate_answers)

theorem evaluation_is_typed_witness:
  "\<exists>r. snd (evaluateAreaWindow demoEnv (newDxBaselineEngine []) None demoCache ''JO31'' False 20 (-15) demoHistory 1010 None False) = Some r \<and>
     response_typed r \<and> advice_ok r"
proof (rule evaluation_is_typed)
  show "slice_sort_ok (env_sort demoEnv)" using slice_sort_by by (simp add: demoEnv_def)
  show "index_sound (\<lambda>_. emptyMessage) 0 demoCache demoHistory" by (simp add: index_sound_def demoHistory_def)
qed (rule demo_sane)

text \<open>
  C3: The area index is invisible. Whatever requests it served before, evaluating with the
  index gives exactly the response of evaluating without it, for every window that holds the
  messages of the live range: the positions skip only messages that match nothing, and the
  counts by second sum to the counts the walk would have made.
\<close>

theorem index_is_invisible:
  assumes "cache_ok g hz cache" "tick cache < 2 ^ 64 - 2" "window_ok g win" "now \<noteq> 0"
    and "hz \<le> liveStartOf env (clampMinutes minutes) now"
    and "window_complete g win (liveStartOf env (clampMinutes minutes) now) now"
  shows "snd (evaluateAreaWindow env e st cache qth surr minutes cw win now area lite)
    = snd (evaluateAreaWindow (env\<lparr>env_indexEnabled := False\<rparr>) e st cache qth surr minutes cw win now area lite)"
  using assms by (rule index_changes_nothing)

theorem index_is_invisible_witness:
  "snd (evaluateAreaWindow demoEnv (newDxBaselineEngine []) None demoCache ''JO31'' False 20 (-15) demoWindow 1010 None False)
    = snd (evaluateAreaWindow (demoEnv\<lparr>env_indexEnabled := False\<rparr>) (newDxBaselineEngine []) None demoCache ''JO31'' False 20 (-15) demoWindow 1010 None False)"
proof -
  define g where "g s = (if s = 3 then demoMessage ''FN42'' ''PM95'' 1000 else emptyMessage\<lparr>T := -5000\<rparr>)" for s :: nat
  have start: "liveStartOf demoEnv (clampMinutes 20) 1010 = 0"
    by (simp add: liveStartOf_def demoEnv_def clampMinutes_def liveRateWindowMinutes_def maxDxWindowMinutes_def)
  have c: "cache_ok g (-5000) demoCache" "tick demoCache < 2 ^ 64 - 2" by (simp_all add: cache_ok_def demoCache_def)
  have w: "window_ok g demoWindow" by (simp add: window_ok_def demoWindow_def g_def)
  have v: "window_complete g demoWindow 0 1010"
    by (simp add: window_complete_def demoWindow_def g_def emptyMessage_def)
  show ?thesis by (rule index_is_invisible [OF c w]) (use start v in simp_all)
qed

text \<open>
  C8: The links of a response are the distinct reports: summed over its bands, the current
  links are the number of different dedup keys among the live messages of a conditions mode
  that match the request above the CW floor. A repeated report counts once, a report of
  another band, mode, time or area never. The code keeps a pair of 64-bit hashes of each key:
  the count is that of the different pairs, so never more than that of the keys, and equal to
  it when no two of these keys have the same pair (\<open>inj_on\<close>). The response is filled from a
  header without a verdict, the SNRs do not overflow a spread, and \<open>sort.Slice\<close> sorts.
\<close>

theorem links_are_distinct_reports:
  assumes "sane_snr ms" "slice_sort_ok (env_sort env)" "noVerdict rsp"
    and "conditionsOf env e st area matchArea targets series startAt now rsp (walk w reg ms) = Some r"
  defines "keys \<equiv> (\<lambda>rep. hit_key (snd (snd rep))) ` set (List.map_filter (scoredReport w) ms)"
  shows "sum_list (map c_CurrentLinks (r_Bands r)) = card (hashKey (w_h0 w) (w_h1 w) ` keys) \<and>
    sum_list (map c_CurrentLinks (r_Bands r)) \<le> card keys \<and>
    (inj_on (hashKey (w_h0 w) (w_h1 w)) keys \<longrightarrow> sum_list (map c_CurrentLinks (r_Bands r)) = card keys)"
proof -
  have "reportKey w ` X = hashKey (w_h0 w) (w_h1 w) ` (\<lambda>rep. hit_key (snd (snd rep))) ` X" for X
    by (simp add: image_image reportKey_def)
  then have "sum_list (map c_CurrentLinks (r_Bands r)) = card (hashKey (w_h0 w) (w_h1 w) ` keys)"
    using conditionsOf_answers [OF assms(1-3)] assms(4) by (metis keys_def option.inject)
  moreover have "finite keys" by (simp add: keys_def)
  ultimately show ?thesis by (simp add: card_image card_image_le)
qed

definition linkMessage :: "string \<Rightarrow> MQTTMessage" where
  "linkMessage rl = demoMessage ''JO31lk'' rl 1000"

lemma demo_report:
  assumes "rl \<in> {''JN58'', ''FN42''}"
  shows "\<exists>rep. scoredReport (walkOf demoEnv ''JO31'' False None [] False (-15) 0 1010 False) (linkMessage rl) = Some rep \<and>
    hit_key (snd (snd rep)) = itoa (quot 1000 dxDedupWindowSeconds) @ ''|20m|DL1ABC|OE3XYZ|JO31LK|'' @ rl"
proof -
  let ?w = "walkOf demoEnv ''JO31'' False None [] False (-15) 0 1010 False" and ?m = "linkMessage rl"
  have live: "inLive ?w ?m" "w_cwMinDb ?w = -15" "\<not> isNonConditionsMode (MD ?m)" "RP ?m = -5"
    by (simp_all add: inLive_def walkOf_def linkMessage_def demoMessage_def isNonConditionsMode_def)
  have band: "feedBandIndex (B ?m) = 5" "inScopeBandNames ! 5 = ''20m''"
    by (simp_all add: linkMessage_def demoMessage_def feedBandIndex_def inScopeBandIndex_def inScopeBandNames_def)
  obtain a where a: "w_area ?w = Some a" "area_x a = 93" "area_y a = 141" "Radius a = 0"
    by (simp add: walkOf_def ownSquareArea_def SquareXY_def IsLocator_def bt_def)
  have "area_contains a ''JO31lk''" by (simp add: area_contains_def SquareXYFold_def bt_def a)
  moreover obtain lat1 lon1 lat2 lon2 where "locatorToLatLngFold ''JO31lk'' = (lat1, lon1)" "locatorToLatLngFold rl = (lat2, lon2)"
    by fastforce
  moreover have "char_of (76::int) = CHR ''L''" "char_of (75::int) = CHR ''K''" by code_simp+
  ultimately have "map_option hit_key (matchBandEvent ?m (w_targets ?w) (Some a) (inScopeBandNames ! 5) (w_lite ?w) []) =
      Some (itoa (quot 1000 dxDedupWindowSeconds) @ ''|20m|DL1ABC|OE3XYZ|JO31LK|'' @ rl)"
    using assms by (auto simp: matchBandEvent_def linkMessage_def demoMessage_def Let_def TrimSpace_def is_space_def band(2)
        appendUpperTrim_def upper_char_def walkOf_def)
  then obtain ev where ev: "matchBandEvent ?m (w_targets ?w) (Some a) (inScopeBandNames ! 5) (w_lite ?w) [] = Some ev"
    "hit_key ev = itoa (quot 1000 dxDedupWindowSeconds) @ ''|20m|DL1ABC|OE3XYZ|JO31LK|'' @ rl" by blast
  then have "walkHit ?w ?m = Some (5, inScopeBandNames ! 5, ev)" by (simp add: walkHit_def a(1) band(1))
  then have "liveHit ?w ?m = Some (5, inScopeBandNames ! 5, ev)" by (simp add: liveHit_def live hit_snr_RP [OF ev(1)])
  then show ?thesis using ev(2) by (simp add: scoredReport_def live)
qed

theorem links_are_distinct_reports_witness:
  "\<exists>r. conditionsOf demoEnv (newDxBaselineEngine []) None None None [] [] 0 1010 (emptyResponse [] False 20 (-15) 1010)
       (walk (walkOf demoEnv ''JO31'' False None [] False (-15) 0 1010 False) [] (map linkMessage [''JN58'', ''JN58'', ''FN42''])) = Some r \<and>
     sum_list (map c_CurrentLinks (r_Bands r)) = 2"
proof -
  let ?w = "walkOf demoEnv ''JO31'' False None [] False (-15) 0 1010 False"
  let ?ms = "map linkMessage [''JN58'', ''JN58'', ''FN42'']"
  have ok: "sane_snr ?ms" "slice_sort_ok (env_sort demoEnv)" "noVerdict (emptyResponse [] False 20 (-15) 1010)"
    using slice_sort_by by (simp_all add: sane_snr_def demoEnv_def noVerdict_simps linkMessage_def demoMessage_def)
  obtain r where r: "conditionsOf demoEnv (newDxBaselineEngine []) None None None [] [] 0 1010 (emptyResponse [] False 20 (-15) 1010) (walk ?w [] ?ms) = Some r"
    using conditionsOf_answers [OF ok] by blast
  have i: "itoa (quot 1000 dxDedupWindowSeconds) = ''33''" by code_simp
  obtain r1 r2 where rep: "scoredReport ?w (linkMessage ''JN58'') = Some r1" "hit_key (snd (snd r1)) = ''33|20m|DL1ABC|OE3XYZ|JO31LK|JN58''"
    "scoredReport ?w (linkMessage ''FN42'') = Some r2" "hit_key (snd (snd r2)) = ''33|20m|DL1ABC|OE3XYZ|JO31LK|FN42''"
    using demo_report [of "''JN58''"] demo_report [of "''FN42''"] unfolding i by auto
  have "List.map_filter (scoredReport ?w) ?ms = [r1, r1, r2]" by (simp add: map_filter_simps rep)
  then have k: "(\<lambda>rep. hit_key (snd (snd rep))) ` set (List.map_filter (scoredReport ?w) ?ms)
      = {''33|20m|DL1ABC|OE3XYZ|JO31LK|JN58'', ''33|20m|DL1ABC|OE3XYZ|JO31LK|FN42''}" by (simp add: rep)
  have h: "w_h0 ?w = demoHash 7" "w_h1 ?w = demoHash 11" by (simp_all add: walkOf_def demoEnv_def)
  have "demoHash 7 ''33|20m|DL1ABC|OE3XYZ|JO31LK|JN58'' \<noteq> demoHash 7 ''33|20m|DL1ABC|OE3XYZ|JO31LK|FN42''" by code_simp
  then have "inj_on (hashKey (w_h0 ?w) (w_h1 ?w)) {''33|20m|DL1ABC|OE3XYZ|JO31LK|JN58'', ''33|20m|DL1ABC|OE3XYZ|JO31LK|FN42''}"
    unfolding h by (simp add: hashKey_def)
  then show ?thesis using links_are_distinct_reports [OF ok r, unfolded k] r by simp
qed

text \<open>
  C18: The lite evaluation of the push alerts says what the full one says. For any \<open>sort.Slice\<close>
  that sorts (\<open>slice_sort_ok\<close>), it answers exactly when the full one does, and but for the
  unique links and the repeat ratio computed from them, the station counts, directions and
  regions, the responses have the same header, the same overall figures and the same bands,
  field by field, with the same sequence of scores. Only bands that tie on score and confidence
  may come in another order, as \<open>sort.Slice\<close> is not stable; without such a tie the responses
  are equal, the order and the advice included.
\<close>

theorem lite_agrees:
  assumes "slice_sort_ok (env_sort env)"
  shows "rel_option (\<lambda>lite full. alertCore lite = alertCore full \<and>
      (distinct (map bandKey (r_Bands full)) \<longrightarrow> alertResponse lite = alertResponse full))
    (snd (evaluateAreaWindow env e st cache qth surr minutes cw win now area True))
    (snd (EvaluateAreaWindow env e st cache qth surr minutes cw win now area))"
  using lite_evaluation [OF assms] by (simp add: EvaluateAreaWindow_def liteAgrees_def [abs_def])

theorem lite_agrees_witness:
  "map_option alertCore (snd (evaluateAreaWindow demoEnv (newDxBaselineEngine []) None demoCache ''JO31'' False 20 (-15) demoHistory 1010 None True))
    = map_option alertCore (snd (EvaluateAreaWindow demoEnv (newDxBaselineEngine []) None demoCache ''JO31'' False 20 (-15) demoHistory 1010 None))"
proof -
  have "slice_sort_ok (env_sort demoEnv)" using slice_sort_by by (simp add: demoEnv_def)
  note lite_agrees [OF this, of "newDxBaselineEngine []" None demoCache "''JO31''" False 20 "-15" demoHistory 1010 None]
  moreover have "rel_option R x y \<Longrightarrow> (\<And>a b. R a b \<Longrightarrow> alertCore a = alertCore b) \<Longrightarrow> map_option alertCore x = map_option alertCore y"
    for R x y by (cases x; cases y) simp_all
  ultimately show ?thesis by blast
qed

section \<open>The baseline\<close>

definition demoMessages :: "MQTTMessage list" where
  "demoMessages = [demoMessage ''JO31lk'' ''JN58'' 1000, demoMessage ''FN42'' ''jo31'' 1005, demoMessage ''PM95'' ''FN42'' 3000]"

text \<open>
  C12: Live and baseline count alike. After any sequence of observed spots, the cluster
  baseline of a grid cluster for a band and half-hour slot, summed over its distance and SNR
  tiers, is the number of ends that \<open>clusterEndCount\<close> counts in that cluster over the accepted
  spots of that band and slot. The activity ratio divides like by like.
\<close>

theorem baseline_counts_like_live:
  assumes "ClusterAnchor l0 = Some a" "SquareXY a = Some (ax, ay)" "plain_bands ms" "no_bar band" "0 \<le> slot" "slot < 48"
  shows "clusterTotal (clusterBuckets (foldl (Observe n wall) (newDxBaselineEngine path) ms)) a band slot =
    sum_list (map (\<lambda>m. clusterEndCount m ax ay)
      (filter (\<lambda>m. dxBaselineObserveGate m = Some band \<and> utcSlotOfDay (messageTime wall m) = slot) ms))"
  using assms by (rule cluster_like_for_like)

theorem baseline_counts_like_live_witness:
  "\<exists>a ax ay. ClusterAnchor ''JO31'' = Some a \<and> SquareXY a = Some (ax, ay) \<and>
     clusterTotal (clusterBuckets (foldl (Observe 10 0) (newDxBaselineEngine []) demoMessages)) a ''20m'' 0 =
     sum_list (map (\<lambda>m. clusterEndCount m ax ay)
       (filter (\<lambda>m. dxBaselineObserveGate m = Some ''20m'' \<and> utcSlotOfDay (messageTime 0 m) = 0) demoMessages))"
proof -
  have a: "ClusterAnchor ''JO31'' = Some (SquareXYToLocator 90 138)"
    by (simp add: ClusterAnchor_def ClusterAnchorXY_def SquareXY_def IsLocator_def bt_def ClusterSide_def quot_nonneg)
  have xy: "SquareXY (SquareXYToLocator 90 138) = Some (90, 138)" by (rule SquareXY_SquareXYToLocator) (simp add: on_grid_def)
  have plain: "plain_bands demoMessages" "no_bar ''20m''"
    by (simp_all add: plain_bands_def demoMessages_def demoMessage_def normalizeBand_def ToLower_def lower_char_def TrimSpace_def is_space_def
        HasSuffix_def no_bar_def)
  show ?thesis using baseline_counts_like_live [OF a xy plain, of 0 10 0 "[]"] a xy by auto
qed

text \<open>
  C32: The event ring holds the newest events: after any sequence of observed spots, reading
  the ring from its start gives the last \<open>dxBaselineMaxEvents\<close> accepted ones in their order.
\<close>

theorem ring_holds_the_newest:
  assumes "0 < n"
  shows "snapshotEventsLocked (foldl (Observe n wall) (newDxBaselineEngine path) ms) =
    newest (nat n) (List.map_filter (accepted wall) ms)"
  using assms by (rule Observe_ring)

theorem ring_holds_the_newest_witness:
  "snapshotEventsLocked (foldl (Observe 2 0) (newDxBaselineEngine []) demoMessages) = newest 2 (List.map_filter (accepted 0) demoMessages)"
  using ring_holds_the_newest [of 2 0 "[]" demoMessages] by simp

definition demoBaseline :: DxBaselineEngine where
  "demoBaseline = (newDxBaselineEngine ''b.json'')\<lparr>firstEventAt := 5, lastEventAt := 9,
     buckets := [(baselineKey ''20m'' 3 1 2, \<lparr>bk_Band = ''20m'', bk_SlotOfDay = 3, bk_DistanceTier = 1, bk_SnrTier = 2, bk_Count = 300\<rparr>)],
     eng_events := [\<lparr>ev_T = 5, ev_B = ''20m'', ev_SC = ''A'', ev_RC = ''B'', ev_SL = ''JO31'', ev_RL = ''JN58'', ev_RP = 3\<rparr>]\<rparr>"

text \<open>
  C33: A snapshot reads back: the JSON that \<open>Save\<close> writes, \<open>Load\<close> decodes (through the
  bucket's own \<open>UnmarshalJSON\<close>) into any engine with a path: the global buckets, the newest
  events within the limit in their order, and the span of the baseline when both its ends are
  known (otherwise it is recomputed from the events). The integers are int64, every string is
  valid UTF-8 (encoding/json leaves it as it is), and every global bucket lies under its own
  key, which \<open>Observe\<close> keeps (\<open>Observe_keys\<close>). For the cluster buckets see
  \<open>Load_loses_cluster\<close>.
\<close>

theorem snapshot_round_trip:
  assumes "engine_keys (buckets e)" "json_engine coerce e" "is_int64 now" "eng_path e' \<noteq> []"
    and "Save coerce now e = Some j" "Load n (FileJson j) e' = (e'', ok)"
  shows "ok \<and> buckets e'' = buckets e \<and> snapshotEventsLocked e'' = newest (nat n) (snapshotEventsLocked e) \<and>
    (firstEventAt e \<noteq> 0 \<and> lastEventAt e \<noteq> 0 \<longrightarrow> firstEventAt e'' = firstEventAt e \<and> lastEventAt e'' = lastEventAt e)"
  using Load_Save [OF assms(2,3,1,4-6)] by blast

theorem snapshot_round_trip_witness:
  "\<exists>j. Save (\<lambda>s. s) 7 demoBaseline = Some j \<and>
     buckets (fst (Load 10 (FileJson j) (newDxBaselineEngine ''b.json''))) = buckets demoBaseline \<and>
     firstEventAt (fst (Load 10 (FileJson j) (newDxBaselineEngine ''b.json''))) = 5"
proof -
  have k: "engine_keys (buckets demoBaseline)" by (simp add: engine_keys_def demoBaseline_def storedKey_def)
  have i: "is_int64 7" by (simp add: is_int64_def)
  have json: "json_engine (\<lambda>s. s) demoBaseline"
    by (simp add: json_engine_def json_bucket_def json_event_def demoBaseline_def newDxBaselineEngine_def is_int64_def)
  have p: "eng_path demoBaseline \<noteq> []" "eng_path (newDxBaselineEngine ''b.json'') \<noteq> []"
    by (simp_all add: demoBaseline_def newDxBaselineEngine_def TrimSpace_def is_space_def)
  then obtain j where s: "Save (\<lambda>s. s) 7 demoBaseline = Some j" by (simp add: Save_def)
  obtain e'' ok where l: "Load 10 (FileJson j) (newDxBaselineEngine ''b.json'') = (e'', ok)" by fastforce
  have d: "firstEventAt demoBaseline = 5" "lastEventAt demoBaseline = 9" by (simp_all add: demoBaseline_def)
  show ?thesis using snapshot_round_trip [OF k json i p(2) s l] s l d by simp
qed

text \<open>
  C30: Memory and store agree on the quartiles: for plausible counts, the quartiles that the
  in-memory buckets give for a band and slot are those the store's routine computes from the
  same buckets, cluster first and global otherwise.
\<close>

theorem memory_quartiles_are_the_stores:
  assumes "\<forall>b \<in> set (chosenBuckets global cb cluster band slot). plausibleBaselinePair (pairOf b)"
  shows "snd (baselineScoreQuantilesForBand global cb cluster band slot) =
    quantilesFromPairs (map pairOf (chosenBuckets global cb cluster band slot))"
  using assms by (rule quantiles_eq)

theorem memory_quartiles_are_the_stores_witness:
  "snd (baselineScoreQuantilesForBand [(baselineKey ''20m'' 3 1 2, \<lparr>bk_Band = ''20m'', bk_SlotOfDay = 3, bk_DistanceTier = 1, bk_SnrTier = 2, bk_Count = 300\<rparr>)] [] [] ''20m'' 3) =
    quantilesFromPairs (map pairOf
      (chosenBuckets [(baselineKey ''20m'' 3 1 2, \<lparr>bk_Band = ''20m'', bk_SlotOfDay = 3, bk_DistanceTier = 1, bk_SnrTier = 2, bk_Count = 300\<rparr>)] [] [] ''20m'' 3))"
  by (rule memory_quartiles_are_the_stores [where slot = 3 and cluster = "[]" and cb = "[]"])
    (auto simp: chosenBuckets_def usableBuckets_def Let_def plausibleBaselinePair_def pairOf_def maxPlausibleBaselineCount_def
      split: option.splits if_splits)

section \<open>The cell feed\<close>

definition demoFeed :: cellFeed where
  "demoFeed = \<lparr>feed_engine = [], feed_hasStore = True, retentionDays = 30, feed_dedup = [], lastPrune = 0, feed_table = []\<rparr>"

text \<open>
  C20: The cell feed conserves spots: with a store, for every cell, band, lane and quarter
  hour, and any interleaving of live spots, backfills and persistence ticks, the spots in
  memory plus the spots in the table are the spots that were handed over. A bucket flushed
  twice adds to its row and loses nothing. Every tick's batch commits and no tick's retention
  prune deletes this key's row (\<open>feed_safe\<close>): a row past the retention is given up, and a
  batch that fails loses its rows (\<open>failed_batch_loses\<close>). Memory and table hold a key once
  (\<open>feed_ok\<close>).
\<close>

theorem feed_conserves_spots:
  assumes "feed_ok s" "\<forall>op \<in> set ops. feed_safe k (retentionDays s) op"
  shows "feedTotal k (fold feedStep ops s) = feedTotal k s + length (filter (\<lambda>m. spotKey m = Some k) (handedAll ops s))"
  using assms by (rule feed_conserves)

theorem feed_conserves_spots_witness:
  "\<forall>k. feedTotal k (fold feedStep [FeedBackfill demoMessages, FeedTick 5000 True (\<lambda>_. False), FeedObserve 5001 (hd demoMessages)] demoFeed)
    = length (filter (\<lambda>m. spotKey m = Some k)
        (handedAll [FeedBackfill demoMessages, FeedTick 5000 True (\<lambda>_. False), FeedObserve 5001 (hd demoMessages)] demoFeed))"
proof
  fix k
  have "feed_ok demoFeed" by (simp add: feed_ok_def demoFeed_def)
  moreover have "feedTotal k demoFeed = 0" by (simp add: feedTotal_def memCount_def tabCount_def demoFeed_def)
  ultimately show "feedTotal k (fold feedStep [FeedBackfill demoMessages, FeedTick 5000 True (\<lambda>_. False), FeedObserve 5001 (hd demoMessages)] demoFeed)
    = length (filter (\<lambda>m. spotKey m = Some k)
        (handedAll [FeedBackfill demoMessages, FeedTick 5000 True (\<lambda>_. False), FeedObserve 5001 (hd demoMessages)] demoFeed))"
    using feed_conserves_spots [of demoFeed "[FeedBackfill demoMessages, FeedTick 5000 True (\<lambda>_. False), FeedObserve 5001 (hd demoMessages)]" k]
    by simp
qed

text \<open>
  C40: When the longitude loops end, and where. With every sum rounded as float64 rounds it,
  they end for every longitude of at most 2^60 in absolute value, however many turns away,
  with a longitude in [-180, 180). Further out a step of 360 can round to no step at all, and
  from a longitude where it does (not in range, the step a no-op) the loops never return.
  With exact arithmetic they always end, and the result differs by whole turns. Infinities
  and NaN are not numbers of the model.
\<close>

theorem longitude_is_normalized:
  assumes "rounds_like_float64 rnd"
  shows "(\<bar>lon\<bar> \<le> 2 ^ 60 \<longrightarrow> (\<exists>y. normalizeLonF rnd lon = Some y \<and> -180 \<le> y \<and> y < 180)) \<and>
    (180 \<le> lon \<and> rnd (lon - 360) = lon \<or> lon < -180 \<and> rnd (lon + 360) = lon \<longrightarrow> normalizeLonF rnd lon = None) \<and>
    (\<exists>k::int. normalizeLonF (\<lambda>x. x) lon = Some (lon + 360 * of_int k) \<and>
       -180 \<le> lon + 360 * of_int k \<and> lon + 360 * of_int k < 180)"
proof -
  obtain k :: int where "normalizeLon lon = lon + 360 * of_int k" using normalizeLon_turns by blast
  then show ?thesis
    using normalizeLonF_returns [OF assms, of lon] normalizeLonF_stuck [of lon rnd] normalizeLonF_exact [of lon]
      normalizeLon_range [of lon] by auto
qed

theorem longitude_is_normalized_witness:
  "\<exists>rnd. (\<exists>y. normalizeLonF rnd 540 = Some y \<and> -180 \<le> y \<and> y < 180) \<and> normalizeLonF rnd (2 ^ 63) = None"
proof -
  define rnd :: "real \<Rightarrow> real" where "rnd x = (if 2 ^ 63 - 512 \<le> x \<and> x \<le> 2 ^ 63 then 2 ^ 63 else x)" for x
  have "mono rnd" by (auto simp: mono_def rnd_def)
  moreover have "\<bar>rnd x - x\<bar> \<le> \<bar>x\<bar> / 2 ^ 53" for x by (auto simp: rnd_def abs_if)
  ultimately have r: "rounds_like_float64 rnd" by (simp add: rounds_like_float64_def rnd_def)
  have "rnd (2 ^ 63 - 360) = 2 ^ 63" by (simp add: rnd_def)
  then show ?thesis
    using longitude_is_normalized [OF r, of 540] longitude_is_normalized [OF r, of "2 ^ 63"] by auto
qed

section \<open>The live area\<close>

text \<open>
  C27: The live area is the smallest that is busy enough. A decided area is centred on the
  QTH's square and at most three rings wide; no smaller radius from the request's own up has
  three bands with 25 links each in the last 20 minutes, and unless it is the widest, its own
  has; the links it reports are those within the requested radius.
\<close>

theorem live_area_is_the_smallest:
  assumes "resolveLiveAreaFrom since qth surroundings now history = (Some a, True)"
  shows "SquareXY qth = Some (area_x a, area_y a) \<and> Centre a = take 4 qth \<and>
    BaseRadius a = (if surroundings then 1 else 0) \<and> BaseRadius a \<le> Radius a \<and> Radius a \<le> 3 \<and>
    Widened a = (Radius a > BaseRadius a) \<and>
    (\<forall>r. BaseRadius a \<le> int r \<and> int r < Radius a \<longrightarrow>
      card {band. linksWithin (area_x a) (area_y a) (now - 1200) now history band r \<ge> 25} < 3) \<and>
    (Radius a < 3 \<longrightarrow>
      card {band. linksWithin (area_x a) (area_y a) (now - 1200) now history band (nat (Radius a)) \<ge> 25} \<ge> 3) \<and>
    (\<forall>band. baseLinks a band = int (linksWithin (area_x a) (area_y a) (now - 1200) now history band (nat (BaseRadius a))))"
  using assms by (rule resolve_decided)

lemma demo_ring: "linkRing 93 141 800 2000 (demoMessage ''JO31lk'' ''JN58'' 1000) = Some (''20m'', 0)"
  by (simp add: linkRing_def demoMessage_def emptyMessage_def isNonConditionsMode_def feedsClusterBaseline_def sourceFeedsClusterBaseline_def
      normalizeBand_def ToLower_def lower_char_def TrimSpace_def is_space_def HasSuffix_def bandInScope_def inScopeBandIndex_def
      SquareXY_def IsLocator_def bt_def upper_char_def nearerEnd_def liveAreaMaxRadius_def defaultDxCwViableMinDb_def Let_def char_of_eq_iff)

lemma demo_count: "(countLink (Some (''20m'', 0)) ^^ n) [] = (if n = 0 then [] else [(''20m'', [int n, 0, 0, 0])])"
  by (induction n) (simp_all add: countLink_def liveAreaMaxRadius_def numeral_eq_Suc)

lemma demo_links:
  "fold (\<lambda>m. countLink (linkRing 93 141 800 2000 m)) (replicate n (demoMessage ''JO31lk'' ''JN58'' 1000)) [] =
    (if n = 0 then [] else [(''20m'', [int n, 0, 0, 0])])"
proof -
  have "fold (\<lambda>m. countLink (linkRing 93 141 800 2000 m)) (replicate n (demoMessage ''JO31lk'' ''JN58'' 1000)) c
      = (countLink (Some (''20m'', 0)) ^^ n) c" for c
    by (induction n arbitrary: c) (simp_all add: demo_ring funpow_swap1)
  then show ?thesis by (simp only: demo_count)
qed

theorem live_area_is_the_smallest_witness:
  "\<exists>a. resolveLiveAreaFrom 0 ''JO31'' False 2000 (replicate 25 (demoMessage ''JO31lk'' ''JN58'' 1000)) = (Some a, True) \<and> Radius a \<le> 3 \<and> Widened a = (Radius a > 0)"
proof -
  obtain a where a: "resolveLiveAreaFrom 0 ''JO31'' False 2000 (replicate 25 (demoMessage ''JO31lk'' ''JN58'' 1000)) = (Some a, True)"
    using demo_links [of 25]
    by (simp add: resolveLiveAreaFrom_def SquareXY_def IsLocator_def bt_def Let_def liveAreaDecisionMinutes_def cum_def liveAreaFullSampleLinks_def liveAreaMaxRadius_def)
  show ?thesis using live_area_is_the_smallest [OF a] a by simp
qed

section \<open>The almanac's codec\<close>

text \<open>
  C28: A sparse cell reads back: decoding an encoded month of counts and SNR histograms gives
  the counts and, in every nonempty half hour, the histogram; the histogram of an empty one is
  dropped, and there is no error.
\<close>

theorem sparse_round_trip:
  assumes "grid_ok counts hists"
  shows "almanacSparseDecodeHist (almanacSparseEncode counts (Some hists)) =
    (counts, map (\<lambda>(v, h). if v = 0 then zeroHist else h) (zip counts hists), None)"
  using decode_encode [OF assms] by (simp add: normHist_def)

theorem sparse_round_trip_witness:
  "almanacSparseDecodeHist (almanacSparseEncode ((replicate almanacSeasonCountsLen 0)[7 := (3::nat)]) (Some (replicate almanacSeasonCountsLen [3, 0, 0, 0, 0, 0])))
    = ((replicate almanacSeasonCountsLen 0)[7 := (3::nat)],
       map (\<lambda>(v, h). if v = 0 then zeroHist else h) (zip ((replicate almanacSeasonCountsLen 0)[7 := (3::nat)]) (replicate almanacSeasonCountsLen [3, 0, 0, 0, 0, 0])), None)"
  by (rule sparse_round_trip) (simp add: grid_ok_def almanacSNRBins_def)

text \<open>
  C29: Replacing a day is a set, not an add: after a day's counts are written over a row, the
  row holds exactly that segment with its histograms and is otherwise unchanged, whatever it
  held there before, and writing the same day again changes nothing.
\<close>

theorem replace_day_is_a_set:
  assumes "day_ok d day hs"
  shows "rowOf (Some (fst (almanacSparseReplaceDay e d day (Some hs)))) =
      (copyAt (almanacSegmentOffset d) day (fst (rowOf e)),
       copyAt (almanacSegmentOffset d) (map normHist (zip day hs)) (map normHist (zip (fst (rowOf e)) (snd (rowOf e))))) \<and>
    fst (almanacSparseReplaceDay (Some (fst (almanacSparseReplaceDay e d day (Some hs)))) d day (Some hs))
      = fst (almanacSparseReplaceDay e d day (Some hs))"
  using replace_day_row(1) [OF assms] replace_day_idem [OF assms] by simp

theorem replace_day_is_a_set_witness:
  "fst (almanacSparseReplaceDay (Some (fst (almanacSparseReplaceDay None 3 (replicate 48 1) (Some (replicate 48 [1, 0, 0, 0, 0, 0])))))
      3 (replicate 48 1) (Some (replicate 48 [1, 0, 0, 0, 0, 0])))
    = fst (almanacSparseReplaceDay None 3 (replicate 48 1) (Some (replicate 48 [1, 0, 0, 0, 0, 0])))"
  using replace_day_is_a_set [of 3 "replicate 48 1" "replicate 48 [1, 0, 0, 0, 0, 0]" None] by (simp add: day_ok_def)

section \<open>Serving and resolving\<close>



text \<open>
  C38: A callsign resolves to the longest listed prefix: with any resolver parsed from a
  country file, a call without an exact entry resolves to the entity of a listed prefix such
  that no listed prefix of the call is longer, with that entity's ISO code, and to nothing
  only when no prefix of it is listed.
\<close>

theorem longest_prefix_resolves:
  assumes "Parse parseFloat file False = Some r" and "cs = ToUpper (TrimSpace call)" "cs \<noteq> []"
    and "map_of (cty_exact r) cs = None"
  shows "case Resolve (Some r) call of
      None \<Rightarrow> \<forall>p e. \<not> listed r cs p e
    | Some (e, code) \<Rightarrow> code = isoOf e \<and> (\<exists>p. listed r cs p e \<and> (\<forall>q e'. listed r cs q e' \<longrightarrow> length q \<le> length p))"
  using Parse_ok [OF assms(1)] assms(2-4) by (rule Resolve_spec)

definition ctyLines :: "string list" where
  \<comment> \<open>an entity with two prefixes and an exact call\<close>
  "ctyLines = [''Fed. Rep. of Germany:  14:  28:  EU:   51.00:   -10.00:    -1.0:  DL:'', ''    DL,DL1A,=DL9XX;'']"

theorem longest_prefix_resolves_witness:
  "\<exists>r. Parse (\<lambda>_. None) ctyLines False = Some r \<and>
     (\<exists>e code p. Resolve (Some r) ''DL1ABC'' = Some (e, code) \<and> listed r ''DL1ABC'' p e \<and>
        (\<forall>q e'. listed r ''DL1ABC'' q e' \<longrightarrow> length q \<le> length p))"
proof -
  have "case Parse (\<lambda>_. None) ctyLines False of None \<Rightarrow> False
    | Some r \<Rightarrow> map_of (cty_exact r) ''DL1ABC'' = None \<and> Resolve (Some r) ''DL1ABC'' \<noteq> None" by code_simp
  then obtain r e code where r: "Parse (\<lambda>_. None) ctyLines False = Some r" "map_of (cty_exact r) ''DL1ABC'' = None"
    "Resolve (Some r) ''DL1ABC'' = Some (e, code)" by (auto split: option.splits)
  have cs: "''DL1ABC'' = ToUpper (TrimSpace ''DL1ABC'')"
    by (simp add: TrimSpace_def is_space_def upper_char_def char_of_eq_iff)
  show ?thesis using longest_prefix_resolves [OF r(1) cs _ r(2)] r by fastforce
qed

text \<open>
  C39: The history limiter bounds every hour: from a fresh start, whatever the requests of any
  addresses in time order, in no hour (wherever it starts) are more than twice the limit of
  one address's requests admitted.
\<close>

theorem history_rate_is_bounded:
  assumes "ip \<noteq> []" "sorted (map snd reqs)"
  shows "hits (admitted historyLimiter_allow [] reqs ip) a (a + hour) \<le> 2 * historyRatePerHour"
  by (rule hl.admitted_bound) (use assms in \<open>simp_all add: counts_distinct_def windowOf_def\<close>)

theorem history_rate_is_bounded_witness:
  "hits (admitted historyLimiter_allow [] [(''a'', 1), (''b'', 2), (''a'', 3)] ''a'') 0 hour \<le> 2 * historyRatePerHour"
  using history_rate_is_bounded [of "''a''" "[(''a'', 1), (''b'', 2), (''a'', 3)]" 0] by simp

end
