(* ===== verification/Assurances.thy ===== *)
theory Assurances
  imports Archive PropFacts HotBands Guarantees
begin

text \<open>
  Properties of the seasonal record, of the two propagation evaluations, of the from-here view
  and of the hot bands, each with a witness on concrete data.
\<close>

section \<open>The seasonal record\<close>

text \<open>
  C4: The seasonal record keeps every spot. However observing, flushing (failing or not), the
  fold runs, the prune gate and the retention prune interleave: the count of a slot of a folded
  day that is not recorded lost is the number of spots the baseline ever accepted for its
  square, band and region, up to saturation at 255, whatever was pruned since; and for a day the
  watermark has not reached, the queue, the flush under way and the daily table together still
  hold every accepted spot.
\<close>

theorem archive_exact:
  assumes "archReach (s, L)"
  shows "(foldedDay s (dk_DayIndex k) \<and> 0 \<le> dk_SlotOfDay k \<and> dk_SlotOfDay k < 48 \<and> int (L k) < 2 ^ 62 \<longrightarrow>
      cellAt (tb_season (ay_tables s)) (segOf k) (dk_DayIndex k) (nat (dk_SlotOfDay k)) = min 255 (L k)) \<and>
    (unfolded s (dk_DayIndex k) \<longrightarrow> int (L k) = waiting s k + deltaCount (tb_region (ay_tables s)) k)"
  using archive_cell [OF assms] archive_waiting [OF assms] by blast

theorem archive_exact_witness:
  "\<exists>s L. archReach (s, L) \<and> L runKey = 1 \<and> cellAt (tb_season (ay_tables s)) (''JO31'', ''20m'', ''NA'') 3 0 = 1"
proof -
  obtain s L where r: "archReach (s, L)" "foldedDay s 3" "L runKey = 1" using a_run by blast
  from archive_exact [OF r(1), of runKey] r have "cellAt (tb_season (ay_tables s)) (''JO31'', ''20m'', ''NA'') 3 0 = 1"
    by (simp add: runKey_def segOf_def)
  with r show ?thesis by blast
qed

section \<open>The hot bands\<close>

text \<open>
  C16: The hot bands are the best of the qualified bands. Whenever an evaluation answers, so does
  the hot-bands request, which runs on the lite evaluation, with what the full one would give;
  its recommendations are the first of the strict ranking of the bands the full evaluation
  qualifies, no band twice, and the ranking does not depend on the order in which the
  evaluation lists its bands. This is for any \<open>sort.Slice\<close> that sorts (\<open>slice_sort_ok\<close>, stable or
  not), SNRs whose spread does not overflow, and an index that describes the window
  (\<open>index_sound\<close>), under which the evaluation answers (C2).
\<close>

theorem hot_bands_are_the_best:
  assumes "slice_sort_ok (env_sort env)" "sane_snr (msgs win)" "index_sound g hz cache win"
  shows "\<exists>cond h. snd (EvaluateAreaWindow env e st cache qth surr minutes cw win now area) = Some cond \<and>
    snd (HotBandsAreaWindow env e st cache qth surr minutes cw cb win now area opts) = Some h \<and>
    h = hotBandsFromConditions cond cb opts \<and>
    (r_QTH cond \<noteq> [] \<longrightarrow> h_Recommendations h = take (hotLimit opts) (hotRanking cond cb opts)) \<and>
    sorted_wrt hotBefore (hotRanking cond cb opts) \<and> distinct (map hb_Band (hotRanking cond cb opts)) \<and>
    (\<forall>bs. mset bs = mset (r_Bands cond) \<longrightarrow> hotRanking (cond\<lparr>r_Bands := bs\<rparr>) cb opts = hotRanking cond cb opts)"
proof -
  obtain cond where c: "snd (EvaluateAreaWindow env e st cache qth surr minutes cw win now area) = Some cond" "response_typed cond"
    using evaluate_answers [OF assms, of e st qth surr minutes cw now area False] by (auto simp: EvaluateAreaWindow_def)
  then have d: "distinct (map c_Band (r_Bands cond))" by (simp add: response_typed_def)
  note lite = hot_bands_lite [OF assms(1) c(1) d, of cb opts]
  have "hotRanking (cond\<lparr>r_Bands := bs\<rparr>) cb opts = hotRanking cond cb opts" if "mset bs = mset (r_Bands cond)" for bs
    by (rule ranking_determined [OF d]) (simp_all add: that)
  then show ?thesis
    using c(1) lite recommendations_are_top [of cond cb opts] ranking_strict [OF d, of cb opts]
    by (intro exI [of _ cond] exI [of _ "hotBandsFromConditions cond cb opts"] conjI allI impI) simp_all
qed

theorem hot_bands_are_the_best_witness:
  "\<exists>cond h. snd (EvaluateAreaWindow demoEnv (newDxBaselineEngine []) None demoCache ''JO31'' False 20 (-15) demoHistory 1010 None) = Some cond \<and>
    snd (HotBandsAreaWindow demoEnv (newDxBaselineEngine []) None demoCache ''JO31'' False 20 (-15) [] demoHistory 1010 None
      \<lparr>ho_Bands = [], ho_Max = 3, ho_Include = []\<rparr>) = Some h \<and>
    h = hotBandsFromConditions cond [] \<lparr>ho_Bands = [], ho_Max = 3, ho_Include = []\<rparr> \<and>
    sorted_wrt hotBefore (hotRanking cond [] \<lparr>ho_Bands = [], ho_Max = 3, ho_Include = []\<rparr>)"
proof -
  have "slice_sort_ok (env_sort demoEnv)" "index_sound (\<lambda>_. emptyMessage) 0 demoCache demoHistory"
    using slice_sort_by by (simp_all add: demoEnv_def index_sound_def demoHistory_def)
  from hot_bands_are_the_best [OF this(1) demo_sane this(2)] show ?thesis by blast
qed

text \<open>
  C25: The Poisson gate is sound. For a positive expectation the computed upper tail is the
  probability of at least that many spots when the count is not above the expectation; above
  it, it is never more than that probability and off by at most the factor of the geometric
  bound, however early the summation stops.
\<close>

theorem poisson_gate:
  assumes "0 < lambda" "0 < k"
  shows "(real k \<le> lambda \<longrightarrow> poissonUpperTail (int k) lambda = poissonTail lambda k) \<and>
    (lambda < real k \<longrightarrow> poissonUpperTail (int k) lambda \<le> poissonTail lambda k \<and>
       poissonTail lambda k \<le> poissonUpperTail (int k) lambda * (real (Suc k) / (real (Suc k) - lambda)))"
  using poisson_tail [OF assms] by blast

theorem poisson_gate_witness:
  "poissonUpperTail 1 1 = poissonTail 1 1 \<and> poissonTail 1 2 \<le> poissonUpperTail 2 1 * (3 / 2)"
  using poisson_gate [of 1 1] poisson_gate [of 1 2] by simp

section \<open>Propagation\<close>

definition beaconMessage :: MQTTMessage where
  "beaconMessage = runMessage\<lparr>MD := ''WSPR'', Source := ''wspr'', TXPower := 37, T := 1000\<rparr>"

definition skedMessage :: MQTTMessage where
  "skedMessage = runMessage\<lparr>T := 1000, Source := []\<rparr>"

text \<open>
  C10: The two propagation versions read the beacons alike. For any window and any selection of
  sources that includes WSPR, in a plain request (not from-here, no widened match area, no
  override of the SSB floor), a band and region is a cell of the first version exactly when it
  has a WSPR cell in the second, and the two agree on its spot count, its slope and its SSB
  flag, whatever CW floor and whatever climatology either uses. The versions read separate
  tables of normals (\<open>wc\<close> and \<open>clim\<close>): the figures of the surge agree when the tables do for
  that band, region and slot and the area is not widened.
\<close>

theorem versions_read_alike:
  fixes qth surroundings minutes ps now ms
  defines "p \<equiv> v2Request qth surroundings minutes ps now None False"
  defines "cells1 \<equiv> fst (scanPropIntelWindow ms (sp_qthSet p) now (sp_cutoff p) (sp_midpoint p))"
    and "cells2 \<equiv> vc_accs (scanPropIntelV2WindowMode p ms)"
  assumes "set ps \<subseteq> set propIntelSourceProfiles" "distinct (map pf_PublicName ps)" "''wspr'' \<in> set (map pf_PublicName ps)"
    and "bi < 13" "ri < 11"
  shows "(map_of cells1 (cellName bi ri) = None \<longleftrightarrow> map_of cells2 (cellName bi ri, ''wspr'') = None) \<and>
    (\<forall>c a. map_of cells1 (cellName bi ri) = Some c \<longrightarrow> map_of cells2 (cellName bi ri, ''wspr'') = Some a \<longrightarrow>
      same_reading (v1Cell floor1 minutes slot th wc ft8 (cellName bi ri, c))
        (v2SourceCellOf None cw minutes slot th widened clim ((cellName bi ri, ''wspr''), a)) \<and>
      (\<not> widened \<and> wc (fst (cellName bi ri)) (snd (cellName bi ri)) slot = clim ''wspr'' (fst (cellName bi ri)) (snd (cellName bi ri)) slot \<longrightarrow>
        same_surge (v1Cell floor1 minutes slot th wc ft8 (cellName bi ri, c))
          (v2SourceCellOf None cw minutes slot th widened clim ((cellName bi ri, ''wspr''), a))))"
  using versions_agree(1,2) [OF assms(4-8)] unfolding p_def cells1_def cells2_def by blast

definition demoClimatology :: climatology where
  "demoClimatology band region slot = Some \<lparr>cl_Mean = 1/10, cl_StdDev = 1/2, cl_Today = 1, cl_SampleDays = 20\<rparr>"

theorem versions_read_alike_witness:
  "\<exists>c a. map_of (fst (scanPropIntelWindow [beaconMessage] (QTHSquares ''JO31'' False) 1100 200 650)) (''20m'', ''NA'') = Some c \<and>
     map_of (vc_accs (scanPropIntelV2WindowMode (v2Request ''JO31'' False 15 [wsprProfile] 1100 None False) [beaconMessage])) ((''20m'', ''NA''), ''wspr'') = Some a \<and>
     same_reading (v1Cell (-15) 15 0 2 demoClimatology (\<lambda>_ _ _. None) ((''20m'', ''NA''), c))
       (v2SourceCellOf None None 15 0 2 False (\<lambda>_ _ _ _. None) (((''20m'', ''NA''), ''wspr''), a)) \<and>
     same_surge (v1Cell (-15) 15 0 2 demoClimatology (\<lambda>_ _ _. None) ((''20m'', ''NA''), c))
       (v2SourceCellOf None None 15 0 2 False (\<lambda>_. demoClimatology) (((''20m'', ''NA''), ''wspr''), a))"
proof -
  have cell: "cellName 5 1 = (''20m'', ''NA'')" by code_simp
  have hyp: "set [wsprProfile] \<subseteq> set propIntelSourceProfiles" "distinct (map pf_PublicName [wsprProfile])"
    "''wspr'' \<in> set (map pf_PublicName [wsprProfile])" "(5::nat) < 13" "(1::nat) < 11"
    by (simp_all add: propIntelSourceProfiles_def wsprProfile_def)
  have w: "sp_qthSet (v2Request ''JO31'' False 15 [wsprProfile] 1100 None False) = QTHSquares ''JO31'' False"
    "sp_cutoff (v2Request ''JO31'' False 15 [wsprProfile] 1100 None False) = 200"
    "sp_midpoint (v2Request ''JO31'' False 15 [wsprProfile] 1100 None False) = 650"
    by (simp_all add: v2Request_def quot_nonneg)
  have "map_of (fst (scanPropIntelWindow [beaconMessage] (QTHSquares ''JO31'' False) 1100 200 650)) (''20m'', ''NA'') \<noteq> None"
    by code_simp
  then obtain c where c: "map_of (fst (scanPropIntelWindow [beaconMessage] (QTHSquares ''JO31'' False) 1100 200 650)) (''20m'', ''NA'') = Some c"
    by blast
  note v = versions_read_alike [OF hyp, where ms = "[beaconMessage]" and now = 1100 and qth = "''JO31''" and surroundings = False and minutes = 15,
    unfolded w cell]
  obtain a where a: "map_of (vc_accs (scanPropIntelV2WindowMode (v2Request ''JO31'' False 15 [wsprProfile] 1100 None False) [beaconMessage])) ((''20m'', ''NA''), ''wspr'') = Some a"
    using v [THEN conjunct1] c by fastforce
  show ?thesis using c a v [of "-15" 0 2 demoClimatology "\<lambda>_ _ _. None" None False "\<lambda>_ _ _ _. None"]
      v [of "-15" 0 2 demoClimatology "\<lambda>_ _ _. None" None False "\<lambda>_. demoClimatology"] by blast
qed

text \<open>
  C13: The trend shows the spots the normal is compared with. For a from-here request whose
  window is a whole number of five-minute bins, the last bins of a cell's trend add up to the
  live count that is set against the normal of that cell; a cell without a trend has none.
\<close>

theorem trend_shows_the_live_count:
  assumes "sp_fromHereOnly p" "distinct (map pf_PublicName (sp_profiles p))" "distinct (map pf_InternalTag (sp_profiles p))"
    and "1 \<le> k" "k \<le> 12" "sp_cutoff p = sp_now p - 300 * int k" "bi < 13" "ri < 11"
  shows "sum_list (drop (12 - k) (case map_of (fromHereTrend ms (sp_profiles p) (sp_qthSet p) (sp_matchArea p) (sp_now p)) (cellName bi ri) of
        Some t \<Rightarrow> t | None \<Rightarrow> replicate 12 0)) =
    spotsOf (vc_normalSpots (scanPropIntelV2WindowMode p ms)) (cellName bi ri)"
  using assms by (rule trend_is_live_count)

definition trendRequest :: scanParams where
  "trendRequest = \<lparr>sp_profiles = propIntelSourceProfiles, sp_qthSet = [''JO31''], sp_matchArea = None, sp_now = 1100,
     sp_cutoff = 200, sp_midpoint = 650, sp_fromHereOnly = True\<rparr>"

theorem trend_shows_the_live_count_witness:
  "sum_list (drop 9 (case map_of (fromHereTrend [skedMessage, beaconMessage] propIntelSourceProfiles [''JO31''] None 1100) (''20m'', ''NA'') of
      Some t \<Rightarrow> t | None \<Rightarrow> replicate 12 0)) = 1"
proof -
  have cell: "cellName 5 1 = (''20m'', ''NA'')" by code_simp
  have d: "distinct (map pf_PublicName propIntelSourceProfiles)" "distinct (map pf_InternalTag propIntelSourceProfiles)" by code_simp+
  have "spotsOf (vc_normalSpots (scanPropIntelV2WindowMode trendRequest [skedMessage, beaconMessage])) (''20m'', ''NA'') = 1" by code_simp
  then show ?thesis
    using trend_shows_the_live_count [of trendRequest 3 5 1 "[skedMessage, beaconMessage]"] d
    unfolding cell by (simp add: trendRequest_def)
qed

text \<open>
  C14: The cells of a propagation response are typed and unique. Every cell of the second version
  has the spot count, the open flags and the source names of the sources it lists, agreements in
  [0, 1], and is silent exactly when it lists none; and the cells are strictly sorted by band and region, so none appears
  twice, whether it comes from live spots or is a silent cell of the normals.
\<close>

theorem propagation_cells_typed:
  assumes "\<And>f ns. fh = Some f \<Longrightarrow> fh_normals f = Some ns \<Longrightarrow> distinct (map fst (ns_ByCell ns))"
  shows "(\<forall>c\<in>set (vr_Cells (evaluateV2 qth surroundings minutes ps ssb cw ms now th area baseline fh)). cellTyped c) \<and>
    sorted_wrt keyBefore (map cellKeyOf (vr_Cells (evaluateV2 qth surroundings minutes ps ssb cw ms now th area baseline fh)))"
  using response_typed(1) [OF assms] response_typed(2) [OF assms] by (intro conjI)

theorem propagation_cells_typed_witness:
  "sorted_wrt keyBefore (map cellKeyOf (vr_Cells (evaluateV2 ''JO31'' False 15 propIntelSourceProfiles None None [skedMessage] 1100 2 None (\<lambda>_ _ _ _. None)
      (Some \<lparr>fh_normals = Some \<lparr>ns_ByCell = [((''40m'', ''EU''), \<lparr>nm_Expected = 4, nm_StdDev = 1, nm_SampleDays = 20\<rparr>)], ns_SampleDays = 20\<rparr>,
        fh_withSilent = True, fh_dayCurves = None, fh_trend = True, fh_trendHistory = [skedMessage]\<rparr>))))"
  by (rule propagation_cells_typed [THEN conjunct2]) auto

text \<open>
  C26: One background fetch per area. However the calls and the completions interleave, and
  whatever the cache evicts meanwhile, at most one fetch of a key is under way, and one is under
  way exactly when the cache holds its in-flight entry.
\<close>

theorem single_fetch:
  "let (c, working) = foldl running (\<lparr>ac_entries = [], ac_cap = n\<rparr>, \<lambda>_. 0) ops
   in working k \<le> 1 \<and> (working k = 1 \<longleftrightarrow> map_of (ac_entries c) k = Some InFlight)"
proof -
  obtain c working where r: "foldl running (\<lparr>ac_entries = [], ac_cap = n\<rparr>, \<lambda>_. 0) ops = (c, working)"
    by (cases "foldl running (\<lparr>ac_entries = [], ac_cap = n\<rparr>, \<lambda>_. 0) ops")
  show ?thesis unfolding r using one_fetch [OF r, of k] by simp
qed

definition borderMessage :: MQTTMessage where
  \<comment> \<open>two ends in one square, on either side of the western border of Europe\<close>
  "borderMessage = runMessage\<lparr>SL := ''IM26aa'', RL := ''IM26xx''\<rparr>"

text \<open>
  C15: What the from-here view counts against what the store files. For squares as the request
  names them (no match area) and locators as the feed writes them, the regions the matcher
  credits on either end are, with multiplicity, the regions of the daily keys the baseline
  files the spot under for those squares, so live counts and normals count the same thing. The
  one exception is a spot with both ends in the same square but in different regions (6-character
  locators on either side of a border): the baseline files it under both regions, the matcher
  credits only the far one, and the difference is exactly the region of the receiving end.
\<close>

theorem from_here_counts_like_the_store:
  assumes "\<forall>t\<in>set tokens. length t = 4 \<and> IsLocator t" "canonicalLoc (SL m)" "canonicalLoc (RL m)" "normalizeBand band \<noteq> []"
  shows "mset (cellRegions (fst (fromHereRemoteEnds m tokens None side)) @ cellRegions (snd (fromHereRemoteEnds m tokens None side)) @
      (if straddles tokens m then cellRegions (if side = ''rc'' then RL m else SL m) else [])) =
    mset (map dk_Region (filter (\<lambda>k. dk_TargetGrid4 k \<in> set tokens) (dxPulseRegionBaselineKeysForSpot (T m) band (SL m) (RL m))))"
  using assms by (rule ends_are_baseline_keys)

theorem from_here_counts_like_the_store_witness:
  "mset (cellRegions (fst (fromHereRemoteEnds runMessage [''JO31''] None ''sc'')) @ cellRegions (snd (fromHereRemoteEnds runMessage [''JO31''] None ''sc''))) =
    {# ''NA'' #} \<and>
   mset (map dk_Region (filter (\<lambda>k. dk_TargetGrid4 k \<in> set [''IM26'']) (dxPulseRegionBaselineKeysForSpot (T borderMessage) ''20m'' (SL borderMessage) (RL borderMessage)))) =
    mset (cellRegions (fst (fromHereRemoteEnds borderMessage [''IM26''] None ''sc'')) @ cellRegions (snd (fromHereRemoteEnds borderMessage [''IM26''] None ''sc'')) @ [''AF''])"
proof -
  have h: "\<forall>t\<in>set [''JO31'']. length t = 4 \<and> IsLocator t" "canonicalLoc (SL runMessage)" "canonicalLoc (RL runMessage)" "normalizeBand ''20m'' \<noteq> []"
    "\<not> straddles [''JO31''] runMessage"
    by code_simp+
  have k: "map dk_Region (filter (\<lambda>k. dk_TargetGrid4 k \<in> set [''JO31'']) (dxPulseRegionBaselineKeysForSpot (T runMessage) ''20m'' (SL runMessage) (RL runMessage))) = [''NA'']"
    by code_simp
  have b: "\<forall>t\<in>set [''IM26'']. length t = 4 \<and> IsLocator t" "canonicalLoc (SL borderMessage)" "canonicalLoc (RL borderMessage)"
    "straddles [''IM26''] borderMessage" "cellRegions (SL borderMessage) = [''AF'']"
    by code_simp+
  show ?thesis
    using from_here_counts_like_the_store [OF h(1-4), of "''sc''"] h(5) from_here_counts_like_the_store [OF b(1-3) h(4), of "''sc''"] b(4,5)
    unfolding k by simp
qed

end
