(* ===== verification/Spec2Isabelle.thy ===== *)
theory Spec2Isabelle
  imports Maidenhead Conditions Percentile SquareSet Ingest Stream AreaIndex LiveArea Push History AlmanacSparse Gzip
    Cty Regions CellFeed Engine Activity Evaluate WindowScan Verdict Lite Demo Sorting HotBands
    HorstStore HorstEngine HorstFeed PathScore PropRemote FromHere PropScan
    PropEval PropFacts Calendar PgStore AlmanacFold Archive Guarantees Assurances
begin

text \<open>
  Horstreporter, verified parts.

  Horstreporter (cmd/horstreporter) collects radio reception reports ("spots") from PSKReporter
  over MQTT and from other feeds, keeps the last hours in memory, streams the spots of an
  operator's area to browsers, compares the bands with a baseline it learns, and archives what
  it saw. Two companion programs, horstprop (a scoring service) and pathscope (a path browser),
  use the same packages under internal/. This development models the code under src/ that
  decides something; every definition names its Go function, and PROJECT.json maps it to lines.

  How the parts interact. A payload becomes a message (Ingest), the hub appends it to its
  history, numbers it and hands it to the registered clients (Hub, Stream). The same message is
  observed by the baseline in memory (Engine) and by the store's queue (PgStore). A conditions
  request walks a window of the history (WindowScan, Evaluate), helped by the area index
  (AreaIndex, SecondCounts), and is judged against the baseline (Conditions, Activity, Verdict,
  Lite); the hot bands and the push alerts read that evaluation (HotBands, Push). The
  propagation requests scan the same history by band, region and source (PropRemote, PropScan,
  PropEval, FromHere). Once a day is final its counts are folded into the seasonal record and
  may be pruned (AlmanacFold, AlmanacSparse, Calendar, Archive). History replay answers from
  the archive or the hub (History, Cache).

  Theories and code.
  \<^item> Prelude: Go's strings, integers and floats. Search and Sorting: package sort. Assoc: Go
    maps as association lists. Json: encoding/json. Grouping: accumulators by key. Cache: the contract of the
    time-bounded caches.
  \<^item> Maidenhead, Regions, Cty: internal/maidenhead, internal/region with dx_regions.go,
    internal/cty. Gzip: internal/httpx/gzip.go. PathScore: internal/pathscope/score.go.
  \<^item> Messages, Matching, SquareSet: mqtt.go (the message), spot.go, match_band_event.go and the
    matchers of dx_conditions.go. Ingest: mqtt.go (the parser). Hub, Stream: hub.go, stream.go,
    stream_wire.go, the stream part of server.go. LiveArea: live_area.go. RateLimit, Push,
    History: the limiters, push.go, history.go.
  \<^item> Baseline, Conditions, Percentile, Engine, Activity, WindowScan, Evaluate, Verdict, Lite:
    dx_conditions.go, percentile_select.go and the pair arithmetic of dx_postgres.go.
    AreaIndex, SecondCounts: area_index.go, cluster_counts.go. HotBands: hot_bands.go.
  \<^item> PropRemote, PropScan, PropEval, PropFacts: prop_intel.go, prop_intel_v2.go,
    prop_intel_sources.go, prop_intel_fromhere_detail.go. FromHere: prop_intel_fromhere.go.
  \<^item> CellFeed: internal/proplab and dx_cellfeed.go. PgStore: the write side of dx_postgres.go.
    Calendar, AlmanacFold, AlmanacSparse, Archive: almanac_fold.go, almanac_season_store.go,
    almanac_disk.go, almanac_sparse.go, and the year-month helpers of almanac_season.go.
  \<^item> HorstStore, HorstEngine, HorstFeed: cmd/horstprop/internal (store, geo, engine, model, kc2g,
    config, feed, api) and internal/propcontract.
  \<^item> Demo holds the data of the witnesses. The properties are here (the live stream, the scan and
    the ingest), in Guarantees (conditions and services) and in Assurances (the seasonal record,
    propagation, hot bands).

  Conventions. A Go string is a list of bytes; upper-casing is that of ASCII. A float is a real,
  so rounding of sums is not modelled. The one loop whose end depends on it, normalising a
  longitude, is also modelled with every sum rounded (\<open>normalizeLonF\<close>), the rounding a parameter
  with the bounds of float64. A NaN or an infinity that could arise is excluded by a hypothesis or
  is an option. An int is an \<open>int\<close> with the
  wrap written out (\<open>i64\<close>) where the code can reach it, and unbounded where it counts spots in
  memory. A Go map is an association list with distinct keys when its order cannot be seen, and
  the properties are stated so that they do not depend on that order; iteration order that can
  be seen is an argument. The history of the hub is in the order of arrival, which need not be that of the spot times:
  \<open>disorder\<close> bounds by how much it is not, and the properties of the stream and of the prune state
  what follows from that bound. JSON is a value of theory Json, which holds what encoding/json
  documents about storing one; its text is not modelled. The client of a compressed response
  decodes it only when the compressor was closed. An error is a branch: an option, a sum, or an
  error datatype. Time is
  an argument, in seconds or, in the limiters and in horstprop, in nanoseconds.

  Concurrency. What runs under one lock is one step. Interleavings are step relations with
  reachability (the hub in Hub, the observe, flush, fold and prune steps in Archive) or a fold
  over a list of operations (the fetch cache in FromHere). The live area cache, the area index
  and the limiters are sequences of atomic operations because each holds its mutex throughout.

  Parameters, each with the behaviour of its documentation as a named hypothesis where a
  property needs it: json.Unmarshal, strconv.ParseFloat, the two hash functions of the key set
  (a property that counts reports states that they are injective on the reports seen),
  sort.Slice (a sorted permutation, and nothing about the order of equals: \<open>slice_sort_ok\<close>), the compressor of the response writer, the
  results of the store's queries, the QRZ resolver, the MUF provider and the Layer-3 model. A
  database table is an association list on its primary key and a transaction either commits or
  leaves the tables alone; which of the two happens is an argument, so every property holds for
  every pattern of failures.

  Interfaces. A locale states the contract a client relies on and is interpreted on the code's
  own definitions: the locator codec (Maidenhead), the counting sets of the scan (SquareSet), the
  per-second counters (SecondCounts), the fixed-window limiters (RateLimit), the bounded
  subscription set (Push), the time-bounded caches (Cache, for LiveArea and History), grouping by
  key (Grouping, for CellFeed and Engine) and the comparisons of the sorted results (Sorting, for
  HotBands, PathScore, Verdict and PropFacts).

  Lemma groups. Each theory proves, for its operations, that the invariant is kept (for example
  \<open>cache_ok\<close> of the index, the eviction queue of History, \<open>grid_ok\<close> of the codec, \<open>queued_ok\<close> and
  \<open>marks_ok\<close> of the archive), what each operation returns on every branch, and the equivalence of
  the fast form with the plain one: the in-place matcher and the reference matcher, the bitmap
  and the set, selection and sorting, the indexed walk and the full walk, the lite and the full
  evaluation, the hoisted and the direct propagation matcher. The properties compose these.

  Termination and bounds. Recursion is structural or has a measure, except where a loop's end is itself a claim. A
  counter appears only where the source itself bounds a loop: the Poisson sum (10000 terms) and
  the fold run (64 days). The selection loop of Percentile and the rounded longitude loops of
  CellFeed are partial functions into the option type: that the first returns is part of its
  theorem, and for the second the theorem says where they return and where they do not. That
  dropping from an eviction queue ends is a theorem.

  Not modelled: see the components of PROJECT.json with status not_modelled. In short: the
  network and process glue (main.go, the HTTP mux, MQTT, RBN, DX-cluster and WSPR connections),
  SQL text and query planning, the desktop operator agent, the pathscope server, the one-off
  backfills, and the read side of the almanac beyond what is listed above. They are connection
  handling, SQL or user interface around the modelled decisions.
\<close>

section \<open>The live stream\<close>

text \<open>
  C1: A resumed stream loses nothing. Whatever the resume mode, the opening dump holds the
  spot of every message that is in the requested time window, matches the client and passes
  its filter, unless the request is a delta resume and the client is sure to hold the spot:
  its number is at least \<open>streamResumeOverlap\<close> (512) below the last seen one, so that spots
  delivered out of order near that number are sent again, and the previous filter let it
  through. The history is in the order of ingestion, not of time: \<open>D\<close> is how many seconds a
  message may be older than one appended before it (every history has such a bound, and 0
  means sorted by time), and the messages within \<open>D\<close> of the window's edge are left out.
\<close>

theorem resume_loses_nothing:
  assumes "disorder D (hub_history h)"
    and "streamOpen epoch maxClients h c req radius now = Some p"
    and "decideResume epoch req radius (highSeqLocked h) = (open_mode p, reason, since)"
    and "message_at h s = Some m" and "now - sr_minutes req * 60 + D \<le> T m"
    and "spotFor c req now m = Some sp"
    and "open_mode p = resumeDelta \<Longrightarrow> \<not> client_holds req since s sp"
  shows "sp\<lparr>Seq := int s\<rparr> \<in> set (open_spots p)"
  using cutoff_window(1) [OF assms(1,4,5)] by (intro streamOpen_complete [OF assms(2,3,4) _ assms(6,7)]) simp_all

lemma demo_resume:
  "decideResume ''e'' demoRequest 0 (highSeqLocked demoHub) = (resumeDelta, [], 8)"
  by (simp add: decideResume_def demoRequest_def parseStreamEventID_def ParseUint64_def ParseDigits_def is_digit_def
      demoHub_def highSeqLocked_def)

lemma demo_cutoff: "cutoffIndex demoHub (1010 - 900) = 0"
  by (simp add: cutoffIndex_def demoHub_def demoMessage_def sort_Search_def search_loop.simps Let_def)

lemma demo_spotFor:
  "\<exists>sp. spotFor demoClient demoRequest 1010 (demoMessage ''FN42'' ''jo31'' 1005) = Some sp"
  by (simp add: spotFor_def matchAndCreateSpot_eq endMatches_def demoClient_def demoRequest_def demoMessage_def
      emptyMessage_def matchCall_eq HasPrefix_def HasSuffix_def upper_char_def IsLocator_def bt_def
      spotAllowed_def emptyFilter_def sourceTypeForMessage_def Let_def char_of_eq_iff)

lemma demo_open:
  obtains p where "streamOpen ''e'' 0 demoHub demoClient demoRequest 0 1010 = Some p" "open_mode p = resumeDelta"
  using demo_resume by (simp add: streamOpen_def Let_def)

theorem resume_loses_nothing_witness:
  "\<exists>p sp. streamOpen ''e'' 0 demoHub demoClient demoRequest 0 1010 = Some p \<and>
     sp\<lparr>Seq := 9\<rparr> \<in> set (open_spots p)"
proof -
  obtain p where p: "streamOpen ''e'' 0 demoHub demoClient demoRequest 0 1010 = Some p" "open_mode p = resumeDelta"
    by (rule demo_open)
  obtain sp where sp: "spotFor demoClient demoRequest 1010 (demoMessage ''FN42'' ''jo31'' 1005) = Some sp"
    using demo_spotFor by blast
  have "sp\<lparr>Seq := int 9\<rparr> \<in> set (open_spots p)"
  proof (rule resume_loses_nothing [OF _ p(1) _ _ _ sp])
    show "decideResume ''e'' demoRequest 0 (highSeqLocked demoHub) = (open_mode p, [], 8)"
      using demo_resume p(2) by simp
    show "\<not> client_holds demoRequest 8 9 sp" by (simp add: client_holds_def)
    show "disorder 0 (hub_history demoHub)" by (simp add: disorder_sorted [symmetric] demoHub_def demoMessage_def)
  qed (simp_all add: demoHub_def demoMessage_def demoRequest_def message_at_def highSeqLocked_def)
  then show ?thesis using p(1) by auto
qed

text \<open>
  C7: What a stream opening sends is right: the spots come in strictly increasing sequence
  order, none is past the announced high mark, and each one is the spot of a message the
  hub holds under that number and that matches the client and passes the filter. The
  message is inside the requested window up to the disorder of the history: if no message is
  more than \<open>D\<close> seconds older than one appended before it, it is at most \<open>D\<close> seconds
  older than the window's start (exactly inside when the history is sorted by time).
\<close>

theorem opening_is_sound:
  assumes "streamOpen epoch maxClients h c req radius now = Some p"
  shows "sorted_wrt (<) (map Seq (open_spots p)) \<and> open_high p = highSeqLocked h \<and>
    (\<forall>sp\<in>set (open_spots p). Seq sp \<le> int (open_high p) \<and>
       (\<exists>s m x. message_at h s = Some m \<and> spotFor c req now m = Some x \<and> sp = x\<lparr>Seq := int s\<rparr> \<and>
          (\<forall>D. disorder D (hub_history h) \<longrightarrow> now - sr_minutes req * 60 \<le> T m + D)))"
proof -
  have "open_high p = highSeqLocked h" using streamOpen_form [OF assms] by metis
  moreover have "\<exists>s m x. message_at h s = Some m \<and> spotFor c req now m = Some x \<and> sp = x\<lparr>Seq := int s\<rparr> \<and>
      (\<forall>D. disorder D (hub_history h) \<longrightarrow> now - sr_minutes req * 60 \<le> T m + D)"
    if "sp \<in> set (open_spots p)" for sp
    by (rule streamOpen_sound [OF assms that]) (blast intro: cutoff_window(2))
  ultimately show ?thesis using streamOpen_order [OF assms] by blast
qed

theorem opening_is_sound_witness:
  "\<exists>p. streamOpen ''e'' 0 demoHub demoClient demoRequest 0 1010 = Some p \<and> sorted_wrt (<) (map Seq (open_spots p))"
proof -
  obtain p where p: "streamOpen ''e'' 0 demoHub demoClient demoRequest 0 1010 = Some p" by (rule demo_open)
  then show ?thesis using opening_is_sound [OF p] by blast
qed

text \<open>
  C5: The seam between the history dump and live delivery. However registration, broadcasts,
  their deliveries, pruning, backfill and other clients interleave before and after, every
  spot waiting in the stream's channel has a sequence number later than every spot of its
  opening dump, no two have the same number, and the channel stays within its capacity.
\<close>

theorem seam_without_duplicates:
  assumes "hub_run (newHub, []) (h, ts)"
    and "streamOpen epoch maxClients h c req radius now = Some p"
    and "hub_run (open_hub p, ts) (h', ts')"
  defines "i \<equiv> length (hub_clients h)"
  shows "(\<forall>sp\<in>set (open_spots p). \<forall>q\<in>set (send (hub_clients h' ! i)). Seq sp < Seq q) \<and>
    distinct (map Seq (send (hub_clients h' ! i))) \<and> length (send (hub_clients h' ! i)) \<le> sendBuffer"
proof -
  have p: "open_high p = highSeqLocked h" "open_hub p = registerClient h c"
    using streamOpen_form [OF assms(2)] by metis+
  have new: "i < length (hub_clients (open_hub p))" "snapSeq (hub_clients (open_hub p) ! i) = highSeqLocked h"
    by (simp_all add: p(2) i_def registerClient_def)
  have run: "hub_run (newHub, []) (h', ts')"
    using assms(1,3) step_register [of h ts c] p(2) by (metis converse_rtranclp_into_rtranclp rtranclp_trans)
  have i: "i < length (hub_clients h')" "snapSeq (hub_clients h' ! i) = highSeqLocked h"
    using run_snapSeq [OF assms(3), of i] new by simp_all
  have "Seq sp < Seq q" if "sp \<in> set (open_spots p)" "q \<in> set (send (hub_clients h' ! i))" for sp q
    using streamOpen_order(2) [OF assms(2)] queue_after_snapshot(1) [OF run i(1) that(2)] that(1) i(2) p(1) by fastforce
  then show ?thesis using queue_distinct [OF run i(1)] by blast
qed

theorem seam_without_duplicates_witness:
  "\<exists>p. streamOpen ''e'' 0 newHub demoClient demoRequest 0 1010 = Some p \<and>
     distinct (map Seq (send (hub_clients (open_hub p) ! 0)))"
proof -
  obtain p where p: "streamOpen ''e'' 0 newHub demoClient demoRequest 0 1010 = Some p"
    by (cases "decideResume ''e'' demoRequest 0 (highSeqLocked newHub)") (simp add: streamOpen_def Let_def)
  from seam_without_duplicates [OF rtranclp.rtrancl_refl p rtranclp.rtrancl_refl] p show ?thesis
    by (simp add: newHub_def)
qed

text \<open>
  C6: Sequence numbers are stable names. Through any run of the hub a number that names a
  message names no other message later, the highest number never decreases, and a message
  that is named later but was not before carries a number past the old high mark.
\<close>

theorem sequence_numbers_are_names:
  assumes "hub_run st st'" and "message_at (fst st') s = Some m'"
  shows "(message_at (fst st) s = Some m' \<or> highSeqLocked (fst st) < s) \<and>
    (\<forall>m. message_at (fst st) s = Some m \<longrightarrow> m = m') \<and> highSeqLocked (fst st) \<le> highSeqLocked (fst st')"
  using run_message [OF assms] run_stable [OF assms(1) _ assms(2)] run_high [OF assms(1)] by blast

theorem sequence_numbers_are_names_witness:
  "message_at demoHub 8 = Some (demoMessage ''JO31lk'' ''JN58'' 1000)"
proof -
  have "hub_run (demoHub, []) (registerClient demoHub demoClient, [])"
    by (rule r_into_rtranclp) (rule step_register)
  moreover have "message_at (registerClient demoHub demoClient) 8 = Some (demoMessage ''JO31lk'' ''JN58'' 1000)"
    by (simp add: message_at_def demoHub_def highSeqLocked_def)
  ultimately show ?thesis
    using sequence_numbers_are_names [of "(demoHub, [])" "(registerClient demoHub demoClient, [])" 8]
    by (auto simp: highSeqLocked_def demoHub_def)
qed

text \<open>
  C19: Pruning drops a prefix of the history and nothing else, and every kept message keeps
  its number. For a history in which no message is more than \<open>D\<close> seconds older than one
  appended before it (the history is in the order of ingestion, not of time), a message is
  kept if it is at least \<open>D\<close> seconds inside the retention and dropped if it is more than
  \<open>D\<close> seconds outside; a history sorted by time keeps exactly the messages inside.
\<close>

theorem prune_keeps_the_window:
  assumes "disorder D (hub_history h)" and "0 < minutes"
  shows "highSeqLocked (pruneLiveHistory h now minutes) = highSeqLocked h \<and>
    (\<exists>n. hub_history (pruneLiveHistory h now minutes) = drop n (hub_history h)) \<and>
    (\<forall>s m. message_at (pruneLiveHistory h now minutes) s = Some m \<longrightarrow>
       message_at h s = Some m \<and> now - minutes * 60 \<le> T m + D) \<and>
    (\<forall>s m. message_at h s = Some m \<longrightarrow> now - minutes * 60 + D \<le> T m \<longrightarrow>
       message_at (pruneLiveHistory h now minutes) s = Some m) \<and>
    (D = 0 \<longrightarrow> hub_history (pruneLiveHistory h now minutes) = filter (\<lambda>m. now - minutes * 60 \<le> T m) (hub_history h))"
proof -
  let ?h = "pruneLiveHistory h now minutes"
  note names = prune_names [OF assms]
  have "\<exists>n. hub_history ?h = drop n (hub_history h)" using prune_keeps [OF assms(2)] by blast
  moreover have "\<forall>s m. message_at ?h s = Some m \<longrightarrow> message_at h s = Some m \<and> now - minutes * 60 \<le> T m + D"
  proof (intro allI impI)
    fix s m assume m: "message_at ?h s = Some m"
    show "message_at h s = Some m \<and> now - minutes * 60 \<le> T m + D"
      using prune_message [OF m] names(2) [OF prune_message [OF m] m] by (rule conjI)
  qed
  moreover have "\<forall>s m. message_at h s = Some m \<longrightarrow> now - minutes * 60 + D \<le> T m \<longrightarrow> message_at ?h s = Some m"
    using names(1) by (intro allI impI)
  moreover have "D = 0 \<longrightarrow> hub_history ?h = filter (\<lambda>m. now - minutes * 60 \<le> T m) (hub_history h)"
    using prune_history [OF _ assms(2)] assms(1) by (auto simp: disorder_sorted)
  ultimately show ?thesis by (intro conjI prune_high)
qed

theorem prune_keeps_the_window_witness:
  "message_at (pruneLiveHistory lateHub 1062 1) 9 = Some (demoMessage ''FN42'' ''jo31'' 1010) \<and>
   message_at (pruneLiveHistory lateHub 1062 1) 8 = None"
proof -
  have D: "disorder 5 (hub_history lateHub)"
    by (simp add: disorder_def lateHub_def demoMessage_def nth_Cons less_Suc_eq split: nat.splits)
  have m: "message_at lateHub 8 = Some (demoMessage ''FN42'' ''jo31'' 996)"
    "message_at lateHub 9 = Some (demoMessage ''FN42'' ''jo31'' 1010)"
    by (simp_all add: message_at_def lateHub_def highSeqLocked_def)
  have t: "T (demoMessage sl rl t) = t" for sl rl t by (simp add: demoMessage_def)
  note prune = prune_keeps_the_window [OF D zero_less_one, of 1062, THEN conjunct2, THEN conjunct2]
  note out = prune [THEN conjunct1, rule_format] and kept = prune [THEN conjunct2, THEN conjunct1, rule_format]
  have "message_at (pruneLiveHistory lateHub 1062 1) 8 \<noteq> Some x" for x
  proof
    assume "message_at (pruneLiveHistory lateHub 1062 1) 8 = Some x"
    from out [OF this] have "x = demoMessage ''FN42'' ''jo31'' 996" "1062 - 1 * 60 \<le> T x + 5" unfolding m(1) by simp_all
    then show False by (simp add: t)
  qed
  moreover have "message_at (pruneLiveHistory lateHub 1062 1) 9 = Some (demoMessage ''FN42'' ''jo31'' 1010)"
    by (rule kept [OF m(2)]) (simp add: t)
  ultimately show ?thesis by (metis not_None_eq)
qed



text \<open>
  Resume ids read back: the epoch and number that \<open>streamEventID\<close> writes are what
  \<open>parseStreamEventID\<close> returns, even when the epoch has dashes of its own.
\<close>

theorem event_id_round_trip:
  assumes "epoch \<noteq> []" and "int seq < 2 ^ 64"
  shows "parseStreamEventID (streamEventID epoch seq) = Some (epoch, seq)"
  using assms by (rule parse_streamEventID)

theorem event_id_round_trip_witness:
  "parseStreamEventID (streamEventID ''a-b'' 70) = Some (''a-b'', 70)"
  by (rule event_id_round_trip) simp_all

text \<open>
  C21: The v2 frame is exactly its documented text: the optional id line, then one JSON
  object with the server time and the tuples; a tuple has the locator, band, SNR, age and
  the optional elements with the trailing empty ones trimmed.
\<close>

theorem v2_frame_text:
  "appendV2SpotsFrame marshal buf spots n fid = buf @ ''event: spots'' @ [CHR 0x0A]
     @ (if fid \<noteq> [] then ''id: '' @ fid @ [CHR 0x0A] else [])
     @ ''data: {'' @ [CHR 0x22] @ ''n'' @ [CHR 0x22] @ '':'' @ itoa n @ '','' @ [CHR 0x22] @ ''s'' @ [CHR 0x22] @ '':[''
     @ comma_join (map (\<lambda>s. ''['' @ comma_join
         ([v2String marshal (Locator s), v2String marshal (Band s), itoa (SNR s), itoa (n - spotT s)]
           @ map (v2String marshal) (trimTrailing (v2Fields s))) @ '']'') spots)
     @ '']}'' @ [CHR 0x0A, CHR 0x0A]"
  by (simp only: appendV2SpotsFrame_eq appendV2Spot_eq append_Nil)

section \<open>The area index\<close>

lemma demo_cache: "cache_ok (\<lambda>_. demoMessage ''FN42'' ''PM95'' 1000) 0 demoCache" "tick demoCache < 2 ^ 64 - 2"
  "window_ok (\<lambda>_. demoMessage ''FN42'' ''PM95'' 1000) demoWindow"
  by (simp_all add: cache_ok_def demoCache_def window_ok_def demoWindow_def)

lemma demo_key: "areaIndexKeyFor ''JO31'' False None [] = Some demoKey"
  "\<exists>a. ownSquareArea ''JO31'' False = Some a"
  by (simp_all add: areaIndexKeyFor_def SquareXY_def IsLocator_def bt_def demoKey_def ownSquareArea_def Let_def)

lemma sort_Search_zero: "sort_Search 0 f = 0"
  using sort_Search_boundary(1) [of 0 f] by simp

lemma demo_lookup: "pos (snd (cacheLookup 60 demoCache demoKey demoWindow 900 1000)) = Some []"
proof -
  have cl: "classify demoKey (demoMessage ''FN42'' ''PM95'' 1000) = (False, -1, 0)"
    by (simp add: classify_def demoKey_def demoMessage_def emptyMessage_def end_in_def SquareXYFold_def inArea_def
        bt_def TrimSpace_def is_space_def Let_def)
  have st: "classifyStep demoKey demoWindow e 3 = e" for e
    by (simp add: classifyStep_def demoWindow_def cl)
  have "offs (entryUpdate 60 demoKey demoWindow 1000 (newEntry\<lparr>lastUsed := 1\<rparr>)) = []"
    unfolding entryUpdate_def Let_def
    by (simp add: needsRebuild_def newEntry_def demoWindow_def [THEN arg_cong [of _ _ firstSeq]]
        demoWindow_def [THEN arg_cong [of _ _ msgs]] demoWindow_def [THEN arg_cong [of _ _ hubFirst]]
        entry_reset_def forget_def st)
  then show ?thesis
    by (simp add: cacheLookup_def cacheEntry_def demoCache_def entryAnswer_def Let_def sort_Search_zero
        demoWindow_def [THEN arg_cong [of _ _ msgs]] demoKey_def [THEN arg_cong [of _ _ clusterOK]])
qed

text \<open>
  Evaluating the indexed positions is evaluating the whole window. Whatever requests the
  cache served before, for any window of the hub's history, when a lookup answers with
  positions then the scan's matcher finds the same events, in the same order, in the
  messages at those positions as in all of the window; the cache stays well-formed (at most
  32 entries, each describing the history it has scanned).
\<close>

theorem index_walk_is_window_walk:
  assumes "cache_ok g hz cache" and "tick cache < 2 ^ 64 - 2" and "window_ok g win"
    and "areaIndexKeyFor qth surroundings matchArea cluster = Some k"
    and "(case matchArea of None \<Rightarrow> ownSquareArea qth surroundings | Some b \<Rightarrow> Some b) = Some a"
    and "cacheLookup retention cache k win liveFrom now = (cache', res)" and "pos res = Some ps"
  shows "List.map_filter (\<lambda>m. matchBandEvent m qths (Some a) (normalizeBand (B m)) lite kb) (map (\<lambda>i. msgs win ! i) ps)
      = List.map_filter (\<lambda>m. matchBandEvent m qths (Some a) (normalizeBand (B m)) lite kb) (msgs win) \<and>
    cache_ok g (max hz (now - countSpan retention)) cache'"
proof -
  have "k_x k = area_x a \<and> k_y k = area_y a \<and> k_radius k = Radius a"
    by (rule areaIndexKeyFor_area [OF assms(4)]) (use assms(5) in simp)
  then have "matchBandEvent m qths (Some a) (normalizeBand (B m)) lite kb \<noteq> None \<Longrightarrow> wants k m" for m
    using match_wants by blast
  from positions_walk [of "\<lambda>m. matchBandEvent m qths (Some a) (normalizeBand (B m)) lite kb" k, OF this
      cacheLookup_ok(2) [OF assms(1-3,6,7)]]
  show ?thesis using cacheLookup_ok(1) [OF assms(1-3,6)] by simp
qed

theorem index_walk_is_window_walk_witness:
  "\<exists>a. ownSquareArea ''JO31'' False = Some a \<and>
     List.map_filter (\<lambda>m. matchBandEvent m [] (Some a) (normalizeBand (B m)) True []) (msgs demoWindow) = []"
proof -
  obtain a where a: "ownSquareArea ''JO31'' False = Some a" using demo_key(2) by blast
  obtain c' res where r: "cacheLookup 60 demoCache demoKey demoWindow 900 1000 = (c', res)" by fastforce
  then have "pos res = Some []" using demo_lookup by simp
  then have "List.map_filter (\<lambda>m. matchBandEvent m [] (Some a) (normalizeBand (B m)) True []) (map (\<lambda>i. msgs demoWindow ! i) [])
      = List.map_filter (\<lambda>m. matchBandEvent m [] (Some a) (normalizeBand (B m)) True []) (msgs demoWindow)"
    using index_walk_is_window_walk [OF demo_cache demo_key(1) _ r, of a "[]" "[]" True "[]"] a by simp
  then show ?thesis using a by (simp add: map_filter_simps)
qed

text \<open>
  C11: The regional counts of a lookup are exact: when the index offers them, they are band by
  band the cluster ends of the messages timed in the live range, over a range of sequence
  numbers that covers the window. Counting second by second while messages arrive gives what
  counting the messages gives. The live range must start after the horizon up to which the
  seconds were forgotten: the one of the earlier lookups (\<open>hz\<close>) and the one of this lookup,
  its time less the span of the counts, which the retention sets (\<open>countSpan\<close>).
\<close>

theorem regional_counts_are_exact:
  assumes "cache_ok g hz cache" and "tick cache < 2 ^ 64 - 2" and "window_ok g win"
    and "cacheLookup retention cache k win liveFrom now = (cache', res)" and "regionalOK res"
    and "max hz (now - countSpan retention) \<le> liveFrom" and "now \<noteq> 0"
  shows "\<exists>a b. a \<le> firstSeq win \<and> firstSeq win + length (msgs win) - 1 \<le> b \<and>
    (\<forall>j<clusterBandSlots. regional res ! j
       = (\<Sum>s\<in>{a..b}. if liveFrom \<le> T (g s) \<and> T (g s) \<le> now then contrib k (g s) j else 0))"
  using cacheLookup_ok(3) [OF assms(1-7)] by (simp only: clusterBandSlots_13)

definition clusterKey :: areaIndexKey where
  \<comment> \<open>the key of the witness: the cluster is that of FN42\<close>
  "clusterKey = demoKey\<lparr>clusterOK := True, k_cx := 54, k_cy := 132\<rparr>"

theorem regional_counts_are_exact_witness:
  "regional (snd (cacheLookup 60 demoCache clusterKey demoWindow 1000 1000)) ! 5 = 1"
proof -
  let ?m = "demoMessage ''FN42'' ''PM95'' 1000"
  define g where "g = (\<lambda>s::nat. if s = 3 then ?m else emptyMessage)"
  obtain c' res where r: "cacheLookup 60 demoCache clusterKey demoWindow 1000 1000 = (c', res)" by fastforce
  have cl: "classify clusterKey ?m = (False, 5, 1)" by code_simp
  have ok: "regionalOK (snd (cacheLookup 60 demoCache clusterKey demoWindow 1000 1000))"
  proof -
    have "\<not> ccBad (entryUpdate 60 clusterKey demoWindow 1000 (newEntry\<lparr>lastUsed := 1\<rparr>))"
      unfolding entryUpdate_def Let_def
      by (simp add: needsRebuild_def newEntry_def demoWindow_def entry_reset_def forget_def classifyStep_def cl
          secondCounts_reset_def secondCounts_setSpan_def liveRateWindowMinutes_def maxDxWindowMinutes_def secondCounts_add_def
          secondCountsSlack_def secondCountsForward_def split: prod.split)
    then show ?thesis
      by (simp add: cacheLookup_def cacheEntry_def demoCache_def entryAnswer_def Let_def demoWindow_def [THEN arg_cong [of _ _ msgs]]
          clusterKey_def)
  qed
  have c: "cache_ok g 0 demoCache" "tick demoCache < 2 ^ 64 - 2" "window_ok g demoWindow"
    by (simp_all add: cache_ok_def demoCache_def window_ok_def demoWindow_def g_def)
  have hz: "max 0 (1000 - countSpan 60) \<le> 1000"
    by (simp add: countSpan_def secondCounts_setSpan_def liveRateWindowMinutes_def)
  have w: "firstSeq demoWindow = 3" "length (msgs demoWindow) = 1" by (simp_all add: demoWindow_def)
  have j: "5 < clusterBandSlots" by code_simp
  from regional_counts_are_exact [OF c r _ hz] ok r w j
  obtain a b where ab: "a \<le> 3" "3 \<le> b" and sum:
    "regional res ! 5 = (\<Sum>s\<in>{a..b}. if 1000 \<le> T (g s) \<and> T (g s) \<le> 1000 then contrib clusterKey (g s) 5 else 0)"
    by auto
  have "(if 1000 \<le> T (g s) \<and> T (g s) \<le> 1000 then contrib clusterKey (g s) 5 else 0) = (if 3 = s then contrib clusterKey ?m 5 else 0)" for s
    by (simp add: g_def emptyMessage_def demoMessage_def)
  moreover have "contrib clusterKey ?m 5 = 1" by code_simp
  ultimately show ?thesis using sum ab r by simp
qed

text \<open>
  C9: The allocation-free matcher computes what the reference matcher does: for a message in
  its normalized band, the scan's \<open>matchBandEvent\<close> hits exactly when
  \<open>extractMatchedBandEventArea\<close> does, with the same SNR, distance, direction, dedup key and
  station fields.
\<close>

theorem scan_matcher_is_reference:
  assumes "normalizeBand (B m) \<noteq> []" and "CHR ''|'' \<notin> set (SL m)" and "CHR ''|'' \<notin> set (RL m)"
  shows "matchBandEvent m qths (Some a) (normalizeBand (B m)) lite kb
    = map_option (hitOf lite kb) (extractMatchedBandEventArea m qths (Some a))"
  using assms by (rule matchBandEvent_area)

theorem scan_matcher_is_reference_witness:
  "\<forall>a. matchBandEvent (demoMessage ''JO31'' ''FN42'' 5) [] (Some a) ''20m'' True ''k''
     = map_option (hitOf True ''k'') (extractMatchedBandEventArea (demoMessage ''JO31'' ''FN42'' 5) [] (Some a))"
proof -
  have "normalizeBand (B (demoMessage ''JO31'' ''FN42'' 5)) = ''20m''"
    by (simp add: demoMessage_def normalizeBand_def ToLower_def lower_char_def TrimSpace_def is_space_def HasSuffix_def)
  then show ?thesis
    using scan_matcher_is_reference [of "demoMessage ''JO31'' ''FN42'' 5" "[]" _ True "''k''"]
    by (simp add: demoMessage_def)
qed

text \<open>
  The live area of a locator target matches like its tokens: an end lies in the own
  square (or, with surroundings, the 3 x 3 block) exactly when its upper-cased locator has
  one of the target's square tokens as a prefix.
\<close>

theorem own_area_matches_like_tokens:
  assumes "IsLocator qth" and "ownSquareArea qth surroundings = Some a"
  shows "area_contains a loc \<longleftrightarrow> (\<exists>t\<in>set (QTHSquares qth surroundings). HasPrefix (ToUpper loc) t)"
  using assms by (rule area_contains_tokens)

theorem own_area_matches_like_tokens_witness:
  "\<exists>a. ownSquareArea ''JO31'' False = Some a \<and>
     (area_contains a ''jo31lk'' \<longleftrightarrow> (\<exists>t\<in>set (QTHSquares ''JO31'' False). HasPrefix (ToUpper ''jo31lk'') t))"
proof -
  obtain a where "ownSquareArea ''JO31'' False = Some a" using demo_key(2) by blast
  then show ?thesis
    using own_area_matches_like_tokens [of "''JO31''" False a "''jo31lk''"] by (simp add: IsLocator_def bt_def)
qed

section \<open>Statistics\<close>

text \<open>
  C22: The quickselect of \<open>medianAndP90Float\<close> returns, for every list, and it always returns,
  the two values that the sorting \<open>percentileFloat\<close> of the reference defines.
\<close>

theorem quickselect_is_percentile:
  "medianAndP90Float xs = Some (percentileFloat xs (1/2), percentileFloat xs (9/10))"
  by (rule medianAndP90Float_ok)

text \<open>
  C23: The counting pass of \<open>medianAndP90Int\<close> (and its sorting fallback for a wide spread)
  returns the same two percentiles as sorting, for values whose spread cannot overflow.
\<close>

theorem counting_pass_is_percentile:
  assumes "\<forall>x\<in>set xs. - (2 ^ 61) \<le> x \<and> x \<le> 2 ^ 61"
  shows "medianAndP90Int xs = Some (percentileInt xs (1/2), percentileInt xs (9/10))"
  using assms by (rule medianAndP90Int_ok)

theorem counting_pass_is_percentile_witness:
  "medianAndP90Int [-3, 20, 7] = Some (percentileInt [-3, 20, 7] (1/2), percentileInt [-3, 20, 7] (9/10))"
  by (rule counting_pass_is_percentile) simp

text \<open>
  C24: The expected count of a live span is the integral of the per-slot rate over it: the
  walk over half-hour segments equals the sum over seconds, and it declines exactly when a
  slot of the span has no cluster baseline.
\<close>

theorem expected_count_is_integral:
  assumes "length rates = 48" and "length used = 48" and "start < finish"
  shows "expectedClusterCount rates used start finish =
    (if \<forall>s\<in>{start..<finish}. used ! nat (utcSlotOfDay s)
     then Some (\<Sum>s\<in>{start..<finish}. rates ! nat (s mod 86400 div 1800) / 60) else None)"
  using assms expectedClusterCount_loop_spec [of start finish rates used 0]
  by (simp add: expectedClusterCount_def SlotsOfDay_def per_second_def utcSlotOfDay_eq)

theorem expected_count_is_integral_witness:
  "expectedClusterCount (replicate 48 6) (replicate 48 True) 0 10 = Some 1"
proof -
  have "nat (s mod 86400 div 1800) < 48" for s :: int
  proof -
    have "s mod 86400 div 1800 < 48" by (simp add: div_less_iff_less_mult)
    then show ?thesis by simp
  qed
  then show ?thesis
    using expected_count_is_integral [of "replicate 48 6" "replicate 48 True" 0 10]
    by (simp add: utcSlotOfDay_eq)
qed

text \<open>
  The live range without a gap: the segments cover exactly the seconds of the span
  outside the gap, and their lengths add up to that many seconds.
\<close>

theorem live_segments_cover:
  assumes "start \<le> finish"
  shows "seg_set (liveSegments gapStart gapEnd start finish) = {start..<finish} - {gapStart..<gapEnd} \<and>
    sum_list (map (\<lambda>(a, b). b - a) (liveSegments gapStart gapEnd start finish))
      = int (card ({start..<finish} - {gapStart..<gapEnd}))"
  using liveSegments_set liveSegments_disjoint [OF assms] by blast

theorem live_segments_cover_witness:
  "seg_set (liveSegments 3 5 0 9) = {0..<9} - {3..<5}"
  using live_segments_cover [of 0 9 3 5] by simp

text \<open>
  C31: The baseline quartiles are weighted quantiles: each is the score of a plausible pair,
  the pairs scoring at most it carry at least a quarter (three quarters) of the weight and
  those scoring less carry less, and the lower quartile is not above the upper.
\<close>

theorem baseline_quartiles:
  assumes "quantilesFromPairs pairs = Some (q25, q75)"
  shows "q25 \<le> q75 \<and>
    (\<forall>(q, f)\<in>{(q25, 1/4 :: real), (q75, 3/4)}.
       q \<in> (\<lambda>p. pairScore (maxCountOf 0 pairs) p) ` {p \<in> set pairs. plausibleBaselinePair p} \<and>
       of_int (sumPairs pairs) * f
         \<le> of_int (weight_le q (map (\<lambda>p. (pairScore (maxCountOf 0 pairs) p, Count p)) (filter plausibleBaselinePair pairs))) \<and>
       of_int (weight_lt q (map (\<lambda>p. (pairScore (maxCountOf 0 pairs) p, Count p)) (filter plausibleBaselinePair pairs)))
         < of_int (sumPairs pairs) * f)"
  using quantilesFromPairs_spec [OF assms] by (simp add: image_image)

theorem baseline_quartiles_witness:
  "\<exists>q25 q75. quantilesFromPairs [\<lparr>DistanceTier = 2, SnrTier = 1, Count = 300\<rparr>] = Some (q25, q75) \<and> q25 \<le> q75"
proof -
  obtain q25 q75 where "quantilesFromPairs [\<lparr>DistanceTier = 2, SnrTier = 1, Count = 300\<rparr>] = Some (q25, q75)"
    by (simp add: quantilesFromPairs_def plausibleBaselinePair_def maxPlausibleBaselineCount_def
        dxMinBaselineQuantileSupport_def Let_def)
  then show ?thesis using baseline_quartiles by blast
qed

text \<open>
  The interpolated 90th percentile of five distance tiers lies in the range of the
  tiers, 0 to 12000 km, whatever the weights.
\<close>

theorem tier_p90_in_range:
  assumes "length weights = 5"
  shows "0 \<le> p90FromTierWeights weights \<and> p90FromTierWeights weights \<le> 12000"
  using assms by (rule p90FromTierWeights_bounds)

theorem tier_p90_in_range_witness:
  "0 \<le> p90FromTierWeights [1, 0, 2, 0, 1] \<and> p90FromTierWeights [1, 0, 2, 0, 1] \<le> 12000"
  by (rule tier_p90_in_range) simp

section \<open>Ingest\<close>

text \<open>
  C35: The fast parser reads every minimal payload back: for any blanks and either order of
  the keys, the text of \<open>t\<close> and \<open>rp\<close> parses to \<open>t\<close> and \<open>rp\<close>.
\<close>

theorem minimal_payload_round_trip:
  assumes "\<forall>w\<in>{w1, w2, w3, w4, a1, a2, a3, b1, b2, b3}. blank w" and "in_range t" and "in_range rp"
  shows "fastParseMinimalPSKR
      (w1 @ ''{'' @ w2 @ member ''t'' a1 a2 t a3 @ '','' @ w3 @ member ''rp'' b1 b2 rp b3 @ ''}'' @ w4) = Some (t, rp) \<and>
    fastParseMinimalPSKR
      (w1 @ ''{'' @ w2 @ member ''rp'' a1 a2 rp a3 @ '','' @ w3 @ member ''t'' b1 b2 t b3 @ ''}'' @ w4) = Some (t, rp)"
  using assms by (intro conjI fastParse_text) simp_all

theorem minimal_payload_round_trip_witness:
  "fastParseMinimalPSKR (''{'' @ member ''t'' [] [] 1700000000 [] @ '','' @ '' '' @ member ''rp'' [] [] (-7) [] @ ''}'')
     = Some (1700000000, -7)"
  using minimal_payload_round_trip [of "[]" "[]" "'' ''" "[]" "[]" "[]" "[]" "[]" "[]" "[]" 1700000000 "-7"]
  by (simp add: blank_def is_ws_def in_range_def)



text \<open>
  A minimal payload on a full PSKReporter topic is ingested exactly when its mode is FT8
  or FT4, as the message whose fields are the topic's, trimmed, upper-cased, with the dots of
  the callsigns turned back into slashes, and the arrival time when the payload has none.
\<close>

theorem minimal_payload_ingest:
  assumes "\<forall>f\<in>{b, md, sc, rc, sl, rl}. topic_field f" and "fastParseMinimalPSKR payload = Some (t, rp)"
  shows "ingestPSKRMessage unmarshal now (pskrTopic b md sc rc sl rl) payload =
    (if ToUpper (TrimSpace md) \<in> {''FT8'', ''FT4''}
     then Some (emptyMessage\<lparr>T := if t = 0 then now else t, RP := rp, B := TrimSpace b, MD := ToUpper (TrimSpace md),
        SC := ToUpper (TrimSpace (dotsToSlashes sc)), RC := ToUpper (TrimSpace (dotsToSlashes rc)),
        SL := ToUpper (TrimSpace sl), RL := ToUpper (TrimSpace rl)\<rparr>)
     else None)"
  using assms by (intro ingest_minimal) simp_all

theorem minimal_payload_ingest_witness:
  "ingestPSKRMessage (\<lambda>_. None) 5 (pskrTopic ''20m'' ''ft8'' ''W1AW'' ''DL1ABC.P'' ''FN31'' ''JO31'')
     (''{'' @ member ''t'' [] [] 9 [] @ '','' @ member ''rp'' [] [] 3 [] @ ''}'')
   = Some (emptyMessage\<lparr>T := 9, RP := 3, B := ''20m'', MD := ''FT8'', SC := ''W1AW'', RC := ''DL1ABC/P'', SL := ''FN31'', RL := ''JO31''\<rparr>)"
proof -
  have "fastParseMinimalPSKR (''{'' @ member ''t'' [] [] 9 [] @ '','' @ member ''rp'' [] [] 3 [] @ ''}'') = Some (9, 3)"
    using fastParse_text(1) [of "[]" "[]" "[]" "[]" "[]" "[]" "[]" "[]" "[]" "[]" 9 3]
    by (simp add: blank_def in_range_def)
  from minimal_payload_ingest [OF _ this] show ?thesis
    by (simp add: topic_field_def TrimSpace_def is_space_def upper_char_def dotsToSlashes_def char_of_eq_iff)
qed

text \<open>
  C37: Whatever the payload and topic, a message that is ingested has a trimmed band, its
  other fields (mode, callsigns, locators) trimmed and upper-cased, mode FT8 or FT4, and, as
  the clock is not at zero, a time.
\<close>

theorem ingested_is_normal:
  assumes "ingestPSKRMessage unmarshal now topic payload = Some m" and "now \<noteq> 0"
  shows "(MD m = ''FT8'' \<or> MD m = ''FT4'') \<and> T m \<noteq> 0 \<and> TrimSpace (B m) = B m \<and>
    (\<forall>f\<in>{MD, SC, RC, SL, RL}. ToUpper (TrimSpace (f m)) = f m)"
proof -
  have m: "(MD m = ''FT8'' \<or> MD m = ''FT4'') \<and> T m \<noteq> 0" "normalizeFields m = m" using ingest_normal [OF assms(1)] assms(2) by blast+
  have f: "TrimSpace (B m) = B (normalizeFields m)" "ToUpper (TrimSpace (MD m)) = MD (normalizeFields m)"
    "ToUpper (TrimSpace (SC m)) = SC (normalizeFields m)" "ToUpper (TrimSpace (RC m)) = RC (normalizeFields m)"
    "ToUpper (TrimSpace (SL m)) = SL (normalizeFields m)" "ToUpper (TrimSpace (RL m)) = RL (normalizeFields m)"
    by (simp_all add: normalizeFields_def)
  show ?thesis using m(1) f unfolding m(2) by blast
qed

theorem ingested_is_normal_witness:
  "\<exists>m. ingestPSKRMessage (\<lambda>_. Some (emptyMessage\<lparr>MD := ''ft8'', B := ''20m''\<rparr>)) 7 [] [] = Some m \<and> T m \<noteq> 0"
proof -
  have "fastParseMinimalPSKR [] = None" by (simp add: fastParseMinimalPSKR_def ws_def)
  then obtain m where m: "ingestPSKRMessage (\<lambda>_. Some (emptyMessage\<lparr>MD := ''ft8'', B := ''20m''\<rparr>)) 7 [] [] = Some m"
    by (simp add: ingestPSKRMessage_def emptyMessage_def normalizeFields_def pskrModeFeedsBaseline_def Let_def
        TrimSpace_def is_space_def upper_char_def char_of_eq_iff)
  then show ?thesis using ingested_is_normal [OF m] by auto
qed

section \<open>Matching\<close>

text \<open>
  A callsign matches itself and its portable forms, nothing else: \<open>Q\<close>, \<open>Q/...\<close>,
  \<open>.../Q\<close> and \<open>.../Q/...\<close>; the index arithmetic never leaves the string.
\<close>

theorem callsign_match:
  "matchCall s q \<longleftrightarrow> s = q \<or> HasPrefix s (q @ ''/'') \<or> HasSuffix s (CHR ''/'' # q) \<or> Contains s (CHR ''/'' # q @ ''/'')"
  by (rule matchCall_eq)

text \<open>
  A client's spot: it is made exactly when the sender end matches and a receiver locator
  is known, or only the receiver end matches and a sender locator is known; it sits at the
  other end's square, and its age is never negative.
\<close>

theorem client_spot:
  "matchAndCreateSpot c m now =
     (if endMatches c (SC m) (SL m) \<and> RL m \<noteq> [] \<or> \<not> endMatches c (SC m) (SL m) \<and> endMatches c (RC m) (RL m) \<and> SL m \<noteq> []
      then let loc = ToUpper (if endMatches c (SC m) (SL m) then RL m else SL m)
           in Some \<lparr>Lat = fst (ToLatLng loc), Lng = snd (ToLatLng loc), SNR = RP m, AgeSeconds = max 0 (now - T m),
                Locator = loc, ReporterLocator = reporterLocatorForMessage m,
                SourceType = sourceTypeForMessage m, Band = B m,
                Sender = SC m, Receiver = RC m, spotT = T m, Seq = 0\<rparr>
      else None)"
  by (rule matchAndCreateSpot_eq)

text \<open>
  The bearing of any two points names one of the eight compass sectors: the sector index
  is always in range.
\<close>

theorem bearing_is_a_sector:
  "0 \<le> bearingDegrees lat1 lon1 lat2 lon2 \<and> bearingDegrees lat1 lon1 lat2 lon2 < 360 \<and>
   bearingDirection lat1 lon1 lat2 lon2 \<in> set sectors"
  using bearingDegrees_range bearingDirection_in by blast

text \<open>
  The bitmap counts distinct squares: after any insertions of valid locators the counter
  is the number of different squares among them.
\<close>

theorem bitmap_counts_squares:
  assumes "\<forall>x\<in>set locs. IsLocator x"
  shows "squareSet_count (Some (foldl squareSet_add squareSet_empty locs)) = card (SquareXY ` set locs)"
  using assms by (rule squares_card)

theorem bitmap_counts_squares_witness:
  "squareSet_count (Some (foldl squareSet_add squareSet_empty [''JO31aa'', ''JO31zz''])) = 1"
  using bitmap_counts_squares [of "[''JO31aa'', ''JO31zz'']"]
  by (simp add: SquareXY_def bt_def)

section \<open>Locators and clusters\<close>

text \<open>
  The squares around a locator are exactly the grid squares within the ring distance,
  each once, and never outside the 180 x 180 grid.
\<close>

theorem rings_are_a_block:
  assumes "SquareXY locator = Some (cx, cy)" and "0 \<le> rings"
  shows "set (SquaresWithinRings locator rings)
      = {SquareXYToLocator x y | x y. on_grid x y \<and> \<bar>x - cx\<bar> \<le> rings \<and> \<bar>y - cy\<bar> \<le> rings} \<and>
    distinct (SquaresWithinRings locator rings) \<and>
    length (SquaresWithinRings locator rings) \<le> nat (2 * rings + 1) * nat (2 * rings + 1)"
  using SquaresWithinRings_block [OF assms(1), of rings] assms(2) exact.set_block exact.distinct_block exact.length_block
  by (simp add: chebyshev_le_def)

theorem rings_are_a_block_witness:
  "distinct (SquaresWithinRings ''AA00'' 1)"
  using rings_are_a_block [of "''AA00''" 0 0 1] by (simp add: SquareXY_def bt_def)

text \<open>
  The centre of a square converts back to the square: for every 4- or 5-character
  locator, at any precision but the field's.
\<close>

theorem square_centre_round_trip:
  assumes "SquareXY s = Some (x, y)" and "length s < 6" and "precision \<noteq> 2"
  shows "(let (lat, lng) = ToLatLng s in FromLatLng lat lng precision) = take 4 s"
  using assms by (rule FromLatLng_ToLatLng)

theorem square_centre_round_trip_witness:
  "(let (lat, lng) = ToLatLng ''JO31'' in FromLatLng lat lng 4) = ''JO31''"
  using square_centre_round_trip [of "''JO31''" 93 141 4] by (simp add: SquareXY_def bt_def)

text \<open>
  Cluster membership by coordinates is cluster equality by name: a locator, in any case,
  is in the cluster anchored at a square exactly when its own anchor is that square.
\<close>

theorem cluster_membership:
  assumes "ClusterAnchor anchor = Some a" and "SquareXY a = Some (ax, ay)"
  shows "InCluster s ax ay \<longleftrightarrow> ClusterAnchor (ToUpper s) = Some a"
  using assms by (rule InCluster_ClusterAnchor)

theorem cluster_membership_witness:
  "InCluster ''jo31lk'' 90 138 \<longleftrightarrow> ClusterAnchor (ToUpper ''jo31lk'') = Some ''JN08''"
proof -
  have "ClusterAnchor ''JN08'' = Some ''JN08''" "SquareXY ''JN08'' = Some (90, 138)"
    by (simp_all add: ClusterAnchor_def SquareXY_def ClusterAnchorXY_def ClusterSide_def SquareXYToLocator_def
        quot_nonneg bt_def char_of_eq_iff)
  then show ?thesis by (rule cluster_membership)
qed

section \<open>Baseline keys and counters\<close>

text \<open>
  Baseline keys identify their bucket: two keys over bands without a bar are equal only
  for the same band, slot and tiers.
\<close>

theorem baseline_keys_identify:
  assumes "no_bar band" and "no_bar band'" and "\<forall>x\<in>{a, b, c, a', b', c'}. tier_range x"
    and "baselineKey band a b c = baselineKey band' a' b' c'"
  shows "band = band' \<and> a = a' \<and> b = b' \<and> c = c'"
  using baselineKey_inj [OF assms(1,2) _ _ _ _ _ _ assms(4)] assms(3) by simp

theorem baseline_keys_identify_witness:
  "baselineKey ''20m'' 3 1 2 \<noteq> baselineKey ''20m'' 31 2 0"
  using baseline_keys_identify [of "''20m''" "''20m''" 3 1 2 31 2 0] by (auto simp: no_bar_def tier_range_def)

text \<open>
  Counting by second is counting: after any additions that all succeed, the sum over a
  time range is the sum of what was added in that range, band by band, wherever the seconds
  were kept (dense window or overflow map).
\<close>

theorem second_counts_sum:
  assumes "sc_ok s" and "\<forall>(t, slot, n)\<in>set es. slot < clusterBandSlots" and "j < clusterBandSlots"
    and "adds secondCounts_add s es = Some s'"
  shows "secondCounts_sum s' lo hi ! j = secondCounts_sum s lo hi ! j + (\<Sum>t\<in>{lo..hi}. added es t j)"
proof -
  have "sc_ok s'" "count_at s' t j = count_at s t j + added es t j" for t
    using sc.adds_count [of s es j s'] assms by simp_all
  moreover have "j < 13" using assms(3) by simp
  ultimately show ?thesis
    using secondCounts_sum_spec [of s j lo hi] secondCounts_sum_spec [of s' j lo hi] assms(1)
    by (simp add: sum.distrib)
qed

definition demoCounts :: secondCounts where
  "demoCounts = secondCounts_setSpan 60 (secondCounts_reset (cc newEntry))"

theorem second_counts_sum_witness:
  "\<exists>s'. adds secondCounts_add demoCounts [(1000, 2, 1), (1001, 2, 3), (1001, 4, 5)] = Some s' \<and> secondCounts_sum s' 1000 1001 ! 2 = 4"
proof -
  have ok: "sc_ok demoCounts" by (simp add: demoCounts_def reset_count)
  have zero: "secondCounts_sum demoCounts 1000 1001 ! 2 = 0"
    using secondCounts_sum_spec [OF ok] by (simp add: demoCounts_def reset_count)
  obtain s' where s': "adds secondCounts_add demoCounts [(1000, 2, 1), (1001, 2, 3), (1001, 4, 5)] = Some s'"
    by (auto simp: demoCounts_def secondCounts_add_def secondCounts_reset_def secondCounts_setSpan_def
        secondCountsForward_def secondCountsSlack_def liveRateWindowMinutes_def maxDxWindowMinutes_def Let_def)
  have "{1000..1001} = {1000, 1001::int}" by auto
  then show ?thesis
    using second_counts_sum [OF ok _ _ s', of 2 1000 1001] zero s' by (simp add: added_def)
qed

text \<open>
  Eviction removes the least recently used area: the key the scan picks belongs to an
  entry no other entry is older than.
\<close>

theorem eviction_is_lru:
  assumes "cache_ok g hz c" and "ac_m c \<noteq> []"
  shows "\<exists>e. (oldestKey (ac_m c), e) \<in> set (ac_m c) \<and> (\<forall>(k', e')\<in>set (ac_m c). lastUsed e \<le> lastUsed e')"
proof -
  have "\<forall>(k, e)\<in>set (ac_m c). lastUsed e < 2 ^ 64 - 1" using assms(1) by (fastforce simp: cache_ok_def)
  then show ?thesis using oldestKey_spec [OF assms(2)] by metis
qed

theorem eviction_is_lru_witness:
  "oldestKey [(demoKey, newEntry)] = demoKey"
proof -
  have "cache_ok (\<lambda>_. emptyMessage) 0 \<lparr>ac_m = [(demoKey, newEntry)], tick = 4\<rparr>"
    by (simp add: cache_ok_def areaIndexMaxEntries_def newEntry_ok, simp add: newEntry_def)
  from eviction_is_lru [OF this] show ?thesis by simp
qed

end
